(* ===== verification/Prelude.thy ===== *)
theory Prelude
  imports Main "HOL-Library.Word" "HOL-Library.AList"
begin

unbundle bit_operations_syntax

text \<open>
  The vocabulary the component theories share: Go's fixed-width integers as words, the
  \<open>(value, error)\<close> results of Go functions as the sum type \<open>'e + 'a\<close> with its sequencing
  operation \<open>bind\<close>, Go's slice expressions, and the generic lemmas on sums, lists, maps and
  words that the component proofs use. Facts that unfold an operation of a component are
  collected in \<open>wire_defs\<close>, \<open>runtime_defs\<close> and \<open>endpoint_defs\<close>.
\<close>

named_theorems wire_defs
named_theorems runtime_defs
named_theorems endpoint_defs

type_synonym byte = "8 word"
type_synonym u16 = "16 word"
type_synonym u32 = "32 word"
type_synonym u64 = "64 word"
type_synonym bytes = "byte list"

section \<open>Results of fallible operations\<close>

text \<open>
  \<open>x, err := f(); if err != nil { return err }; ...\<close> is \<open>bind (f ...) (\<lambda>x. ...)\<close>.
\<close>

definition bind :: "'e + 'a \<Rightarrow> ('a \<Rightarrow> 'e + 'b) \<Rightarrow> 'e + 'b" where
  "bind r k = (case r of Inl e \<Rightarrow> Inl e | Inr x \<Rightarrow> k x)"

definition map_err :: "('e \<Rightarrow> 'f) \<Rightarrow> 'e + 'a \<Rightarrow> 'f + 'a" where
  "map_err f r = (case r of Inl e \<Rightarrow> Inl (f e) | Inr x \<Rightarrow> Inr x)"

section \<open>Go's int\<close>

text \<open>The range of Go's \<open>int\<close> (and \<open>int64\<close>) on the 64-bit platforms the program targets.\<close>

definition maxInt :: int where
  "maxInt = 2 ^ 63 - 1"

definition int64_range :: "int set" where
  "int64_range = {- (2 ^ 63) .. 2 ^ 63 - 1}"

text \<open>The value of an \<open>int\<close> expression whose exact value is \<open>i\<close>: arithmetic wraps at 64 bits.\<close>

definition wrap64 :: "int \<Rightarrow> int" where
  "wrap64 i = signed_take_bit 63 i"

text \<open>The conversion \<open>uint64(i)\<close> of an \<open>int\<close>: two's complement.\<close>

definition uint64 :: "int \<Rightarrow> u64" where
  "uint64 i = word_of_int i"

section \<open>Texts\<close>

text \<open>Go strings are byte sequences; the bytes of a text.\<close>

definition string_bytes :: "string \<Rightarrow> bytes" where
  "string_bytes = map (\<lambda>c. word_of_nat (of_char c))"

definition bytes_string :: "bytes \<Rightarrow> string" where
  "bytes_string = map (\<lambda>b. char_of (unat b))"

section \<open>Lemmas on results\<close>

lemma bind_Inl [simp]: "bind (Inl e) k = Inl e"
  by (simp add: bind_def)

lemma bind_Inr [simp]: "bind (Inr x) k = k x"
  by (simp add: bind_def)

lemma bind_eq_Inr [simp]: "bind r k = Inr y \<longleftrightarrow> (\<exists>x. r = Inr x \<and> k x = Inr y)"
  by (cases r) auto

lemma bind_eq_Inl: "bind r k = Inl e \<longleftrightarrow> r = Inl e \<or> (\<exists>x. r = Inr x \<and> k x = Inl e)"
  by (cases r) auto

lemma bind_assoc: "bind (bind r k) h = bind r (\<lambda>x. bind (k x) h)"
  by (cases r) auto

lemma map_err_simps [simp]:
  "map_err f (Inl e) = Inl (f e)" "map_err f (Inr x) = Inr x"
  by (simp_all add: map_err_def)

lemma map_err_eq_Inr [simp]: "map_err f r = Inr x \<longleftrightarrow> r = Inr x"
  by (cases r) auto

section \<open>Association lists\<close>

text \<open>A Go map that is counted is an association list with distinct keys.\<close>

lemma length_alist_update: "length (AList.update k v xs) = (if map_of xs k = None then Suc (length xs) else length xs)"
  by (induction xs) auto

section \<open>Lemmas on words\<close>

lemma unat_uint64:
  assumes "0 \<le> i" "i < 2 ^ 64"
  shows "unat (uint64 i) = nat i"
proof -
  have "uint (uint64 i) = i"
    using assms by (simp add: uint64_def uint_word_of_int)
  then show ?thesis
    by (simp add: unat_eq_nat_uint)
qed

lemma unat_byte: "unat (b :: byte) < 256"
  using unsigned_less [of b, where ?'a = nat] by simp

lemma or_add: "(a :: 'a::len word) AND b = 0 \<Longrightarrow> a OR b = a + b"
  by (simp add: disjunctive_add_eq_or)

lemma base_256_inject:
  assumes "a * 256 + r = d * 256 + (t :: nat)" "r < 256" "t < 256"
  shows "a = d" "r = t"
proof -
  have "a = (a * 256 + r) div 256" "r = (a * 256 + r) mod 256"
    using assms(2) by simp_all
  with assms show "a = d" "r = t"
    by simp_all
qed

lemma wrap64_id: "i \<in> int64_range \<Longrightarrow> wrap64 i = i"
  by (simp add: wrap64_def int64_range_def signed_take_bit_int_eq_self)

lemma wrap64_range: "wrap64 i \<in> int64_range"
  using signed_take_bit_int_greater_eq_minus_exp [of 63 i]
    signed_take_bit_int_less_exp [of 63 i]
  by (auto simp: wrap64_def int64_range_def)

text \<open>An addition of a small constant that ends up non-negative did not wrap.\<close>

lemma wrap64_add_nonneg:
  assumes "m \<in> int64_range" "0 \<le> m" "0 \<le> c" "c < 2 ^ 63" "0 \<le> wrap64 (m + c)"
  shows "wrap64 (m + c) = m + c"
proof (cases "m + c < 2 ^ 63")
  case True
  with assms show ?thesis
    by (intro wrap64_id) (simp add: int64_range_def)
next
  case False
  have "wrap64 (m + c) = wrap64 (m + c - 2 ^ 64)"
    unfolding wrap64_def signed_take_bit_eq_iff_take_bit_eq take_bit_eq_mod
    using mod_diff_right_eq [of "m + c" "2 ^ 64" "2 ^ Suc 63"] by simp
  also have "\<dots> = m + c - 2 ^ 64"
    using assms False by (intro wrap64_id) (simp add: int64_range_def)
  finally show ?thesis
    using assms by (simp add: int64_range_def)
qed

lemma unat_of_nat_u64: "n < 2 ^ 64 \<Longrightarrow> unat (of_nat n :: u64) = n"
  by (simp add: unsigned_of_nat take_bit_nat_eq_self)

section \<open>Lemmas on texts\<close>

lemma of_char_less: "(of_char c :: nat) < 256"
  by (metis of_char_mod_256 mod_less_divisor zero_less_numeral)

lemma bytes_string_string_bytes [simp]: "bytes_string (string_bytes t) = t"
  using of_char_less by (simp add: bytes_string_def string_bytes_def o_def unsigned_of_nat take_bit_nat_eq_self)

lemma string_bytes_inject [simp]: "string_bytes t = string_bytes u \<longleftrightarrow> t = u"
  using bytes_string_string_bytes by metis

lemma length_string_bytes [simp]: "length (string_bytes t) = length t"
  by (simp add: string_bytes_def)

lemma string_bytes_simps [simp]:
  "string_bytes [] = []" "string_bytes (c # s) = word_of_nat (of_char c) # string_bytes s" "string_bytes (s @ t) = string_bytes s @ string_bytes t"
  by (simp_all add: string_bytes_def)

end
