(* ===== verification/Varint.thy ===== *)
theory Varint
  imports Prelude
begin

unbundle bit_operations_syntax

text \<open>
  \<open>internal/wire/varint.go\<close>: QUIC variable-length integers. \<open>VarintLen\<close>, \<open>AppendVarint\<close> and
  \<open>DecodeVarint\<close> work on byte slices; \<open>ReadVarint\<close> reads from an \<open>io.ByteReader\<close>, modelled by
  the bytes still to come and the error that follows them. The lemmas show that decoding inverts
  encoding with any trailing bytes, that a decoded prefix is the one encoding of its value, and
  that the streaming reader agrees with the slice decoder.
\<close>

section \<open>Errors of the package and readers\<close>

datatype io_error = EOF | UnexpectedEOF | IOFailure nat

datatype wire_error =
    ErrTruncated | ErrNonMinimal | ErrValueTooLarge
  | ErrInvalidKind | ErrTooLarge | ErrMalformed
  | ErrInvalidControl | ErrDuplicateKey | ErrNesting
  | ErrExtraHeaderBytes
  | IOError io_error

text \<open>An \<open>io.ByteReader\<close>: the bytes it still delivers, then the error it ends with.\<close>

datatype reader = Reader (pending: bytes) (ending: io_error)

fun ReadByte :: "reader \<Rightarrow> io_error + (byte \<times> reader)" where
  "ReadByte (Reader [] e) = Inl e"
| "ReadByte (Reader (b # bs) e) = Inr (b, Reader bs e)"

text \<open>\<open>io.ReadFull(r, buf)\<close> for a buffer of \<open>n\<close> bytes: an end of input in the middle is
  \<open>io.ErrUnexpectedEOF\<close>, before the first byte \<open>io.EOF\<close>.\<close>

definition ReadFull :: "reader \<Rightarrow> nat \<Rightarrow> io_error + (bytes \<times> reader)" where
  "ReadFull r n =
     (if n \<le> length (pending r)
      then Inr (take n (pending r), Reader (drop n (pending r)) (ending r))
      else if ending r = EOF \<and> pending r \<noteq> [] then Inl UnexpectedEOF
      else Inl (ending r))"

section \<open>The codec\<close>

definition MaxVarint :: u64 where
  "MaxVarint = push_bit 62 1 - 1"

definition VarintLen :: "u64 \<Rightarrow> nat" where
  "VarintLen v =
     (if v \<le> 63 then 1
      else if v \<le> 16383 then 2
      else if v \<le> 1073741823 then 4
      else if v \<le> MaxVarint then 8
      else 0)"

definition varint_bytes :: "nat \<Rightarrow> u64 \<Rightarrow> bytes" where
  "varint_bytes n v =
     (if n = 1 then [ucast v]
      else if n = 2 then [ucast (drop_bit 8 v) OR 0x40, ucast v]
      else if n = 4 then
        [ucast (drop_bit 24 v) OR 0x80, ucast (drop_bit 16 v), ucast (drop_bit 8 v), ucast v]
      else if n = 8 then
        (ucast (drop_bit 56 v) OR 0xc0) # map (\<lambda>i. ucast (drop_bit (8 * (7 - i)) v)) [1..<8]
      else [])"

definition AppendVarint :: "bytes \<Rightarrow> u64 \<Rightarrow> wire_error + bytes" where
  "AppendVarint dst v =
     (let n = VarintLen v in
      if n = 0 then Inl ErrValueTooLarge else Inr (dst @ varint_bytes n v))"

definition DecodeVarint :: "bytes \<Rightarrow> wire_error + (u64 \<times> nat)" where
  "DecodeVarint src =
     (case src of [] \<Rightarrow> Inl ErrTruncated
      | b # bs \<Rightarrow>
         (let n = 2 ^ unat (drop_bit 6 b) in
          if length src < n then Inl ErrTruncated
          else
            (let v = fold (\<lambda>c v. push_bit 8 v OR ucast c) (take (n - 1) bs) (ucast (b AND 0x3f)) in
             if VarintLen v \<noteq> n then Inl ErrNonMinimal else Inr (v, n))))"

text \<open>The loop of \<open>ReadVarint\<close>: \<open>k\<close> more bytes shifted into \<open>v\<close>.\<close>

fun read_more :: "nat \<Rightarrow> u64 \<Rightarrow> reader \<Rightarrow> wire_error + (u64 \<times> reader)" where
  "read_more 0 v r = Inr (v, r)"
| "read_more (Suc k) v r =
     (case ReadByte r of
        Inl e \<Rightarrow> Inl (if e = EOF then ErrTruncated else IOError e)
      | Inr (b, r') \<Rightarrow> read_more k (push_bit 8 v OR ucast b) r')"

definition ReadVarint :: "reader \<Rightarrow> wire_error + (u64 \<times> reader)" where
  "ReadVarint r =
     (case ReadByte r of
        Inl e \<Rightarrow> Inl (IOError e)
      | Inr (first, r') \<Rightarrow>
         (let n = 2 ^ unat (drop_bit 6 first) in
          bind (read_more (n - 1) (ucast (first AND 0x3f)) r') (\<lambda>(v, r'').
            if VarintLen v \<noteq> n then Inl ErrNonMinimal else Inr (v, r''))))"

lemmas [wire_defs] = MaxVarint_def VarintLen_def

section \<open>Bytes as numbers\<close>

definition be_nat :: "bytes \<Rightarrow> nat \<Rightarrow> nat" where
  "be_nat bs a = fold (\<lambda>c a. a * 256 + unat c) bs a"

lemma be_nat_Nil [simp]: "be_nat [] a = a"
  and be_nat_Cons [simp]: "be_nat (b # bs) a = be_nat bs (a * 256 + unat b)"
  by (simp_all add: be_nat_def)

lemma unat_MaxVarint: "unat MaxVarint = 2 ^ 62 - 1"
  by (simp add: MaxVarint_def push_bit_eq_mult unat_sub_if_size word_size)

lemma VarintLen_unat:
  "VarintLen v =
     (if unat v < 2 ^ 6 then 1 else if unat v < 2 ^ 14 then 2
      else if unat v < 2 ^ 30 then 4 else if unat v < 2 ^ 62 then 8 else 0)"
  by (auto simp: VarintLen_def word_le_nat_alt unat_MaxVarint)

lemma VarintLen_le_8: "VarintLen v \<le> 8"
  by (simp add: VarintLen_def)

lemma VarintLen_pos_iff: "0 < VarintLen v \<longleftrightarrow> v \<le> MaxVarint"
  by (auto simp: VarintLen_unat word_le_nat_alt unat_MaxVarint)

lemma shift_in_byte:
  fixes v :: u64 and c :: byte
  assumes "unat v < 2 ^ 56"
  shows "unat (push_bit 8 v OR ucast c) = unat v * 256 + unat c"
proof -
  have "push_bit 8 v AND ucast c = 0"
    by (rule bit_word_eqI) (auto simp: bit_simps dest: bit_imp_le_length)
  then have "push_bit 8 v OR ucast c = push_bit 8 v + ucast c"
    by (rule or_add)
  moreover have "unat (push_bit 8 v) = unat v * 256"
    using assms by (simp add: push_bit_eq_mult unat_word_ariths unat_mult_lem)
  moreover have "unat (ucast c :: u64) = unat c"
    by (simp add: unsigned_ucast_eq take_bit_nat_eq_self order_less_le_trans [OF unat_byte])
  moreover have "unat c < 256"
    by (rule unat_byte)
  ultimately show ?thesis
    using assms by (simp add: unat_word_ariths)
qed

lemma unat_fold_bytes:
  fixes v :: u64
  assumes "(unat v + 1) * 256 ^ length bs \<le> 2 ^ 64"
  shows "unat (fold (\<lambda>c v. push_bit 8 v OR ucast c) bs v) = be_nat bs (unat v)"
  using assms
proof (induction bs arbitrary: v)
  case Nil
  then show ?case by simp
next
  case (Cons b bs)
  have "(256 :: nat) ^ 1 \<le> 256 ^ length (b # bs)"
    by (rule power_increasing) auto
  then have "(unat v + 1) * 256 \<le> (unat v + 1) * 256 ^ length (b # bs)"
    by (intro mult_left_mono) simp_all
  with Cons.prems have "(unat v + 1) * 256 \<le> 2 ^ 64"
    by (rule order_trans [rotated])
  then have "unat v < 2 ^ 56"
    by simp
  then have eq: "unat (push_bit 8 v OR ucast b) = unat v * 256 + unat b"
    by (rule shift_in_byte)
  have "unat b < 256"
    by (rule unat_byte)
  then have "(unat v * 256 + unat b + 1) * 256 ^ length bs \<le> (unat v + 1) * 256 * 256 ^ length bs"
    by (intro mult_right_mono) auto
  also have "\<dots> \<le> 2 ^ 64"
    using Cons.prems by (simp add: algebra_simps)
  finally show ?case
    using Cons.IH by (simp add: eq)
qed

lemma be_nat_inject:
  assumes "length bs = length cs" "be_nat bs a = be_nat cs d"
  shows "bs = cs \<and> a = d"
  using assms
proof (induction bs cs arbitrary: a d rule: list_induct2)
  case Nil
  then show ?case by simp
next
  case (Cons b bs c cs)
  then have eq: "bs = cs" "a * 256 + unat b = d * 256 + unat c"
    by auto
  from base_256_inject [OF eq(2) unat_byte unat_byte] eq(1) show ?case
    by (simp add: word_unat_eq_iff)
qed

section \<open>The first byte: length tag and payload bits\<close>

lemma unat_and_3f: "unat (b AND 0x3f :: byte) = unat b mod 64"
proof -
  have "b AND 0x3f = take_bit 6 b"
    by (simp add: take_bit_eq_mask mask_eq_exp_minus_1)
  then show ?thesis
    by (simp add: take_bit_eq_mod unat_mod_distrib)
qed

lemma unat_drop_6: "unat (drop_bit 6 b :: byte) = unat b div 64"
  by (simp add: drop_bit_eq_div unat_div_distrib)

lemma unat_or_tag:
  assumes "unat (b :: byte) < 64"
  shows "unat (b OR 0x40) = unat b + 64" "unat (b OR 0x80) = unat b + 128"
    "unat (b OR 0xc0) = unat b + 192"
proof -
  have b: "b = take_bit 6 b"
    using assms by (intro word_unat_eq_iff [THEN iffD2])
      (simp add: take_bit_eq_mod unat_mod_distrib)
  have "b AND 0x40 = 0" "b AND 0x80 = 0" "b AND 0xc0 = 0"
    by (subst b, simp add: take_bit_eq_mask mask_eq_exp_minus_1 and.assoc)+
  then have "b OR 0x40 = b + 0x40" "b OR 0x80 = b + 0x80" "b OR 0xc0 = b + 0xc0"
    by (simp_all add: or_add)
  with assms show "unat (b OR 0x40) = unat b + 64" "unat (b OR 0x80) = unat b + 128"
    "unat (b OR 0xc0) = unat b + 192"
    by (simp_all add: unat_word_ariths)
qed

lemma mod_64_tag:
  assumes "(x :: nat) < 64"
  shows "(x + 128) mod 64 = x" "(x + 192) mod 64 = x"
  using assms mod_mult_self1 [of x 2 64] mod_mult_self1 [of x 3 64] by simp_all

lemma tagged_byte:
  fixes b :: byte
  assumes "unat b < 64"
  shows "unat (drop_bit 6 (b OR 0x40)) = 1" "unat (drop_bit 6 (b OR 0x80)) = 2"
    "unat (drop_bit 6 (b OR 0xc0)) = 3"
    "unat ((b OR 0x40) AND 0x3f) = unat b" "unat ((b OR 0x80) AND 0x3f) = unat b"
    "unat ((b OR 0xc0) AND 0x3f) = unat b"
  using assms by (simp_all only: unat_drop_6 unat_and_3f unat_or_tag) (simp_all add: mod_64_tag)

lemma byte_eqI:
  assumes "drop_bit 6 b = drop_bit 6 (c :: byte)" "b AND 0x3f = c AND 0x3f"
  shows "b = c"
proof -
  have "unat b div 64 = unat c div 64" "unat b mod 64 = unat c mod 64"
    using assms unat_drop_6 unat_and_3f by metis+
  then have "unat b = unat c"
    by (metis div_mult_mod_eq)
  then show ?thesis by (rule word_unat_eq_iff [THEN iffD2])
qed

section \<open>The encoding, byte by byte\<close>

lemma unat_byte_of: "unat (ucast (drop_bit k (v :: u64)) :: byte) = unat v div 2 ^ k mod 256"
proof -
  have "unat (drop_bit k v) = drop_bit k (take_bit 64 (unat v))"
    by (simp only: unsigned_drop_bit_eq) simp
  also have "\<dots> = unat v div 2 ^ k"
    by (subst take_bit_nat_eq_self) (use unsigned_less [of v, where ?'a = nat] in \<open>simp_all add: drop_bit_eq_div\<close>)
  finally have "unat (drop_bit k v) = unat v div 2 ^ k" .
  then show ?thesis
    by (simp only: unsigned_ucast_eq take_bit_eq_mod) simp
qed

lemma unat_byte_of_0: "unat (ucast (v :: u64) :: byte) = unat v mod 256"
  using unat_byte_of [of 0 v] by simp

lemma digit_step: "(x :: nat) div (m * 256) * 256 + x div m mod 256 = x div m"
  by (simp add: div_mult2_eq)

lemma digits_2: "(x :: nat) div 256 * 256 + x mod 256 = x"
  by simp

lemma be_nat_4:
  assumes "x < 2 ^ 32"
  shows "((x div 2 ^ 24 * 256 + x div 2 ^ 16 mod 256) * 256 + x div 2 ^ 8 mod 256) * 256
    + x mod 256 = (x :: nat)"
  using digit_step [of x "2 ^ 16"] digit_step [of x "2 ^ 8"] digits_2 [of x] by simp

lemma be_nat_8:
  "((((((x div 2 ^ 56 * 256 + x div 2 ^ 48 mod 256) * 256 + x div 2 ^ 40 mod 256) * 256
     + x div 2 ^ 32 mod 256) * 256 + x div 2 ^ 24 mod 256) * 256 + x div 2 ^ 16 mod 256) * 256
     + x div 2 ^ 8 mod 256) * 256 + x mod 256 = (x :: nat)"
  using digit_step [of x "2 ^ 48"] digit_step [of x "2 ^ 40"] digit_step [of x "2 ^ 32"]
    digit_step [of x "2 ^ 24"] digit_step [of x "2 ^ 16"] digit_step [of x "2 ^ 8"] digits_2 [of x]
  by simp

text \<open>The shape of an encoding: the tag of the first byte is the length, the rest is the value.\<close>

lemma varint_bytes_shape:
  assumes "0 < VarintLen v"
  obtains b bs where "varint_bytes (VarintLen v) v = b # bs" "length bs = VarintLen v - 1"
    "2 ^ unat (drop_bit 6 b) = VarintLen v" "be_nat bs (unat (b AND 0x3f)) = unat v"
proof -
  consider (1) "unat v < 2 ^ 6" | (2) "2 ^ 6 \<le> unat v" "unat v < 2 ^ 14"
    | (4) "2 ^ 14 \<le> unat v" "unat v < 2 ^ 30" | (8) "2 ^ 30 \<le> unat v" "unat v < 2 ^ 62"
    using assms by (force simp: VarintLen_unat split: if_splits)
  then show thesis
  proof cases
    case 1
    have "unat (ucast v :: byte) = unat v"
      using 1 by (simp add: unat_byte_of_0)
    then show thesis
      using 1 by (intro that [of "ucast v" "[]"])
        (simp_all add: VarintLen_unat varint_bytes_def unat_drop_6 unat_and_3f)
  next
    case 2
    have hi: "unat (ucast (drop_bit 8 v) :: byte) = unat v div 256"
      by (subst unat_byte_of) (use 2 in simp)
    with 2 have "unat (ucast (drop_bit 8 v) :: byte) < 64"
      by simp
    note tag = tagged_byte [OF this]
    show thesis
      by (rule that [of "ucast (drop_bit 8 v) OR 0x40" "[ucast v]"], unfold tag hi)
        (use 2 digits_2 [of "unat v"] in \<open>simp_all add: VarintLen_unat varint_bytes_def unat_byte_of_0\<close>)
  next
    case 4
    have hi: "unat (ucast (drop_bit 24 v) :: byte) = unat v div 2 ^ 24"
      by (subst unat_byte_of) (use 4 in simp)
    with 4 have "unat (ucast (drop_bit 24 v) :: byte) < 64"
      by simp
    note tag = tagged_byte [OF this]
    show thesis
      by (rule that [of "ucast (drop_bit 24 v) OR 0x80"
            "[ucast (drop_bit 16 v), ucast (drop_bit 8 v), ucast v]"], unfold tag hi)
        (use 4 be_nat_4 [of "unat v"] in \<open>simp_all add: VarintLen_unat varint_bytes_def
          unat_byte_of [unfolded unat_byte_of_0] unat_byte_of_0\<close>)
  next
    case 8
    have hi: "unat (ucast (drop_bit 56 v) :: byte) = unat v div 2 ^ 56"
      by (subst unat_byte_of) (use 8 in simp)
    with 8 have "unat (ucast (drop_bit 56 v) :: byte) < 64"
      by simp
    note tag = tagged_byte [OF this]
    show thesis
      by (rule that [of "ucast (drop_bit 56 v) OR 0xc0"
            "map (\<lambda>i. ucast (drop_bit (8 * (7 - i)) v)) [1..<8]"], unfold tag hi)
        (use 8 be_nat_8 [of "unat v"] in \<open>simp_all add: VarintLen_unat varint_bytes_def
          unat_byte_of [unfolded unat_byte_of_0] unat_byte_of_0 upt_rec\<close>)
  qed
qed

lemma AppendVarint_Inr_iff:
  "AppendVarint dst v = Inr out \<longleftrightarrow> 0 < VarintLen v \<and> out = dst @ varint_bytes (VarintLen v) v"
  by (auto simp: AppendVarint_def Let_def)

lemma AppendVarint_ok:
  "v \<le> MaxVarint \<Longrightarrow> AppendVarint dst v = Inr (dst @ varint_bytes (VarintLen v) v)"
  by (simp add: AppendVarint_Inr_iff VarintLen_pos_iff)

lemma AppendVarint_too_large: "AppendVarint dst v = Inl e \<longleftrightarrow> e = ErrValueTooLarge \<and> MaxVarint < v"
  using VarintLen_pos_iff [of v] by (auto simp: AppendVarint_def Let_def not_le)

lemma length_varint_bytes: "length (varint_bytes (VarintLen v) v) = VarintLen v"
  by (simp add: varint_bytes_def VarintLen_def)

section \<open>Decoding\<close>

lemma unat_first_bits: "unat (ucast (b AND 0x3f :: byte) :: u64) = unat (b AND 0x3f)"
  by (simp add: unsigned_ucast_eq take_bit_nat_eq_self order_less_le_trans [OF unat_byte])

lemma unat_decoded:
  fixes b :: byte
  assumes "length bs = 2 ^ unat (drop_bit 6 b) - 1"
  shows "unat (fold (\<lambda>c v. push_bit 8 v OR ucast c) bs (ucast (b AND 0x3f) :: u64))
    = be_nat bs (unat (b AND 0x3f))"
proof -
  have "unat (b AND 0x3f) + 1 \<le> 64"
    by (simp add: unat_and_3f Suc_le_eq)
  moreover have "unat (drop_bit 6 b) \<le> 3"
    using unat_byte [of b] by (simp only: unat_drop_6)
  then have "(2 :: nat) ^ unat (drop_bit 6 b) \<le> 2 ^ 3"
    by (rule power_increasing) simp
  with assms have "length bs \<le> 7"
    by simp
  then have "(256 :: nat) ^ length bs \<le> 256 ^ 7"
    by (rule power_increasing) simp
  ultimately have "(unat (b AND 0x3f) + 1) * 256 ^ length bs \<le> 64 * 256 ^ 7"
    by (rule mult_mono) simp_all
  then show ?thesis
    by (subst unat_fold_bytes) (simp_all add: unat_first_bits)
qed

lemma DecodeVarint_encoded:
  assumes "0 < VarintLen v"
  shows "DecodeVarint (varint_bytes (VarintLen v) v @ rest) = Inr (v, VarintLen v)"
proof -
  obtain b bs where enc: "varint_bytes (VarintLen v) v = b # bs" "length bs = VarintLen v - 1"
    "2 ^ unat (drop_bit 6 b) = VarintLen v" "be_nat bs (unat (b AND 0x3f)) = unat v"
    using assms by (rule varint_bytes_shape)
  have "unat (fold (\<lambda>c v. push_bit 8 v OR ucast c) bs (ucast (b AND 0x3f) :: u64)) = unat v"
    using enc by (subst unat_decoded) simp_all
  then have "fold (\<lambda>c v. push_bit 8 v OR ucast c) bs (ucast (b AND 0x3f)) = v"
    by (simp only: word_unat_eq_iff)
  with enc assms show ?thesis
    by (simp add: DecodeVarint_def Let_def)
qed

lemma DecodeVarint_cases:
  assumes "DecodeVarint src = Inr (v, n)"
  obtains b bs where "src = b # bs" "n = 2 ^ unat (drop_bit 6 b)" "n \<le> length src"
    "VarintLen v = n" "be_nat (take (n - 1) bs) (unat (b AND 0x3f)) = unat v"
proof -
  obtain b bs where src: "src = b # bs"
    using assms by (cases src) (auto simp: DecodeVarint_def)
  let ?n = "2 ^ unat (drop_bit 6 b)"
  let ?v = "fold (\<lambda>c v. push_bit 8 v OR ucast c) (take (?n - 1) bs) (ucast (b AND 0x3f)) :: u64"
  have ok: "n = ?n" "v = ?v" "?n \<le> length src" "VarintLen v = n"
    using assms unfolding src DecodeVarint_def Let_def list.case by (auto split: if_splits)
  moreover have "unat ?v = be_nat (take (?n - 1) bs) (unat (b AND 0x3f))"
    using ok(3) src by (intro unat_decoded) simp
  ultimately show thesis
    using src by (intro that) simp_all
qed

lemma DecodeVarint_canonical:
  assumes "DecodeVarint src = Inr (v, n)"
  shows "n = VarintLen v \<and> 0 < n \<and> n \<le> length src \<and> take n src = varint_bytes n v"
proof -
  obtain b bs where dec: "src = b # bs" "n = 2 ^ unat (drop_bit 6 b)" "n \<le> length src"
    "VarintLen v = n" "be_nat (take (n - 1) bs) (unat (b AND 0x3f)) = unat v"
    using assms by (rule DecodeVarint_cases)
  then have pos: "0 < VarintLen v"
    by simp
  obtain c cs where enc: "varint_bytes (VarintLen v) v = c # cs" "length cs = VarintLen v - 1"
    "2 ^ unat (drop_bit 6 c) = VarintLen v" "be_nat cs (unat (c AND 0x3f)) = unat v"
    using pos by (rule varint_bytes_shape)
  have "take (n - 1) bs = cs \<and> unat (b AND 0x3f) = unat (c AND 0x3f)"
    using dec enc by (intro be_nat_inject) simp_all
  moreover have "(2 :: nat) ^ unat (drop_bit 6 b) = 2 ^ unat (drop_bit 6 c)"
    using dec enc by simp
  then have "unat (drop_bit 6 b) = unat (drop_bit 6 c)"
    by (rule power_inject_exp [THEN iffD1, rotated]) simp
  ultimately have "b = c" "take (n - 1) bs = cs"
    using byte_eqI [of b c] word_unat_eq_iff [of "drop_bit 6 b" "drop_bit 6 c"]
      word_unat_eq_iff [of "b AND 0x3f" "c AND 0x3f"] by blast+
  with dec enc pos show ?thesis
    by (simp add: take_Cons')
qed

section \<open>The streaming reader\<close>

lemma read_more_Reader:
  "read_more k v (Reader bs e) =
     (if k \<le> length bs
      then Inr (fold (\<lambda>c v. push_bit 8 v OR ucast c) (take k bs) v, Reader (drop k bs) e)
      else Inl (if e = EOF then ErrTruncated else IOError e))"
proof (induction k arbitrary: v bs)
  case 0
  then show ?case by simp
next
  case (Suc k)
  then show ?case by (cases bs) auto
qed

section \<open>The encoding of a value, for clients\<close>

abbreviation vb :: "u64 \<Rightarrow> bytes" where
  "vb v \<equiv> varint_bytes (VarintLen v) v"

lemma DecodeVarint_vb: "v \<le> MaxVarint \<Longrightarrow> DecodeVarint (vb v @ rest) = Inr (v, length (vb v))"
  by (simp add: DecodeVarint_encoded VarintLen_pos_iff length_varint_bytes)

lemma DecodeVarint_vb_only: "v \<le> MaxVarint \<Longrightarrow> DecodeVarint (vb v) = Inr (v, length (vb v))"
  using DecodeVarint_vb [of v "[]"] by simp

lemma DecodeVarint_split:
  assumes "DecodeVarint src = Inr (v, n)"
  shows "v \<le> MaxVarint" "n = length (vb v)" "src = vb v @ drop n src"
proof -
  note can = DecodeVarint_canonical [OF assms]
  then show "v \<le> MaxVarint" "n = length (vb v)"
    by (auto simp: VarintLen_pos_iff [symmetric] length_varint_bytes)
  from can show "src = vb v @ drop n src"
    by (metis append_take_drop_id)
qed

lemma ReadVarint_vb: "v \<le> MaxVarint \<Longrightarrow> ReadVarint (Reader (vb v @ rest) e) = Inr (v, Reader rest e)"
proof -
  assume v: "v \<le> MaxVarint"
  then have pos: "0 < VarintLen v"
    by (simp add: VarintLen_pos_iff)
  obtain b bs where enc: "vb v = b # bs" "length bs = VarintLen v - 1"
    "2 ^ unat (drop_bit 6 b) = VarintLen v"
    using pos by (rule varint_bytes_shape) blast
  have "DecodeVarint (b # bs @ rest) = Inr (v, VarintLen v)"
    using DecodeVarint_encoded [OF pos, of rest] enc by simp
  with enc show ?thesis
    by (auto simp: ReadVarint_def DecodeVarint_def read_more_Reader Let_def split: if_splits)
qed

lemma small_le_MaxVarint: "unat v < 2 ^ 62 \<Longrightarrow> v \<le> MaxVarint"
  by (simp add: word_le_nat_alt unat_MaxVarint)

end
