(* ===== verification/Budget.thy ===== *)
theory Budget
  imports Prelude "HOL-Library.Multiset"
begin

text \<open>
  \<open>internal/runtime/budget.go\<close>: the byte ledger behind every library-owned allocation. The mutex
  makes each operation atomic, so an operation is a function on the ledger's state; the one-slot
  \<open>notify\<close> channel is the flag \<open>bu_notify\<close>. A panic is the result \<open>None\<close>. \<open>Wait\<close> can return for
  two reasons, so it is a relation. The locale \<open>ledger\<close> is the contract the clients rely on; its
  lemmas are about holders that acquire charges and release each of them once.
\<close>

section \<open>Model\<close>

datatype ctx_error = Canceled_ctx | DeadlineExceeded_ctx

record Budget =
  bu_max :: int
  bu_used :: int
  bu_notify :: bool

definition NewBudget :: "int \<Rightarrow> Budget option" where
  "NewBudget mx = (if mx < 0 then None else Some \<lparr>bu_max = mx, bu_used = 0, bu_notify = False\<rparr>)"

text \<open>A send to the one-slot channel that drops the token when one is already there.\<close>

definition signal :: "Budget \<Rightarrow> Budget" where
  "signal b = b\<lparr>bu_notify := True\<rparr>"

definition Acquire :: "Budget \<Rightarrow> int \<Rightarrow> bool \<times> Budget" where
  "Acquire b n =
     (if n < 0 \<or> n > bu_max b - bu_used b then (False, b)
      else (True, b\<lparr>bu_used := bu_used b + n\<rparr>))"

definition Release :: "Budget \<Rightarrow> int \<Rightarrow> Budget option" where
  "Release b n =
     (if n < 0 \<or> n > bu_used b then None
      else Some (signal (b\<lparr>bu_used := bu_used b - n\<rparr>)))"

definition Used :: "Budget \<Rightarrow> int" where
  "Used b = bu_used b"

definition Max_budget :: "Budget \<Rightarrow> int" where
  "Max_budget b = bu_max b"

text \<open>\<open>Wait b ctxErr r b'\<close>: with a context whose error is \<open>ctxErr\<close> once it is done, \<open>Wait\<close> may
  return \<open>r\<close> and leave the ledger \<open>b'\<close>. Nothing is related when it stays blocked.\<close>

inductive Wait :: "Budget option \<Rightarrow> ctx_error option \<Rightarrow> ctx_error option \<Rightarrow> Budget option \<Rightarrow> bool" where
  nil_budget: "Wait None c (Some Canceled_ctx) None"
| ctx_done: "Wait (Some b) (Some e) (Some e) (Some b)"
| notified: "bu_notify b \<Longrightarrow> Wait (Some b) c None (Some (b\<lparr>bu_notify := False\<rparr>))"

definition budget_inv :: "Budget \<Rightarrow> bool" where
  "budget_inv b \<longleftrightarrow> 0 \<le> bu_used b \<and> bu_used b \<le> bu_max b"

lemmas [runtime_defs] = NewBudget_def signal_def Acquire_def Release_def budget_inv_def

lemma sum_mset_int_nonneg: "(\<forall>n \<in># M. 0 \<le> n) \<Longrightarrow> 0 \<le> sum_mset (M :: int multiset)"
  by (induction M) auto

section \<open>The contract of a ledger\<close>

text \<open>Holders of charges: a step acquires a charge that then is held, or releases a held one.\<close>

inductive ledger_step ::
  "('s \<Rightarrow> int \<Rightarrow> bool \<times> 's) \<Rightarrow> ('s \<Rightarrow> int \<Rightarrow> 's option) \<Rightarrow>
   's \<times> int multiset \<Rightarrow> 's \<times> int multiset \<Rightarrow> bool"
  for acquire release where
  acquired: "acquire s n = (True, s') \<Longrightarrow> ledger_step acquire release (s, held) (s', add_mset n held)"
| refused: "acquire s n = (False, s') \<Longrightarrow> ledger_step acquire release (s, held) (s', held)"
| released: "n \<in># held \<Longrightarrow> release s n = Some s' \<Longrightarrow>
     ledger_step acquire release (s, held) (s', held - {#n#})"

inductive_cases ledger_stepE: "ledger_step acquire release sh th"

locale ledger =
  fixes acquire :: "'s \<Rightarrow> int \<Rightarrow> bool \<times> 's"
    and release :: "'s \<Rightarrow> int \<Rightarrow> 's option"
    and used :: "'s \<Rightarrow> int"
    and cap :: "'s \<Rightarrow> int"
    and inv :: "'s \<Rightarrow> bool"
  assumes acquire_granted: "inv s \<Longrightarrow> acquire s n = (True, s') \<Longrightarrow>
      0 \<le> n \<and> used s' = used s + n \<and> cap s' = cap s \<and> used s' \<le> cap s \<and> inv s'"
    and acquire_refused: "inv s \<Longrightarrow> acquire s n = (False, s') \<Longrightarrow> used s' = used s \<and> cap s' = cap s \<and> inv s'"
    and release_defined: "inv s \<Longrightarrow> 0 \<le> n \<Longrightarrow> n \<le> used s \<Longrightarrow> release s n \<noteq> None"
    and release_used: "inv s \<Longrightarrow> release s n = Some s' \<Longrightarrow> used s' = used s - n \<and> cap s' = cap s \<and> inv s'"
begin

definition accounted :: "'s \<times> int multiset \<Rightarrow> bool" where
  "accounted sh \<longleftrightarrow> inv (fst sh) \<and> used (fst sh) = sum_mset (snd sh) \<and> used (fst sh) \<le> cap (fst sh)
     \<and> (\<forall>n \<in># snd sh. 0 \<le> n)"

lemma held_le_used:
  assumes "accounted (s, held)" "n \<in># held"
  shows "0 \<le> n" "n \<le> used s"
proof -
  obtain rest where held: "held = add_mset n rest"
    using assms(2) by (metis multi_member_split)
  have "0 \<le> sum_mset rest"
    using assms(1) held by (auto simp: accounted_def intro!: sum_mset_int_nonneg)
  with assms(1) held show "0 \<le> n" "n \<le> used s"
    by (auto simp: accounted_def)
qed

lemma step_accounted:
  assumes "ledger_step acquire release sh th" "accounted sh"
  shows "accounted th"
  using assms
proof (induction rule: ledger_step.induct)
  case (acquired s n s' held)
  with acquire_granted [of s n s'] show ?case
    by (auto simp: accounted_def)
next
  case (refused s n s' held)
  with acquire_refused [of s n s'] show ?case
    by (auto simp: accounted_def)
next
  case (released n held s s')
  then obtain rest where held: "held = add_mset n rest"
    by (metis multi_member_split)
  from held_le_used [OF released.prems released.hyps(1)] released held
    release_used [of s n s'] show ?case
    by (auto simp: accounted_def)
qed

lemma release_held_defined:
  "accounted (s, held) \<Longrightarrow> n \<in># held \<Longrightarrow> release s n \<noteq> None"
  using held_le_used [of s held n] release_defined [of s n] by (simp add: accounted_def)

lemma reachable_accounted:
  assumes "(ledger_step acquire release)\<^sup>*\<^sup>* (s0, {#}) sh" "inv s0" "used s0 = 0" "0 \<le> cap s0"
  shows "accounted sh"
  using assms
proof (induction rule: rtranclp_induct)
  case base
  then show ?case by (simp add: accounted_def)
next
  case (step y z)
  then show ?case by (blast intro: step_accounted)
qed

end

section \<open>Budgets keep the contract\<close>

lemma Acquire_True_iff:
  "Acquire b n = (True, b') \<longleftrightarrow> 0 \<le> n \<and> n \<le> bu_max b - bu_used b \<and> b' = b\<lparr>bu_used := bu_used b + n\<rparr>"
  by (auto simp: Acquire_def)

lemma Acquire_False_iff:
  "Acquire b n = (False, b') \<longleftrightarrow> (n < 0 \<or> n > bu_max b - bu_used b) \<and> b' = b"
  by (auto simp: Acquire_def)

lemma Release_Some_iff:
  "Release b n = Some b' \<longleftrightarrow>
     0 \<le> n \<and> n \<le> bu_used b \<and> b' = b\<lparr>bu_used := bu_used b - n, bu_notify := True\<rparr>"
  by (auto simp: Release_def signal_def)

interpretation budget: ledger Acquire Release bu_used bu_max budget_inv
  by unfold_locales
    (auto simp: Acquire_True_iff Acquire_False_iff Release_Some_iff budget_inv_def)

lemma Acquire_inv: "budget_inv b \<Longrightarrow> Acquire b n = (r, b') \<Longrightarrow> budget_inv b'"
  by (auto simp: runtime_defs split: if_splits)

lemma Release_inv: "budget_inv b \<Longrightarrow> Release b n = Some b' \<Longrightarrow> budget_inv b'"
  by (auto simp: budget_inv_def Release_Some_iff)

lemma Acquire_Release:
  assumes "Acquire b n = (True, b')"
  shows "0 \<le> bu_used b \<Longrightarrow> Release b' n = Some (b\<lparr>bu_notify := True\<rparr>)"
  using assms by (auto simp: Acquire_True_iff Release_def signal_def)

section \<open>Properties\<close>

text \<open>
  The ledger never goes over its maximum and releasing what was acquired never panics: in every
  state reached from a new budget by acquiring charges and releasing held ones, the used bytes are
  exactly the sum of the charges still held, they lie between zero and the maximum, and every held
  charge can be released.
\<close>

theorem budget_accounting:
  assumes "NewBudget mx = Some b0"
    and "(ledger_step Acquire Release)\<^sup>*\<^sup>* (b0, {#}) (b, held)"
  shows "Used b = sum_mset held \<and> 0 \<le> Used b \<and> Used b \<le> Max_budget b
    \<and> (\<forall>n \<in># held. Release b n \<noteq> None)"
proof -
  have "budget.accounted (b, held)"
    using assms by (intro budget.reachable_accounted) (auto simp: NewBudget_def budget_inv_def split: if_splits)
  then show ?thesis
    using budget.release_held_defined
    by (auto simp: budget.accounted_def Used_def Max_budget_def intro!: sum_mset_int_nonneg)
qed

theorem budget_accounting_witness:
  "\<exists>b0 b held. NewBudget 64 = Some b0 \<and> (ledger_step Acquire Release)\<^sup>*\<^sup>* (b0, {#}) (b, held)
    \<and> held = {#48#} \<and> Used b = sum_mset held \<and> Used b \<le> Max_budget b"
proof -
  define b0 where "b0 = \<lparr>bu_max = 64, bu_used = 0, bu_notify = False\<rparr>"
  define b where "b = b0\<lparr>bu_used := 48\<rparr>"
  have new: "NewBudget 64 = Some b0"
    by (simp add: NewBudget_def b0_def)
  have "ledger_step Acquire Release (b0, {#}) (b, {#48#})"
    by (rule ledger_step.acquired) (simp add: Acquire_def b0_def b_def)
  then have run: "(ledger_step Acquire Release)\<^sup>*\<^sup>* (b0, {#}) (b, {#48#})"
    by (rule r_into_rtranclp)
  with new budget_accounting [OF new run] show ?thesis
    by blast
qed

end
