(* ===== verification/Types.thy ===== *)
theory Types
  imports Varint Budget
begin

text \<open>
  \<open>types.go\<close> and \<open>errors.go\<close>: the identifiers, enumerations and records of the public API and its
  error values. A \<open>Code\<close> is the 32-bit number the wire carries, so its names are constants of that
  type. The Go type \<open>*Error\<close> is the constructor \<open>Error\<close>; the errors of other packages that the
  endpoint passes on or inspects (contexts, the wire codec, anything else) are the other
  constructors of \<open>error\<close>.
\<close>

section \<open>Identifiers and enumerations\<close>

type_synonym SessionID = bytes
type_synonym Incarnation = bytes
type_synonym MessageType = u32
type_synonym ChannelID = u16
type_synonym Code = u32

type_synonym Delivery = byte
type_synonym DispatchMode = byte
type_synonym Role = byte

abbreviation GameRole :: Role where "GameRole \<equiv> 0"
abbreviation BootstrapRole :: Role where "BootstrapRole \<equiv> 1"

abbreviation ReliableOrdered :: Delivery where "ReliableOrdered \<equiv> 0"
abbreviation Unreliable :: Delivery where "Unreliable \<equiv> 1"
abbreviation UnreliableSequenced :: Delivery where "UnreliableSequenced \<equiv> 2"

abbreviation Handlers :: DispatchMode where "Handlers \<equiv> 0"
abbreviation Polling :: DispatchMode where "Polling \<equiv> 1"

text \<open>Only the five named states are ever stored.\<close>

datatype State = Connecting | Authenticating | Active | Suspended | Closed

section \<open>Records\<close>

record AppIdentity =
  ai_ID :: string
  ai_Version :: string

record Endpoint =
  ep_Address :: string
  ep_ServerName :: string

record Owner =
  ow_ID :: string
  ow_Incarnation :: Incarnation
  ow_Endpoint :: Endpoint

record Credential =
  cr_Scheme :: string
  cr_Data :: bytes

text \<open>Times are nanoseconds of one clock; durations are \<open>int\<close> nanoseconds.\<close>

type_synonym time = int
type_synonym duration = int

abbreviation Millisecond :: duration where
  "Millisecond \<equiv> 1000000"

abbreviation Second :: duration where
  "Second \<equiv> 1000000000"

record Principal =
  pr_Issuer :: string
  pr_Subject :: string
  pr_ExpiresAt :: time
  pr_Attributes :: "(string \<rightharpoonup> string) option"

record Admission =
  ad_App :: AppIdentity
  ad_PrincipalIssuer :: string
  ad_Subject :: string
  ad_GroupKey :: string
  ad_Owner :: Owner
  ad_ExpiresAt :: time

record SendOptions =
  so_Channel :: ChannelID
  so_Delivery :: Delivery

record Stats =
  st_RTT :: duration
  st_TransportStatsAvailable :: bool
  st_BytesSent :: u64
  st_BytesReceived :: u64
  st_SendQueuedBytes :: int
  st_ReceiveQueuedBytes :: int
  st_LocalDatagramsDropped :: u64
  st_CoalescedDatagramsDropped :: u64
  st_StaleUpdatesDropped :: u64

section \<open>Error codes\<close>

abbreviation Normal :: Code where "Normal \<equiv> 0"
abbreviation ProtocolViolation :: Code where "ProtocolViolation \<equiv> 1"
abbreviation UnsupportedVersion :: Code where "UnsupportedVersion \<equiv> 2"
abbreviation UnsupportedCapability :: Code where "UnsupportedCapability \<equiv> 3"
abbreviation Unauthenticated :: Code where "Unauthenticated \<equiv> 4"
abbreviation Forbidden :: Code where "Forbidden \<equiv> 5"
abbreviation AuthExpired :: Code where "AuthExpired \<equiv> 6"
abbreviation SessionNotFound :: Code where "SessionNotFound \<equiv> 7"
abbreviation SessionExpired :: Code where "SessionExpired \<equiv> 8"
abbreviation ServerUnavailable :: Code where "ServerUnavailable \<equiv> 9"
abbreviation ServerDraining :: Code where "ServerDraining \<equiv> 10"
abbreviation Backpressure :: Code where "Backpressure \<equiv> 11"
abbreviation TooLarge :: Code where "TooLarge \<equiv> 12"
abbreviation UnsupportedMessage :: Code where "UnsupportedMessage \<equiv> 13"
abbreviation Canceled :: Code where "Canceled \<equiv> 14"
abbreviation DeadlineExceeded :: Code where "DeadlineExceeded \<equiv> 15"
abbreviation Internal :: Code where "Internal \<equiv> 16"
abbreviation SessionSuperseded :: Code where "SessionSuperseded \<equiv> 17"
abbreviation SlowConsumer :: Code where "SlowConsumer \<equiv> 18"
abbreviation GroupClosed :: Code where "GroupClosed \<equiv> 19"
abbreviation ResourceExhausted :: Code where "ResourceExhausted \<equiv> 20"
abbreviation SessionClosed :: Code where "SessionClosed \<equiv> 21"
abbreviation SessionSuspended :: Code where "SessionSuspended \<equiv> 22"
abbreviation OutcomeUnknown :: Code where "OutcomeUnknown \<equiv> 23"
abbreviation InvalidArgument :: Code where "InvalidArgument \<equiv> 24"
abbreviation WrongMode :: Code where "WrongMode \<equiv> 25"

definition code_names :: "(Code \<times> string) list" where
  "code_names =
    [(ProtocolViolation, ''protocol violation''), (UnsupportedVersion, ''unsupported version''),
     (UnsupportedCapability, ''unsupported capability''), (Unauthenticated, ''unauthenticated''),
     (Forbidden, ''forbidden''), (AuthExpired, ''authentication expired''), (SessionNotFound, ''session not found''),
     (SessionExpired, ''session expired''), (ServerUnavailable, ''server unavailable''), (ServerDraining, ''server draining''),
     (Backpressure, ''backpressure''), (TooLarge, ''too large''), (UnsupportedMessage, ''unsupported message''),
     (Canceled, ''canceled''), (DeadlineExceeded, ''deadline exceeded''), (Internal, ''internal''),
     (SessionSuperseded, ''session superseded''), (SlowConsumer, ''slow consumer''), (GroupClosed, ''group closed''),
     (ResourceExhausted, ''resource exhausted''), (SessionClosed, ''session closed''), (SessionSuspended, ''session suspended''),
     (OutcomeUnknown, ''outcome unknown''), (InvalidArgument, ''invalid argument''), (WrongMode, ''wrong mode'')]"

definition codeName :: "Code \<Rightarrow> string" where
  "codeName code = (case map_of code_names code of Some names \<Rightarrow> names | None \<Rightarrow> ''unknown error'')"

section \<open>Errors\<close>

datatype error =
  Error (er_Code: Code) (er_Message: string) (er_OutcomeUnknown: bool) (er_MaxPayload: int)
    (er_Cause: "error option")
| CtxError ctx_error
| WireError wire_error
| OtherError string

text \<open>The text of an error of another package is its own; \<open>other\<close> stands for it.\<close>

fun Error_text :: "(error \<Rightarrow> string) \<Rightarrow> error option \<Rightarrow> string" where
  "Error_text other None = ''<nil>''"
| "Error_text other (Some (Error code message _ _ _)) =
     (if message \<noteq> [] then message else ''sgsp: '' @ codeName code)"
| "Error_text other (Some e) = other e"

fun Unwrap :: "error \<Rightarrow> error option" where
  "Unwrap (Error _ _ _ _ cause) = cause"
| "Unwrap _ = None"

fun Is :: "error option \<Rightarrow> error \<Rightarrow> bool" where
  "Is (Some (Error code _ _ _ _)) (Error code' _ _ _ _) \<longleftrightarrow> code \<noteq> Normal \<and> code = code'"
| "Is _ _ \<longleftrightarrow> False"

text \<open>
  \<open>errors.Is\<close> of the standard library: equal errors, a match by the method \<open>Is\<close>, or the same for an
  unwrapped cause. (Two distinct \<open>*Error\<close> pointers with the same non-zero code match by \<open>Is\<close>.)
\<close>

fun errors_Is :: "error \<Rightarrow> error \<Rightarrow> bool" where
  "errors_Is (Error code message unknown mx cause) target \<longleftrightarrow>
     Error code message unknown mx cause = target \<or> Is (Some (Error code message unknown mx cause)) target
     \<or> (case cause of None \<Rightarrow> False | Some e \<Rightarrow> errors_Is e target)"
| "errors_Is e target \<longleftrightarrow> e = target"

definition codeError :: "Code \<Rightarrow> error" where
  "codeError code = Error code (''sgsp: '' @ codeName code) False 0 None"

abbreviation ErrInvalidArgument :: error where "ErrInvalidArgument \<equiv> codeError InvalidArgument"
abbreviation ErrProtocolViolation :: error where "ErrProtocolViolation \<equiv> codeError ProtocolViolation"
abbreviation ErrUnsupportedVersion :: error where "ErrUnsupportedVersion \<equiv> codeError UnsupportedVersion"
abbreviation ErrUnsupportedCapability :: error where "ErrUnsupportedCapability \<equiv> codeError UnsupportedCapability"
abbreviation ErrUnauthenticated :: error where "ErrUnauthenticated \<equiv> codeError Unauthenticated"
abbreviation ErrForbidden :: error where "ErrForbidden \<equiv> codeError Forbidden"
abbreviation ErrAuthExpired :: error where "ErrAuthExpired \<equiv> codeError AuthExpired"
abbreviation ErrSessionNotFound :: error where "ErrSessionNotFound \<equiv> codeError SessionNotFound"
abbreviation ErrSessionExpired :: error where "ErrSessionExpired \<equiv> codeError SessionExpired"
abbreviation ErrServerUnavailable :: error where "ErrServerUnavailable \<equiv> codeError ServerUnavailable"
abbreviation ErrServerDraining :: error where "ErrServerDraining \<equiv> codeError ServerDraining"
abbreviation ErrBackpressure :: error where "ErrBackpressure \<equiv> codeError Backpressure"
abbreviation ErrUnsupportedMessage :: error where "ErrUnsupportedMessage \<equiv> codeError UnsupportedMessage"
abbreviation ErrSessionSuperseded :: error where "ErrSessionSuperseded \<equiv> codeError SessionSuperseded"
abbreviation ErrGroupClosed :: error where "ErrGroupClosed \<equiv> codeError GroupClosed"
abbreviation ErrResourceExhausted :: error where "ErrResourceExhausted \<equiv> codeError ResourceExhausted"
abbreviation ErrSessionClosed :: error where "ErrSessionClosed \<equiv> codeError SessionClosed"
abbreviation ErrSessionSuspended :: error where "ErrSessionSuspended \<equiv> codeError SessionSuspended"
abbreviation ErrOutcomeUnknown :: error where "ErrOutcomeUnknown \<equiv> codeError OutcomeUnknown"
abbreviation ErrWrongMode :: error where "ErrWrongMode \<equiv> codeError WrongMode"

text \<open>\<open>mapWireError\<close> of \<open>endpoint.go\<close>.\<close>

definition mapWireError :: "error \<Rightarrow> error" where
  "mapWireError err =
     (if errors_Is err (WireError ErrTooLarge) then Error TooLarge [] False 0 None
      else Error ProtocolViolation [] False 0 (Some err))"

section \<open>Lemmas\<close>

lemma codeError_eq [simp]: "codeError c = codeError d \<longleftrightarrow> c = d"
  by (auto simp: codeError_def)

lemma er_Code_codeError [simp]: "er_Code (codeError c) = c"
  by (simp add: codeError_def)

lemma errors_Is_refl: "errors_Is e e"
  by (cases e) auto

lemma errors_Is_code:
  "errors_Is (Error c msg u mx None) (codeError d) \<longleftrightarrow> (c = d \<and> (c \<noteq> Normal \<or> msg = ''sgsp: '' @ codeName d \<and> \<not> u \<and> mx = 0))"
  by (auto simp: codeError_def)

text \<open>Every code of the protocol except \<open>Normal\<close> has a name of its own.\<close>

lemma code_names_distinct: "distinct (map fst code_names)" "distinct (map snd code_names)"
  by (simp_all add: code_names_def)

lemma code_names_complete: "set (map fst code_names) = {c. 1 \<le> c \<and> c \<le> WrongMode}"
proof -
  have "set (map fst code_names) = word_of_nat ` {1..25}"
    by (simp add: code_names_def atLeastAtMost_insertL [symmetric] atLeastAtMostSuc_conv eval_nat_numeral)
  also have "\<dots> = {c. 1 \<le> c \<and> c \<le> WrongMode}"
  proof (intro equalityI subsetI)
    fix c :: Code
    assume "c \<in> {c. 1 \<le> c \<and> c \<le> WrongMode}"
    then have "c = word_of_nat (unat c)" "1 \<le> unat c" "unat c \<le> 25"
      by (simp_all add: word_le_nat_alt)
    then show "c \<in> word_of_nat ` {1..25}"
      by (metis atLeastAtMost_iff imageI)
  qed (auto simp: word_le_nat_alt unat_of_nat)
  finally show ?thesis .
qed

end
