(* ===== verification/Endpoint_Limits.thy ===== *)
theory Endpoint_Limits
  imports Types
begin

text \<open>
  The configured and negotiated limits: \<open>Limits\<close>, \<open>DefaultLimits\<close> and \<open>normalizeLimits\<close> of
  \<open>api.go\<close>, \<open>directionalBudgetLimits\<close> and \<open>minimumAdvertisedLimit\<close> of \<open>session.go\<close>, and the limit
  messages of \<open>endpoint.go\<close>. Arithmetic on Go's \<open>int\<close> is wrapped at 64 bits where the source can
  overflow; arithmetic on \<open>uint64\<close> is arithmetic of words.
\<close>

section \<open>Configured limits\<close>

record Limits =
  ControlBytes :: int
  MessageBytes :: int
  DatagramBytes :: int
  QueueBytes :: int
  QueueMessages :: int
  ReliableChannels :: int
  DatagramChannels :: int
  Requests :: int
  Streams :: int
  MaxSessions :: int
  MaxPendingHandshakes :: int
  GlobalApplicationBytes :: int
  AuthTimeout :: duration
  KeepAlive :: duration
  IdleTimeout :: duration
  CloseTimeout :: duration
  ResumeGrace :: duration
  SlowConsumerTimeout :: duration
  RequestTimeout :: duration
  ReconnectMin :: duration
  ReconnectMax :: duration
  ControlQueueBytes :: int
  ControlQueueMessages :: int
  StreamReceiveWindow :: u64
  ConnectionReceiveWindow :: u64
  PreAuthBytes :: int
  MaxActiveGroups :: int
  MaxGroupKeyBytes :: int
  HandshakesPerIPPerSecond :: int
  HandshakeBurstPerIP :: int
  MessagesPerSessionPerSecond :: int
  MessageBurstPerSession :: int

definition zeroLimits :: Limits where
  "zeroLimits = \<lparr>
     ControlBytes = 0, MessageBytes = 0, DatagramBytes = 0, QueueBytes = 0, QueueMessages = 0,
     ReliableChannels = 0, DatagramChannels = 0, Requests = 0, Streams = 0, MaxSessions = 0,
     MaxPendingHandshakes = 0, GlobalApplicationBytes = 0, AuthTimeout = 0, KeepAlive = 0,
     IdleTimeout = 0, CloseTimeout = 0, ResumeGrace = 0, SlowConsumerTimeout = 0, RequestTimeout = 0,
     ReconnectMin = 0, ReconnectMax = 0, ControlQueueBytes = 0, ControlQueueMessages = 0,
     StreamReceiveWindow = 0, ConnectionReceiveWindow = 0, PreAuthBytes = 0, MaxActiveGroups = 0,
     MaxGroupKeyBytes = 0, HandshakesPerIPPerSecond = 0, HandshakeBurstPerIP = 0,
     MessagesPerSessionPerSecond = 0, MessageBurstPerSession = 0\<rparr>"

definition DefaultLimits :: Limits where
  "DefaultLimits = \<lparr>
     ControlBytes = 16 * 2 ^ 10, MessageBytes = 64 * 2 ^ 10, DatagramBytes = 1000,
     QueueBytes = 256 * 2 ^ 10, QueueMessages = 256, ReliableChannels = 16, DatagramChannels = 64,
     Requests = 32, Streams = 8, MaxSessions = 128, MaxPendingHandshakes = 64,
     GlobalApplicationBytes = 256 * 2 ^ 20, AuthTimeout = 5 * Second, KeepAlive = Second,
     IdleTimeout = 5 * Second, CloseTimeout = Second, ResumeGrace = 30 * Second,
     SlowConsumerTimeout = 5 * Second, RequestTimeout = 5 * Second,
     ReconnectMin = 250 * Millisecond, ReconnectMax = 2 * Second,
     ControlQueueBytes = 64 * 2 ^ 10, ControlQueueMessages = 16, StreamReceiveWindow = 64 * 2 ^ 10,
     ConnectionReceiveWindow = 8 * 2 ^ 20, PreAuthBytes = 32 * 2 ^ 10, MaxActiveGroups = 10000,
     MaxGroupKeyBytes = 256, HandshakesPerIPPerSecond = 20, HandshakeBurstPerIP = 40,
     MessagesPerSessionPerSecond = 2000, MessageBurstPerSession = 4000\<rparr>"

text \<open>The slices \<open>ints\<close> and \<open>durations\<close> of \<open>normalizeLimits\<close>.\<close>

definition limit_ints :: "Limits \<Rightarrow> int list" where
  "limit_ints l =
     [ControlBytes l, MessageBytes l, DatagramBytes l, QueueBytes l, QueueMessages l,
      ReliableChannels l, DatagramChannels l, Requests l, Streams l, MaxSessions l,
      MaxPendingHandshakes l, ControlQueueBytes l, ControlQueueMessages l, PreAuthBytes l,
      MaxActiveGroups l, MaxGroupKeyBytes l, HandshakesPerIPPerSecond l, HandshakeBurstPerIP l,
      MessagesPerSessionPerSecond l, MessageBurstPerSession l]"

definition limit_durations :: "Limits \<Rightarrow> duration list" where
  "limit_durations l =
     [AuthTimeout l, KeepAlive l, IdleTimeout l, CloseTimeout l, ResumeGrace l, SlowConsumerTimeout l,
      RequestTimeout l, ReconnectMin l, ReconnectMax l]"

definition stream_count :: "Limits \<Rightarrow> u64" where
  "stream_count l =
     uint64 (ReliableChannels l) + 2 * (uint64 (Requests l) + uint64 (Streams l)) + 1"

definition normalizeLimits :: "Limits \<Rightarrow> error + Limits" where
  "normalizeLimits l =
     (if l = zeroLimits then Inr DefaultLimits
      else if \<exists>value \<in> set (limit_ints l). value \<le> 0 then Inl ErrInvalidArgument
      else if \<exists>value \<in> set (limit_durations l). value \<le> 0 then Inl ErrInvalidArgument
      else if GlobalApplicationBytes l \<le> 0 \<or> StreamReceiveWindow l = 0 \<or> ConnectionReceiveWindow l = 0
        \<or> ReconnectMin l > ReconnectMax l then Inl ErrInvalidArgument
      else if QueueMessages l < 2 \<or> MessageBytes l > maxInt - 32
        \<or> QueueBytes l < wrap64 (2 * wrap64 (MessageBytes l + 32)) then Inl ErrInvalidArgument
      else if stream_count l > (- 1) div StreamReceiveWindow l
        \<or> stream_count l * StreamReceiveWindow l > ConnectionReceiveWindow l then Inl ErrInvalidArgument
      else Inr l)"

text \<open>\<open>directionalBudgetLimits\<close>: the ordinary and the reply budget of each direction of a session.\<close>

definition directionalBudgetLimits :: "Limits \<Rightarrow> int \<times> int" where
  "directionalBudgetLimits l =
     (let total = QueueBytes l; reserve = wrap64 (MessageBytes l + 32) in
      if total \<ge> wrap64 (2 * reserve) then (wrap64 (total - reserve), reserve) else (total, 0))"

section \<open>Advertised limits\<close>

record limitMessage =
  lm_ControlBytes :: int
  lm_MessageBytes :: int
  lm_DatagramBytes :: int
  lm_ReliableChannels :: int
  lm_DatagramChannels :: int
  lm_Requests :: int
  lm_Streams :: int

definition limitMessageFrom :: "Limits \<Rightarrow> limitMessage" where
  "limitMessageFrom l =
     \<lparr>lm_ControlBytes = ControlBytes l, lm_MessageBytes = MessageBytes l, lm_DatagramBytes = DatagramBytes l,
      lm_ReliableChannels = ReliableChannels l, lm_DatagramChannels = DatagramChannels l,
      lm_Requests = Requests l, lm_Streams = Streams l\<rparr>"

definition validateLimitMessage :: "limitMessage \<Rightarrow> error option" where
  "validateLimitMessage m =
     (let values = [lm_ControlBytes m, lm_MessageBytes m, lm_DatagramBytes m, lm_ReliableChannels m,
                    lm_DatagramChannels m, lm_Requests m, lm_Streams m] in
      if \<exists>value \<in> set values. value \<le> 0 then Some ErrInvalidArgument else None)"

definition minimumAdvertisedLimit :: "int \<Rightarrow> int \<Rightarrow> int" where
  "minimumAdvertisedLimit local peer = (if peer \<le> 0 then local else min local peer)"

definition hasCapability :: "string list \<Rightarrow> string \<Rightarrow> bool" where
  "hasCapability capabilities expected \<longleftrightarrow> (\<exists>capability \<in> set capabilities. capability = expected)"

definition roleName :: "Role \<Rightarrow> string" where
  "roleName role = (if role = BootstrapRole then ''bootstrap'' else ''game'')"

text \<open>The stream limits \<open>transportConfig\<close> hands to QUIC: bidirectional and unidirectional.\<close>

definition transport_stream_limits :: "Limits \<Rightarrow> int \<times> int" where
  "transport_stream_limits l = (wrap64 (Requests l + Streams l + 1), ReliableChannels l)"

section \<open>Lemmas\<close>

text \<open>A \<open>Limits\<close> value as Go stores it: every \<open>int\<close> field is a 64-bit number.\<close>

definition limits_typed :: "Limits \<Rightarrow> bool" where
  "limits_typed l \<longleftrightarrow> set (limit_ints l) \<union> set (limit_durations l) \<union> {GlobalApplicationBytes l} \<subseteq> int64_range"

lemma DefaultLimits_normal: "normalizeLimits DefaultLimits = Inr DefaultLimits"
  by (simp add: normalizeLimits_def limit_ints_def limit_durations_def DefaultLimits_def zeroLimits_def
      maxInt_def stream_count_def uint64_def wrap64_def signed_take_bit_eq_take_bit_minus take_bit_eq_mod
      word_div_def word_less_def word_le_def unsigned_minus_1_eq_mask mask_eq_exp_minus_1)

lemma normalizeLimits_cases:
  assumes "normalizeLimits l = Inr m"
  obtains "l = zeroLimits" "m = DefaultLimits" | "l \<noteq> zeroLimits" "m = l"
  using assms by (auto simp: normalizeLimits_def split: if_splits)

text \<open>Normalization is idempotent.\<close>

lemma normalizeLimits_idem: "normalizeLimits l = Inr m \<Longrightarrow> normalizeLimits m = Inr m"
  using DefaultLimits_normal by (metis normalizeLimits_cases)

lemma zero_not_normal: "normalizeLimits l \<noteq> Inr zeroLimits"
proof
  assume "normalizeLimits l = Inr zeroLimits"
  then show False
    by (cases rule: normalizeLimits_cases) (simp_all add: zeroLimits_def DefaultLimits_def)
qed

lemma normalizeLimits_positive:
  assumes "normalizeLimits l = Inr m"
  shows "\<forall>v \<in> set (limit_ints m) \<union> set (limit_durations m). 0 < v"
    and "ReconnectMin m \<le> ReconnectMax m" "2 \<le> QueueMessages m" "MessageBytes m \<le> maxInt - 32"
    and "0 < GlobalApplicationBytes m"
    and "wrap64 (2 * wrap64 (MessageBytes m + 32)) \<le> QueueBytes m"
    and "stream_count m \<le> (- 1) div StreamReceiveWindow m"
    and "stream_count m * StreamReceiveWindow m \<le> ConnectionReceiveWindow m"
    and "StreamReceiveWindow m \<noteq> 0"
  using normalizeLimits_idem [OF assms] zero_not_normal [of m]
  by (auto simp: normalizeLimits_def not_less not_le split: if_splits)

text \<open>The two budgets of a direction share \<open>QueueBytes\<close>; each has room for one message of maximal size.\<close>

lemma directionalBudgetLimits_split:
  assumes "0 < MessageBytes l" "MessageBytes l + 32 < 2 ^ 62" "2 * (MessageBytes l + 32) \<le> QueueBytes l"
    "QueueBytes l \<in> int64_range"
  shows "directionalBudgetLimits l = (QueueBytes l - (MessageBytes l + 32), MessageBytes l + 32)"
  using assms by (simp add: directionalBudgetLimits_def Let_def wrap64_id int64_range_def)

lemma stream_count_exact:
  assumes "0 < ReliableChannels l" "ReliableChannels l < 2 ^ 62" "0 < Requests l" "0 < Streams l"
    "Requests l + Streams l < 2 ^ 62"
  shows "int (unat (stream_count l)) = ReliableChannels l + 2 * (Requests l + Streams l) + 1"
proof -
  have "stream_count l = word_of_int (ReliableChannels l + 2 * (Requests l + Streams l) + 1)"
    by (simp add: stream_count_def uint64_def)
  then have "uint (stream_count l) = (ReliableChannels l + 2 * (Requests l + Streams l) + 1) mod 2 ^ LENGTH(64)"
    by (simp only: uint_word_of_int)
  with assms show ?thesis
    by (simp add: mod_pos_pos_trivial)
qed

lemma product_exact:
  fixes a w :: u64
  assumes "a \<le> (- 1) div w" "w \<noteq> 0"
  shows "unat (a * w) = unat a * unat w"
proof -
  have "unat a \<le> unat (- 1 :: u64) div unat w"
    using assms(1) by (simp add: word_le_nat_alt unat_div_distrib)
  then have "unat a * unat w \<le> unat (- 1 :: u64)"
    by (metis div_times_less_eq_dividend le_trans mult_le_mono1)
  also have "unat (- 1 :: u64) < 2 ^ 64"
    using unsigned_less [of "- 1 :: u64"] by simp
  finally show ?thesis
    by (simp add: unat_word_ariths)
qed

lemma normalized_directional:
  assumes "normalizeLimits l = Inr m" "limits_typed m" "MessageBytes m + 32 < 2 ^ 62"
  shows "directionalBudgetLimits m = (QueueBytes m - (MessageBytes m + 32), MessageBytes m + 32)"
    "MessageBytes m + 32 \<le> QueueBytes m - (MessageBytes m + 32)" "0 < MessageBytes m"
proof -
  note pos = normalizeLimits_positive [OF assms(1)]
  from pos(1) show gt: "0 < MessageBytes m"
    by (auto simp: limit_ints_def)
  have typed: "QueueBytes m \<in> int64_range"
    using assms(2) by (auto simp: limits_typed_def limit_ints_def)
  have le: "2 * (MessageBytes m + 32) \<le> QueueBytes m"
    using pos(6) gt assms(3) by (simp add: wrap64_id int64_range_def)
  then show "MessageBytes m + 32 \<le> QueueBytes m - (MessageBytes m + 32)"
    by simp
  from directionalBudgetLimits_split [OF gt assms(3) le typed]
  show "directionalBudgetLimits m = (QueueBytes m - (MessageBytes m + 32), MessageBytes m + 32)" .
qed

section \<open>Properties\<close>

text \<open>
  Accepted limits are usable: when \<open>normalizeLimits\<close> accepts and no doubled quantity reaches
  \<open>2 ^ 63\<close>, every limit is positive, the queue bytes of a direction split into an ordinary and a
  reply budget that each hold one maximal message and that \<open>NewBudget\<close> creates without a panic, and
  the streams a connection may open have receive windows that together fit the connection's window.
\<close>

theorem normalized_limits_usable:
  assumes "normalizeLimits l = Inr m" "limits_typed m"
    and "MessageBytes m + 32 < 2 ^ 62" "ReliableChannels m < 2 ^ 62" "Requests m + Streams m < 2 ^ 62"
  shows "(\<forall>v \<in> set (limit_ints m) \<union> set (limit_durations m). 0 < v)
    \<and> (\<exists>ordinary reply. directionalBudgetLimits m = (ordinary, reply) \<and> ordinary + reply = QueueBytes m
         \<and> MessageBytes m + 32 \<le> ordinary \<and> MessageBytes m + 32 \<le> reply
         \<and> NewBudget ordinary \<noteq> None \<and> NewBudget reply \<noteq> None)
    \<and> (ReliableChannels m + 2 * (Requests m + Streams m) + 1) * int (unat (StreamReceiveWindow m))
        \<le> int (unat (ConnectionReceiveWindow m))
    \<and> normalizeLimits m = Inr m"
proof -
  note pos = normalizeLimits_positive [OF assms(1)]
  from pos(1) have gt: "0 < MessageBytes m" "0 < ReliableChannels m" "0 < Requests m" "0 < Streams m"
    by (auto simp: limit_ints_def)
  note budgets = normalized_directional [OF assms(1-3)]
  have "unat (stream_count m) * unat (StreamReceiveWindow m) \<le> unat (ConnectionReceiveWindow m)"
    using pos(8) by (simp add: word_le_nat_alt product_exact [OF pos(7,9)])
  then have "int (unat (stream_count m)) * int (unat (StreamReceiveWindow m)) \<le> int (unat (ConnectionReceiveWindow m))"
    by (metis of_nat_le_iff of_nat_mult)
  with stream_count_exact [of m] gt assms(4,5) have
    "(ReliableChannels m + 2 * (Requests m + Streams m) + 1) * int (unat (StreamReceiveWindow m))
       \<le> int (unat (ConnectionReceiveWindow m))"
    by metis
  with budgets show ?thesis
    using pos(1) normalizeLimits_idem [OF assms(1)] by (simp add: NewBudget_def)
qed

theorem normalized_limits_usable_witness:
  "normalizeLimits DefaultLimits = Inr DefaultLimits
   \<and> (\<exists>ordinary reply. directionalBudgetLimits DefaultLimits = (ordinary, reply) \<and> ordinary + reply = 262144)"
proof -
  have "limits_typed DefaultLimits"
    by (simp add: limits_typed_def limit_ints_def limit_durations_def DefaultLimits_def int64_range_def)
  from normalized_limits_usable [OF DefaultLimits_normal this] DefaultLimits_normal show ?thesis
    by (auto simp: DefaultLimits_def)
qed

text \<open>
  The test \<open>QueueBytes < 2*(MessageBytes+32)\<close> wraps: there are limits with \<open>MessageBytes = 2 ^ 62\<close>
  and one queue byte that \<open>normalizeLimits\<close> accepts, and the budgets a session then creates make
  \<open>NewBudget\<close> panic.
\<close>

theorem normalizeLimits_overflow:
  "\<exists>l. limits_typed l \<and> normalizeLimits l = Inr l \<and> QueueBytes l = 1 \<and> MessageBytes l = 2 ^ 62
     \<and> NewBudget (fst (directionalBudgetLimits l)) = None"
proof -
  define l where "l = DefaultLimits\<lparr>MessageBytes := 2 ^ 62, QueueBytes := 1\<rparr>"
  have "limits_typed l"
    by (simp add: l_def limits_typed_def limit_ints_def limit_durations_def DefaultLimits_def int64_range_def)
  moreover have "normalizeLimits l = Inr l"
    by (simp add: l_def normalizeLimits_def limit_ints_def limit_durations_def DefaultLimits_def zeroLimits_def
        maxInt_def stream_count_def uint64_def wrap64_def signed_take_bit_eq_take_bit_minus take_bit_eq_mod
        word_div_def word_less_def word_le_def unsigned_minus_1_eq_mask mask_eq_exp_minus_1)
  moreover have "NewBudget (fst (directionalBudgetLimits l)) = None"
    by (simp add: l_def NewBudget_def directionalBudgetLimits_def DefaultLimits_def Let_def wrap64_def
        signed_take_bit_eq_take_bit_minus take_bit_eq_mod)
  ultimately show ?thesis
    by (intro exI [of _ l]) (simp add: l_def)
qed

end
