(* ===== verification/Session.thy ===== *)
theory Session
  imports Endpoint_Limits
begin

text \<open>
  \<open>session.go\<close>: the session record behind the public \<open>Session\<close> interface. The record's mutex makes
  every operation atomic. \<open>sr_cancelled\<close> is the state of the session's context. The only
  implementation of \<open>sessionOperations\<close> is \<open>connectionOperations\<close>, of which this theory needs the
  identity (the pointer \<open>co_ptr\<close>), the field \<open>epoch\<close>, and whether \<open>stopEpoch\<close> was called; the session
  stores the pointer. The operations a method delegates to are arguments of its model.
\<close>

section \<open>State\<close>

type_synonym pointer = nat

record connectionOperations =
  co_ptr :: pointer
  co_epoch :: u64
  co_stopped :: bool

text \<open>An armed timer: when it fires and the code it closes the session with.\<close>

type_synonym endpointTimer = "time \<times> Code"

record 'a sessionRecord =
  sr_id :: SessionID
  sr_owner :: Owner
  sr_group :: string
  sr_principal :: Principal
  sr_cancelled :: bool
  sr_state :: State
  sr_epoch :: u64
  sr_attachment :: "'a option"
  sr_limits :: Limits
  sr_clientSide :: bool
  sr_operations :: "pointer option"
  sr_resumeHash :: bytes
  sr_peerLimits :: limitMessage
  sr_terminal :: Code
  sr_incomingBudget :: Budget
  sr_incomingReplyBudget :: Budget
  sr_outgoingBudget :: Budget
  sr_outgoingReplyBudget :: Budget
  sr_expiryTimer :: "endpointTimer option"
  sr_graceTimer :: "endpointTimer option"

text \<open>The copy has the same value; values of the model share no storage.\<close>

definition copyPrincipal :: "Principal \<Rightarrow> Principal" where
  "copyPrincipal p = (case pr_Attributes p of None \<Rightarrow> p | Some attrs \<Rightarrow> p\<lparr>pr_Attributes := Some (\<lambda>key. attrs key)\<rparr>)"

definition zeroLimitMessage :: limitMessage where
  "zeroLimitMessage = \<lparr>lm_ControlBytes = 0, lm_MessageBytes = 0, lm_DatagramBytes = 0, lm_ReliableChannels = 0,
     lm_DatagramChannels = 0, lm_Requests = 0, lm_Streams = 0\<rparr>"

text \<open>\<open>None\<close> is the panic of \<open>NewBudget\<close> on a negative size.\<close>

definition newSessionRecord :: "SessionID \<Rightarrow> Owner \<Rightarrow> string \<Rightarrow> Principal \<Rightarrow> Limits \<Rightarrow> bool \<Rightarrow> pointer option \<Rightarrow>
  'a sessionRecord option" where
  "newSessionRecord sid own grp prin limits client operations =
     (let (ordinaryBytes, replyBytes) = directionalBudgetLimits limits in
      case (NewBudget ordinaryBytes, NewBudget replyBytes) of
        (Some ordinary, Some reply) \<Rightarrow>
          Some \<lparr>sr_id = sid, sr_owner = own, sr_group = grp, sr_principal = copyPrincipal prin,
                sr_cancelled = False, sr_state = Active, sr_epoch = 1, sr_attachment = None,
                sr_limits = limits, sr_clientSide = client, sr_operations = operations,
                sr_resumeHash = replicate 32 0, sr_peerLimits = zeroLimitMessage, sr_terminal = Normal,
                sr_incomingBudget = ordinary, sr_incomingReplyBudget = reply,
                sr_outgoingBudget = ordinary, sr_outgoingReplyBudget = reply,
                sr_expiryTimer = None, sr_graceTimer = None\<rparr>
      | _ \<Rightarrow> None)"

section \<open>Sending\<close>

definition outboundMessageLimit :: "'a sessionRecord \<Rightarrow> int" where
  "outboundMessageLimit s = minimumAdvertisedLimit (MessageBytes (sr_limits s)) (lm_MessageBytes (sr_peerLimits s))"

definition outboundDatagramLimit :: "'a sessionRecord \<Rightarrow> int" where
  "outboundDatagramLimit s = minimumAdvertisedLimit (DatagramBytes (sr_limits s)) (lm_DatagramBytes (sr_peerLimits s))"

text \<open>The admission test that \<open>send\<close>, \<open>Call\<close> and \<open>OpenStream\<close> share: \<open>None\<close> lets the call through.\<close>

definition state_gate :: "'a sessionRecord \<Rightarrow> error option" where
  "state_gate s =
     (if sr_state s = Suspended then Some ErrSessionSuspended
      else if sr_state s \<noteq> Active \<or> sr_operations s = None then Some ErrSessionClosed
      else None)"

definition send :: "(MessageType \<Rightarrow> bytes \<Rightarrow> SendOptions \<Rightarrow> error option) \<Rightarrow> 'a sessionRecord \<Rightarrow>
  MessageType \<Rightarrow> bytes \<Rightarrow> SendOptions \<Rightarrow> error option" where
  "send operations_send s typ payload options =
     (if typ = 0 \<or> so_Delivery options > UnreliableSequenced then Some ErrInvalidArgument
      else
        (let limit = (if so_Delivery options \<noteq> ReliableOrdered then outboundDatagramLimit s
                      else outboundMessageLimit s) in
         if int (length payload) > limit then Some (Error TooLarge [] False limit None)
         else (case state_gate s of Some e \<Rightarrow> Some e | None \<Rightarrow> operations_send typ payload options)))"

definition Call :: "(MessageType \<Rightarrow> bytes \<Rightarrow> error + bytes) \<Rightarrow> 'a sessionRecord \<Rightarrow> MessageType \<Rightarrow> bytes \<Rightarrow> error + bytes" where
  "Call operations_call s typ payload =
     (if typ = 0 \<or> int (length payload) > outboundMessageLimit s then Inl ErrInvalidArgument
      else (case state_gate s of Some e \<Rightarrow> Inl e | None \<Rightarrow> operations_call typ payload))"

definition OpenStream :: "(MessageType \<Rightarrow> error + 's) \<Rightarrow> 'a sessionRecord \<Rightarrow> MessageType \<Rightarrow> error + 's" where
  "OpenStream operations_open s typ =
     (if typ = 0 then Inl ErrInvalidArgument
      else (case state_gate s of Some e \<Rightarrow> Inl e | None \<Rightarrow> operations_open typ))"

definition RefreshAuth :: "(Credential \<Rightarrow> error option) \<Rightarrow> 'a sessionRecord \<Rightarrow> Credential \<Rightarrow> error option" where
  "RefreshAuth operations_refresh s credential =
     (if \<not> sr_clientSide s \<or> sr_state s \<noteq> Active \<or> sr_operations s = None then Some ErrWrongMode
      else operations_refresh credential)"

section \<open>Lifecycle\<close>

text \<open>The state change of \<open>Close\<close> and \<open>closeRemote\<close>.\<close>

definition terminate :: "Code \<Rightarrow> 'a sessionRecord \<Rightarrow> 'a sessionRecord" where
  "terminate code s = s\<lparr>sr_state := Closed, sr_terminal := code, sr_cancelled := True\<rparr>"

definition Close :: "(Code \<Rightarrow> error option) \<Rightarrow> 'a sessionRecord \<Rightarrow> Code \<Rightarrow> error option \<times> 'a sessionRecord" where
  "Close operations_close s code =
     (if code = SessionSuperseded then (Some ErrInvalidArgument, s)
      else if sr_state s = Closed then (Some ErrSessionClosed, s)
      else (if sr_operations s = None then None else operations_close code, terminate code s))"

definition closeRemote :: "'a sessionRecord \<Rightarrow> Code \<Rightarrow> bool \<times> 'a sessionRecord" where
  "closeRemote s code = (if sr_state s = Closed then (False, s) else (True, terminate code s))"

definition setState :: "'a sessionRecord \<Rightarrow> State \<Rightarrow> u64 \<Rightarrow> 'a sessionRecord" where
  "setState s state epoch =
     (let s = s\<lparr>sr_state := state, sr_epoch := epoch\<rparr> in
      if state = Closed then s\<lparr>sr_cancelled := True\<rparr> else s)"

definition setPrincipal :: "'a sessionRecord \<Rightarrow> Principal \<Rightarrow> 'a sessionRecord" where
  "setPrincipal s prin = s\<lparr>sr_principal := copyPrincipal prin\<rparr>"

definition SetAttachment :: "'a sessionRecord \<Rightarrow> 'a option \<Rightarrow> 'a sessionRecord" where
  "SetAttachment s v = s\<lparr>sr_attachment := v\<rparr>"

definition suspendIfCurrent :: "'a sessionRecord \<Rightarrow> connectionOperations \<Rightarrow>
  bool \<times> 'a sessionRecord \<times> connectionOperations" where
  "suspendIfCurrent s operations =
     (if sr_operations s \<noteq> Some (co_ptr operations) \<or> sr_state s \<noteq> Active then (False, s, operations)
      else (True, s\<lparr>sr_state := Suspended\<rparr>, operations\<lparr>co_stopped := True\<rparr>))"

definition isCurrent :: "'a sessionRecord option \<Rightarrow> connectionOperations option \<Rightarrow> bool" where
  "isCurrent so oo =
     (case (so, oo) of
        (Some s, Some operations) \<Rightarrow>
          sr_operations s = Some (co_ptr operations) \<and> sr_state s = Active \<and> sr_epoch s = co_epoch operations
      | _ \<Rightarrow> False)"

definition install :: "'a sessionRecord \<Rightarrow> connectionOperations \<Rightarrow> Principal \<Rightarrow> u64 \<Rightarrow>
  'a sessionRecord \<times> connectionOperations" where
  "install s operations prin epoch =
     (s\<lparr>sr_epoch := epoch, sr_state := Active, sr_principal := copyPrincipal prin,
        sr_operations := Some (co_ptr operations)\<rparr>,
      operations\<lparr>co_epoch := epoch\<rparr>)"

definition replaceConnection :: "'a sessionRecord \<Rightarrow> connectionOperations \<Rightarrow> Principal \<Rightarrow>
  (error + pointer option \<times> u64) \<times> 'a sessionRecord \<times> connectionOperations" where
  "replaceConnection s operations prin =
     (if sr_state s = Closed then (Inl ErrSessionExpired, s, operations)
      else if sr_epoch s = - 1 then (Inl ErrResourceExhausted, s, operations)
      else (Inr (sr_operations s, sr_epoch s + 1), install s operations prin (sr_epoch s + 1)))"

definition replaceConnectionAt :: "'a sessionRecord \<Rightarrow> connectionOperations \<Rightarrow> Principal \<Rightarrow> u64 \<Rightarrow>
  (error + pointer option) \<times> 'a sessionRecord \<times> connectionOperations" where
  "replaceConnectionAt s operations prin epoch =
     (if sr_state s = Closed then (Inl ErrSessionExpired, s, operations)
      else if epoch \<le> sr_epoch s \<or> epoch = 0 then (Inl ErrProtocolViolation, s, operations)
      else (Inr (sr_operations s), install s operations prin epoch))"

definition Stats_of :: "Stats \<Rightarrow> Stats \<Rightarrow> 'a sessionRecord \<Rightarrow> Stats" where
  "Stats_of zero operations_stats s =
     (if sr_state s \<noteq> Active \<or> sr_operations s = None then zero else operations_stats)"

lemmas session_defs = terminate_def Close_def closeRemote_def setPrincipal_def SetAttachment_def
  suspendIfCurrent_def install_def replaceConnection_def replaceConnectionAt_def

lemma copyPrincipal_id [simp]: "copyPrincipal p = p"
  by (cases p) (auto simp: copyPrincipal_def split: option.splits)

section \<open>Transitions\<close>

text \<open>
  Every change the endpoints make to a session, with the pointers used so far: a connection that is
  attached is a new object.
\<close>

inductive session_step :: "'a sessionRecord \<times> pointer set \<Rightarrow> 'a sessionRecord \<times> pointer set \<Rightarrow> bool" where
  local_close: "Close f s code = (r, s') \<Longrightarrow> session_step (s, used) (s', used)"
| remote_close: "closeRemote s code = (r, s') \<Longrightarrow> session_step (s, used) (s', used)"
| lost: "suspendIfCurrent s operations = (r, s', operations') \<Longrightarrow> session_step (s, used) (s', used)"
| attach: "co_ptr operations \<notin> used \<Longrightarrow> replaceConnection s operations prin = (r, s', operations') \<Longrightarrow>
     session_step (s, used) (s', insert (co_ptr operations) used)"
| attach_at: "co_ptr operations \<notin> used \<Longrightarrow>
     replaceConnectionAt s operations prin epoch = (r, s', operations') \<Longrightarrow>
     session_step (s, used) (s', insert (co_ptr operations) used)"
| refreshed: "session_step (s, used) (setPrincipal s prin, used)"
| attachment: "session_step (s, used) (SetAttachment s v, used)"
| timers: "session_step (s, used) (s\<lparr>sr_expiryTimer := expiry, sr_graceTimer := grace\<rparr>, used)"
| budgets: "session_step (s, used) (s\<lparr>sr_incomingBudget := a, sr_incomingReplyBudget := b, sr_outgoingBudget := c, sr_outgoingReplyBudget := d\<rparr>, used)"

definition session_inv :: "'a sessionRecord \<times> pointer set \<Rightarrow> bool" where
  "session_inv su \<longleftrightarrow>
     (let (s, used) = su in
      sr_state s \<in> {Active, Suspended, Closed} \<and> (sr_cancelled s \<longleftrightarrow> sr_state s = Closed)
      \<and> 1 \<le> sr_epoch s \<and> (\<forall>p. sr_operations s = Some p \<longrightarrow> p \<in> used))"

text \<open>What a session that was closed keeps.\<close>

definition settled_fields where
  "settled_fields s = (sr_id s, sr_owner s, sr_group s, sr_limits s, sr_clientSide s, sr_state s, sr_cancelled s, sr_terminal s, sr_epoch s,
     sr_operations s, sr_resumeHash s, sr_peerLimits s)"

text \<open>What one transition may change.\<close>

definition advances :: "'a sessionRecord \<Rightarrow> 'a sessionRecord \<Rightarrow> bool" where
  "advances s t \<longleftrightarrow>
     sr_epoch s \<le> sr_epoch t
     \<and> (sr_operations t \<noteq> sr_operations s \<longrightarrow> sr_epoch s < sr_epoch t)
     \<and> (sr_state s = Closed \<longrightarrow> settled_fields t = settled_fields s)
     \<and> (sr_id t, sr_owner t, sr_group t, sr_limits t) = (sr_id s, sr_owner s, sr_group s, sr_limits s)"

lemma word_not_max_less:
  fixes e :: u64
  assumes "e \<noteq> - 1"
  shows "e < e + 1"
proof -
  have "unat e \<noteq> unat (- 1 :: u64)"
    using assms word_unat_eq_iff by blast
  moreover have "unat e < 2 ^ LENGTH(64)"
    by (rule unsigned_less)
  ultimately have "Suc (unat e) < 2 ^ 64"
    by (simp add: unsigned_minus_1_eq_mask mask_eq_exp_minus_1)
  then have "unat (e + 1) = Suc (unat e)"
    by (simp add: unat_word_ariths)
  then show ?thesis
    by (simp add: word_less_nat_alt)
qed

lemma newSessionRecord_inv:
  "newSessionRecord sid own grp prin limits client operations = Some s \<Longrightarrow>
   session_inv (s, set_option operations)"
  by (auto simp: newSessionRecord_def session_inv_def split: prod.splits option.splits)

lemma session_step_advances: "session_step su tv \<Longrightarrow> advances (fst su) (fst tv)"
  by (induction rule: session_step.induct)
    (auto simp: advances_def settled_fields_def session_defs word_not_max_less less_imp_le split: if_splits)

lemma session_step_inv: "session_step su tv \<Longrightarrow> session_inv su \<Longrightarrow> session_inv tv"
proof (induction rule: session_step.induct)
  case (attach operations used s prin r s' operations')
  then show ?case
    using word_not_max_less [of "sr_epoch s"]
    by (auto simp: session_inv_def replaceConnection_def install_def split: if_splits)
next
  case (attach_at operations used s prin epoch r s' operations')
  then show ?case
    by (auto simp: session_inv_def replaceConnectionAt_def install_def not_le split: if_splits)
qed (auto simp: session_inv_def session_defs split: if_splits)

lemma session_step_used: "session_step su tv \<Longrightarrow> snd su \<subseteq> snd tv"
  by (induction rule: session_step.induct) auto

lemma session_step_detached:
  "session_step su tv \<Longrightarrow> p \<in> snd su \<Longrightarrow> sr_operations (fst su) \<noteq> Some p \<Longrightarrow> sr_operations (fst tv) \<noteq> Some p"
  by (induction rule: session_step.induct) (auto simp: session_defs split: if_splits)

lemma advances_refl: "advances s s"
  by (simp add: advances_def)

lemma advances_trans: "advances s t \<Longrightarrow> advances t u \<Longrightarrow> advances s u"
  unfolding advances_def by (auto simp: settled_fields_def)

lemma session_run_advances: "session_step\<^sup>*\<^sup>* su tv \<Longrightarrow> advances (fst su) (fst tv)"
  by (induction rule: rtranclp_induct)
    (auto intro: advances_refl advances_trans dest: session_step_advances)

lemma session_run_inv: "session_step\<^sup>*\<^sup>* su tv \<Longrightarrow> session_inv su \<Longrightarrow> session_inv tv"
  by (induction rule: rtranclp_induct) (auto intro: session_step_inv)

lemma session_run_detached:
  assumes "session_step\<^sup>*\<^sup>* su tv" "p \<in> snd su" "sr_operations (fst su) \<noteq> Some p"
  shows "sr_operations (fst tv) \<noteq> Some p"
proof -
  from assms have "p \<in> snd tv \<and> sr_operations (fst tv) \<noteq> Some p"
  proof (induction rule: rtranclp_induct)
    case base
    then show ?case by simp
  next
    case (step y z)
    then show ?case
      using session_step_used [of y z] session_step_detached [of y z p] by auto
  qed
  then show ?thesis ..
qed

section \<open>Properties\<close>

text \<open>
  C9. The life of a session: over any run of the endpoints' transitions the epoch never decreases
  and strictly increases whenever the attached connection changes; a session is only ever active,
  suspended or closed; its context is cancelled exactly when it is closed. A session that is closed stays closed, and keeps its
  terminal code, epoch, connection, identity, limits and resume hash; only its principal (a late refresh), the application's
  attachment, its timers and what its budgets hold can still change.
\<close>

theorem session_lifecycle:
  assumes "newSessionRecord sid own grp prin limits client operations = Some s0"
    and "session_step\<^sup>*\<^sup>* (s0, set_option operations) (s, used)" "session_step\<^sup>*\<^sup>* (s, used) (t, used')"
  shows "1 \<le> sr_epoch s \<and> sr_epoch s \<le> sr_epoch t
    \<and> (sr_operations t \<noteq> sr_operations s \<longrightarrow> sr_epoch s < sr_epoch t)
    \<and> sr_state t \<in> {Active, Suspended, Closed} \<and> (sr_cancelled t \<longleftrightarrow> sr_state t = Closed)
    \<and> (sr_state s = Closed \<longrightarrow> settled_fields t = settled_fields s)
    \<and> sr_id t = sid \<and> sr_group t = grp"
proof -
  have "session_inv (s, used)"
    using newSessionRecord_inv [OF assms(1)] session_run_inv [OF assms(2)] by simp
  moreover from this have "session_inv (t, used')"
    by (rule session_run_inv [OF assms(3)])
  moreover have "advances s t" "advances s0 t"
    using session_run_advances [OF assms(3)] session_run_advances [OF rtranclp_trans [OF assms(2,3)]]
    by simp_all
  moreover have "sr_id s0 = sid" "sr_group s0 = grp"
    using assms(1) by (auto simp: newSessionRecord_def split: prod.splits option.splits)
  ultimately show ?thesis
    by (simp add: session_inv_def advances_def)
qed

definition sample_session :: "nat sessionRecord" where
  "sample_session =
     the (newSessionRecord [] \<lparr>ow_ID = ''o'', ow_Incarnation = [], ow_Endpoint = \<lparr>ep_Address = [], ep_ServerName = []\<rparr>\<rparr>
       ''lobby'' \<lparr>pr_Issuer = ''i'', pr_Subject = ''s'', pr_ExpiresAt = 0, pr_Attributes = None\<rparr>
       DefaultLimits False (Some 0))"

lemma sample_session_eq:
  "newSessionRecord [] \<lparr>ow_ID = ''o'', ow_Incarnation = [], ow_Endpoint = \<lparr>ep_Address = [], ep_ServerName = []\<rparr>\<rparr>
     ''lobby'' \<lparr>pr_Issuer = ''i'', pr_Subject = ''s'', pr_ExpiresAt = 0, pr_Attributes = None\<rparr>
     DefaultLimits False (Some 0) = Some sample_session"
  "sr_state sample_session = Active" "sr_epoch sample_session = 1" "sr_operations sample_session = Some 0"
  by (simp_all add: sample_session_def newSessionRecord_def directionalBudgetLimits_def DefaultLimits_def
      NewBudget_def Let_def wrap64_def signed_take_bit_eq_take_bit_minus take_bit_eq_mod)

theorem session_lifecycle_witness:
  "\<exists>t. session_step\<^sup>*\<^sup>* (sample_session, {0}) (t, {0}) \<and> sr_state t = Closed \<and> sr_cancelled t
     \<and> sr_epoch sample_session \<le> sr_epoch t"
proof -
  define t where "t = terminate Normal sample_session"
  have run: "session_step\<^sup>*\<^sup>* (sample_session, {0}) (t, {0})"
    using session_step.remote_close [of sample_session Normal True t "{0}"]
    by (auto simp: closeRemote_def t_def sample_session_eq)
  have "sr_state t = Closed"
    by (simp add: t_def terminate_def)
  with session_lifecycle [OF sample_session_eq(1), of sample_session "{0}" t "{0}"] run show ?thesis
    by (intro exI [of _ t]) simp
qed

text \<open>
  A superseded connection has no more say: once a replacement detached the connection \<open>old\<close> from
  a session, then whatever happens next, \<open>old\<close> is never current again at any epoch and its late
  transport loss neither suspends the session nor changes it in any other way.
\<close>

theorem superseded_connection_is_inert:
  assumes "session_inv (s, used)" "sr_operations s = Some (co_ptr old)"
    and "co_ptr new \<notin> used" "replaceConnectionAt s new prin epoch = (Inr previous, s', new')"
    and "session_step\<^sup>*\<^sup>* (s', insert (co_ptr new) used) (t, used')"
  shows "previous = Some (co_ptr old) \<and> isCurrent (Some s') (Some new')
    \<and> \<not> isCurrent (Some t) (Some old) \<and> suspendIfCurrent t old = (False, t, old)
    \<and> sr_epoch s < sr_epoch t"
proof -
  have s': "previous = sr_operations s" "sr_operations s' = Some (co_ptr new)" "sr_epoch s < sr_epoch s'"
      "isCurrent (Some s') (Some new')"
    using assms(4) by (auto simp: replaceConnectionAt_def install_def isCurrent_def split: if_splits)
  have old: "co_ptr old \<in> used" "co_ptr old \<noteq> co_ptr new"
    using assms(1-3) by (auto simp: session_inv_def)
  with session_run_detached [OF assms(5), of "co_ptr old"] s'(2)
  have detached: "sr_operations t \<noteq> Some (co_ptr old)"
    by simp
  moreover have "sr_epoch s' \<le> sr_epoch t"
    using session_run_advances [OF assms(5)] by (simp add: advances_def)
  ultimately show ?thesis
    using s' assms(2) by (auto simp: isCurrent_def suspendIfCurrent_def)
qed

theorem superseded_connection_is_inert_witness:
  "\<exists>s' new'. replaceConnectionAt sample_session \<lparr>co_ptr = 1, co_epoch = 0, co_stopped = False\<rparr>
        (sr_principal sample_session) 5 = (Inr (Some 0), s', new')
     \<and> suspendIfCurrent s' \<lparr>co_ptr = 0, co_epoch = 1, co_stopped = False\<rparr>
         = (False, s', \<lparr>co_ptr = 0, co_epoch = 1, co_stopped = False\<rparr>)"
proof -
  define new old where "new = \<lparr>co_ptr = 1, co_epoch = 0, co_stopped = False\<rparr>"
    and "old = \<lparr>co_ptr = 0, co_epoch = 1, co_stopped = False\<rparr>"
  obtain s' new' where step: "replaceConnectionAt sample_session new (sr_principal sample_session) 5
      = (Inr (Some 0), s', new')"
    by (simp add: replaceConnectionAt_def sample_session_eq install_def new_def word_le_nat_alt)
  have "session_inv (sample_session, {0})"
    using newSessionRecord_inv [OF sample_session_eq(1)] by simp
  from superseded_connection_is_inert [OF this _ _ step, of old] step show ?thesis
    by (simp add: new_def old_def sample_session_eq) blast
qed

end
