(* ===== verification/Router.thy ===== *)
theory Router
  imports Session
begin

text \<open>
  The message envelope \<open>Incoming\<close> and the \<open>Router\<close> of \<open>api.go\<close>. The closures an envelope carries are
  data here: \<open>in_release\<close> lists, in calling order, what its \<open>release\<close> closure gives back (each layer
  that wraps \<open>release\<close> calls the previous closure first and then returns its own charge), and
  \<open>in_after\<close> says whether an \<open>after\<close> closure is set. \<open>reply\<close> and \<open>fail\<close> are arguments of the
  operations that call them. \<open>sync.Once\<close> is the flag \<open>in_released\<close>. Handlers are values of a type
  \<open>'h\<close>; a nil router or handler is \<open>None\<close>.
\<close>

section \<open>Envelopes\<close>

datatype IncomingKind = EventMessage | RequestMessage | StreamMessage | LifecycleMessage

datatype LifecycleKind = Opened | ConnectionLost | Resumed | SessionEnded | AuthRefreshed

record Lifecycle =
  lc_Kind :: LifecycleKind
  lc_Epoch :: u64
  lc_Reason :: Code

text \<open>
  What a release closure does: return a charge to the polling queue's budget and the application
  budget, return a charge to the application budget alone, or run the clean-up of a request stream.
\<close>

datatype charge = QueueCharge int | AppCharge int | StreamCleanup pointer

record Incoming =
  in_Kind :: IncomingKind
  in_Session :: pointer
  in_Epoch :: u64
  in_Type :: MessageType
  in_Channel :: ChannelID
  in_Delivery :: Delivery
  in_Sequence :: u64
  in_Payload :: bytes
  in_Lifecycle :: "Lifecycle option"
  in_release :: "charge list"
  in_after :: bool
  in_released :: bool
  in_responded :: bool

definition respond :: "error option \<Rightarrow> Incoming \<Rightarrow> error option \<times> Incoming" where
  "respond call i =
     (if in_responded i then (Some ErrSessionClosed, i)
      else (case call of Some err \<Rightarrow> (Some err, i) | None \<Rightarrow> (None, i\<lparr>in_responded := True\<rparr>)))"

definition Reply :: "(bytes \<Rightarrow> error option) option \<Rightarrow> Incoming \<Rightarrow> bytes \<Rightarrow> error option \<times> Incoming" where
  "Reply reply i payload =
     (if in_Kind i \<noteq> RequestMessage then (Some ErrInvalidArgument, i)
      else (case reply of None \<Rightarrow> (Some ErrInvalidArgument, i) | Some f \<Rightarrow> respond (f payload) i))"

definition Fail :: "(Code \<Rightarrow> string \<Rightarrow> error option) option \<Rightarrow> Incoming \<Rightarrow> Code \<Rightarrow> string \<Rightarrow> error option \<times> Incoming" where
  "Fail fail i code message =
     (if in_Kind i \<noteq> RequestMessage then (Some ErrInvalidArgument, i)
      else (case fail of None \<Rightarrow> (Some ErrInvalidArgument, i)
            | Some f \<Rightarrow> if code = Normal then (Some ErrInvalidArgument, i) else respond (f code message) i))"

definition hasResponded :: "Incoming option \<Rightarrow> bool" where
  "hasResponded io = (case io of None \<Rightarrow> False | Some i \<Rightarrow> in_responded i)"

text \<open>\<open>Release\<close> returns the charges to give back: all of them the first time, none later.\<close>

definition Release_in :: "Incoming \<Rightarrow> charge list \<times> Incoming" where
  "Release_in i =
     (if in_released i then ([], i) else (in_release i, i\<lparr>in_released := True, in_Payload := []\<rparr>))"

definition incomingCharge :: "Incoming option \<Rightarrow> int" where
  "incomingCharge io = (case io of None \<Rightarrow> 0 | Some i \<Rightarrow> int (length (in_Payload i)) + 32)"

section \<open>Router\<close>

type_synonym routeKey = "IncomingKind \<times> MessageType"

record 'h Router =
  rt_routes :: "routeKey \<rightharpoonup> 'h"
  rt_unknown :: "'h option"
  rt_lifecycle :: "'h option"

definition NewRouter :: "'h Router" where
  "NewRouter = \<lparr>rt_routes = Map.empty, rt_unknown = None, rt_lifecycle = None\<rparr>"

definition register :: "'h Router \<Rightarrow> IncomingKind \<Rightarrow> MessageType \<Rightarrow> 'h option \<Rightarrow> error option \<times> 'h Router" where
  "register r kind typ handler =
     (case handler of
        None \<Rightarrow> (Some ErrInvalidArgument, r)
      | Some h \<Rightarrow>
          if typ = 0 then (Some ErrInvalidArgument, r)
          else if rt_routes r (kind, typ) \<noteq> None then (Some ErrInvalidArgument, r)
          else (None, r\<lparr>rt_routes := (rt_routes r)((kind, typ) \<mapsto> h)\<rparr>))"

definition OnEvent :: "'h Router \<Rightarrow> MessageType \<Rightarrow> 'h option \<Rightarrow> error option \<times> 'h Router" where
  "OnEvent r typ handler = register r EventMessage typ handler"

definition OnRequest :: "'h Router \<Rightarrow> MessageType \<Rightarrow> 'h option \<Rightarrow> error option \<times> 'h Router" where
  "OnRequest r typ handler = register r RequestMessage typ handler"

definition OnStream :: "'h Router \<Rightarrow> MessageType \<Rightarrow> 'h option \<Rightarrow> error option \<times> 'h Router" where
  "OnStream r typ handler = register r StreamMessage typ handler"

definition OnUnknown :: "'h Router \<Rightarrow> 'h option \<Rightarrow> error option \<times> 'h Router" where
  "OnUnknown r handler =
     (if handler = None then (Some ErrInvalidArgument, r)
      else if rt_unknown r \<noteq> None then (Some ErrInvalidArgument, r)
      else (None, r\<lparr>rt_unknown := handler\<rparr>))"

definition OnLifecycle :: "'h Router \<Rightarrow> 'h option \<Rightarrow> error option \<times> 'h Router" where
  "OnLifecycle r handler =
     (if handler = None then (Some ErrInvalidArgument, r)
      else if rt_lifecycle r \<noteq> None then (Some ErrInvalidArgument, r)
      else (None, r\<lparr>rt_lifecycle := handler\<rparr>))"

definition handler :: "'h Router option \<Rightarrow> Incoming option \<Rightarrow> 'h option" where
  "handler ro io =
     (case (ro, io) of
        (Some r, Some i) \<Rightarrow>
          if in_Kind i = LifecycleMessage then rt_lifecycle r
          else (case rt_routes r (in_Kind i, in_Type i) of Some h \<Rightarrow> Some h | None \<Rightarrow> rt_unknown r)
      | _ \<Rightarrow> None)"

definition snapshot :: "'h Router option \<Rightarrow> 'h Router option" where
  "snapshot ro =
     (case ro of None \<Rightarrow> None
      | Some r \<Rightarrow> Some \<lparr>rt_routes = (\<lambda>key. rt_routes r key), rt_unknown = rt_unknown r, rt_lifecycle = rt_lifecycle r\<rparr>)"

section \<open>What registrations mean\<close>

datatype 'h registration =
  RegEvent MessageType "'h option"
| RegRequest MessageType "'h option"
| RegStream MessageType "'h option"
| RegUnknown "'h option"
| RegLifecycle "'h option"

fun apply_registration :: "'h registration \<Rightarrow> 'h Router \<Rightarrow> error option \<times> 'h Router" where
  "apply_registration (RegEvent typ h) r = OnEvent r typ h"
| "apply_registration (RegRequest typ h) r = OnRequest r typ h"
| "apply_registration (RegStream typ h) r = OnStream r typ h"
| "apply_registration (RegUnknown h) r = OnUnknown r h"
| "apply_registration (RegLifecycle h) r = OnLifecycle r h"

definition configure :: "'h registration list \<Rightarrow> 'h Router" where
  "configure regs = fold (\<lambda>g r. snd (apply_registration g r)) regs NewRouter"

text \<open>The handler a registration offers to messages of a kind and type, to unknown ones, to lifecycle ones.\<close>

fun offers :: "routeKey \<Rightarrow> 'h registration \<Rightarrow> 'h option" where
  "offers key (RegEvent typ h) = (if key = (EventMessage, typ) \<and> typ \<noteq> 0 then h else None)"
| "offers key (RegRequest typ h) = (if key = (RequestMessage, typ) \<and> typ \<noteq> 0 then h else None)"
| "offers key (RegStream typ h) = (if key = (StreamMessage, typ) \<and> typ \<noteq> 0 then h else None)"
| "offers key _ = None"

fun offers_unknown :: "'h registration \<Rightarrow> 'h option" where
  "offers_unknown (RegUnknown h) = h"
| "offers_unknown _ = None"

fun offers_lifecycle :: "'h registration \<Rightarrow> 'h option" where
  "offers_lifecycle (RegLifecycle h) = h"
| "offers_lifecycle _ = None"

text \<open>The first handler offered by a list of registrations.\<close>

definition first_offer :: "('h registration \<Rightarrow> 'h option) \<Rightarrow> 'h registration list \<Rightarrow> 'h option" where
  "first_offer off regs = (case List.map_filter off regs of [] \<Rightarrow> None | h # _ \<Rightarrow> Some h)"

lemma first_offer_snoc:
  "first_offer off (regs @ [g]) = (case first_offer off regs of None \<Rightarrow> off g | Some h \<Rightarrow> Some h)"
  by (auto simp: first_offer_def map_filter_def split: list.splits option.splits)

lemma configure_snoc: "configure (regs @ [g]) = snd (apply_registration g (configure regs))"
  by (simp add: configure_def)

lemmas router_defs = register_def OnEvent_def OnRequest_def OnStream_def OnUnknown_def OnLifecycle_def

lemma apply_registration_fields:
  "rt_routes (snd (apply_registration g r)) key =
     (case rt_routes r key of Some h \<Rightarrow> Some h | None \<Rightarrow> offers key g)"
  "rt_unknown (snd (apply_registration g r)) =
     (case rt_unknown r of Some h \<Rightarrow> Some h | None \<Rightarrow> offers_unknown g)"
  "rt_lifecycle (snd (apply_registration g r)) =
     (case rt_lifecycle r of Some h \<Rightarrow> Some h | None \<Rightarrow> offers_lifecycle g)"
  by (cases g; auto simp: router_defs split: option.splits)+

lemma configure_fields:
  "rt_routes (configure regs) key = first_offer (offers key) regs"
  "rt_unknown (configure regs) = first_offer offers_unknown regs"
  "rt_lifecycle (configure regs) = first_offer offers_lifecycle regs"
  by (induction regs rule: rev_induct)
    (simp_all add: configure_snoc first_offer_snoc apply_registration_fields,
     simp_all add: configure_def NewRouter_def first_offer_def map_filter_def)

lemma snapshot_id [simp]: "snapshot r = r"
  by (cases r) (auto simp: snapshot_def)

lemma Release_in_twice: "Release_in (snd (Release_in i)) = ([], snd (Release_in i))"
  by (simp add: Release_in_def)

section \<open>Properties\<close>

text \<open>
  Routing follows the first registration: in a router built by any sequence of registrations,
  a lifecycle message goes to the first lifecycle handler registered; any other message goes to the
  first handler registered for its kind and its (non-zero) type and, when there is none, to the
  first handler for unknown messages. The snapshot an endpoint takes routes the same way, and a
  registration that reports an error leaves the router unchanged.
\<close>

theorem routing_first_registration:
  "handler (snapshot (Some (configure regs))) (Some i) =
     (if in_Kind i = LifecycleMessage then first_offer offers_lifecycle regs
      else (case first_offer (offers (in_Kind i, in_Type i)) regs of
              Some h \<Rightarrow> Some h | None \<Rightarrow> first_offer offers_unknown regs))
   \<and> (fst (apply_registration g r) = None \<or> snd (apply_registration g r) = r)"
  by (cases g; auto simp: handler_def configure_fields router_defs split: option.splits)

end
