(* ===== verification/Runtime_Queue.thy ===== *)
theory Runtime_Queue
  imports Budget
begin

text \<open>
  \<open>internal/runtime/queue.go\<close>: the bounded, byte-accounted FIFO queue with reservations. Each
  operation holds the mutex from start to end, so it is a function on the queue's state. A
  reservation object is its byte charge and its \<open>done\<close> flag. The blocking operations \<open>Reserve\<close>,
  \<open>Push\<close> and \<open>WaitPop\<close> retry a non-blocking one each time they receive from the shared one-slot
  \<open>notify\<close> channel; they are steps of the waiter system at the end of the theory.
\<close>

section \<open>Data\<close>

record 'a Item =
  it_Value :: 'a
  it_Bytes :: int
  it_Key :: u64

record 'a Queue =
  q_items :: "'a Item list"
  q_maxBytes :: int
  q_maxItems :: int
  q_bytes :: int
  q_reservedBytes :: int
  q_reservedItems :: int
  q_closed :: bool
  q_notify :: bool

record Reservation =
  rv_bytes :: int
  rv_done :: bool

section \<open>Operations\<close>

definition NewQueue :: "int \<Rightarrow> int \<Rightarrow> 'a Queue option" where
  "NewQueue maxBytes maxItems =
     (if maxBytes < 0 \<or> maxItems < 0 then None
      else Some \<lparr>q_items = [], q_maxBytes = maxBytes, q_maxItems = maxItems, q_bytes = 0,
                 q_reservedBytes = 0, q_reservedItems = 0, q_closed = False, q_notify = False\<rparr>)"

definition signal_q :: "'a Queue \<Rightarrow> 'a Queue" where
  "signal_q q = q\<lparr>q_notify := True\<rparr>"

text \<open>The admission test \<open>TryPush\<close>, \<open>TryReserve\<close> and \<open>ReplaceWith\<close> share: no slot or no bytes left.\<close>

definition no_room :: "'a Queue \<Rightarrow> int \<Rightarrow> bool" where
  "no_room q n \<longleftrightarrow> int (length (q_items q)) + q_reservedItems q \<ge> q_maxItems q
     \<or> n > q_maxBytes q - q_bytes q - q_reservedBytes q"

definition TryPush :: "'a Queue \<Rightarrow> 'a Item \<Rightarrow> bool \<times> 'a Queue" where
  "TryPush q item =
     (if q_closed q \<or> it_Bytes item < 0 \<or> no_room q (it_Bytes item) then (False, q)
      else (True, signal_q (q\<lparr>q_items := q_items q @ [item], q_bytes := q_bytes q + it_Bytes item\<rparr>)))"

definition TryReserve :: "'a Queue \<Rightarrow> int \<Rightarrow> Reservation option \<times> 'a Queue" where
  "TryReserve q n =
     (if n < 0 then (None, q)
      else if q_closed q \<or> no_room q n then (None, q)
      else (Some \<lparr>rv_bytes = n, rv_done = False\<rparr>,
            q\<lparr>q_reservedItems := q_reservedItems q + 1, q_reservedBytes := q_reservedBytes q + n\<rparr>))"

definition finish :: "'a Queue \<Rightarrow> Reservation \<Rightarrow> 'a Item \<Rightarrow> bool \<Rightarrow> bool \<times> Reservation \<times> 'a Queue" where
  "finish q r item commit =
     (if rv_done r then (False, r, q)
      else
        (let r = r\<lparr>rv_done := True\<rparr>;
             q = q\<lparr>q_reservedItems := q_reservedItems q - 1,
                   q_reservedBytes := q_reservedBytes q - rv_bytes r\<rparr> in
         if commit \<and> \<not> q_closed q
         then (True, r, signal_q (q\<lparr>q_items := q_items q @ [item], q_bytes := q_bytes q + it_Bytes item\<rparr>))
         else (False, r, signal_q q)))"

definition Commit :: "'a Queue \<Rightarrow> Reservation \<Rightarrow> 'a Item \<Rightarrow> bool \<times> Reservation \<times> 'a Queue" where
  "Commit q r item =
     (if it_Bytes item \<noteq> rv_bytes r then (False, r, q) else finish q r item True)"

text \<open>\<open>Cancel\<close> passes a zero item that \<open>finish\<close> never stores; any item stands for it.\<close>

definition Cancel :: "'a Queue \<Rightarrow> Reservation \<Rightarrow> 'a Item \<Rightarrow> Reservation \<times> 'a Queue" where
  "Cancel q r zero = (let (_, r', q') = finish q r zero False in (r', q'))"

definition Pop :: "'a Queue \<Rightarrow> 'a Item option \<times> 'a Queue" where
  "Pop q =
     (case q_items q of [] \<Rightarrow> (None, q)
      | item # rest \<Rightarrow> (Some item, signal_q (q\<lparr>q_items := rest, q_bytes := q_bytes q - it_Bytes item\<rparr>)))"

text \<open>The loop of \<open>Remove\<close>: kept items, their byte sum, removed items.\<close>

fun remove_loop :: "('a Item \<Rightarrow> bool) \<Rightarrow> 'a Item list \<Rightarrow> 'a Item list \<Rightarrow> int \<Rightarrow> 'a Item list \<Rightarrow>
  'a Item list \<times> int \<times> 'a Item list" where
  "remove_loop remove [] kept n removed = (kept, n, removed)"
| "remove_loop remove (item # items) kept n removed =
     (if remove item then remove_loop remove items kept n (removed @ [item])
      else remove_loop remove items (kept @ [item]) (n + it_Bytes item) removed)"

definition Remove :: "'a Queue \<Rightarrow> ('a Item \<Rightarrow> bool) \<Rightarrow> 'a Item list \<times> 'a Queue" where
  "Remove q remove =
     (let (kept, n, removed) = remove_loop remove (q_items q) [] 0 [];
          q = q\<lparr>q_items := kept, q_bytes := n\<rparr> in
      (removed, if removed \<noteq> [] then signal_q q else q))"

text \<open>The search of \<open>ReplaceWith\<close> for the first item with the key.\<close>

fun find_key :: "u64 \<Rightarrow> 'a Item list \<Rightarrow> nat \<Rightarrow> (nat \<times> 'a Item) option" where
  "find_key k [] i = None"
| "find_key k (old # items) i = (if it_Key old \<noteq> k then find_key k items (Suc i) else Some (i, old))"

definition ReplaceWith :: "'a Queue \<Rightarrow> 'a Item \<Rightarrow> (bool \<times> 'a Item option \<times> bool) \<times> 'a Queue" where
  "ReplaceWith q item =
     (if q_closed q \<or> it_Bytes item < 0 then ((False, None, False), q)
      else
        (case find_key (it_Key item) (q_items q) 0 of
           Some (i, old) \<Rightarrow>
             (if it_Bytes item > q_maxBytes q - (q_bytes q - it_Bytes old) - q_reservedBytes q
              then ((False, None, True), q)
              else ((True, Some old, True),
                    signal_q (q\<lparr>q_items := (q_items q)[i := item],
                                q_bytes := q_bytes q + (it_Bytes item - it_Bytes old)\<rparr>)))
         | None \<Rightarrow>
             (if no_room q (it_Bytes item) then ((False, None, False), q)
              else ((True, None, False),
                    signal_q (q\<lparr>q_items := q_items q @ [item], q_bytes := q_bytes q + it_Bytes item\<rparr>)))))"

definition Replace :: "'a Queue \<Rightarrow> 'a Item \<Rightarrow> (bool \<times> bool) \<times> 'a Queue" where
  "Replace q item = (let ((accepted, _, replaced), q') = ReplaceWith q item in ((accepted, replaced), q'))"

definition Close_q :: "'a Queue \<Rightarrow> 'a Queue" where
  "Close_q q = signal_q (q\<lparr>q_closed := True\<rparr>)"

definition Len :: "'a Queue \<Rightarrow> int \<times> int" where
  "Len q = (int (length (q_items q)), q_bytes q)"

section \<open>Invariant\<close>

text \<open>
  \<open>queue_inv q rs\<close>: \<open>q\<close> is well formed when \<open>rs\<close> are the byte charges of its live reservations.
\<close>

definition queue_inv :: "'a Queue \<Rightarrow> int multiset \<Rightarrow> bool" where
  "queue_inv q rs \<longleftrightarrow>
     q_bytes q = (\<Sum>it \<leftarrow> q_items q. it_Bytes it) \<and> (\<forall>it \<in> set (q_items q). 0 \<le> it_Bytes it)
     \<and> q_reservedItems q = int (size rs) \<and> q_reservedBytes q = sum_mset rs \<and> (\<forall>n \<in># rs. 0 \<le> n)
     \<and> int (length (q_items q)) + q_reservedItems q \<le> q_maxItems q
     \<and> q_bytes q + q_reservedBytes q \<le> q_maxBytes q"

lemmas queue_defs = signal_q_def no_room_def TryPush_def TryReserve_def finish_def Commit_def
  Cancel_def Pop_def Close_q_def

section \<open>Every operation preserves the invariant\<close>

lemma queue_inv_signal [simp]: "queue_inv (signal_q q) rs = queue_inv q rs"
  by (simp add: queue_inv_def signal_q_def)

lemma queue_inv_close [simp]: "queue_inv (Close_q q) rs = queue_inv q rs"
  by (simp add: queue_inv_def Close_q_def signal_q_def)

lemma sum_bytes_nonneg: "(\<forall>it \<in> set items. 0 \<le> it_Bytes it) \<Longrightarrow> 0 \<le> (\<Sum>it \<leftarrow> items. it_Bytes it)"
  by (induction items) auto

lemma queue_inv_bounds:
  assumes "queue_inv q rs"
  shows "0 \<le> q_bytes q" "0 \<le> q_reservedBytes q" "q_bytes q \<le> q_maxBytes q"
    "q_reservedBytes q \<le> q_maxBytes q" "0 \<le> q_reservedItems q"
  using assms sum_bytes_nonneg [of "q_items q"] sum_mset_int_nonneg [of rs]
  by (auto simp: queue_inv_def)

lemma NewQueue_inv: "NewQueue b i = Some q \<Longrightarrow> queue_inv q {#}"
  by (auto simp: NewQueue_def queue_inv_def split: if_splits)

lemma TryPush_inv: "queue_inv q rs \<Longrightarrow> TryPush q item = (ok, q') \<Longrightarrow> queue_inv q' rs"
  by (auto simp: TryPush_def no_room_def queue_inv_def signal_q_def split: if_splits)

lemma TryReserve_inv:
  assumes "queue_inv q rs" "TryReserve q n = (r, q')"
  shows "queue_inv q' (case r of None \<Rightarrow> rs | Some rv \<Rightarrow> add_mset (rv_bytes rv) rs)"
  using assms by (auto simp: TryReserve_def no_room_def queue_inv_def split: if_splits)

lemma finish_inv:
  assumes "queue_inv q (add_mset (rv_bytes r) rs)" "\<not> rv_done r"
    "commit \<longrightarrow> it_Bytes item = rv_bytes r" "finish q r item commit = (ok, r', q')"
  shows "queue_inv q' rs" "rv_done r'"
  using assms by (auto simp: finish_def Let_def queue_inv_def signal_q_def split: if_splits)

lemma Commit_inv:
  assumes "queue_inv q (add_mset (rv_bytes r) rs)" "\<not> rv_done r" "it_Bytes item = rv_bytes r"
    "Commit q r item = (ok, r', q')"
  shows "queue_inv q' rs" "rv_done r'"
  using finish_inv [of q r rs True item ok r' q'] assms by (auto simp: Commit_def)

lemma Cancel_inv:
  assumes "queue_inv q (add_mset (rv_bytes r) rs)" "\<not> rv_done r" "Cancel q r z = (r', q')"
  shows "queue_inv q' rs" "rv_done r'"
  using finish_inv [of q r rs False z] assms by (auto simp: Cancel_def split: prod.splits)

lemma Pop_inv: "queue_inv q rs \<Longrightarrow> Pop q = (r, q') \<Longrightarrow> queue_inv q' rs"
  by (auto simp: Pop_def queue_inv_def signal_q_def split: list.splits)

lemma remove_loop_eq:
  "remove_loop p items kept n removed =
     (kept @ filter (\<lambda>it. \<not> p it) items, n + (\<Sum>it \<leftarrow> filter (\<lambda>it. \<not> p it) items. it_Bytes it),
      removed @ filter p items)"
  by (induction items arbitrary: kept n removed) auto

lemma Remove_eq:
  "Remove q p = (filter p (q_items q),
     (let q' = q\<lparr>q_items := filter (\<lambda>it. \<not> p it) (q_items q),
                 q_bytes := (\<Sum>it \<leftarrow> filter (\<lambda>it. \<not> p it) (q_items q). it_Bytes it)\<rparr>
      in if filter p (q_items q) \<noteq> [] then signal_q q' else q'))"
  by (simp add: Remove_def remove_loop_eq Let_def)

lemma sum_filter_le:
  "(\<forall>it \<in> set items. 0 \<le> it_Bytes it) \<Longrightarrow>
   (\<Sum>it \<leftarrow> filter p items. it_Bytes it) \<le> (\<Sum>it \<leftarrow> items. it_Bytes it)"
  by (induction items) auto

lemma Remove_inv:
  assumes "queue_inv q rs" "Remove q p = (removed, q')"
  shows "queue_inv q' rs"
proof -
  have "(\<Sum>it \<leftarrow> filter (\<lambda>it. \<not> p it) (q_items q). it_Bytes it) \<le> q_bytes q"
    using assms(1) by (auto simp: queue_inv_def intro: sum_filter_le)
  moreover have "int (length (filter (\<lambda>it. \<not> p it) (q_items q))) \<le> int (length (q_items q))"
    by (simp only: of_nat_le_iff length_filter_le)
  then have "int (length (filter (\<lambda>it. \<not> p it) (q_items q))) + q_reservedItems q \<le> q_maxItems q"
    using assms(1) unfolding queue_inv_def by linarith
  ultimately have "queue_inv (q\<lparr>q_items := filter (\<lambda>it. \<not> p it) (q_items q),
      q_bytes := (\<Sum>it \<leftarrow> filter (\<lambda>it. \<not> p it) (q_items q). it_Bytes it)\<rparr>) rs"
    using assms(1) by (auto simp: queue_inv_def)
  with assms(2) show ?thesis
    by (auto simp: Remove_eq Let_def split: if_splits)
qed

lemma find_key_Some:
  assumes "find_key k items i = Some (j, old)"
  shows "\<exists>pre post. items = pre @ old # post \<and> j = i + length pre \<and> it_Key old = k
    \<and> (\<forall>it \<in> set pre. it_Key it \<noteq> k)"
  using assms
proof (induction items arbitrary: i)
  case Nil
  then show ?case by simp
next
  case (Cons x items)
  show ?case
  proof (cases "it_Key x = k")
    case True
    with Cons.prems show ?thesis
      by (intro exI [of _ "[]"] exI [of _ items]) simp
  next
    case False
    with Cons.IH [of "Suc i"] Cons.prems obtain pre post where
      "items = pre @ old # post" "j = Suc i + length pre" "it_Key old = k"
      "\<forall>it \<in> set pre. it_Key it \<noteq> k"
      by auto
    with False show ?thesis
      by (intro exI [of _ "x # pre"] exI [of _ post]) simp
  qed
qed

lemma find_key_None: "find_key k items i = None \<longleftrightarrow> (\<forall>it \<in> set items. it_Key it \<noteq> k)"
  by (induction items arbitrary: i) auto

lemma ReplaceWith_inv:
  assumes "queue_inv q rs" "ReplaceWith q item = (out, q')"
  shows "queue_inv q' rs"
proof (cases "find_key (it_Key item) (q_items q) 0")
  case None
  with assms show ?thesis
    by (auto simp: ReplaceWith_def no_room_def queue_inv_def signal_q_def split: if_splits)
next
  case (Some p)
  obtain i old where p: "p = (i, old)"
    by fastforce
  with Some obtain pre post where "q_items q = pre @ old # post" "i = length pre"
    using find_key_Some by fastforce
  with assms Some p show ?thesis
    by (auto simp: ReplaceWith_def queue_inv_def signal_q_def split: if_splits)
qed

section \<open>Reachable queues\<close>

text \<open>One operation on a queue whose live reservations carry the charges \<open>rs\<close>.\<close>

inductive queue_step :: "'a Queue \<times> int multiset \<Rightarrow> 'a Queue \<times> int multiset \<Rightarrow> bool" where
  push: "TryPush q item = (ok, q') \<Longrightarrow> queue_step (q, rs) (q', rs)"
| reserve: "TryReserve q n = (Some r, q') \<Longrightarrow> queue_step (q, rs) (q', add_mset (rv_bytes r) rs)"
| commit: "n \<in># rs \<Longrightarrow> it_Bytes item = n \<Longrightarrow> Commit q \<lparr>rv_bytes = n, rv_done = False\<rparr> item = (ok, r', q') \<Longrightarrow>
     queue_step (q, rs) (q', rs - {#n#})"
| cancel: "n \<in># rs \<Longrightarrow> Cancel q \<lparr>rv_bytes = n, rv_done = False\<rparr> z = (r', q') \<Longrightarrow>
     queue_step (q, rs) (q', rs - {#n#})"
| pop: "Pop q = (x, q') \<Longrightarrow> queue_step (q, rs) (q', rs)"
| remove: "Remove q p = (removed, q') \<Longrightarrow> queue_step (q, rs) (q', rs)"
| replace: "ReplaceWith q item = (out, q') \<Longrightarrow> queue_step (q, rs) (q', rs)"
| close: "queue_step (q, rs) (Close_q q, rs)"

lemma queue_step_inv: "queue_step s t \<Longrightarrow> queue_inv (fst s) (snd s) \<Longrightarrow> queue_inv (fst t) (snd t)"
proof (induction rule: queue_step.induct)
  case (push q item ok q' rs)
  then show ?case by (auto intro: TryPush_inv)
next
  case (reserve q n r q' rs)
  from TryReserve_inv [of q rs n "Some r" q'] reserve show ?case by simp
next
  case (commit n rs item q ok r' q')
  then obtain rest where "rs = add_mset n rest"
    by (metis multi_member_split)
  with commit Commit_inv(1) [of q "\<lparr>rv_bytes = n, rv_done = False\<rparr>" rest item ok r' q']
  show ?case by simp
next
  case (cancel n rs q z r' q')
  then obtain rest where "rs = add_mset n rest"
    by (metis multi_member_split)
  with cancel Cancel_inv(1) [of q "\<lparr>rv_bytes = n, rv_done = False\<rparr>" rest z r' q']
  show ?case by simp
next
  case (pop q x q' rs)
  then show ?case by (auto intro: Pop_inv)
next
  case (remove q p removed q' rs)
  then show ?case by (auto intro: Remove_inv)
next
  case (replace q item out q' rs)
  then show ?case by (auto intro: ReplaceWith_inv)
next
  case (close q rs)
  then show ?case by simp
qed

lemma queue_step_limits:
  "queue_step s t \<Longrightarrow> q_maxBytes (fst t) = q_maxBytes (fst s) \<and> q_maxItems (fst t) = q_maxItems (fst s)"
  by (induction rule: queue_step.induct)
    (auto simp: TryPush_def TryReserve_def Commit_def Cancel_def finish_def Pop_def Remove_eq
      ReplaceWith_def Close_q_def signal_q_def Let_def split: if_splits list.splits option.splits prod.splits)

lemma reachable_queue:
  assumes "queue_step\<^sup>*\<^sup>* (q0, {#}) s" "NewQueue b i = Some q0"
  shows "queue_inv (fst s) (snd s) \<and> q_maxBytes (fst s) = b \<and> q_maxItems (fst s) = i"
  using assms
proof (induction rule: rtranclp_induct)
  case base
  then show ?case by (auto simp: NewQueue_def queue_inv_def split: if_splits)
next
  case (step y z)
  then show ?case using queue_step_inv queue_step_limits by metis
qed

section \<open>The contract of a bounded FIFO\<close>

datatype 'i fifo_op = PushOp 'i | PopOp

text \<open>Runs of pushes and pops: the items accepted, the items delivered, the final queue.\<close>

fun fifo_run :: "('q \<Rightarrow> 'i \<Rightarrow> bool \<times> 'q) \<Rightarrow> ('q \<Rightarrow> 'i option \<times> 'q) \<Rightarrow> 'q \<Rightarrow> 'i fifo_op list \<Rightarrow>
    'i list \<times> 'i list \<times> 'q" where
  "fifo_run push pop q [] = ([], [], q)"
| "fifo_run push pop q (PushOp x # ops) =
     (let (ok, q1) = push q x; (acc, out, q2) = fifo_run push pop q1 ops
      in (if ok then x # acc else acc, out, q2))"
| "fifo_run push pop q (PopOp # ops) =
     (let (r, q1) = pop q; (acc, out, q2) = fifo_run push pop q1 ops
      in (acc, (case r of None \<Rightarrow> out | Some x \<Rightarrow> x # out), q2))"

locale bounded_fifo =
  fixes push :: "'q \<Rightarrow> 'i \<Rightarrow> bool \<times> 'q"
    and pop :: "'q \<Rightarrow> 'i option \<times> 'q"
    and contents :: "'q \<Rightarrow> 'i list"
  assumes push_accepted: "push q x = (True, q') \<Longrightarrow> contents q' = contents q @ [x]"
    and push_rejected: "push q x = (False, q') \<Longrightarrow> contents q' = contents q"
    and pop_None: "pop q = (None, q') \<Longrightarrow> contents q = [] \<and> contents q' = []"
    and pop_Some: "pop q = (Some x, q') \<Longrightarrow> contents q = x # contents q'"
begin

lemma run_in_order:
  "fifo_run push pop q ops = (acc, out, q') \<Longrightarrow> contents q @ acc = out @ contents q'"
proof (induction ops arbitrary: q acc out)
  case Nil
  then show ?case by simp
next
  case (Cons op ops)
  show ?case
  proof (cases op)
    case (PushOp x)
    obtain ok q1 where p: "push q x = (ok, q1)"
      by fastforce
    obtain acc1 where "fifo_run push pop q1 ops = (acc1, out, q')" "acc = (if ok then x # acc1 else acc1)"
      using Cons.prems PushOp p by (auto split: prod.splits)
    with Cons.IH [of q1 acc1 out] p push_accepted [of q x q1] push_rejected [of q x q1] show ?thesis
      by (cases ok) auto
  next
    case PopOp
    obtain r q1 where p: "pop q = (r, q1)"
      by fastforce
    obtain out1 where run: "fifo_run push pop q1 ops = (acc, out1, q')"
      and out: "out = (case r of None \<Rightarrow> out1 | Some x \<Rightarrow> x # out1)"
      using Cons.prems PopOp p by (auto split: prod.splits)
    with Cons.IH [OF run] p pop_None [of q q1] pop_Some [of q _ q1] show ?thesis
      by (cases r) auto
  qed
qed

end

section \<open>The queue keeps the contract\<close>

lemma TryPush_contents:
  "TryPush q x = (True, q') \<Longrightarrow> q_items q' = q_items q @ [x]"
  "TryPush q x = (False, q') \<Longrightarrow> q' = q"
  by (auto simp: TryPush_def signal_q_def split: if_splits)

lemma Pop_contents:
  "Pop q = (None, q') \<Longrightarrow> q_items q = [] \<and> q' = q"
  "Pop q = (Some x, q') \<Longrightarrow> q_items q = x # q_items q'"
  by (auto simp: Pop_def signal_q_def split: list.splits)

interpretation rq: bounded_fifo TryPush Pop q_items
  by unfold_locales (auto dest: TryPush_contents Pop_contents)

lemma Commit_open:
  assumes "\<not> q_closed q" "\<not> rv_done r" "it_Bytes item = rv_bytes r"
  shows "\<exists>r' q'. Commit q r item = (True, r', q') \<and> q_items q' = q_items q @ [item]"
  using assms by (simp add: Commit_def finish_def Let_def signal_q_def)

lemma finish_done: "rv_done r \<Longrightarrow> finish q r item c = (False, r, q)"
  by (simp add: finish_def)

section \<open>Goroutines blocked on the queue\<close>

text \<open>
  \<open>Reserve\<close>, \<open>Push\<close> and \<open>WaitPop\<close> try, return when the attempt succeeds or the queue is closed, and
  otherwise wait for the context or for one token of \<open>notify\<close> and try again. A waiter is the request
  it repeats. The token stays in the channel until some waiter takes it, whichever waiter that is.
\<close>

datatype 'a waiter = WantPop | WantReserve int | WantPush "'a Item"

text \<open>
  One iteration of each loop: \<open>None\<close> when it goes on to wait for \<open>notify\<close> or the context, otherwise
  what the call returns. (When the context ends first the call returns the context's error: the
  step \<open>canceled\<close> below.)
\<close>

definition Reserve :: "'a Queue \<Rightarrow> int \<Rightarrow> (ctx_error + Reservation) option \<times> 'a Queue" where
  "Reserve q n =
     (case TryReserve q n of
        (Some r, q') \<Rightarrow> (Some (Inr r), q')
      | (None, q') \<Rightarrow> (if q_closed q' then Some (Inl Canceled_ctx) else None, q'))"

definition Push :: "'a Queue \<Rightarrow> 'a Item \<Rightarrow> (ctx_error + unit) option \<times> 'a Queue" where
  "Push q item =
     (let (ok, q') = TryPush q item in
      (if ok then Some (Inr ()) else if q_closed q' then Some (Inl Canceled_ctx) else None, q'))"

definition WaitPop :: "'a Queue \<Rightarrow> (ctx_error + 'a Item) option \<times> 'a Queue" where
  "WaitPop q =
     (case Pop q of
        (Some item, q') \<Rightarrow> (Some (Inr item), q')
      | (None, q') \<Rightarrow> (if q_closed q' then Some (Inl Canceled_ctx) else None, q'))"

text \<open>
  The iteration of a waiter: whether the call returns, the charges of reservations it obtained, and
  the queue after it.
\<close>

fun attempt :: "'a waiter \<Rightarrow> 'a Queue \<Rightarrow> bool \<times> int multiset \<times> 'a Queue" where
  "attempt WantPop q = (let (r, q') = WaitPop q in (r \<noteq> None, {#}, q'))"
| "attempt (WantReserve n) q =
     (case Reserve q n of
        (Some (Inr r), q') \<Rightarrow> (True, {#rv_bytes r#}, q')
      | (r, q') \<Rightarrow> (r \<noteq> None, {#}, q'))"
| "attempt (WantPush item) q = (let (r, q') = Push q item in (r \<noteq> None, {#}, q'))"

text \<open>States: the queue, the charges of live reservations, the blocked goroutines.\<close>

type_synonym 'a waiting = "'a Queue \<times> int multiset \<times> 'a waiter multiset"

inductive waiter_step :: "'a waiting \<Rightarrow> 'a waiting \<Rightarrow> bool" where
  returns: "attempt w q = (True, new, q') \<Longrightarrow> waiter_step (q, rs, ws) (q', rs + new, ws)"
| blocks: "attempt w q = (False, new, q') \<Longrightarrow> waiter_step (q, rs, ws) (q', rs, add_mset w ws)"
| wakes_returns: "w \<in># ws \<Longrightarrow> q_notify q \<Longrightarrow>
     attempt w (q\<lparr>q_notify := False\<rparr>) = (True, new, q') \<Longrightarrow>
     waiter_step (q, rs, ws) (q', rs + new, ws - {#w#})"
| wakes_blocks: "w \<in># ws \<Longrightarrow> q_notify q \<Longrightarrow>
     attempt w (q\<lparr>q_notify := False\<rparr>) = (False, new, q') \<Longrightarrow>
     waiter_step (q, rs, ws) (q', rs, ws)"
| canceled: "w \<in># ws \<Longrightarrow> waiter_step (q, rs, ws) (q, rs, ws - {#w#})"
| other: "queue_step (q, rs) (q', rs') \<Longrightarrow> waiter_step (q, rs, ws) (q', rs', ws)"

text \<open>Steps after which only consumers are blocked.\<close>

definition consumer_step :: "'a waiting \<Rightarrow> 'a waiting \<Rightarrow> bool" where
  "consumer_step s t \<longleftrightarrow> waiter_step s t \<and> set_mset (snd (snd t)) \<subseteq> {WantPop}"

lemma attempt_pop_blocked:
  "attempt WantPop q = (False, new, q') \<Longrightarrow> q' = q \<and> q_items q = [] \<and> \<not> q_closed q"
  by (auto simp: WaitPop_def Pop_def split: list.splits if_splits)

text \<open>No operation leaves items behind without a token that was not there before.\<close>

definition awake :: "'a Queue \<Rightarrow> bool" where
  "awake q \<longleftrightarrow> q_notify q \<or> q_items q = []"

lemma TryPush_awake: "awake q \<Longrightarrow> TryPush q x = (ok, q') \<Longrightarrow> awake q'"
  by (auto simp: awake_def TryPush_def signal_q_def split: if_splits)

lemma TryReserve_awake: "awake q \<Longrightarrow> TryReserve q n = (r, q') \<Longrightarrow> awake q'"
  by (auto simp: awake_def TryReserve_def split: if_splits)

lemma Pop_awake: "awake q \<Longrightarrow> Pop q = (r, q') \<Longrightarrow> awake q'"
  by (auto simp: awake_def Pop_def signal_q_def split: list.splits)

lemma attempt_awake: "awake q \<Longrightarrow> attempt w q = (b, new, q') \<Longrightarrow> awake q'"
  by (cases w)
    (auto simp: WaitPop_def Reserve_def Push_def intro: TryPush_awake TryReserve_awake Pop_awake
      split: prod.splits option.splits if_splits)

lemma finish_awake: "awake q \<Longrightarrow> finish q r item c = (ok, r', q') \<Longrightarrow> awake q'"
  by (auto simp: awake_def finish_def signal_q_def Let_def split: if_splits)

lemma Commit_awake: "awake q \<Longrightarrow> Commit q r item = (ok, r', q') \<Longrightarrow> awake q'"
  by (auto simp: Commit_def intro: finish_awake split: if_splits)

lemma Cancel_awake: "awake q \<Longrightarrow> Cancel q r item = (r', q') \<Longrightarrow> awake q'"
  by (auto simp: Cancel_def intro: finish_awake split: prod.splits)

lemma Close_awake: "awake (Close_q q)"
  by (simp add: awake_def Close_q_def signal_q_def)

lemmas awake_rules = TryPush_awake TryReserve_awake Pop_awake Commit_awake Cancel_awake Close_awake

lemma queue_step_awake: "queue_step s t \<Longrightarrow> awake (fst s) \<Longrightarrow> awake (fst t)"
proof (induction rule: queue_step.induct)
  case (remove q p removed q' rs)
  then show ?case
    by (auto simp: awake_def Remove_eq signal_q_def Let_def split: if_splits)
next
  case (replace q item out q' rs)
  then show ?case
    by (auto simp: awake_def ReplaceWith_def signal_q_def split: if_splits option.splits)
qed (auto intro: awake_rules)

lemma Pop_notifies:
  "attempt WantPop q = (True, new, q') \<Longrightarrow> q_notify q' \<or> q_items q' = []"
  by (auto simp: WaitPop_def Pop_def signal_q_def split: list.splits if_splits)

lemma consumer_step_awake:
  assumes "waiter_step s t" "set_mset (snd (snd s)) \<subseteq> {WantPop}" "awake (fst s)"
    and "set_mset (snd (snd t)) \<subseteq> {WantPop}"
  shows "awake (fst t)"
  using assms
proof (induction rule: waiter_step.induct)
  case (returns w q new q' rs ws)
  then show ?case by (metis attempt_awake fst_conv)
next
  case (blocks w q new q' rs ws)
  then show ?case by (metis attempt_awake fst_conv)
next
  case (wakes_returns w ws q new q' rs)
  then have "w = WantPop" by auto
  with wakes_returns Pop_notifies [of "q\<lparr>q_notify := False\<rparr>"] show ?case
    by (simp add: awake_def)
next
  case (wakes_blocks w ws q new q' rs)
  then have "w = WantPop" by auto
  with wakes_blocks attempt_pop_blocked [of "q\<lparr>q_notify := False\<rparr>"] show ?case
    by (simp add: awake_def)
next
  case (other q rs q' rs' ws)
  then show ?case using queue_step_awake by fastforce
qed auto

lemma consumers_awake:
  assumes "consumer_step\<^sup>*\<^sup>* (q0, {#}, {#}) s" "awake q0"
  shows "awake (fst s) \<and> set_mset (snd (snd s)) \<subseteq> {WantPop}"
  using assms
proof (induction rule: rtranclp_induct)
  case base
  then show ?case by simp
next
  case (step y z)
  then show ?case
    using consumer_step_awake [of y z] by (simp add: consumer_step_def)
qed

section \<open>Properties\<close>

text \<open>Inputs of the witnesses.\<close>

definition sample_item :: "nat \<Rightarrow> nat Item" where
  "sample_item n = \<lparr>it_Value = n, it_Bytes = 10, it_Key = 0\<rparr>"

definition sample_queue :: "int \<Rightarrow> nat Queue" where
  "sample_queue n = \<lparr>q_items = [], q_maxBytes = 64, q_maxItems = n, q_bytes = 0,
    q_reservedBytes = 0, q_reservedItems = 0, q_closed = False, q_notify = False\<rparr>"

text \<open>
  C27. Capacity: in every queue reached from \<open>NewQueue maxBytes maxItems\<close> by any sequence of its
  operations, queued plus reserved items and bytes never exceed the two maxima, \<open>bytes\<close> is the sum
  of the queued items' charges, the reservation counters are exactly the live reservations, and no
  counter leaves the range of Go's \<open>int\<close>.
\<close>

theorem queue_capacity:
  assumes "NewQueue maxBytes maxItems = Some q0" "queue_step\<^sup>*\<^sup>* (q0, {#}) (q, rs)"
    and "maxBytes \<le> maxInt" "maxItems \<le> maxInt"
  shows "int (length (q_items q)) + q_reservedItems q \<le> maxItems
    \<and> q_bytes q + q_reservedBytes q \<le> maxBytes
    \<and> q_bytes q = (\<Sum>it \<leftarrow> q_items q. it_Bytes it)
    \<and> q_reservedItems q = int (size rs) \<and> q_reservedBytes q = sum_mset rs
    \<and> {q_bytes q, q_reservedBytes q, q_reservedItems q, maxBytes - q_bytes q - q_reservedBytes q}
        \<subseteq> {0..maxInt}"
  using reachable_queue [OF assms(2,1)] queue_inv_bounds [of q rs] assms(3,4)
  by (auto simp: queue_inv_def)

theorem queue_capacity_witness:
  "\<exists>q0 q :: nat Queue. NewQueue 64 2 = Some q0 \<and> queue_step\<^sup>*\<^sup>* (q0, {#}) (q, {#40#})
     \<and> q_bytes q + q_reservedBytes q \<le> 64 \<and> q_reservedBytes q = 40"
proof -
  define q0 :: "nat Queue" where "q0 = \<lparr>q_items = [], q_maxBytes = 64, q_maxItems = 2, q_bytes = 0,
    q_reservedBytes = 0, q_reservedItems = 0, q_closed = False, q_notify = False\<rparr>"
  define q where "q = q0\<lparr>q_reservedItems := 1, q_reservedBytes := 40\<rparr>"
  have new: "NewQueue 64 2 = Some q0"
    by (simp add: NewQueue_def q0_def)
  have "TryReserve q0 40 = (Some \<lparr>rv_bytes = 40, rv_done = False\<rparr>, q)"
    by (simp add: TryReserve_def no_room_def q0_def q_def)
  then have run: "queue_step\<^sup>*\<^sup>* (q0, {#}) (q, {#40#})"
    using queue_step.reserve [of q0 40 _ q "{#}"] by fastforce
  from queue_capacity [OF new run] new run show ?thesis
    by (auto simp: maxInt_def)
qed

text \<open>
  C28. First in, first out: over any run of \<open>TryPush\<close> and \<open>Pop\<close>, the items delivered followed by the
  items still queued are the items queued at the start followed by the items accepted, in order.
\<close>

theorem queue_fifo:
  assumes "fifo_run TryPush Pop q ops = (accepted, delivered, q')"
  shows "q_items q @ accepted = delivered @ q_items q'"
  using assms by (rule rq.run_in_order)

theorem queue_fifo_witness:
  "\<exists>q'. fifo_run TryPush Pop (sample_queue 1) [PushOp (sample_item 1), PushOp (sample_item 2), PopOp]
       = ([sample_item 1], [sample_item 1], q')
     \<and> q_items (sample_queue 1) @ [sample_item 1] = [sample_item 1] @ q_items q'"
proof -
  obtain q' where run: "fifo_run TryPush Pop (sample_queue 1)
      [PushOp (sample_item 1), PushOp (sample_item 2), PopOp] = ([sample_item 1], [sample_item 1], q')"
    by (simp add: TryPush_def no_room_def Pop_def signal_q_def sample_queue_def sample_item_def)
  from run queue_fifo [OF run] show ?thesis
    by blast
qed

text \<open>
  Coalescing: a successful \<open>ReplaceWith\<close> of an item whose key is queued puts the new item in the
  old one's place and returns the old one; an unsuccessful one leaves the queue as it was. The number
  of items with the key never grows beyond one.
\<close>

theorem replace_coalesces:
  assumes "ReplaceWith q item = ((accepted, previous, replaced), q')"
    and "length (filter (\<lambda>it. it_Key it = it_Key item) (q_items q)) \<le> 1"
  shows "(\<not> accepted \<longrightarrow> q' = q)
    \<and> (accepted \<and> replaced \<longrightarrow>
         (\<exists>pre old post. q_items q = pre @ old # post \<and> it_Key old = it_Key item
            \<and> previous = Some old \<and> q_items q' = pre @ item # post))
    \<and> (accepted \<and> \<not> replaced \<longrightarrow> previous = None \<and> q_items q' = q_items q @ [item])
    \<and> length (filter (\<lambda>it. it_Key it = it_Key item) (q_items q')) \<le> 1"
proof (cases "find_key (it_Key item) (q_items q) 0")
  case None
  then have "filter (\<lambda>it. it_Key it = it_Key item) (q_items q) = []"
    by (auto simp: find_key_None filter_empty_conv)
  with None assms show ?thesis
    by (auto simp: ReplaceWith_def signal_q_def split: if_splits)
next
  case (Some p)
  obtain i old where p: "p = (i, old)"
    by fastforce
  with Some obtain pre post where eq: "q_items q = pre @ old # post" "i = length pre"
    "it_Key old = it_Key item"
    using find_key_Some by fastforce
  with assms Some p have "\<not> accepted \<longrightarrow> q' = q" "accepted \<longrightarrow> replaced"
    "accepted \<longrightarrow> previous = Some old \<and> q_items q' = pre @ item # post"
    by (auto simp: ReplaceWith_def signal_q_def split: if_splits)
  moreover have "length (filter (\<lambda>it. it_Key it = it_Key item) (pre @ item # post)) \<le> 1"
    using assms(2) eq by simp
  ultimately show ?thesis
    using eq assms(2) by metis
qed

theorem replace_coalesces_witness:
  "\<exists>q1 q2 :: nat Queue.
     ReplaceWith (sample_queue 4) \<lparr>it_Value = 1, it_Bytes = 10, it_Key = 7\<rparr> = ((True, None, False), q1)
     \<and> ReplaceWith q1 \<lparr>it_Value = 2, it_Bytes = 20, it_Key = 7\<rparr>
         = ((True, Some \<lparr>it_Value = 1, it_Bytes = 10, it_Key = 7\<rparr>, True), q2)
     \<and> length (filter (\<lambda>it. it_Key it = 7) (q_items q2)) \<le> 1"
proof -
  define q1 where "q1 = snd (ReplaceWith (sample_queue 4) \<lparr>it_Value = 1, it_Bytes = 10, it_Key = 7\<rparr>)"
  define q2 where "q2 = snd (ReplaceWith q1 \<lparr>it_Value = 2, it_Bytes = 20, it_Key = 7\<rparr>)"
  have r1: "ReplaceWith (sample_queue 4) \<lparr>it_Value = 1, it_Bytes = 10, it_Key = 7\<rparr> = ((True, None, False), q1)"
    by (simp add: q1_def ReplaceWith_def no_room_def signal_q_def sample_queue_def)
  have r2: "ReplaceWith q1 \<lparr>it_Value = 2, it_Bytes = 20, it_Key = 7\<rparr>
      = ((True, Some \<lparr>it_Value = 1, it_Bytes = 10, it_Key = 7\<rparr>, True), q2)"
    by (simp add: q2_def q1_def ReplaceWith_def no_room_def signal_q_def sample_queue_def)
  have "length (filter (\<lambda>it. it_Key it = 7) (q_items q1)) \<le> 1"
    by (simp add: q1_def ReplaceWith_def no_room_def signal_q_def sample_queue_def)
  with replace_coalesces [OF r2] r1 r2 show ?thesis
    by auto
qed

text \<open>
  A held reservation is worth its capacity: on an open queue, committing an item of the reserved
  size always succeeds and appends the item, whatever happened in between; a second \<open>Commit\<close> or
  \<open>Cancel\<close> of the same reservation changes nothing.
\<close>

theorem reservation_commit:
  assumes "\<not> q_closed q" "\<not> rv_done r" "it_Bytes item = rv_bytes r"
  shows "\<exists>r' q'. Commit q r item = (True, r', q') \<and> q_items q' = q_items q @ [item]
    \<and> rv_done r' \<and> (\<forall>other. snd (snd (Commit q' r' other)) = q' \<and> snd (Cancel q' r' other) = q')"
  using assms by (simp add: Commit_def Cancel_def finish_def Let_def signal_q_def)

theorem reservation_commit_witness:
  "\<exists>r' q'. Commit (sample_queue 1) \<lparr>rv_bytes = 10, rv_done = False\<rparr> (sample_item 3) = (True, r', q')
     \<and> q_items q' = [sample_item 3]"
proof -
  have "\<not> q_closed (sample_queue 1)" "\<not> rv_done \<lparr>rv_bytes = 10, rv_done = False\<rparr>"
    "it_Bytes (sample_item 3) = rv_bytes \<lparr>rv_bytes = 10, rv_done = False\<rparr>"
    by (simp_all add: sample_queue_def sample_item_def)
  from reservation_commit [OF this] show ?thesis
    by (auto simp: sample_queue_def)
qed

text \<open>The run in which the blocked \<open>Reserve\<close> call takes the token of the \<open>Commit\<close> and blocks again.\<close>

lemma lost_token:
  "\<exists>q. waiter_step\<^sup>*\<^sup>* (sample_queue 1, {#}, {#}) (q, {#}, {#WantPop, WantReserve 10#})
     \<and> q_items q = [sample_item 1] \<and> \<not> q_closed q \<and> \<not> q_notify q"
proof -
  define q1 where "q1 = (sample_queue 1)\<lparr>q_reservedItems := 1, q_reservedBytes := 10\<rparr>"
  define q2 where "q2 = (sample_queue 1)\<lparr>q_items := [sample_item 1], q_bytes := 10, q_notify := True\<rparr>"
  define q3 where "q3 = q2\<lparr>q_notify := False\<rparr>"
  have "waiter_step (sample_queue 1, {#}, {#}) (q1, {#10#}, {#})"
    using waiter_step.returns [of "WantReserve 10" "sample_queue 1" "{#10#}" q1 "{#}" "{#}"]
    by (simp add: Reserve_def TryReserve_def no_room_def sample_queue_def q1_def)
  moreover have "waiter_step (q1, {#10#}, {#}) (q1, {#10#}, {#WantPop#})"
    using waiter_step.blocks [of WantPop q1 "{#}" q1 "{#10#}" "{#}"]
    by (simp add: WaitPop_def Pop_def sample_queue_def q1_def)
  moreover have "waiter_step (q1, {#10#}, {#WantPop#}) (q1, {#10#}, {#WantReserve 10, WantPop#})"
    using waiter_step.blocks [of "WantReserve 10" q1 "{#}" q1 "{#10#}" "{#WantPop#}"]
    by (simp add: Reserve_def TryReserve_def no_room_def sample_queue_def q1_def)
  moreover have "waiter_step (q1, {#10#}, {#WantReserve 10, WantPop#}) (q2, {#}, {#WantReserve 10, WantPop#})"
    using waiter_step.other [OF queue_step.commit [of 10 "{#10#}" "sample_item 1" q1 True _ q2]]
    by (simp add: Commit_def finish_def signal_q_def sample_queue_def sample_item_def q1_def q2_def)
  moreover have "waiter_step (q2, {#}, {#WantReserve 10, WantPop#}) (q3, {#}, {#WantReserve 10, WantPop#})"
    using waiter_step.wakes_blocks [of "WantReserve 10" "{#WantReserve 10, WantPop#}" q2 "{#}" q3 "{#}"]
    by (simp add: Reserve_def TryReserve_def no_room_def sample_queue_def q2_def q3_def)
  ultimately have "waiter_step\<^sup>*\<^sup>* (sample_queue 1, {#}, {#}) (q3, {#}, {#WantReserve 10, WantPop#})"
    by (meson converse_rtranclp_into_rtranclp rtranclp.rtrancl_refl)
  then show ?thesis
    by (intro exI [of _ q3]) (simp add: add_mset_commute q3_def q2_def sample_queue_def)
qed

text \<open>
  Wake-ups: as long as no producer is blocked, a queue with blocked \<open>WaitPop\<close> calls has a pending notification
  whenever it has items. With a blocked producer the shared one-slot channel can lose a wake-up: from a queue for one
  item there is a run after which an item is queued on an open queue, a \<open>WaitPop\<close> call is blocked and no token is
  pending, because the blocked \<open>Reserve\<close> call took the token and blocked again.
\<close>

theorem wake_ups:
  assumes "NewQueue maxBytes maxItems = Some q0"
  shows "(consumer_step\<^sup>*\<^sup>* (q0, {#}, {#}) (q, rs, ws) \<and> ws \<noteq> {#} \<longrightarrow> q_items q = [] \<or> q_notify q)
    \<and> (\<exists>q. waiter_step\<^sup>*\<^sup>* (sample_queue 1, {#}, {#}) (q, {#}, {#WantPop, WantReserve 10#})
         \<and> q_items q = [sample_item 1] \<and> \<not> q_closed q \<and> \<not> q_notify q)"
  using consumers_awake [of q0 "(q, rs, ws)"] assms lost_token
  by (auto simp: awake_def NewQueue_def split: if_splits)

theorem wake_ups_witness:
  "\<exists>q. consumer_step\<^sup>*\<^sup>* (sample_queue 1, {#}, {#}) (q, {#}, {#WantPop#}) \<and> (q_items q = [] \<or> q_notify q)"
proof -
  have new: "NewQueue 64 1 = Some (sample_queue 1)"
    by (simp add: NewQueue_def sample_queue_def)
  have "waiter_step (sample_queue 1, {#}, {#}) (sample_queue 1, {#}, {#WantPop#})"
    using waiter_step.blocks [of WantPop "sample_queue 1" "{#}" "sample_queue 1" "{#}" "{#}"]
    by (simp add: WaitPop_def Pop_def sample_queue_def)
  then have run: "consumer_step\<^sup>*\<^sup>* (sample_queue 1, {#}, {#}) (sample_queue 1, {#}, {#WantPop#})"
    by (intro r_into_rtranclp) (simp add: consumer_step_def)
  from conjunct1 [OF wake_ups [OF new, of "sample_queue 1" "{#}" "{#WantPop#}"]] run show ?thesis
    by auto
qed

end
