(* ===== verification/Incoming_Queue.thy ===== *)
theory Incoming_Queue
  imports Router Runtime_Queue
begin

text \<open>
  The polling queue of \<open>endpoint.go\<close>: \<open>incomingQueue\<close>, its reliable reservations, and the charges
  that envelopes carry. The record holds the values of the objects it points to: the bounded queue,
  the retained-payload budget, and the endpoint's application budget, which other components charge
  as well. A panic of \<open>Budget.Release\<close> is the result \<open>None\<close>. Timestamps and observations are left out.
\<close>

section \<open>State\<close>

record incomingQueue =
  iq_queue :: "Incoming Queue"
  iq_budget :: Budget
  iq_app :: "Budget option"
  iq_closed :: bool
  iq_terminal :: "Incoming list"
  iq_nextBusy :: bool

text \<open>
  A reservation of a reliable reader. \<open>rr_charge\<close> is what its \<open>releaseCharge\<close> closure gives back.
  That closure is guarded by its own \<open>sync.Once\<close>; the flags \<open>done\<close> of the reservation and
  \<open>released\<close> of the envelope already let it run only once, so the guard is not repeated.
\<close>

record reliableIncomingReservation =
  rr_queue :: Reservation
  rr_bytes :: int
  rr_charge :: charge
  rr_done :: bool

definition newIncomingQueue :: "int \<Rightarrow> int \<Rightarrow> Budget option \<Rightarrow> incomingQueue option" where
  "newIncomingQueue maxBytes maxItems applicationBudget =
     (let maxItems = (if maxItems < 1 then 1 else maxItems);
          maxBytes = (if maxBytes > maxInt then maxInt else maxBytes) in
      case (NewQueue maxBytes maxItems, NewBudget maxBytes) of
        (Some q, Some b) \<Rightarrow>
          Some \<lparr>iq_queue = q, iq_budget = b, iq_app = applicationBudget, iq_closed = False,
                iq_terminal = [], iq_nextBusy = False\<rparr>
      | _ \<Rightarrow> None)"

section \<open>Charges\<close>

text \<open>\<open>None\<close> is the panic.\<close>

definition release_app :: "incomingQueue \<Rightarrow> int \<Rightarrow> incomingQueue option" where
  "release_app q n =
     (case iq_app q of None \<Rightarrow> Some q
      | Some app \<Rightarrow> map_option (\<lambda>app. q\<lparr>iq_app := Some app\<rparr>) (Release app n))"

text \<open>\<open>q.budget.Release(bytes)\<close> followed by \<open>applicationBudget.Release(bytes)\<close> when there is one.\<close>

definition release_iq :: "incomingQueue \<Rightarrow> int \<Rightarrow> incomingQueue option" where
  "release_iq q n = Option.bind (Release (iq_budget q) n) (\<lambda>b. release_app (q\<lparr>iq_budget := b\<rparr>) n)"

text \<open>\<open>acquire\<close>: both ledgers or none. The inner release cannot panic: it returns what was just taken.\<close>

definition acquire_iq :: "incomingQueue \<Rightarrow> int \<Rightarrow> bool \<times> incomingQueue" where
  "acquire_iq q n =
     (case Acquire (iq_budget q) n of
        (False, _) \<Rightarrow> (False, q)
      | (True, b) \<Rightarrow>
          (case iq_app q of
             None \<Rightarrow> (True, q\<lparr>iq_budget := b\<rparr>)
           | Some app \<Rightarrow>
               (case Acquire app n of
                  (True, app') \<Rightarrow> (True, q\<lparr>iq_budget := b, iq_app := Some app'\<rparr>)
                | (False, _) \<Rightarrow> (False, case Release b n of Some b' \<Rightarrow> q\<lparr>iq_budget := b'\<rparr> | None \<Rightarrow> q))))"

text \<open>\<open>acquireWait\<close>: one iteration, and the ledger it then waits on.\<close>

datatype acquire_wait = Acquired | WaitOnQueueBudget | WaitOnApplicationBudget

definition acquireWait :: "incomingQueue \<Rightarrow> int \<Rightarrow> acquire_wait \<times> incomingQueue" where
  "acquireWait q n =
     (case acquire_iq q n of
        (True, q') \<Rightarrow> (Acquired, q')
      | (False, q') \<Rightarrow>
          (if fst (Acquire (iq_budget q) n) then WaitOnApplicationBudget else WaitOnQueueBudget, q'))"

definition attachCharge :: "Incoming \<Rightarrow> int \<Rightarrow> Incoming" where
  "attachCharge i n = i\<lparr>in_release := in_release i @ [QueueCharge n]\<rparr>"

fun give_back :: "charge list \<Rightarrow> incomingQueue \<Rightarrow> incomingQueue option" where
  "give_back [] q = Some q"
| "give_back (QueueCharge n # cs) q = Option.bind (release_iq q n) (give_back cs)"
| "give_back (AppCharge n # cs) q = Option.bind (release_app q n) (give_back cs)"
| "give_back (StreamCleanup _ # cs) q = give_back cs q"

text \<open>\<open>incoming.Release()\<close> of an envelope whose charges belong to this queue.\<close>

definition release_incoming :: "Incoming \<Rightarrow> incomingQueue \<Rightarrow> (Incoming \<times> incomingQueue) option" where
  "release_incoming i q = (let (cs, i') = Release_in i in map_option (Pair i') (give_back cs q))"

fun release_all :: "Incoming list \<Rightarrow> incomingQueue \<Rightarrow> incomingQueue option" where
  "release_all [] q = Some q"
| "release_all (i # is) q = Option.bind (release_incoming i q) (\<lambda>(_, q'). release_all is q')"

section \<open>Operations\<close>

definition Push_iq :: "incomingQueue \<Rightarrow> Incoming \<Rightarrow> int \<Rightarrow> (bool \<times> Incoming \<times> incomingQueue) option" where
  "Push_iq q incoming bytes =
     (if bytes < 0 then Some (False, incoming, q)
      else
        (case acquire_iq q bytes of
           (False, q) \<Rightarrow> Some (False, incoming, q)
         | (True, q) \<Rightarrow>
             (let incoming = attachCharge incoming bytes;
                  (ok, queue) = (if iq_closed q then (False, iq_queue q)
                     else TryPush (iq_queue q) \<lparr>it_Value = incoming, it_Bytes = bytes, it_Key = 0\<rparr>) in
              if ok then Some (True, incoming, q\<lparr>iq_queue := queue\<rparr>)
              else map_option (Pair False) (release_incoming incoming (q\<lparr>iq_queue := queue\<rparr>)))))"

text \<open>
  The calls that may wait. They return, fail, wait for a ledger (holding nothing), or wait for the
  queue (holding the charge); a call that waits for the queue goes on with the operation below that
  ends in \<open>_wait\<close> each time it is notified, with the context's error as its argument once that is done.
\<close>

datatype 'r progress = Returned 'r | Failed error | WaitsForLedger | WaitsForQueue

definition PushWait_wait :: "incomingQueue \<Rightarrow> Incoming \<Rightarrow> int \<Rightarrow> ctx_error option \<Rightarrow>
  (unit progress \<times> Incoming \<times> incomingQueue) option" where
  "PushWait_wait q incoming bytes ctx =
     (case ctx of
        Some e \<Rightarrow> map_option (Pair (Failed (CtxError e))) (release_incoming incoming q)
      | None \<Rightarrow>
          (case Push (iq_queue q) \<lparr>it_Value = incoming, it_Bytes = bytes, it_Key = 0\<rparr> of
             (Some (Inr _), queue) \<Rightarrow> Some (Returned (), incoming, q\<lparr>iq_queue := queue\<rparr>)
           | (Some (Inl e), queue) \<Rightarrow>
               map_option (Pair (Failed (CtxError e))) (release_incoming incoming (q\<lparr>iq_queue := queue\<rparr>))
           | (None, queue) \<Rightarrow> Some (WaitsForQueue, incoming, q\<lparr>iq_queue := queue\<rparr>)))"

definition PushWait :: "incomingQueue \<Rightarrow> Incoming \<Rightarrow> int \<Rightarrow> (unit progress \<times> Incoming \<times> incomingQueue) option" where
  "PushWait q incoming bytes =
     (if bytes < 0 then Some (Failed ErrBackpressure, incoming, q)
      else
        (case acquireWait q bytes of
           (Acquired, q) \<Rightarrow>
             (let incoming = attachCharge incoming bytes in
              if iq_closed q
              then map_option (Pair (Failed (CtxError Canceled_ctx))) (release_incoming incoming q)
              else PushWait_wait q incoming bytes None)
         | (_, q) \<Rightarrow> Some (WaitsForLedger, incoming, q)))"

definition reserveReliable_wait :: "incomingQueue \<Rightarrow> int \<Rightarrow> ctx_error option \<Rightarrow>
  (reliableIncomingReservation progress \<times> incomingQueue) option" where
  "reserveReliable_wait q bytes ctx =
     (case ctx of
        Some e \<Rightarrow> map_option (Pair (Failed (CtxError e))) (release_iq q bytes)
      | None \<Rightarrow>
          (case Reserve (iq_queue q) bytes of
             (Some (Inr r), queue) \<Rightarrow>
               Some (Returned \<lparr>rr_queue = r, rr_bytes = bytes, rr_charge = QueueCharge bytes, rr_done = False\<rparr>,
                     q\<lparr>iq_queue := queue\<rparr>)
           | (Some (Inl e), queue) \<Rightarrow>
               map_option (Pair (Failed (CtxError e))) (release_iq (q\<lparr>iq_queue := queue\<rparr>) bytes)
           | (None, queue) \<Rightarrow> Some (WaitsForQueue, q\<lparr>iq_queue := queue\<rparr>)))"

definition reserveReliable :: "incomingQueue \<Rightarrow> int \<Rightarrow>
  (reliableIncomingReservation progress \<times> incomingQueue) option" where
  "reserveReliable q bytes =
     (if bytes < 0 then Some (Failed ErrBackpressure, q)
      else
        (case acquireWait q bytes of
           (Acquired, q) \<Rightarrow> reserveReliable_wait q bytes None
         | (_, q) \<Rightarrow> Some (WaitsForLedger, q)))"

definition Commit_rr :: "incomingQueue \<Rightarrow> reliableIncomingReservation \<Rightarrow> Incoming \<Rightarrow>
  (bool \<times> reliableIncomingReservation \<times> Incoming \<times> incomingQueue) option" where
  "Commit_rr q r incoming =
     (if rr_done r then Some (False, r, incoming, q)
      else
        (let charged = incoming\<lparr>in_release := in_release incoming @ [rr_charge r]\<rparr>;
             (ok, reservation, queue) =
               Commit (iq_queue q) (rr_queue r) \<lparr>it_Value = charged, it_Bytes = rr_bytes r, it_Key = 0\<rparr>;
             r = r\<lparr>rr_queue := reservation, rr_done := True\<rparr>;
             q = q\<lparr>iq_queue := queue\<rparr> in
         if ok then Some (True, r, charged, q)
         else map_option (\<lambda>q. (False, r, incoming, q)) (give_back [rr_charge r] q)))"

text \<open>\<open>Cancel\<close>; the zero item that \<open>Queue.finish\<close> ignores is an argument.\<close>

definition Cancel_rr :: "incomingQueue \<Rightarrow> reliableIncomingReservation \<Rightarrow> Incoming Item \<Rightarrow>
  (reliableIncomingReservation \<times> incomingQueue) option" where
  "Cancel_rr q r zero =
     (if rr_done r then Some (r, q)
      else
        (let (reservation, queue) = Cancel (iq_queue q) (rr_queue r) zero;
             r = r\<lparr>rr_queue := reservation, rr_done := True\<rparr> in
         map_option (Pair r) (give_back [rr_charge r] (q\<lparr>iq_queue := queue\<rparr>))))"

text \<open>
  \<open>Next\<close>: the result is \<open>None\<close> while the call waits in \<open>WaitPop\<close>; \<open>Next_wait\<close> is the rest of the call
  from there. (When the caller's context ends the call returns the context's error.)
\<close>

definition Next_wait :: "incomingQueue \<Rightarrow> (error + Incoming) option \<times> incomingQueue" where
  "Next_wait q =
     (case WaitPop (iq_queue q) of
        (Some (Inr item), queue) \<Rightarrow> (Some (Inr (it_Value item)), q\<lparr>iq_queue := queue, iq_nextBusy := False\<rparr>)
      | (Some (Inl _), queue) \<Rightarrow> (Some (Inl ErrSessionClosed), q\<lparr>iq_queue := queue, iq_nextBusy := False\<rparr>)
      | (None, queue) \<Rightarrow> (None, q\<lparr>iq_queue := queue\<rparr>))"

definition Next :: "incomingQueue \<Rightarrow> (error + Incoming) option \<times> incomingQueue" where
  "Next q =
     (if iq_nextBusy q then (Some (Inl ErrInvalidArgument), q)
      else
        (case iq_terminal q of
           incoming # rest \<Rightarrow> (Some (Inr incoming), q\<lparr>iq_terminal := rest\<rparr>)
         | [] \<Rightarrow>
             (if iq_closed q then (Some (Inl ErrSessionClosed), q)
              else Next_wait (q\<lparr>iq_nextBusy := True\<rparr>))))"

text \<open>The endpoints' own \<open>Next\<close>; an endpoint with handlers has no queue (\<open>None\<close> where there is none).\<close>

definition Next_server :: "DispatchMode \<Rightarrow> incomingQueue option \<Rightarrow> (error + Incoming) option \<times> incomingQueue option" where
  "Next_server mode queue =
     (if mode \<noteq> Polling then (Some (Inl ErrWrongMode), queue)
      else (case queue of None \<Rightarrow> (Some (Inl ErrSessionClosed), None) | Some q \<Rightarrow> map_prod (\<lambda>r. r) Some (Next q)))"

definition Next_client :: "DispatchMode \<Rightarrow> incomingQueue option \<Rightarrow> (error + Incoming) option \<times> incomingQueue option" where
  "Next_client mode queue =
     (if mode \<noteq> Polling then (Some (Inl ErrWrongMode), queue)
      else (case queue of None \<Rightarrow> (Some (Inl ErrSessionClosed), None) | Some q \<Rightarrow> map_prod (\<lambda>r. r) Some (Next q)))"

definition is_terminal :: "Incoming \<Rightarrow> bool" where
  "is_terminal i \<longleftrightarrow> in_Kind i = LifecycleMessage
     \<and> (case in_Lifecycle i of None \<Rightarrow> False | Some l \<Rightarrow> lc_Kind l = SessionEnded)"

lemma release_app_queue: "release_app q n = Some q' \<Longrightarrow> iq_queue q' = iq_queue q"
  by (auto simp: release_app_def split: option.splits)

lemma release_iq_queue: "release_iq q n = Some q' \<Longrightarrow> iq_queue q' = iq_queue q"
  by (auto simp: release_iq_def dest: release_app_queue split: Option.bind_splits)

lemma give_back_queue: "give_back cs q = Some q' \<Longrightarrow> iq_queue q' = iq_queue q"
  by (induction cs q rule: give_back.induct)
    (auto dest: release_app_queue release_iq_queue split: Option.bind_splits)

lemma release_incoming_queue: "release_incoming i q = Some (i', q') \<Longrightarrow> iq_queue q' = iq_queue q"
  by (auto simp: release_incoming_def Let_def dest: give_back_queue split: prod.splits)

text \<open>The draining loop of \<open>Close\<close>.\<close>

function (sequential) close_loop :: "incomingQueue \<Rightarrow> incomingQueue option" where
  "close_loop q =
     (case Pop (iq_queue q) of
        (None, queue) \<Rightarrow> Some (q\<lparr>iq_queue := queue\<rparr>)
      | (Some item, queue) \<Rightarrow>
          (let q' = q\<lparr>iq_queue := queue\<rparr> in
           if is_terminal (it_Value item)
           then close_loop (q'\<lparr>iq_terminal := iq_terminal q' @ [it_Value item]\<rparr>)
           else Option.bind (release_incoming (it_Value item) q') (\<lambda>(_, q''). close_loop q'')))"
  by pat_completeness auto
termination
  by (relation "measure (\<lambda>q. length (q_items (iq_queue q)))")
    (auto simp: Pop_def signal_q_def dest!: release_incoming_queue split: list.splits)

declare close_loop.simps [simp del]

definition Close_iq :: "incomingQueue \<Rightarrow> incomingQueue option" where
  "Close_iq q =
     (if iq_closed q then Some q
      else close_loop (q\<lparr>iq_closed := True, iq_queue := Close_q (iq_queue q)\<rparr>))"

definition obsolete :: "pointer \<Rightarrow> u64 \<Rightarrow> Incoming Item \<Rightarrow> bool" where
  "obsolete session epoch item \<longleftrightarrow>
     in_Kind (it_Value item) \<noteq> LifecycleMessage \<and> in_Session (it_Value item) = session \<and> in_Epoch (it_Value item) = epoch"

definition discardEpoch :: "incomingQueue \<Rightarrow> pointer \<Rightarrow> u64 \<Rightarrow> incomingQueue option" where
  "discardEpoch q session epoch =
     (let (removed, queue) = Remove (iq_queue q) (obsolete session epoch) in
      release_all (map it_Value removed) (q\<lparr>iq_queue := queue\<rparr>))"

section \<open>The two ledgers act as one\<close>

text \<open>The application budget is shared: it carries at least what this queue charged to it.\<close>

definition iq_inv :: "incomingQueue \<Rightarrow> bool" where
  "iq_inv q \<longleftrightarrow> budget_inv (iq_budget q)
     \<and> (case iq_app q of None \<Rightarrow> True | Some app \<Rightarrow> bu_used (iq_budget q) \<le> bu_used app \<and> bu_used app \<le> bu_max app)"

lemma iq_inv_updates [simp]:
  "iq_inv (q\<lparr>iq_queue := x\<rparr>) = iq_inv q" "iq_inv (q\<lparr>iq_closed := b\<rparr>) = iq_inv q"
  "iq_inv (q\<lparr>iq_terminal := t\<rparr>) = iq_inv q" "iq_inv (q\<lparr>iq_nextBusy := b\<rparr>) = iq_inv q"
  by (simp_all add: iq_inv_def split: option.splits)

abbreviation iq_used :: "incomingQueue \<Rightarrow> int" where
  "iq_used q \<equiv> bu_used (iq_budget q)"

abbreviation iq_max :: "incomingQueue \<Rightarrow> int" where
  "iq_max q \<equiv> bu_max (iq_budget q)"

lemmas iq_defs = iq_inv_def acquire_iq_def release_iq_def release_app_def budget_inv_def

interpretation polling: ledger acquire_iq release_iq iq_used iq_max iq_inv
proof
  fix s s' n
  assume "iq_inv s" "acquire_iq s n = (True, s')"
  then show "0 \<le> n \<and> iq_used s' = iq_used s + n \<and> iq_max s' = iq_max s \<and> iq_used s' \<le> iq_max s \<and> iq_inv s'"
    by (auto simp: iq_defs Acquire_def split: prod.splits bool.splits option.splits if_splits)
next
  fix s s' n
  assume "iq_inv s" "acquire_iq s n = (False, s')"
  then show "iq_used s' = iq_used s \<and> iq_max s' = iq_max s \<and> iq_inv s'"
    by (auto simp: iq_defs Acquire_def Release_def signal_def split: prod.splits bool.splits option.splits if_splits)
next
  fix s n
  assume "iq_inv s" "0 \<le> n" "n \<le> iq_used s"
  then show "release_iq s n \<noteq> None"
    by (auto simp: iq_defs Release_def split: option.splits)
next
  fix s s' n
  assume "iq_inv s" "release_iq s n = Some s'"
  then show "iq_used s' = iq_used s - n \<and> iq_max s' = iq_max s \<and> iq_inv s'"
    by (auto simp: iq_defs Release_Some_iff split: option.splits Option.bind_splits)
qed

text \<open>The fields that charging leaves alone.\<close>

definition same_frame :: "incomingQueue \<Rightarrow> incomingQueue \<Rightarrow> bool" where
  "same_frame q q' \<longleftrightarrow> iq_queue q' = iq_queue q \<and> iq_closed q' = iq_closed q \<and> iq_terminal q' = iq_terminal q
     \<and> iq_nextBusy q' = iq_nextBusy q \<and> iq_max q' = iq_max q"

lemma same_frame_refl [simp]: "same_frame q q"
  by (simp add: same_frame_def)

lemma same_frame_trans: "same_frame p q \<Longrightarrow> same_frame q r \<Longrightarrow> same_frame p r"
  by (simp add: same_frame_def)

lemma acquire_iq_frame: "acquire_iq q n = (b, q') \<Longrightarrow> same_frame q q'"
  by (auto simp: same_frame_def acquire_iq_def Acquire_def Release_def signal_def
      split: prod.splits bool.splits option.splits if_splits)

lemma release_iq_frame: "release_iq q n = Some q' \<Longrightarrow> same_frame q q'"
  by (auto simp: same_frame_def release_iq_def release_app_def Release_Some_iff
      split: option.splits Option.bind_splits)

section \<open>Accounting of envelopes\<close>

fun queue_charge :: "charge \<Rightarrow> int" where
  "queue_charge (QueueCharge n) = n"
| "queue_charge _ = 0"

text \<open>The charge an envelope still holds.\<close>

definition holds :: "Incoming \<Rightarrow> int" where
  "holds i = (if in_released i then 0 else \<Sum>c \<leftarrow> in_release i. queue_charge c)"

text \<open>The charges of a polling envelope are non-negative queue charges.\<close>

definition chargeable :: "Incoming \<Rightarrow> bool" where
  "chargeable i \<longleftrightarrow> (\<forall>c \<in> set (in_release i). case c of QueueCharge n \<Rightarrow> 0 \<le> n | AppCharge _ \<Rightarrow> False | StreamCleanup _ \<Rightarrow> True)"

definition fresh :: "Incoming \<Rightarrow> bool" where
  "fresh i \<longleftrightarrow> \<not> in_released i \<and> (\<forall>c \<in> set (in_release i). case c of StreamCleanup _ \<Rightarrow> True | _ \<Rightarrow> False)"

lemma fresh_holds: "fresh i \<Longrightarrow> holds i = 0 \<and> chargeable i"
proof -
  have "(\<forall>c \<in> set cs. case c of StreamCleanup _ \<Rightarrow> True | _ \<Rightarrow> False) \<Longrightarrow> (\<Sum>c \<leftarrow> cs. queue_charge c) = 0" for cs
    by (induction cs) (auto split: charge.splits)
  then show "fresh i \<Longrightarrow> holds i = 0 \<and> chargeable i"
    by (auto simp: fresh_def holds_def chargeable_def split: charge.splits)
qed

lemma holds_charged:
  assumes "fresh i" "0 \<le> n"
  shows "holds (i\<lparr>in_release := in_release i @ [QueueCharge n]\<rparr>) = n"
    "chargeable (i\<lparr>in_release := in_release i @ [QueueCharge n]\<rparr>)"
  using assms fresh_holds [of i] by (auto simp: holds_def chargeable_def fresh_def split: charge.splits)

lemma holds_nonneg: "chargeable i \<Longrightarrow> 0 \<le> holds i"
proof -
  have "(\<forall>c \<in> set cs. case c of QueueCharge n \<Rightarrow> 0 \<le> n | AppCharge _ \<Rightarrow> False | StreamCleanup _ \<Rightarrow> True) \<Longrightarrow>
      0 \<le> (\<Sum>c \<leftarrow> cs. queue_charge c)" for cs
    by (induction cs) (auto split: charge.splits)
  then show "chargeable i \<Longrightarrow> 0 \<le> holds i"
    by (auto simp: holds_def chargeable_def)
qed

lemma give_back_defined:
  assumes "iq_inv q" "\<forall>c \<in> set cs. case c of QueueCharge n \<Rightarrow> 0 \<le> n | AppCharge _ \<Rightarrow> False | StreamCleanup _ \<Rightarrow> True"
    and "(\<Sum>c \<leftarrow> cs. queue_charge c) \<le> iq_used q"
  shows "\<exists>q'. give_back cs q = Some q' \<and> iq_inv q' \<and> same_frame q q'
    \<and> iq_used q' = iq_used q - (\<Sum>c \<leftarrow> cs. queue_charge c)"
  using assms
proof (induction cs arbitrary: q)
  case Nil
  then show ?case by simp
next
  case (Cons c cs)
  have rest: "0 \<le> (\<Sum>c \<leftarrow> cs. queue_charge c)"
    using holds_nonneg [of "\<lparr>in_Kind = EventMessage, in_Session = 0, in_Epoch = 0, in_Type = 0, in_Channel = 0,
        in_Delivery = 0, in_Sequence = 0, in_Payload = [], in_Lifecycle = None, in_release = cs, in_after = False,
        in_released = False, in_responded = False\<rparr>"] Cons.prems(2)
    by (simp add: holds_def chargeable_def)
  show ?case
  proof (cases c)
    case (QueueCharge n)
    with Cons.prems rest have "0 \<le> n" "n \<le> iq_used q"
      by auto
    with polling.release_defined [of q n] Cons.prems(1) obtain q1 where q1: "release_iq q n = Some q1"
      by auto
    note after = polling.release_used [OF Cons.prems(1) q1] release_iq_frame [OF q1]
    with Cons.IH [of q1] Cons.prems QueueCharge obtain q' where
      "give_back cs q1 = Some q'" "iq_inv q'" "same_frame q1 q'"
      "iq_used q' = iq_used q1 - (\<Sum>c \<leftarrow> cs. queue_charge c)"
      by auto
    with q1 after QueueCharge show ?thesis
      by (auto intro: same_frame_trans)
  next
    case (AppCharge n)
    with Cons.prems show ?thesis by simp
  next
    case (StreamCleanup p)
    with Cons show ?thesis by simp
  qed
qed

lemma release_incoming_defined:
  assumes "iq_inv q" "chargeable i" "holds i \<le> iq_used q"
  shows "\<exists>i' q'. release_incoming i q = Some (i', q') \<and> iq_inv q' \<and> same_frame q q'
    \<and> iq_used q' = iq_used q - holds i \<and> holds i' = 0 \<and> chargeable i'"
proof (cases "in_released i")
  case True
  with assms show ?thesis
    by (simp add: release_incoming_def Release_in_def holds_def)
next
  case False
  with assms give_back_defined [of q "in_release i"] show ?thesis
    by (auto simp: release_incoming_def Release_in_def holds_def chargeable_def)
qed

lemma release_all_defined:
  assumes "iq_inv q" "\<forall>i \<in> set is. chargeable i" "(\<Sum>i \<leftarrow> is. holds i) \<le> iq_used q"
  shows "\<exists>q'. release_all is q = Some q' \<and> iq_inv q' \<and> same_frame q q'
    \<and> iq_used q' = iq_used q - (\<Sum>i \<leftarrow> is. holds i)"
  using assms
proof (induction "is" arbitrary: q)
  case Nil
  then show ?case by simp
next
  case (Cons i "is")
  have "0 \<le> (\<Sum>i \<leftarrow> is. holds i)"
    using Cons.prems(2) by (intro sum_list_nonneg) (auto intro: holds_nonneg)
  with release_incoming_defined [of q i] Cons.prems obtain i' q1 where
    q1: "release_incoming i q = Some (i', q1)" "iq_inv q1" "same_frame q q1" "iq_used q1 = iq_used q - holds i"
    by auto
  with Cons.IH [of q1] Cons.prems obtain q' where
    "release_all is q1 = Some q'" "iq_inv q'" "same_frame q1 q'"
    "iq_used q' = iq_used q1 - (\<Sum>i \<leftarrow> is. holds i)"
    by auto
  with q1 show ?case
    by (auto intro: same_frame_trans)
qed

section \<open>Reachable polling queues\<close>

text \<open>
  A polling queue with its surroundings: the envelopes the application holds, the byte counts of
  the live reservations, and the charges of the readers that wait for the queue.
\<close>

record polling =
  po_q :: incomingQueue
  po_held :: "Incoming multiset"
  po_reserved :: "int multiset"
  po_waiting :: "int multiset"

definition queued_charge :: "incomingQueue \<Rightarrow> int" where
  "queued_charge q = (\<Sum>it \<leftarrow> q_items (iq_queue q). holds (it_Value it)) + (\<Sum>i \<leftarrow> iq_terminal q. holds i)"

definition total_charge :: "polling \<Rightarrow> int" where
  "total_charge s = queued_charge (po_q s) + (\<Sum>i \<in># po_held s. holds i)
     + sum_mset (po_reserved s) + sum_mset (po_waiting s)"

definition polling_inv :: "polling \<Rightarrow> bool" where
  "polling_inv s \<longleftrightarrow>
     iq_inv (po_q s) \<and> queue_inv (iq_queue (po_q s)) (po_reserved s) \<and> iq_used (po_q s) = total_charge s
     \<and> (\<forall>it \<in> set (q_items (iq_queue (po_q s))). chargeable (it_Value it))
     \<and> (\<forall>i \<in> set (iq_terminal (po_q s)). chargeable i) \<and> (\<forall>i \<in># po_held s. chargeable i)
     \<and> (\<forall>n \<in># po_waiting s. 0 \<le> n)"

text \<open>A reservation of \<open>n\<close> bytes that is still live.\<close>

definition live_reservation :: "int \<Rightarrow> reliableIncomingReservation" where
  "live_reservation n = \<lparr>rr_queue = \<lparr>rv_bytes = n, rv_done = False\<rparr>, rr_bytes = n, rr_charge = QueueCharge n, rr_done = False\<rparr>"

text \<open>What the application holds after a call of \<open>Next\<close>.\<close>

fun received :: "(error + Incoming) option \<Rightarrow> Incoming multiset" where
  "received (Some (Inr i)) = {#i#}"
| "received _ = {#}"

inductive polling_step :: "polling \<Rightarrow> polling \<Rightarrow> bool" where
  push: "fresh i \<Longrightarrow> Push_iq (po_q s) i n = Some (ok, i', q') \<Longrightarrow> polling_step s (s\<lparr>po_q := q'\<rparr>)"
| reserve: "reserveReliable (po_q s) n = Some (Returned r, q') \<Longrightarrow>
     polling_step s (s\<lparr>po_q := q', po_reserved := add_mset (rr_bytes r) (po_reserved s)\<rparr>)"
| reserve_waits: "reserveReliable (po_q s) n = Some (WaitsForQueue, q') \<Longrightarrow>
     polling_step s (s\<lparr>po_q := q', po_waiting := add_mset n (po_waiting s)\<rparr>)"
| reserve_fails: "reserveReliable (po_q s) n = Some (res, q') \<Longrightarrow> res = WaitsForLedger \<or> res = Failed e \<Longrightarrow>
     polling_step s (s\<lparr>po_q := q'\<rparr>)"
| wake_reserved: "n \<in># po_waiting s \<Longrightarrow> reserveReliable_wait (po_q s) n ctx = Some (Returned r, q') \<Longrightarrow>
     polling_step s (s\<lparr>po_q := q', po_reserved := add_mset (rr_bytes r) (po_reserved s), po_waiting := po_waiting s - {#n#}\<rparr>)"
| wake_failed: "n \<in># po_waiting s \<Longrightarrow> reserveReliable_wait (po_q s) n ctx = Some (Failed e, q') \<Longrightarrow>
     polling_step s (s\<lparr>po_q := q', po_waiting := po_waiting s - {#n#}\<rparr>)"
| commit: "n \<in># po_reserved s \<Longrightarrow> fresh i \<Longrightarrow> Commit_rr (po_q s) (live_reservation n) i = Some (ok, r, i', q') \<Longrightarrow>
     polling_step s (s\<lparr>po_q := q', po_reserved := po_reserved s - {#n#}\<rparr>)"
| cancel: "n \<in># po_reserved s \<Longrightarrow> Cancel_rr (po_q s) (live_reservation n) z = Some (r, q') \<Longrightarrow>
     polling_step s (s\<lparr>po_q := q', po_reserved := po_reserved s - {#n#}\<rparr>)"
| next_call: "Next (po_q s) = (res, q') \<Longrightarrow>
     polling_step s (s\<lparr>po_q := q', po_held := po_held s + received res\<rparr>)"
| next_wakes: "Next_wait (po_q s) = (res, q') \<Longrightarrow>
     polling_step s (s\<lparr>po_q := q', po_held := po_held s + received res\<rparr>)"
| release: "i \<in># po_held s \<Longrightarrow> release_incoming i (po_q s) = Some (i', q') \<Longrightarrow>
     polling_step s (s\<lparr>po_q := q', po_held := add_mset i' (po_held s - {#i#})\<rparr>)"
| release_queued: "q_items (iq_queue (po_q s)) = pre @ it # post \<Longrightarrow>
     release_incoming (it_Value it) (po_q s) = Some (i', q') \<Longrightarrow>
     polling_step s (s\<lparr>po_q := q'\<lparr>iq_queue := (iq_queue q')\<lparr>q_items := pre @ it\<lparr>it_Value := i'\<rparr> # post\<rparr>\<rparr>\<rparr>)"
| close: "Close_iq (po_q s) = Some q' \<Longrightarrow> polling_step s (s\<lparr>po_q := q'\<rparr>)"
| discard: "discardEpoch (po_q s) session epoch = Some q' \<Longrightarrow> polling_step s (s\<lparr>po_q := q'\<rparr>)"

subsection \<open>Each operation is defined and keeps the books\<close>

lemma total_charge_nonneg_parts:
  assumes "polling_inv s"
  shows "0 \<le> (\<Sum>it \<leftarrow> q_items (iq_queue (po_q s)). holds (it_Value it))" "0 \<le> (\<Sum>i \<leftarrow> iq_terminal (po_q s). holds i)"
    "0 \<le> (\<Sum>i \<in># po_held s. holds i)" "0 \<le> sum_mset (po_reserved s)" "0 \<le> sum_mset (po_waiting s)"
proof -
  show "0 \<le> (\<Sum>it \<leftarrow> q_items (iq_queue (po_q s)). holds (it_Value it))" "0 \<le> (\<Sum>i \<leftarrow> iq_terminal (po_q s). holds i)"
    using assms by (auto simp: polling_inv_def intro!: sum_list_nonneg holds_nonneg)
  show "0 \<le> (\<Sum>i \<in># po_held s. holds i)"
    using assms by (auto simp: polling_inv_def intro!: sum_mset_int_nonneg holds_nonneg)
  show "0 \<le> sum_mset (po_reserved s)" "0 \<le> sum_mset (po_waiting s)"
    using assms by (auto simp: polling_inv_def queue_inv_def intro!: sum_mset_int_nonneg)
qed

lemma member_le_total:
  assumes "polling_inv s"
  shows "i \<in># po_held s \<Longrightarrow> holds i \<le> iq_used (po_q s)"
    and "n \<in># po_reserved s \<Longrightarrow> 0 \<le> n \<and> n \<le> iq_used (po_q s)"
    and "n \<in># po_waiting s \<Longrightarrow> 0 \<le> n \<and> n \<le> iq_used (po_q s)"
    and "q_items (iq_queue (po_q s)) = pre @ it # post \<Longrightarrow> holds (it_Value it) \<le> iq_used (po_q s)"
    and "(\<Sum>it \<leftarrow> q_items (iq_queue (po_q s)). holds (it_Value it)) \<le> iq_used (po_q s)"
proof -
  note parts = total_charge_nonneg_parts [OF assms]
  have used: "iq_used (po_q s) = total_charge s"
    using assms by (simp add: polling_inv_def)
  show "(\<Sum>it \<leftarrow> q_items (iq_queue (po_q s)). holds (it_Value it)) \<le> iq_used (po_q s)"
    using parts used by (simp add: total_charge_def queued_charge_def)
  show "holds i \<le> iq_used (po_q s)" if mem: "i \<in># po_held s"
  proof -
    obtain rest where rest: "po_held s = add_mset i rest"
      using mem by (metis multi_member_split)
    have "0 \<le> (\<Sum>i \<in># rest. holds i)"
      using assms rest by (auto simp: polling_inv_def intro!: sum_mset_int_nonneg holds_nonneg)
    with rest parts used show ?thesis
      by (simp add: total_charge_def queued_charge_def)
  qed
  show "0 \<le> n \<and> n \<le> iq_used (po_q s)" if mem: "n \<in># po_reserved s"
  proof -
    obtain rest where rest: "po_reserved s = add_mset n rest"
      using mem by (metis multi_member_split)
    have "0 \<le> sum_mset rest" "0 \<le> n"
      using assms rest by (auto simp: polling_inv_def queue_inv_def intro!: sum_mset_int_nonneg)
    with rest parts used show ?thesis
      by (simp add: total_charge_def queued_charge_def)
  qed
  show "0 \<le> n \<and> n \<le> iq_used (po_q s)" if mem: "n \<in># po_waiting s"
  proof -
    obtain rest where rest: "po_waiting s = add_mset n rest"
      using mem by (metis multi_member_split)
    have "0 \<le> sum_mset rest" "0 \<le> n"
      using assms rest by (auto simp: polling_inv_def intro!: sum_mset_int_nonneg)
    with rest parts used show ?thesis
      by (simp add: total_charge_def queued_charge_def)
  qed
  show "holds (it_Value it) \<le> iq_used (po_q s)" if items: "q_items (iq_queue (po_q s)) = pre @ it # post"
  proof -
    have "0 \<le> (\<Sum>it \<leftarrow> pre. holds (it_Value it))" "0 \<le> (\<Sum>it \<leftarrow> post. holds (it_Value it))"
      using assms items by (auto simp: polling_inv_def intro!: sum_list_nonneg holds_nonneg)
    with items parts used show ?thesis
      by (simp add: total_charge_def queued_charge_def)
  qed
qed

text \<open>The queue operations act on the items the envelopes are in.\<close>

lemma TryPush_items:
  "TryPush q it = (ok, q') \<Longrightarrow> q_items q' = (if ok then q_items q @ [it] else q_items q)"
  by (auto simp: TryPush_def signal_q_def split: if_splits)

lemma Push_iq_ok:
  assumes "polling_inv s" "fresh i"
  shows "\<exists>ok i' q'. Push_iq (po_q s) i n = Some (ok, i', q') \<and> polling_inv (s\<lparr>po_q := q'\<rparr>)"
proof (cases "n < 0")
  case True
  with assms show ?thesis
    by (intro exI [of _ False] exI [of _ i] exI [of _ "po_q s"]) (simp add: Push_iq_def)
next
  case False
  obtain b q1 where acq: "acquire_iq (po_q s) n = (b, q1)"
    by fastforce
  note frame = acquire_iq_frame [OF acq]
  have inv: "iq_inv (po_q s)"
    using assms by (simp add: polling_inv_def)
  show ?thesis
  proof (cases b)
    case refused: False
    with polling.acquire_refused [OF inv] acq have "iq_used q1 = iq_used (po_q s)" "iq_inv q1"
      by auto
    with refused False acq frame assms show ?thesis
      by (auto simp: Push_iq_def polling_inv_def total_charge_def queued_charge_def same_frame_def)
  next
    case True
    with polling.acquire_granted [OF inv] acq have q1: "0 \<le> n" "iq_used q1 = iq_used (po_q s) + n" "iq_inv q1"
      by auto
    define c where "c = attachCharge i n"
    have c: "holds c = n" "chargeable c"
      using holds_charged [OF assms(2) q1(1)] by (simp_all add: c_def attachCharge_def)
    obtain ok queue where pushed: "(if iq_closed q1 then (False, iq_queue q1)
        else TryPush (iq_queue q1) \<lparr>it_Value = c, it_Bytes = n, it_Key = 0\<rparr>) = (ok, queue)"
      by fastforce
    have queue: "queue_inv queue (po_reserved s)"
      "q_items queue = (if ok then q_items (iq_queue (po_q s)) @ [\<lparr>it_Value = c, it_Bytes = n, it_Key = 0\<rparr>]
         else q_items (iq_queue (po_q s)))"
      using pushed frame assms(1)
      by (auto simp: same_frame_def polling_inv_def intro: TryPush_inv dest: TryPush_items split: if_splits)
    show ?thesis
    proof (cases ok)
      case ok: True
      with acq True False pushed have "Push_iq (po_q s) i n = Some (True, c, q1\<lparr>iq_queue := queue\<rparr>)"
        by (auto simp: Push_iq_def c_def Let_def split: if_splits)
      moreover have "polling_inv (s\<lparr>po_q := q1\<lparr>iq_queue := queue\<rparr>\<rparr>)"
        using ok queue q1 c frame assms(1)
        by (simp add: polling_inv_def total_charge_def queued_charge_def same_frame_def)
      ultimately show ?thesis by blast
    next
      case bad: False
      have "0 \<le> iq_used (po_q s)"
        using inv by (simp add: iq_inv_def budget_inv_def)
      with release_incoming_defined [of "q1\<lparr>iq_queue := queue\<rparr>" c] c q1 obtain c' q2 where
        rel: "release_incoming c (q1\<lparr>iq_queue := queue\<rparr>) = Some (c', q2)" "iq_inv q2"
          "same_frame (q1\<lparr>iq_queue := queue\<rparr>) q2" "iq_used q2 = iq_used (po_q s)"
        by auto
      with acq True False pushed bad have "Push_iq (po_q s) i n = Some (False, c', q2)"
        by (auto simp: Push_iq_def c_def Let_def split: if_splits)
      moreover have "polling_inv (s\<lparr>po_q := q2\<rparr>)"
        using bad queue rel frame assms(1)
        by (simp add: polling_inv_def total_charge_def queued_charge_def same_frame_def)
      ultimately show ?thesis by blast
    qed
  qed
qed

lemma Reserve_cases:
  assumes "queue_inv q rs" "Reserve q n = (res, q')"
  shows "(\<exists>r. res = Some (Inr r) \<and> rv_bytes r = n \<and> \<not> rv_done r \<and> queue_inv q' (add_mset n rs) \<and> q_items q' = q_items q)
    \<or> ((res = None \<or> (\<exists>e. res = Some (Inl e))) \<and> q' = q)"
  using assms TryReserve_inv [OF assms(1), of n]
  by (auto simp: Reserve_def TryReserve_def split: if_splits)

lemma reserveReliable_wait_ok:
  assumes inv: "iq_inv q" "queue_inv (iq_queue q) rs" and n: "0 \<le> n" "n \<le> iq_used q"
  shows "\<exists>res q'. reserveReliable_wait q n ctx = Some (res, q') \<and> iq_inv q'
    \<and> q_items (iq_queue q') = q_items (iq_queue q) \<and> iq_terminal q' = iq_terminal q
    \<and> (case res of
         Returned r \<Rightarrow> r = live_reservation n \<and> queue_inv (iq_queue q') (add_mset n rs) \<and> iq_used q' = iq_used q
       | Failed e \<Rightarrow> queue_inv (iq_queue q') rs \<and> iq_used q' = iq_used q - n
       | WaitsForQueue \<Rightarrow> queue_inv (iq_queue q') rs \<and> iq_used q' = iq_used q
       | WaitsForLedger \<Rightarrow> False)"
proof -
  from polling.release_defined [OF inv(1) n] obtain q1 where q1: "release_iq q n = Some q1"
    by auto
  note rel = polling.release_used [OF inv(1) q1] release_iq_frame [OF q1]
  obtain res queue where res: "Reserve (iq_queue q) n = (res, queue)"
    by fastforce
  have "q\<lparr>iq_queue := iq_queue q\<rparr> = q"
    by simp
  with Reserve_cases [OF inv(2) res] res q1 rel inv show ?thesis
    by (cases ctx)
      (auto simp: reserveReliable_wait_def live_reservation_def same_frame_def)
qed

lemma acquireWait_cases:
  assumes "iq_inv q" "acquireWait q n = (res, q')"
  shows "iq_inv q' \<and> same_frame q q' \<and>
    (if res = Acquired then 0 \<le> n \<and> iq_used q' = iq_used q + n else iq_used q' = iq_used q)"
proof -
  obtain b q1 where acq: "acquire_iq q n = (b, q1)"
    by fastforce
  with polling.acquire_granted [OF assms(1)] polling.acquire_refused [OF assms(1)] acquire_iq_frame [OF acq]
    assms(2) show ?thesis
    by (cases b) (auto simp: acquireWait_def split: if_splits)
qed

lemma reserveReliable_ok:
  assumes inv: "iq_inv q" "queue_inv (iq_queue q) rs"
  shows "\<exists>res q'. reserveReliable q n = Some (res, q') \<and> iq_inv q'
    \<and> q_items (iq_queue q') = q_items (iq_queue q) \<and> iq_terminal q' = iq_terminal q
    \<and> (case res of
         Returned r \<Rightarrow> r = live_reservation n \<and> queue_inv (iq_queue q') (add_mset n rs) \<and> iq_used q' = iq_used q + n
       | WaitsForQueue \<Rightarrow> queue_inv (iq_queue q') rs \<and> iq_used q' = iq_used q + n \<and> 0 \<le> n
       | _ \<Rightarrow> queue_inv (iq_queue q') rs \<and> iq_used q' = iq_used q)"
proof (cases "n < 0")
  case True
  with inv show ?thesis by (simp add: reserveReliable_def)
next
  case False
  obtain res q1 where acq: "acquireWait q n = (res, q1)"
    by fastforce
  note q1 = acquireWait_cases [OF inv(1) acq]
  show ?thesis
  proof (cases "res = Acquired")
    case True
    have "0 \<le> iq_used q"
      using inv(1) by (simp add: iq_inv_def budget_inv_def)
    with reserveReliable_wait_ok [of q1 rs n None] q1 inv True show ?thesis
      using False acq
      by (fastforce simp: reserveReliable_def same_frame_def split: progress.splits)
  next
    case wait: False
    then have "reserveReliable q n = Some (WaitsForLedger, q1)"
      using False acq by (cases res) (auto simp: reserveReliable_def)
    with wait q1 inv show ?thesis
      by (simp add: same_frame_def)
  qed
qed

lemma charges_move:
  assumes "polling_inv s"
    and "iq_inv q'" "queue_inv (iq_queue q') rs" "q_items (iq_queue q') = q_items (iq_queue (po_q s))"
    and "iq_terminal q' = iq_terminal (po_q s)" "\<forall>n \<in># ws. 0 \<le> n"
    and "iq_used q' - iq_used (po_q s)
      = sum_mset rs + sum_mset ws - sum_mset (po_reserved s) - sum_mset (po_waiting s)"
  shows "polling_inv (s\<lparr>po_q := q', po_reserved := rs, po_waiting := ws\<rparr>)"
  using assms by (simp add: polling_inv_def total_charge_def queued_charge_def)

lemma Commit_items:
  assumes "Commit q r item = (ok, r', q')"
  shows "q_items q' = (if ok then q_items q @ [item] else q_items q)"
  using assms by (auto simp: Commit_def finish_def signal_q_def Let_def split: if_splits)

lemma Commit_rr_ok:
  assumes "polling_inv s" "n \<in># po_reserved s" "fresh i"
  shows "\<exists>ok r i' q'. Commit_rr (po_q s) (live_reservation n) i = Some (ok, r, i', q')
    \<and> polling_inv (s\<lparr>po_q := q', po_reserved := po_reserved s - {#n#}\<rparr>)"
proof -
  obtain rest where rest: "po_reserved s = add_mset n rest"
    using assms(2) by (metis multi_member_split)
  have n: "0 \<le> n" "n \<le> iq_used (po_q s)"
    using member_le_total(2) [OF assms(1,2)] by auto
  define c where "c = i\<lparr>in_release := in_release i @ [QueueCharge n]\<rparr>"
  have c: "holds c = n" "chargeable c"
    using holds_charged [OF assms(3) n(1)] by (simp_all add: c_def)
  obtain ok rv queue where com: "Commit (iq_queue (po_q s)) \<lparr>rv_bytes = n, rv_done = False\<rparr>
      \<lparr>it_Value = c, it_Bytes = n, it_Key = 0\<rparr> = (ok, rv, queue)"
    using prod_cases3 by blast
  have queue: "queue_inv queue rest"
    using assms(1) rest Commit_inv(1) [OF _ _ _ com] by (simp add: polling_inv_def)
  note items = Commit_items [OF com]
  show ?thesis
  proof (cases ok)
    case True
    with com have "Commit_rr (po_q s) (live_reservation n) i
        = Some (True, (live_reservation n)\<lparr>rr_queue := rv, rr_done := True\<rparr>, c, (po_q s)\<lparr>iq_queue := queue\<rparr>)"
      by (simp add: Commit_rr_def live_reservation_def c_def Let_def)
    moreover have "polling_inv (s\<lparr>po_q := (po_q s)\<lparr>iq_queue := queue\<rparr>, po_reserved := po_reserved s - {#n#}\<rparr>)"
      using True items queue c rest assms(1)
      by (simp add: polling_inv_def total_charge_def queued_charge_def)
    ultimately show ?thesis by blast
  next
    case False
    from assms(1) give_back_defined [of "(po_q s)\<lparr>iq_queue := queue\<rparr>" "[QueueCharge n]"] n obtain q' where
      q': "give_back [QueueCharge n] ((po_q s)\<lparr>iq_queue := queue\<rparr>) = Some q'" "iq_inv q'"
        "same_frame ((po_q s)\<lparr>iq_queue := queue\<rparr>) q'" "iq_used q' = iq_used (po_q s) - n"
      by (auto simp: polling_inv_def)
    with False com have "Commit_rr (po_q s) (live_reservation n) i
        = Some (False, (live_reservation n)\<lparr>rr_queue := rv, rr_done := True\<rparr>, i, q')"
      by (simp add: Commit_rr_def live_reservation_def c_def Let_def)
    moreover have "polling_inv (s\<lparr>po_q := q', po_reserved := po_reserved s - {#n#}\<rparr>)"
      using False items queue q' rest assms(1)
      by (simp add: polling_inv_def total_charge_def queued_charge_def same_frame_def)
    ultimately show ?thesis by blast
  qed
qed

lemma Cancel_rr_ok:
  assumes "polling_inv s" "n \<in># po_reserved s"
  shows "\<exists>r q'. Cancel_rr (po_q s) (live_reservation n) z = Some (r, q')
    \<and> polling_inv (s\<lparr>po_q := q', po_reserved := po_reserved s - {#n#}\<rparr>)"
proof -
  obtain rest where rest: "po_reserved s = add_mset n rest"
    using assms(2) by (metis multi_member_split)
  have n: "0 \<le> n" "n \<le> iq_used (po_q s)"
    using member_le_total(2) [OF assms] by auto
  obtain rv queue where can: "Cancel (iq_queue (po_q s)) \<lparr>rv_bytes = n, rv_done = False\<rparr> z = (rv, queue)"
    by fastforce
  have queue: "queue_inv queue rest" "q_items queue = q_items (iq_queue (po_q s))"
    using assms(1) rest Cancel_inv(1) [OF _ _ can] can
    by (auto simp: polling_inv_def Cancel_def finish_def signal_q_def Let_def)
  from assms(1) give_back_defined [of "(po_q s)\<lparr>iq_queue := queue\<rparr>" "[QueueCharge n]"] n obtain q' where
    q': "give_back [QueueCharge n] ((po_q s)\<lparr>iq_queue := queue\<rparr>) = Some q'" "iq_inv q'"
      "same_frame ((po_q s)\<lparr>iq_queue := queue\<rparr>) q'" "iq_used q' = iq_used (po_q s) - n"
    by (auto simp: polling_inv_def)
  with can have "Cancel_rr (po_q s) (live_reservation n) z
      = Some ((live_reservation n)\<lparr>rr_queue := rv, rr_done := True\<rparr>, q')"
    by (simp add: Cancel_rr_def live_reservation_def Let_def)
  moreover have "polling_inv (s\<lparr>po_q := q', po_reserved := po_reserved s - {#n#}\<rparr>)"
    using queue q' rest assms(1)
    by (simp add: polling_inv_def total_charge_def queued_charge_def same_frame_def)
  ultimately show ?thesis by blast
qed

lemma Next_wait_ok:
  assumes "polling_inv s" "Next_wait (po_q s) = (res, q')"
  shows "polling_inv (s\<lparr>po_q := q', po_held := po_held s + received res\<rparr>)"
proof (cases "q_items (iq_queue (po_q s))")
  case Nil
  with assms show ?thesis
    by (auto simp: Next_wait_def WaitPop_def Pop_def polling_inv_def total_charge_def queued_charge_def split: if_splits)
next
  case (Cons it rest)
  then obtain queue where pop: "Pop (iq_queue (po_q s)) = (Some it, queue)" "q_items queue = rest"
    by (simp add: Pop_def signal_q_def)
  have "queue_inv queue (po_reserved s)"
    using assms(1) Pop_inv [OF _ pop(1)] by (simp add: polling_inv_def)
  with assms pop Cons show ?thesis
    by (auto simp: Next_wait_def WaitPop_def polling_inv_def total_charge_def queued_charge_def)
qed

lemma Next_ok:
  assumes "polling_inv s" "Next (po_q s) = (res, q')"
  shows "polling_inv (s\<lparr>po_q := q', po_held := po_held s + received res\<rparr>)"
proof (cases "iq_nextBusy (po_q s) \<or> iq_terminal (po_q s) \<noteq> [] \<or> iq_closed (po_q s)")
  case True
  with assms show ?thesis
    by (auto simp: Next_def polling_inv_def total_charge_def queued_charge_def split: list.splits if_splits)
next
  case False
  with assms(2) have "Next_wait (po_q (s\<lparr>po_q := (po_q s)\<lparr>iq_nextBusy := True\<rparr>\<rparr>)) = (res, q')"
    by (simp add: Next_def)
  moreover have "polling_inv (s\<lparr>po_q := (po_q s)\<lparr>iq_nextBusy := True\<rparr>\<rparr>)"
    using assms(1) by (simp add: polling_inv_def total_charge_def queued_charge_def)
  ultimately show ?thesis
    using Next_wait_ok by fastforce
qed

lemma release_ok:
  assumes "polling_inv s" "i \<in># po_held s"
  shows "\<exists>i' q'. release_incoming i (po_q s) = Some (i', q')
    \<and> polling_inv (s\<lparr>po_q := q', po_held := add_mset i' (po_held s - {#i#})\<rparr>)"
proof -
  obtain rest where rest: "po_held s = add_mset i rest"
    using assms(2) by (metis multi_member_split)
  have "iq_inv (po_q s)" "chargeable i"
    using assms by (simp_all add: polling_inv_def)
  with release_incoming_defined member_le_total(1) [OF assms] obtain i' q' where
    "release_incoming i (po_q s) = Some (i', q')" "iq_inv q'" "same_frame (po_q s) q'"
    "iq_used q' = iq_used (po_q s) - holds i" "holds i' = 0" "chargeable i'"
    by blast
  with assms(1) rest show ?thesis
    by (simp add: polling_inv_def total_charge_def queued_charge_def same_frame_def)
qed

lemma release_queued_ok:
  assumes "polling_inv s" "q_items (iq_queue (po_q s)) = pre @ it # post"
  shows "\<exists>i' q'. release_incoming (it_Value it) (po_q s) = Some (i', q')
    \<and> polling_inv (s\<lparr>po_q := q'\<lparr>iq_queue := (iq_queue q')\<lparr>q_items := pre @ it\<lparr>it_Value := i'\<rparr> # post\<rparr>\<rparr>\<rparr>)"
proof -
  have "iq_inv (po_q s)" "chargeable (it_Value it)"
    using assms by (simp_all add: polling_inv_def)
  with release_incoming_defined member_le_total(4) [OF assms] obtain i' q' where
    r: "release_incoming (it_Value it) (po_q s) = Some (i', q')" "iq_inv q'" "same_frame (po_q s) q'"
    "iq_used q' = iq_used (po_q s) - holds (it_Value it)" "holds i' = 0" "chargeable i'"
    by blast
  have "queue_inv ((iq_queue (po_q s))\<lparr>q_items := pre @ it\<lparr>it_Value := i'\<rparr> # post\<rparr>) (po_reserved s)"
    using assms by (simp add: polling_inv_def queue_inv_def)
  with r assms show ?thesis
    by (simp add: polling_inv_def total_charge_def queued_charge_def same_frame_def)
qed

lemma close_loop_ok:
  assumes "polling_inv s"
  shows "\<exists>q'. close_loop (po_q s) = Some q' \<and> polling_inv (s\<lparr>po_q := q'\<rparr>) \<and> q_items (iq_queue q') = []
    \<and> iq_terminal q' = iq_terminal (po_q s) @ filter is_terminal (map it_Value (q_items (iq_queue (po_q s))))
    \<and> iq_closed q' = iq_closed (po_q s) \<and> iq_nextBusy q' = iq_nextBusy (po_q s)"
  using assms
proof (induction "q_items (iq_queue (po_q s))" arbitrary: s)
  case Nil
  then have "Pop (iq_queue (po_q s)) = (None, iq_queue (po_q s))"
    by (simp add: Pop_def)
  with Nil show ?case
    by (simp add: close_loop.simps [of "po_q s"])
next
  case (Cons it rest)
  define queue where "queue = signal_q ((iq_queue (po_q s))\<lparr>q_items := rest, q_bytes := q_bytes (iq_queue (po_q s)) - it_Bytes it\<rparr>)"
  have pop: "Pop (iq_queue (po_q s)) = (Some it, queue)" "q_items queue = rest"
    using Cons.hyps(2) [symmetric] by (simp_all add: Pop_def queue_def signal_q_def split: list.splits)
  have queue: "queue_inv queue (po_reserved s)"
    using Cons.prems Pop_inv [OF _ pop(1)] by (simp add: polling_inv_def)
  show ?case
  proof (cases "is_terminal (it_Value it)")
    case True
    define q1 where "q1 = (po_q s)\<lparr>iq_queue := queue, iq_terminal := iq_terminal (po_q s) @ [it_Value it]\<rparr>"
    have "polling_inv (s\<lparr>po_q := q1\<rparr>)"
      using Cons.prems Cons.hyps(2) [symmetric] queue pop(2)
      by (auto simp: q1_def polling_inv_def total_charge_def queued_charge_def)
    moreover have "close_loop (po_q s) = close_loop q1"
      using pop True by (simp add: close_loop.simps [of "po_q s"] q1_def Let_def)
    ultimately show ?thesis
      using Cons.hyps(1) [of "s\<lparr>po_q := q1\<rparr>"] Cons.hyps(2) [symmetric] pop(2) True by (simp add: q1_def)
  next
    case False
    have it: "iq_inv ((po_q s)\<lparr>iq_queue := queue\<rparr>)" "chargeable (it_Value it)"
        "holds (it_Value it) \<le> iq_used ((po_q s)\<lparr>iq_queue := queue\<rparr>)"
      using Cons.prems Cons.hyps(2) [symmetric] member_le_total(4) [OF Cons.prems, of "[]" it rest]
      by (simp_all add: polling_inv_def)
    from release_incoming_defined [OF it] obtain i' q1 where
      q1: "release_incoming (it_Value it) ((po_q s)\<lparr>iq_queue := queue\<rparr>) = Some (i', q1)" "iq_inv q1"
        "same_frame ((po_q s)\<lparr>iq_queue := queue\<rparr>) q1" "iq_used q1 = iq_used (po_q s) - holds (it_Value it)"
      by auto
    then have "polling_inv (s\<lparr>po_q := q1\<rparr>)"
      using Cons.prems Cons.hyps(2) [symmetric] queue pop(2)
      by (simp add: polling_inv_def total_charge_def queued_charge_def same_frame_def)
    moreover have "close_loop (po_q s) = close_loop q1"
      using pop False q1(1) by (simp add: close_loop.simps [of "po_q s"] Let_def)
    ultimately show ?thesis
      using Cons.hyps(1) [of "s\<lparr>po_q := q1\<rparr>"] Cons.hyps(2) [symmetric] pop(2) q1(3) False
      by (simp add: same_frame_def)
  qed
qed

lemma Close_iq_ok:
  assumes "polling_inv s"
  shows "\<exists>q'. Close_iq (po_q s) = Some q' \<and> polling_inv (s\<lparr>po_q := q'\<rparr>) \<and> iq_closed q'"
proof (cases "iq_closed (po_q s)")
  case True
  with assms show ?thesis by (simp add: Close_iq_def)
next
  case False
  define t where "t = s\<lparr>po_q := (po_q s)\<lparr>iq_closed := True, iq_queue := Close_q (iq_queue (po_q s))\<rparr>\<rparr>"
  have "q_items (Close_q q) = q_items q" for q :: "Incoming Queue"
    by (simp add: Close_q_def signal_q_def)
  then have "polling_inv t"
    using assms by (simp add: t_def polling_inv_def total_charge_def queued_charge_def)
  from close_loop_ok [OF this] False show ?thesis
    by (auto simp: Close_iq_def t_def)
qed

lemma sum_list_filter_split:
  "(\<Sum>x \<leftarrow> filter p xs. f x) + (\<Sum>x \<leftarrow> filter (\<lambda>x. \<not> p x) xs. f x) = (\<Sum>x \<leftarrow> xs. f x :: int)"
  by (induction xs) auto

lemma discardEpoch_ok:
  assumes "polling_inv s"
  shows "\<exists>q'. discardEpoch (po_q s) session epoch = Some q' \<and> polling_inv (s\<lparr>po_q := q'\<rparr>)
    \<and> q_items (iq_queue q') = filter (\<lambda>it. \<not> obsolete session epoch it) (q_items (iq_queue (po_q s)))"
proof -
  define items where "items = q_items (iq_queue (po_q s))"
  obtain queue where rm: "Remove (iq_queue (po_q s)) (obsolete session epoch) = (filter (obsolete session epoch) items, queue)"
    and kept: "q_items queue = filter (\<lambda>it. \<not> obsolete session epoch it) items"
    by (simp add: Remove_eq Let_def items_def signal_q_def split: if_splits)
  have queue: "queue_inv queue (po_reserved s)"
    using assms Remove_inv [OF _ rm] by (simp add: polling_inv_def)
  let ?q = "(po_q s)\<lparr>iq_queue := queue\<rparr>"
  let ?rel = "map it_Value (filter (obsolete session epoch) items)"
  have split: "(\<Sum>i \<leftarrow> ?rel. holds i) + (\<Sum>it \<leftarrow> q_items queue. holds (it_Value it)) = (\<Sum>it \<leftarrow> items. holds (it_Value it))"
    using sum_list_filter_split [of "\<lambda>it. holds (it_Value it)" "obsolete session epoch" items]
    by (simp add: kept comp_def)
  have all: "\<forall>i \<in> set ?rel. chargeable i" "\<forall>it \<in> set (q_items queue). chargeable (it_Value it)"
    using assms by (auto simp: polling_inv_def items_def kept)
  then have "0 \<le> (\<Sum>it \<leftarrow> q_items queue. holds (it_Value it))"
    by (auto intro!: sum_list_nonneg holds_nonneg)
  with split member_le_total(5) [OF assms] have "(\<Sum>i \<leftarrow> ?rel. holds i) \<le> iq_used ?q"
    by (simp add: items_def)
  with release_all_defined [of ?q ?rel] all(1) assms obtain q' where
    q': "release_all ?rel ?q = Some q'" "iq_inv q'" "same_frame ?q q'" "iq_used q' = iq_used ?q - (\<Sum>i \<leftarrow> ?rel. holds i)"
    by (auto simp: polling_inv_def)
  then have "discardEpoch (po_q s) session epoch = Some q'"
    by (simp add: discardEpoch_def rm)
  moreover have "polling_inv (s\<lparr>po_q := q'\<rparr>)"
    using assms q' queue all split
    by (simp add: polling_inv_def total_charge_def queued_charge_def same_frame_def items_def)
  ultimately show ?thesis
    using q'(3) kept by (simp add: same_frame_def items_def)
qed

lemma polling_step_inv: "polling_step s t \<Longrightarrow> polling_inv s \<Longrightarrow> polling_inv t"
proof (induction rule: polling_step.induct)
  case (push i s n ok i' q')
  with Push_iq_ok [of s i n] show ?case by auto
next
  case (reserve s n r q')
  with reserveReliable_ok [of "po_q s" "po_reserved s" n]
    charges_move [of s q' "add_mset (rr_bytes r) (po_reserved s)" "po_waiting s"] show ?case
    by (auto simp: polling_inv_def live_reservation_def)
next
  case (reserve_waits s n q')
  with reserveReliable_ok [of "po_q s" "po_reserved s" n]
    charges_move [of s q' "po_reserved s" "add_mset n (po_waiting s)"] show ?case
    by (auto simp: polling_inv_def)
next
  case (reserve_fails s n res q' e)
  with reserveReliable_ok [of "po_q s" "po_reserved s" n]
    charges_move [of s q' "po_reserved s" "po_waiting s"] show ?case
    by (auto simp: polling_inv_def)
next
  case (wake_reserved n s ctx r q')
  then obtain rest where rest: "po_waiting s = add_mset n rest"
    by (metis multi_member_split)
  with wake_reserved member_le_total(3) [of s n] reserveReliable_wait_ok [of "po_q s" "po_reserved s" n ctx]
    charges_move [of s q' "add_mset (rr_bytes r) (po_reserved s)" rest] show ?case
    by (auto simp: polling_inv_def live_reservation_def)
next
  case (wake_failed n s ctx e q')
  then obtain rest where rest: "po_waiting s = add_mset n rest"
    by (metis multi_member_split)
  with wake_failed member_le_total(3) [of s n] reserveReliable_wait_ok [of "po_q s" "po_reserved s" n ctx]
    charges_move [of s q' "po_reserved s" rest] show ?case
    by (auto simp: polling_inv_def)
next
  case (commit n s i ok r i' q')
  with Commit_rr_ok [of s n i] show ?case by auto
next
  case (cancel n s z r q')
  with Cancel_rr_ok [of s n z] show ?case by auto
next
  case (next_call s res q')
  then show ?case by (rule Next_ok [rotated])
next
  case (next_wakes s res q')
  then show ?case by (rule Next_wait_ok [rotated])
next
  case (release i s i' q')
  with release_ok [of s i] show ?case by auto
next
  case (release_queued s pre it post i' q')
  with release_queued_ok [of s pre it post] show ?case by auto
next
  case (close s q')
  with Close_iq_ok [of s] show ?case by auto
next
  case (discard s session epoch q')
  with discardEpoch_ok [of s session epoch] show ?case by auto
qed

definition idle :: "incomingQueue \<Rightarrow> polling" where
  "idle q = \<lparr>po_q = q, po_held = {#}, po_reserved = {#}, po_waiting = {#}\<rparr>"

lemma polling_reachable:
  assumes "newIncomingQueue maxBytes maxItems app = Some q0" "\<forall>a. app = Some a \<longrightarrow> budget_inv a"
    and "polling_step\<^sup>*\<^sup>* (idle q0) s"
  shows "polling_inv s"
  using assms(3)
proof (induction rule: rtranclp_induct)
  case base
  with assms(1,2) show ?case
    by (auto simp: newIncomingQueue_def idle_def polling_inv_def iq_inv_def NewBudget_def budget_inv_def Let_def
        total_charge_def queued_charge_def NewQueue_def queue_inv_def split: option.splits if_splits)
next
  case (step y z)
  then show ?case by (blast intro: polling_step_inv)
qed

section \<open>Properties\<close>

text \<open>
  C26. The polling queue's books balance: in every state reached from a new queue, the
  retained-payload budget is exactly what the queued, terminal and application-held envelopes that
  were not yet released, the live reservations and the waiting readers hold, and it is within its
  maximum; and nothing the endpoint or the application can do next makes a budget panic.
\<close>

theorem polling_accounting:
  assumes "newIncomingQueue maxBytes maxItems app = Some q0" "\<forall>a. app = Some a \<longrightarrow> budget_inv a"
    and "polling_step\<^sup>*\<^sup>* (idle q0) s"
  shows "iq_used (po_q s) = total_charge s \<and> 0 \<le> iq_used (po_q s) \<and> iq_used (po_q s) \<le> iq_max (po_q s)
    \<and> (\<forall>i n. fresh i \<longrightarrow> Push_iq (po_q s) i n \<noteq> None) \<and> (\<forall>n. reserveReliable (po_q s) n \<noteq> None)
    \<and> (\<forall>n i. n \<in># po_reserved s \<and> fresh i \<longrightarrow> Commit_rr (po_q s) (live_reservation n) i \<noteq> None)
    \<and> (\<forall>n z. n \<in># po_reserved s \<longrightarrow> Cancel_rr (po_q s) (live_reservation n) z \<noteq> None)
    \<and> (\<forall>i. i \<in># po_held s \<longrightarrow> release_incoming i (po_q s) \<noteq> None)
    \<and> Close_iq (po_q s) \<noteq> None \<and> (\<forall>session epoch. discardEpoch (po_q s) session epoch \<noteq> None)"
proof -
  have inv: "polling_inv s"
    by (rule polling_reachable [OF assms])
  then have "iq_used (po_q s) = total_charge s" "0 \<le> iq_used (po_q s)" "iq_used (po_q s) \<le> iq_max (po_q s)"
    by (simp_all add: polling_inv_def iq_inv_def budget_inv_def)
  moreover have "Push_iq (po_q s) i n \<noteq> None" if "fresh i" for i n
    using Push_iq_ok [OF inv that, of n] by auto
  moreover have "reserveReliable (po_q s) n \<noteq> None" for n
    using reserveReliable_ok [of "po_q s" "po_reserved s" n] inv by (auto simp: polling_inv_def)
  moreover have "Commit_rr (po_q s) (live_reservation n) i \<noteq> None" if "n \<in># po_reserved s" "fresh i" for n i
    using Commit_rr_ok [OF inv that] by auto
  moreover have "Cancel_rr (po_q s) (live_reservation n) z \<noteq> None" if "n \<in># po_reserved s" for n z
    using Cancel_rr_ok [OF inv that, of z] by auto
  moreover have "release_incoming i (po_q s) \<noteq> None" if "i \<in># po_held s" for i
    using release_ok [OF inv that] by auto
  moreover have "Close_iq (po_q s) \<noteq> None"
    using Close_iq_ok [OF inv] by auto
  moreover have "discardEpoch (po_q s) session epoch \<noteq> None" for session epoch
    using discardEpoch_ok [OF inv, of session epoch] by auto
  ultimately show ?thesis by blast
qed

definition sample_request :: Incoming where
  "sample_request = \<lparr>in_Kind = RequestMessage, in_Session = 1, in_Epoch = 1, in_Type = 7, in_Channel = 0,
     in_Delivery = 0, in_Sequence = 0, in_Payload = [1, 2, 3], in_Lifecycle = None, in_release = [],
     in_after = False, in_released = False, in_responded = False\<rparr>"

definition sample_polling :: incomingQueue where
  "sample_polling = \<lparr>iq_queue = \<lparr>q_items = [], q_maxBytes = 1000, q_maxItems = 4, q_bytes = 0, q_reservedBytes = 0,
       q_reservedItems = 0, q_closed = False, q_notify = False\<rparr>,
     iq_budget = \<lparr>bu_max = 1000, bu_used = 0, bu_notify = False\<rparr>, iq_app = None, iq_closed = False,
     iq_terminal = [], iq_nextBusy = False\<rparr>"

lemma sample_polling_new: "newIncomingQueue 1000 4 None = Some sample_polling"
  by (simp add: newIncomingQueue_def sample_polling_def NewQueue_def NewBudget_def maxInt_def)

lemmas polling_eval = Push_iq_def acquire_iq_def Acquire_def attachCharge_def TryPush_def no_room_def signal_q_def
  release_incoming_def Release_in_def release_iq_def release_app_def Release_def signal_def
  Next_def Next_wait_def WaitPop_def Pop_def sample_polling_def sample_request_def idle_def Let_def

text \<open>The request envelope is pushed and then popped by \<open>Next\<close>.\<close>

theorem polling_accounting_witness:
  "\<exists>s. polling_step\<^sup>*\<^sup>* (idle sample_polling) s \<and> iq_used (po_q s) = 35 \<and> iq_used (po_q s) = total_charge s
     \<and> q_items (iq_queue (po_q s)) \<noteq> []"
proof -
  obtain i q where push: "Push_iq sample_polling sample_request 35 = Some (True, i, q)"
    and used: "iq_used q = 35" and items: "q_items (iq_queue q) \<noteq> []"
    by (simp add: polling_eval)
  have "fresh sample_request"
    by (simp add: fresh_def sample_request_def)
  then have run: "polling_step\<^sup>*\<^sup>* (idle sample_polling) ((idle sample_polling)\<lparr>po_q := q\<rparr>)"
    using polling_step.push [of sample_request "idle sample_polling" 35 True i q] push
    by (auto simp: idle_def)
  from polling_accounting [OF sample_polling_new _ run] run used items show ?thesis
    by (intro exI [of _ "(idle sample_polling)\<lparr>po_q := q\<rparr>"]) simp
qed

text \<open>
  Closing the polling queue keeps the session-ended notices and nothing else: they are delivered
  by \<open>Next\<close> in their order, before it reports the closed session; every other queued envelope is
  released and no more charges are held for it.
\<close>

fun next_all :: "nat \<Rightarrow> incomingQueue \<Rightarrow> (error + Incoming) option list" where
  "next_all 0 q = []"
| "next_all (Suc n) q = (let (r, q') = Next q in r # next_all n q')"

lemma next_all_terminal:
  assumes "iq_closed q" "\<not> iq_nextBusy q"
  shows "next_all (Suc (length (iq_terminal q))) q = map (Some \<circ> Inr) (iq_terminal q) @ [Some (Inl ErrSessionClosed)]"
  using assms
proof (induction "iq_terminal q" arbitrary: q)
  case Nil
  then show ?case by (simp add: Next_def)
next
  case (Cons i rest)
  have "Next q = (Some (Inr i), q\<lparr>iq_terminal := rest\<rparr>)"
    using Cons.hyps(2) [symmetric] Cons.prems by (simp add: Next_def)
  with Cons.hyps(1) [of "q\<lparr>iq_terminal := rest\<rparr>"] Cons.hyps(2) [symmetric] Cons.prems show ?case
    by simp
qed

theorem close_keeps_terminal_notices:
  assumes "newIncomingQueue maxBytes maxItems app = Some q0" "\<forall>a. app = Some a \<longrightarrow> budget_inv a"
    and "polling_step\<^sup>*\<^sup>* (idle q0) s" "\<not> iq_closed (po_q s)" "iq_terminal (po_q s) = []" "\<not> iq_nextBusy (po_q s)"
  shows "\<exists>q'. Close_iq (po_q s) = Some q'
    \<and> (let ended = filter is_terminal (map it_Value (q_items (iq_queue (po_q s)))) in
       next_all (Suc (length ended)) q' = map (Some \<circ> Inr) ended @ [Some (Inl ErrSessionClosed)]
       \<and> iq_used q' = (\<Sum>i \<leftarrow> ended. holds i) + (\<Sum>i \<in># po_held s. holds i)
           + sum_mset (po_reserved s) + sum_mset (po_waiting s))"
proof -
  define t where "t = s\<lparr>po_q := (po_q s)\<lparr>iq_closed := True, iq_queue := Close_q (iq_queue (po_q s))\<rparr>\<rparr>"
  have items: "q_items (Close_q q) = q_items q" for q :: "Incoming Queue"
    by (simp add: Close_q_def signal_q_def)
  with polling_reachable [OF assms(1-3)] have "polling_inv t"
    by (simp add: t_def polling_inv_def total_charge_def queued_charge_def)
  from close_loop_ok [OF this] obtain q' where q': "close_loop (po_q t) = Some q'" "polling_inv (t\<lparr>po_q := q'\<rparr>)"
    "q_items (iq_queue q') = []" "iq_closed q'" "\<not> iq_nextBusy q'"
    "iq_terminal q' = filter is_terminal (map it_Value (q_items (iq_queue (po_q s))))"
    using assms(5,6) items by (auto simp: t_def)
  with next_all_terminal [OF q'(4,5)] assms(4) show ?thesis
    by (auto simp: Close_iq_def t_def polling_inv_def total_charge_def queued_charge_def Let_def)
qed

theorem close_keeps_terminal_notices_witness:
  "\<exists>s q' i. polling_step\<^sup>*\<^sup>* (idle sample_polling) s \<and> Close_iq (po_q s) = Some q' \<and> is_terminal i
     \<and> next_all 2 q' = [Some (Inr i), Some (Inl ErrSessionClosed)]"
proof -
  define notice where "notice = sample_request\<lparr>in_Kind := LifecycleMessage, in_Payload := [],
    in_Lifecycle := Some \<lparr>lc_Kind = SessionEnded, lc_Epoch = 1, lc_Reason = Normal\<rparr>\<rparr>"
  define sent where "sent = attachCharge notice 32"
  obtain q where push: "Push_iq sample_polling notice 32 = Some (True, sent, q)"
    and q: "\<not> iq_closed q" "iq_terminal q = []" "\<not> iq_nextBusy q"
      "map it_Value (q_items (iq_queue q)) = [sent]"
    by (simp add: polling_eval notice_def sent_def)
  define s where "s = (idle sample_polling)\<lparr>po_q := q\<rparr>"
  have "fresh notice"
    by (simp add: fresh_def notice_def sample_request_def)
  then have run: "polling_step\<^sup>*\<^sup>* (idle sample_polling) s"
    using polling_step.push [of notice "idle sample_polling" 32 True sent q] push
    by (auto simp: idle_def s_def)
  have ended: "is_terminal sent" "filter is_terminal [sent] = [sent]"
    by (simp_all add: is_terminal_def sent_def notice_def attachCharge_def)
  from close_keeps_terminal_notices [OF sample_polling_new _ run] q obtain q' where
    "Close_iq (po_q s) = Some q'" "next_all (Suc (length [sent])) q' = [Some (Inr sent), Some (Inl ErrSessionClosed)]"
    by (auto simp: s_def ended Let_def)
  with run ended(1) show ?thesis
    by (intro exI [of _ s] exI [of _ q'] exI [of _ sent]) (simp add: numeral_2_eq_2)
qed

text \<open>
  In polling mode the reader of a request stream releases the envelope when it returns (the deferred \<open>incoming.Release()\<close>,
  \<open>leave_reader\<close> of \<open>Request_Runs\<close>; here the step \<open>release_queued\<close>), also while it is still queued: there is a run after which
  \<open>Next\<close> hands the application a request that is already released, with its payload gone.
\<close>

lemma request_released_while_queued:
  "\<exists>s i q'. polling_step\<^sup>*\<^sup>* (idle sample_polling) s \<and> Next (po_q s) = (Some (Inr i), q')
     \<and> in_Kind i = RequestMessage \<and> in_Payload sample_request = [1, 2, 3] \<and> in_released i \<and> in_Payload i = []"
proof -
  obtain c q1 where push: "Push_iq sample_polling sample_request 35 = Some (True, c, q1)"
      and q1: "q_items (iq_queue q1) = [] @ \<lparr>it_Value = c, it_Bytes = 35, it_Key = 0\<rparr> # []"
    by (simp add: polling_eval)
  define s1 where "s1 = (idle sample_polling)\<lparr>po_q := q1\<rparr>"
  have "fresh sample_request"
    by (simp add: fresh_def sample_request_def)
  then have step1: "polling_step (idle sample_polling) s1"
    using polling_step.push [of sample_request "idle sample_polling" 35 True c q1] push
    by (auto simp: idle_def s1_def)
  obtain i' q2 where rel: "release_incoming c q1 = Some (i', q2)" "in_released i'" "in_Payload i' = []"
      "in_Kind i' = RequestMessage" "iq_terminal q2 = []" "\<not> iq_closed q2" "\<not> iq_nextBusy q2"
    using push by (auto simp: polling_eval)
  define s2 where "s2 = s1\<lparr>po_q := q2\<lparr>iq_queue := (iq_queue q2)\<lparr>q_items := [\<lparr>it_Value = i', it_Bytes = 35, it_Key = 0\<rparr>]\<rparr>\<rparr>\<rparr>"
  have "polling_step s1 s2"
    using polling_step.release_queued [of s1 "[]" _ "[]" i' q2] q1 rel(1) by (simp add: s1_def s2_def)
  with step1 have run: "polling_step\<^sup>*\<^sup>* (idle sample_polling) s2"
    by (meson converse_rtranclp_into_rtranclp rtranclp.rtrancl_refl)
  moreover obtain q3 where "Next (po_q s2) = (Some (Inr i'), q3)"
    using rel by (simp add: s2_def Next_def Next_wait_def WaitPop_def Pop_def)
  ultimately show ?thesis
    using rel by (intro exI [of _ s2] exI [of _ i'] exI [of _ q3]) (simp add: sample_request_def)
qed

end
