(* ===== verification/Scheduler.thy ===== *)
theory Scheduler
  imports Incoming_Queue
begin

text \<open>
  Handler dispatch: \<open>handler_scheduler.go\<close> and the handler half of \<open>endpoint.go\<close>
  (\<open>enqueueHandler\<close>, \<open>enqueueReservedReliableHandler\<close>, \<open>runHandlerQuantum\<close>, \<open>dropQueuedHandlers\<close>,
  \<open>invoke\<close>). The \<open>ready\<close> channel is the list of its buffered entries, a \<open>WaitGroup\<close> its counter. A
  connection's \<open>handlerMu\<close> makes an enqueue and each pop of a quantum atomic; between two pops of a
  quantum anything else may happen, so a running quantum is a pair of the connection and its loop
  counter in the step relation at the end. A panic of a budget or a queue is the result \<open>None\<close>.
\<close>

section \<open>The ready queue\<close>

record handlerScheduler =
  hs_ready :: "pointer list"
  hs_maxReady :: int
  hs_accepting :: bool
  hs_work :: int
  hs_cancelled :: bool
  hs_workers :: int

definition newHandlerScheduler :: "int \<Rightarrow> int \<Rightarrow> handlerScheduler" where
  "newHandlerScheduler workerCount maxReady =
     \<lparr>hs_ready = [], hs_maxReady = (if maxReady < 1 then 1 else maxReady), hs_accepting = True, hs_work = 0,
      hs_cancelled = False, hs_workers = (if workerCount < 1 then 1 else workerCount)\<rparr>"

text \<open>
  \<open>enqueue\<close> counts the token before it tries to send it and discounts it when the channel is full.
  The context is cancelled only once \<open>accepting\<close> is false, so its case of the \<open>select\<close> cannot be taken.
\<close>

definition enqueue :: "handlerScheduler \<Rightarrow> pointer \<Rightarrow> bool \<times> handlerScheduler" where
  "enqueue s p =
     (if \<not> hs_accepting s then (False, s)
      else
        (let s = s\<lparr>hs_work := hs_work s + 1\<rparr> in
         if int (length (hs_ready s)) < hs_maxReady s then (True, s\<lparr>hs_ready := hs_ready s @ [p]\<rparr>)
         else (False, s\<lparr>hs_work := hs_work s - 1\<rparr>)))"

definition work_done :: "handlerScheduler \<Rightarrow> handlerScheduler" where
  "work_done s = s\<lparr>hs_work := hs_work s - 1\<rparr>"

definition close_scheduler :: "handlerScheduler \<Rightarrow> handlerScheduler" where
  "close_scheduler s = s\<lparr>hs_accepting := False\<rparr>"

section \<open>Connections\<close>

text \<open>The part of a connection's operations that handler dispatch uses, with its session's queue limits.\<close>

record conn =
  cn_queue :: "Incoming Queue option"
  cn_scheduled :: bool
  cn_QueueBytes :: int
  cn_QueueMessages :: int

record handling =
  hg_sched :: handlerScheduler
  hg_app :: "Budget option"
  hg_conns :: "pointer \<Rightarrow> conn"

definition set_conn :: "pointer \<Rightarrow> conn \<Rightarrow> handling \<Rightarrow> handling" where
  "set_conn p c h = h\<lparr>hg_conns := (hg_conns h)(p := c)\<rparr>"

text \<open>\<open>chargeHandlerIncoming\<close>.\<close>

definition chargeHandlerIncoming :: "Incoming \<Rightarrow> handling \<Rightarrow> bool \<times> Incoming \<times> handling" where
  "chargeHandlerIncoming incoming h =
     (case hg_app h of
        None \<Rightarrow> (True, incoming, h)
      | Some app \<Rightarrow>
          (let charge = incomingCharge (Some incoming); (ok, app') = Acquire app charge in
           if \<not> ok then (False, incoming, h)
           else (True, incoming\<lparr>in_release := in_release incoming @ [AppCharge charge]\<rparr>, h\<lparr>hg_app := Some app'\<rparr>)))"

text \<open>Returning the charges of a handler envelope; polling charges never occur in this mode.\<close>

fun give_back_app :: "charge list \<Rightarrow> handling \<Rightarrow> handling option" where
  "give_back_app [] h = Some h"
| "give_back_app (AppCharge n # cs) h =
     (case hg_app h of
        None \<Rightarrow> give_back_app cs h
      | Some app \<Rightarrow> Option.bind (Release app n) (\<lambda>app'. give_back_app cs (h\<lparr>hg_app := Some app'\<rparr>)))"
| "give_back_app (_ # cs) h = give_back_app cs h"

definition release_handler :: "Incoming \<Rightarrow> handling \<Rightarrow> handling option" where
  "release_handler i h = give_back_app (fst (Release_in i)) h"

definition handler_queue :: "conn \<Rightarrow> Incoming Queue option" where
  "handler_queue c =
     (case cn_queue c of Some q \<Rightarrow> Some q | None \<Rightarrow> NewQueue (cn_QueueBytes c) (cn_QueueMessages c))"

text \<open>
  The end of \<open>enqueueHandler\<close> and \<open>enqueueReservedReliableHandler\<close>, once the item is in the queue: keep
  the token a scheduled connection has, or obtain one, or take an item back out.
\<close>

definition schedule :: "pointer \<Rightarrow> handling \<Rightarrow> (bool \<times> handling) option" where
  "schedule p h =
     (let c = hg_conns h p in
      if cn_scheduled c then Some (True, h)
      else
        (case enqueue (hg_sched h) p of
           (True, s) \<Rightarrow> Some (True, set_conn p (c\<lparr>cn_scheduled := True\<rparr>) (h\<lparr>hg_sched := s\<rparr>))
         | (False, s) \<Rightarrow>
             (case cn_queue c of
                None \<Rightarrow> None
              | Some q \<Rightarrow>
                  (let (item, q') = Pop q;
                       h = set_conn p (c\<lparr>cn_queue := Some q', cn_scheduled := False\<rparr>) (h\<lparr>hg_sched := s\<rparr>) in
                   case item of
                     None \<Rightarrow> Some (False, h)
                   | Some it \<Rightarrow> map_option (Pair False) (release_handler (it_Value it) h)))))"

definition enqueueHandler :: "pointer \<Rightarrow> Incoming \<Rightarrow> handling \<Rightarrow> (bool \<times> handling) option" where
  "enqueueHandler p incoming h =
     (case chargeHandlerIncoming incoming h of
        (False, _, h) \<Rightarrow> Some (False, h)
      | (True, incoming, h) \<Rightarrow>
          Option.bind (handler_queue (hg_conns h p)) (\<lambda>q.
            let bytes = incomingCharge (Some incoming) in
            if in_Delivery incoming = UnreliableSequenced
            then
              (let item = \<lparr>it_Value = incoming, it_Bytes = bytes, it_Key = ucast (in_Channel incoming) + 1\<rparr>;
                   ((accepted, previous, replaced), q') = ReplaceWith q item;
                   h = set_conn p ((hg_conns h p)\<lparr>cn_queue := Some q'\<rparr>) h in
               Option.bind
                 (case previous of
                    Some old \<Rightarrow> if accepted \<and> replaced then release_handler (it_Value old) h else Some h
                  | None \<Rightarrow> Some h)
                 (\<lambda>h. if \<not> accepted then Some (False, h) else schedule p h))
            else
              (let (accepted, q') = TryPush q \<lparr>it_Value = incoming, it_Bytes = bytes, it_Key = 0\<rparr>;
                   h = set_conn p ((hg_conns h p)\<lparr>cn_queue := Some q'\<rparr>) h in
               if \<not> accepted then Some (False, h) else schedule p h)))"

text \<open>
  \<open>enqueueReservedReliableHandler\<close>: the reservation holds a slot of the connection's queue and a
  charge on the application budget.
\<close>

definition enqueueReservedReliableHandler :: "pointer \<Rightarrow> Incoming \<Rightarrow> reliableIncomingReservation \<Rightarrow> handling \<Rightarrow>
  (error option \<times> reliableIncomingReservation \<times> handling) option" where
  "enqueueReservedReliableHandler p incoming r h =
     (case cn_queue (hg_conns h p) of
        None \<Rightarrow> None
      | Some q \<Rightarrow>
          if rr_done r then Some (Some ErrBackpressure, r, h)
          else
            (let charged = incoming\<lparr>in_release := in_release incoming @ [rr_charge r]\<rparr>;
                 (ok, reservation, q') = Commit q (rr_queue r) \<lparr>it_Value = charged, it_Bytes = rr_bytes r, it_Key = 0\<rparr>;
                 r = r\<lparr>rr_queue := reservation, rr_done := True\<rparr>;
                 h = set_conn p ((hg_conns h p)\<lparr>cn_queue := Some q'\<rparr>) h in
             if \<not> ok then map_option (\<lambda>h. (Some ErrBackpressure, r, h)) (give_back_app [rr_charge r] h)
             else map_option (\<lambda>(scheduled, h). (if scheduled then None else Some ErrBackpressure, r, h)) (schedule p h)))"

text \<open>\<open>reserveReliableHandler\<close>; \<open>_wait\<close> is the rest of the call once it holds the charge.\<close>

definition reserveReliableHandler_wait :: "pointer \<Rightarrow> int \<Rightarrow> ctx_error option \<Rightarrow> handling \<Rightarrow>
  (reliableIncomingReservation progress \<times> handling) option" where
  "reserveReliableHandler_wait p bytes ctx h =
     (case cn_queue (hg_conns h p) of
        None \<Rightarrow> None
      | Some q \<Rightarrow>
          (case ctx of
             Some e \<Rightarrow> map_option (Pair (Failed (CtxError e))) (give_back_app [AppCharge bytes] h)
           | None \<Rightarrow>
               (let (res, q') = Reserve q bytes; h = set_conn p ((hg_conns h p)\<lparr>cn_queue := Some q'\<rparr>) h in
                case res of
                  Some (Inr r) \<Rightarrow>
                    Some (Returned \<lparr>rr_queue = r, rr_bytes = bytes, rr_charge = AppCharge bytes, rr_done = False\<rparr>, h)
                | Some (Inl e) \<Rightarrow> map_option (Pair (Failed (CtxError e))) (give_back_app [AppCharge bytes] h)
                | None \<Rightarrow> Some (WaitsForQueue, h))))"

definition reserveReliableHandler :: "pointer \<Rightarrow> int \<Rightarrow> handling \<Rightarrow>
  (reliableIncomingReservation progress \<times> handling) option" where
  "reserveReliableHandler p bytes h =
     (if bytes < 0 then Some (Failed ErrBackpressure, h)
      else
        Option.bind (handler_queue (hg_conns h p)) (\<lambda>q.
          let h = set_conn p ((hg_conns h p)\<lparr>cn_queue := Some q\<rparr>) h in
          case hg_app h of
            None \<Rightarrow> reserveReliableHandler_wait p bytes None h
          | Some app \<Rightarrow>
              (let (ok, app') = Acquire app bytes in
               if ok then reserveReliableHandler_wait p bytes None (h\<lparr>hg_app := Some app'\<rparr>)
               else Some (WaitsForLedger, h))))"

section \<open>Workers\<close>

text \<open>One iteration of the loop of \<open>runHandlerQuantum\<close>: the envelope to invoke, or the end of the quantum.\<close>

definition end_token :: "pointer \<Rightarrow> handling \<Rightarrow> handling" where
  "end_token p h = set_conn p ((hg_conns h p)\<lparr>cn_scheduled := False\<rparr>) (h\<lparr>hg_sched := work_done (hg_sched h)\<rparr>)"

definition quantum_pop :: "pointer \<Rightarrow> handling \<Rightarrow> Incoming option \<times> handling" where
  "quantum_pop p h =
     (case cn_queue (hg_conns h p) of
        None \<Rightarrow> (None, end_token p h)
      | Some q \<Rightarrow>
          (case Pop q of
             (None, _) \<Rightarrow> (None, end_token p h)
           | (Some item, q') \<Rightarrow> (Some (it_Value item), set_conn p ((hg_conns h p)\<lparr>cn_queue := Some q'\<rparr>) h)))"

text \<open>
  The part after the loop: \<open>True\<close> when the worker goes on to send the connection to \<open>ready\<close>, a send
  that waits while the channel is full.
\<close>

definition quantum_yield :: "pointer \<Rightarrow> handling \<Rightarrow> bool \<times> handling" where
  "quantum_yield p h =
     (case cn_queue (hg_conns h p) of
        None \<Rightarrow> (False, end_token p h)
      | Some q \<Rightarrow>
          if fst (Len q) = 0 then (False, end_token p h)
          else if hs_accepting (hg_sched h) then (True, h)
          else (False, end_token p h))"

definition quantum_size :: nat where
  "quantum_size = 32"

text \<open>The whole quantum when nothing interferes: the invoked envelopes, and whether it ends in the send.\<close>

fun quantum_from :: "nat \<Rightarrow> pointer \<Rightarrow> handling \<Rightarrow> Incoming list \<times> bool \<times> handling" where
  "quantum_from 0 p h = (let (again, h') = quantum_yield p h in ([], again, h'))"
| "quantum_from (Suc n) p h =
     (case quantum_pop p h of
        (None, h') \<Rightarrow> ([], False, h')
      | (Some i, h') \<Rightarrow> (let (is, again, h'') = quantum_from n p h' in (i # is, again, h'')))"

definition runHandlerQuantum :: "pointer \<Rightarrow> handling \<Rightarrow> Incoming list \<times> bool \<times> handling" where
  "runHandlerQuantum p h = quantum_from quantum_size p h"

text \<open>\<open>dropQueuedHandlers\<close>: pop and release until the queue is empty.\<close>

lemma give_back_app_frame:
  "give_back_app cs h = Some h' \<Longrightarrow> hg_sched h' = hg_sched h \<and> hg_conns h' = hg_conns h"
  by (induction cs h rule: give_back_app.induct) (auto split: option.splits Option.bind_splits)

lemma release_handler_frame:
  "release_handler i h = Some h' \<Longrightarrow> hg_sched h' = hg_sched h \<and> hg_conns h' = hg_conns h"
  by (simp add: release_handler_def give_back_app_frame)

function dropQueuedHandlers :: "pointer \<Rightarrow> handling \<Rightarrow> handling option" where
  "dropQueuedHandlers p h =
     (case cn_queue (hg_conns h p) of
        None \<Rightarrow> Some h
      | Some q \<Rightarrow>
          (case Pop q of
             (None, _) \<Rightarrow> Some h
           | (Some item, q') \<Rightarrow>
               Option.bind (release_handler (it_Value item) (set_conn p ((hg_conns h p)\<lparr>cn_queue := Some q'\<rparr>) h))
                 (\<lambda>h'. dropQueuedHandlers p h')))"
  by pat_completeness auto
termination
  by (relation "measure (\<lambda>(p, h). case cn_queue (hg_conns h p) of None \<Rightarrow> 0 | Some q \<Rightarrow> length (q_items q))")
    (auto simp: Pop_def signal_q_def set_conn_def dest!: release_handler_frame split: list.splits)

declare dropQueuedHandlers.simps [simp del]

section \<open>Invocation\<close>

text \<open>
  A handler is a function from the envelope to the envelope after it ran (it may have answered) and
  whether it panicked. \<open>fail\<close> is the request's \<open>fail\<close> closure.
\<close>

record invocation =
  iv_incoming :: Incoming
  iv_returned :: "charge list"
  iv_after :: bool
  iv_ran :: bool
  iv_panicked :: bool
  iv_close :: "Code option"

definition invoke :: "bool \<Rightarrow> (Incoming \<Rightarrow> Incoming \<times> bool) Router option \<Rightarrow>
  (Code \<Rightarrow> string \<Rightarrow> error option) option \<Rightarrow> Incoming \<Rightarrow> invocation" where
  "invoke current router fail incoming =
     (let leave = (\<lambda>i ran panicked close.
            (let (cs, i') = Release_in i in
             \<lparr>iv_incoming = i', iv_returned = cs, iv_after = in_after i, iv_ran = ran, iv_panicked = panicked, iv_close = close\<rparr>)) in
      if \<not> current \<and> in_Kind incoming \<noteq> LifecycleMessage then leave incoming False False None
      else
        (case handler router (Some incoming) of
           None \<Rightarrow>
             (if in_Kind incoming = RequestMessage
              then leave (snd (Fail fail incoming UnsupportedMessage ''unsupported message'')) False False None
              else leave incoming False False None)
         | Some h \<Rightarrow>
             (let (i, panicked) = h incoming in
              if panicked then leave i True True (Some Internal)
              else if in_Kind i = RequestMessage \<and> \<not> hasResponded (Some i)
              then leave (snd (Fail fail i Internal ''handler returned without a response'')) True False None
              else leave i True False None)))"

section \<open>The scheduling token\<close>

definition items_of :: "conn \<Rightarrow> Incoming Item list" where
  "items_of c = (case cn_queue c of None \<Rightarrow> [] | Some q \<Rightarrow> q_items q)"

text \<open>
  A call that adds work to connection \<open>p\<close> either leaves the scheduler and the token alone, and then an
  unscheduled empty connection stays empty, or it sends a new token for an unscheduled connection.
\<close>

definition adds_work :: "pointer \<Rightarrow> handling \<Rightarrow> handling \<Rightarrow> bool" where
  "adds_work p h h' \<longleftrightarrow>
     (\<forall>p'. p' \<noteq> p \<longrightarrow> hg_conns h' p' = hg_conns h p')
     \<and> ((hg_sched h' = hg_sched h \<and> cn_scheduled (hg_conns h' p) = cn_scheduled (hg_conns h p)
           \<and> (\<not> cn_scheduled (hg_conns h p) \<longrightarrow> items_of (hg_conns h p) = [] \<longrightarrow> items_of (hg_conns h' p) = []))
       \<or> (\<not> cn_scheduled (hg_conns h p) \<and> cn_scheduled (hg_conns h' p) \<and> hs_accepting (hg_sched h)
           \<and> int (length (hs_ready (hg_sched h))) < hs_maxReady (hg_sched h)
           \<and> hg_sched h' = (hg_sched h)\<lparr>hs_work := hs_work (hg_sched h) + 1, hs_ready := hs_ready (hg_sched h) @ [p]\<rparr>))"

lemma enqueue_cases:
  assumes "enqueue s p = (ok, s')"
  shows "if ok then hs_accepting s \<and> int (length (hs_ready s)) < hs_maxReady s
      \<and> s' = s\<lparr>hs_work := hs_work s + 1, hs_ready := hs_ready s @ [p]\<rparr> else s' = s"
  using assms by (auto simp: enqueue_def Let_def split: if_splits)

text \<open>\<open>schedule\<close> is called right after one item was added to the connection's queue.\<close>

lemma schedule_adds_work:
  assumes "schedule p h1 = Some (ok, h')"
    and "hg_sched h1 = hg_sched h" "\<forall>p'. p' \<noteq> p \<longrightarrow> hg_conns h1 p' = hg_conns h p'"
    and "cn_scheduled (hg_conns h1 p) = cn_scheduled (hg_conns h p)"
    and "items_of (hg_conns h p) = [] \<longrightarrow> length (items_of (hg_conns h1 p)) = 1"
  shows "adds_work p h h'"
proof (cases "cn_scheduled (hg_conns h1 p)")
  case True
  with assms show ?thesis by (auto simp: schedule_def adds_work_def Let_def)
next
  case False
  obtain b s where enq: "enqueue (hg_sched h1) p = (b, s)"
    by fastforce
  note cases = enqueue_cases [OF enq]
  show ?thesis
  proof (cases b)
    case True
    with enq cases False assms show ?thesis
      by (auto simp: schedule_def adds_work_def set_conn_def Let_def)
  next
    case refused: False
    with cases have s: "s = hg_sched h1" by simp
    from assms(1) refused False enq obtain q where q: "cn_queue (hg_conns h1 p) = Some q"
      by (auto simp: schedule_def Let_def split: option.splits)
    obtain item q' where pop: "Pop q = (item, q')"
      by fastforce
    define h2 where "h2 = set_conn p ((hg_conns h1 p)\<lparr>cn_queue := Some q', cn_scheduled := False\<rparr>) (h1\<lparr>hg_sched := s\<rparr>)"
    have "hg_sched h' = hg_sched h2 \<and> hg_conns h' = hg_conns h2"
      using assms(1) refused False enq q pop
      by (auto simp: schedule_def Let_def h2_def dest: release_handler_frame split: option.splits)
    moreover have "length (items_of (hg_conns h1 p)) = 1 \<longrightarrow> q_items q' = []"
      using q pop by (auto simp: items_of_def Pop_def signal_q_def split: list.splits)
    ultimately show ?thesis
      using False assms(2-5) s
      by (auto simp: adds_work_def h2_def set_conn_def items_of_def)
  qed
qed

lemma ReplaceWith_empty:
  "q_items q = [] \<Longrightarrow> ReplaceWith q item = ((True, previous, replaced), q') \<Longrightarrow> length (q_items q') = 1"
  by (auto simp: ReplaceWith_def signal_q_def split: if_splits)

lemma ReplaceWith_rejected: "ReplaceWith q item = ((False, previous, replaced), q') \<Longrightarrow> q' = q"
  by (auto simp: ReplaceWith_def split: if_splits option.splits)

lemma handler_queue_items: "handler_queue c = Some q \<Longrightarrow> q_items q = items_of c"
  by (auto simp: handler_queue_def items_of_def NewQueue_def split: option.splits if_splits)

lemma chargeHandlerIncoming_frame:
  "chargeHandlerIncoming i h = (ok, i', h') \<Longrightarrow> hg_sched h' = hg_sched h \<and> hg_conns h' = hg_conns h"
  by (auto simp: chargeHandlerIncoming_def Let_def split: option.splits prod.splits if_splits)

lemma unchanged_adds_work:
  "hg_sched h' = hg_sched h \<Longrightarrow> \<forall>p'. p' \<noteq> p \<longrightarrow> hg_conns h' p' = hg_conns h p' \<Longrightarrow>
   cn_scheduled (hg_conns h' p) = cn_scheduled (hg_conns h p) \<Longrightarrow>
   items_of (hg_conns h' p) = items_of (hg_conns h p) \<Longrightarrow> adds_work p h h'"
  by (simp add: adds_work_def)

lemma enqueueHandler_adds_work:
  assumes "enqueueHandler p incoming h = Some (ok, h')"
  shows "adds_work p h h'"
proof -
  obtain b i h0 where charge: "chargeHandlerIncoming incoming h = (b, i, h0)"
    using prod_cases3 by blast
  note frame = chargeHandlerIncoming_frame [OF charge]
  show ?thesis
  proof (cases b)
    case False
    with assms charge frame show ?thesis
      by (auto simp: enqueueHandler_def intro: unchanged_adds_work)
  next
    case True
    with assms charge obtain q where q: "handler_queue (hg_conns h0 p) = Some q"
      by (auto simp: enqueueHandler_def split: Option.bind_splits)
    note items = handler_queue_items [OF q]
    let ?bytes = "incomingCharge (Some i)"
    show ?thesis
    proof (cases "in_Delivery i = UnreliableSequenced")
      case seq: True
      define item where "item = \<lparr>it_Value = i, it_Bytes = ?bytes, it_Key = ucast (in_Channel i) + 1\<rparr>"
      obtain accepted previous replaced q' where rep: "ReplaceWith q item = ((accepted, previous, replaced), q')"
        by (metis prod.collapse)
      define h1 where "h1 = set_conn p ((hg_conns h0 p)\<lparr>cn_queue := Some q'\<rparr>) h0"
      from assms charge True q seq rep obtain h2 where
        h2: "hg_sched h2 = hg_sched h1" "hg_conns h2 = hg_conns h1"
          "(if \<not> accepted then Some (False, h2) else schedule p h2) = Some (ok, h')"
        by (auto simp: enqueueHandler_def Let_def item_def [symmetric] h1_def [symmetric]
            dest: release_handler_frame split: Option.bind_splits option.splits if_splits)
      have h1: "hg_sched h1 = hg_sched h" "\<forall>p'. p' \<noteq> p \<longrightarrow> hg_conns h1 p' = hg_conns h p'"
          "cn_scheduled (hg_conns h1 p) = cn_scheduled (hg_conns h p)" "items_of (hg_conns h1 p) = q_items q'"
        using frame by (simp_all add: h1_def set_conn_def items_of_def)
      show ?thesis
      proof (cases accepted)
        case acc: True
        then have "items_of (hg_conns h p) = [] \<longrightarrow> length (items_of (hg_conns h1 p)) = 1"
          using rep items frame h1(4) ReplaceWith_empty by auto
        with h2 h1 acc schedule_adds_work [of p h2 ok h' h] show ?thesis by simp
      next
        case rej: False
        then have "q' = q"
          using rep ReplaceWith_rejected by auto
        with rej h2 h1 items frame show ?thesis
          by (auto intro!: unchanged_adds_work)
      qed
    next
      case push: False
      obtain accepted q' where try_push: "TryPush q \<lparr>it_Value = i, it_Bytes = ?bytes, it_Key = 0\<rparr> = (accepted, q')"
        by fastforce
      define h1 where "h1 = set_conn p ((hg_conns h0 p)\<lparr>cn_queue := Some q'\<rparr>) h0"
      have h1: "hg_sched h1 = hg_sched h" "\<forall>p'. p' \<noteq> p \<longrightarrow> hg_conns h1 p' = hg_conns h p'"
          "cn_scheduled (hg_conns h1 p) = cn_scheduled (hg_conns h p)" "items_of (hg_conns h1 p) = q_items q'"
        using frame by (simp_all add: h1_def set_conn_def items_of_def)
      have res: "(if \<not> accepted then Some (False, h1) else schedule p h1) = Some (ok, h')"
        using assms charge True q push try_push by (auto simp: enqueueHandler_def Let_def h1_def)
      show ?thesis
      proof (cases accepted)
        case True
        with h1 res items frame TryPush_items [OF try_push] schedule_adds_work [of p h1 ok h' h] show ?thesis
          by simp
      next
        case False
        with h1 res items frame TryPush_items [OF try_push] show ?thesis
          by (auto intro!: unchanged_adds_work)
      qed
    qed
  qed
qed

lemma enqueueReserved_adds_work:
  assumes "enqueueReservedReliableHandler p incoming r h = Some (e, r', h')"
  shows "adds_work p h h'"
proof -
  from assms obtain q where q: "cn_queue (hg_conns h p) = Some q"
    by (auto simp: enqueueReservedReliableHandler_def split: option.splits)
  show ?thesis
  proof (cases "rr_done r")
    case True
    with assms q show ?thesis
      by (auto simp: enqueueReservedReliableHandler_def intro: unchanged_adds_work)
  next
    case False
    define charged where "charged = incoming\<lparr>in_release := in_release incoming @ [rr_charge r]\<rparr>"
    obtain ok rv q' where com: "Commit q (rr_queue r) \<lparr>it_Value = charged, it_Bytes = rr_bytes r, it_Key = 0\<rparr> = (ok, rv, q')"
      using prod_cases3 by blast
    define h1 where "h1 = set_conn p ((hg_conns h p)\<lparr>cn_queue := Some q'\<rparr>) h"
    have h1: "hg_sched h1 = hg_sched h" "\<forall>p'. p' \<noteq> p \<longrightarrow> hg_conns h1 p' = hg_conns h p'"
        "cn_scheduled (hg_conns h1 p) = cn_scheduled (hg_conns h p)" "items_of (hg_conns h1 p) = q_items q'"
      by (simp_all add: h1_def set_conn_def items_of_def)
    have old: "items_of (hg_conns h p) = q_items q"
      using q by (simp add: items_of_def)
    show ?thesis
    proof (cases ok)
      case True
      with assms q False com obtain b where "schedule p h1 = Some (b, h')"
        by (auto simp: enqueueReservedReliableHandler_def Let_def charged_def [symmetric] h1_def [symmetric])
      with schedule_adds_work [of p h1 b h' h] h1 old Commit_items [OF com] True show ?thesis
        by simp
    next
      case bad: False
      with assms q False com have "hg_sched h' = hg_sched h1 \<and> hg_conns h' = hg_conns h1"
        by (auto simp: enqueueReservedReliableHandler_def Let_def charged_def [symmetric] h1_def [symmetric]
            intro!: give_back_app_frame)
      with h1 old Commit_items [OF com] bad show ?thesis
        by (auto intro!: unchanged_adds_work)
    qed
  qed
qed

lemma reserveReliableHandler_wait_adds_work:
  assumes "reserveReliableHandler_wait p n ctx h = Some (res, h')"
  shows "adds_work p h h'"
proof -
  from assms obtain q where q: "cn_queue (hg_conns h p) = Some q"
    by (auto simp: reserveReliableHandler_wait_def split: option.splits)
  obtain rs q' where resv: "Reserve q n = (rs, q')"
    by fastforce
  have "q_items q' = q_items q"
    using resv by (auto simp: Reserve_def TryReserve_def split: if_splits)
  define h1 where "h1 = set_conn p ((hg_conns h p)\<lparr>cn_queue := Some q'\<rparr>) h"
  have "hg_sched h' = hg_sched h \<and> hg_conns h' \<in> {hg_conns h, hg_conns h1}"
    using assms q resv
    by (auto simp: reserveReliableHandler_wait_def h1_def set_conn_def Let_def
        split: option.splits sum.splits Option.bind_splits)
  with q \<open>q_items q' = q_items q\<close> show ?thesis
    by (auto simp: h1_def set_conn_def items_of_def intro!: unchanged_adds_work)
qed

lemma adds_work_trans_unchanged:
  assumes "hg_sched h1 = hg_sched h" "\<forall>p'. p' \<noteq> p \<longrightarrow> hg_conns h1 p' = hg_conns h p'"
    and "cn_scheduled (hg_conns h1 p) = cn_scheduled (hg_conns h p)"
    and "items_of (hg_conns h1 p) = items_of (hg_conns h p)" "adds_work p h1 h'"
  shows "adds_work p h h'"
  using assms by (simp add: adds_work_def)

lemma reserveReliableHandler_adds_work:
  assumes "reserveReliableHandler p n h = Some (res, h')"
  shows "adds_work p h h'"
proof (cases "n < 0")
  case True
  with assms show ?thesis
    by (auto simp: reserveReliableHandler_def intro: unchanged_adds_work)
next
  case False
  with assms obtain q where q: "handler_queue (hg_conns h p) = Some q"
    by (auto simp: reserveReliableHandler_def split: Option.bind_splits)
  define h1 where "h1 = set_conn p ((hg_conns h p)\<lparr>cn_queue := Some q\<rparr>) h"
  have h1: "hg_sched h1 = hg_sched h" "\<forall>p'. p' \<noteq> p \<longrightarrow> hg_conns h1 p' = hg_conns h p'"
      "cn_scheduled (hg_conns h1 p) = cn_scheduled (hg_conns h p)"
      "items_of (hg_conns h1 p) = items_of (hg_conns h p)" "hg_app h1 = hg_app h"
    using handler_queue_items [OF q] by (simp_all add: h1_def set_conn_def items_of_def)
  show ?thesis
  proof (cases "hg_app h")
    case None
    with assms False q have "reserveReliableHandler_wait p n None h1 = Some (res, h')"
      by (simp add: reserveReliableHandler_def Let_def h1_def set_conn_def)
    from adds_work_trans_unchanged [OF h1(1-4) reserveReliableHandler_wait_adds_work [OF this]] show ?thesis .
  next
    case (Some app)
    obtain ok app' where acq: "Acquire app n = (ok, app')"
      by fastforce
    show ?thesis
    proof (cases ok)
      case True
      with assms False q Some acq have
        "reserveReliableHandler_wait p n None (h1\<lparr>hg_app := Some app'\<rparr>) = Some (res, h')"
        by (simp add: reserveReliableHandler_def Let_def h1_def set_conn_def)
      from reserveReliableHandler_wait_adds_work [OF this] h1(1-4) show ?thesis
        using adds_work_trans_unchanged [of "h1\<lparr>hg_app := Some app'\<rparr>" h p h'] by simp
    next
      case no: False
      with assms False q Some acq have "h' = h1"
        by (simp add: reserveReliableHandler_def Let_def h1_def set_conn_def)
      with unchanged_adds_work [OF h1(1-4)] show ?thesis
        by simp
    qed
  qed
qed

lemma dropQueuedHandlers_effect:
  "dropQueuedHandlers p h = Some h' \<Longrightarrow>
     hg_sched h' = hg_sched h \<and> (\<forall>p'. p' \<noteq> p \<longrightarrow> hg_conns h' p' = hg_conns h p')
     \<and> cn_scheduled (hg_conns h' p) = cn_scheduled (hg_conns h p) \<and> items_of (hg_conns h' p) = []"
proof (induction p h arbitrary: h' rule: dropQueuedHandlers.induct)
  case (1 p h)
  show ?case
  proof (cases "cn_queue (hg_conns h p)")
    case None
    with "1.prems" show ?thesis by (simp add: dropQueuedHandlers.simps [of p h] items_of_def)
  next
    case (Some q)
    obtain item q' where pop: "Pop q = (item, q')"
      by fastforce
    show ?thesis
    proof (cases item)
      case None
      with "1.prems" Some pop show ?thesis
        by (auto simp: dropQueuedHandlers.simps [of p h] items_of_def Pop_def split: list.splits)
    next
      case (Some it)
      with "1.prems" \<open>cn_queue (hg_conns h p) = Some q\<close> pop obtain h1 where
        h1: "release_handler (it_Value it) (set_conn p ((hg_conns h p)\<lparr>cn_queue := Some q'\<rparr>) h) = Some h1"
          "dropQueuedHandlers p h1 = Some h'"
        by (auto simp: dropQueuedHandlers.simps [of p h] split: Option.bind_splits)
      from "1.IH" [OF \<open>cn_queue (hg_conns h p) = Some q\<close> pop [symmetric] Some h1] release_handler_frame [OF h1(1)]
      show ?thesis
        by (simp add: set_conn_def)
    qed
  qed
qed

section \<open>Workers and producers together\<close>

text \<open>
  The running quanta with their loop counters; the counter \<open>quantum_size + 1\<close> marks a worker that
  waits to send its connection back to \<open>ready\<close>.
\<close>

type_synonym dispatching = "handling \<times> (pointer \<times> nat) multiset"

abbreviation sending :: nat where
  "sending \<equiv> Suc quantum_size"

inductive sched_step :: "dispatching \<Rightarrow> dispatching \<Rightarrow> bool" where
  enqueued: "enqueueHandler p i h = Some (ok, h') \<Longrightarrow> sched_step (h, run) (h', run)"
| reserved: "reserveReliableHandler p n h = Some (res, h') \<Longrightarrow> sched_step (h, run) (h', run)"
| reserve_wakes: "reserveReliableHandler_wait p n ctx h = Some (res, h') \<Longrightarrow> sched_step (h, run) (h', run)"
| committed: "enqueueReservedReliableHandler p i r h = Some (e, r', h') \<Longrightarrow> sched_step (h, run) (h', run)"
| dropped: "dropQueuedHandlers p h = Some h' \<Longrightarrow> sched_step (h, run) (h', run)"
| takes: "hs_ready (hg_sched h) = p # rest \<Longrightarrow> \<not> hs_cancelled (hg_sched h) \<Longrightarrow>
     int (size run) < hs_workers (hg_sched h) \<Longrightarrow>
     sched_step (h, run) (h\<lparr>hg_sched := (hg_sched h)\<lparr>hs_ready := rest\<rparr>\<rparr>, add_mset (p, 0) run)"
| pops: "(p, k) \<in># run \<Longrightarrow> k < quantum_size \<Longrightarrow> quantum_pop p h = (Some i, h') \<Longrightarrow>
     sched_step (h, run) (h', add_mset (p, Suc k) (run - {#(p, k)#}))"
| finds_empty: "(p, k) \<in># run \<Longrightarrow> k < quantum_size \<Longrightarrow> quantum_pop p h = (None, h') \<Longrightarrow>
     sched_step (h, run) (h', run - {#(p, k)#})"
| finishes: "(p, quantum_size) \<in># run \<Longrightarrow> quantum_yield p h = (False, h') \<Longrightarrow>
     sched_step (h, run) (h', run - {#(p, quantum_size)#})"
| yields: "(p, quantum_size) \<in># run \<Longrightarrow> quantum_yield p h = (True, h') \<Longrightarrow>
     sched_step (h, run) (h', add_mset (p, sending) (run - {#(p, quantum_size)#}))"
| sends: "(p, sending) \<in># run \<Longrightarrow> int (length (hs_ready (hg_sched h))) < hs_maxReady (hg_sched h) \<Longrightarrow>
     sched_step (h, run) (h\<lparr>hg_sched := (hg_sched h)\<lparr>hs_ready := hs_ready (hg_sched h) @ [p]\<rparr>\<rparr>,
       run - {#(p, sending)#})"
| closes: "sched_step (h, run) (h\<lparr>hg_sched := close_scheduler (hg_sched h)\<rparr>, run)"
| cancels: "\<not> hs_accepting (hg_sched h) \<Longrightarrow> hs_work (hg_sched h) = 0 \<Longrightarrow>
     sched_step (h, run) (h\<lparr>hg_sched := (hg_sched h)\<lparr>hs_cancelled := True\<rparr>\<rparr>, run)"

definition tokens :: "dispatching \<Rightarrow> pointer multiset" where
  "tokens hr = mset (hs_ready (hg_sched (fst hr))) + image_mset fst (snd hr)"

definition sched_inv :: "dispatching \<Rightarrow> bool" where
  "sched_inv hr \<longleftrightarrow>
     (\<forall>p. count (tokens hr) p = of_bool (cn_scheduled (hg_conns (fst hr) p)))
     \<and> hs_work (hg_sched (fst hr)) = int (size (tokens hr))
     \<and> int (size (snd hr)) \<le> hs_workers (hg_sched (fst hr))
     \<and> (hs_accepting (hg_sched (fst hr)) \<longrightarrow>
          (\<forall>p. \<not> cn_scheduled (hg_conns (fst hr) p) \<longrightarrow> items_of (hg_conns (fst hr) p) = []))"

lemma sched_invI:
  assumes "\<And>p. count (tokens (h, run)) p = of_bool (cn_scheduled (hg_conns h p))"
    and "hs_work (hg_sched h) = int (size (tokens (h, run)))" "int (size run) \<le> hs_workers (hg_sched h)"
    and "\<And>p. hs_accepting (hg_sched h) \<Longrightarrow> \<not> cn_scheduled (hg_conns h p) \<Longrightarrow> items_of (hg_conns h p) = []"
  shows "sched_inv (h, run)"
  using assms by (simp add: sched_inv_def)

lemma sched_invD:
  assumes "sched_inv (h, run)"
  shows "count (tokens (h, run)) p = of_bool (cn_scheduled (hg_conns h p))"
    and "hs_work (hg_sched h) = int (size (tokens (h, run)))" "int (size run) \<le> hs_workers (hg_sched h)"
    and "hs_accepting (hg_sched h) \<Longrightarrow> \<not> cn_scheduled (hg_conns h p) \<Longrightarrow> items_of (hg_conns h p) = []"
  using assms by (simp_all add: sched_inv_def)

lemma adds_work_inv:
  assumes "adds_work p h h'" "sched_inv (h, run)"
  shows "sched_inv (h', run)"
proof -
  note inv = sched_invD [OF assms(2)]
  consider (same) "hg_sched h' = hg_sched h" "cn_scheduled (hg_conns h' p) = cn_scheduled (hg_conns h p)"
      "\<not> cn_scheduled (hg_conns h p) \<longrightarrow> items_of (hg_conns h p) = [] \<longrightarrow> items_of (hg_conns h' p) = []"
    | (new) "\<not> cn_scheduled (hg_conns h p)" "cn_scheduled (hg_conns h' p)"
      "hg_sched h' = (hg_sched h)\<lparr>hs_work := hs_work (hg_sched h) + 1, hs_ready := hs_ready (hg_sched h) @ [p]\<rparr>"
    using assms(1) by (auto simp: adds_work_def)
  then show ?thesis
  proof cases
    case same
    have "cn_scheduled (hg_conns h' p') = cn_scheduled (hg_conns h p')" for p'
      using assms(1) same by (cases "p' = p") (auto simp: adds_work_def)
    moreover have "\<not> cn_scheduled (hg_conns h p') \<Longrightarrow> items_of (hg_conns h p') = [] \<Longrightarrow> items_of (hg_conns h' p') = []" for p'
      using assms(1) same by (cases "p' = p") (auto simp: adds_work_def)
    ultimately show ?thesis
      using inv same by (intro sched_invI) (auto simp: tokens_def)
  next
    case new
    have tok: "tokens (h', run) = add_mset p (tokens (h, run))"
      using new by (simp add: tokens_def)
    show ?thesis
    proof (rule sched_invI)
      fix p'
      show "count (tokens (h', run)) p' = of_bool (cn_scheduled (hg_conns h' p'))"
        using assms(1) new inv(1) [of p'] by (cases "p' = p") (auto simp: tok adds_work_def)
      show "hs_accepting (hg_sched h') \<Longrightarrow> \<not> cn_scheduled (hg_conns h' p') \<Longrightarrow> items_of (hg_conns h' p') = []"
        using assms(1) new inv(4) [of p'] by (cases "p' = p") (auto simp: adds_work_def)
    qed (use new inv tok in auto)
  qed
qed

lemma token_member:
  assumes "sched_inv (h, run)" "(p, k) \<in># run"
  shows "cn_scheduled (hg_conns h p)"
proof -
  have "0 < count (tokens (h, run)) p"
    using assms(2) by (force simp: tokens_def)
  with assms(1) show ?thesis
    by (cases "cn_scheduled (hg_conns h p)") (auto simp: sched_inv_def)
qed

lemma end_token_inv:
  assumes "sched_inv (h, add_mset (p, k) run)"
    and "hs_accepting (hg_sched h) \<longrightarrow> items_of (hg_conns h p) = []"
  shows "sched_inv (end_token p h, run)"
proof -
  note inv = sched_invD [OF assms(1)]
  have tok: "tokens (h, add_mset (p, k) run) = add_mset p (tokens (end_token p h, run))"
    by (simp add: tokens_def end_token_def set_conn_def work_done_def)
  have scheduled: "cn_scheduled (hg_conns h p)"
    using token_member [OF assms(1), of p k] by simp
  have conns: "hg_conns (end_token p h) = (hg_conns h)(p := (hg_conns h p)\<lparr>cn_scheduled := False\<rparr>)"
    by (simp add: end_token_def set_conn_def)
  show ?thesis
  proof (rule sched_invI)
    fix p'
    show "count (tokens (end_token p h, run)) p' = of_bool (cn_scheduled (hg_conns (end_token p h) p'))"
      using inv(1) [of p'] scheduled by (cases "p' = p") (auto simp: tok conns)
    show "hs_accepting (hg_sched (end_token p h)) \<Longrightarrow> \<not> cn_scheduled (hg_conns (end_token p h) p') \<Longrightarrow>
        items_of (hg_conns (end_token p h) p') = []"
      using inv(4) [of p'] assms(2)
      by (cases "p' = p") (auto simp: conns end_token_def set_conn_def work_done_def items_of_def)
    have "hs_work (hg_sched (end_token p h)) = hs_work (hg_sched h) - 1"
      by (simp add: end_token_def set_conn_def work_done_def)
    with inv(2) show "hs_work (hg_sched (end_token p h)) = int (size (tokens (end_token p h, run)))"
      by (simp add: tok)
    have "hs_workers (hg_sched (end_token p h)) = hs_workers (hg_sched h)"
      by (simp add: end_token_def set_conn_def work_done_def)
    with inv(3) show "int (size run) \<le> hs_workers (hg_sched (end_token p h))"
      by simp
  qed
qed

lemma quantum_pop_cases:
  assumes "quantum_pop p h = (r, h')"
  shows "(r = None \<and> h' = end_token p h \<and> items_of (hg_conns h p) = [])
    \<or> (\<exists>i q'. r = Some i \<and> h' = set_conn p ((hg_conns h p)\<lparr>cn_queue := Some q'\<rparr>) h)"
  using assms
  by (auto simp: quantum_pop_def items_of_def Pop_def split: option.splits list.splits)

lemma quantum_yield_cases:
  assumes "quantum_yield p h = (again, h')"
  shows "(\<not> again \<and> h' = end_token p h \<and> (hs_accepting (hg_sched h) \<longrightarrow> items_of (hg_conns h p) = []))
    \<or> (again \<and> h' = h)"
  using assms by (auto simp: quantum_yield_def items_of_def Len_def split: option.splits if_splits)

lemma sched_step_inv: "sched_step hr hr' \<Longrightarrow> sched_inv hr \<Longrightarrow> sched_inv hr'"
proof (induction rule: sched_step.induct)
  case (enqueued p i h ok h' run)
  then show ?case by (blast intro: adds_work_inv enqueueHandler_adds_work)
next
  case (reserved p n h res h' run)
  then show ?case by (blast intro: adds_work_inv reserveReliableHandler_adds_work)
next
  case (reserve_wakes p n ctx h res h' run)
  then show ?case by (blast intro: adds_work_inv reserveReliableHandler_wait_adds_work)
next
  case (committed p i r h e r' h' run)
  then show ?case by (blast intro: adds_work_inv enqueueReserved_adds_work)
next
  case (dropped p h h' run)
  with dropQueuedHandlers_effect [OF dropped(1)] have "adds_work p h h'"
    by (simp add: adds_work_def)
  with dropped show ?case by (blast intro: adds_work_inv)
next
  case (takes h p rest run)
  then show ?case by (auto simp: sched_inv_def tokens_def)
next
  case (pops p k run h i h')
  then obtain run' where run: "run = add_mset (p, k) run'"
    by (metis multi_member_split)
  from quantum_pop_cases [OF pops(3)] obtain q' where
    "h' = set_conn p ((hg_conns h p)\<lparr>cn_queue := Some q'\<rparr>) h"
    by auto
  with pops token_member [OF pops(4), of p k] run show ?case
    by (auto simp: sched_inv_def tokens_def set_conn_def)
next
  case (finds_empty p k run h h')
  then obtain run' where run: "run = add_mset (p, k) run'"
    by (metis multi_member_split)
  with quantum_pop_cases [OF finds_empty(3)] finds_empty end_token_inv [of h p k run'] show ?case
    by auto
next
  case (finishes p run h h')
  then obtain run' where run: "run = add_mset (p, quantum_size) run'"
    by (metis multi_member_split)
  with quantum_yield_cases [OF finishes(2)] finishes end_token_inv [of h p quantum_size run'] show ?case
    by auto
next
  case (yields p run h h')
  then obtain run' where "run = add_mset (p, quantum_size) run'"
    by (metis multi_member_split)
  with quantum_yield_cases [OF yields(2)] yields show ?case
    by (auto simp: sched_inv_def tokens_def)
next
  case (sends p run h)
  then obtain run' where "run = add_mset (p, sending) run'"
    by (metis multi_member_split)
  with sends show ?case
    by (auto simp: sched_inv_def tokens_def)
next
  case (closes h run)
  then show ?case by (simp add: sched_inv_def tokens_def close_scheduler_def)
next
  case (cancels h run)
  then show ?case by (simp add: sched_inv_def tokens_def)
qed

definition fresh_conn :: "int \<Rightarrow> int \<Rightarrow> conn" where
  "fresh_conn bytes messages = \<lparr>cn_queue = None, cn_scheduled = False, cn_QueueBytes = bytes, cn_QueueMessages = messages\<rparr>"

definition fresh_handling :: "int \<Rightarrow> int \<Rightarrow> Budget option \<Rightarrow> int \<Rightarrow> int \<Rightarrow> handling" where
  "fresh_handling workers ready app bytes messages =
     \<lparr>hg_sched = newHandlerScheduler workers ready, hg_app = app, hg_conns = (\<lambda>_. fresh_conn bytes messages)\<rparr>"

lemma fresh_handling_inv: "sched_inv (fresh_handling workers ready app bytes messages, {#})"
  by (simp add: sched_inv_def tokens_def fresh_handling_def newHandlerScheduler_def fresh_conn_def items_of_def)

lemma sched_run_inv: "sched_step\<^sup>*\<^sup>* hr hr' \<Longrightarrow> sched_inv hr \<Longrightarrow> sched_inv hr'"
  by (induction rule: rtranclp_induct) (auto intro: sched_step_inv)

section \<open>Runs used by the properties\<close>

text \<open>
  One worker and one ready slot, as the client configures its scheduler, and connections whose
  queues hold empty events of 32 bytes each: \<open>busy acc r m\<close> has \<open>m\<close> events queued for connection 0,
  whose token is with the worker when \<open>r\<close> does not contain it.
\<close>

definition sample_event :: Incoming where
  "sample_event = sample_request\<lparr>in_Kind := EventMessage, in_Payload := []\<rparr>"

definition event_queue :: "nat \<Rightarrow> Incoming Queue" where
  "event_queue m = \<lparr>q_items = replicate m \<lparr>it_Value = sample_event, it_Bytes = 32, it_Key = 0\<rparr>,
     q_maxBytes = 10000, q_maxItems = 100, q_bytes = 32 * int m, q_reservedBytes = 0, q_reservedItems = 0,
     q_closed = False, q_notify = True\<rparr>"

definition busy :: "bool \<Rightarrow> pointer list \<Rightarrow> nat \<Rightarrow> handling" where
  "busy acc r m =
     \<lparr>hg_sched = \<lparr>hs_ready = r, hs_maxReady = 1, hs_accepting = acc, hs_work = 1, hs_cancelled = False, hs_workers = 1\<rparr>,
      hg_app = None,
      hg_conns = (\<lambda>_. fresh_conn 10000 100)(0 := \<lparr>cn_queue = Some (event_queue m), cn_scheduled = True,
        cn_QueueBytes = 10000, cn_QueueMessages = 100\<rparr>)\<rparr>"

lemmas enqueue_eval = enqueueHandler_def chargeHandlerIncoming_def handler_queue_def NewQueue_def incomingCharge_def
  TryPush_def no_room_def signal_q_def set_conn_def schedule_def enqueue_def Let_def sample_event_def sample_request_def

lemma enqueue_first:
  "enqueueHandler 0 sample_event (fresh_handling 1 1 None 10000 100) = Some (True, busy True [0] 1)"
  by (simp add: enqueue_eval fresh_handling_def newHandlerScheduler_def fresh_conn_def busy_def event_queue_def)

lemma enqueue_more:
  "m < 100 \<Longrightarrow> enqueueHandler 0 sample_event (busy acc r m) = Some (True, busy acc r (Suc m))"
  by (simp add: enqueue_eval busy_def event_queue_def replicate_append_same add.commute)

lemma step_enqueue_many:
  "1 \<le> m \<Longrightarrow> m + n \<le> 100 \<Longrightarrow> sched_step\<^sup>*\<^sup>* (busy acc r m, run) (busy acc r (m + n), run)"
proof (induction n)
  case (Suc n)
  then have "sched_step\<^sup>*\<^sup>* (busy acc r m, run) (busy acc r (m + n), run)"
    by simp
  also have "sched_step (busy acc r (m + n), run) (busy acc r (m + Suc n), run)"
    using sched_step.enqueued [OF enqueue_more] Suc.prems by simp
  finally show ?case .
qed simp

lemma step_take: "sched_step (busy acc [0] m, {#}) (busy acc [] m, {#(0, 0)#})"
  using sched_step.takes [of "busy acc [0] m" 0 "[]" "{#}"] by (simp add: busy_def)

lemma step_pop:
  assumes "k < quantum_size"
  shows "sched_step (busy acc [] (Suc m), {#(0, k)#}) (busy acc [] m, {#(0, Suc k)#})"
proof -
  have "quantum_pop 0 (busy acc [] (Suc m)) = (Some sample_event, busy acc [] m)"
    by (simp add: quantum_pop_def busy_def event_queue_def Pop_def signal_q_def set_conn_def)
  with sched_step.pops [of 0 k "{#(0, k)#}" "busy acc [] (Suc m)" sample_event "busy acc [] m"] assms
  show ?thesis by simp
qed

lemma step_pops:
  "k + n \<le> quantum_size \<Longrightarrow> sched_step\<^sup>*\<^sup>* (busy acc [] (m + n), {#(0, k)#}) (busy acc [] m, {#(0, k + n)#})"
proof (induction n arbitrary: k)
  case (Suc n)
  then have "sched_step (busy acc [] (m + Suc n), {#(0, k)#}) (busy acc [] (m + n), {#(0, Suc k)#})"
    using step_pop [of k acc "m + n"] by simp
  also have "sched_step\<^sup>*\<^sup>* (busy acc [] (m + n), {#(0, Suc k)#}) (busy acc [] m, {#(0, Suc k + n)#})"
    using Suc.IH [of "Suc k"] Suc.prems by simp
  finally show ?case by simp
qed simp

lemma run_to_full_queue:
  "sched_step\<^sup>*\<^sup>* (fresh_handling 1 1 None 10000 100, {#}) (busy True [] 33, {#(0, 0)#})"
proof -
  have "sched_step (fresh_handling 1 1 None 10000 100, {#}) (busy True [0] 1, {#})"
    by (rule sched_step.enqueued [OF enqueue_first])
  also have "sched_step\<^sup>*\<^sup>* (busy True [0] 1, {#}) (busy True [0] 33, {#})"
    using step_enqueue_many [of 1 32 True "[0]" "{#}"] by simp
  also have "sched_step (busy True [0] 33, {#}) (busy True [] 33, {#(0, 0)#})"
    by (rule step_take)
  finally show ?thesis .
qed

text \<open>All workers wait to send to a full ready queue.\<close>

definition stuck :: "dispatching \<Rightarrow> bool" where
  "stuck hr \<longleftrightarrow> hs_maxReady (hg_sched (fst hr)) \<le> int (length (hs_ready (hg_sched (fst hr))))
     \<and> hs_workers (hg_sched (fst hr)) \<le> int (size (snd hr)) \<and> (\<forall>(p, k) \<in># snd hr. k = sending)"

lemma adds_work_stuck: "adds_work p h h' \<Longrightarrow> stuck (h, run) \<Longrightarrow> stuck (h', run)"
  by (auto simp: adds_work_def stuck_def)

lemma stuck_step: "sched_step hr hr' \<Longrightarrow> stuck hr \<Longrightarrow> stuck hr'"
proof (induction rule: sched_step.induct)
  case (dropped p h h' run)
  with dropQueuedHandlers_effect [OF dropped(1)] show ?case
    by (simp add: stuck_def)
qed (auto simp: close_scheduler_def
    intro: adds_work_stuck enqueueHandler_adds_work reserveReliableHandler_adds_work
      reserveReliableHandler_wait_adds_work enqueueReserved_adds_work,
    (force simp: stuck_def quantum_size_def close_scheduler_def)+)

lemma stuck_run: "sched_step\<^sup>*\<^sup>* hr hr' \<Longrightarrow> stuck hr \<Longrightarrow> stuck hr'"
  by (induction rule: rtranclp_induct) (auto intro: stuck_step)

section \<open>Properties\<close>

text \<open>In every state the producers, the workers and a shutdown can reach, a connection is scheduled exactly when one ready entry or
  one worker has its token, and queued work has a token while the scheduler accepts.\<close>

lemma sched_tokens:
  assumes "sched_step\<^sup>*\<^sup>* (fresh_handling workers ready app bytes messages, {#}) (h, run)"
  shows "count (image_mset fst run) p \<le> 1
    \<and> (cn_scheduled (hg_conns h p) \<longleftrightarrow>
         count (mset (hs_ready (hg_sched h))) p + count (image_mset fst run) p = 1)
    \<and> hs_work (hg_sched h) = int (length (hs_ready (hg_sched h)) + size run)
    \<and> (hs_accepting (hg_sched h) \<longrightarrow> items_of (hg_conns h p) \<noteq> [] \<longrightarrow> cn_scheduled (hg_conns h p))"
proof -
  have "sched_inv (h, run)"
    using sched_run_inv [OF assms fresh_handling_inv] .
  note inv = sched_invD(2) [OF this] sched_invD(4) [OF this, of p]
  define a b where "a = count (mset (hs_ready (hg_sched h))) p" and "b = count (image_mset fst run) p"
  have "a + b = of_bool (cn_scheduled (hg_conns h p))"
    using sched_invD(1) [OF \<open>sched_inv (h, run)\<close>, of p] by (simp add: tokens_def a_def b_def)
  then have "b \<le> 1 \<and> (cn_scheduled (hg_conns h p) \<longleftrightarrow> a + b = 1)"
    by (cases "cn_scheduled (hg_conns h p)") auto
  with inv show ?thesis
    by (auto simp: tokens_def a_def [symmetric] b_def [symmetric])
qed

text \<open>
  C35. Closing the scheduler does not drain every queued callback: there is a run in which more than
  one quantum of envelopes is queued when \<open>close\<close> is called, the worker gives up its token after one
  quantum, the scheduler's context is cancelled, and an envelope is left in the queue with no token.
\<close>

theorem close_strands_queued_work:
  "\<exists>h. sched_step\<^sup>*\<^sup>* (fresh_handling 1 1 None 10000 100, {#}) (h, {#})
     \<and> hs_cancelled (hg_sched h) \<and> hs_ready (hg_sched h) = [] \<and> items_of (hg_conns h 0) \<noteq> []
     \<and> \<not> cn_scheduled (hg_conns h 0)"
proof -
  define h1 where "h1 = end_token 0 (busy False [] 1)"
  define h2 where "h2 = h1\<lparr>hg_sched := (hg_sched h1)\<lparr>hs_cancelled := True\<rparr>\<rparr>"
  note run_to_full_queue
  also have "sched_step (busy True [] 33, {#(0, 0)#}) (busy False [] 33, {#(0, 0)#})"
    using sched_step.closes [of "busy True [] 33" "{#(0, 0)#}"] by (simp add: busy_def close_scheduler_def)
  also have "sched_step\<^sup>*\<^sup>* (busy False [] 33, {#(0, 0)#}) (busy False [] 1, {#(0, quantum_size)#})"
    using step_pops [of 0 32 False 1] by (simp add: quantum_size_def)
  also have "sched_step (busy False [] 1, {#(0, quantum_size)#}) (h1, {#})"
    using sched_step.finishes [of 0 "{#(0, quantum_size)#}" "busy False [] 1" h1]
    by (simp add: quantum_yield_def busy_def event_queue_def Len_def h1_def)
  also have "sched_step (h1, {#}) (h2, {#})"
    using sched_step.cancels [of h1 "{#}"]
    by (simp add: h2_def h1_def end_token_def busy_def set_conn_def work_done_def)
  finally show ?thesis
    by (intro exI [of _ h2])
      (simp add: h2_def h1_def end_token_def busy_def set_conn_def work_done_def items_of_def event_queue_def)
qed

text \<open>
  With one worker and one ready slot, the configuration of the client, two connections can stop
  handler dispatch for good: there is a run after which the worker waits to send the connection of
  its quantum to the ready queue, whose only slot holds the other connection's token, and in every
  continuation of that run the worker still waits.
\<close>

theorem quantum_handoff_deadlock:
  "\<exists>hr. sched_step\<^sup>*\<^sup>* (fresh_handling 1 1 None 10000 100, {#}) hr \<and> hs_accepting (hg_sched (fst hr))
     \<and> items_of (hg_conns (fst hr) 0) \<noteq> [] \<and> items_of (hg_conns (fst hr) 1) \<noteq> []
     \<and> stuck hr \<and> \<not> (\<exists>hr'. sched_step\<^sup>*\<^sup>* hr hr' \<and> \<not> stuck hr')"
proof -
  obtain h where enq: "enqueueHandler 1 sample_event (busy True [] 1) = Some (True, h)"
    and h: "hs_ready (hg_sched h) = [1]" "hs_maxReady (hg_sched h) = 1" "hs_workers (hg_sched h) = 1"
      "hs_accepting (hg_sched h)" "hg_conns h 0 = hg_conns (busy True [] 1) 0" "items_of (hg_conns h 1) \<noteq> []"
    by (simp add: enqueue_eval busy_def fresh_conn_def items_of_def)
  note run_to_full_queue
  also have "sched_step\<^sup>*\<^sup>* (busy True [] 33, {#(0, 0)#}) (busy True [] 1, {#(0, quantum_size)#})"
    using step_pops [of 0 32 True 1] by (simp add: quantum_size_def)
  also have "sched_step (busy True [] 1, {#(0, quantum_size)#}) (h, {#(0, quantum_size)#})"
    by (rule sched_step.enqueued [OF enq])
  also have "sched_step (h, {#(0, quantum_size)#}) (h, {#(0, sending)#})"
    using sched_step.yields [of 0 "{#(0, quantum_size)#}" h h] h
    by (simp add: quantum_yield_def busy_def event_queue_def Len_def)
  finally have "sched_step\<^sup>*\<^sup>* (fresh_handling 1 1 None 10000 100, {#}) (h, {#(0, sending)#})" .
  moreover have "stuck (h, {#(0, sending)#})"
    using h by (simp add: stuck_def)
  ultimately show ?thesis
    using h stuck_run [of "(h, {#(0, sending)#})"]
    by (intro exI [of _ "(h, {#(0, sending)#})"]) (auto simp: busy_def event_queue_def items_of_def)
qed

text \<open>
  C36. Invocation, on every path. The handler the router selects runs exactly when the envelope is current or a lifecycle notice. The
  envelope is released afterwards, and its charges are given back by \<open>invoke\<close> unless they were given back before; its \<open>after\<close>
  callback runs; a panic of the handler closes the session as an internal error, and nothing else does. A request is answered
  after \<open>invoke\<close> exactly when it was answered before \<open>invoke\<close> came to answer it (by its handler), or it is current, its handler did not panic
  and its \<open>fail\<close> closure succeeds with the failure for a missing handler or for a handler that did not answer: a superseded
  request, one whose handler panicked and one whose answer cannot be written go unanswered.
\<close>

theorem invoke_settles_envelope:
  assumes "\<forall>h. handler router (Some incoming) = Some h \<longrightarrow>
      in_Kind (fst (h incoming)) = in_Kind incoming \<and> in_release (fst (h incoming)) = in_release incoming \<and> in_after (fst (h incoming)) = in_after incoming"
    and "left = (case handler router (Some incoming) of Some h \<Rightarrow> if current \<or> in_Kind incoming = LifecycleMessage then fst (h incoming) else incoming | None \<Rightarrow> incoming)"
    and "failure = (if handler router (Some incoming) = None then (UnsupportedMessage, ''unsupported message'') else (Internal, ''handler returned without a response''))"
  shows "let r = invoke current router fail incoming in
    (iv_ran r \<longleftrightarrow> (current \<or> in_Kind incoming = LifecycleMessage) \<and> handler router (Some incoming) \<noteq> None)
    \<and> (iv_panicked r \<longleftrightarrow> iv_ran r \<and> (\<exists>h. handler router (Some incoming) = Some h \<and> snd (h incoming)))
    \<and> iv_close r = (if iv_panicked r then Some Internal else None)
    \<and> in_released (iv_incoming r) \<and> iv_returned r = (if in_released left then [] else in_release incoming) \<and> iv_after r = in_after incoming
    \<and> (in_responded (iv_incoming r) \<longleftrightarrow> in_responded left
         \<or> in_Kind incoming = RequestMessage \<and> current \<and> \<not> iv_panicked r \<and> (\<exists>f. fail = Some f \<and> f (fst failure) (snd failure) = None))"
proof (cases "handler router (Some incoming)")
  case None
  with assms show ?thesis
    by (auto simp: invoke_def Let_def Release_in_def Fail_def respond_def split: option.splits)
next
  case (Some h)
  obtain i panicked where run: "h incoming = (i, panicked)"
    by fastforce
  with assms(1) Some have "in_Kind i = in_Kind incoming" "in_release i = in_release incoming" "in_after i = in_after incoming"
    by auto
  with Some run assms(2,3) show ?thesis
    by (auto simp: invoke_def Let_def Release_in_def Fail_def respond_def hasResponded_def split: option.splits)
qed

text \<open>A handler that does not answer, one that panics, and an envelope that was superseded.\<close>

theorem invoke_settles_envelope_witness:
  "\<exists>quiet wild. in_responded (iv_incoming (invoke True quiet (Some (\<lambda>_ _. None)) sample_request))
     \<and> in_released (iv_incoming (invoke True quiet (Some (\<lambda>_ _. None)) sample_request))
     \<and> \<not> in_responded (iv_incoming (invoke False quiet (Some (\<lambda>_ _. None)) sample_request))
     \<and> in_released (iv_incoming (invoke False quiet (Some (\<lambda>_ _. None)) sample_request))
     \<and> \<not> in_responded (iv_incoming (invoke True wild (Some (\<lambda>_ _. None)) sample_request))
     \<and> iv_close (invoke True wild (Some (\<lambda>_ _. None)) sample_request) = Some Internal"
proof -
  define router :: "bool \<Rightarrow> (Incoming \<Rightarrow> Incoming \<times> bool) Router option" where
    "router panics = Some (configure [RegRequest 7 (Some (\<lambda>i. (i, panics)))])" for panics
  have route: "handler (router panics) (Some sample_request) = Some (\<lambda>i. (i, panics))" for panics
    by (simp add: router_def configure_def handler_def router_defs NewRouter_def sample_request_def)
  have "\<not> in_responded sample_request" "in_Kind sample_request = RequestMessage"
    by (simp_all add: sample_request_def)
  then show ?thesis
    using invoke_settles_envelope [OF _ refl refl, of "router False" sample_request True "Some (\<lambda>_ _. None)"]
      invoke_settles_envelope [OF _ refl refl, of "router False" sample_request False "Some (\<lambda>_ _. None)"]
      invoke_settles_envelope [OF _ refl refl, of "router True" sample_request True "Some (\<lambda>_ _. None)"]
    by (intro exI [of _ "router False"] exI [of _ "router True"]) (simp add: route Let_def)
qed

end
