(* ===== verification/Directional.thy ===== *)
theory Directional
  imports Session
begin

text \<open>
  The directional budgets of a session (\<open>reserveDirectionalBytes\<close>, \<open>reserveReplyDirectionalBytes\<close> and
  their callers in \<open>endpoint.go\<close>). A direction is the values of the ledgers a call can touch: the
  ordinary and the reply ledger of the direction and the endpoint's application budget, any of which
  may be nil. The closure a reservation returns is the pair of the ledger it charged and the bytes;
  calling it is \<open>release_directional\<close>, and its \<open>sync.Once\<close> means the holder gives the pair up.
\<close>

section \<open>Model\<close>

record direction =
  di_ordinary :: "Budget option"
  di_reply :: "Budget option"
  di_app :: "Budget option"

datatype charged = ChargedOrdinary | ChargedReply | ChargedNone

text \<open>\<open>budget != nil && !budget.Acquire(bytes)\<close> with the ledger afterwards.\<close>

definition acquire_opt :: "Budget option \<Rightarrow> int \<Rightarrow> bool \<times> Budget option" where
  "acquire_opt bo n = (case bo of None \<Rightarrow> (True, None) | Some b \<Rightarrow> (let (ok, b') = Acquire b n in (ok, Some b')))"

definition release_opt :: "Budget option \<Rightarrow> int \<Rightarrow> Budget option option" where
  "release_opt bo n = (case bo of None \<Rightarrow> Some None | Some b \<Rightarrow> map_option Some (Release b n))"

text \<open>What a failed acquisition of the application budget gives back; it was just taken.\<close>

definition undo :: "Budget option \<Rightarrow> int \<Rightarrow> Budget option" where
  "undo bo n = (case release_opt bo n of Some bo' \<Rightarrow> bo' | None \<Rightarrow> bo)"

definition reserveDirectionalBytes :: "direction \<Rightarrow> int \<Rightarrow> (error + charged \<times> int) \<times> direction" where
  "reserveDirectionalBytes d bytes =
     (if bytes < 0 then (Inl ErrBackpressure, d)
      else
        (case acquire_opt (di_ordinary d) bytes of
           (False, _) \<Rightarrow> (Inl ErrBackpressure, d)
         | (True, ordinary) \<Rightarrow>
             (case acquire_opt (di_app d) bytes of
                (False, _) \<Rightarrow> (Inl ErrBackpressure, d\<lparr>di_ordinary := undo ordinary bytes\<rparr>)
              | (True, app) \<Rightarrow>
                  (Inr (if di_ordinary d = None then ChargedNone else ChargedOrdinary, bytes),
                   d\<lparr>di_ordinary := ordinary, di_app := app\<rparr>))))"

definition reserveReplyDirectionalBytes :: "direction \<Rightarrow> int \<Rightarrow> (error + charged \<times> int) \<times> direction" where
  "reserveReplyDirectionalBytes d bytes =
     (if bytes < 0 then (Inl ErrBackpressure, d)
      else
        (case (di_ordinary d, acquire_opt (di_ordinary d) bytes) of
           (Some _, (True, ordinary)) \<Rightarrow>
             (case acquire_opt (di_app d) bytes of
                (False, _) \<Rightarrow> (Inl ErrBackpressure, d\<lparr>di_ordinary := undo ordinary bytes\<rparr>)
              | (True, app) \<Rightarrow> (Inr (ChargedOrdinary, bytes), d\<lparr>di_ordinary := ordinary, di_app := app\<rparr>))
         | _ \<Rightarrow>
             (case acquire_opt (di_reply d) bytes of
                (False, _) \<Rightarrow> (Inl ErrBackpressure, d)
              | (True, reply) \<Rightarrow>
                  (case acquire_opt (di_app d) bytes of
                     (False, _) \<Rightarrow> (Inl ErrBackpressure, d\<lparr>di_reply := undo reply bytes\<rparr>)
                   | (True, app) \<Rightarrow>
                       (Inr (if di_reply d = None then ChargedNone else ChargedReply, bytes),
                        d\<lparr>di_reply := reply, di_app := app\<rparr>)))))"

text \<open>The closure: the application budget first, then the ledger that was charged. \<open>None\<close> is a panic.\<close>

definition release_directional :: "direction \<Rightarrow> charged \<times> int \<Rightarrow> direction option" where
  "release_directional d c =
     (case c of (used, bytes) \<Rightarrow>
        Option.bind (release_opt (di_app d) bytes) (\<lambda>app.
          (case used of
             ChargedOrdinary \<Rightarrow> map_option (\<lambda>b. d\<lparr>di_app := app, di_ordinary := b\<rparr>) (release_opt (di_ordinary d) bytes)
           | ChargedReply \<Rightarrow> map_option (\<lambda>b. d\<lparr>di_app := app, di_reply := b\<rparr>) (release_opt (di_reply d) bytes)
           | ChargedNone \<Rightarrow> Some (d\<lparr>di_app := app\<rparr>))))"

text \<open>The ledgers of a session's two directions, with the endpoint's application budget.\<close>

definition incoming_direction :: "'a sessionRecord \<Rightarrow> Budget option \<Rightarrow> direction" where
  "incoming_direction s app =
     \<lparr>di_ordinary = Some (sr_incomingBudget s), di_reply = Some (sr_incomingReplyBudget s), di_app = app\<rparr>"

definition outgoing_direction :: "'a sessionRecord \<Rightarrow> Budget option \<Rightarrow> direction" where
  "outgoing_direction s app =
     \<lparr>di_ordinary = Some (sr_outgoingBudget s), di_reply = Some (sr_outgoingReplyBudget s), di_app = app\<rparr>"

definition reserveApplicationBytes :: "'a sessionRecord \<Rightarrow> Budget option \<Rightarrow> int \<Rightarrow> (error + charged \<times> int) \<times> direction" where
  "reserveApplicationBytes s app bytes = reserveDirectionalBytes (incoming_direction s app) bytes"

definition reserveReplyApplicationBytes :: "'a sessionRecord \<Rightarrow> Budget option \<Rightarrow> int \<Rightarrow> (error + charged \<times> int) \<times> direction" where
  "reserveReplyApplicationBytes s app bytes = reserveReplyDirectionalBytes (incoming_direction s app) bytes"

definition reserveOutgoing :: "'a sessionRecord \<Rightarrow> Budget option \<Rightarrow> int \<Rightarrow> (error + charged \<times> int) \<times> direction" where
  "reserveOutgoing s app bytes = reserveDirectionalBytes (outgoing_direction s app) bytes"

definition reserveOutgoingReply :: "'a sessionRecord \<Rightarrow> Budget option \<Rightarrow> int \<Rightarrow> (error + charged \<times> int) \<times> direction" where
  "reserveOutgoingReply s app bytes = reserveReplyDirectionalBytes (outgoing_direction s app) bytes"

section \<open>Runs of reservations and releases\<close>

text \<open>
  A direction with the charges held from it. Other users of the application budget may acquire and
  release it in between, without touching what this direction charged.
\<close>

definition dir_sum :: "charged \<Rightarrow> (charged \<times> int) multiset \<Rightarrow> int" where
  "dir_sum k held = (\<Sum>c \<in># filter_mset (\<lambda>c. fst c = k) held. snd c)"

definition all_sum :: "(charged \<times> int) multiset \<Rightarrow> int" where
  "all_sum held = (\<Sum>c \<in># held. snd c)"

inductive direction_step :: "direction \<times> (charged \<times> int) multiset \<Rightarrow> direction \<times> (charged \<times> int) multiset \<Rightarrow> bool" where
  ordinary: "reserveDirectionalBytes d n = (Inr c, d') \<Longrightarrow> direction_step (d, held) (d', add_mset c held)"
| reply: "reserveReplyDirectionalBytes d n = (Inr c, d') \<Longrightarrow> direction_step (d, held) (d', add_mset c held)"
| refused_ordinary: "reserveDirectionalBytes d n = (Inl e, d') \<Longrightarrow> direction_step (d, held) (d', held)"
| refused_reply: "reserveReplyDirectionalBytes d n = (Inl e, d') \<Longrightarrow> direction_step (d, held) (d', held)"
| released: "c \<in># held \<Longrightarrow> release_directional d c = Some d' \<Longrightarrow> direction_step (d, held) (d', held - {#c#})"
| elsewhere: "di_app d = Some app \<Longrightarrow> all_sum held \<le> bu_used app' \<Longrightarrow> bu_used app' \<le> bu_max app' \<Longrightarrow>
     direction_step (d, held) (d\<lparr>di_app := Some app'\<rparr>, held)"

definition direction_inv :: "int \<Rightarrow> int \<Rightarrow> direction \<times> (charged \<times> int) multiset \<Rightarrow> bool" where
  "direction_inv ordinaryMax replyMax dh \<longleftrightarrow>
     (case dh of (d, held) \<Rightarrow>
        (\<exists>b. di_ordinary d = Some b \<and> bu_max b = ordinaryMax \<and> bu_used b = dir_sum ChargedOrdinary held \<and> bu_used b \<le> ordinaryMax)
        \<and> (\<exists>b. di_reply d = Some b \<and> bu_max b = replyMax \<and> bu_used b = dir_sum ChargedReply held \<and> bu_used b \<le> replyMax)
        \<and> (\<forall>app. di_app d = Some app \<longrightarrow> all_sum held \<le> bu_used app \<and> bu_used app \<le> bu_max app)
        \<and> (\<forall>c \<in># held. 0 \<le> snd c \<and> fst c \<noteq> ChargedNone))"

lemma dir_sum_add [simp]:
  "dir_sum k (add_mset (k', n) held) = (if k' = k then n + dir_sum k held else dir_sum k held)"
  by (simp add: dir_sum_def)

lemma all_sum_add [simp]: "all_sum (add_mset c held) = snd c + all_sum held"
  by (simp add: all_sum_def)

lemma dir_sum_nonneg: "(\<forall>c \<in># held. 0 \<le> snd c) \<Longrightarrow> 0 \<le> dir_sum k held"
  unfolding dir_sum_def by (rule sum_mset_int_nonneg) auto

lemma all_sum_nonneg: "(\<forall>c \<in># held. 0 \<le> snd c) \<Longrightarrow> 0 \<le> all_sum held"
  unfolding all_sum_def by (rule sum_mset_int_nonneg) auto

lemma undo_acquired: "Acquire b n = (True, b') \<Longrightarrow> 0 \<le> bu_used b \<Longrightarrow> undo (Some b') n = Some (b\<lparr>bu_notify := True\<rparr>)"
  using Acquire_Release [of b n b'] by (simp add: undo_def release_opt_def)

lemma release_directional_defined:
  assumes "direction_inv om rm (d, add_mset (k, n) held)"
  shows "\<exists>d'. release_directional d (k, n) = Some d' \<and> direction_inv om rm (d', held)"
proof -
  have nn: "\<forall>c \<in># held. 0 \<le> snd c" "0 \<le> n" "k \<noteq> ChargedNone"
    using assms by (auto simp: direction_inv_def)
  note sums = dir_sum_nonneg [OF nn(1), of ChargedOrdinary] dir_sum_nonneg [OF nn(1), of ChargedReply]
    all_sum_nonneg [OF nn(1)]
  show ?thesis
    using assms nn sums
    by (cases k; cases "di_app d")
      (auto simp: direction_inv_def release_directional_def release_opt_def Release_def signal_def)
qed

lemma acquire_opt_Some:
  "acquire_opt (Some b) n = (ok, bo) \<longleftrightarrow>
     (if 0 \<le> n \<and> n \<le> bu_max b - bu_used b then ok \<and> bo = Some (b\<lparr>bu_used := bu_used b + n\<rparr>) else \<not> ok \<and> bo = Some b)"
  by (auto simp: acquire_opt_def Acquire_def)

lemma reserve_inv:
  assumes "direction_inv om rm (d, held)" "reserveDirectionalBytes d n = (r, d')"
  shows "case r of Inr c \<Rightarrow> direction_inv om rm (d', add_mset c held) | Inl _ \<Rightarrow> direction_inv om rm (d', held)"
proof -
  from assms(1) obtain b rb where b: "di_ordinary d = Some b" "di_reply d = Some rb" "0 \<le> bu_used b"
    using dir_sum_nonneg [of held ChargedOrdinary] by (auto simp: direction_inv_def)
  show ?thesis
    using assms b
    by (cases "di_app d")
      (auto simp: direction_inv_def reserveDirectionalBytes_def acquire_opt_def Acquire_def undo_def release_opt_def
        Release_def signal_def split: if_splits)
qed

lemma reserve_reply_inv:
  assumes "direction_inv om rm (d, held)" "reserveReplyDirectionalBytes d n = (r, d')"
  shows "case r of Inr c \<Rightarrow> direction_inv om rm (d', add_mset c held) | Inl _ \<Rightarrow> direction_inv om rm (d', held)"
proof -
  from assms(1) obtain b rb where b: "di_ordinary d = Some b" "di_reply d = Some rb" "0 \<le> bu_used b" "0 \<le> bu_used rb"
    using dir_sum_nonneg [of held ChargedOrdinary] dir_sum_nonneg [of held ChargedReply]
    by (auto simp: direction_inv_def)
  show ?thesis
    using assms b
    by (cases "di_app d")
      (auto simp: direction_inv_def reserveReplyDirectionalBytes_def acquire_opt_def Acquire_def undo_def release_opt_def
        Release_def signal_def split: if_splits)
qed

lemma direction_step_inv: "direction_step dh dh' \<Longrightarrow> direction_inv om rm dh \<Longrightarrow> direction_inv om rm dh'"
proof (induction rule: direction_step.induct)
  case (ordinary d n c d' held)
  with reserve_inv [of om rm d held n "Inr c" d'] show ?case by simp
next
  case (reply d n c d' held)
  with reserve_reply_inv [of om rm d held n "Inr c" d'] show ?case by simp
next
  case (refused_ordinary d n e d' held)
  with reserve_inv [of om rm d held n "Inl e" d'] show ?case by simp
next
  case (refused_reply d n e d' held)
  with reserve_reply_inv [of om rm d held n "Inl e" d'] show ?case by simp
next
  case (released c held d d')
  then obtain rest where "held = add_mset c rest"
    by (metis multi_member_split)
  with released release_directional_defined [of om rm d "fst c" "snd c" rest] show ?case
    by auto
next
  case (elsewhere d app held app')
  then show ?case by (auto simp: direction_inv_def)
qed

lemma direction_run_inv: "direction_step\<^sup>*\<^sup>* dh dh' \<Longrightarrow> direction_inv om rm dh \<Longrightarrow> direction_inv om rm dh'"
  by (induction rule: rtranclp_induct) (auto intro: direction_step_inv)

lemma new_direction_inv:
  assumes "newSessionRecord sid own grp prin limits client operations = Some s"
    and "directionalBudgetLimits limits = (om, rm)" "\<forall>a. app = Some a \<longrightarrow> budget_inv a"
  shows "direction_inv om rm (outgoing_direction s app, {#})" "direction_inv om rm (incoming_direction s app, {#})"
  using assms
  by (auto simp: newSessionRecord_def direction_inv_def outgoing_direction_def incoming_direction_def NewBudget_def
      dir_sum_def all_sum_def budget_inv_def split: if_splits)

section \<open>Properties\<close>

text \<open>Room in the budget that the sessions of an endpoint share.\<close>

definition app_room :: "direction \<Rightarrow> int \<Rightarrow> bool" where
  "app_room d n \<longleftrightarrow> (case di_app d of None \<Rightarrow> True | Some a \<Rightarrow> n \<le> bu_max a - bu_used a)"

text \<open>
  C29. A session's direction stays within its queue bytes and keeps room for a reply. Over any run of reservations and releases, with
  other sessions charging the application budget in between: the ordinary and the reply ledger together never exceed
  \<open>QueueBytes\<close>, with \<open>MessageBytes + 32\<close> of them set aside for the reply ledger, which ordinary traffic cannot charge; releasing a
  held charge never panics; an ordinary reservation succeeds exactly when the ordinary ledger and the application budget have
  room for it, and a reply exactly when one of the two ledgers and the application budget have, charged to the ordinary ledger
  if it has room; so while no reply holds the reserve, only the application budget can refuse a reply of up to one maximal
  message. (The message limit is below \<open>2 ^ 62 - 32\<close>, so that twice the reserve fits the code's \<open>int\<close>.)
\<close>

theorem reply_reserve_available:
  assumes "normalizeLimits l = Inr limits" "limits_typed limits" "MessageBytes limits + 32 < 2 ^ 62"
    and "newSessionRecord sid own grp prin limits client operations = Some s"
    and "\<forall>a. app = Some a \<longrightarrow> budget_inv a"
    and "direction_step\<^sup>*\<^sup>* (outgoing_direction s app, {#}) (d, held)"
  shows "\<exists>ordinary reply. di_ordinary d = Some ordinary \<and> di_reply d = Some reply
    \<and> bu_max ordinary = QueueBytes limits - (MessageBytes limits + 32) \<and> bu_max reply = MessageBytes limits + 32
    \<and> bu_used ordinary + bu_used reply \<le> QueueBytes limits
    \<and> (\<forall>c \<in># held. release_directional d c \<noteq> None)
    \<and> (\<forall>n. fst (reserveDirectionalBytes d n) =
          (if 0 \<le> n \<and> n \<le> bu_max ordinary - bu_used ordinary \<and> app_room d n then Inr (ChargedOrdinary, n) else Inl ErrBackpressure))
    \<and> (\<forall>n. fst (reserveReplyDirectionalBytes d n) =
          (if 0 \<le> n \<and> n \<le> bu_max ordinary - bu_used ordinary \<and> app_room d n then Inr (ChargedOrdinary, n)
           else if 0 \<le> n \<and> bu_max ordinary - bu_used ordinary < n \<and> n \<le> bu_max reply - bu_used reply \<and> app_room d n then Inr (ChargedReply, n)
           else Inl ErrBackpressure))
    \<and> (\<forall>n. bu_used reply = 0 \<and> 0 \<le> n \<and> n \<le> MessageBytes limits + 32 \<longrightarrow>
          ((\<exists>c. fst (reserveReplyDirectionalBytes d n) = Inr c) \<longleftrightarrow> app_room d n))"
proof -
  let ?om = "QueueBytes limits - (MessageBytes limits + 32)" and ?rm = "MessageBytes limits + 32"
  note split = normalized_directional [OF assms(1-3)]
  have inv: "direction_inv ?om ?rm (d, held)"
    using direction_run_inv [OF assms(6) new_direction_inv(1) [OF assms(4) split(1) assms(5)]] .
  then obtain b rb where b: "di_ordinary d = Some b" "di_reply d = Some rb" "bu_used b \<le> ?om" "bu_used rb \<le> ?rm" "bu_max b = ?om" "bu_max rb = ?rm"
    by (auto simp: direction_inv_def)
  have "release_directional d c \<noteq> None" if mem: "c \<in># held" for c
  proof -
    obtain rest where "held = add_mset c rest"
      using mem by (metis multi_member_split)
    with release_directional_defined [of ?om ?rm d "fst c" "snd c" rest] inv show ?thesis
      by auto
  qed
  moreover have "fst (reserveDirectionalBytes d n) =
      (if 0 \<le> n \<and> n \<le> bu_max b - bu_used b \<and> app_room d n then Inr (ChargedOrdinary, n) else Inl ErrBackpressure)" for n
    using b(1) by (cases "di_app d") (auto simp: reserveDirectionalBytes_def acquire_opt_def Acquire_def app_room_def)
  moreover have reply: "fst (reserveReplyDirectionalBytes d n) =
      (if 0 \<le> n \<and> n \<le> bu_max b - bu_used b \<and> app_room d n then Inr (ChargedOrdinary, n)
       else if 0 \<le> n \<and> bu_max b - bu_used b < n \<and> n \<le> bu_max rb - bu_used rb \<and> app_room d n then Inr (ChargedReply, n)
       else Inl ErrBackpressure)" for n
    using b(1,2) by (cases "di_app d") (auto simp: reserveReplyDirectionalBytes_def acquire_opt_def Acquire_def app_room_def)
  moreover have "(\<exists>c. fst (reserveReplyDirectionalBytes d n) = Inr c) \<longleftrightarrow> app_room d n" if "bu_used rb = 0" "0 \<le> n" "n \<le> ?rm" for n
    using that b(6) by (auto simp: reply)
  ultimately show ?thesis
    using b by auto
qed

theorem reply_reserve_available_witness:
  "\<exists>d c d'. direction_step\<^sup>*\<^sup>* (outgoing_direction sample_session None, {#}) (d, {#(ChargedOrdinary, 196576)#})
     \<and> reserveReplyDirectionalBytes d 65568 = (Inr c, d')"
proof -
  define d where "d = (outgoing_direction sample_session None)\<lparr>di_ordinary :=
    Some \<lparr>bu_max = 196576, bu_used = 196576, bu_notify = False\<rparr>\<rparr>"
  have new: "sr_outgoingBudget sample_session = \<lparr>bu_max = 196576, bu_used = 0, bu_notify = False\<rparr>"
    "sr_outgoingReplyBudget sample_session = \<lparr>bu_max = 65568, bu_used = 0, bu_notify = False\<rparr>"
    by (simp_all add: sample_session_def newSessionRecord_def directionalBudgetLimits_def DefaultLimits_def
        NewBudget_def Let_def wrap64_def signed_take_bit_eq_take_bit_minus take_bit_eq_mod)
  have "reserveDirectionalBytes (outgoing_direction sample_session None) 196576 = (Inr (ChargedOrdinary, 196576), d)"
    by (simp add: reserveDirectionalBytes_def outgoing_direction_def new acquire_opt_def Acquire_def d_def)
  from direction_step.ordinary [OF this, of "{#}"]
  have run: "direction_step\<^sup>*\<^sup>* (outgoing_direction sample_session None, {#}) (d, {#(ChargedOrdinary, 196576)#})"
    by simp
  have typed: "limits_typed DefaultLimits" "MessageBytes DefaultLimits + 32 < 2 ^ 62"
    by (simp_all add: limits_typed_def limit_ints_def limit_durations_def DefaultLimits_def int64_range_def)
  have "di_reply d = Some \<lparr>bu_max = 65568, bu_used = 0, bu_notify = False\<rparr>" "di_app d = None" "MessageBytes DefaultLimits = 65536"
    by (simp_all add: d_def outgoing_direction_def new DefaultLimits_def)
  with reply_reserve_available [OF DefaultLimits_normal typed sample_session_eq(1) _ run] have
    "\<exists>c. fst (reserveReplyDirectionalBytes d 65568) = Inr c"
    by (auto simp: app_room_def)
  then have "\<exists>c d'. reserveReplyDirectionalBytes d 65568 = (Inr c, d')"
    by (metis prod.collapse)
  with run show ?thesis
    by blast
qed

end
