(* ===== verification/Codec_Spec.thy ===== *)
theory Codec_Spec
  imports Varint
begin

text \<open>
  The contracts the frame codecs of \<open>internal/wire\<close> keep. A \<open>prefix_codec\<close> is self-delimiting:
  its decoder finds the frame at the front of any longer input and reports how many bytes it used
  (varints, reliable event frames). A \<open>message_codec\<close> owns its whole input (datagrams, requests,
  responses, stream headers). \<open>norm\<close> is what a round trip forgets. The client lemmas proved here
  (unique decoding, prefix freedom, decoding a concatenation of frames) hold for every
  interpretation.
\<close>

text \<open>Decoding a run of \<open>k\<close> frames from the front of the input, as a stream reader does.\<close>

fun decode_frames :: "(bytes \<Rightarrow> wire_error + ('a \<times> nat)) \<Rightarrow> nat \<Rightarrow> bytes \<Rightarrow> wire_error + ('a list \<times> bytes)" where
  "decode_frames dec 0 src = Inr ([], src)"
| "decode_frames dec (Suc k) src =
     bind (dec src) (\<lambda>(x, n).
       bind (decode_frames dec k (drop n src)) (\<lambda>(xs, rest). Inr (x # xs, rest)))"

text \<open>Encoding a list of values one after the other.\<close>

fun encode_frames :: "('a \<Rightarrow> wire_error + bytes) \<Rightarrow> 'a list \<Rightarrow> wire_error + bytes" where
  "encode_frames enc [] = Inr []"
| "encode_frames enc (x # xs) =
     bind (enc x) (\<lambda>b. bind (encode_frames enc xs) (\<lambda>bs. Inr (b @ bs)))"

locale prefix_codec =
  fixes enc :: "'a \<Rightarrow> wire_error + bytes"
    and dec :: "bytes \<Rightarrow> wire_error + ('a \<times> nat)"
    and norm :: "'a \<Rightarrow> 'a"
  assumes dec_enc: "enc x = Inr bs \<Longrightarrow> dec (bs @ rest) = Inr (norm x, length bs)"
begin

lemma enc_determines: "enc x = Inr bs \<Longrightarrow> enc y = Inr bs \<Longrightarrow> norm x = norm y"
  using dec_enc [of x bs "[]"] dec_enc [of y bs "[]"] by simp

lemma prefix_free:
  assumes "enc x = Inr bs" "enc y = Inr (bs @ rest)"
  shows "rest = []"
  using dec_enc [OF assms(1), of rest] dec_enc [OF assms(2), of "[]"] by simp

lemma decode_encoded_frames:
  "encode_frames enc xs = Inr bs \<Longrightarrow>
     decode_frames dec (length xs) (bs @ rest) = Inr (map norm xs, rest)"
proof (induction xs arbitrary: bs)
  case Nil
  then show ?case by simp
next
  case (Cons x xs)
  then obtain b bs' where "enc x = Inr b" "encode_frames enc xs = Inr bs'" "bs = b @ bs'"
    by auto
  with Cons.IH [of bs'] show ?case
    using dec_enc [of x b "bs' @ rest"] by simp
qed

end

locale message_codec =
  fixes enc :: "'a \<Rightarrow> wire_error + bytes"
    and dec :: "bytes \<Rightarrow> wire_error + 'a"
    and norm :: "'a \<Rightarrow> 'a"
  assumes dec_enc: "enc x = Inr bs \<Longrightarrow> dec bs = Inr (norm x)"
begin

lemma enc_determines: "enc x = Inr bs \<Longrightarrow> enc y = Inr bs \<Longrightarrow> norm x = norm y"
  using dec_enc [of x bs] dec_enc [of y bs] by simp

end

text \<open>A message codec whose decoder accepts nothing but encodings: decoding is injective.\<close>

locale canonical_codec = message_codec +
  assumes enc_dec: "dec bs = Inr x \<Longrightarrow> enc x = Inr bs"
begin

lemma norm_decoded: "dec bs = Inr x \<Longrightarrow> norm x = x"
  using enc_dec [of bs x] dec_enc [of x bs] by simp

lemma dec_inject: "dec bs = Inr x \<Longrightarrow> dec cs = Inr x \<Longrightarrow> bs = cs"
  using enc_dec [of bs x] enc_dec [of cs x] by simp

end

section \<open>Varints keep the contract\<close>

interpretation varint: prefix_codec "AppendVarint []" DecodeVarint "\<lambda>v. v"
  by unfold_locales
    (auto simp: AppendVarint_Inr_iff DecodeVarint_encoded length_varint_bytes)

section \<open>Properties\<close>

text \<open>
  Varints are a bijection: every value up to \<open>MaxVarint\<close> is appended without error in \<open>VarintLen\<close> bytes, and
  \<open>DecodeVarint\<close> returns a value and a length exactly when the input starts with what \<open>AppendVarint\<close> produces for
  that value in that many bytes. So decoding inverts encoding whatever follows, and every other spelling is refused.
\<close>

theorem varint_bijection:
  "(v \<le> MaxVarint \<longrightarrow> (\<exists>e. AppendVarint dst v = Inr (dst @ e) \<and> length e = VarintLen v))
   \<and> (DecodeVarint src = Inr (v, n) \<longleftrightarrow> n \<le> length src \<and> AppendVarint [] v = Inr (take n src))"
proof (intro conjI iffI)
  show "v \<le> MaxVarint \<longrightarrow> (\<exists>e. AppendVarint dst v = Inr (dst @ e) \<and> length e = VarintLen v)"
    by (simp add: AppendVarint_ok VarintLen_pos_iff length_varint_bytes)
next
  assume dec: "DecodeVarint src = Inr (v, n)"
  show "n \<le> length src" "AppendVarint [] v = Inr (take n src)"
    using DecodeVarint_canonical [OF dec] by (auto simp: AppendVarint_Inr_iff)
next
  assume enc: "n \<le> length src \<and> AppendVarint [] v = Inr (take n src)"
  then have "DecodeVarint (take n src @ drop n src) = Inr (v, length (take n src))"
    using varint.dec_enc by blast
  with enc show "DecodeVarint src = Inr (v, n)"
    by simp
qed

theorem varint_bijection_witness:
  "(\<exists>e. AppendVarint [7] 16384 = Inr ([7] @ e) \<and> length e = VarintLen 16384) \<and> DecodeVarint [0x7f, 0xff, 1] = Inr (16383, 2)
   \<and> AppendVarint [] 16383 = Inr (take 2 [0x7f, 0xff, 1])"
proof -
  have "DecodeVarint [0x7f, 0xff, 1] = Inr (16383, 2)"
    by (simp add: DecodeVarint_def VarintLen_def drop_bit_eq_div push_bit_eq_mult)
  moreover have "(16384 :: u64) \<le> MaxVarint"
    by (simp add: MaxVarint_def)
  ultimately show ?thesis
    using varint_bijection [of 16384 "[7]"] varint_bijection [of 16383 "[]" "[0x7f, 0xff, 1]" 2] by blast
qed

text \<open>
  The streaming reader agrees with the slice decoder: on a reader that still delivers at least
  one byte, \<open>ReadVarint\<close> returns what \<open>DecodeVarint\<close> returns and leaves exactly the bytes behind
  the varint; a truncated varint is \<open>ErrTruncated\<close> at the end of the stream and the transport's own
  error otherwise.
\<close>

theorem ReadVarint_DecodeVarint:
  assumes "src \<noteq> []"
  shows "ReadVarint (Reader src e) =
    (case DecodeVarint src of
       Inr (v, n) \<Rightarrow> Inr (v, Reader (drop n src) e)
     | Inl err \<Rightarrow> Inl (if err = ErrTruncated \<and> e \<noteq> EOF then IOError e else err))"
proof -
  obtain b bs where "src = b # bs"
    using assms by (cases src) auto
  then show ?thesis
    by (auto simp: ReadVarint_def DecodeVarint_def read_more_Reader Let_def drop_Cons'
        simp del: One_nat_def)
qed

theorem ReadVarint_DecodeVarint_witness:
  "ReadVarint (Reader [0x40, 0x40, 5] EOF) = Inr (64, Reader [5] EOF)"
  by (simp add: ReadVarint_DecodeVarint DecodeVarint_def VarintLen_def drop_bit_eq_div
      push_bit_eq_mult)

end
