(* ===== verification/Events.thy ===== *)
theory Events
  imports Codec_Spec
begin

unbundle bit_operations_syntax

text \<open>
  \<open>internal/wire/events.go\<close>: reliable event frames, the header reader the stream receiver uses, and
  the one-event datagrams. The operations follow the source check by check; \<open>maxPayload\<close> and
  \<open>maxBytes\<close> are Go \<open>int\<close>s, and the two sums \<open>maxPayload+32\<close> keep their wrap-around.
\<close>

section \<open>Data\<close>

definition maxMessageType :: u64 where
  "maxMessageType = push_bit 32 1 - 1"

definition maxChannel :: u64 where
  "maxChannel = push_bit 16 1 - 1"

definition ReliableEventKind :: u64 where "ReliableEventKind = 1"
definition UnreliableKind :: u64 where "UnreliableKind = 2"
definition SequencedKind :: u64 where "SequencedKind = 3"
definition RequestStreamKind :: u64 where "RequestStreamKind = 2"
definition CustomStreamKind :: u64 where "CustomStreamKind = 3"

record Event =
  ev_Kind :: u64
  ev_Channel :: u64
  ev_MessageType :: u64
  ev_Sequence :: u64
  ev_Payload :: bytes

definition zero_Event :: Event where
  "zero_Event = \<lparr>ev_Kind = 0, ev_Channel = 0, ev_MessageType = 0, ev_Sequence = 0, ev_Payload = []\<rparr>"

section \<open>Encoding\<close>

text \<open>The loop that appends several varints in a row, stopping at the first error.\<close>

fun append_varints :: "bytes \<Rightarrow> u64 list \<Rightarrow> wire_error + bytes" where
  "append_varints dst [] = Inr dst"
| "append_varints dst (v # vs) = bind (AppendVarint dst v) (\<lambda>dst'. append_varints dst' vs)"

definition appendEvent :: "bytes \<Rightarrow> Event \<Rightarrow> bool \<Rightarrow> wire_error + bytes" where
  "appendEvent dst event sequence =
     bind (append_varints dst [ev_Kind event, ev_Channel event, ev_MessageType event]) (\<lambda>dst.
       bind (if sequence then AppendVarint dst (ev_Sequence event) else Inr dst) (\<lambda>dst.
         Inr (dst @ ev_Payload event)))"

definition validateEvent :: "Event \<Rightarrow> bool \<Rightarrow> wire_error + unit" where
  "validateEvent event sequenced =
     (if ev_Channel event > maxChannel \<or> ev_MessageType event = 0
         \<or> ev_MessageType event > maxMessageType then Inl ErrMalformed
      else if sequenced \<and> ev_Sequence event = 0 then Inl ErrMalformed
      else Inr ())"

definition EncodeReliableChannelHeaderFor :: "u64 \<Rightarrow> wire_error + bytes" where
  "EncodeReliableChannelHeaderFor channel =
     bind (AppendVarint [] ReliableEventKind) (\<lambda>b. AppendVarint b channel)"

definition EncodeReliableChannelHeader :: "u64 \<Rightarrow> wire_error + bytes" where
  "EncodeReliableChannelHeader channel = EncodeReliableChannelHeaderFor channel"

definition EncodeReliableEvent :: "Event \<Rightarrow> int \<Rightarrow> wire_error + bytes" where
  "EncodeReliableEvent event maxPayload =
     (if ev_Kind event \<noteq> 0 \<and> ev_Kind event \<noteq> ReliableEventKind then Inl ErrInvalidKind
      else if maxPayload < 0 \<or> int (length (ev_Payload event)) > maxPayload then Inl ErrTooLarge
      else
        (let event = event\<lparr>ev_Kind := ReliableEventKind\<rparr> in
         bind (validateEvent event False) (\<lambda>_.
         bind (appendEvent [] event False) (\<lambda>body.
           if int (length body) > wrap64 (maxPayload + 32) then Inl ErrTooLarge
           else bind (AppendVarint [] (of_nat (length body))) (\<lambda>b. Inr (b @ body))))))"

definition EncodeDatagram :: "Event \<Rightarrow> int \<Rightarrow> wire_error + bytes" where
  "EncodeDatagram event maxBytes =
     (if ev_Kind event \<noteq> UnreliableKind \<and> ev_Kind event \<noteq> SequencedKind then Inl ErrInvalidKind
      else if maxBytes < 0 then Inl ErrTooLarge
      else
        bind (validateEvent event (ev_Kind event = SequencedKind)) (\<lambda>_.
        bind (appendEvent [] event (ev_Kind event = SequencedKind)) (\<lambda>b.
          if int (length b) > maxBytes then Inl ErrTooLarge else Inr b)))"

section \<open>Decoding\<close>

definition decodeEvent :: "bytes \<Rightarrow> u64 \<Rightarrow> bool \<Rightarrow> wire_error + (Event \<times> nat)" where
  "decodeEvent src expectedKind sequence =
     bind (DecodeVarint src) (\<lambda>(kind, n).
       if expectedKind \<noteq> 0 \<and> kind \<noteq> expectedKind then Inl ErrInvalidKind
       else
         (let used = n in
          bind (DecodeVarint (drop used src)) (\<lambda>(channel, n).
          let used = used + n in
          bind (DecodeVarint (drop used src)) (\<lambda>(messageType, n).
          let used = used + n in
          bind (if sequence then DecodeVarint (drop used src) else Inr (0, 0)) (\<lambda>(seqno, n).
          let used = used + n in
          Inr (\<lparr>ev_Kind = kind, ev_Channel = channel, ev_MessageType = messageType,
                 ev_Sequence = seqno, ev_Payload = drop used src\<rparr>, used))))))"

text \<open>A slice never holds more than \<open>maxInt\<close> bytes, so \<open>uint64(len(src)-n)\<close> is the exact length.\<close>

definition DecodeReliableEvent :: "bytes \<Rightarrow> int \<Rightarrow> wire_error + (Event \<times> nat)" where
  "DecodeReliableEvent src maxPayload =
     bind (DecodeVarint src) (\<lambda>(len, n).
       if len > uint64 (maxPayload + 32) \<or> unat len > length src - n then
         (if len > uint64 (maxPayload + 32) then Inl ErrTooLarge else Inl ErrTruncated)
       else
         (let body = take (unat len) (drop n src) in
          bind (decodeEvent body ReliableEventKind False) (\<lambda>(event, used).
            if used > length body \<or> int (length (ev_Payload event)) > maxPayload
            then Inl ErrMalformed
            else Inr (event, n + unat len))))"

definition DecodeDatagram :: "bytes \<Rightarrow> int \<Rightarrow> wire_error + Event" where
  "DecodeDatagram src maxBytes =
     (if int (length src) > maxBytes then Inl ErrTooLarge
      else
        bind (decodeEvent src 0 False) (\<lambda>(event, used).
          if ev_Kind event \<noteq> UnreliableKind \<and> ev_Kind event \<noteq> SequencedKind
          then Inl ErrInvalidKind
          else
            bind (if ev_Kind event = SequencedKind
                  then bind (DecodeVarint (drop used src)) (\<lambda>(s, n).
                         Inr (event\<lparr>ev_Sequence := s\<rparr>, used + n))
                  else Inr (event, used)) (\<lambda>(event, used).
            bind (validateEvent event (ev_Kind event = SequencedKind)) (\<lambda>_.
              Inr (event\<lparr>ev_Payload := drop used src\<rparr>)))))"

text \<open>
  \<open>ReadReliableEventHeader\<close> reads the three header varints of a frame whose declared body length is
  \<open>len\<close>; it returns the event without payload and the payload length still to be read.
\<close>

definition ReadReliableEventHeader ::
  "reader option \<Rightarrow> u64 \<Rightarrow> int \<Rightarrow> wire_error + (Event \<times> nat \<times> reader)" where
  "ReadReliableEventHeader rd len maxPayload =
     (case rd of None \<Rightarrow> Inl ErrTooLarge
      | Some r \<Rightarrow>
         (if maxPayload < 0 \<or> len > uint64 (maxPayload + 32) then Inl ErrTooLarge
          else
            bind (ReadVarint r) (\<lambda>(kind, r).
            bind (ReadVarint r) (\<lambda>(channel, r).
            bind (ReadVarint r) (\<lambda>(messageType, r).
              let used = VarintLen kind + VarintLen channel + VarintLen messageType;
                  event = zero_Event\<lparr>ev_Kind := kind, ev_Channel := channel,
                                      ev_MessageType := messageType\<rparr> in
              if kind \<noteq> ReliableEventKind then Inl ErrInvalidKind
              else bind (validateEvent event False) (\<lambda>_.
                if of_nat used > len then Inl ErrTruncated
                else
                  (let payloadBytes = len - of_nat used in
                   if payloadBytes > uint64 maxPayload then Inl ErrTooLarge
                   else Inr (event, unat payloadBytes, r))))))))"

lemmas kind_defs = ReliableEventKind_def UnreliableKind_def SequencedKind_def
  RequestStreamKind_def CustomStreamKind_def

section \<open>Lemmas\<close>

lemma kinds_le_MaxVarint [simp]:
  "UnreliableKind \<le> MaxVarint" "SequencedKind \<le> MaxVarint" "ReliableEventKind \<le> MaxVarint"
  "RequestStreamKind \<le> MaxVarint" "CustomStreamKind \<le> MaxVarint"
  by (simp_all add: kind_defs MaxVarint_def)

lemma append_varints_Inr_iff:
  "append_varints dst vs = Inr out \<longleftrightarrow>
     (\<forall>v \<in> set vs. v \<le> MaxVarint) \<and> out = dst @ concat (map vb vs)"
  by (induction vs arbitrary: dst)
    (auto simp: AppendVarint_Inr_iff VarintLen_pos_iff)

lemma appendEvent_Inr_iff:
  "appendEvent dst ev sq = Inr out \<longleftrightarrow>
     ev_Kind ev \<le> MaxVarint \<and> ev_Channel ev \<le> MaxVarint \<and> ev_MessageType ev \<le> MaxVarint
     \<and> (sq \<longrightarrow> ev_Sequence ev \<le> MaxVarint)
     \<and> out = dst @ vb (ev_Kind ev) @ vb (ev_Channel ev) @ vb (ev_MessageType ev)
            @ (if sq then vb (ev_Sequence ev) else []) @ ev_Payload ev"
  by (auto simp: appendEvent_def append_varints_Inr_iff AppendVarint_Inr_iff VarintLen_pos_iff)

lemma validateEvent_Inr_iff:
  "validateEvent ev sq = Inr u \<longleftrightarrow>
     ev_Channel ev \<le> maxChannel \<and> ev_MessageType ev \<noteq> 0 \<and> ev_MessageType ev \<le> maxMessageType
     \<and> (sq \<longrightarrow> ev_Sequence ev \<noteq> 0)"
  by (auto simp: validateEvent_def not_less)

lemma limits_le_MaxVarint:
  "c \<le> maxChannel \<Longrightarrow> c \<le> MaxVarint" "t \<le> maxMessageType \<Longrightarrow> t \<le> MaxVarint"
  by (auto simp: maxChannel_def maxMessageType_def MaxVarint_def push_bit_eq_mult
      elim: order_trans)

lemma decodeEvent_parts:
  assumes "k \<le> MaxVarint" "c \<le> MaxVarint" "t \<le> MaxVarint" "ek = 0 \<or> k = ek"
  shows "decodeEvent (vb k @ vb c @ vb t @ p) ek False =
    Inr (\<lparr>ev_Kind = k, ev_Channel = c, ev_MessageType = t, ev_Sequence = 0, ev_Payload = p\<rparr>,
         length (vb k) + length (vb c) + length (vb t))"
  using assms by (auto simp: decodeEvent_def DecodeVarint_vb Let_def)

lemma decodeEvent_Inr:
  assumes "decodeEvent src ek False = Inr (ev, used)"
  shows "ev_Kind ev \<le> MaxVarint" "ev_Channel ev \<le> MaxVarint" "ev_MessageType ev \<le> MaxVarint"
    "ek = 0 \<or> ev_Kind ev = ek" "ev_Sequence ev = 0" "ev_Payload ev = drop used src"
    "src = vb (ev_Kind ev) @ vb (ev_Channel ev) @ vb (ev_MessageType ev) @ ev_Payload ev"
    "used = length (vb (ev_Kind ev)) + length (vb (ev_Channel ev)) + length (vb (ev_MessageType ev))"
proof -
  obtain k n1 c n2 t n3 where d: "DecodeVarint src = Inr (k, n1)"
    "DecodeVarint (drop n1 src) = Inr (c, n2)" "DecodeVarint (drop (n1 + n2) src) = Inr (t, n3)"
    "ek = 0 \<or> k = ek" "used = n1 + n2 + n3"
    "ev = \<lparr>ev_Kind = k, ev_Channel = c, ev_MessageType = t, ev_Sequence = 0, ev_Payload = drop used src\<rparr>"
    using assms by (auto simp: decodeEvent_def Let_def split: if_splits)
  note s1 = DecodeVarint_split [OF d(1)] and s2 = DecodeVarint_split [OF d(2)]
    and s3 = DecodeVarint_split [OF d(3)]
  have "src = vb k @ vb c @ vb t @ drop (n1 + n2 + n3) src"
    using s1(3) s2(3) s3(3) by (simp add: add.commute add.left_commute)
  with d s1 s2 s3 show "ev_Kind ev \<le> MaxVarint" "ev_Channel ev \<le> MaxVarint"
    "ev_MessageType ev \<le> MaxVarint" "ek = 0 \<or> ev_Kind ev = ek" "ev_Sequence ev = 0"
    "ev_Payload ev = drop used src"
    "src = vb (ev_Kind ev) @ vb (ev_Channel ev) @ vb (ev_MessageType ev) @ ev_Payload ev"
    "used = length (vb (ev_Kind ev)) + length (vb (ev_Channel ev)) + length (vb (ev_MessageType ev))"
    by simp_all
qed

lemma EncodeReliableEvent_Inr:
  assumes "EncodeReliableEvent ev m = Inr bs"
  obtains body where "body = vb ReliableEventKind @ vb (ev_Channel ev) @ vb (ev_MessageType ev) @ ev_Payload ev"
    "bs = vb (of_nat (length body)) @ body" "of_nat (length body) \<le> MaxVarint"
    "int (length body) \<le> wrap64 (m + 32)" "int (length (ev_Payload ev)) \<le> m" "0 \<le> m"
    "ev_Channel ev \<le> maxChannel" "ev_MessageType ev \<noteq> 0" "ev_MessageType ev \<le> maxMessageType"
  using assms
  by (auto simp: EncodeReliableEvent_def Let_def validateEvent_Inr_iff appendEvent_Inr_iff
      AppendVarint_Inr_iff VarintLen_pos_iff not_less split: if_splits)

definition reliable_norm :: "Event \<Rightarrow> Event" where
  "reliable_norm ev = ev\<lparr>ev_Kind := ReliableEventKind, ev_Sequence := 0\<rparr>"

lemma DecodeReliableEvent_encoded:
  assumes "EncodeReliableEvent ev m = Inr bs" "m \<in> int64_range"
  shows "DecodeReliableEvent (bs @ rest) m = Inr (reliable_norm ev, length bs)"
proof -
  obtain body where e: "body = vb ReliableEventKind @ vb (ev_Channel ev) @ vb (ev_MessageType ev) @ ev_Payload ev"
    "bs = vb (of_nat (length body)) @ body" "of_nat (length body) \<le> MaxVarint"
    "int (length body) \<le> wrap64 (m + 32)" "int (length (ev_Payload ev)) \<le> m" "0 \<le> m"
    "ev_Channel ev \<le> maxChannel" "ev_MessageType ev \<le> maxMessageType"
    using assms(1) by (rule EncodeReliableEvent_Inr) blast
  have m32: "wrap64 (m + 32) = m + 32"
    using assms(2) e by (intro wrap64_add_nonneg) auto
  then have "m + 32 < 2 ^ 63"
    using wrap64_range [of "m + 32"] by (simp add: int64_range_def)
  then have lim: "unat (uint64 (m + 32)) = nat (m + 32)"
    using e(6) by (intro unat_uint64) auto
  have "length body < 2 ^ 64"
    using e(4) m32 \<open>m + 32 < 2 ^ 63\<close> by simp
  then have len: "unat (of_nat (length body) :: u64) = length body"
    by (rule unat_of_nat_u64)
  have "\<not> (of_nat (length body) > uint64 (m + 32))"
    using e(4,6) m32 by (simp add: word_less_nat_alt lim len)
  moreover have "decodeEvent body ReliableEventKind False = Inr (reliable_norm ev,
      length (vb ReliableEventKind) + length (vb (ev_Channel ev)) + length (vb (ev_MessageType ev)))"
    unfolding e(1) by (subst decodeEvent_parts)
      (use e(7,8) in \<open>auto simp: limits_le_MaxVarint reliable_norm_def\<close>)
  ultimately show ?thesis
    using e(2,3,5) len
    by (simp add: DecodeReliableEvent_def DecodeVarint_vb Let_def reliable_norm_def) (simp add: e(1))
qed

lemma EncodeDatagram_Inr_iff:
  "EncodeDatagram ev m = Inr bs \<longleftrightarrow>
     (ev_Kind ev = UnreliableKind \<or> ev_Kind ev = SequencedKind) \<and> int (length bs) \<le> m
     \<and> validateEvent ev (ev_Kind ev = SequencedKind) = Inr ()
     \<and> appendEvent [] ev (ev_Kind ev = SequencedKind) = Inr bs"
  by (auto simp: EncodeDatagram_def not_less split: if_splits)

definition datagram_norm :: "Event \<Rightarrow> Event" where
  "datagram_norm ev = (if ev_Kind ev = SequencedKind then ev else ev\<lparr>ev_Sequence := 0\<rparr>)"

lemma DecodeDatagram_encoded:
  assumes "EncodeDatagram ev m = Inr bs"
  shows "DecodeDatagram bs m = Inr (datagram_norm ev)"
proof -
  let ?p = "(if ev_Kind ev = SequencedKind then vb (ev_Sequence ev) else []) @ ev_Payload ev"
  have e: "ev_Kind ev = UnreliableKind \<or> ev_Kind ev = SequencedKind" "int (length bs) \<le> m"
    "validateEvent ev (ev_Kind ev = SequencedKind) = Inr ()"
    "ev_Kind ev \<le> MaxVarint" "ev_Channel ev \<le> MaxVarint" "ev_MessageType ev \<le> MaxVarint"
    "ev_Kind ev = SequencedKind \<longrightarrow> ev_Sequence ev \<le> MaxVarint"
    "bs = vb (ev_Kind ev) @ vb (ev_Channel ev) @ vb (ev_MessageType ev) @ ?p"
    using assms by (auto simp: EncodeDatagram_Inr_iff appendEvent_Inr_iff)
  note dec = decodeEvent_parts [OF e(4-6), of 0 ?p, folded e(8)]
  show ?thesis
  proof (cases "ev_Kind ev = SequencedKind")
    case True
    have "drop (length (vb (ev_Kind ev)) + length (vb (ev_Channel ev)) + length (vb (ev_MessageType ev))) bs
      = vb (ev_Sequence ev) @ ev_Payload ev"
      using True by (simp add: e(8))
    then show ?thesis
      using True e dec
      by (simp add: DecodeDatagram_def DecodeVarint_vb datagram_norm_def validateEvent_def
          split: if_splits)
  next
    case False
    then show ?thesis
      using e dec by (simp add: DecodeDatagram_def datagram_norm_def validateEvent_def split: if_splits)
  qed
qed

lemma DecodeDatagram_canonical:
  assumes "DecodeDatagram bs m = Inr ev"
  shows "EncodeDatagram ev m = Inr bs"
proof -
  obtain d used where d: "decodeEvent bs 0 False = Inr (d, used)" "int (length bs) \<le> m"
    "ev_Kind d = UnreliableKind \<or> ev_Kind d = SequencedKind"
    using assms by (auto simp: DecodeDatagram_def not_less split: if_splits)
  note p = decodeEvent_Inr [OF d(1)]
  show ?thesis
  proof (cases "ev_Kind d = SequencedKind")
    case True
    with assms d obtain q n where q: "DecodeVarint (drop used bs) = Inr (q, n)"
      "validateEvent (d\<lparr>ev_Sequence := q\<rparr>) True = Inr ()"
      "ev = d\<lparr>ev_Sequence := q, ev_Payload := drop (used + n) bs\<rparr>"
      by (auto simp: DecodeDatagram_def split: if_splits)
    note qs = DecodeVarint_split [OF q(1)]
    have "ev_Payload d = vb q @ drop (used + n) bs"
      unfolding p(6) by (subst qs(3)) (simp add: add.commute)
    with p(7) have "bs = vb (ev_Kind d) @ vb (ev_Channel d) @ vb (ev_MessageType d) @ vb q @ drop (used + n) bs"
      by (simp only:)
    with True p q qs d(2) show ?thesis
      by (simp add: EncodeDatagram_Inr_iff appendEvent_Inr_iff validateEvent_def split: if_splits)
  next
    case False
    with assms d have "validateEvent d False = Inr ()" "ev = d\<lparr>ev_Payload := drop used bs\<rparr>"
      by (auto simp: DecodeDatagram_def split: if_splits)
    with False p d(2,3) show ?thesis
      by (simp add: EncodeDatagram_Inr_iff appendEvent_Inr_iff validateEvent_def split: if_splits)
  qed
qed

section \<open>The codecs keep their contracts\<close>

interpretation reliable: prefix_codec "\<lambda>ev. EncodeReliableEvent ev (wrap64 m)"
  "\<lambda>src. DecodeReliableEvent src (wrap64 m)" reliable_norm for m
  by unfold_locales (rule DecodeReliableEvent_encoded [OF _ wrap64_range])

interpretation datagram: canonical_codec "\<lambda>ev. EncodeDatagram ev m"
  "\<lambda>src. DecodeDatagram src m" datagram_norm for m
  by unfold_locales (auto intro: DecodeDatagram_encoded DecodeDatagram_canonical)

section \<open>The streaming header reader\<close>

lemma ReadReliableEventHeader_encoded:
  assumes "EncodeReliableEvent ev m = Inr bs" "m \<in> int64_range"
  shows "\<exists>len. ReadVarint (Reader (bs @ rest) e)
      = Inr (len, Reader (vb ReliableEventKind @ vb (ev_Channel ev) @ vb (ev_MessageType ev)
                          @ ev_Payload ev @ rest) e)
    \<and> len \<le> uint64 (m + 32)
    \<and> ReadReliableEventHeader (Some (Reader (vb ReliableEventKind @ vb (ev_Channel ev)
          @ vb (ev_MessageType ev) @ ev_Payload ev @ rest) e)) len m
      = Inr ((reliable_norm ev)\<lparr>ev_Payload := []\<rparr>, length (ev_Payload ev),
             Reader (ev_Payload ev @ rest) e)"
proof -
  obtain body where b: "body = vb ReliableEventKind @ vb (ev_Channel ev) @ vb (ev_MessageType ev) @ ev_Payload ev"
    "bs = vb (of_nat (length body)) @ body" "of_nat (length body) \<le> MaxVarint"
    "int (length body) \<le> wrap64 (m + 32)" "int (length (ev_Payload ev)) \<le> m" "0 \<le> m"
    "ev_Channel ev \<le> maxChannel" "ev_MessageType ev \<noteq> 0" "ev_MessageType ev \<le> maxMessageType"
    using assms(1) by (rule EncodeReliableEvent_Inr)
  let ?h = "VarintLen ReliableEventKind + VarintLen (ev_Channel ev) + VarintLen (ev_MessageType ev)"
  have m32: "wrap64 (m + 32) = m + 32"
    using assms(2) b(4,6) by (intro wrap64_add_nonneg) auto
  then have bound: "m + 32 < 2 ^ 63"
    using wrap64_range [of "m + 32"] by (simp add: int64_range_def)
  then have lim: "unat (uint64 (m + 32)) = nat (m + 32)" "unat (uint64 m) = nat m"
    using b(6) by (auto intro!: unat_uint64)
  have lb: "length body = ?h + length (ev_Payload ev)"
    by (simp add: b(1) length_varint_bytes)
  have "length body < 2 ^ 64"
    using b(4) m32 bound by simp
  then have len: "unat (of_nat (length body) :: u64) = length body"
    and hd: "unat (of_nat ?h :: u64) = ?h"
    using lb by (auto simp only: intro!: unat_of_nat_u64)
  have le: "of_nat ?h \<le> (of_nat (length body) :: u64)"
    unfolding word_le_nat_alt len hd by (simp only: lb le_add1)
  then have pay: "unat (of_nat (length body) - of_nat ?h :: u64) = length (ev_Payload ev)"
    unfolding unat_sub [OF le] len hd by (simp only: lb add_diff_cancel_left')
  have "ReadVarint (Reader (bs @ rest) e) = Inr (of_nat (length body), Reader (body @ rest) e)"
    using b(2,3) by (simp add: ReadVarint_vb)
  moreover have "of_nat (length body) \<le> uint64 (m + 32)"
    using b(4,6) m32 by (simp add: word_le_nat_alt lim len)
  moreover have "\<not> of_nat ?h > (of_nat (length body) :: u64)"
    using le by simp
  moreover have "\<not> (of_nat (length body) - of_nat ?h :: u64) > uint64 m"
    using b(5,6) by (simp only: word_less_nat_alt pay lim)
  ultimately show ?thesis
    using b(6-9) pay
    by (intro exI [of _ "of_nat (length body)"])
      (simp add: ReadReliableEventHeader_def ReadVarint_vb limits_le_MaxVarint Let_def b(1)
        validateEvent_def reliable_norm_def zero_Event_def not_less del: of_nat_add)
qed

section \<open>Properties\<close>

definition ev_reliable :: Event where
  "ev_reliable = \<lparr>ev_Kind = 0, ev_Channel = 1, ev_MessageType = 10, ev_Sequence = 0, ev_Payload = [0xaa, 0xbb]\<rparr>"

definition ev_sequenced :: Event where
  "ev_sequenced = \<lparr>ev_Kind = 3, ev_Channel = 1, ev_MessageType = 10, ev_Sequence = 2, ev_Payload = [0xaa, 0xbb]\<rparr>"

lemmas eval_defs = kind_defs maxChannel_def maxMessageType_def MaxVarint_def VarintLen_def
  AppendVarint_def DecodeVarint_def varint_bytes_def appendEvent_def validateEvent_def Let_def
  push_bit_eq_mult drop_bit_eq_div uint64_def wrap64_def

text \<open>
  Framing: the frames of a list of reliable events, encoded one after the other onto a stream and followed by
  anything, decode in order to the same events, with nothing of what follows consumed (a decoded event has the
  reliable kind and no sequence number). The receiver's incremental path reads the same: \<open>ReadVarint\<close> returns a
  length within the configured bound, \<open>ReadReliableEventHeader\<close> the event's fields and the exact payload length, reading
  that many bytes gives the payload, and the stream is left at the next frame.
\<close>

theorem reliable_stream_framing:
  assumes "m \<in> int64_range"
  shows "(encode_frames (\<lambda>ev. EncodeReliableEvent ev m) evs = Inr bs \<longrightarrow>
      decode_frames (\<lambda>src. DecodeReliableEvent src m) (length evs) (bs @ rest) = Inr (map reliable_norm evs, rest))
    \<and> (EncodeReliableEvent ev m = Inr frame \<longrightarrow>
        (\<exists>len r1 r2. ReadVarint (Reader (frame @ rest) e) = Inr (len, r1) \<and> len \<le> uint64 (m + 32)
          \<and> ReadReliableEventHeader (Some r1) len m
              = Inr ((reliable_norm ev)\<lparr>ev_Payload := []\<rparr>, length (ev_Payload ev), r2)
          \<and> ReadFull r2 (length (ev_Payload ev)) = Inr (ev_Payload ev, Reader rest e)))"
proof (intro conjI impI)
  assume "encode_frames (\<lambda>ev. EncodeReliableEvent ev m) evs = Inr bs"
  then show "decode_frames (\<lambda>src. DecodeReliableEvent src m) (length evs) (bs @ rest) = Inr (map reliable_norm evs, rest)"
    using reliable.decode_encoded_frames [of m evs bs rest] assms by (simp add: wrap64_id)
next
  assume "EncodeReliableEvent ev m = Inr frame"
  then show "\<exists>len r1 r2. ReadVarint (Reader (frame @ rest) e) = Inr (len, r1) \<and> len \<le> uint64 (m + 32)
    \<and> ReadReliableEventHeader (Some r1) len m
        = Inr ((reliable_norm ev)\<lparr>ev_Payload := []\<rparr>, length (ev_Payload ev), r2)
    \<and> ReadFull r2 (length (ev_Payload ev)) = Inr (ev_Payload ev, Reader rest e)"
    using ReadReliableEventHeader_encoded [OF _ assms, of ev frame rest e] by (fastforce simp: ReadFull_def)
qed

theorem reliable_stream_framing_witness:
  "decode_frames (\<lambda>src. DecodeReliableEvent src 16) (length [ev_reliable, ev_reliable])
     ([5, 1, 1, 10, 0xaa, 0xbb, 5, 1, 1, 10, 0xaa, 0xbb] @ [9])
   = Inr (map reliable_norm [ev_reliable, ev_reliable], [9])
   \<and> (\<exists>len r1 r2. ReadVarint (Reader ([5, 1, 1, 10, 0xaa, 0xbb] @ [9]) EOF) = Inr (len, r1)
        \<and> ReadReliableEventHeader (Some r1) len 16
            = Inr ((reliable_norm ev_reliable)\<lparr>ev_Payload := []\<rparr>, length (ev_Payload ev_reliable), r2))"
proof -
  have frames: "encode_frames (\<lambda>ev. EncodeReliableEvent ev 16) [ev_reliable, ev_reliable]
      = Inr [5, 1, 1, 10, 0xaa, 0xbb, 5, 1, 1, 10, 0xaa, 0xbb]"
    "EncodeReliableEvent ev_reliable 16 = Inr [5, 1, 1, 10, 0xaa, 0xbb]"
    by (simp_all add: EncodeReliableEvent_def ev_reliable_def eval_defs)
  have "(16 :: int) \<in> int64_range"
    by (simp add: int64_range_def)
  from reliable_stream_framing [OF this, of "[ev_reliable, ev_reliable]" _ "[9]" ev_reliable _ EOF] frames show ?thesis
    by blast
qed

text \<open>
  Datagrams are a bijection: \<open>DecodeDatagram\<close> accepts exactly the byte strings
  \<open>EncodeDatagram\<close> produces, and returns the event that was encoded (an unsequenced event carries
  sequence number zero), so every malformed, oversized or non-canonical datagram is refused.
\<close>

theorem datagram_bijection:
  "DecodeDatagram bs m = Inr ev \<longleftrightarrow>
     EncodeDatagram ev m = Inr bs \<and> (ev_Kind ev = SequencedKind \<or> ev_Sequence ev = 0)"
proof
  assume dec: "DecodeDatagram bs m = Inr ev"
  then have "datagram_norm ev = ev"
    by (rule datagram.norm_decoded)
  then have "ev_Kind ev = SequencedKind \<or> ev_Sequence ev = 0"
    by (cases ev) (auto simp: datagram_norm_def split: if_splits)
  with datagram.enc_dec [OF dec]
  show "EncodeDatagram ev m = Inr bs \<and> (ev_Kind ev = SequencedKind \<or> ev_Sequence ev = 0)"
    by blast
next
  assume "EncodeDatagram ev m = Inr bs \<and> (ev_Kind ev = SequencedKind \<or> ev_Sequence ev = 0)"
  then show "DecodeDatagram bs m = Inr ev"
    using datagram.dec_enc [of ev m bs] by (cases ev) (auto simp: datagram_norm_def split: if_splits)
qed

end
