(* ===== verification/Channels.thy ===== *)
theory Channels
  imports Directional Events "HOL-Library.Sublist"
begin

text \<open>
  The channels and slots of one connection (\<open>connectionOperations\<close> in \<open>endpoint.go\<close>): outbound and
  inbound channel bindings, sequence numbers of sequenced datagrams, request and stream slots, \<open>send\<close>
  and the receiver of datagrams. The maps \<open>outbound\<close> and \<open>inbound\<close> are association lists with one
  entry per channel (the source counts their entries). The transport is an argument: what opening a
  stream, writing to one and sending a datagram return. Observations and drop counters are left out.
\<close>

section \<open>State\<close>

record channels =
  ch_limits :: Limits
  ch_peer :: limitMessage
  ch_outbound :: "(ChannelID \<times> Delivery) list"
  ch_inbound :: "(ChannelID \<times> Delivery) list"
  ch_reliable :: "ChannelID \<rightharpoonup> pointer"
  ch_sequences :: "ChannelID \<Rightarrow> u64"
  ch_received :: "ChannelID \<Rightarrow> u64"
  ch_inRequests :: int
  ch_outRequests :: int
  ch_inStreams :: int
  ch_outStreams :: int

definition newChannels :: "Limits \<Rightarrow> limitMessage \<Rightarrow> channels" where
  "newChannels limits peer = \<lparr>ch_limits = limits, ch_peer = peer, ch_outbound = [], ch_inbound = [],
     ch_reliable = Map.empty, ch_sequences = (\<lambda>_. 0), ch_received = (\<lambda>_. 0), ch_inRequests = 0, ch_outRequests = 0,
     ch_inStreams = 0, ch_outStreams = 0\<rparr>"

text \<open>The transport calls of \<open>send\<close>.\<close>

record transport =
  tr_openUni :: "error + pointer"
  tr_write :: "pointer \<Rightarrow> bytes \<Rightarrow> error option"
  tr_sendDatagram :: "bytes \<Rightarrow> error option"

section \<open>Bindings\<close>

text \<open>The number of bound channels of the delivery's class: reliable, or one of the two datagram kinds.\<close>

definition class_count :: "(ChannelID \<times> Delivery) list \<Rightarrow> Delivery \<Rightarrow> int" where
  "class_count bound delivery =
     int (length (filter (\<lambda>(_, b). (b = ReliableOrdered) = (delivery = ReliableOrdered)) bound))"

definition outbound_limit :: "channels \<Rightarrow> Delivery \<Rightarrow> int" where
  "outbound_limit c delivery =
     (if delivery = ReliableOrdered
      then minimumAdvertisedLimit (ReliableChannels (ch_limits c)) (lm_ReliableChannels (ch_peer c))
      else minimumAdvertisedLimit (DatagramChannels (ch_limits c)) (lm_DatagramChannels (ch_peer c)))"

definition bindOutbound :: "channels \<Rightarrow> ChannelID \<Rightarrow> Delivery \<Rightarrow> error option \<times> channels" where
  "bindOutbound c channel delivery =
     (case map_of (ch_outbound c) channel of
        Some bound \<Rightarrow> (if bound \<noteq> delivery then Some ErrInvalidArgument else None, c)
      | None \<Rightarrow>
          if class_count (ch_outbound c) delivery \<ge> outbound_limit c delivery then (Some ErrResourceExhausted, c)
          else (None, c\<lparr>ch_outbound := (channel, delivery) # ch_outbound c\<rparr>))"

definition inbound_limit :: "channels \<Rightarrow> Delivery \<Rightarrow> int" where
  "inbound_limit c delivery =
     (if delivery = ReliableOrdered then ReliableChannels (ch_limits c) else DatagramChannels (ch_limits c))"

definition bindInbound :: "channels \<Rightarrow> ChannelID \<Rightarrow> Delivery \<Rightarrow> bool \<times> channels" where
  "bindInbound c channel delivery =
     (case map_of (ch_inbound c) channel of
        Some bound \<Rightarrow> (bound = delivery \<and> delivery \<noteq> ReliableOrdered, c)
      | None \<Rightarrow>
          if class_count (ch_inbound c) delivery \<ge> inbound_limit c delivery then (False, c)
          else (True, c\<lparr>ch_inbound := (channel, delivery) # ch_inbound c\<rparr>))"

text \<open>\<open>bindReliableSender\<close>; the result also says which bytes were written to which stream.\<close>

definition bindReliableSender :: "transport \<Rightarrow> channels \<Rightarrow> ChannelID \<Rightarrow>
  (error + pointer) \<times> channels \<times> (pointer \<times> bytes) list" where
  "bindReliableSender t c channel =
     (case bindOutbound c channel ReliableOrdered of
        (Some err, c) \<Rightarrow> (Inl err, c, [])
      | (None, c) \<Rightarrow>
          (case ch_reliable c channel of
             Some stream \<Rightarrow> (Inr stream, c, [])
           | None \<Rightarrow>
               (case tr_openUni t of
                  Inl err \<Rightarrow> (Inl err, c, [])
                | Inr stream \<Rightarrow>
                    (case EncodeReliableChannelHeaderFor (ucast channel) of
                       Inl err \<Rightarrow> (Inl (mapWireError (WireError err)), c, [])
                     | Inr header \<Rightarrow>
                         (case tr_write t stream header of
                            Some err \<Rightarrow> (Inl err, c, [])
                          | None \<Rightarrow> (Inr stream, c\<lparr>ch_reliable := (ch_reliable c)(channel \<mapsto> stream)\<rparr>, [(stream, header)]))))))"

section \<open>Slots\<close>

definition acquireRequest :: "channels \<Rightarrow> bool \<Rightarrow> bool \<times> channels" where
  "acquireRequest c inbound =
     (let limit = (if inbound then Requests (ch_limits c)
                   else minimumAdvertisedLimit (Requests (ch_limits c)) (lm_Requests (ch_peer c))) in
      if inbound
      then (if ch_inRequests c \<ge> limit then (False, c) else (True, c\<lparr>ch_inRequests := ch_inRequests c + 1\<rparr>))
      else (if ch_outRequests c \<ge> limit then (False, c) else (True, c\<lparr>ch_outRequests := ch_outRequests c + 1\<rparr>)))"

definition acquireStream :: "channels \<Rightarrow> bool \<Rightarrow> bool \<times> channels" where
  "acquireStream c inbound =
     (let limit = (if inbound then Streams (ch_limits c)
                   else minimumAdvertisedLimit (Streams (ch_limits c)) (lm_Streams (ch_peer c))) in
      if inbound
      then (if ch_inStreams c \<ge> limit then (False, c) else (True, c\<lparr>ch_inStreams := ch_inStreams c + 1\<rparr>))
      else (if ch_outStreams c \<ge> limit then (False, c) else (True, c\<lparr>ch_outStreams := ch_outStreams c + 1\<rparr>)))"

text \<open>The closures the two operations return; each is called at most once.\<close>

definition releaseRequest :: "channels \<Rightarrow> bool \<Rightarrow> channels" where
  "releaseRequest c inbound =
     (if inbound then c\<lparr>ch_inRequests := ch_inRequests c - 1\<rparr> else c\<lparr>ch_outRequests := ch_outRequests c - 1\<rparr>)"

definition releaseStream :: "channels \<Rightarrow> bool \<Rightarrow> channels" where
  "releaseStream c inbound =
     (if inbound then c\<lparr>ch_inStreams := ch_inStreams c - 1\<rparr> else c\<lparr>ch_outStreams := ch_outStreams c - 1\<rparr>)"

section \<open>Sending\<close>

text \<open>What left the connection: bytes on a stream, or a datagram.\<close>

datatype sent = OnStream pointer bytes | AsDatagram bytes

text \<open>The two halves of \<open>send\<close> once the outgoing bytes are reserved.\<close>

definition send_reliable :: "transport \<Rightarrow> int \<Rightarrow> channels \<Rightarrow> MessageType \<Rightarrow> bytes \<Rightarrow> ChannelID \<Rightarrow>
  error option \<times> channels \<times> sent list" where
  "send_reliable t limit c typ payload channel =
     (case EncodeReliableEvent \<lparr>ev_Kind = 0, ev_Channel = ucast channel, ev_MessageType = ucast typ, ev_Sequence = 0,
             ev_Payload = payload\<rparr> limit of
        Inl err \<Rightarrow> (Some (mapWireError (WireError err)), c, [])
      | Inr frame \<Rightarrow>
          (case bindReliableSender t c channel of
             (Inl err, c, written) \<Rightarrow> (Some err, c, map (case_prod OnStream) written)
           | (Inr stream, c, written) \<Rightarrow>
               (case tr_write t stream frame of
                  Some err \<Rightarrow> (Some err, c, map (case_prod OnStream) written)
                | None \<Rightarrow> (None, c, map (case_prod OnStream) written @ [OnStream stream frame]))))"

definition send_datagram :: "transport \<Rightarrow> int \<Rightarrow> channels \<Rightarrow> MessageType \<Rightarrow> bytes \<Rightarrow> SendOptions \<Rightarrow>
  error option \<times> channels \<times> sent list" where
  "send_datagram t limit c typ payload options =
     (case bindOutbound c (so_Channel options) (so_Delivery options) of
        (Some err, c) \<Rightarrow> (Some err, c, [])
      | (None, c) \<Rightarrow>
          (let sequenced = (so_Delivery options = UnreliableSequenced);
               sequence = (if sequenced then ch_sequences c (so_Channel options) + 1 else 0);
               kind = (if sequenced then SequencedKind else UnreliableKind);
               c = (if sequenced then c\<lparr>ch_sequences := (ch_sequences c)(so_Channel options := sequence)\<rparr> else c) in
           case EncodeDatagram \<lparr>ev_Kind = kind, ev_Channel = ucast (so_Channel options), ev_MessageType = ucast typ,
                  ev_Sequence = sequence, ev_Payload = payload\<rparr> limit of
             Inl err \<Rightarrow> (Some (mapWireError (WireError err)), c, [])
           | Inr datagram \<Rightarrow>
               (case tr_sendDatagram t datagram of
                  Some err \<Rightarrow> (Some err, c, [])
                | None \<Rightarrow> (None, c, [AsDatagram datagram]))))"

text \<open>\<open>send\<close>: the reservation is released when the call returns.\<close>

definition send_op :: "transport \<Rightarrow> bool \<Rightarrow> int \<Rightarrow> int \<Rightarrow> direction \<Rightarrow> channels \<Rightarrow> MessageType \<Rightarrow> bytes \<Rightarrow> SendOptions \<Rightarrow>
  (error option \<times> channels \<times> sent list \<times> direction) option" where
  "send_op t current messageLimit datagramLimit d c typ payload options =
     (if \<not> current then Some (Some ErrSessionSuspended, c, [], d)
      else
        (case reserveDirectionalBytes d (int (length payload) + 32) of
           (Inl err, d) \<Rightarrow> Some (Some err, c, [], d)
         | (Inr charge, d) \<Rightarrow>
             (let (err, c, out) = (if so_Delivery options = ReliableOrdered
                then send_reliable t messageLimit c typ payload (so_Channel options)
                else send_datagram t datagramLimit c typ payload options) in
              map_option (\<lambda>d. (err, c, out, d)) (release_directional d charge))))"

section \<open>Receiving datagrams\<close>

text \<open>What one iteration of \<open>receiveDatagrams\<close> does with a datagram; \<open>allowed\<close> is the rate limiter's answer.\<close>

datatype datagram_outcome = DropInvalid | DropRate | CloseViolation | DropStale | DeliverEvent Event

definition receive_datagram :: "bool \<Rightarrow> channels \<Rightarrow> bytes \<Rightarrow> datagram_outcome \<times> channels" where
  "receive_datagram allowed c payload =
     (case DecodeDatagram payload (DatagramBytes (ch_limits c)) of
        Inl _ \<Rightarrow> (DropInvalid, c)
      | Inr event \<Rightarrow>
          if \<not> allowed then (DropRate, c)
          else
            (let channel = ucast (ev_Channel event) :: ChannelID;
                 delivery = (if ev_Kind event = SequencedKind then UnreliableSequenced else Unreliable) in
             case bindInbound c channel delivery of
               (False, c) \<Rightarrow> (CloseViolation, c)
             | (True, c) \<Rightarrow>
                 if ev_Kind event = SequencedKind
                 then (if ev_Sequence event \<le> ch_received c channel then (DropStale, c)
                       else (DeliverEvent event, c\<lparr>ch_received := (ch_received c)(channel := ev_Sequence event)\<rparr>))
                 else (DeliverEvent event, c)))"

text \<open>\<open>receiveDatagrams\<close> over the datagrams that arrive, in any order; a violation ends the loop.\<close>

fun receiveDatagrams :: "channels \<Rightarrow> (bool \<times> bytes) list \<Rightarrow> Event list \<times> channels" where
  "receiveDatagrams c [] = ([], c)"
| "receiveDatagrams c ((allowed, payload) # rest) =
     (case receive_datagram allowed c payload of
        (CloseViolation, c') \<Rightarrow> ([], c')
      | (DeliverEvent event, c') \<Rightarrow> (let (events, c'') = receiveDatagrams c' rest in (event # events, c''))
      | (_, c') \<Rightarrow> receiveDatagrams c' rest)"

section \<open>Invariant\<close>

definition channels_inv :: "channels \<Rightarrow> bool" where
  "channels_inv c \<longleftrightarrow>
     distinct (map fst (ch_outbound c)) \<and> distinct (map fst (ch_inbound c))
     \<and> (\<forall>delivery. class_count (ch_outbound c) delivery \<le> max 0 (outbound_limit c delivery))
     \<and> (\<forall>delivery. class_count (ch_inbound c) delivery \<le> max 0 (inbound_limit c delivery))
     \<and> (\<forall>channel stream. ch_reliable c channel = Some stream \<longrightarrow> map_of (ch_outbound c) channel = Some ReliableOrdered)"

lemma limit_updates [simp]:
  "outbound_limit (c\<lparr>ch_outbound := x\<rparr>) d = outbound_limit c d" "outbound_limit (c\<lparr>ch_inbound := x\<rparr>) d = outbound_limit c d"
  "inbound_limit (c\<lparr>ch_outbound := x\<rparr>) d = inbound_limit c d" "inbound_limit (c\<lparr>ch_inbound := x\<rparr>) d = inbound_limit c d"
  "outbound_limit (c\<lparr>ch_received := r\<rparr>) d = outbound_limit c d" "inbound_limit (c\<lparr>ch_received := r\<rparr>) d = inbound_limit c d"
  "outbound_limit (c\<lparr>ch_sequences := r\<rparr>) d = outbound_limit c d" "inbound_limit (c\<lparr>ch_sequences := r\<rparr>) d = inbound_limit c d"
  "outbound_limit (c\<lparr>ch_reliable := m\<rparr>) d = outbound_limit c d" "inbound_limit (c\<lparr>ch_reliable := m\<rparr>) d = inbound_limit c d"
  by (simp_all add: outbound_limit_def inbound_limit_def)

lemma class_count_Cons:
  "class_count ((ch, b) # bound) d = class_count bound d + of_bool ((b = ReliableOrdered) = (d = ReliableOrdered))"
  by (simp add: class_count_def)

lemma class_count_cong:
  "(d = ReliableOrdered) = (d' = ReliableOrdered) \<Longrightarrow> class_count bound d = class_count bound d'"
  by (simp add: class_count_def)

lemma bindOutbound_inv:
  assumes "channels_inv c" "bindOutbound c channel delivery = (err, c')"
  shows "channels_inv c'"
proof (cases "c' = c")
  case False
  with assms(2) have c': "c' = c\<lparr>ch_outbound := (channel, delivery) # ch_outbound c\<rparr>"
      "map_of (ch_outbound c) channel = None" "class_count (ch_outbound c) delivery < outbound_limit c delivery"
    by (auto simp: bindOutbound_def split: option.splits if_splits)
  have "class_count ((channel, delivery) # ch_outbound c) d \<le> max 0 (outbound_limit c d)" for d
  proof (cases "(delivery = ReliableOrdered) = (d = ReliableOrdered)")
    case True
    then have "outbound_limit c d = outbound_limit c delivery"
      "class_count (ch_outbound c) d = class_count (ch_outbound c) delivery"
      by (auto simp: outbound_limit_def intro: class_count_cong)
    with c'(3) show ?thesis by (auto simp: class_count_Cons)
  next
    case False
    with assms(1) show ?thesis by (simp add: channels_inv_def class_count_Cons)
  qed
  moreover have "map_of ((channel, delivery) # ch_outbound c) ch = Some ReliableOrdered" if "ch_reliable c ch = Some stream" for ch stream
    using assms(1) c'(2) that by (auto simp: channels_inv_def)
  ultimately show ?thesis
    using assms(1) c' by (simp add: channels_inv_def map_of_eq_None_iff)
qed (use assms in simp)

lemma bindInbound_inv:
  assumes "channels_inv c" "bindInbound c channel delivery = (ok, c')"
  shows "channels_inv c'"
proof (cases "c' = c")
  case False
  with assms(2) have c': "c' = c\<lparr>ch_inbound := (channel, delivery) # ch_inbound c\<rparr>"
      "map_of (ch_inbound c) channel = None" "class_count (ch_inbound c) delivery < inbound_limit c delivery"
    by (auto simp: bindInbound_def split: option.splits if_splits)
  have "class_count ((channel, delivery) # ch_inbound c) d \<le> max 0 (inbound_limit c d)" for d
  proof (cases "(delivery = ReliableOrdered) = (d = ReliableOrdered)")
    case True
    then have "inbound_limit c d = inbound_limit c delivery"
      "class_count (ch_inbound c) d = class_count (ch_inbound c) delivery"
      by (auto simp: inbound_limit_def intro: class_count_cong)
    with c'(3) show ?thesis by (auto simp: class_count_Cons)
  next
    case False
    with assms(1) show ?thesis by (simp add: channels_inv_def class_count_Cons)
  qed
  with assms(1) c' show ?thesis
    by (simp add: channels_inv_def map_of_eq_None_iff)
qed (use assms in simp)

lemma bindOutbound_reliable:
  "bindOutbound c channel delivery = (err, c') \<Longrightarrow> ch_reliable c' = ch_reliable c \<and> (err = None \<longrightarrow> map_of (ch_outbound c') channel = Some delivery)"
  by (auto simp: bindOutbound_def split: option.splits if_splits)

lemma bindReliableSender_outbound:
  assumes "bindReliableSender t c channel = (r, c', w)"
  shows "\<exists>err c1. bindOutbound c channel ReliableOrdered = (err, c1)
    \<and> (c' = c1 \<or> (\<exists>stream. err = None \<and> ch_reliable c1 channel = None \<and> c' = c1\<lparr>ch_reliable := (ch_reliable c1)(channel \<mapsto> stream)\<rparr>))"
proof -
  obtain err c1 where "bindOutbound c channel ReliableOrdered = (err, c1)"
    by fastforce
  then show ?thesis
    using assms by (auto simp: bindReliableSender_def split: option.splits sum.splits)
qed

text \<open>What the connection does to its bindings.\<close>

inductive channel_step :: "channels \<Rightarrow> channels \<Rightarrow> bool" where
  sends: "send_op t current ml dl d c typ payload options = Some (err, c', out, d') \<Longrightarrow> channel_step c c'"
| receives: "receive_datagram allowed c payload = (out, c') \<Longrightarrow> channel_step c c'"
| accepts: "bindInbound c channel ReliableOrdered = (ok, c') \<Longrightarrow> channel_step c c'"

text \<open>Bindings and streams are only ever added; the slots are left alone.\<close>

definition bindings_kept :: "channels \<Rightarrow> channels \<Rightarrow> bool" where
  "bindings_kept c c' \<longleftrightarrow> map_of (ch_outbound c) \<subseteq>\<^sub>m map_of (ch_outbound c') \<and> map_of (ch_inbound c) \<subseteq>\<^sub>m map_of (ch_inbound c')
     \<and> ch_reliable c \<subseteq>\<^sub>m ch_reliable c' \<and> ch_limits c' = ch_limits c \<and> ch_peer c' = ch_peer c
     \<and> ch_inRequests c' = ch_inRequests c \<and> ch_outRequests c' = ch_outRequests c \<and> ch_inStreams c' = ch_inStreams c \<and> ch_outStreams c' = ch_outStreams c"

lemma bindings_kept_refl [simp]: "bindings_kept c c"
  by (simp add: bindings_kept_def)

lemma bindings_kept_trans: "bindings_kept a b \<Longrightarrow> bindings_kept b c \<Longrightarrow> bindings_kept a c"
  by (auto simp: bindings_kept_def intro: map_le_trans)

lemma bindOutbound_kept: "bindOutbound c ch d = (err, c') \<Longrightarrow> bindings_kept c c'"
  by (auto simp: bindOutbound_def bindings_kept_def map_le_def split: option.splits if_splits)

lemma bindInbound_kept: "bindInbound c ch d = (ok, c') \<Longrightarrow> bindings_kept c c'"
  by (auto simp: bindInbound_def bindings_kept_def map_le_def split: option.splits if_splits)

lemma unrelated_updates [simp]:
  "channels_inv (c\<lparr>ch_sequences := f\<rparr>) = channels_inv c" "channels_inv (c\<lparr>ch_received := f\<rparr>) = channels_inv c"
  "bindings_kept a (c\<lparr>ch_sequences := f\<rparr>) = bindings_kept a c"
  "bindings_kept a (c\<lparr>ch_received := f\<rparr>) = bindings_kept a c"
  by (simp_all add: channels_inv_def bindings_kept_def)

lemma send_reliable_ok:
  assumes "send_reliable t limit c typ payload channel = (err, c', out)" "channels_inv c"
  shows "channels_inv c' \<and> bindings_kept c c'"
proof -
  obtain r c1 w where bind: "bindReliableSender t c channel = (r, c1, w)"
    using prod_cases3 by blast
  obtain e c2 where out: "bindOutbound c channel ReliableOrdered = (e, c2)"
      and c1: "c1 = c2 \<or> (\<exists>stream. e = None \<and> ch_reliable c2 channel = None \<and> c1 = c2\<lparr>ch_reliable := (ch_reliable c2)(channel \<mapsto> stream)\<rparr>)"
    using bindReliableSender_outbound [OF bind] by blast
  have "channels_inv c2" "bindings_kept c c2"
    using bindOutbound_inv [OF assms(2) out] bindOutbound_kept [OF out] .
  then have "channels_inv c1 \<and> bindings_kept c c1"
    using c1 bindOutbound_reliable [OF out] by (auto simp: channels_inv_def bindings_kept_def map_le_def split: if_splits)
  moreover have "c' \<in> {c, c1}"
    using assms(1) bind by (auto simp: send_reliable_def split: sum.splits option.splits)
  ultimately show ?thesis
    using assms(2) by auto
qed

lemma send_datagram_ok:
  assumes "send_datagram t limit c typ payload options = (err, c', out)" "channels_inv c"
  shows "channels_inv c' \<and> bindings_kept c c'"
proof -
  obtain e c1 where bind: "bindOutbound c (so_Channel options) (so_Delivery options) = (e, c1)"
    by fastforce
  have "channels_inv c1 \<and> bindings_kept c c1"
    using bindOutbound_inv [OF assms(2) bind] bindOutbound_kept [OF bind] by simp
  moreover have "c' = c1 \<or> (\<exists>f. c' = c1\<lparr>ch_sequences := f\<rparr>)"
    using assms(1) bind
    by (auto simp: send_datagram_def Let_def split: option.splits sum.splits if_splits)
  ultimately show ?thesis
    by auto
qed

lemma receive_datagram_ok:
  assumes "receive_datagram allowed c payload = (out, c')" "channels_inv c"
  shows "channels_inv c' \<and> bindings_kept c c'"
proof (cases "\<exists>event. DecodeDatagram payload (DatagramBytes (ch_limits c)) = Inr event \<and> allowed")
  case True
  then obtain event where dec: "DecodeDatagram payload (DatagramBytes (ch_limits c)) = Inr event" allowed
    by blast
  define delivery :: Delivery where "delivery = (if ev_Kind event = SequencedKind then UnreliableSequenced else Unreliable)"
  obtain ok c1 where bind: "bindInbound c (ucast (ev_Channel event)) delivery = (ok, c1)"
    by fastforce
  have "channels_inv c1 \<and> bindings_kept c c1"
    using bindInbound_inv [OF assms(2) bind] bindInbound_kept [OF bind] by simp
  moreover have "c' = c1 \<or> (\<exists>f. c' = c1\<lparr>ch_received := f\<rparr>)"
    using assms(1) dec bind
    by (auto simp: receive_datagram_def Let_def delivery_def [symmetric] split: bool.splits if_splits)
  ultimately show ?thesis
    by auto
next
  case False
  with assms show ?thesis
    by (auto simp: receive_datagram_def split: sum.splits)
qed

lemma channel_step_ok: "channel_step c c' \<Longrightarrow> channels_inv c \<Longrightarrow> channels_inv c' \<and> bindings_kept c c'"
proof (induction rule: channel_step.induct)
  case (sends t current ml dl d c mt payload options err c' out d')
  then consider "c' = c" | e o' where "send_reliable t ml c mt payload (so_Channel options) = (e, c', o')"
    | e o' where "send_datagram t dl c mt payload options = (e, c', o')"
    by (auto simp: send_op_def Let_def split: if_splits sum.splits prod.splits)
  then show ?case
    using sends.prems send_reliable_ok send_datagram_ok by cases auto
next
  case (receives allowed c payload out c')
  then show ?case by (rule receive_datagram_ok)
next
  case (accepts c channel ok c')
  then show ?case by (auto intro: bindInbound_inv bindInbound_kept)
qed

lemma channel_run_ok: "channel_step\<^sup>*\<^sup>* c c' \<Longrightarrow> channels_inv c \<Longrightarrow> channels_inv c' \<and> bindings_kept c c'"
proof (induction rule: rtranclp_induct)
  case (step y z)
  then show ?case using channel_step_ok [of y z] by (auto intro: bindings_kept_trans)
qed simp

lemma newChannels_inv: "channels_inv (newChannels limits peer)"
  by (simp add: channels_inv_def newChannels_def class_count_def)

section \<open>Slots of a connection\<close>

text \<open>A slot that was acquired, with the \<open>sync.Once\<close> of the closure that gives it back.\<close>

record slot =
  sl_request :: bool
  sl_inbound :: bool
  sl_once :: bool

definition acquire_slot :: "bool \<Rightarrow> channels \<Rightarrow> bool \<Rightarrow> bool \<times> channels" where
  "acquire_slot request c inbound = (if request then acquireRequest c inbound else acquireStream c inbound)"

definition release_once :: "slot \<Rightarrow> channels \<Rightarrow> slot \<times> channels" where
  "release_once s c =
     (if sl_once s then (s, c)
      else (s\<lparr>sl_once := True\<rparr>, if sl_request s then releaseRequest c (sl_inbound s) else releaseStream c (sl_inbound s)))"

text \<open>Everything that changes the tables of a connection: traffic, acquired slots, and releases, of any slot and any number of times.\<close>

inductive connection_step :: "channels \<times> slot list \<Rightarrow> channels \<times> slot list \<Rightarrow> bool" where
  traffic: "channel_step c c' \<Longrightarrow> connection_step (c, ss) (c', ss)"
| acquires: "acquire_slot request c inbound = (ok, c') \<Longrightarrow>
    connection_step (c, ss) (c', if ok then ss @ [\<lparr>sl_request = request, sl_inbound = inbound, sl_once = False\<rparr>] else ss)"
| releases: "i < length ss \<Longrightarrow> release_once (ss ! i) c = (s, c') \<Longrightarrow> connection_step (c, ss) (c', ss[i := s])"

definition slot_count :: "channels \<Rightarrow> bool \<Rightarrow> bool \<Rightarrow> int" where
  "slot_count c request inbound =
     (if request then (if inbound then ch_inRequests c else ch_outRequests c) else (if inbound then ch_inStreams c else ch_outStreams c))"

definition slot_limit :: "channels \<Rightarrow> bool \<Rightarrow> bool \<Rightarrow> int" where
  "slot_limit c request inbound =
     (let limit = (if request then Requests (ch_limits c) else Streams (ch_limits c));
          peer = (if request then lm_Requests (ch_peer c) else lm_Streams (ch_peer c))
      in if inbound then limit else minimumAdvertisedLimit limit peer)"

definition slot_holds :: "bool \<Rightarrow> bool \<Rightarrow> slot \<Rightarrow> bool" where
  "slot_holds request inbound s \<longleftrightarrow> sl_request s = request \<and> sl_inbound s = inbound \<and> \<not> sl_once s"

definition slots_held :: "bool \<Rightarrow> bool \<Rightarrow> slot list \<Rightarrow> int" where
  "slots_held request inbound ss = int (length (filter (slot_holds request inbound) ss))"

lemma held_update:
  "i < length ss \<Longrightarrow> slots_held request inbound (ss[i := s]) = slots_held request inbound ss - of_bool (slot_holds request inbound (ss ! i)) + of_bool (slot_holds request inbound s)"
proof (induction ss arbitrary: i)
  case (Cons a ss)
  then show ?case
    by (cases i) (auto simp: slots_held_def)
qed simp

lemma acquire_counts:
  assumes "acquire_slot request c inbound = (ok, c')"
  shows "ok \<longleftrightarrow> slot_count c request inbound < slot_limit c request inbound"
    and "slot_count c' r b = slot_count c r b + of_bool (ok \<and> r = request \<and> b = inbound)" "slot_limit c' r b = slot_limit c r b"
  using assms
  by (cases request; cases inbound; cases r; cases b; auto simp: acquire_slot_def acquireRequest_def acquireStream_def slot_count_def slot_limit_def Let_def split: if_splits)+

lemma release_slots_once:
  assumes "release_once s c = (s', c')"
  shows "slot_count c' r b = slot_count c r b - of_bool (slot_holds r b s)" "slot_limit c' r b = slot_limit c r b" "\<not> slot_holds r b s'"
  using assms
  by (auto simp: release_once_def releaseRequest_def releaseStream_def slot_count_def slot_limit_def slot_holds_def Let_def split: if_splits)

definition slots_ok :: "channels \<times> slot list \<Rightarrow> bool" where
  "slots_ok x \<longleftrightarrow> (\<forall>request inbound. slot_count (fst x) request inbound = slots_held request inbound (snd x)
     \<and> slots_held request inbound (snd x) \<le> max 0 (slot_limit (fst x) request inbound))"

text \<open>Slots and bindings do not touch each other.\<close>

definition tables_kept :: "channels \<Rightarrow> channels \<Rightarrow> bool" where
  "tables_kept c c' \<longleftrightarrow> ch_limits c' = ch_limits c \<and> ch_peer c' = ch_peer c \<and> map_of (ch_outbound c) \<subseteq>\<^sub>m map_of (ch_outbound c')
     \<and> map_of (ch_inbound c) \<subseteq>\<^sub>m map_of (ch_inbound c') \<and> ch_reliable c \<subseteq>\<^sub>m ch_reliable c'"

lemma tables_trans: "tables_kept a b \<Longrightarrow> tables_kept b c \<Longrightarrow> tables_kept a c"
  by (auto simp: tables_kept_def intro: map_le_trans)

definition same_bindings :: "channels \<Rightarrow> channels \<Rightarrow> bool" where
  "same_bindings c c' \<longleftrightarrow> ch_limits c' = ch_limits c \<and> ch_peer c' = ch_peer c \<and> ch_outbound c' = ch_outbound c \<and> ch_inbound c' = ch_inbound c
     \<and> ch_reliable c' = ch_reliable c"

lemma slots_same_bindings:
  "acquire_slot request c inbound = (ok, c') \<Longrightarrow> same_bindings c c'" "release_once s c = (s', c') \<Longrightarrow> same_bindings c c'"
  by (auto simp: same_bindings_def acquire_slot_def acquireRequest_def acquireStream_def Let_def split: if_splits)
    (auto simp: release_once_def releaseRequest_def releaseStream_def split: if_splits)

lemma slot_tables:
  assumes "same_bindings c c'" "channels_inv c"
  shows "channels_inv c' \<and> tables_kept c c'"
proof -
  have "outbound_limit c' d = outbound_limit c d" "inbound_limit c' d = inbound_limit c d" for d
    using assms(1) by (simp_all add: same_bindings_def outbound_limit_def inbound_limit_def)
  then show ?thesis
    using assms by (simp add: same_bindings_def channels_inv_def tables_kept_def)
qed

lemma connection_step_ok:
  "connection_step x x' \<Longrightarrow> channels_inv (fst x) \<Longrightarrow> slots_ok x \<Longrightarrow> channels_inv (fst x') \<and> slots_ok x' \<and> tables_kept (fst x) (fst x')"
proof (induction rule: connection_step.induct)
  case (traffic c c' ss)
  have kept: "channels_inv c'" "bindings_kept c c'"
    using channel_step_ok [OF traffic(1)] traffic(2) by simp_all
  then have "slot_count c' r b = slot_count c r b" "slot_limit c' r b = slot_limit c r b" for r b
    by (auto simp: bindings_kept_def slot_count_def slot_limit_def Let_def)
  then show ?case
    using kept traffic(3) by (simp add: slots_ok_def bindings_kept_def tables_kept_def)
next
  case (acquires request c inbound ok c' ss)
  note counts = acquire_counts [OF acquires(1)]
  have "slots_held r b (if ok then ss @ [\<lparr>sl_request = request, sl_inbound = inbound, sl_once = False\<rparr>] else ss)
      = slots_held r b ss + of_bool (ok \<and> r = request \<and> b = inbound)" for r b
    by (auto simp: slots_held_def slot_holds_def)
  then show ?case
    using acquires(2,3) counts slot_tables [OF slots_same_bindings(1) [OF acquires(1)]] by (auto simp: slots_ok_def)
next
  case (releases i ss c s c')
  note counts = release_slots_once [OF releases(2)]
  have "slots_held r b (ss[i := s]) = slots_held r b ss - of_bool (slot_holds r b (ss ! i))" for r b
    using held_update [OF releases(1), of r b s] counts(3) by simp
  moreover have "slots_held r b ss - of_bool (slot_holds r b (ss ! i)) \<le> max 0 (slot_limit c r b)" for r b
    using releases(4) by (simp add: slots_ok_def add_increasing2 diff_le_eq)
  ultimately show ?case
    using releases(3,4) counts slot_tables [OF slots_same_bindings(2) [OF releases(2)]] by (simp add: slots_ok_def)
qed

lemma connection_run_ok:
  "connection_step\<^sup>*\<^sup>* x x' \<Longrightarrow> channels_inv (fst x) \<Longrightarrow> slots_ok x \<Longrightarrow> channels_inv (fst x') \<and> slots_ok x' \<and> tables_kept (fst x) (fst x')"
proof (induction rule: rtranclp_induct)
  case base
  then show ?case
    by (simp add: tables_kept_def)
next
  case (step y z)
  then show ?case
    using connection_step_ok [of y z] tables_trans by blast
qed

lemma new_connection_ok: "slots_ok (newChannels limits peer, [])"
  by (simp add: slots_ok_def newChannels_def slot_count_def slots_held_def)

section \<open>Sequenced datagrams end to end\<close>

text \<open>The datagrams that successive sequenced sends on one channel emit.\<close>

fun send_sequenced :: "transport \<Rightarrow> int \<Rightarrow> channels \<Rightarrow> ChannelID \<Rightarrow> (MessageType \<times> bytes) list \<Rightarrow> sent list" where
  "send_sequenced t limit c channel [] = []"
| "send_sequenced t limit c channel ((mt, payload) # rest) =
     (let (err, c', out) = send_datagram t limit c mt payload \<lparr>so_Channel = channel, so_Delivery = UnreliableSequenced\<rparr> in
      out @ send_sequenced t limit c' channel rest)"

text \<open>The events a list of sent datagrams carries.\<close>

definition carries :: "int \<Rightarrow> Event \<Rightarrow> sent \<Rightarrow> bool" where
  "carries limit ev s \<longleftrightarrow> (\<exists>bs. s = AsDatagram bs \<and> EncodeDatagram ev limit = Inr bs)"

abbreviation seq_on :: "ChannelID \<Rightarrow> Event \<Rightarrow> bool" where
  "seq_on channel ev \<equiv> ev_Kind ev = SequencedKind \<and> ev_Channel ev = ucast channel"

lemma bindOutbound_sequences: "bindOutbound c ch d = (err, c') \<Longrightarrow> ch_sequences c' = ch_sequences c"
  by (auto simp: bindOutbound_def split: option.splits if_splits)

lemma send_datagram_sequenced:
  assumes "send_datagram t limit c mt payload \<lparr>so_Channel = channel, so_Delivery = UnreliableSequenced\<rparr> = (err, c', out)"
  shows "(out = [] \<and> ch_sequences c' channel \<in> {ch_sequences c channel, ch_sequences c channel + 1})
    \<or> (\<exists>ev. out \<noteq> [] \<and> list_all2 (carries limit) [ev] out \<and> seq_on channel ev \<and> ev_Sequence ev = ch_sequences c channel + 1
        \<and> ch_sequences c' channel = ch_sequences c channel + 1)"
proof -
  obtain e c1 where bind: "bindOutbound c channel UnreliableSequenced = (e, c1)"
    by fastforce
  note seqs = bindOutbound_sequences [OF bind]
  define ev where "ev = \<lparr>ev_Kind = SequencedKind, ev_Channel = ucast channel, ev_MessageType = ucast mt,
    ev_Sequence = ch_sequences c channel + 1, ev_Payload = payload\<rparr>"
  show ?thesis
  proof (cases e)
    case (Some err')
    with assms bind seqs show ?thesis by (simp add: send_datagram_def)
  next
    case None
    show ?thesis
    proof (cases "EncodeDatagram ev limit")
      case (Inl err')
      with None assms bind seqs show ?thesis by (auto simp: send_datagram_def Let_def ev_def)
    next
      case (Inr bs)
      have ev: "seq_on channel ev" "ev_Sequence ev = ch_sequences c channel + 1"
        by (simp_all add: ev_def)
      show ?thesis
      proof (cases "tr_sendDatagram t bs")
        case (Some err')
        with Inr None assms bind seqs show ?thesis by (auto simp: send_datagram_def Let_def ev_def [symmetric])
      next
        case sent: None
        with Inr None assms bind seqs have "out = [AsDatagram bs]" "ch_sequences c' channel = ch_sequences c channel + 1"
          by (auto simp: send_datagram_def Let_def ev_def [symmetric])
        with Inr ev show ?thesis
          by (auto simp: carries_def)
      qed
    qed
  qed
qed

lemma word_add_one:
  fixes a :: u64
  assumes "Suc (unat a) < 2 ^ 64"
  shows "unat (a + 1) = Suc (unat a)"
  using assms by (simp add: unat_word_ariths)

lemma send_sequenced_sorted:
  assumes "unat (ch_sequences c channel) + length msgs < 2 ^ 64"
  shows "\<exists>evs. list_all2 (carries limit) evs (send_sequenced t limit c channel msgs)
    \<and> sorted_wrt (\<lambda>a b. ev_Sequence a < ev_Sequence b) evs
    \<and> (\<forall>ev \<in> set evs. seq_on channel ev \<and> ch_sequences c channel < ev_Sequence ev)"
  using assms
proof (induction msgs arbitrary: c)
  case Nil
  then show ?case by simp
next
  case (Cons m msgs)
  obtain mt payload where m: "m = (mt, payload)"
    by fastforce
  obtain err c' out where send: "send_datagram t limit c mt payload
      \<lparr>so_Channel = channel, so_Delivery = UnreliableSequenced\<rparr> = (err, c', out)"
    using prod_cases3 by blast
  let ?q = "ch_sequences c channel"
  have next_seq: "unat (?q + 1) = Suc (unat ?q)"
    using Cons.prems by (intro word_add_one) simp
  then have less: "?q < ?q + 1"
    by (simp add: word_less_nat_alt)
  from send_datagram_sequenced [OF send] have seq: "ch_sequences c' channel \<in> {?q, ?q + 1}"
    by auto
  with next_seq Cons.prems have "unat (ch_sequences c' channel) + length msgs < 2 ^ 64"
    by auto
  from Cons.IH [OF this] obtain evs where
    evs: "list_all2 (carries limit) evs (send_sequenced t limit c' channel msgs)"
      "sorted_wrt (\<lambda>a b. ev_Sequence a < ev_Sequence b) evs"
      "\<forall>ev \<in> set evs. seq_on channel ev \<and> ch_sequences c' channel < ev_Sequence ev"
    by blast
  have q': "?q \<le> ch_sequences c' channel"
    using seq less by auto
  show ?case
  proof (cases "out = []")
    case True
    with evs q' send m show ?thesis
      by (intro exI [of _ evs]) (auto intro: order_le_less_trans)
  next
    case False
    with send_datagram_sequenced [OF send] obtain ev where
      ev: "list_all2 (carries limit) [ev] out" "seq_on channel ev" "ev_Sequence ev = ?q + 1"
        "ch_sequences c' channel = ?q + 1"
      by auto
    then obtain o1 where out: "out = [o1]" "carries limit ev o1"
      by (auto simp: list_all2_Cons1)
    have "ch_sequences c channel < x" if "ch_sequences c channel + 1 < x" for x
      using less that by (rule order_less_trans)
    with evs ev out less send m show ?thesis
      by (intro exI [of _ "ev # evs"]) auto
  qed
qed

text \<open>The receiver delivers sequenced events of a channel in strictly increasing order.\<close>

lemma receive_datagram_cases:
  assumes "receive_datagram allowed c payload = (out, c')"
  shows "(case out of
      DeliverEvent ev \<Rightarrow> DecodeDatagram payload (DatagramBytes (ch_limits c)) = Inr ev
        \<and> (if ev_Kind ev = SequencedKind
           then ch_received c (ucast (ev_Channel ev)) < ev_Sequence ev
             \<and> ch_received c' = (ch_received c)(ucast (ev_Channel ev) := ev_Sequence ev)
           else ch_received c' = ch_received c)
    | _ \<Rightarrow> ch_received c' = ch_received c) \<and> ch_limits c' = ch_limits c"
proof -
  have frame: "bindInbound c ch d = (ok, c1) \<Longrightarrow> ch_received c1 = ch_received c \<and> ch_limits c1 = ch_limits c" for ch d ok c1
    by (auto simp: bindInbound_def split: option.splits if_splits)
  show ?thesis
    using assms
    by (auto simp: receive_datagram_def Let_def not_le split: sum.splits if_splits prod.splits bool.splits dest!: frame)
qed

lemma receiveDatagrams_increasing:
  fixes channel :: ChannelID
  assumes "receiveDatagrams c arrivals = (events, c')"
  shows "sorted_wrt (\<lambda>a b. ev_Sequence a < ev_Sequence b) (filter (seq_on channel) events)
    \<and> (\<forall>ev \<in> set (filter (seq_on channel) events). ch_received c channel < ev_Sequence ev)
    \<and> (\<forall>ev \<in> set events. \<exists>bs \<in> snd ` set arrivals. DecodeDatagram bs (DatagramBytes (ch_limits c)) = Inr ev)"
  using assms
proof (induction c arrivals arbitrary: events c' rule: receiveDatagrams.induct)
  case (1 c)
  then show ?case by simp
next
  case (2 c allowed payload rest)
  obtain out c1 where step: "receive_datagram allowed c payload = (out, c1)"
    by fastforce
  note cases = receive_datagram_cases [OF step]
  have ucast_id: "(ucast (ucast channel :: u64) :: ChannelID) = channel"
    by (rule bit_word_eqI) (simp add: bit_simps)
  show ?case
  proof (cases out)
    case (DeliverEvent ev)
    with "2.prems" step obtain es where rest: "receiveDatagrams c1 rest = (es, c')" "events = ev # es"
      by (auto split: prod.splits)
    note ih = "2.IH"(4) [OF step [symmetric] DeliverEvent rest(1)]
    have lt: "ch_received c channel \<le> ch_received c1 channel"
      using cases DeliverEvent by (auto split: if_splits)
    have "seq_on channel ev \<Longrightarrow> ch_received c1 channel = ev_Sequence ev \<and> ch_received c channel < ev_Sequence ev"
      using cases DeliverEvent ucast_id by auto
    with ih lt cases DeliverEvent rest show ?thesis
      by (auto intro: order_le_less_trans)
  qed (use "2.prems" "2.IH" step cases in auto)
qed

lemma decode_what_was_sent:
  assumes "DecodeDatagram bs m = Inr ev" "EncodeDatagram ev0 m0 = Inr bs" "ev_Kind ev0 = SequencedKind"
  shows "ev = ev0"
proof -
  have "EncodeDatagram ev m = Inr bs"
    by (rule DecodeDatagram_canonical [OF assms(1)])
  then have enc: "EncodeDatagram ev (max m m0) = Inr bs" "EncodeDatagram ev0 (max m m0) = Inr bs"
    using assms(2) by (auto simp: EncodeDatagram_Inr_iff)
  have "datagram_norm ev = ev"
    using DecodeDatagram_encoded [OF \<open>EncodeDatagram ev m = Inr bs\<close>] assms(1) by simp
  moreover have "datagram_norm ev = datagram_norm ev0"
    using DecodeDatagram_encoded [OF enc(1)] DecodeDatagram_encoded [OF enc(2)] by simp
  ultimately show ?thesis
    using assms(3) by (simp add: datagram_norm_def)
qed

lemma sorted_subset_subseq:
  fixes key :: "'a \<Rightarrow> 'b :: linorder"
  assumes "sorted_wrt (\<lambda>a b. key a < key b) xs" "sorted_wrt (\<lambda>a b. key a < key b) ys" "set xs \<subseteq> set ys"
  shows "subseq xs ys"
  using assms
proof (induction ys arbitrary: xs)
  case Nil
  then show ?case by simp
next
  case (Cons y ys)
  show ?case
  proof (cases "xs \<noteq> [] \<and> hd xs = y")
    case True
    then obtain xs' where xs: "xs = y # xs'"
      by (cases xs) auto
    with Cons.prems have "set xs' \<subseteq> set ys"
      by fastforce
    with Cons xs show ?thesis by auto
  next
    case False
    have "y \<notin> set xs"
    proof
      assume "y \<in> set xs"
      with False obtain x rest where "xs = x # rest" "x \<noteq> y" "y \<in> set rest"
        by (cases xs) auto
      with Cons.prems show False by fastforce
    qed
    with Cons show ?thesis by (auto intro: subseq_Cons')
  qed
qed

section \<open>Properties\<close>

text \<open>
  C23. The tables of a connection: whatever it sends, receives and accepts, and whatever request and stream slots it acquires and
  gives back, the delivery mode a channel was bound to in a direction and the stream of a reliable outbound channel never
  change, no channel is bound twice, the numbers of bound reliable and datagram channels stay within the limits (for outbound
  channels the smaller of the two endpoints' limits), and once a reliable inbound channel has its stream, every further binding
  of that channel is refused. The counters of requests and streams are in each direction exactly the slots that are held, however
  often a slot is released, and within the limits; and a slot is granted precisely while fewer are held than the limit.
\<close>

theorem channel_bindings_stable:
  assumes "connection_step\<^sup>*\<^sup>* (newChannels limits peer, []) (c, ss)" "connection_step\<^sup>*\<^sup>* (c, ss) (c', ss')"
  shows "map_of (ch_outbound c) \<subseteq>\<^sub>m map_of (ch_outbound c') \<and> map_of (ch_inbound c) \<subseteq>\<^sub>m map_of (ch_inbound c')
    \<and> ch_reliable c \<subseteq>\<^sub>m ch_reliable c' \<and> dom (ch_reliable c') \<subseteq> {channel. map_of (ch_outbound c') channel = Some ReliableOrdered}
    \<and> distinct (map fst (ch_outbound c')) \<and> distinct (map fst (ch_inbound c'))
    \<and> (\<forall>d. class_count (ch_outbound c') d \<le> max 0 (outbound_limit (newChannels limits peer) d)
         \<and> class_count (ch_inbound c') d \<le> max 0 (inbound_limit (newChannels limits peer) d))
    \<and> (\<forall>channel d. map_of (ch_inbound c) channel = Some ReliableOrdered \<longrightarrow> bindInbound c' channel d = (False, c'))
    \<and> (\<forall>request inbound. slot_count c' request inbound = slots_held request inbound ss'
         \<and> slots_held request inbound ss' \<le> max 0 (slot_limit (newChannels limits peer) request inbound)
         \<and> (fst (acquire_slot request c' inbound) \<longleftrightarrow> slots_held request inbound ss' < slot_limit (newChannels limits peer) request inbound))"
proof -
  note run = connection_run_ok [OF assms(1), simplified, OF newChannels_inv new_connection_ok]
  note run' = connection_run_ok [OF assms(2), simplified]
  have facts: "channels_inv c'" "slots_ok (c', ss')" "tables_kept c c'" "tables_kept (newChannels limits peer) c'"
    using run run' tables_trans by blast+
  have lim: "outbound_limit c' d = outbound_limit (newChannels limits peer) d" "inbound_limit c' d = inbound_limit (newChannels limits peer) d"
      "slot_limit c' r b = slot_limit (newChannels limits peer) r b" for d r b
    using facts(4) by (simp_all add: tables_kept_def outbound_limit_def inbound_limit_def slot_limit_def Let_def)
  have "bindInbound c' channel d = (False, c')" if "map_of (ch_inbound c) channel = Some ReliableOrdered" for channel d
  proof -
    have "map_of (ch_inbound c') channel = Some ReliableOrdered"
      using facts(3) that by (auto simp: tables_kept_def map_le_def dom_def)
    then show ?thesis by (auto simp: bindInbound_def)
  qed
  moreover have "fst (acquire_slot r c' b) \<longleftrightarrow> slot_count c' r b < slot_limit c' r b" for r b
    using acquire_counts(1) [of r c' b] by (metis prod.collapse)
  ultimately show ?thesis
    using facts(1-3) lim by (auto simp: tables_kept_def channels_inv_def slots_ok_def)
qed

theorem channel_bindings_stable_witness:
  "\<exists>c ss. connection_step\<^sup>*\<^sup>* (newChannels DefaultLimits zeroLimitMessage, []) (c, ss)
     \<and> map_of (ch_inbound c) 5 = Some ReliableOrdered \<and> bindInbound c 5 Unreliable = (False, c)
     \<and> slot_count c True False = 1 \<and> slots_held True False ss = 1"
proof -
  obtain c1 where bind: "bindInbound (newChannels DefaultLimits zeroLimitMessage) 5 ReliableOrdered = (True, c1)"
    and c1: "map_of (ch_inbound c1) 5 = Some ReliableOrdered" "ch_limits c1 = DefaultLimits" "ch_peer c1 = zeroLimitMessage" "ch_outRequests c1 = 0"
    by (simp add: bindInbound_def newChannels_def class_count_def inbound_limit_def DefaultLimits_def)
  obtain c where acq: "acquire_slot True c1 False = (True, c)" and c: "ch_inbound c = ch_inbound c1" "ch_outRequests c = 1"
    by (simp add: acquire_slot_def acquireRequest_def c1 minimumAdvertisedLimit_def zeroLimitMessage_def DefaultLimits_def Let_def)
  let ?ss = "[\<lparr>sl_request = True, sl_inbound = False, sl_once = False\<rparr>]"
  have "connection_step (newChannels DefaultLimits zeroLimitMessage, []) (c1, [])"
    by (rule connection_step.traffic) (rule channel_step.accepts [OF bind])
  moreover have "connection_step (c1, []) (c, ?ss)"
    using connection_step.acquires [OF acq, of "[]"] by simp
  ultimately have run: "connection_step\<^sup>*\<^sup>* (newChannels DefaultLimits zeroLimitMessage, []) (c, ?ss)"
    by (meson converse_rtranclp_into_rtranclp r_into_rtranclp)
  from channel_bindings_stable [OF run rtranclp.rtrancl_refl] c c1(1) run show ?thesis
    by (intro exI [of _ c] exI [of _ ?ss]) (simp add: slot_count_def slots_held_def slot_holds_def)
qed

text \<open>
  C22. Sequenced datagrams are delivered in order and at most once: when a sender's sequenced events
  on a channel reach a receiver with losses, duplicates and in any order, and the receiver's rate
  limiter and limits drop any of them, the events delivered are a subsequence of the events sent.
\<close>

theorem sequenced_delivery_in_order:
  assumes "unat (ch_sequences sender channel) + length msgs < 2 ^ 64"
    and "\<forall>arrival \<in> set arrivals. AsDatagram (snd arrival) \<in> set (send_sequenced t limit sender channel msgs)"
    and "receiveDatagrams receiver arrivals = (events, receiver')"
  shows "\<exists>sent. list_all2 (carries limit) sent (send_sequenced t limit sender channel msgs) \<and> subseq events sent"
proof -
  from send_sequenced_sorted [OF assms(1)] obtain evs where
    evs: "list_all2 (carries limit) evs (send_sequenced t limit sender channel msgs)"
      "sorted_wrt (\<lambda>a b. ev_Sequence a < ev_Sequence b) evs" "\<forall>ev \<in> set evs. seq_on channel ev"
    by blast
  note rec = receiveDatagrams_increasing [OF assms(3), of channel]
  have mem: "ev \<in> set evs" if "ev \<in> set events" for ev
  proof -
    from rec that obtain bs where bs: "bs \<in> snd ` set arrivals" "DecodeDatagram bs (DatagramBytes (ch_limits receiver)) = Inr ev"
      by blast
    with assms(2) have "AsDatagram bs \<in> set (send_sequenced t limit sender channel msgs)"
      by auto
    with evs(1) obtain ev0 where ev0: "ev0 \<in> set evs" "carries limit ev0 (AsDatagram bs)"
      by (metis (no_types, lifting) in_set_conv_nth list_all2_conv_all_nth)
    with evs(3) bs(2) decode_what_was_sent [OF bs(2)] have "ev = ev0"
      by (auto simp: carries_def)
    with ev0(1) show ?thesis by simp
  qed
  with evs(3) have "filter (seq_on channel) events = events"
    by (simp add: filter_id_conv)
  with rec mem sorted_subset_subseq [of ev_Sequence events evs] evs(2) have "subseq events evs"
    by auto
  with evs(1) show ?thesis by blast
qed

definition sample_transport :: transport where
  "sample_transport = \<lparr>tr_openUni = Inr 0, tr_write = (\<lambda>_ _. None), tr_sendDatagram = (\<lambda>_. None)\<rparr>"

text \<open>Two updates are sent; they arrive swapped and duplicated, and only the newer one is delivered.\<close>

theorem sequenced_delivery_in_order_witness:
  "\<exists>sent receiver'.
     send_sequenced sample_transport 100 (newChannels DefaultLimits zeroLimitMessage) 1 [(10, [0xaa]), (10, [0xbb])]
       = [AsDatagram [3, 1, 10, 1, 0xaa], AsDatagram [3, 1, 10, 2, 0xbb]]
     \<and> receiveDatagrams (newChannels DefaultLimits zeroLimitMessage)
         [(True, [3, 1, 10, 2, 0xbb]), (True, [3, 1, 10, 1, 0xaa]), (True, [3, 1, 10, 2, 0xbb])]
       = ([\<lparr>ev_Kind = 3, ev_Channel = 1, ev_MessageType = 10, ev_Sequence = 2, ev_Payload = [0xbb]\<rparr>], receiver')
     \<and> subseq [\<lparr>ev_Kind = 3, ev_Channel = 1, ev_MessageType = 10, ev_Sequence = 2, ev_Payload = [0xbb]\<rparr>] sent"
proof -
  let ?c = "newChannels DefaultLimits zeroLimitMessage"
  let ?arrivals = "[(True, [3, 1, 10, 2, 0xbb]), (True, [3, 1, 10, 1, 0xaa]), (True, [3, 1, 10, 2, 0xbb])] :: (bool \<times> bytes) list"
  let ?ev = "\<lparr>ev_Kind = 3, ev_Channel = 1, ev_MessageType = 10, ev_Sequence = 2, ev_Payload = [0xbb]\<rparr>"
  have sends: "send_sequenced sample_transport 100 ?c 1 [(10, [0xaa]), (10, [0xbb])]
      = [AsDatagram [3, 1, 10, 1, 0xaa], AsDatagram [3, 1, 10, 2, 0xbb]]"
    by (simp add: send_datagram_def bindOutbound_def newChannels_def class_count_def outbound_limit_def DefaultLimits_def
        minimumAdvertisedLimit_def zeroLimitMessage_def sample_transport_def EncodeDatagram_def eval_defs Let_def)
  have enc: "EncodeDatagram \<lparr>ev_Kind = 3, ev_Channel = 1, ev_MessageType = 10, ev_Sequence = 1, ev_Payload = [0xaa]\<rparr> 1000
      = Inr [3, 1, 10, 1, 0xaa]" "EncodeDatagram ?ev 1000 = Inr [3, 1, 10, 2, 0xbb]"
    by (simp_all add: EncodeDatagram_def eval_defs)
  have limit: "DatagramBytes (ch_limits ?c) = 1000" "inbound_limit ?c UnreliableSequenced = 64"
    by (simp_all add: newChannels_def DefaultLimits_def inbound_limit_def)
  obtain r where receives: "receiveDatagrams ?c ?arrivals = ([?ev], r)"
    using DecodeDatagram_encoded [OF enc(1)] DecodeDatagram_encoded [OF enc(2)] limit
    by (simp add: receive_datagram_def bindInbound_def datagram_norm_def kind_defs class_count_def Let_def word_le_nat_alt
        newChannels_def)
  have "\<forall>arrival \<in> set ?arrivals. AsDatagram (snd arrival) \<in> set (send_sequenced sample_transport 100 ?c 1 [(10, [0xaa]), (10, [0xbb])])"
    unfolding sends by simp
  moreover have "unat (ch_sequences ?c 1) + length [(10 :: MessageType, [0xaa :: byte]), (10, [0xbb])] < 2 ^ 64"
    by (simp add: newChannels_def)
  ultimately show ?thesis
    using sequenced_delivery_in_order [OF _ _ receives, of ?c 1 "[(10, [0xaa]), (10, [0xbb])]" sample_transport 100] sends receives
    by blast
qed

end
