(* ===== verification/Requests.thy ===== *)
theory Requests
  imports Events
begin

unbundle bit_operations_syntax

text \<open>
  \<open>internal/wire/request.go\<close>: request and response frames and the custom-stream header, in their
  slice form and in the incremental form the stream readers use. \<open>utf8_valid\<close> is the check of
  \<open>unicode/utf8.Valid\<close>: a byte string is a sequence of shortest-form encodings of Unicode scalar
  values.
\<close>

section \<open>UTF-8\<close>

definition cont :: "byte \<Rightarrow> bool" where
  "cont b \<longleftrightarrow> 0x80 \<le> b \<and> b \<le> 0xBF"

fun utf8_valid :: "bytes \<Rightarrow> bool" where
  "utf8_valid [] = True"
| "utf8_valid (a # bs) =
     (if a < 0x80 then utf8_valid bs
      else if 0xC2 \<le> a \<and> a \<le> 0xDF then
        (case bs of b # r \<Rightarrow> cont b \<and> utf8_valid r | _ \<Rightarrow> False)
      else if 0xE0 \<le> a \<and> a \<le> 0xEF then
        (case bs of b # c # r \<Rightarrow>
            cont b \<and> (a = 0xE0 \<longrightarrow> 0xA0 \<le> b) \<and> (a = 0xED \<longrightarrow> b \<le> 0x9F) \<and> cont c \<and> utf8_valid r
          | _ \<Rightarrow> False)
      else if 0xF0 \<le> a \<and> a \<le> 0xF4 then
        (case bs of b # c # d # r \<Rightarrow>
            cont b \<and> (a = 0xF0 \<longrightarrow> 0x90 \<le> b) \<and> (a = 0xF4 \<longrightarrow> b \<le> 0x8F) \<and> cont c \<and> cont d
            \<and> utf8_valid r
          | _ \<Rightarrow> False)
      else False)"

section \<open>Data\<close>

definition maxDiagnosticBytes :: nat where
  "maxDiagnosticBytes = 256"

record Request =
  rq_MessageType :: u64
  rq_TimeoutMS :: u64
  rq_Payload :: bytes

record Response =
  rs_Status :: u64
  rs_Payload :: bytes

section \<open>Requests\<close>

definition EncodeRequest :: "Request \<Rightarrow> int \<Rightarrow> wire_error + bytes" where
  "EncodeRequest request maxPayload =
     (if rq_MessageType request = 0 \<or> rq_MessageType request > maxMessageType
         \<or> rq_TimeoutMS request = 0 \<or> rq_TimeoutMS request > 300000
         \<or> int (length (rq_Payload request)) > maxPayload then Inl ErrMalformed
      else
        bind (AppendVarint [] RequestStreamKind) (\<lambda>b.
        bind (append_varints b [rq_MessageType request, rq_TimeoutMS request,
                                of_nat (length (rq_Payload request))]) (\<lambda>b.
          Inr (b @ rq_Payload request))))"

text \<open>The loop of \<open>DecodeRequest\<close> that fills \<open>values\<close>: \<open>k\<close> varints from position \<open>used\<close>.\<close>

fun decode_values :: "nat \<Rightarrow> bytes \<Rightarrow> nat \<Rightarrow> wire_error + (u64 list \<times> nat)" where
  "decode_values 0 src used = Inr ([], used)"
| "decode_values (Suc k) src used =
     bind (DecodeVarint (drop used src)) (\<lambda>(v, n).
       bind (decode_values k src (used + n)) (\<lambda>(vs, used'). Inr (v # vs, used')))"

definition DecodeRequest :: "bytes \<Rightarrow> int \<Rightarrow> wire_error + Request" where
  "DecodeRequest src maxPayload =
     bind (decode_values 4 src 0) (\<lambda>(values, used).
       if values ! 0 \<noteq> RequestStreamKind \<or> values ! 1 = 0 \<or> values ! 1 > maxMessageType
          \<or> values ! 3 > uint64 maxPayload \<or> unat (values ! 3) \<noteq> length src - used
          \<or> values ! 2 = 0 \<or> values ! 2 > 300000
       then Inl ErrMalformed
       else Inr \<lparr>rq_MessageType = values ! 1, rq_TimeoutMS = values ! 2, rq_Payload = drop used src\<rparr>)"

definition ReadRequestHeader :: "reader option \<Rightarrow> int \<Rightarrow> wire_error + (Request \<times> nat \<times> reader)" where
  "ReadRequestHeader rd maxPayload =
     (case rd of None \<Rightarrow> Inl ErrMalformed
      | Some r \<Rightarrow>
         (if maxPayload < 0 then Inl ErrMalformed
          else
            bind (ReadVarint r) (\<lambda>(messageType, r).
            bind (ReadVarint r) (\<lambda>(timeoutMS, r).
            bind (ReadVarint r) (\<lambda>(payloadBytes, r).
              if messageType = 0 \<or> messageType > maxMessageType \<or> timeoutMS = 0
                 \<or> timeoutMS > 300000 \<or> payloadBytes > uint64 maxPayload
              then Inl ErrMalformed
              else Inr (\<lparr>rq_MessageType = messageType, rq_TimeoutMS = timeoutMS, rq_Payload = []\<rparr>,
                        unat payloadBytes, r))))))"

section \<open>Responses\<close>

definition EncodeResponse :: "Response \<Rightarrow> int \<Rightarrow> wire_error + bytes" where
  "EncodeResponse response maxPayload =
     (if int (length (rs_Payload response)) > maxPayload then Inl ErrTooLarge
      else if rs_Status response \<noteq> 0
              \<and> (length (rs_Payload response) > maxDiagnosticBytes \<or> \<not> utf8_valid (rs_Payload response))
      then Inl ErrMalformed
      else
        bind (AppendVarint [] (rs_Status response)) (\<lambda>b.
        bind (AppendVarint b (of_nat (length (rs_Payload response)))) (\<lambda>b.
          Inr (b @ rs_Payload response))))"

definition DecodeResponse :: "bytes \<Rightarrow> int \<Rightarrow> wire_error + Response" where
  "DecodeResponse src maxPayload =
     bind (DecodeVarint src) (\<lambda>(status, n).
     bind (DecodeVarint (drop n src)) (\<lambda>(len, m).
       if len > uint64 maxPayload \<or> unat len \<noteq> length src - n - m
          \<or> (status \<noteq> 0 \<and> (unat len > maxDiagnosticBytes \<or> \<not> utf8_valid (drop (n + m) src)))
       then Inl ErrMalformed
       else Inr \<lparr>rs_Status = status, rs_Payload = drop (n + m) src\<rparr>))"

definition ReadResponseHeader :: "reader option \<Rightarrow> int \<Rightarrow> wire_error + (Response \<times> nat \<times> reader)" where
  "ReadResponseHeader rd maxPayload =
     (case rd of None \<Rightarrow> Inl ErrMalformed
      | Some r \<Rightarrow>
         (if maxPayload < 0 then Inl ErrMalformed
          else
            bind (ReadVarint r) (\<lambda>(status, r).
            bind (ReadVarint r) (\<lambda>(payloadBytes, r).
              if payloadBytes > uint64 maxPayload
                 \<or> (status \<noteq> 0 \<and> unat payloadBytes > maxDiagnosticBytes)
              then Inl ErrMalformed
              else Inr (\<lparr>rs_Status = status, rs_Payload = []\<rparr>, unat payloadBytes, r)))))"

section \<open>Custom stream headers\<close>

definition EncodeCustomStreamHeader :: "u64 \<Rightarrow> wire_error + bytes" where
  "EncodeCustomStreamHeader messageType =
     (if messageType = 0 \<or> messageType > maxMessageType then Inl ErrMalformed
      else bind (AppendVarint [] CustomStreamKind) (\<lambda>b. AppendVarint b messageType))"

definition DecodeCustomStreamHeader :: "bytes \<Rightarrow> wire_error + u64" where
  "DecodeCustomStreamHeader src =
     bind (DecodeVarint src) (\<lambda>(kind, n).
       if kind \<noteq> CustomStreamKind then Inl ErrInvalidKind
       else
         bind (DecodeVarint (drop n src)) (\<lambda>(typ, m).
           if n + m \<noteq> length src then Inl ErrExtraHeaderBytes
           else if typ = 0 \<or> typ > maxMessageType then Inl ErrMalformed
           else Inr typ))"

section \<open>Lemmas\<close>

lemma payload_length:
  assumes "int (length p) \<le> m" "m < 2 ^ 63"
  shows "unat (of_nat (length p) :: u64) = length p" "\<not> of_nat (length p) > uint64 m"
    "uint64 m \<ge> of_nat (length p)"
proof -
  show len: "unat (of_nat (length p) :: u64) = length p"
    using assms by (intro unat_of_nat_u64) simp
  have "unat (uint64 m) = nat m"
    using assms by (intro unat_uint64) auto
  with assms len show "uint64 m \<ge> of_nat (length p)" "\<not> of_nat (length p) > uint64 m"
    by (simp_all add: word_le_nat_alt word_less_nat_alt)
qed

lemma length_le_limit:
  assumes "\<not> len > uint64 m" "0 \<le> m" "m < 2 ^ 63"
  shows "int (unat len) \<le> m"
proof -
  have "unat (uint64 m) = nat m"
    using assms by (intro unat_uint64) simp_all
  with assms(1) have "unat len \<le> nat m"
    by (simp add: word_less_nat_alt)
  with assms(2) show ?thesis
    by linarith
qed

lemma EncodeRequest_Inr_iff:
  "EncodeRequest rq m = Inr bs \<longleftrightarrow>
     rq_MessageType rq \<noteq> 0 \<and> rq_MessageType rq \<le> maxMessageType \<and> rq_TimeoutMS rq \<noteq> 0
     \<and> rq_TimeoutMS rq \<le> 300000 \<and> int (length (rq_Payload rq)) \<le> m
     \<and> of_nat (length (rq_Payload rq)) \<le> MaxVarint
     \<and> bs = vb RequestStreamKind @ vb (rq_MessageType rq) @ vb (rq_TimeoutMS rq)
            @ vb (of_nat (length (rq_Payload rq))) @ rq_Payload rq"
proof -
  have "t \<le> 300000 \<Longrightarrow> t \<le> MaxVarint" for t :: u64
    by (auto simp: MaxVarint_def push_bit_eq_mult elim: order_trans)
  then show ?thesis
    by (auto simp: EncodeRequest_def append_varints_Inr_iff AppendVarint_Inr_iff VarintLen_pos_iff
        not_less limits_le_MaxVarint)
qed

lemma decode_values_4:
  assumes "a \<le> MaxVarint" "b \<le> MaxVarint" "c \<le> MaxVarint" "d \<le> MaxVarint"
  shows "decode_values 4 (vb a @ vb b @ vb c @ vb d @ p) 0
    = Inr ([a, b, c, d], length (vb a @ vb b @ vb c @ vb d))"
  using assms by (simp add: numeral_eq_Suc DecodeVarint_vb add.assoc)

lemma decode_values_Inr:
  assumes "decode_values k src u = Inr (vs, used)"
  shows "length vs = k \<and> (\<forall>v \<in> set vs. v \<le> MaxVarint) \<and> used = u + length (concat (map vb vs))
    \<and> drop u src = concat (map vb vs) @ drop used src"
  using assms
proof (induction k arbitrary: u vs)
  case 0
  then show ?case by simp
next
  case (Suc k)
  then obtain v n ws where d: "DecodeVarint (drop u src) = Inr (v, n)"
    "decode_values k src (u + n) = Inr (ws, used)" "vs = v # ws"
    by auto
  note s = DecodeVarint_split [OF d(1)]
  from s(3) have "drop u src = vb v @ drop (u + n) src"
    by (simp add: add.commute)
  with Suc.IH [OF d(2)] s d(3) show ?case
    by simp
qed

lemma DecodeRequest_iff:
  assumes "0 \<le> m" "m < 2 ^ 63"
  shows "DecodeRequest bs m = Inr rq \<longleftrightarrow> EncodeRequest rq m = Inr bs"
proof
  assume enc: "EncodeRequest rq m = Inr bs"
  then have "int (length (rq_Payload rq)) \<le> m"
    by (simp add: EncodeRequest_Inr_iff)
  note len = payload_length [OF this assms(2)]
  have "rq_TimeoutMS rq \<le> MaxVarint"
    using enc by (auto simp: EncodeRequest_Inr_iff MaxVarint_def push_bit_eq_mult elim: order_trans)
  with enc len show "DecodeRequest bs m = Inr rq"
    by (simp add: DecodeRequest_def EncodeRequest_Inr_iff decode_values_4 limits_le_MaxVarint not_less)
next
  assume dec: "DecodeRequest bs m = Inr rq"
  then obtain vs used where v: "decode_values 4 bs 0 = Inr (vs, used)"
    by (auto simp: DecodeRequest_def)
  then obtain a b c d where vs: "vs = [a, b, c, d]"
    using decode_values_Inr [OF v] by (auto simp: numeral_eq_Suc length_Suc_conv)
  have ok: "a = RequestStreamKind" "b \<noteq> 0" "b \<le> maxMessageType" "c \<noteq> 0" "c \<le> 300000"
    "\<not> d > uint64 m" "unat d = length (drop used bs)"
    "rq = \<lparr>rq_MessageType = b, rq_TimeoutMS = c, rq_Payload = drop used bs\<rparr>"
    using dec by (auto simp: DecodeRequest_def v vs not_less split: if_splits)
  have "d = of_nat (length (drop used bs))"
    unfolding ok(7) [symmetric] by simp
  moreover have "int (length (drop used bs)) \<le> m"
    using length_le_limit [OF ok(6) assms] ok(7) by simp
  moreover have "bs = vb a @ vb b @ vb c @ vb d @ drop used bs" "d \<le> MaxVarint"
    using decode_values_Inr [OF v] vs by auto
  ultimately show "EncodeRequest rq m = Inr bs"
    using ok(1-5,8) by (simp add: EncodeRequest_Inr_iff)
qed

lemma EncodeResponse_Inr_iff:
  "EncodeResponse rs m = Inr bs \<longleftrightarrow>
     int (length (rs_Payload rs)) \<le> m
     \<and> (rs_Status rs \<noteq> 0 \<longrightarrow> length (rs_Payload rs) \<le> maxDiagnosticBytes \<and> utf8_valid (rs_Payload rs))
     \<and> rs_Status rs \<le> MaxVarint \<and> of_nat (length (rs_Payload rs)) \<le> MaxVarint
     \<and> bs = vb (rs_Status rs) @ vb (of_nat (length (rs_Payload rs))) @ rs_Payload rs"
  by (auto simp: EncodeResponse_def AppendVarint_Inr_iff VarintLen_pos_iff not_less)

lemma DecodeResponse_iff:
  assumes "0 \<le> m" "m < 2 ^ 63"
  shows "DecodeResponse bs m = Inr rs \<longleftrightarrow> EncodeResponse rs m = Inr bs"
proof
  assume enc: "EncodeResponse rs m = Inr bs"
  then have "int (length (rs_Payload rs)) \<le> m"
    by (simp add: EncodeResponse_Inr_iff)
  note len = payload_length [OF this assms(2)]
  from enc len show "DecodeResponse bs m = Inr rs"
    by (auto simp: DecodeResponse_def EncodeResponse_Inr_iff DecodeVarint_vb not_less)
next
  assume dec: "DecodeResponse bs m = Inr rs"
  then obtain st n len k where d: "DecodeVarint bs = Inr (st, n)"
    "DecodeVarint (drop n bs) = Inr (len, k)" "\<not> len > uint64 m" "unat len = length (drop (n + k) bs)"
    "st \<noteq> 0 \<longrightarrow> unat len \<le> maxDiagnosticBytes \<and> utf8_valid (drop (n + k) bs)"
    "rs = \<lparr>rs_Status = st, rs_Payload = drop (n + k) bs\<rparr>"
    by (auto simp: DecodeResponse_def not_less split: if_splits)
  note s1 = DecodeVarint_split [OF d(1)] and s2 = DecodeVarint_split [OF d(2)]
  have len: "len = of_nat (length (drop (n + k) bs))"
    unfolding d(4) [symmetric] by simp
  have "int (length (drop (n + k) bs)) \<le> m"
    using length_le_limit [OF d(3) assms] d(4) by simp
  moreover have "bs = vb st @ vb len @ drop (n + k) bs"
    using s1(3) s2(3) by (simp add: add.commute)
  ultimately show "EncodeResponse rs m = Inr bs"
    using d(4-6) s1(1) s2(1) len by (simp add: EncodeResponse_Inr_iff)
qed

lemma EncodeCustomStreamHeader_Inr_iff:
  "EncodeCustomStreamHeader t = Inr bs \<longleftrightarrow>
     t \<noteq> 0 \<and> t \<le> maxMessageType \<and> bs = vb CustomStreamKind @ vb t"
  by (auto simp: EncodeCustomStreamHeader_def AppendVarint_Inr_iff VarintLen_pos_iff not_less
      limits_le_MaxVarint)

lemma DecodeCustomStreamHeader_iff:
  "DecodeCustomStreamHeader bs = Inr t \<longleftrightarrow> EncodeCustomStreamHeader t = Inr bs"
proof
  assume "EncodeCustomStreamHeader t = Inr bs"
  then show "DecodeCustomStreamHeader bs = Inr t"
    by (auto simp: EncodeCustomStreamHeader_Inr_iff DecodeCustomStreamHeader_def DecodeVarint_vb
        DecodeVarint_vb_only limits_le_MaxVarint)
next
  assume "DecodeCustomStreamHeader bs = Inr t"
  then obtain n k where d: "DecodeVarint bs = Inr (CustomStreamKind, n)"
    "DecodeVarint (drop n bs) = Inr (t, k)" "n + k = length bs" "t \<noteq> 0" "t \<le> maxMessageType"
    by (auto simp: DecodeCustomStreamHeader_def not_less split: if_splits)
  note s1 = DecodeVarint_split [OF d(1)] and s2 = DecodeVarint_split [OF d(2)]
  have "bs = vb CustomStreamKind @ vb t"
    using s1(3) s2(3) d(3) by simp
  with d show "EncodeCustomStreamHeader t = Inr bs"
    by (simp add: EncodeCustomStreamHeader_Inr_iff)
qed

section \<open>The codecs keep their contract\<close>

text \<open>A limit is a non-negative Go \<open>int\<close>: the value of a 63-bit word.\<close>

lemma limit_bounds: "0 \<le> uint (l :: 63 word)" "uint (l :: 63 word) < 2 ^ 63"
  using uint_lt2p [of l] by simp_all

interpretation request: canonical_codec "\<lambda>rq. EncodeRequest rq (uint (l :: 63 word))"
  "\<lambda>bs. DecodeRequest bs (uint l)" "\<lambda>rq. rq" for l
  by unfold_locales (simp_all add: DecodeRequest_iff [OF limit_bounds])

interpretation response: canonical_codec "\<lambda>rs. EncodeResponse rs (uint (l :: 63 word))"
  "\<lambda>bs. DecodeResponse bs (uint l)" "\<lambda>rs. rs" for l
  by unfold_locales (simp_all add: DecodeResponse_iff [OF limit_bounds])

interpretation custom: canonical_codec EncodeCustomStreamHeader DecodeCustomStreamHeader "\<lambda>t. t"
  by unfold_locales (simp_all add: DecodeCustomStreamHeader_iff)

section \<open>Properties\<close>

definition rq_sample :: Request where
  "rq_sample = \<lparr>rq_MessageType = 20, rq_TimeoutMS = 1000, rq_Payload = [0xaa]\<rparr>"

definition rs_sample :: Response where
  "rs_sample = \<lparr>rs_Status = 13, rs_Payload = [0x6e, 0x6f]\<rparr>"

text \<open>
  Request and response frames are bijections: under a non-negative payload limit a decoder accepts a byte
  string exactly when it is the encoding of the message it returns; in particular no trailing bytes, no zero type or
  timeout and no payload above the limit get through. A failure status admits only a UTF-8 diagnostic of at most 256 bytes.
\<close>

theorem request_response_bijection:
  assumes "0 \<le> m" "m < 2 ^ 63"
  shows "(DecodeRequest bs m = Inr rq \<longleftrightarrow> EncodeRequest rq m = Inr bs)
    \<and> (DecodeResponse bs m = Inr rs \<longleftrightarrow> EncodeResponse rs m = Inr bs)
    \<and> (DecodeResponse bs m = Inr rs \<longrightarrow> rs_Status rs \<noteq> 0 \<longrightarrow>
         length (rs_Payload rs) \<le> maxDiagnosticBytes \<and> utf8_valid (rs_Payload rs))"
  using DecodeRequest_iff [OF assms] DecodeResponse_iff [OF assms] EncodeResponse_Inr_iff by blast

theorem request_response_bijection_witness:
  "DecodeRequest [0x02, 0x14, 0x43, 0xe8, 0x01, 0xaa] 64 = Inr rq_sample \<and>
   DecodeResponse [13, 2, 0x6e, 0x6f] 64 = Inr rs_sample \<and>
   DecodeResponse [13, 1, 0xff] 64 \<noteq> Inr \<lparr>rs_Status = 13, rs_Payload = [0xff]\<rparr>"
proof -
  have "EncodeRequest rq_sample 64 = Inr [0x02, 0x14, 0x43, 0xe8, 0x01, 0xaa]"
    by (simp add: EncodeRequest_def rq_sample_def eval_defs)
  moreover have "EncodeResponse rs_sample 64 = Inr [13, 2, 0x6e, 0x6f]"
    by (simp add: EncodeResponse_def rs_sample_def maxDiagnosticBytes_def eval_defs)
  ultimately show ?thesis
    using request_response_bijection [of 64 "[0x02, 0x14, 0x43, 0xe8, 0x01, 0xaa]" rq_sample]
      request_response_bijection [of 64 "[13, 2, 0x6e, 0x6f]" _ rs_sample]
      request_response_bijection [of 64 "[13, 1, 0xff]" _ "\<lparr>rs_Status = 13, rs_Payload = [0xff]\<rparr>"]
    by auto
qed

lemma incremental_readers:
  assumes "0 \<le> m" "m < 2 ^ 63"
  shows "EncodeRequest rq m = Inr bs \<Longrightarrow>
      \<exists>r1 r2. ReadVarint (Reader (bs @ rest) e) = Inr (RequestStreamKind, r1)
        \<and> ReadRequestHeader (Some r1) m = Inr (rq\<lparr>rq_Payload := []\<rparr>, length (rq_Payload rq), r2)
        \<and> ReadFull r2 (length (rq_Payload rq)) = Inr (rq_Payload rq, Reader rest e)"
    and "EncodeResponse rs m = Inr bs \<Longrightarrow>
      \<exists>r2. ReadResponseHeader (Some (Reader (bs @ rest) e)) m
          = Inr (rs\<lparr>rs_Payload := []\<rparr>, length (rs_Payload rs), r2)
        \<and> ReadFull r2 (length (rs_Payload rs)) = Inr (rs_Payload rs, Reader rest e)"
    and "ReadRequestHeader rd m = Inr (rq, n, r) \<Longrightarrow> int n \<le> m"
    and "ReadResponseHeader rd m = Inr (rs, n, r) \<Longrightarrow> int n \<le> m"
proof -
  assume enc: "EncodeRequest rq m = Inr bs"
  then have e: "int (length (rq_Payload rq)) \<le> m" "of_nat (length (rq_Payload rq)) \<le> MaxVarint"
    "rq_MessageType rq \<le> MaxVarint"
    by (auto simp: EncodeRequest_Inr_iff limits_le_MaxVarint)
  note len = payload_length [OF e(1) assms(2)]
  have "rq_TimeoutMS rq \<le> MaxVarint"
    using enc by (auto simp: EncodeRequest_Inr_iff MaxVarint_def push_bit_eq_mult elim: order_trans)
  with enc e len assms(1) show "\<exists>r1 r2. ReadVarint (Reader (bs @ rest) e) = Inr (RequestStreamKind, r1)
        \<and> ReadRequestHeader (Some r1) m = Inr (rq\<lparr>rq_Payload := []\<rparr>, length (rq_Payload rq), r2)
        \<and> ReadFull r2 (length (rq_Payload rq)) = Inr (rq_Payload rq, Reader rest e)"
    by (auto simp: EncodeRequest_Inr_iff ReadVarint_vb ReadRequestHeader_def ReadFull_def not_less)
next
  assume enc: "EncodeResponse rs m = Inr bs"
  then have e: "int (length (rs_Payload rs)) \<le> m"
    by (simp add: EncodeResponse_Inr_iff)
  note len = payload_length [OF e assms(2)]
  with enc e assms(1) show "\<exists>r2. ReadResponseHeader (Some (Reader (bs @ rest) e)) m
          = Inr (rs\<lparr>rs_Payload := []\<rparr>, length (rs_Payload rs), r2)
        \<and> ReadFull r2 (length (rs_Payload rs)) = Inr (rs_Payload rs, Reader rest e)"
    by (auto simp: EncodeResponse_Inr_iff ReadVarint_vb ReadResponseHeader_def ReadFull_def not_less)
next
  assume "ReadRequestHeader rd m = Inr (rq, n, r)"
  then show "int n \<le> m"
    using length_le_limit [OF _ assms]
    by (auto simp: ReadRequestHeader_def split: option.splits if_splits)
next
  assume "ReadResponseHeader rd m = Inr (rs, n, r)"
  then show "int n \<le> m"
    using length_le_limit [OF _ assms]
    by (auto simp: ReadResponseHeader_def split: option.splits if_splits)
qed

text \<open>
  The incremental readers of the request and response streams read what the encoders wrote:
  after the stream-kind varint of a request, \<open>ReadRequestHeader\<close> returns its type, timeout and
  exact payload length and the payload is what follows; likewise for a response. A successful header
  read therefore bounds the allocation by the configured limit before any body byte is read.
\<close>

theorem incremental_request_reader:
  assumes "0 \<le> m" "m < 2 ^ 63"
  shows "(EncodeRequest rq m = Inr bs \<longrightarrow>
      (\<exists>r1 r2. ReadVarint (Reader (bs @ rest) e) = Inr (RequestStreamKind, r1)
        \<and> ReadRequestHeader (Some r1) m = Inr (rq\<lparr>rq_Payload := []\<rparr>, length (rq_Payload rq), r2)
        \<and> ReadFull r2 (length (rq_Payload rq)) = Inr (rq_Payload rq, Reader rest e)))
    \<and> (EncodeResponse rs m = Inr bs \<longrightarrow>
      (\<exists>r2. ReadResponseHeader (Some (Reader (bs @ rest) e)) m
          = Inr (rs\<lparr>rs_Payload := []\<rparr>, length (rs_Payload rs), r2)
        \<and> ReadFull r2 (length (rs_Payload rs)) = Inr (rs_Payload rs, Reader rest e)))
    \<and> (ReadRequestHeader rd m = Inr (rq', n, r) \<longrightarrow> int n \<le> m)
    \<and> (ReadResponseHeader rd m = Inr (rs', n', r) \<longrightarrow> int n' \<le> m)"
  using incremental_readers [OF assms] by blast

theorem incremental_request_reader_witness:
  "EncodeRequest rq_sample 64 = Inr [0x02, 0x14, 0x43, 0xe8, 0x01, 0xaa] \<and>
   (\<exists>r1 r2. ReadVarint (Reader ([0x02, 0x14, 0x43, 0xe8, 0x01, 0xaa] @ [5]) EOF) = Inr (RequestStreamKind, r1)
     \<and> ReadRequestHeader (Some r1) 64 = Inr (rq_sample\<lparr>rq_Payload := []\<rparr>, length (rq_Payload rq_sample), r2)
     \<and> ReadFull r2 (length (rq_Payload rq_sample)) = Inr (rq_Payload rq_sample, Reader [5] EOF))"
proof -
  have enc: "EncodeRequest rq_sample 64 = Inr [0x02, 0x14, 0x43, 0xe8, 0x01, 0xaa]"
    by (simp add: EncodeRequest_def rq_sample_def eval_defs)
  then show ?thesis
    using incremental_request_reader [THEN conjunct1, rule_format, OF _ _ enc, of "[5]" EOF] by simp
qed

end
