(* ===== verification/Streams.thy ===== *)
theory Streams
  imports Channels Requests
begin

text \<open>
  The readers of one connection's streams in \<open>endpoint.go\<close>: \<open>readReliableStream\<close>,
  \<open>readApplicationStream\<close>, the request half \<open>readRequestStream\<close>, and the caller's half \<open>call\<close>. A
  stream is a reader: the bytes that arrive and how it ends. What other components decide (the rate
  limiter, the admission of a payload to a queue, whether delivery succeeds) is an argument, asked
  once per message. Closing a session with a code and reporting a protocol violation are values.
\<close>

section \<open>How a reader ends\<close>

text \<open>
  A violation is reported at once or after waiting for a concurrent close; a session is closed with a
  code, in one case only while the epoch is live and the connection is still the current one.
\<close>

datatype stream_end = ViolationNow | ViolationAfterRead wire_error | CloseSession Code | CloseIfCurrent Code

text \<open>\<open>protocolViolationAfterStreamRead\<close>: no error and an end of stream are violations at once; any
  other error first waits for a concurrent close of the transport.\<close>

definition protocolViolationAfterStreamRead :: "wire_error option \<Rightarrow> stream_end" where
  "protocolViolationAfterStreamRead err =
     (case err of None \<Rightarrow> ViolationNow
      | Some e \<Rightarrow> if e = IOError EOF then ViolationNow else ViolationAfterRead e)"

lemma read_more_shrinks: "read_more k v r = Inr (v', r') \<Longrightarrow> length (pending r') \<le> length (pending r)"
proof (induction k arbitrary: v r)
  case (Suc k)
  then obtain b r1 where "ReadByte r = Inr (b, r1)" "read_more k (push_bit 8 v OR ucast b) r1 = Inr (v', r')"
    by (auto split: sum.splits)
  with Suc.IH [of _ r1] show ?case
    by (cases r rule: ReadByte.cases) fastforce+
qed simp

lemma ReadVarint_shrinks: "ReadVarint r = Inr (v, r') \<Longrightarrow> length (pending r') < length (pending r)"
  by (cases r rule: ReadByte.cases)
    (auto simp: ReadVarint_def Let_def split: if_splits dest!: read_more_shrinks)

lemma ReadReliableEventHeader_shrinks:
  "ReadReliableEventHeader (Some r) len m = Inr (ev, n, r') \<Longrightarrow> length (pending r') < length (pending r)"
  by (auto simp: ReadReliableEventHeader_def Let_def split: if_splits dest!: ReadVarint_shrinks)

lemma ReadFull_shrinks: "ReadFull r n = Inr (p, r') \<Longrightarrow> length (pending r') \<le> length (pending r)"
  by (auto simp: ReadFull_def split: if_splits)

section \<open>Reliable streams\<close>

text \<open>The answers of the other components for the \<open>k\<close>-th message of a stream.\<close>

record pressure =
  pr_allowed :: "nat \<Rightarrow> bool"
  pr_reserved :: "nat \<Rightarrow> bool"
  pr_delivered :: "nat \<Rightarrow> bool"

text \<open>The message loop of \<open>readReliableStream\<close>: the delivered events and how the stream ended.\<close>

function reliable_loop :: "pressure \<Rightarrow> Limits \<Rightarrow> u64 \<Rightarrow> nat \<Rightarrow> reader \<Rightarrow> Event list \<times> stream_end" where
  "reliable_loop p limits channel k r =
     (case ReadVarint r of
        Inl e \<Rightarrow> ([], protocolViolationAfterStreamRead (Some e))
      | Inr (len, r1) \<Rightarrow>
          if len > uint64 (MessageBytes limits + 32) then ([], ViolationNow)
          else
            (case ReadReliableEventHeader (Some r1) len (MessageBytes limits) of
               Inl e \<Rightarrow> ([], protocolViolationAfterStreamRead (Some e))
             | Inr (event, payloadBytes, r2) \<Rightarrow>
                 if ev_Channel event \<noteq> channel then ([], protocolViolationAfterStreamRead None)
                 else if \<not> pr_allowed p k then ([], CloseSession ResourceExhausted)
                 else if \<not> pr_reserved p k then ([], CloseIfCurrent SlowConsumer)
                 else
                   (case ReadFull r2 payloadBytes of
                      Inl e \<Rightarrow> ([], protocolViolationAfterStreamRead (Some (IOError e)))
                    | Inr (payload, r3) \<Rightarrow>
                        if \<not> pr_delivered p k then ([], CloseIfCurrent SlowConsumer)
                        else
                          (let (events, how) = reliable_loop p limits channel (Suc k) r3 in
                           (event\<lparr>ev_Payload := payload\<rparr> # events, how)))))"
  by pat_completeness auto
termination
  by (relation "measure (\<lambda>(p, limits, channel, k, r). length (pending r))")
    (auto dest!: ReadVarint_shrinks ReadReliableEventHeader_shrinks ReadFull_shrinks)

declare reliable_loop.simps [simp del]

definition readReliableStream :: "pressure \<Rightarrow> channels \<Rightarrow> reader \<Rightarrow> Event list \<times> stream_end \<times> channels" where
  "readReliableStream p c r =
     (case ReadVarint r of
        Inl e \<Rightarrow> ([], protocolViolationAfterStreamRead (Some e), c)
      | Inr (kind, r1) \<Rightarrow>
          if kind \<noteq> ReliableEventKind then ([], protocolViolationAfterStreamRead None, c)
          else
            (case ReadVarint r1 of
               Inl e \<Rightarrow> ([], protocolViolationAfterStreamRead (Some e), c)
             | Inr (channel, r2) \<Rightarrow>
                 if channel > maxChannel then ([], protocolViolationAfterStreamRead None, c)
                 else
                   (case bindInbound c (ucast channel) ReliableOrdered of
                      (False, c) \<Rightarrow> ([], CloseSession ProtocolViolation, c)
                    | (True, c) \<Rightarrow>
                        (let (events, how) = reliable_loop p (ch_limits c) channel 0 r2 in (events, how, c)))))"

section \<open>Application streams\<close>

text \<open>
  \<open>readApplicationStream\<close>: what an accepted bidirectional stream turns out to be. The deadline the
  stream still carries when it is handed on is part of the result.
\<close>

datatype application_stream =
  StreamViolation stream_end
| RequestRefused Code bool
| RequestStream reader "time option"
| CustomRefused Code bool
| CustomStream MessageType reader "time option"
| UnknownStream

definition readApplicationStream :: "time \<Rightarrow> bool \<Rightarrow> channels \<Rightarrow> reader \<Rightarrow> application_stream \<times> channels" where
  "readApplicationStream now allowed c r =
     (let deadline = Some (now + AuthTimeout (ch_limits c)) in
      case ReadVarint r of
        Inl e \<Rightarrow> (StreamViolation (protocolViolationAfterStreamRead (Some e)), c)
      | Inr (kind, r1) \<Rightarrow>
          if kind = RequestStreamKind
          then
            (if \<not> allowed then (RequestRefused ResourceExhausted True, c)
             else
               (case acquireRequest c True of
                  (False, c) \<Rightarrow> (RequestRefused ResourceExhausted False, c)
                | (True, c) \<Rightarrow> (RequestStream r1 deadline, c)))
          else if kind = CustomStreamKind
          then
            (case ReadVarint r1 of
               Inl e \<Rightarrow> (StreamViolation (protocolViolationAfterStreamRead (Some e)), c)
             | Inr (messageType, r2) \<Rightarrow>
                 if messageType = 0 \<or> messageType > maxMessageType
                 then (StreamViolation (protocolViolationAfterStreamRead None), c)
                 else if \<not> allowed then (CustomRefused ResourceExhausted True, c)
                 else
                   (case acquireStream c True of
                      (False, c) \<Rightarrow> (CustomRefused ResourceExhausted False, c)
                    | (True, c) \<Rightarrow> (CustomStream (ucast messageType) r2 None, c)))
          else (UnknownStream, c))"

text \<open>\<open>readRequestStream\<close> up to the envelope: the request, or how the reader ended.\<close>

definition readRequestStream :: "pressure \<Rightarrow> Limits \<Rightarrow> reader \<Rightarrow> stream_end + Request" where
  "readRequestStream p limits r =
     (case ReadRequestHeader (Some r) (MessageBytes limits) of
        Inl e \<Rightarrow> Inl (protocolViolationAfterStreamRead (Some e))
      | Inr (request, payloadBytes, r1) \<Rightarrow>
          if \<not> pr_reserved p 0 then Inl (CloseIfCurrent SlowConsumer)
          else
            (case ReadFull r1 payloadBytes of
               Inl e \<Rightarrow> Inl (protocolViolationAfterStreamRead (Some (IOError e)))
             | Inr (payload, _) \<Rightarrow> Inr (request\<lparr>rq_Payload := payload\<rparr>)))"

text \<open>
  Its closure \<open>respond\<close>: the answer of a request. \<open>write\<close> and \<open>closeWrite\<close> are what the stream
  returns; the second component is the frame that was written.
\<close>

definition respond_request :: "ctx_error option \<Rightarrow> bool \<Rightarrow> (bytes \<Rightarrow> error option) \<Rightarrow> error option \<Rightarrow> int \<Rightarrow> direction \<Rightarrow>
  Code \<Rightarrow> bytes \<Rightarrow> (error option \<times> bytes option \<times> direction) option" where
  "respond_request ctx current write closeWrite limit d status payload =
     (case ctx of
        Some e \<Rightarrow> Some (Some (CtxError e), None, d)
      | None \<Rightarrow>
          if \<not> current then Some (Some ErrSessionSuperseded, None, d)
          else
            (case reserveReplyDirectionalBytes d (int (length payload) + 32) of
               (Inl err, d) \<Rightarrow> Some (Some err, None, d)
             | (Inr charge, d) \<Rightarrow>
                 (let (err, frame) =
                    (case EncodeResponse \<lparr>rs_Status = ucast status, rs_Payload = payload\<rparr> limit of
                       Inl e \<Rightarrow> (Some (mapWireError (WireError e)), None)
                     | Inr frame \<Rightarrow>
                         (case write frame of
                            Some e \<Rightarrow> (Some e, None)
                          | None \<Rightarrow> (closeWrite, Some frame))) in
                  map_option (\<lambda>d. (err, frame, d)) (release_directional d charge))))"

section \<open>Calls\<close>

definition unknownRequestOutcome :: "error option \<Rightarrow> error" where
  "unknownRequestOutcome cause =
     Error OutcomeUnknown [] True 0 (Some (case cause of None \<Rightarrow> CtxError Canceled_ctx | Some e \<Rightarrow> e))"

text \<open>The timeout of a call, from the limit and the time left until the caller's deadline.\<close>

definition call_timeout :: "Limits \<Rightarrow> duration option \<Rightarrow> error + u64" where
  "call_timeout limits remaining =
     (let timeout = (case remaining of
            Some left \<Rightarrow> if left < RequestTimeout limits then left else RequestTimeout limits
          | None \<Rightarrow> RequestTimeout limits) in
      if timeout \<le> 0 then Inl (Error DeadlineExceeded [] False 0 (Some (CtxError DeadlineExceeded_ctx)))
      else
        (let timeoutMS = uint64 (timeout div Millisecond) in
         Inr (if timeoutMS = 0 then 1 else timeoutMS)))"

text \<open>
  The goroutine that reads the response: the response when it is complete and well formed; \<open>Inl\<close>
  carries the error and whether the peer's answer was complete. \<open>reserved\<close> says whether the body's
  bytes could be reserved.
\<close>

definition read_response :: "bool \<Rightarrow> Limits \<Rightarrow> reader \<Rightarrow> (error \<times> bool) + Response" where
  "read_response reserved limits r =
     (case ReadResponseHeader (Some r) (MessageBytes limits) of
        Inl e \<Rightarrow> Inl (WireError e, False)
      | Inr (response, payloadBytes, r1) \<Rightarrow>
          if \<not> reserved then Inl (ErrBackpressure, False)
          else
            (case ReadFull r1 payloadBytes of
               Inl e \<Rightarrow> Inl (WireError (IOError e), False)
             | Inr (payload, r2) \<Rightarrow>
                 if pending r2 \<noteq> [] then Inl (WireError ErrMalformed, True)
                 else if ending r2 \<noteq> EOF then Inl (WireError (IOError (ending r2)), False)
                 else if rs_Status response \<noteq> 0 \<and> \<not> utf8_valid payload then Inl (WireError ErrMalformed, True)
                 else Inr (response\<lparr>rs_Payload := payload\<rparr>)))"

text \<open>
  The surroundings of a call: whether the connection is current, what its stream does, how many bytes
  a failing write got out, and whether the response arrives before the contexts end (\<open>Inl\<close> the cause).
\<close>

record call_env =
  ce_current :: bool
  ce_remaining :: "duration option"
  ce_open :: "error option"
  ce_write :: "nat \<times> error option"
  ce_closeWrite :: "error option"
  ce_response :: "error + reader"
  ce_reserved :: bool

text \<open>The part of \<open>call\<close> between the acquisition and the release of its slot and outgoing bytes.\<close>

definition call_exchange :: "call_env \<Rightarrow> int \<Rightarrow> Limits \<Rightarrow> MessageType \<Rightarrow> bytes \<Rightarrow> error + bytes" where
  "call_exchange env limit limits mt payload =
     (case call_timeout limits (ce_remaining env) of
        Inl err \<Rightarrow> Inl err
      | Inr timeoutMS \<Rightarrow>
          (case ce_open env of
             Some err \<Rightarrow> Inl err
           | None \<Rightarrow>
               (case EncodeRequest \<lparr>rq_MessageType = ucast mt, rq_TimeoutMS = timeoutMS, rq_Payload = payload\<rparr> limit of
                  Inl err \<Rightarrow> Inl (mapWireError (WireError err))
                | Inr request \<Rightarrow>
                    (case ce_write env of
                       (written, Some err) \<Rightarrow> if written > 0 then Inl (unknownRequestOutcome (Some err)) else Inl err
                     | (_, None) \<Rightarrow>
                         (case ce_closeWrite env of
                            Some err \<Rightarrow> Inl (unknownRequestOutcome (Some err))
                          | None \<Rightarrow>
                              (case ce_response env of
                                 Inl cause \<Rightarrow> Inl (unknownRequestOutcome (Some cause))
                               | Inr r \<Rightarrow>
                                   (case read_response (ce_reserved env) limits r of
                                      Inl (err, complete) \<Rightarrow>
                                        if complete then Inl (mapWireError err) else Inl (unknownRequestOutcome (Some err))
                                    | Inr response \<Rightarrow>
                                        if rs_Status response \<noteq> 0
                                        then Inl (Error (ucast (rs_Status response))
                                               (map (char_of :: nat \<Rightarrow> char) (map unat (rs_Payload response))) False 0 None)
                                        else Inr (rs_Payload response))))))))"

definition call_op :: "call_env \<Rightarrow> int \<Rightarrow> direction \<Rightarrow> channels \<Rightarrow> MessageType \<Rightarrow> bytes \<Rightarrow>
  ((error + bytes) \<times> channels \<times> direction) option" where
  "call_op env limit d c mt payload =
     (if \<not> ce_current env then Some (Inl ErrSessionSuspended, c, d)
      else
        (case acquireRequest c False of
           (False, c) \<Rightarrow> Some (Inl ErrResourceExhausted, c, d)
         | (True, c) \<Rightarrow>
             (case reserveDirectionalBytes d (int (length payload) + 32) of
                (Inl err, d) \<Rightarrow> Some (Inl err, releaseRequest c False, d)
              | (Inr charge, d) \<Rightarrow>
                  (let result = call_exchange env limit (ch_limits c) mt payload in
                   map_option (\<lambda>d. (result, releaseRequest c False, d)) (release_directional d charge)))))"

section \<open>A reliable channel end to end\<close>

text \<open>Successive reliable sends on one channel, all of which succeed (\<open>None\<close> otherwise).\<close>

fun send_messages :: "transport \<Rightarrow> int \<Rightarrow> channels \<Rightarrow> ChannelID \<Rightarrow> (MessageType \<times> bytes) list \<Rightarrow> sent list option" where
  "send_messages t limit c channel [] = Some []"
| "send_messages t limit c channel ((mt, payload) # rest) =
     (case send_reliable t limit c mt payload channel of
        (None, c', out) \<Rightarrow> map_option ((@) out) (send_messages t limit c' channel rest)
      | _ \<Rightarrow> None)"

definition stream_bytes :: "pointer \<Rightarrow> sent list \<Rightarrow> bytes" where
  "stream_bytes s out = concat (map (\<lambda>x. case x of OnStream s' bs \<Rightarrow> if s' = s then bs else [] | AsDatagram _ \<Rightarrow> []) out)"

definition message_event :: "ChannelID \<Rightarrow> MessageType \<times> bytes \<Rightarrow> Event" where
  "message_event channel m = \<lparr>ev_Kind = ReliableEventKind, ev_Channel = ucast channel, ev_MessageType = ucast (fst m),
     ev_Sequence = 0, ev_Payload = snd m\<rparr>"

lemma stream_bytes_simps [simp]:
  "stream_bytes s [] = []" "stream_bytes s (x @ y) = stream_bytes s x @ stream_bytes s y"
  "stream_bytes s [OnStream s bs] = bs"
  by (simp_all add: stream_bytes_def)

text \<open>The bytes of one frame do not depend on the limit it was checked against.\<close>

lemma EncodeReliableEvent_mono:
  assumes "EncodeReliableEvent ev m = Inr bs" "m \<le> limit" "limit + 32 \<le> maxInt"
  shows "EncodeReliableEvent ev limit = Inr bs"
proof -
  have "0 \<le> m"
    using assms(1) by (auto simp: EncodeReliableEvent_def split: if_splits)
  then have "wrap64 (m + 32) = m + 32" "wrap64 (limit + 32) = limit + 32"
    using assms(2,3) by (auto simp: wrap64_id int64_range_def maxInt_def)
  moreover from this(1) assms(1) obtain body pre where
    "ev_Kind ev = 0 \<or> ev_Kind ev = ReliableEventKind" "int (length (ev_Payload ev)) \<le> m"
    "validateEvent (ev\<lparr>ev_Kind := ReliableEventKind\<rparr>) False = Inr ()"
    "appendEvent [] (ev\<lparr>ev_Kind := ReliableEventKind\<rparr>) False = Inr body" "int (length body) \<le> m + 32"
    "AppendVarint [] (of_nat (length body)) = Inr pre" "bs = pre @ body"
    by (auto simp: EncodeReliableEvent_def Let_def not_less split: if_splits)
  ultimately show ?thesis
    using assms(2) \<open>0 \<le> m\<close> by (simp add: EncodeReliableEvent_def Let_def not_less)
qed

lemma reliable_loop_frame:
  assumes "EncodeReliableEvent ev (MessageBytes limits) = Inr bs" "MessageBytes limits \<in> int64_range"
    and "ev_Channel ev = channel" "pr_allowed p k" "pr_reserved p k" "pr_delivered p k"
  shows "reliable_loop p limits channel k (Reader (bs @ rest) e) =
    (let (events, how) = reliable_loop p limits channel (Suc k) (Reader rest e) in (reliable_norm ev # events, how))"
proof -
  from ReadReliableEventHeader_encoded [OF assms(1,2), of rest e] obtain len r1 where
    r: "ReadVarint (Reader (bs @ rest) e) = Inr (len, r1)" "len \<le> uint64 (MessageBytes limits + 32)"
      "ReadReliableEventHeader (Some r1) len (MessageBytes limits)
        = Inr ((reliable_norm ev)\<lparr>ev_Payload := []\<rparr>, length (ev_Payload ev), Reader (ev_Payload ev @ rest) e)"
    by blast
  have "ReadFull (Reader (ev_Payload ev @ rest) e) (length (ev_Payload ev)) = Inr (ev_Payload ev, Reader rest e)"
    by (simp add: ReadFull_def)
  moreover have "(reliable_norm ev)\<lparr>ev_Payload := ev_Payload ev\<rparr> = reliable_norm ev" "ev_Channel (reliable_norm ev) = channel"
    using assms(3) by (simp_all add: reliable_norm_def)
  ultimately show ?thesis
    using r assms(4-6) by (simp add: reliable_loop.simps [of p limits channel k] Let_def not_less split: prod.splits)
qed

lemma EncodeReliableEvent_zero_kind:
  "EncodeReliableEvent (ev\<lparr>ev_Kind := 0\<rparr>) m = EncodeReliableEvent (ev\<lparr>ev_Kind := ReliableEventKind\<rparr>) m"
  by (simp add: EncodeReliableEvent_def)

lemma message_event_frame:
  "EncodeReliableEvent \<lparr>ev_Kind = 0, ev_Channel = ucast channel, ev_MessageType = ucast mt, ev_Sequence = 0, ev_Payload = payload\<rparr> m
   = EncodeReliableEvent (message_event channel (mt, payload)) m"
  using EncodeReliableEvent_zero_kind [of "message_event channel (mt, payload)" m] by (simp add: message_event_def)

lemma channel_le_max: "(ucast (channel :: ChannelID) :: u64) \<le> maxChannel"
proof -
  have "unat (ucast channel :: u64) = unat channel"
    by (simp add: unsigned_ucast_eq take_bit_nat_eq_self order_less_le_trans [OF unsigned_less])
  moreover have "unat channel < 2 ^ LENGTH(16)"
    by (rule unsigned_less)
  ultimately show ?thesis
    by (simp add: word_le_nat_alt maxChannel_def push_bit_eq_mult)
qed

lemma channel_header:
  "EncodeReliableChannelHeaderFor (ucast (channel :: ChannelID)) = Inr (vb ReliableEventKind @ vb (ucast channel))"
  using channel_le_max [of channel] limits_le_MaxVarint(1) [OF channel_le_max, of channel]
  by (simp add: EncodeReliableChannelHeaderFor_def AppendVarint_ok)

text \<open>What \<open>send_reliable\<close> puts on the channel's stream: the channel header first, then one frame.\<close>

lemma bindReliableSender_Inr:
  assumes "bindReliableSender t c channel = (Inr s', c', w)"
    and "ch_reliable c channel = Some s \<or> ch_reliable c channel = None \<and> tr_openUni t = Inr s"
  shows "s' = s \<and> ch_reliable c' channel = Some s
    \<and> w = (if ch_reliable c channel = None then [(s, vb ReliableEventKind @ vb (ucast channel))] else [])"
proof -
  obtain e c1 where bind: "bindOutbound c channel ReliableOrdered = (e, c1)"
    by fastforce
  then have "ch_reliable c1 = ch_reliable c"
    by (auto simp: bindOutbound_def split: option.splits if_splits)
  with assms bind show ?thesis
    by (auto simp: bindReliableSender_def channel_header split: option.splits)
qed

lemma send_reliable_bytes:
  assumes "send_reliable t limit c mt payload channel = (None, c', out)"
    and "ch_reliable c channel = Some s \<or> ch_reliable c channel = None \<and> tr_openUni t = Inr s"
  shows "\<exists>frame. EncodeReliableEvent (message_event channel (mt, payload)) limit = Inr frame
    \<and> ch_reliable c' channel = Some s
    \<and> stream_bytes s out = (if ch_reliable c channel = None then vb ReliableEventKind @ vb (ucast channel) else []) @ frame"
proof -
  obtain r c1 w where bind: "bindReliableSender t c channel = (r, c1, w)"
    using prod_cases3 by blast
  obtain frame s' where ok: "EncodeReliableEvent (message_event channel (mt, payload)) limit = Inr frame" "r = Inr s'"
      "out = map (case_prod OnStream) w @ [OnStream s' frame]" "c' = c1"
    using assms(1) bind by (auto simp: send_reliable_def message_event_frame split: sum.splits option.splits)
  from bindReliableSender_Inr [OF bind [unfolded ok(2)] assms(2)] ok show ?thesis
    by auto
qed

lemma send_messages_bytes:
  assumes "send_messages t limit c channel msgs = Some out" "ch_reliable c channel = Some s"
  shows "\<exists>frames. stream_bytes s out = concat frames
    \<and> list_all2 (\<lambda>m frame. EncodeReliableEvent (message_event channel m) limit = Inr frame) msgs frames"
  using assms
proof (induction msgs arbitrary: c out)
  case Nil
  then show ?case by (auto intro: exI [of _ "[]"])
next
  case (Cons m msgs)
  obtain mt payload where m: "m = (mt, payload)"
    by fastforce
  with Cons.prems(1) obtain c' out1 out2 where
    send: "send_reliable t limit c mt payload channel = (None, c', out1)"
      "send_messages t limit c' channel msgs = Some out2" "out = out1 @ out2"
    by (auto split: prod.splits option.splits)
  from send_reliable_bytes [OF send(1), of s] Cons.prems(2) obtain frame where
    frame: "EncodeReliableEvent (message_event channel m) limit = Inr frame" "ch_reliable c' channel = Some s"
      "stream_bytes s out1 = frame"
    by (auto simp: m)
  from Cons.IH [OF send(2) frame(2)] obtain frames where
    "stream_bytes s out2 = concat frames"
    "list_all2 (\<lambda>m frame. EncodeReliableEvent (message_event channel m) limit = Inr frame) msgs frames"
    by blast
  with frame send(3) show ?case
    by (intro exI [of _ "frame # frames"]) simp
qed

lemma reliable_loop_frames:
  assumes "list_all2 (\<lambda>m frame. EncodeReliableEvent (message_event channel m) (MessageBytes limits) = Inr frame) msgs frames"
    and "MessageBytes limits \<in> int64_range" "\<forall>j. pr_allowed p j \<and> pr_reserved p j \<and> pr_delivered p j"
  shows "reliable_loop p limits (ucast channel) k (Reader (concat frames) e)
    = (map (message_event channel) msgs, protocolViolationAfterStreamRead (Some (IOError e)))"
  using assms(1)
proof (induction arbitrary: k rule: list_all2_induct)
  case Nil
  then show ?case by (simp add: reliable_loop.simps ReadVarint_def)
next
  case (Cons m msgs frame frames)
  have "ev_Channel (message_event channel m) = ucast channel" "reliable_norm (message_event channel m) = message_event channel m"
    by (simp_all add: message_event_def reliable_norm_def)
  with reliable_loop_frame [OF Cons.hyps(1) assms(2), of "ucast channel" p k "concat frames" e] Cons.IH [of "Suc k"] assms(3)
  show ?case by simp
qed

section \<open>Properties\<close>

text \<open>
  C11. A reliable channel delivers exactly what was sent, in order: when the sends of a list of
  messages on a channel succeed and the stream carries their bytes to a receiver whose message limit
  is at least the sender's, whose channel limit has room and whose queues keep up, the receiver binds
  the channel and delivers precisely these messages in their order, whatever way the stream ends.
\<close>

theorem reliable_channel_end_to_end:
  fixes channel :: ChannelID
  assumes "send_messages t limit sender channel msgs = Some out" "msgs \<noteq> []"
    and "ch_reliable sender channel = None" "tr_openUni t = Inr s"
    and "limit \<le> MessageBytes (ch_limits receiver)" "MessageBytes (ch_limits receiver) + 32 \<le> maxInt"
    and "bindInbound receiver channel ReliableOrdered = (True, receiver')"
    and "\<forall>j. pr_allowed p j \<and> pr_reserved p j \<and> pr_delivered p j"
  shows "readReliableStream p receiver (Reader (stream_bytes s out) e)
    = (map (message_event channel) msgs, protocolViolationAfterStreamRead (Some (IOError e)), receiver')"
proof -
  obtain mt payload rest where msgs: "msgs = (mt, payload) # rest"
    using assms(2) by (metis list.exhaust surj_pair)
  with assms(1) obtain c' out1 out2 where
    send: "send_reliable t limit sender mt payload channel = (None, c', out1)"
      "send_messages t limit c' channel rest = Some out2" "out = out1 @ out2"
    by (auto split: prod.splits option.splits)
  from send_reliable_bytes [OF send(1), of s] assms(3,4) obtain frame where
    frame: "EncodeReliableEvent (message_event channel (mt, payload)) limit = Inr frame" "ch_reliable c' channel = Some s"
      "stream_bytes s out1 = vb ReliableEventKind @ vb (ucast channel) @ frame"
    by auto
  from send_messages_bytes [OF send(2) frame(2)] obtain frames where
    frames: "stream_bytes s out2 = concat frames"
      "list_all2 (\<lambda>m frame. EncodeReliableEvent (message_event channel m) limit = Inr frame) rest frames"
    by blast
  let ?limits = "ch_limits receiver"
  have "list_all2 (\<lambda>m frame. EncodeReliableEvent (message_event channel m) (MessageBytes ?limits) = Inr frame) msgs (frame # frames)"
    using frame(1) frames(2) EncodeReliableEvent_mono [OF _ assms(5,6)]
    by (auto simp: msgs elim: list_all2_mono)
  moreover have "0 \<le> MessageBytes ?limits"
    using frame(1) assms(5) by (auto simp: EncodeReliableEvent_def split: if_splits)
  ultimately have loop: "reliable_loop p ?limits (ucast channel) 0 (Reader (frame @ concat frames) e)
      = (map (message_event channel) msgs, protocolViolationAfterStreamRead (Some (IOError e)))"
    using reliable_loop_frames [of channel ?limits msgs "frame # frames" p 0 e] assms(6,8)
    by (simp add: int64_range_def maxInt_def)
  have limits: "ch_limits receiver' = ?limits"
    using assms(7) by (auto simp: bindInbound_def split: option.splits if_splits)
  have channel: "(ucast (ucast channel :: u64) :: ChannelID) = channel"
    by (rule bit_word_eqI) (simp add: bit_simps)
  have "ReadVarint (Reader (stream_bytes s out) e) = Inr (ReliableEventKind, Reader (vb (ucast channel) @ frame @ concat frames) e)"
    "ReadVarint (Reader (vb (ucast channel) @ frame @ concat frames) e) = Inr (ucast channel, Reader (frame @ concat frames) e)"
    using send(3) frame(3) frames(1) limits_le_MaxVarint(1) [OF channel_le_max, of channel]
    by (simp_all add: ReadVarint_vb)
  moreover have "\<not> maxChannel < ucast channel"
    using channel_le_max [of channel] by (simp add: not_less)
  ultimately show ?thesis
    using loop limits channel assms(7) by (simp add: readReliableStream_def)
qed

theorem reliable_channel_end_to_end_witness:
  "\<exists>out receiver'. send_messages sample_transport 100 (newChannels DefaultLimits zeroLimitMessage) 1 [(10, [0xaa]), (11, [])] = Some out
     \<and> readReliableStream \<lparr>pr_allowed = (\<lambda>_. True), pr_reserved = (\<lambda>_. True), pr_delivered = (\<lambda>_. True)\<rparr>
         (newChannels DefaultLimits zeroLimitMessage) (Reader (stream_bytes 0 out) EOF)
       = (map (message_event 1) [(10, [0xaa]), (11, [])], ViolationNow, receiver')"
proof -
  let ?c = "newChannels DefaultLimits zeroLimitMessage"
  obtain out where out: "send_messages sample_transport 100 ?c 1 [(10, [0xaa]), (11, [])] = Some out"
    by (simp add: send_reliable_def bindReliableSender_def bindOutbound_def newChannels_def class_count_def outbound_limit_def
        DefaultLimits_def minimumAdvertisedLimit_def zeroLimitMessage_def sample_transport_def EncodeReliableEvent_def
        EncodeReliableChannelHeaderFor_def eval_defs Let_def signed_take_bit_eq_take_bit_minus take_bit_eq_mod)
  obtain c' where bind: "bindInbound ?c 1 ReliableOrdered = (True, c')"
    by (simp add: bindInbound_def newChannels_def class_count_def inbound_limit_def DefaultLimits_def)
  have "ch_reliable ?c 1 = None" "tr_openUni sample_transport = Inr 0" "(100 :: int) \<le> MessageBytes (ch_limits ?c)"
    "MessageBytes (ch_limits ?c) + 32 \<le> maxInt"
    by (simp_all add: newChannels_def sample_transport_def DefaultLimits_def maxInt_def)
  from reliable_channel_end_to_end [OF out _ this bind,
      of "\<lparr>pr_allowed = (\<lambda>_. True), pr_reserved = (\<lambda>_. True), pr_delivered = (\<lambda>_. True)\<rparr>" EOF] out
  show ?thesis
    by (auto simp: protocolViolationAfterStreamRead_def)
qed


lemma EncodeRequest_mono: "EncodeRequest rq m = Inr bs \<Longrightarrow> m \<le> m' \<Longrightarrow> EncodeRequest rq m' = Inr bs"
  by (auto simp: EncodeRequest_def split: if_splits)

lemma EncodeResponse_mono: "EncodeResponse rs m = Inr bs \<Longrightarrow> m \<le> m' \<Longrightarrow> EncodeResponse rs m' = Inr bs"
  by (auto simp: EncodeResponse_def split: if_splits)

lemma code_ucast: "(ucast (ucast (c :: Code) :: u64) :: Code) = c"
  by (rule bit_word_eqI) (simp add: bit_simps)

lemma code_ucast_zero: "(ucast (c :: Code) :: u64) = 0 \<longleftrightarrow> c = 0"
  using code_ucast [of c] by (metis unsigned_0)

lemma read_response_encoded:
  assumes "EncodeResponse rs m = Inr bs" "m \<le> MessageBytes limits" "MessageBytes limits < 2 ^ 63"
  shows "read_response True limits (Reader bs EOF) = Inr rs"
proof -
  have enc: "EncodeResponse rs (MessageBytes limits) = Inr bs"
    using EncodeResponse_mono [OF assms(1,2)] .
  have "0 \<le> MessageBytes limits"
    using enc by (auto simp: EncodeResponse_def split: if_splits)
  from incremental_readers(2) [OF this assms(3) enc, of "[]" EOF] obtain r2 where
    "ReadResponseHeader (Some (Reader bs EOF)) (MessageBytes limits) = Inr (rs\<lparr>rs_Payload := []\<rparr>, length (rs_Payload rs), r2)"
    "ReadFull r2 (length (rs_Payload rs)) = Inr (rs_Payload rs, Reader [] EOF)"
    by auto
  moreover have "rs_Status rs = 0 \<or> utf8_valid (rs_Payload rs)"
    using enc by (auto simp: EncodeResponse_def split: if_splits)
  ultimately show ?thesis
    by (auto simp: read_response_def)
qed

lemma respond_request_frame:
  assumes "respond_request ctx current write closeWrite limit d status payload = Some (err, Some frame, d')"
  shows "EncodeResponse \<lparr>rs_Status = ucast status, rs_Payload = payload\<rparr> limit = Inr frame"
  using assms by (auto simp: respond_request_def Let_def split: option.splits if_splits sum.splits prod.splits)

definition message_text :: "bytes \<Rightarrow> string" where
  "message_text payload = map (char_of :: nat \<Rightarrow> char) (map unat payload)"

text \<open>An encoded request is read by a server that has a slot, within its message limit, as it was.\<close>

lemma request_read:
  assumes "EncodeRequest rq limit = Inr bs" "limit \<le> MessageBytes (ch_limits server)" "MessageBytes (ch_limits server) < 2 ^ 63"
    and "acquireRequest server True = (True, server')" "pr_reserved p 0"
  obtains r where "readApplicationStream now True server (Reader bs EOF) = (RequestStream r (Some (now + AuthTimeout (ch_limits server))), server')"
    "readRequestStream p (ch_limits server) r = Inr rq"
proof -
  have enc: "EncodeRequest rq (MessageBytes (ch_limits server)) = Inr bs"
    using EncodeRequest_mono [OF assms(1,2)] .
  have "0 \<le> MessageBytes (ch_limits server)"
    using enc by (auto simp: EncodeRequest_def split: if_splits)
  from incremental_readers(1) [OF this assms(3) enc, of "[]" EOF] obtain r1 r2 where
    "ReadVarint (Reader bs EOF) = Inr (RequestStreamKind, r1)"
    "ReadRequestHeader (Some r1) (MessageBytes (ch_limits server)) = Inr (rq\<lparr>rq_Payload := []\<rparr>, length (rq_Payload rq), r2)"
    "ReadFull r2 (length (rq_Payload rq)) = Inr (rq_Payload rq, Reader [] EOF)"
    by auto
  then show thesis
    using assms(4,5) by (intro that [of r1]) (simp_all add: readApplicationStream_def readRequestStream_def)
qed

text \<open>
  C12. Request and reply end to end: a call whose request is encoded and written is read by a server
  with a request slot, within the server's message limit, as exactly that request; and when the
  server's answer was written and the caller's limit admits it, the call returns the server's payload
  for status \<open>Normal\<close> and an error with the server's code and message for any other status.
\<close>

theorem call_end_to_end:
  assumes "call_timeout callerLimits (ce_remaining env) = Inr ms" "ce_open env = None"
    and "EncodeRequest \<lparr>rq_MessageType = ucast mt, rq_TimeoutMS = ms, rq_Payload = request\<rparr> limit = Inr bs"
    and "snd (ce_write env) = None" "ce_closeWrite env = None" "ce_reserved env"
    and "limit \<le> MessageBytes (ch_limits server)" "MessageBytes (ch_limits server) < 2 ^ 63"
    and "acquireRequest server True = (True, server')" "pr_reserved p 0"
    and "respond_request None True write None replyLimit d status reply = Some (None, Some frame, d')"
    and "ce_response env = Inr (Reader frame EOF)"
    and "replyLimit \<le> MessageBytes callerLimits" "MessageBytes callerLimits < 2 ^ 63"
  shows "(\<exists>r. readApplicationStream now True server (Reader bs EOF)
        = (RequestStream r (Some (now + AuthTimeout (ch_limits server))), server')
      \<and> readRequestStream p (ch_limits server) r
        = Inr \<lparr>rq_MessageType = ucast mt, rq_TimeoutMS = ms, rq_Payload = request\<rparr>)
    \<and> call_exchange env limit callerLimits mt request
      = (if status = Normal then Inr reply else Inl (Error status (message_text reply) False 0 None))"
proof -
  have "\<exists>r. readApplicationStream now True server (Reader bs EOF) = (RequestStream r (Some (now + AuthTimeout (ch_limits server))), server')
      \<and> readRequestStream p (ch_limits server) r = Inr \<lparr>rq_MessageType = ucast mt, rq_TimeoutMS = ms, rq_Payload = request\<rparr>"
    by (rule request_read [OF assms(3,7,8,9,10), of now]) blast
  moreover have "read_response True callerLimits (Reader frame EOF) = Inr \<lparr>rs_Status = ucast status, rs_Payload = reply\<rparr>"
    using read_response_encoded [OF respond_request_frame [OF assms(11)] assms(13,14)] .
  ultimately show ?thesis
    using assms(1-6,12)
    by (cases "ce_write env") (auto simp: call_exchange_def code_ucast code_ucast_zero message_text_def)
qed

lemma zero_timeout: "call_timeout DefaultLimits None = Inr (uint64 (RequestTimeout DefaultLimits div Millisecond))"
  by (simp add: call_timeout_def DefaultLimits_def Let_def uint64_def )

definition sample_env :: "reader \<Rightarrow> call_env" where
  "sample_env r = \<lparr>ce_current = True, ce_remaining = None, ce_open = None, ce_write = (9, None), ce_closeWrite = None,
     ce_response = Inr r, ce_reserved = True\<rparr>"

theorem call_end_to_end_witness:
  "\<exists>frame. call_exchange (sample_env (Reader frame EOF)) 100 DefaultLimits 10 [0xaa] = Inr [0xbb]"
proof -
  let ?c = "newChannels DefaultLimits zeroLimitMessage"
  let ?rq = "\<lparr>rq_MessageType = ucast (10 :: MessageType), rq_TimeoutMS = uint64 (RequestTimeout DefaultLimits div Millisecond), rq_Payload = [0xaa]\<rparr>"
  obtain bs where bs: "EncodeRequest ?rq 100 = Inr bs"
    by (simp add: EncodeRequest_def eval_defs Let_def DefaultLimits_def uint64_def)
  let ?d = "\<lparr>di_ordinary = Some \<lparr>bu_max = 1000, bu_used = 0, bu_notify = False\<rparr>, di_reply = None, di_app = None\<rparr>"
  obtain frame d' where answer: "respond_request None True (\<lambda>_. None) None 100 ?d Normal [0xbb] = Some (None, Some frame, d')"
    by (simp add: respond_request_def reserveReplyDirectionalBytes_def acquire_opt_def Acquire_def release_directional_def
        release_opt_def Release_def signal_def EncodeResponse_def eval_defs Let_def)
  obtain c' where slot: "acquireRequest ?c True = (True, c')"
    by (simp add: acquireRequest_def newChannels_def DefaultLimits_def)
  have "(100 :: int) \<le> MessageBytes (ch_limits ?c)" "MessageBytes (ch_limits ?c) < 2 ^ 63"
    by (simp_all add: newChannels_def DefaultLimits_def)
  then show ?thesis
    using call_end_to_end [of DefaultLimits "sample_env (Reader frame EOF)" _ 10 "[0xaa]" 100 bs ?c c'
        "\<lparr>pr_allowed = (\<lambda>_. True), pr_reserved = (\<lambda>_. True), pr_delivered = (\<lambda>_. True)\<rparr>",
        OF _ _ bs _ _ _ _ _ slot _ answer]
    by (auto simp: sample_env_def zero_timeout newChannels_def)
qed

end
