(* ===== verification/Custom_Streams.thy ===== *)
theory Custom_Streams
  imports Streams
begin

text \<open>
  Custom streams of \<open>endpoint.go\<close>: \<open>openStream\<close> at one end, \<open>readApplicationStream\<close> and \<open>readCustomStream\<close> at the other, and the
  \<open>applicationStream\<close> both hand to the application. A stream is what arrives on it and what was written to it. Deadlines,
  the polling queue and the router are seen through what they return to these operations.
\<close>

section \<open>Acceptance\<close>

text \<open>\<open>writeCustomAcceptance\<close>: the frame, and what is on the stream after a write that fails with \<open>fault\<close>.\<close>

definition acceptance_frame :: "Code \<Rightarrow> string \<Rightarrow> error + bytes" where
  "acceptance_frame status diagnostic =
     (if status = Normal then map_err WireError (AppendVarint [] 0)
      else map_err (\<lambda>e. mapWireError (WireError e)) (EncodeResponse \<lparr>rs_Status = ucast status, rs_Payload = string_bytes diagnostic\<rparr> 256))"

definition writeCustomAcceptance :: "error option \<Rightarrow> Code \<Rightarrow> string \<Rightarrow> error option \<times> bytes" where
  "writeCustomAcceptance fault status diagnostic =
     (case acceptance_frame status diagnostic of
        Inl err \<Rightarrow> (Some err, [])
      | Inr frame \<Rightarrow> (case fault of Some err \<Rightarrow> (Some err, []) | None \<Rightarrow> (None, frame)))"

definition readCustomDiagnostic :: "reader \<Rightarrow> wire_error + bytes" where
  "readCustomDiagnostic r =
     (case ReadVarint r of
        Inl _ \<Rightarrow> Inl ErrMalformed
      | Inr (len, r) \<Rightarrow>
          if len > 256 then Inl ErrMalformed
          else
            (case ReadFull r (unat len) of
               Inl e \<Rightarrow> Inl (IOError e)
             | Inr (diagnostic, _) \<Rightarrow> if utf8_valid diagnostic then Inr diagnostic else Inl ErrMalformed))"

section \<open>The stream of an application\<close>

record applicationStream =
  as_inbound :: bool
  as_reader :: reader
  as_written :: bytes
  as_writeClosed :: bool
  as_readClosed :: bool
  as_aborted :: "Code option"
  as_released :: bool

definition new_stream :: "bool \<Rightarrow> reader \<Rightarrow> applicationStream" where
  "new_stream inbound r =
     \<lparr>as_inbound = inbound, as_reader = r, as_written = [], as_writeClosed = False, as_readClosed = False, as_aborted = None, as_released = False\<rparr>"

text \<open>\<open>releaseOnce\<close> around the closure that \<open>acquireStream\<close> returned.\<close>

definition releaseSlot :: "applicationStream \<Rightarrow> channels \<Rightarrow> applicationStream \<times> channels" where
  "releaseSlot s c = (if as_released s then (s, c) else (s\<lparr>as_released := True\<rparr>, releaseStream c (as_inbound s)))"

definition Read_stream :: "nat \<Rightarrow> applicationStream \<Rightarrow> (io_error + bytes) \<times> applicationStream" where
  "Read_stream n s =
     (case as_reader s of
        Reader [] e \<Rightarrow> (Inl e, s)
      | Reader bs e \<Rightarrow> (Inr (take n bs), s\<lparr>as_reader := Reader (drop n bs) e\<rparr>))"

definition Write_stream :: "bool \<Rightarrow> error option \<Rightarrow> bytes \<Rightarrow> applicationStream \<Rightarrow> error option \<times> applicationStream" where
  "Write_stream current fault payload s =
     (if \<not> current then (Some ErrSessionSuperseded, s)
      else (case fault of Some err \<Rightarrow> (Some err, s) | None \<Rightarrow> (None, s\<lparr>as_written := as_written s @ payload\<rparr>)))"

definition CloseWrite_stream :: "bool \<Rightarrow> error option \<Rightarrow> applicationStream \<Rightarrow> error option \<times> applicationStream" where
  "CloseWrite_stream current fault s = (if \<not> current then (Some ErrSessionSuperseded, s) else (fault, s\<lparr>as_writeClosed := True\<rparr>))"

definition CloseRead_stream :: "applicationStream \<Rightarrow> applicationStream" where
  "CloseRead_stream s = s\<lparr>as_readClosed := True\<rparr>"

definition Close_stream :: "error option \<Rightarrow> applicationStream \<Rightarrow> channels \<Rightarrow> error option \<times> applicationStream \<times> channels" where
  "Close_stream fault s c = (fault, releaseSlot (CloseRead_stream (s\<lparr>as_writeClosed := True\<rparr>)) c)"

definition Abort_stream :: "Code \<Rightarrow> applicationStream \<Rightarrow> channels \<Rightarrow> applicationStream \<times> channels" where
  "Abort_stream why s c = releaseSlot (s\<lparr>as_aborted := Some why\<rparr>) c"

section \<open>Opening\<close>

text \<open>What surrounds a call of \<open>openStream\<close>: whether the connection is current, the time left to the caller, what the transport
  returns, and what arrives on the new stream.\<close>

record open_env =
  oe_current :: bool
  oe_remaining :: "duration option"
  oe_open :: "error option"
  oe_setDeadline :: "error option"
  oe_write :: "error option"
  oe_answer :: reader
  oe_clearDeadline :: "error option"

definition open_timeout :: "Limits \<Rightarrow> duration option \<Rightarrow> duration" where
  "open_timeout limits remaining =
     (case remaining of None \<Rightarrow> RequestTimeout limits | Some left \<Rightarrow> if left < RequestTimeout limits then left else RequestTimeout limits)"

text \<open>The part of \<open>openStream\<close> between the acquisition of its slot and the result; every error of it releases the slot. The
  second component is what was written.\<close>

definition open_exchange :: "open_env \<Rightarrow> Limits \<Rightarrow> MessageType \<Rightarrow> (error + reader) \<times> bytes" where
  "open_exchange env limits mt =
     (if open_timeout limits (oe_remaining env) \<le> 0 then (Inl (Error DeadlineExceeded [] False 0 (Some (CtxError DeadlineExceeded_ctx))), [])
      else
        (case oe_open env of
           Some err \<Rightarrow> (Inl err, [])
         | None \<Rightarrow>
             (case oe_setDeadline env of
                Some err \<Rightarrow> (Inl err, [])
              | None \<Rightarrow>
                  (case EncodeCustomStreamHeader (ucast mt) of
                     Inl e \<Rightarrow> (Inl (mapWireError (WireError e)), [])
                   | Inr header \<Rightarrow>
                       (case oe_write env of
                          Some err \<Rightarrow> (Inl err, [])
                        | None \<Rightarrow>
                            (case ReadVarint (oe_answer env) of
                               Inl e \<Rightarrow> (Inl (mapWireError (WireError e)), header)
                             | Inr (status, r) \<Rightarrow>
                                 if status \<noteq> 0
                                 then
                                   (case readCustomDiagnostic r of
                                      Inl e \<Rightarrow> (Inl (mapWireError (WireError e)), header)
                                    | Inr diagnostic \<Rightarrow> (Inl (Error (ucast status) (bytes_string diagnostic) False 0 None), header))
                                 else (case oe_clearDeadline env of Some err \<Rightarrow> (Inl err, header) | None \<Rightarrow> (Inr r, header))))))))"

definition openStream :: "open_env \<Rightarrow> channels \<Rightarrow> MessageType \<Rightarrow> (error + applicationStream) \<times> bytes \<times> channels" where
  "openStream env c mt =
     (if \<not> oe_current env then (Inl ErrSessionSuspended, [], c)
      else
        (case acquireStream c False of
           (False, c) \<Rightarrow> (Inl ErrResourceExhausted, [], c)
         | (True, c) \<Rightarrow>
             (case open_exchange env (ch_limits c) mt of
                (Inl err, out) \<Rightarrow> (Inl err, out, releaseStream c False)
              | (Inr r, out) \<Rightarrow> (Inr (new_stream False r), out, c))))"

section \<open>Accepting\<close>

text \<open>
  \<open>readCustomStream\<close>, with what \<open>dispatch\<close> returns in polling mode and whether the router has a handler otherwise. The
  result: the bytes that \<open>readCustomStream\<close> writes, and the stream when the application has it; in polling mode the application has it
  from \<open>dispatch\<close> on and may write before the acceptance (last section).
\<close>

definition readCustomStream :: "DispatchMode \<Rightarrow> bool \<Rightarrow> bool \<Rightarrow> error option \<Rightarrow> reader \<Rightarrow> channels \<Rightarrow> applicationStream option \<times> bytes \<times> channels" where
  "readCustomStream mode dispatched handled fault r c =
     (let application = new_stream True r in
      if mode = Polling
      then
        (if \<not> dispatched
         then (None, snd (writeCustomAcceptance fault Backpressure ''stream queue full''), snd (releaseSlot application c))
         else
           (case writeCustomAcceptance fault Normal [] of
              (Some err, out) \<Rightarrow> (None, out, snd (releaseSlot application c))
            | (None, out) \<Rightarrow> (Some application, out, c)))
      else if \<not> handled
      then (None, snd (writeCustomAcceptance fault UnsupportedMessage ''unsupported message''), snd (releaseSlot application c))
      else
        (case writeCustomAcceptance fault Normal [] of
           (Some err, out) \<Rightarrow> (None, out, snd (releaseSlot application c))
         | (None, out) \<Rightarrow> (Some application, out, c)))"

text \<open>The custom case of \<open>readApplicationStream\<close> with the answers it writes itself; \<open>rated\<close> says that the rate limiter refused,
  which also closes the session.\<close>

definition serve_stream :: "time \<Rightarrow> bool \<Rightarrow> DispatchMode \<Rightarrow> bool \<Rightarrow> bool \<Rightarrow> error option \<Rightarrow> channels \<Rightarrow> reader \<Rightarrow>
  applicationStream option \<times> bytes \<times> channels" where
  "serve_stream now allowed mode dispatched handled fault c r =
     (case readApplicationStream now allowed c r of
        (CustomStream mt r _, c) \<Rightarrow> readCustomStream mode dispatched handled fault r c
      | (CustomRefused why rated, c) \<Rightarrow>
          (None, snd (writeCustomAcceptance fault why (if rated then ''message rate exceeded'' else ''stream capacity reached'')), c)
      | (_, c) \<Rightarrow> (None, [], c))"

section \<open>Both ends\<close>

text \<open>Why a stream is refused, with the answer its opener gets.\<close>

definition refusal :: "DispatchMode \<Rightarrow> bool \<Rightarrow> bool \<Rightarrow> channels \<Rightarrow> (Code \<times> string) option" where
  "refusal mode dispatched handled c =
     (if \<not> fst (acquireStream c True) then Some (ResourceExhausted, ''stream capacity reached'')
      else if mode = Polling then (if dispatched then None else Some (Backpressure, ''stream queue full''))
      else if handled then None else Some (UnsupportedMessage, ''unsupported message''))"

lemma acquireStream_cases:
  "acquireStream c inbound = (True, c\<lparr>ch_inStreams := ch_inStreams c + 1\<rparr>) \<and> inbound
   \<or> acquireStream c inbound = (True, c\<lparr>ch_outStreams := ch_outStreams c + 1\<rparr>) \<and> \<not> inbound
   \<or> acquireStream c inbound = (False, c)"
  by (simp add: acquireStream_def Let_def)

lemma release_acquired: "acquireStream c inbound = (True, c') \<Longrightarrow> releaseStream c' inbound = c"
  using acquireStream_cases [of c inbound] by (auto simp: releaseStream_def)

lemma accepted_frame: "acceptance_frame Normal [] = Inr (vb 0)"
  by (simp add: acceptance_frame_def AppendVarint_ok)

lemma unat_ucast_32: "unat (ucast (c :: u32) :: u64) < 2 ^ 32"
proof -
  have "unat (ucast c :: u64) = unat c"
    by (simp add: unsigned_ucast_eq take_bit_nat_eq_self order_less_le_trans [OF unsigned_less])
  moreover have "unat c < 2 ^ LENGTH(32)"
    by (rule unsigned_less)
  ultimately show ?thesis
    by simp
qed

lemma code_le_MaxVarint: "(ucast (why :: u32) :: u64) \<le> MaxVarint"
  using unat_ucast_32 [of why] by (intro small_le_MaxVarint) simp

lemma refused_frame:
  assumes "why \<noteq> Normal" "length text \<le> 256" "utf8_valid (string_bytes text)"
  shows "acceptance_frame why text = Inr (vb (ucast why) @ vb (of_nat (length text)) @ string_bytes text)"
proof -
  have "(of_nat (length text) :: u64) \<le> MaxVarint"
    using assms(2) by (intro small_le_MaxVarint) (simp add: unat_of_nat_u64)
  then have "EncodeResponse \<lparr>rs_Status = ucast why, rs_Payload = string_bytes text\<rparr> 256
      = Inr (vb (ucast why) @ vb (of_nat (length text)) @ string_bytes text)"
    using assms by (simp add: EncodeResponse_Inr_iff maxDiagnosticBytes_def code_le_MaxVarint)
  then show ?thesis
    using assms(1) by (simp add: acceptance_frame_def)
qed

text \<open>What the opener makes of the two answers.\<close>

lemma read_accepted: "ReadVarint (Reader (vb 0 @ down) e) = Inr (0, Reader down e)"
  by (rule ReadVarint_vb) simp

lemma read_refused:
  assumes "length text \<le> 256" "utf8_valid (string_bytes text)"
  shows "ReadVarint (Reader ((vb (ucast (why :: Code)) @ vb (of_nat (length text)) @ string_bytes text) @ down) e)
      = Inr (ucast why, Reader (vb (of_nat (length text)) @ string_bytes text @ down) e)"
    "readCustomDiagnostic (Reader (vb (of_nat (length text)) @ string_bytes text @ down) e) = Inr (string_bytes text)"
proof -
  show "ReadVarint (Reader ((vb (ucast why) @ vb (of_nat (length text)) @ string_bytes text) @ down) e)
      = Inr (ucast why, Reader (vb (of_nat (length text)) @ string_bytes text @ down) e)"
    using ReadVarint_vb [OF code_le_MaxVarint] by simp
  have len: "unat (of_nat (length text) :: u64) = length text"
    using assms(1) by (simp add: unat_of_nat_u64)
  then have "(of_nat (length text) :: u64) \<le> MaxVarint" "\<not> (of_nat (length text) :: u64) > 256"
    using assms(1) by (auto intro!: small_le_MaxVarint simp: word_less_nat_alt)
  then show "readCustomDiagnostic (Reader (vb (of_nat (length text)) @ string_bytes text @ down) e) = Inr (string_bytes text)"
    using assms(2) len by (simp add: readCustomDiagnostic_def ReadVarint_vb ReadFull_def)
qed

definition header_of :: "MessageType \<Rightarrow> bytes" where
  "header_of mt = vb CustomStreamKind @ vb (ucast mt)"

lemma type_le_max: "(ucast (mt :: MessageType) :: u64) \<le> maxMessageType"
  using unat_ucast_32 [of mt] by (simp add: word_le_nat_alt maxMessageType_def)

lemma header_sent: "mt \<noteq> 0 \<Longrightarrow> EncodeCustomStreamHeader (ucast mt) = Inr (header_of mt)"
  by (simp add: EncodeCustomStreamHeader_Inr_iff type_le_max header_of_def code_ucast_zero)

lemma header_received:
  assumes "mt \<noteq> 0"
  shows "readApplicationStream now True c (Reader (header_of mt @ up) e) =
    (case acquireStream c True of (False, c) \<Rightarrow> (CustomRefused ResourceExhausted False, c) | (True, c) \<Rightarrow> (CustomStream mt (Reader up e) None, c))"
proof -
  have "ReadVarint (Reader (header_of mt @ up) e) = Inr (CustomStreamKind, Reader (vb (ucast mt) @ up) e)"
    by (simp add: header_of_def ReadVarint_vb kinds_le_MaxVarint)
  moreover have "ReadVarint (Reader (vb (ucast mt) @ up) e) = Inr (ucast mt, Reader up e)"
    by (rule ReadVarint_vb [OF code_le_MaxVarint])
  moreover have "CustomStreamKind \<noteq> RequestStreamKind" "\<not> (ucast mt :: u64) > maxMessageType"
    using type_le_max [of mt] by (simp_all add: not_less CustomStreamKind_def RequestStreamKind_def)
  ultimately show ?thesis
    using assms by (simp add: readApplicationStream_def code_ucast_zero code_ucast split: prod.split bool.split)
qed

text \<open>What each end does with the stream.\<close>

lemma serve_stream_eq:
  assumes "mt \<noteq> 0"
  shows "serve_stream now True mode dispatched handled None c (Reader (header_of mt @ up) e) =
    (case refusal mode dispatched handled c of
       None \<Rightarrow> (Some (new_stream True (Reader up e)), vb 0, c\<lparr>ch_inStreams := ch_inStreams c + 1\<rparr>)
     | Some (why, text) \<Rightarrow> (None, vb (ucast why) @ vb (of_nat (length text)) @ string_bytes text, c))"
proof -
  have texts: "utf8_valid (string_bytes ''stream capacity reached'')" "utf8_valid (string_bytes ''stream queue full'')" "utf8_valid (string_bytes ''unsupported message'')"
    by code_simp+
  consider "acquireStream c True = (True, c\<lparr>ch_inStreams := ch_inStreams c + 1\<rparr>)" | "acquireStream c True = (False, c)"
    using acquireStream_cases [of c True] by auto
  then show ?thesis
  proof cases
    case 1
    note free = release_acquired [OF 1]
    show ?thesis
      using 1 free texts
      by (simp add: serve_stream_def header_received [OF assms] readCustomStream_def refusal_def writeCustomAcceptance_def accepted_frame refused_frame
          releaseSlot_def new_stream_def)
  next
    case 2
    then show ?thesis
      using texts by (simp add: serve_stream_def header_received [OF assms] refusal_def writeCustomAcceptance_def refused_frame)
  qed
qed

lemma openStream_accepted:
  assumes "mt \<noteq> 0" "oe_current env" "0 < open_timeout (ch_limits c) (oe_remaining env)" "oe_open env = None" "oe_setDeadline env = None"
    "oe_write env = None" "oe_clearDeadline env = None" "fst (acquireStream c False)" "oe_answer env = Reader (vb 0 @ down) e"
  shows "openStream env c mt = (Inr (new_stream False (Reader down e)), header_of mt, c\<lparr>ch_outStreams := ch_outStreams c + 1\<rparr>)"
proof -
  have "acquireStream c False = (True, c\<lparr>ch_outStreams := ch_outStreams c + 1\<rparr>)"
    using acquireStream_cases [of c False] assms(8) by auto
  then show ?thesis
    using assms by (simp add: openStream_def open_exchange_def header_sent read_accepted)
qed

lemma openStream_refused:
  assumes "mt \<noteq> 0" "oe_current env" "0 < open_timeout (ch_limits c) (oe_remaining env)" "oe_open env = None" "oe_setDeadline env = None"
    "oe_write env = None" "fst (acquireStream c False)" "why \<noteq> Normal" "length text \<le> 256" "utf8_valid (string_bytes text)"
    "oe_answer env = Reader ((vb (ucast why) @ vb (of_nat (length text)) @ string_bytes text) @ down) e"
  shows "openStream env c mt = (Inl (Error why text False 0 None), header_of mt, c)"
proof -
  have slot: "acquireStream c False = (True, c\<lparr>ch_outStreams := ch_outStreams c + 1\<rparr>)"
    using acquireStream_cases [of c False] assms(7) by auto
  have "(ucast why :: u64) \<noteq> 0"
    using assms(8) by (simp add: code_ucast_zero)
  then show ?thesis
    using assms slot release_acquired [OF slot] read_refused(1) [OF assms(9,10), where why = why and down = down and e = e] read_refused(2) [OF assms(9,10), where down = down and e = e]
    by (simp add: openStream_def open_exchange_def header_sent code_ucast)
qed

text \<open>An answer that begins with a byte from 1 to 63 is read as a refusal; the slot is given back.\<close>

lemma openStream_misled:
  assumes "0 < b" "b < 64" "oe_answer env = Reader (b # rest) e"
  shows "\<exists>err. fst (openStream env c mt) = Inl err" "snd (snd (openStream env c mt)) = c"
proof -
  have small: "unat b < 64" "0 < unat b"
    using assms by (simp_all add: word_less_nat_alt)
  have status: "unat (ucast b :: u64) = unat b" "(ucast (ucast b :: u64) :: byte) = b"
    by (simp add: unsigned_ucast_eq take_bit_nat_eq_self order_less_le_trans [OF unsigned_less], rule bit_word_eqI, simp add: bit_simps)
  then have "vb (ucast b) = [b]"
    using small by (simp add: VarintLen_unat varint_bytes_def)
  then have "ReadVarint (Reader (b # rest) e) = Inr (ucast b, Reader rest e)"
    using ReadVarint_vb [of "ucast b" rest e] small status by (simp add: small_le_MaxVarint)
  moreover have "(ucast b :: u64) \<noteq> 0"
    using small status(1) by (metis nat_neq_iff unsigned_0)
  ultimately have "\<exists>err. fst (open_exchange env lims mt) = Inl err" for lims
    using assms(3) by (auto simp: open_exchange_def split: option.split sum.split)
  then obtain err where err: "fst (open_exchange env (ch_limits c) mt) = Inl err"
    by blast
  consider "acquireStream c False = (True, c\<lparr>ch_outStreams := ch_outStreams c + 1\<rparr>)" | "acquireStream c False = (False, c)"
    using acquireStream_cases [of c False] by auto
  then have "fst (openStream env c mt) \<in> range Inl \<and> snd (snd (openStream env c mt)) = c"
  proof cases
    case 1
    then show ?thesis
      using err release_acquired [OF 1] by (auto simp: openStream_def split: prod.split sum.split)
  qed (auto simp: openStream_def)
  then show "\<exists>err. fst (openStream env c mt) = Inl err" "snd (snd (openStream env c mt)) = c"
    by auto
qed

section \<open>Properties\<close>

text \<open>
  C17. A custom stream between two ends. The opener writes its header; the other end answers it, and what the opener gets depends on
  whether the stream was refused: refused for want of a slot, of queue space or of a handler, the opener gets an error with exactly
  that code and text and both ends have the slots they had. Accepted by a handler, each end has one slot more, the application of
  each end reads precisely what the other wrote, and no byte of the handshake. In polling mode, where the stream is queued before
  the acceptance is written, this holds when the application wrote nothing (\<open>early\<close>) before the acceptance; bytes it wrote that early
  and that begin with one from 1 to 63 make the opener fail and give its slot back, while the accepting end keeps its stream.
\<close>

theorem custom_stream_end_to_end:
  fixes up down early :: bytes
  assumes served: "served = serve_stream now True mode dispatched handled None receiver (Reader (header_of mt @ up) e)"
    and "mt \<noteq> 0" "oe_current env" "0 < open_timeout (ch_limits sender) (oe_remaining env)" "oe_open env = None" "oe_setDeadline env = None"
    and "oe_write env = None" "oe_clearDeadline env = None" "fst (acquireStream sender False)"
    and answer: "oe_answer env = Reader (early @ fst (snd served) @ down) e'" "early \<noteq> [] \<Longrightarrow> mode = Polling \<and> fst served \<noteq> None"
  shows "case refusal mode dispatched handled receiver of
      None \<Rightarrow> fst served = Some (new_stream True (Reader up e)) \<and> snd (snd served) = receiver\<lparr>ch_inStreams := ch_inStreams receiver + 1\<rparr>
        \<and> (early = [] \<longrightarrow>
            openStream env sender mt = (Inr (new_stream False (Reader down e')), header_of mt, sender\<lparr>ch_outStreams := ch_outStreams sender + 1\<rparr>))
        \<and> (\<forall>b rest. early = b # rest \<longrightarrow> 0 < b \<longrightarrow> b < 64 \<longrightarrow> (\<exists>err out. openStream env sender mt = (Inl err, out, sender)))
    | Some (why, text) \<Rightarrow> fst served = None \<and> snd (snd served) = receiver
        \<and> openStream env sender mt = (Inl (Error why text False 0 None), header_of mt, sender)"
proof (cases "refusal mode dispatched handled receiver")
  case None
  then have s: "served = (Some (new_stream True (Reader up e)), vb 0, receiver\<lparr>ch_inStreams := ch_inStreams receiver + 1\<rparr>)"
    using serve_stream_eq [OF assms(2)] by (simp add: served)
  have "\<exists>err out. openStream env sender mt = (Inl err, out, sender)" if "early = b # rest" "0 < b" "b < 64" for b rest
    using openStream_misled [OF that(2,3), of env "rest @ fst (snd served) @ down" e' sender mt] that(1) answer(1) by (cases "openStream env sender mt") auto
  moreover have "openStream env sender mt = (Inr (new_stream False (Reader down e')), header_of mt, sender\<lparr>ch_outStreams := ch_outStreams sender + 1\<rparr>)"
    if "early = []"
    using openStream_accepted [OF assms(2-9)] answer(1) that by (simp add: s)
  ultimately show ?thesis
    using None by (simp add: s)
next
  case (Some response)
  obtain why msg where response: "response = (why, msg)"
    by (cases response)
  have msg: "why \<noteq> Normal" "length msg \<le> 256" "utf8_valid (string_bytes msg)"
    using Some by (auto simp: response refusal_def split: if_splits)
  have s: "served = (None, vb (ucast why) @ vb (of_nat (length msg)) @ string_bytes msg, receiver)"
    using serve_stream_eq [OF assms(2)] Some by (simp add: served response)
  then show ?thesis
    using Some answer openStream_refused [OF assms(2-7,9) msg] by (auto simp: response)
qed

definition stream_env :: open_env where
  "stream_env = \<lparr>oe_current = True, oe_remaining = None, oe_open = None, oe_setDeadline = None, oe_write = None, oe_answer = Reader [0, 9] EOF,
     oe_clearDeadline = None\<rparr>"

theorem custom_stream_end_to_end_witness:
  "\<exists>s s'. fst (serve_stream 0 True Handlers False True None (newChannels DefaultLimits zeroLimitMessage) (Reader (header_of 5 @ [7]) EOF)) = Some s
     \<and> as_reader s = Reader [7] EOF \<and> fst (openStream stream_env (newChannels DefaultLimits (limitMessageFrom DefaultLimits)) 5) = Inr s' \<and> as_reader s' = Reader [9] EOF"
proof -
  let ?c = "newChannels DefaultLimits (limitMessageFrom DefaultLimits)" and ?r = "newChannels DefaultLimits zeroLimitMessage"
  have "refusal Handlers False True ?r = None" "0 < open_timeout (ch_limits ?c) (oe_remaining stream_env)" "fst (acquireStream ?c False)"
    "oe_answer stream_env = Reader (fst (snd (serve_stream 0 True Handlers False True None ?r (Reader (header_of 5 @ [7]) EOF))) @ [9]) EOF"
    by code_simp+
  then show ?thesis
    using custom_stream_end_to_end [of _ 0 Handlers False True ?r 5 "[7]" EOF stream_env ?c "[]" "[9]" EOF]
    by (simp add: stream_env_def new_stream_def)
qed

text \<open>The streams of a connection and what is done with them.\<close>

record streaming =
  sg_channels :: channels
  sg_streams :: "applicationStream list"

inductive stream_step :: "streaming \<Rightarrow> streaming \<Rightarrow> bool" where
  opens: "openStream env (sg_channels g) mt = (Inr s, out, c) \<Longrightarrow> stream_step g \<lparr>sg_channels = c, sg_streams = sg_streams g @ [s]\<rparr>"
| open_fails: "openStream env (sg_channels g) mt = (Inl err, out, c) \<Longrightarrow> stream_step g (g\<lparr>sg_channels := c\<rparr>)"
| serves: "readApplicationStream now allowed (sg_channels g) r = (CustomStream mt r' deadline, c) \<Longrightarrow> readCustomStream mode dispatched handled fault r' c = (Some s, out, c') \<Longrightarrow>
    stream_step g \<lparr>sg_channels = c', sg_streams = sg_streams g @ [s]\<rparr>"
| refuses: "readApplicationStream now allowed (sg_channels g) r = (CustomStream mt r' deadline, c) \<Longrightarrow> readCustomStream mode dispatched handled fault r' c = (None, out, c') \<Longrightarrow>
    stream_step g (g\<lparr>sg_channels := c'\<rparr>)"
| reads: "i < length (sg_streams g) \<Longrightarrow> Read_stream n (sg_streams g ! i) = (r, s) \<Longrightarrow> stream_step g (g\<lparr>sg_streams := (sg_streams g)[i := s]\<rparr>)"
| writes: "i < length (sg_streams g) \<Longrightarrow> Write_stream current fault payload (sg_streams g ! i) = (err, s) \<Longrightarrow> stream_step g (g\<lparr>sg_streams := (sg_streams g)[i := s]\<rparr>)"
| half_closes: "i < length (sg_streams g) \<Longrightarrow> CloseWrite_stream current fault (sg_streams g ! i) = (err, s) \<or> s = CloseRead_stream (sg_streams g ! i) \<Longrightarrow>
    stream_step g (g\<lparr>sg_streams := (sg_streams g)[i := s]\<rparr>)"
| closes: "i < length (sg_streams g) \<Longrightarrow> Close_stream fault (sg_streams g ! i) (sg_channels g) = (err, s, c) \<Longrightarrow>
    stream_step g \<lparr>sg_channels = c, sg_streams = (sg_streams g)[i := s]\<rparr>"
| aborts: "i < length (sg_streams g) \<Longrightarrow> Abort_stream why (sg_streams g ! i) (sg_channels g) = (s, c) \<Longrightarrow>
    stream_step g \<lparr>sg_channels = c, sg_streams = (sg_streams g)[i := s]\<rparr>"

definition open_streams :: "bool \<Rightarrow> applicationStream list \<Rightarrow> int" where
  "open_streams inbound ss = int (length (filter (\<lambda>s. as_inbound s = inbound \<and> \<not> as_released s) ss))"

definition stream_limit :: "channels \<Rightarrow> bool \<Rightarrow> int" where
  "stream_limit c inbound = (if inbound then Streams (ch_limits c) else minimumAdvertisedLimit (Streams (ch_limits c)) (lm_Streams (ch_peer c)))"

definition slots_inv :: "streaming \<Rightarrow> bool" where
  "slots_inv g \<longleftrightarrow>
     ch_inStreams (sg_channels g) = open_streams True (sg_streams g) \<and> ch_outStreams (sg_channels g) = open_streams False (sg_streams g)
     \<and> (\<forall>inbound. open_streams inbound (sg_streams g) \<le> max 0 (stream_limit (sg_channels g) inbound))"

definition counts :: "bool \<Rightarrow> applicationStream \<Rightarrow> int" where
  "counts inbound s = (if as_inbound s = inbound \<and> \<not> as_released s then 1 else 0)"

lemma open_streams_simps [simp]:
  "open_streams b [] = 0" "open_streams b (s # ss) = counts b s + open_streams b ss" "open_streams b (ss @ [s]) = open_streams b ss + counts b s"
  by (simp_all add: open_streams_def counts_def)

lemma open_streams_update: "i < length ss \<Longrightarrow> open_streams b (ss[i := s]) = open_streams b ss - counts b (ss ! i) + counts b s"
proof (induction ss arbitrary: i)
  case (Cons t ss)
  then show ?case
    by (cases i) auto
qed simp

text \<open>The slots follow the streams: taking one for a new stream, giving one back with a stream that is released.\<close>

definition slots :: "channels \<Rightarrow> bool \<Rightarrow> int" where
  "slots c inbound = (if inbound then ch_inStreams c else ch_outStreams c)"

lemma slots_inv_iff:
  "slots_inv g \<longleftrightarrow> (\<forall>b. slots (sg_channels g) b = open_streams b (sg_streams g) \<and> open_streams b (sg_streams g) \<le> max 0 (stream_limit (sg_channels g) b))"
  by (auto simp: slots_inv_def slots_def all_bool_eq)

lemma acquire_slots:
  assumes "acquireStream c b = (True, c')"
  shows "slots c' b' = slots c b' + (if b' = b then 1 else 0)" "stream_limit c' b' = stream_limit c b'" "slots c' b \<le> max 0 (stream_limit c b)"
  using assms by (auto simp: acquireStream_def slots_def stream_limit_def Let_def split: if_splits)

lemma release_slots: "slots (releaseStream c b) b' = slots c b' - (if b' = b then 1 else 0)" "stream_limit (releaseStream c b) b' = stream_limit c b'"
  by (auto simp: releaseStream_def slots_def stream_limit_def)

lemma releaseSlot_slots:
  assumes "releaseSlot s c = (s', c')"
  shows "slots c' b - slots c b = counts b s' - counts b s" "stream_limit c' b = stream_limit c b" "as_released s'"
  using assms release_slots by (auto simp: releaseSlot_def counts_def split: if_splits)

lemma new_stream_counts [simp]: "counts b (new_stream inbound r) = (if b = inbound then 1 else 0)"
  by (simp add: counts_def new_stream_def)

lemma slots_new:
  assumes "slots_inv g" "acquireStream (sg_channels g) b = (True, c)" "counts True s = (if b then 1 else 0)" "counts False s = (if b then 0 else 1)"
  shows "slots_inv \<lparr>sg_channels = c, sg_streams = sg_streams g @ [s]\<rparr>"
  unfolding slots_inv_iff
proof
  fix b'
  have "counts b' s = (if b' = b then 1 else 0)"
    using assms(3,4) by (cases b') auto
  then show "slots (sg_channels \<lparr>sg_channels = c, sg_streams = sg_streams g @ [s]\<rparr>) b' = open_streams b' (sg_streams \<lparr>sg_channels = c, sg_streams = sg_streams g @ [s]\<rparr>)
      \<and> open_streams b' (sg_streams \<lparr>sg_channels = c, sg_streams = sg_streams g @ [s]\<rparr>) \<le> max 0 (stream_limit (sg_channels \<lparr>sg_channels = c, sg_streams = sg_streams g @ [s]\<rparr>) b')"
    using assms(1) acquire_slots [OF assms(2)] by (auto simp: slots_inv_iff)
qed

lemma slots_settled:
  assumes "slots_inv g" "i < length (sg_streams g)"
    and "\<And>b. slots c b - slots (sg_channels g) b = counts b s - counts b (sg_streams g ! i)" "\<And>b. stream_limit c b = stream_limit (sg_channels g) b"
    and "\<And>b. counts b s \<le> counts b (sg_streams g ! i)"
  shows "slots_inv \<lparr>sg_channels = c, sg_streams = (sg_streams g)[i := s]\<rparr>"
  unfolding slots_inv_iff
proof
  fix b
  have "slots (sg_channels g) b = open_streams b (sg_streams g)" "open_streams b (sg_streams g) \<le> max 0 (stream_limit (sg_channels g) b)"
    using assms(1) by (auto simp: slots_inv_iff)
  then show "slots (sg_channels \<lparr>sg_channels = c, sg_streams = (sg_streams g)[i := s]\<rparr>) b = open_streams b (sg_streams \<lparr>sg_channels = c, sg_streams = (sg_streams g)[i := s]\<rparr>)
      \<and> open_streams b (sg_streams \<lparr>sg_channels = c, sg_streams = (sg_streams g)[i := s]\<rparr>)
        \<le> max 0 (stream_limit (sg_channels \<lparr>sg_channels = c, sg_streams = (sg_streams g)[i := s]\<rparr>) b)"
    using assms(3-5) [of b] by (simp add: open_streams_update [OF assms(2)])
qed

lemma openStream_slots:
  assumes "openStream env c mt = (r, out, c')"
  shows "case r of Inl _ \<Rightarrow> c' = c | Inr s \<Rightarrow> acquireStream c False = (True, c') \<and> (\<exists>rd. s = new_stream False rd)"
  using assms release_acquired [of c False] acquireStream_cases [of c False]
  by (auto simp: openStream_def split: if_splits prod.splits bool.splits sum.splits)

lemma readCustomStream_slots:
  assumes "readCustomStream mode dispatched handled fault r c = (so, out, c')"
  shows "case so of None \<Rightarrow> c' = releaseStream c True | Some s \<Rightarrow> c' = c \<and> s = new_stream True r"
  using assms by (auto simp: readCustomStream_def releaseSlot_def new_stream_def Let_def split: if_splits prod.splits option.splits)

lemma readApplicationStream_slots:
  "readApplicationStream now allowed c r = (CustomStream mt r' deadline, c') \<Longrightarrow> acquireStream c True = (True, c')"
  by (auto simp: readApplicationStream_def Let_def split: sum.splits if_splits prod.splits bool.splits)

lemma stream_step_inv: "stream_step g g' \<Longrightarrow> slots_inv g \<Longrightarrow> slots_inv g'"
proof (induction rule: stream_step.induct)
  case (opens env g mt s out c)
  then show ?case
    using openStream_slots [OF opens(1)] by (auto intro: slots_new)
next
  case (open_fails env g mt err out c)
  then show ?case
    using openStream_slots [OF open_fails(1)] by simp
next
  case (serves now allowed g r mt r' deadline c mode dispatched handled fault s out c')
  then show ?case
    using readApplicationStream_slots [OF serves(1)] readCustomStream_slots [OF serves(2)] by (auto intro: slots_new)
next
  case (refuses now allowed g r mt r' deadline c mode dispatched handled fault out c')
  then show ?case
    using readCustomStream_slots [OF refuses(2)] release_acquired [OF readApplicationStream_slots [OF refuses(1)]] by simp
next
  case (reads i g n r s)
  have "counts b s = counts b (sg_streams g ! i)" for b
    using reads(2) by (auto simp: Read_stream_def counts_def split: reader.splits list.splits)
  then show ?case
    using slots_settled [OF reads(3,1), of "sg_channels g" s] by (cases g) simp
next
  case (writes i g current fault payload err s)
  have "counts b s = counts b (sg_streams g ! i)" for b
    using writes(2) by (auto simp: Write_stream_def counts_def split: if_splits option.splits)
  then show ?case
    using slots_settled [OF writes(3,1), of "sg_channels g" s] by (cases g) simp
next
  case (half_closes i g current fault err s)
  have "counts b s = counts b (sg_streams g ! i)" for b
    using half_closes(2) by (auto simp: CloseWrite_stream_def CloseRead_stream_def counts_def split: if_splits)
  then show ?case
    using slots_settled [OF half_closes(3,1), of "sg_channels g" s] by (cases g) simp
next
  case (closes i g fault err s c)
  let ?s = "CloseRead_stream ((sg_streams g ! i)\<lparr>as_writeClosed := True\<rparr>)"
  have rel: "releaseSlot ?s (sg_channels g) = (s, c)" and same: "counts b ?s = counts b (sg_streams g ! i)" for b
    using closes(2) by (simp_all add: Close_stream_def CloseRead_stream_def counts_def)
  have "counts b s = 0" for b
    using releaseSlot_slots(3) [OF rel] by (simp add: counts_def)
  then show ?case
    using releaseSlot_slots(1,2) [OF rel] same by (intro slots_settled [OF closes(3,1)]) (auto simp: counts_def)
next
  case (aborts i g why s c)
  let ?s = "(sg_streams g ! i)\<lparr>as_aborted := Some why\<rparr>"
  have rel: "releaseSlot ?s (sg_channels g) = (s, c)" and same: "counts b ?s = counts b (sg_streams g ! i)" for b
    using aborts(2) by (simp_all add: Abort_stream_def counts_def)
  have "counts b s = 0" for b
    using releaseSlot_slots(3) [OF rel] by (simp add: counts_def)
  then show ?case
    using releaseSlot_slots(1,2) [OF rel] same by (intro slots_settled [OF aborts(3,1)]) (auto simp: counts_def)
qed

lemma slots_reachable:
  assumes "stream_step\<^sup>*\<^sup>* \<lparr>sg_channels = newChannels limits peer, sg_streams = []\<rparr> g"
  shows "slots_inv g"
  using assms
proof (induction rule: rtranclp_induct)
  case base
  show ?case
    by (simp add: slots_inv_def newChannels_def)
next
  case (step g g')
  then show ?case
    using stream_step_inv by blast
qed

text \<open>
  C24. A connection never has more custom streams than its limits allow in either direction, and its counters are exactly the streams
  that are open: whatever streams are opened, refused, accepted, read, written, half closed, closed and aborted, each stream
  gives its slot back once, with its first \<open>Close\<close> or \<open>Abort\<close>.
\<close>

theorem stream_slots_exact:
  assumes "stream_step\<^sup>*\<^sup>* \<lparr>sg_channels = newChannels limits peer, sg_streams = []\<rparr> g"
  shows "ch_inStreams (sg_channels g) = open_streams True (sg_streams g) \<and> ch_outStreams (sg_channels g) = open_streams False (sg_streams g)
    \<and> open_streams True (sg_streams g) \<le> max 0 (stream_limit (sg_channels g) True)
    \<and> open_streams False (sg_streams g) \<le> max 0 (stream_limit (sg_channels g) False)"
  using slots_reachable [OF assms] by (simp add: slots_inv_def)

theorem stream_slots_exact_witness:
  "\<exists>g. stream_step\<^sup>*\<^sup>* \<lparr>sg_channels = newChannels DefaultLimits (limitMessageFrom DefaultLimits), sg_streams = []\<rparr> g
     \<and> length (sg_streams g) = 1 \<and> ch_outStreams (sg_channels g) = open_streams False (sg_streams g) \<and> open_streams False (sg_streams g) = 1"
proof -
  let ?g = "\<lparr>sg_channels = newChannels DefaultLimits (limitMessageFrom DefaultLimits), sg_streams = []\<rparr>"
  have "fst (acquireStream (sg_channels ?g) False)" "0 < open_timeout (ch_limits (sg_channels ?g)) (oe_remaining stream_env)"
    by code_simp+
  moreover have "oe_answer stream_env = Reader (vb 0 @ [9]) EOF"
    by (simp add: stream_env_def) code_simp
  ultimately have "openStream stream_env (sg_channels ?g) 5 = (Inr (new_stream False (Reader [9] EOF)), header_of 5,
      (sg_channels ?g)\<lparr>ch_outStreams := ch_outStreams (sg_channels ?g) + 1\<rparr>)"
    by (intro openStream_accepted) (simp_all add: stream_env_def)
  note step = stream_step.opens [OF this]
  define g where "g = \<lparr>sg_channels = (sg_channels ?g)\<lparr>ch_outStreams := ch_outStreams (sg_channels ?g) + 1\<rparr>, sg_streams = [new_stream False (Reader [9] EOF)]\<rparr>"
  have run: "stream_step\<^sup>*\<^sup>* ?g g"
    using step by (intro r_into_rtranclp) (simp add: g_def)
  show ?thesis
    using run stream_slots_exact [OF run] by (intro exI [of _ g]) (simp add: g_def)
qed

section \<open>The answer in polling mode\<close>

text \<open>
  In polling mode \<open>readCustomStream\<close> first queues the stream and then writes the acceptance; from the queue the application may
  take the stream at once and write to it.
\<close>

record polled =
  po_queued :: bool
  po_accepted :: bool
  po_out :: bytes

inductive polled_step :: "polled \<Rightarrow> polled \<Rightarrow> bool" where
  queues: "\<not> po_queued p \<Longrightarrow> polled_step p (p\<lparr>po_queued := True\<rparr>)"
| accepts: "po_queued p \<Longrightarrow> \<not> po_accepted p \<Longrightarrow> writeCustomAcceptance None Normal [] = (None, out) \<Longrightarrow>
    polled_step p (p\<lparr>po_accepted := True, po_out := po_out p @ out\<rparr>)"
| application: "po_queued p \<Longrightarrow> Write_stream True None payload s = (None, s') \<Longrightarrow> polled_step p (p\<lparr>po_out := po_out p @ payload\<rparr>)"

text \<open>
  The acceptance can be overtaken: when the application writes before \<open>readCustomStream\<close> does, the opener takes the first bytes
  of the application for the answer. For every payload that begins with a byte from 1 to 63 the accepting end goes through to
  an accepted stream, and the opener, whatever its surroundings, gets an error.
\<close>

theorem polling_acceptance_overtaken:
  assumes "0 < b" "b < 64"
  shows "polled_step\<^sup>*\<^sup>* \<lparr>po_queued = False, po_accepted = False, po_out = []\<rparr> \<lparr>po_queued = True, po_accepted = True, po_out = (b # rest) @ vb 0\<rparr>
    \<and> (\<exists>err. fst (openStream (env\<lparr>oe_answer := Reader ((b # rest) @ vb 0) e\<rparr>) c mt) = Inl err)"
proof
  let ?p0 = "\<lparr>po_queued = False, po_accepted = False, po_out = []\<rparr>"
  have "polled_step ?p0 \<lparr>po_queued = True, po_accepted = False, po_out = []\<rparr>" (is "polled_step _ ?p1")
    using polled_step.queues [of ?p0] by simp
  moreover have "polled_step ?p1 \<lparr>po_queued = True, po_accepted = False, po_out = b # rest\<rparr>" (is "polled_step _ ?p2")
    using polled_step.application [of ?p1 "b # rest" "new_stream True (Reader [] EOF)"] by (simp add: Write_stream_def)
  moreover have "polled_step ?p2 \<lparr>po_queued = True, po_accepted = True, po_out = (b # rest) @ vb 0\<rparr>"
    using polled_step.accepts [of ?p2 "vb 0"] by (simp add: writeCustomAcceptance_def accepted_frame)
  ultimately show "polled_step\<^sup>*\<^sup>* ?p0 \<lparr>po_queued = True, po_accepted = True, po_out = (b # rest) @ vb 0\<rparr>"
    by (meson converse_rtranclp_into_rtranclp r_into_rtranclp)
  show "\<exists>err. fst (openStream (env\<lparr>oe_answer := Reader ((b # rest) @ vb 0) e\<rparr>) c mt) = Inl err"
    by (rule openStream_misled(1) [OF assms]) simp
qed

theorem polling_acceptance_overtaken_witness:
  "polled_step\<^sup>*\<^sup>* \<lparr>po_queued = False, po_accepted = False, po_out = []\<rparr> \<lparr>po_queued = True, po_accepted = True, po_out = [7, 1] @ vb 0\<rparr>
   \<and> (\<exists>err. fst (openStream (stream_env\<lparr>oe_answer := Reader ([7, 1] @ vb 0) EOF\<rparr>) (newChannels DefaultLimits (limitMessageFrom DefaultLimits)) 5) = Inl err)"
  using polling_acceptance_overtaken [where b = 7 and rest = "[1]" and env = stream_env and e = EOF and c = "newChannels DefaultLimits (limitMessageFrom DefaultLimits)" and mt = 5] by simp

end
