(* ===== verification/Handler_Runs.thy ===== *)
theory Handler_Runs
  imports Scheduler Custom_Streams
begin

text \<open>
  All handlers of an endpoint in handler mode: those that the workers of the scheduler run, and those of custom streams, which
  \<open>readCustomStream\<close> starts on a goroutine of their own (\<open>go o.invoke(incoming)\<close>) once the stream is accepted.
\<close>

section \<open>Handlers beside the scheduler\<close>

text \<open>
  The scheduler, the custom streams of every connection, and the stream handlers that are running: each with its connection and the
  place of its stream among those of the connection. A handler may close its stream and go on, or return and leave it open.
\<close>

type_synonym serving = "dispatching \<times> (pointer \<Rightarrow> streaming) \<times> (pointer \<times> nat) multiset"

inductive handler_step :: "serving \<Rightarrow> serving \<Rightarrow> bool" where
  scheduler: "sched_step x x' \<Longrightarrow> handler_step (x, g, beside) (x', g, beside)"
| accepts_stream: "readApplicationStream now allowed (sg_channels (g p)) r = (CustomStream mt r' deadline, c') \<Longrightarrow>
    readCustomStream Handlers dispatched handled fault r' c' = (Some s, out, c'') \<Longrightarrow>
    handler_step (x, g, beside)
      (x, g(p := \<lparr>sg_channels = c'', sg_streams = sg_streams (g p) @ [s]\<rparr>), add_mset (p, length (sg_streams (g p))) beside)"
| opens_stream: "openStream env (sg_channels (g p)) mt = (Inr s, out, c) \<Longrightarrow>
    handler_step (x, g, beside) (x, g(p := \<lparr>sg_channels = c, sg_streams = sg_streams (g p) @ [s]\<rparr>), beside)"
| uses_stream: "stream_step (g p) g' \<Longrightarrow> length (sg_streams g') = length (sg_streams (g p)) \<Longrightarrow> handler_step (x, g, beside) (x, g(p := g'), beside)"
| stream_returns: "b \<in># beside \<Longrightarrow> handler_step (x, g, beside) (x, g, beside - {#b#})"

definition fresh_serving :: "dispatching \<Rightarrow> Limits \<Rightarrow> limitMessage \<Rightarrow> serving" where
  "fresh_serving x limits peer = (x, \<lambda>_. \<lparr>sg_channels = newChannels limits peer, sg_streams = []\<rparr>, {#})"

text \<open>The handlers of a connection that run: those with a worker, and those of its streams.\<close>

definition beside_of :: "(pointer \<times> nat) multiset \<Rightarrow> pointer \<Rightarrow> nat" where
  "beside_of beside p = count (image_mset fst beside) p"

definition running :: "serving \<Rightarrow> pointer \<Rightarrow> nat" where
  "running x p = (case x of ((h, run), g, beside) \<Rightarrow> count (image_mset fst run) p + beside_of beside p)"

text \<open>The scheduler does not see the streams, and the streams of a connection keep their own slots.\<close>

lemma handler_run_sched: "handler_step\<^sup>*\<^sup>* x y \<Longrightarrow> sched_step\<^sup>*\<^sup>* (fst x) (fst y)"
proof (induction rule: rtranclp_induct)
  case (step y z)
  from step(2) have "fst z = fst y \<or> sched_step (fst y) (fst z)"
    by (cases rule: handler_step.cases) auto
  with step.IH show ?case
    by auto
qed simp

lemma handler_step_streams: "handler_step x y \<Longrightarrow> stream_step\<^sup>*\<^sup>* (fst (snd x) p) (fst (snd y) p)"
proof (induction rule: handler_step.induct)
  case (accepts_stream now allowed g q r mt r' deadline c' dispatched handled fault s out c'' x beside)
  then show ?case
    using stream_step.serves [OF accepts_stream] by auto
next
  case (opens_stream env g q mt s out c x beside)
  then show ?case
    using stream_step.opens [OF opens_stream] by auto
next
  case (uses_stream g q g' x beside)
  then show ?case
    by auto
qed auto

lemma handler_run_streams: "handler_step\<^sup>*\<^sup>* x y \<Longrightarrow> stream_step\<^sup>*\<^sup>* (fst (snd x) p) (fst (snd y) p)"
proof (induction rule: rtranclp_induct)
  case (step y z)
  then show ?case
    using handler_step_streams [of y z p] by (meson rtranclp_trans)
qed simp

lemma sched_run_handler: "sched_step\<^sup>*\<^sup>* x y \<Longrightarrow> handler_step\<^sup>*\<^sup>* (x, g, beside) (y, g, beside)"
proof (induction rule: rtranclp_induct)
  case (step y z)
  then show ?case
    using handler_step.scheduler by (meson rtranclp.rtrancl_into_rtrancl)
qed simp

text \<open>While a connection has a slot for an inbound stream, one can arrive and its handler start, whatever the scheduler does.\<close>

lemma stream_handler_starts:
  assumes "fst (acquireStream (sg_channels (g p)) True)"
  shows "\<exists>g'. handler_step (x, g, beside) (x, g(p := g'), add_mset (p, length (sg_streams (g p))) beside)"
proof -
  let ?c = "sg_channels (g p)"
  obtain c' where slot: "acquireStream ?c True = (True, c')"
    using assms by (cases "acquireStream ?c True") simp
  have "readApplicationStream 0 True ?c (Reader (header_of 5 @ []) EOF) = (CustomStream 5 (Reader [] EOF) None, c')"
    using header_received [of 5 0 ?c "[]" EOF] slot by simp
  moreover have "readCustomStream Handlers False True None (Reader [] EOF) c' = (Some (new_stream True (Reader [] EOF)), vb 0, c')"
    by (simp add: readCustomStream_def writeCustomAcceptance_def accepted_frame)
  ultimately show ?thesis
    using handler_step.accepts_stream by blast
qed

section \<open>Properties\<close>

text \<open>
  C25. One token per connection: in every state the producers, the workers, the custom streams and a shutdown can reach, a
  connection is scheduled exactly when one ready entry or one worker has its token, so no two workers ever run handlers of
  the same connection; the work counter is the number of tokens; and while the scheduler accepts work, every connection with
  queued envelopes is scheduled. The handlers of custom streams are outside this: they run beside the worker and beside each
  other, one more may start whenever the connection has a slot for a stream, its open inbound streams stay within the limit, and handlers
  of a connection overlap exactly when one of its stream handlers runs beside another handler of it.
\<close>

theorem one_token_per_connection:
  assumes "handler_step\<^sup>*\<^sup>* (fresh_serving (fresh_handling workers ready app bytes messages, {#}) limits peer) ((h, run), g, beside)"
  shows "count (image_mset fst run) p \<le> 1
    \<and> (cn_scheduled (hg_conns h p) \<longleftrightarrow>
         count (mset (hs_ready (hg_sched h))) p + count (image_mset fst run) p = 1)
    \<and> hs_work (hg_sched h) = int (length (hs_ready (hg_sched h)) + size run)
    \<and> (hs_accepting (hg_sched h) \<longrightarrow> items_of (hg_conns h p) \<noteq> [] \<longrightarrow> cn_scheduled (hg_conns h p))
    \<and> (fst (acquireStream (sg_channels (g p)) True) \<longrightarrow>
         (\<exists>g'. handler_step ((h, run), g, beside) ((h, run), g(p := g'), add_mset (p, length (sg_streams (g p))) beside)))
    \<and> open_streams True (sg_streams (g p)) \<le> max 0 (stream_limit (sg_channels (g p)) True)
    \<and> (1 < running ((h, run), g, beside) p \<longleftrightarrow> beside_of beside p \<noteq> 0 \<and> (1 < beside_of beside p \<or> p \<in> fst ` set_mset run))"
proof -
  have "sched_step\<^sup>*\<^sup>* (fresh_handling workers ready app bytes messages, {#}) (h, run)"
    using handler_run_sched [OF assms] by (simp add: fresh_serving_def)
  note tokens = sched_tokens [OF this, of p]
  have "stream_step\<^sup>*\<^sup>* \<lparr>sg_channels = newChannels limits peer, sg_streams = []\<rparr> (g p)"
    using handler_run_streams [OF assms, of p] by (simp add: fresh_serving_def)
  then have open_ones: "open_streams True (sg_streams (g p)) \<le> max 0 (stream_limit (sg_channels (g p)) True)"
    using slots_reachable by (simp add: slots_inv_def)
  define a where "a = count (image_mset fst run) p"
  have "a \<le> 1" "0 < a \<longleftrightarrow> p \<in> fst ` set_mset run"
    using tokens by (simp_all add: a_def del: count_image_mset)
  then have "1 < running ((h, run), g, beside) p \<longleftrightarrow> beside_of beside p \<noteq> 0 \<and> (1 < beside_of beside p \<or> p \<in> fst ` set_mset run)"
    unfolding running_def prod.case a_def [symmetric] by linarith
  with tokens open_ones show ?thesis
    using stream_handler_starts [of g p "(h, run)" beside] by blast
qed

text \<open>A worker runs a handler of a connection, and a stream of the same connection has its handler running as well.\<close>

theorem one_token_per_connection_witness:
  "\<exists>g. handler_step\<^sup>*\<^sup>* (fresh_serving (fresh_handling 1 1 None 10000 100, {#}) DefaultLimits zeroLimitMessage) ((busy True [] 33, {#(0, 0)#}), g, {#(0, 0)#})
   \<and> cn_scheduled (hg_conns (busy True [] 33) 0) \<and> count (image_mset fst {#(0 :: pointer, 0 :: nat)#}) 0 \<le> 1
   \<and> 1 < running ((busy True [] 33, {#(0, 0)#}), g, {#(0, 0)#}) 0"
proof -
  let ?g = "\<lambda>_. \<lparr>sg_channels = newChannels DefaultLimits zeroLimitMessage, sg_streams = []\<rparr>"
  have "fst (acquireStream (sg_channels (?g 0)) True)"
    by (simp add: acquireStream_def newChannels_def DefaultLimits_def Let_def)
  then obtain g' where "handler_step ((busy True [] 33, {#(0, 0)#}), ?g, {#}) ((busy True [] 33, {#(0, 0)#}), ?g(0 := g'), {#(0, 0)#})"
    using stream_handler_starts [of ?g 0 "(busy True [] 33, {#(0, 0)#})" "{#}"] by auto
  then have run: "handler_step\<^sup>*\<^sup>* (fresh_serving (fresh_handling 1 1 None 10000 100, {#}) DefaultLimits zeroLimitMessage)
      ((busy True [] 33, {#(0, 0)#}), ?g(0 := g'), {#(0, 0)#})"
    unfolding fresh_serving_def using sched_run_handler [OF run_to_full_queue, of ?g "{#}"] by (meson rtranclp.rtrancl_into_rtrancl)
  from one_token_per_connection [OF run, of 0] run show ?thesis
    by (intro exI [of _ "?g(0 := g')"]) (simp add: busy_def event_queue_def items_of_def beside_of_def)
qed

end
