(* ===== verification/Encodings.thy ===== *)
theory Encodings
  imports Prelude
begin

text \<open>
  The text encodings of Go's standard library that the endpoints, the placement service and the tickets
  use: \<open>encoding/hex\<close>, \<open>encoding/base64\<close> with \<open>RawURLEncoding\<close>, and the decimal numbers of \<open>strconv\<close>.
  Each comes with the fact that decoding inverts encoding.
\<close>

section \<open>Hexadecimal\<close>

definition hextable :: string where
  "hextable = ''0123456789abcdef''"

definition hex_EncodeToString :: "bytes \<Rightarrow> string" where
  "hex_EncodeToString bs = concat (map (\<lambda>b. [hextable ! (unat b div 16), hextable ! (unat b mod 16)]) bs)"

text \<open>The value of a digit; both cases are accepted.\<close>

definition hex_value :: "char \<Rightarrow> nat option" where
  "hex_value c = map_of (zip hextable [0..<16] @ zip ''ABCDEF'' [10..<16]) c"

fun hex_DecodeString :: "string \<Rightarrow> bytes option" where
  "hex_DecodeString [] = Some []"
| "hex_DecodeString [c] = None"
| "hex_DecodeString (c # d # rest) =
     (case (hex_value c, hex_value d, hex_DecodeString rest) of
        (Some x, Some y, Some bs) \<Rightarrow> Some (word_of_nat (16 * x + y) # bs)
      | _ \<Rightarrow> None)"

text \<open>The bytes \<open>DecodeString\<close> returns besides an error: those decoded before it.\<close>

fun hex_prefix :: "string \<Rightarrow> bytes" where
  "hex_prefix (c # d # rest) =
     (case (hex_value c, hex_value d) of
        (Some x, Some y) \<Rightarrow> word_of_nat (16 * x + y) # hex_prefix rest
      | _ \<Rightarrow> [])"
| "hex_prefix _ = []"

lemma hex_value_digit: "n < 16 \<Longrightarrow> hex_value (hextable ! n) = Some n"
proof -
  assume "n < 16"
  then have "n \<in> {0, 1, 2, 3, 4, 5, 6, 7, 8, 9, 10, 11, 12, 13, 14, 15}"
    by (auto simp: numeral_eq_Suc less_Suc_eq)
  then show ?thesis
    by (elim insertE emptyE; simp add: hex_value_def hextable_def upt_rec)
qed

lemma hex_roundtrip [simp]: "hex_DecodeString (hex_EncodeToString bs) = Some bs"
proof (induction bs)
  case (Cons b bs)
  have "unat b div 16 < 16" "unat b mod 16 < 16"
    using unat_byte [of b] by simp_all
  then show ?case
    using Cons.IH by (simp add: hex_EncodeToString_def hex_value_digit mult.commute [of 16])
qed (simp add: hex_EncodeToString_def)

lemma hex_prefix_decoded: "hex_DecodeString s = Some bs \<Longrightarrow> hex_prefix s = bs"
  by (induction s arbitrary: bs rule: hex_DecodeString.induct) (auto split: option.splits)

lemma length_hex_EncodeToString: "length (hex_EncodeToString bs) = 2 * length bs"
  by (induction bs) (simp_all add: hex_EncodeToString_def)

lemma hex_EncodeToString_inject: "hex_EncodeToString xs = hex_EncodeToString ys \<longleftrightarrow> xs = ys"
  by (metis hex_roundtrip option.inject)

section \<open>Base64 without padding, URL alphabet\<close>

definition base64_alphabet :: string where
  "base64_alphabet = ''ABCDEFGHIJKLMNOPQRSTUVWXYZabcdefghijklmnopqrstuvwxyz0123456789-_''"

text \<open>The six-bit groups of a byte sequence, and the bytes of groups: unused trailing bits are not looked at.\<close>

fun to_sextets :: "nat list \<Rightarrow> nat list" where
  "to_sextets [] = []"
| "to_sextets [a] = [a div 4, (a mod 4) * 16]"
| "to_sextets [a, b] = [a div 4, (a mod 4) * 16 + b div 16, (b mod 16) * 4]"
| "to_sextets (a # b # c # rest) =
     [a div 4, (a mod 4) * 16 + b div 16, (b mod 16) * 4 + c div 64, c mod 64] @ to_sextets rest"

fun from_sextets :: "nat list \<Rightarrow> nat list option" where
  "from_sextets [] = Some []"
| "from_sextets [w] = None"
| "from_sextets [w, x] = Some [w * 4 + x div 16]"
| "from_sextets [w, x, y] = Some [w * 4 + x div 16, (x mod 16) * 16 + y div 4]"
| "from_sextets (w # x # y # z # rest) =
     map_option ((@) [w * 4 + x div 16, (x mod 16) * 16 + y div 4, (y mod 4) * 64 + z]) (from_sextets rest)"

definition base64_EncodeToString :: "bytes \<Rightarrow> string" where
  "base64_EncodeToString bs = map ((!) base64_alphabet) (to_sextets (map unat bs))"

fun all_some :: "'a option list \<Rightarrow> 'a list option" where
  "all_some [] = Some []"
| "all_some (x # xs) = (case (x, all_some xs) of (Some a, Some as) \<Rightarrow> Some (a # as) | _ \<Rightarrow> None)"

text \<open>Line breaks are skipped anywhere.\<close>

definition base64_DecodeString :: "string \<Rightarrow> bytes option" where
  "base64_DecodeString s =
     Option.bind (all_some (map (map_of (zip base64_alphabet [0..<64])) (filter (\<lambda>c. c \<noteq> CHR 0x0D \<and> c \<noteq> CHR 0x0A) s)))
       (\<lambda>sextets. map_option (map word_of_nat) (from_sextets sextets))"

lemma from_to_sextets: "list_all (\<lambda>a. a < 256) bs \<Longrightarrow> from_sextets (to_sextets bs) = Some bs"
proof (induction bs rule: to_sextets.induct)
  case (2 a)
  have "a div 4 * 4 + a mod 4 * 16 div 16 = a"
    by simp
  then show ?case by simp
next
  case (3 a b)
  then have "(a mod 4 * 16 + b div 16) div 16 = a mod 4" "(a mod 4 * 16 + b div 16) mod 16 = b div 16"
    by (simp_all add: less_mult_imp_div_less)
  then show ?case by simp
next
  case (4 a b c rest)
  then have "(a mod 4 * 16 + b div 16) div 16 = a mod 4" "(a mod 4 * 16 + b div 16) mod 16 = b div 16"
    "(b mod 16 * 4 + c div 64) div 4 = b mod 16" "(b mod 16 * 4 + c div 64) mod 4 = c div 64"
    by (simp_all add: less_mult_imp_div_less)
  with 4 show ?case by simp
qed simp

lemma to_sextets_range: "list_all (\<lambda>a. a < 256) bs \<Longrightarrow> list_all (\<lambda>x. x < 64) (to_sextets bs)"
  by (induction bs rule: to_sextets.induct) (auto simp: less_mult_imp_div_less add_less_mono)

lemma alphabet_facts: "distinct base64_alphabet" "length base64_alphabet = 64"
  "CHR 0x0D \<notin> set base64_alphabet" "CHR 0x0A \<notin> set base64_alphabet"
  by (simp_all add: base64_alphabet_def)

lemma alphabet_value:
  assumes "x < 64"
  shows "map_of (zip base64_alphabet [0..<64]) (base64_alphabet ! x) = Some x"
proof -
  have "zip base64_alphabet [0..<64] ! x = (base64_alphabet ! x, x)"
    using assms by (simp add: alphabet_facts)
  moreover have "x < length (zip base64_alphabet [0..<64])"
    using assms by (simp add: alphabet_facts)
  ultimately have "(base64_alphabet ! x, x) \<in> set (zip base64_alphabet [0..<64])"
    by (metis nth_mem)
  then show ?thesis
    by (simp add: alphabet_facts)
qed

lemma all_some_values:
  "list_all (\<lambda>x. x < 64) xs \<Longrightarrow> all_some (map (map_of (zip base64_alphabet [0..<64])) (map ((!) base64_alphabet) xs)) = Some xs"
  by (induction xs) (simp_all add: alphabet_value)

lemma base64_roundtrip [simp]: "base64_DecodeString (base64_EncodeToString bs) = Some bs"
proof -
  have range: "list_all (\<lambda>a. a < 256) (map unat bs)"
    by (simp add: list_all_iff unat_byte)
  have "filter (\<lambda>c. c \<noteq> CHR 0x0D \<and> c \<noteq> CHR 0x0A) (base64_EncodeToString bs) = base64_EncodeToString bs"
  proof (rule filter_True, rule ballI)
    fix c
    assume "c \<in> set (base64_EncodeToString bs)"
    then obtain x where "c = base64_alphabet ! x" "x < 64"
      using to_sextets_range [OF range] by (auto simp: base64_EncodeToString_def list_all_iff)
    then have "c \<in> set base64_alphabet"
      by (simp add: alphabet_facts)
    then show "c \<noteq> CHR 0x0D \<and> c \<noteq> CHR 0x0A"
      using alphabet_facts(3,4) by metis
  qed
  then show ?thesis
    using all_some_values [OF to_sextets_range [OF range]] from_to_sextets [OF range]
    by (simp add: base64_DecodeString_def base64_EncodeToString_def o_def)
qed

section \<open>Decimal numbers\<close>

definition digit :: "nat \<Rightarrow> char" where
  "digit n = ''0123456789'' ! n"

fun format_nat :: "nat \<Rightarrow> string" where
  "format_nat n = (if n < 10 then [digit n] else format_nat (n div 10) @ [digit (n mod 10)])"

declare format_nat.simps [simp del]

definition FormatUint :: "u64 \<Rightarrow> string" where
  "FormatUint v = format_nat (unat v)"

definition FormatInt :: "int \<Rightarrow> string" where
  "FormatInt i = (if i < 0 then CHR ''-'' # format_nat (nat (- i)) else format_nat (nat i))"

text \<open>\<open>strconv.ParseUint(s, 10, 64)\<close>: digits only, at least one, and a value below \<open>2 ^ 64\<close>.\<close>

definition digit_value :: "char \<Rightarrow> nat option" where
  "digit_value c = map_of (zip ''0123456789'' [0..<10]) c"

definition parse_nat :: "string \<Rightarrow> nat option" where
  "parse_nat s = (if s = [] then None else map_option (\<lambda>ds. fold (\<lambda>d n. 10 * n + d) ds 0) (all_some (map digit_value s)))"

definition ParseUint :: "string \<Rightarrow> u64 option" where
  "ParseUint s = Option.bind (parse_nat s) (\<lambda>n. if n < 2 ^ 64 then Some (word_of_nat n) else None)"

lemma digit_value_digit: "n < 10 \<Longrightarrow> digit_value (digit n) = Some n"
proof -
  assume "n < 10"
  then have "n \<in> {0, 1, 2, 3, 4, 5, 6, 7, 8, 9}"
    by (auto simp: numeral_eq_Suc less_Suc_eq)
  then show ?thesis
    by (elim insertE emptyE; simp add: digit_value_def digit_def upt_rec)
qed

lemma all_some_append: "all_some (xs @ ys) = Option.bind (all_some xs) (\<lambda>as. map_option ((@) as) (all_some ys))"
  by (induction xs) (auto split: option.splits simp: map_option_case)

lemma format_nat_digits: "\<exists>ds. all_some (map digit_value (format_nat n)) = Some ds \<and> fold (\<lambda>d n. 10 * n + d) ds 0 = n"
proof (induction n rule: format_nat.induct)
  case (1 n)
  show ?case
  proof (cases "n < 10")
    case True
    then show ?thesis by (simp add: format_nat.simps [of n] digit_value_digit)
  next
    case False
    with 1 obtain ds where "all_some (map digit_value (format_nat (n div 10))) = Some ds" "fold (\<lambda>d n. 10 * n + d) ds 0 = n div 10"
      by blast
    then show ?thesis
      using False by (simp add: format_nat.simps [of n] all_some_append digit_value_digit)
  qed
qed

lemma format_nat_nonempty [simp]: "format_nat n \<noteq> []"
  by (simp add: format_nat.simps [of n])

lemma decimal_roundtrip [simp]: "ParseUint (FormatUint v) = Some v"
proof -
  have "unat v < 2 ^ LENGTH(64)"
    by (rule unsigned_less)
  then show ?thesis
    using format_nat_digits [of "unat v"] by (auto simp: ParseUint_def FormatUint_def parse_nat_def)
qed

text \<open>Decimal texts hold no slash and determine their number.\<close>

lemma format_nat_inject:
  assumes "format_nat m = format_nat n"
  shows "m = n"
proof -
  obtain ds where "all_some (map digit_value (format_nat m)) = Some ds" "fold (\<lambda>d n. 10 * n + d) ds 0 = m"
    using format_nat_digits by blast
  moreover obtain es where "all_some (map digit_value (format_nat n)) = Some es" "fold (\<lambda>d n. 10 * n + d) es 0 = n"
    using format_nat_digits by blast
  ultimately show ?thesis
    using assms by (metis option.inject)
qed

definition digits :: "char set" where
  "digits = set ''0123456789''"

lemma digits_plain: "CHR ''/'' \<notin> digits" "CHR ''-'' \<notin> digits"
  by (simp_all add: digits_def)

lemma format_nat_chars: "set (format_nat n) \<subseteq> digits"
proof (induction n rule: format_nat.induct)
  case (1 n)
  have "digit k \<in> digits" if "k < 10" for k
    unfolding digit_def digits_def using that by (intro nth_mem) simp
  then show ?case
    using 1 by (cases "n < 10") (simp_all add: format_nat.simps [of n])
qed

lemma FormatInt_chars: "CHR ''/'' \<notin> set (FormatInt i)"
  using format_nat_chars [of "nat i"] format_nat_chars [of "nat (- i)"] digits_plain by (auto simp: FormatInt_def)

lemma FormatInt_inject:
  assumes "FormatInt i = FormatInt j"
  shows "i = j"
proof -
  have minus: "format_nat n \<noteq> CHR ''-'' # s" for n s
  proof
    assume "format_nat n = CHR ''-'' # s"
    then have "CHR ''-'' \<in> digits"
      using format_nat_chars [of n] by simp
    then show False
      using digits_plain(2) by contradiction
  qed
  consider "i < 0" "j < 0" | "i < 0" "0 \<le> j" | "0 \<le> i" "j < 0" | "0 \<le> i" "0 \<le> j"
    by linarith
  then show ?thesis
  proof cases
    case 1
    then have "nat (- i) = nat (- j)"
      using assms by (intro format_nat_inject) (simp add: FormatInt_def)
    with 1 show ?thesis
      by simp
  next
    case 2
    then show ?thesis
      using assms minus [of "nat j", symmetric] by (simp add: FormatInt_def)
  next
    case 3
    then show ?thesis
      using assms minus by (simp add: FormatInt_def)
  next
    case 4
    then have "nat i = nat j"
      using assms by (intro format_nat_inject) (simp add: FormatInt_def)
    with 4 show ?thesis
      by simp
  qed
qed

end
