(* ===== verification/Messages.thy ===== *)
theory Messages
  imports Session Encodings
begin

text \<open>
  The control messages of the handshake in \<open>endpoint.go\<close>, as the records the JSON library fills, with
  the checks that read them. \<open>json.Marshal\<close> and \<open>json.Unmarshal\<close> between a control frame's fields and a
  record are arguments where they occur: \<open>None\<close> is their error.
\<close>

record credentialMessage =
  cm_Scheme :: string
  cm_Data :: string

record resumeMessage =
  rm_SessionID :: string
  rm_OwnerID :: string
  rm_Incarnation :: string
  rm_Secret :: string

record helloMessage =
  he_Op :: string
  he_Role :: string
  he_App :: AppIdentity
  he_AppID :: string
  he_AppVersion :: string
  he_Required :: "string list"
  he_Limits :: limitMessage
  he_Credential :: credentialMessage
  he_Group :: string
  he_Admission :: string
  he_Resume :: "resumeMessage option"

record ownerMessage =
  om_ID :: string
  om_Incarnation :: string
  om_Address :: string
  om_ServerName :: string

record principalMessage =
  pm_Issuer :: string
  pm_Subject :: string
  pm_ExpiresMS :: int

record welcomeMessage =
  we_Op :: string
  we_SessionID :: string
  we_Epoch :: string
  we_Owner :: ownerMessage
  we_Principal :: principalMessage
  we_Limits :: limitMessage
  we_Capabilities :: "string list"
  we_Resumed :: bool
  we_Resumable :: bool
  we_ResumeGraceMS :: int
  we_ResumeSecret :: string

record refreshMessage =
  rf_Op :: string
  rf_Credential :: credentialMessage

record refreshResultMessage =
  rr_Op :: string
  rr_Code :: u32
  rr_Message :: string
  rr_ExpiresMS :: int

record closeMessage =
  cl_Op :: string
  cl_Code :: u32
  cl_Message :: string

text \<open>An array of sixteen bytes filled by \<open>copy\<close>: longer input is cut, missing bytes stay zero.\<close>

definition copy16 :: "bytes \<Rightarrow> bytes" where
  "copy16 bs = take 16 (bs @ replicate 16 0)"

lemma copy16_id [simp]: "length bs = 16 \<Longrightarrow> copy16 bs = bs"
  by (simp add: copy16_def)

definition ownerMessage_of :: "Owner \<Rightarrow> ownerMessage" where
  "ownerMessage_of o1 = \<lparr>om_ID = ow_ID o1, om_Incarnation = hex_EncodeToString (ow_Incarnation o1),
     om_Address = ep_Address (ow_Endpoint o1), om_ServerName = ep_ServerName (ow_Endpoint o1)\<rparr>"

text \<open>The error of \<open>DecodeString\<close> is ignored: a malformed text gives the bytes decoded before it.\<close>

definition toOwner :: "ownerMessage \<Rightarrow> Owner" where
  "toOwner m =
     \<lparr>ow_ID = om_ID m, ow_Incarnation = copy16 (hex_prefix (om_Incarnation m)),
      ow_Endpoint = \<lparr>ep_Address = om_Address m, ep_ServerName = om_ServerName m\<rparr>\<rparr>"

definition parseSessionID :: "string \<Rightarrow> SessionID option" where
  "parseSessionID v =
     (case hex_DecodeString v of
        None \<Rightarrow> None
      | Some decoded \<Rightarrow> if length decoded \<noteq> 16 then None else Some (copy16 decoded))"

text \<open>\<open>parseHello\<close> after \<open>json.Unmarshal\<close> filled the record.\<close>

definition parseHello :: "helloMessage option \<Rightarrow> helloMessage option" where
  "parseHello unmarshalled =
     Option.bind unmarshalled (\<lambda>result.
       let result = result\<lparr>he_App := \<lparr>ai_ID = he_AppID result, ai_Version = he_AppVersion result\<rparr>\<rparr> in
       Option.bind (base64_DecodeString (cm_Data (he_Credential result))) (\<lambda>data.
         Some (result\<lparr>he_Credential := (he_Credential result)\<lparr>cm_Data := base64_EncodeToString data\<rparr>\<rparr>)))"

definition parseClose :: "(string \<Rightarrow> bool) \<Rightarrow> closeMessage option \<Rightarrow> closeMessage option" where
  "parseClose valid_utf8 unmarshalled =
     Option.bind unmarshalled (\<lambda>result.
       if cl_Op result \<noteq> ''close'' \<or> length (cl_Message result) > 256 \<or> \<not> valid_utf8 (cl_Message result) \<or> cl_Code result > WrongMode
       then None else Some result)"

text \<open>\<open>time.Duration\<close> to whole milliseconds, and \<open>time.UnixMilli\<close>; times count from the epoch.\<close>

definition UnixMilli :: "time \<Rightarrow> int" where
  "UnixMilli t = t div Millisecond"

definition validateClientWelcome :: "welcomeMessage \<Rightarrow> Role \<Rightarrow> bool \<Rightarrow> time \<Rightarrow> error option" where
  "validateClientWelcome welcome role resumed now =
     (if we_Resumed welcome \<noteq> resumed \<or> \<not> pm_ExpiresMS (we_Principal welcome) * Millisecond > now then Some ErrProtocolViolation
      else if \<not> resumed \<and> we_Epoch welcome \<noteq> ''1'' then Some ErrProtocolViolation
      else if role = BootstrapRole
      then (if we_Resumable welcome \<or> we_ResumeGraceMS welcome \<noteq> 0 \<or> we_ResumeSecret welcome \<noteq> [] then Some ErrProtocolViolation else None)
      else if \<not> we_Resumable welcome \<or> we_ResumeGraceMS welcome \<le> 0 then Some ErrProtocolViolation
      else if resumed then (if we_ResumeSecret welcome \<noteq> [] then Some ErrProtocolViolation else None)
      else (case base64_DecodeString (we_ResumeSecret welcome) of
              None \<Rightarrow> Some ErrProtocolViolation
            | Some secret \<Rightarrow> if length secret \<noteq> 32 then Some ErrProtocolViolation else None))"

text \<open>
  \<open>wire.RequireCapabilities\<close>: the list under \<open>required\<close> (\<open>None\<close> when it is missing or not a list of
  strings) holds distinct non-empty names, all supported.
\<close>

fun required_loop :: "(string \<Rightarrow> bool) \<Rightarrow> string list \<Rightarrow> string list \<Rightarrow> wire_error option" where
  "required_loop supported seen [] = None"
| "required_loop supported seen (capability # rest) =
     (if capability = [] then Some ErrInvalidControl
      else if capability \<in> set seen then Some ErrInvalidControl
      else if \<not> supported capability then Some ErrInvalidKind
      else required_loop supported (capability # seen) rest)"

definition RequireCapabilities :: "string list option \<Rightarrow> (string \<Rightarrow> bool) \<Rightarrow> wire_error option" where
  "RequireCapabilities required supported =
     (case required of None \<Rightarrow> Some ErrInvalidControl | Some capabilities \<Rightarrow> required_loop supported [] capabilities)"

lemma required_loop_None:
  "required_loop supported seen caps = None \<longleftrightarrow>
   distinct caps \<and> set caps \<inter> set seen = {} \<and> (\<forall>c \<in> set caps. c \<noteq> [] \<and> supported c)"
  by (induction caps arbitrary: seen) auto

lemma owner_message_roundtrip: "length (ow_Incarnation o1) = 16 \<Longrightarrow> toOwner (ownerMessage_of o1) = o1"
  by (cases o1) (simp add: toOwner_def ownerMessage_of_def hex_prefix_decoded [OF hex_roundtrip])

lemma session_id_roundtrip: "length sid = 16 \<Longrightarrow> parseSessionID (hex_EncodeToString sid) = Some sid"
  by (simp add: parseSessionID_def)

lemma parseSessionID_length: "parseSessionID v = Some sid \<Longrightarrow> length sid = 16"
  by (auto simp: parseSessionID_def copy16_def split: option.splits if_splits)

end
