(* ===== verification/Limiter.thy ===== *)
theory Limiter
  imports Endpoint_Limits Complex_Main
begin

text \<open>
  The two rate limiters: \<open>handshakeLimiter\<close> (\<open>handshake_limiter.go\<close>), which bounds the handshakes of a
  source address before authentication, and \<open>allowInboundMessage\<close> (\<open>endpoint.go\<close>), which bounds the
  messages of a session. Both are token buckets; the interface \<open>token_bucket\<close> states what a bucket
  promises and derives the bound on the number of grants, once for both. Go's \<open>float64\<close> token counts are
  exact rationals here: rounding is not modelled.
\<close>

section \<open>The interface of a token bucket\<close>

text \<open>Seconds of a duration, \<open>Duration.Seconds\<close>.\<close>

definition Seconds :: "duration \<Rightarrow> rat" where
  "Seconds d = of_int d / of_int Second"

text \<open>
  \<open>tk\<close> serves one call at a time of the clock and says whether it was granted to the observed client;
  \<open>potential s t\<close> is the number of tokens the client could have at time \<open>t\<close>.
\<close>

fun grants :: "('s \<Rightarrow> time \<Rightarrow> 'op \<Rightarrow> bool \<times> 's) \<Rightarrow> 's \<Rightarrow> (time \<times> 'op) list \<Rightarrow> nat" where
  "grants tk s [] = 0"
| "grants tk s ((t, op) # calls) = (let (granted, s') = tk s t op in of_bool granted + grants tk s' calls)"

text \<open>The state after a sequence of calls.\<close>

fun after_calls :: "('s \<Rightarrow> time \<Rightarrow> 'op \<Rightarrow> bool \<times> 's) \<Rightarrow> 's \<Rightarrow> (time \<times> 'op) list \<Rightarrow> 's" where
  "after_calls tk s [] = s"
| "after_calls tk s ((t, op) # calls) = after_calls tk (snd (tk s t op)) calls"

locale token_bucket =
  fixes tk :: "'s \<Rightarrow> time \<Rightarrow> 'op \<Rightarrow> bool \<times> 's"
    and potential :: "'s \<Rightarrow> time \<Rightarrow> rat"
    and inv :: "'s \<Rightarrow> time \<Rightarrow> bool"
    and rate burst :: rat
  assumes potential_range: "inv s t \<Longrightarrow> 0 \<le> potential s t \<and> potential s t \<le> burst"
    and accrues: "inv s t \<Longrightarrow> t \<le> t' \<Longrightarrow> inv s t' \<and> potential s t' \<le> potential s t + rate * Seconds (t' - t)"
    and spends: "inv s t \<Longrightarrow> tk s t op = (granted, s') \<Longrightarrow>
      inv s' t \<and> potential s' t + of_bool granted \<le> potential s t"
begin

lemma grants_potential:
  "inv s t0 \<Longrightarrow> sorted (t0 # map fst calls) \<Longrightarrow> calls \<noteq> [] \<Longrightarrow>
   of_nat (grants tk s calls) \<le> potential s t0 + rate * Seconds (fst (last calls) - t0)"
proof (induction calls arbitrary: s t0)
  case (Cons call calls)
  obtain t op granted s' where call: "call = (t, op)" "tk s t op = (granted, s')"
    by (metis surj_pair)
  from Cons.prems have "t0 \<le> t" "sorted (t # map fst calls)"
    by (auto simp: call)
  from accrues [OF Cons.prems(1) this(1)] have arrive: "inv s t" "potential s t \<le> potential s t0 + rate * Seconds (t - t0)"
    by auto
  from spends [OF arrive(1) call(2)] have spend: "inv s' t" "potential s' t + of_bool granted \<le> potential s t"
    by auto
  show ?case
  proof (cases "calls = []")
    case True
    then show ?thesis
      using arrive(2) spend(2) potential_range [OF spend(1)] by (simp add: call)
  next
    case False
    have "rate * Seconds (t - t0) + rate * Seconds (fst (last calls) - t) = rate * Seconds (fst (last calls) - t0)"
      by (simp add: Seconds_def diff_divide_distrib algebra_simps)
    then show ?thesis
      using Cons.IH [OF spend(1) \<open>sorted (t # map fst calls)\<close> False] arrive(2) spend(2) False by (simp add: call)
  qed
qed simp

lemma inv_after:
  "inv s t0 \<Longrightarrow> sorted (t0 # map fst calls @ [t]) \<Longrightarrow> inv (after_calls tk s calls) t"
proof (induction calls arbitrary: s t0)
  case Nil
  then show ?case using accrues [of s t0 t] by simp
next
  case (Cons call calls)
  obtain t1 op where call: "call = (t1, op)"
    by fastforce
  then have "inv (snd (tk s t1 op)) t1"
    using accrues [OF Cons.prems(1), of t1] spends [of s t1 op "fst (tk s t1 op)" "snd (tk s t1 op)"] Cons.prems(2) by simp
  with Cons.IH Cons.prems(2) show ?case
    by (simp add: call)
qed

text \<open>Over any interval the client is granted at most the burst and what accrues in the interval.\<close>

lemma grant_bound:
  assumes "inv s t0" "sorted (t0 # map fst (before @ window))" "window \<noteq> []"
  shows "of_nat (grants tk (after_calls tk s before) window)
    \<le> burst + rate * Seconds (fst (last window) - fst (hd window))"
proof -
  obtain t op rest where window: "window = (t, op) # rest"
    using assms(3) by (metis list.exhaust surj_pair)
  have inv: "inv (after_calls tk s before) t"
    using assms(2) by (intro inv_after [OF assms(1)]) (auto simp: window sorted_append)
  have "sorted (t # map fst window)"
    using assms(2) by (auto simp: window sorted_append)
  from grants_potential [OF inv this assms(3)] potential_range [OF inv] show ?thesis
    by (simp add: window)
qed

end

section \<open>Source addresses\<close>

text \<open>A \<open>net.Addr\<close>: nil, a UDP address with the text of its IP, or any other with its text.\<close>

datatype net_Addr = NilAddr | UDPAddr string | OtherAddr string

text \<open>The host part of Go's \<open>net.SplitHostPort\<close>, \<open>None\<close> on its errors.\<close>

fun last_index :: "'c \<Rightarrow> 'c list \<Rightarrow> nat option" where
  "last_index c [] = None"
| "last_index c (x # xs) = (case last_index c xs of Some i \<Rightarrow> Some (Suc i) | None \<Rightarrow> if x = c then Some 0 else None)"

fun first_index :: "'c \<Rightarrow> 'c list \<Rightarrow> nat option" where
  "first_index c [] = None"
| "first_index c (x # xs) = (if x = c then Some 0 else map_option Suc (first_index c xs))"

definition SplitHostPort :: "string \<Rightarrow> (string \<times> string) option" where
  "SplitHostPort hostport =
     (case last_index CHR '':'' hostport of
        None \<Rightarrow> None
      | Some i \<Rightarrow>
          if hd hostport = CHR ''[''
          then
            (case first_index CHR '']'' hostport of
               None \<Rightarrow> None
             | Some e \<Rightarrow>
                 if e + 1 \<noteq> i then None
                 else if CHR ''['' \<in> set (drop 1 hostport) \<or> CHR '']'' \<in> set (drop (e + 1) hostport) then None
                 else Some (drop 1 (List.take e hostport), drop (i + 1) hostport))
          else if CHR '':'' \<in> set (List.take i hostport) then None
          else if CHR ''['' \<in> set hostport \<or> CHR '']'' \<in> set hostport then None
          else Some (List.take i hostport, drop (i + 1) hostport))"

definition sourceIP :: "net_Addr \<Rightarrow> string" where
  "sourceIP address =
     (case address of
        NilAddr \<Rightarrow> []
      | UDPAddr ip \<Rightarrow> ip
      | OtherAddr text \<Rightarrow> (case SplitHostPort text of Some (host, _) \<Rightarrow> host | None \<Rightarrow> text))"

section \<open>The handshake limiter\<close>

definition maxHandshakeSources :: nat where
  "maxHandshakeSources = 4096"

definition handshakeSourceIdle :: duration where
  "handshakeSourceIdle = 60 * Second"

record handshakeBucket =
  hb_tokens :: rat
  hb_seen :: time

record handshakeLimiter =
  hl_rate :: rat
  hl_burst :: rat
  hl_sources :: "(string \<times> handshakeBucket) list"

definition newHandshakeLimiter :: "int \<Rightarrow> int \<Rightarrow> handshakeLimiter" where
  "newHandshakeLimiter rate burst = \<lparr>hl_rate = of_int rate, hl_burst = of_int burst, hl_sources = []\<rparr>"

text \<open>The eviction loop, and the decision on a bucket.\<close>

definition evict_idle :: "time \<Rightarrow> (string \<times> handshakeBucket) list \<Rightarrow> (string \<times> handshakeBucket) list" where
  "evict_idle now sources = filter (\<lambda>(_, existing). \<not> now - hb_seen existing \<ge> handshakeSourceIdle) sources"

definition spend :: "handshakeLimiter \<Rightarrow> string \<Rightarrow> handshakeBucket \<Rightarrow> bool \<times> handshakeLimiter" where
  "spend l key bucket =
     (if hb_tokens bucket < 1 then (False, l\<lparr>hl_sources := AList.update key bucket (hl_sources l)\<rparr>)
      else (True, l\<lparr>hl_sources := AList.update key (bucket\<lparr>hb_tokens := hb_tokens bucket - 1\<rparr>) (hl_sources l)\<rparr>))"

definition allow :: "handshakeLimiter \<Rightarrow> time \<Rightarrow> net_Addr \<Rightarrow> bool \<times> handshakeLimiter" where
  "allow l now address =
     (let key = sourceIP address in
      case map_of (hl_sources l) key of
        None \<Rightarrow>
          (let l = l\<lparr>hl_sources := evict_idle now (hl_sources l)\<rparr> in
           if length (hl_sources l) \<ge> maxHandshakeSources then (False, l)
           else spend l key \<lparr>hb_tokens = hl_burst l, hb_seen = now\<rparr>)
      | Some bucket \<Rightarrow>
          (let elapsed = Seconds (now - hb_seen bucket) in
           spend l key
             (if elapsed > 0
              then bucket\<lparr>hb_tokens := min (hl_burst l) (hb_tokens bucket + elapsed * hl_rate l), hb_seen := now\<rparr>
              else bucket\<lparr>hb_seen := now\<rparr>)))"

section \<open>The message limiter\<close>

text \<open>The fields \<open>rateAt\<close> (\<open>None\<close> is the zero time) and \<open>rateTokens\<close> of a connection.\<close>

record rateLimit =
  rl_at :: "time option"
  rl_tokens :: rat

definition allowInboundMessage :: "Limits \<Rightarrow> rateLimit \<Rightarrow> time \<Rightarrow> bool \<times> rateLimit" where
  "allowInboundMessage limits o1 now =
     (let burst = of_int (MessageBurstPerSession limits);
          (rateAt, rateTokens) = (case rl_at o1 of None \<Rightarrow> (now, burst) | Some rateAt \<Rightarrow> (rateAt, rl_tokens o1));
          tokens = min burst (rateTokens + Seconds (now - rateAt) * of_int (MessagesPerSessionPerSecond limits)) in
      if tokens < 1 then (False, \<lparr>rl_at = Some now, rl_tokens = tokens\<rparr>)
      else (True, \<lparr>rl_at = Some now, rl_tokens = tokens - 1\<rparr>))"

section \<open>Both limiters are token buckets\<close>

lemma Seconds_simps [simp]: "Seconds 0 = 0" "0 < Seconds d \<longleftrightarrow> 0 < d" "0 \<le> Seconds d \<longleftrightarrow> 0 \<le> d"
  by (simp_all add: Seconds_def zero_less_divide_iff zero_le_divide_iff)

lemma Seconds_diff: "Seconds (a - b) = Seconds a - Seconds b"
  by (simp add: Seconds_def diff_divide_distrib)

definition message_potential :: "Limits \<Rightarrow> rateLimit \<Rightarrow> time \<Rightarrow> rat" where
  "message_potential limits o1 t =
     (case rl_at o1 of
        None \<Rightarrow> of_int (MessageBurstPerSession limits)
      | Some rateAt \<Rightarrow> min (of_int (MessageBurstPerSession limits))
          (rl_tokens o1 + Seconds (t - rateAt) * of_int (MessagesPerSessionPerSecond limits)))"

definition message_inv :: "Limits \<Rightarrow> rateLimit \<Rightarrow> time \<Rightarrow> bool" where
  "message_inv limits o1 t \<longleftrightarrow>
     0 \<le> MessageBurstPerSession limits \<and> 0 \<le> MessagesPerSessionPerSecond limits
     \<and> (\<forall>rateAt. rl_at o1 = Some rateAt \<longrightarrow> rateAt \<le> t \<and> 0 \<le> rl_tokens o1)"

definition message_take :: "Limits \<Rightarrow> rateLimit \<Rightarrow> time \<Rightarrow> unit \<Rightarrow> bool \<times> rateLimit" where
  "message_take limits o1 now _ = allowInboundMessage limits o1 now"

interpretation messages: token_bucket "message_take limits" "message_potential limits" "message_inv limits"
  "of_int (MessagesPerSessionPerSecond limits)" "of_int (MessageBurstPerSession limits)"
proof
  fix s t t' op granted s'
  assume inv: "message_inv limits s t"
  then show "0 \<le> message_potential limits s t \<and> message_potential limits s t \<le> of_int (MessageBurstPerSession limits)"
    by (auto simp: message_inv_def message_potential_def split: option.splits)
  assume "t \<le> t'"
  then have "0 \<le> of_int (MessagesPerSessionPerSecond limits) * Seconds (t' - t)"
    using inv by (simp add: message_inv_def)
  with inv \<open>t \<le> t'\<close> show "message_inv limits s t' \<and> message_potential limits s t'
      \<le> message_potential limits s t + of_int (MessagesPerSessionPerSecond limits) * Seconds (t' - t)"
    by (auto simp: message_inv_def message_potential_def Seconds_diff algebra_simps min_def split: option.splits)
next
  fix s t op granted s'
  assume "message_inv limits s t" "message_take limits s t op = (granted, s')"
  then show "message_inv limits s' t \<and> message_potential limits s' t + of_bool granted \<le> message_potential limits s t"
    by (auto simp: message_inv_def message_potential_def message_take_def allowInboundMessage_def Let_def min_def
        split: option.splits if_splits)
qed

text \<open>The handshakes of one source among all calls of the limiter.\<close>

definition source_take :: "string \<Rightarrow> handshakeLimiter \<Rightarrow> time \<Rightarrow> net_Addr \<Rightarrow> bool \<times> handshakeLimiter" where
  "source_take key l now address = (let (ok, l') = allow l now address in (ok \<and> sourceIP address = key, l'))"

definition bucket_potential :: "rat \<Rightarrow> rat \<Rightarrow> handshakeBucket \<Rightarrow> time \<Rightarrow> rat" where
  "bucket_potential rate burst b t = min burst (hb_tokens b + rate * Seconds (max 0 (t - hb_seen b)))"

definition source_potential :: "rat \<Rightarrow> rat \<Rightarrow> string \<Rightarrow> handshakeLimiter \<Rightarrow> time \<Rightarrow> rat" where
  "source_potential rate burst key l t =
     (case map_of (hl_sources l) key of None \<Rightarrow> burst | Some b \<Rightarrow> bucket_potential rate burst b t)"

definition limiter_inv :: "rat \<Rightarrow> rat \<Rightarrow> handshakeLimiter \<Rightarrow> bool" where
  "limiter_inv rate burst l \<longleftrightarrow>
     0 \<le> rate \<and> 0 \<le> burst \<and> burst \<le> 60 * rate \<and> hl_rate l = rate \<and> hl_burst l = burst
     \<and> distinct (map fst (hl_sources l)) \<and> length (hl_sources l) \<le> maxHandshakeSources
     \<and> (\<forall>key b. map_of (hl_sources l) key = Some b \<longrightarrow> 0 \<le> hb_tokens b \<and> hb_tokens b \<le> burst)"

lemma evict_idle_lookup:
  assumes "distinct (map fst sources)"
  shows "map_of (evict_idle now sources) key =
    (case map_of sources key of None \<Rightarrow> None
     | Some b \<Rightarrow> if now - hb_seen b \<ge> handshakeSourceIdle then None else Some b)"
  using assms
proof (induction sources)
  case (Cons x sources)
  obtain k b where x: "x = (k, b)"
    by fastforce
  have "map_of sources k = None"
    using Cons.prems by (auto simp: x map_of_eq_None_iff)
  with Cons show ?case
    by (auto simp: evict_idle_def x split: option.splits)
qed (simp add: evict_idle_def)

lemma evict_idle_keys: "distinct (map fst sources) \<Longrightarrow> distinct (map fst (evict_idle now sources))"
  by (induction sources) (auto simp: evict_idle_def)

lemma evict_idle_length: "length (evict_idle now sources) \<le> length sources"
  by (simp add: evict_idle_def)

lemma spend_inv:
  assumes "limiter_inv rate burst l" "0 \<le> hb_tokens b" "hb_tokens b \<le> burst"
    and "map_of (hl_sources l) key \<noteq> None \<or> length (hl_sources l) < maxHandshakeSources"
  shows "limiter_inv rate burst (snd (spend l key b))"
  using assms by (auto simp: limiter_inv_def spend_def length_alist_update update_conv' distinct_update split: if_splits
      simp del: map_of_eq_Some_iff)

lemma spend_other: "key \<noteq> k \<Longrightarrow> map_of (hl_sources (snd (spend l k b))) key = map_of (hl_sources l) key"
  by (simp add: spend_def update_conv)

lemma spend_same:
  "spend l key b = (granted, l') \<Longrightarrow>
   map_of (hl_sources l') key = Some (b\<lparr>hb_tokens := hb_tokens b - of_bool granted\<rparr>) \<and> (granted \<longrightarrow> 1 \<le> hb_tokens b)"
  by (auto simp: spend_def update_conv split: if_splits)

text \<open>The bucket a call decides on: refilled, or new after eviction; in both cases within the potential.\<close>

lemma evicted_inv: "limiter_inv rate burst l \<Longrightarrow> limiter_inv rate burst (l\<lparr>hl_sources := evict_idle now (hl_sources l)\<rparr>)"
  using evict_idle_length [of now "hl_sources l"]
  by (auto simp: limiter_inv_def evict_idle_keys evict_idle_lookup split: option.splits if_splits simp del: map_of_eq_Some_iff)

lemma evicted_potential:
  assumes "limiter_inv rate burst l"
  shows "source_potential rate burst key (l\<lparr>hl_sources := evict_idle now (hl_sources l)\<rparr>) now
    = source_potential rate burst key l now"
proof -
  have "bucket_potential rate burst b now = burst"
    if "map_of (hl_sources l) key = Some b" "now - hb_seen b \<ge> handshakeSourceIdle" for b
  proof -
    have "60 \<le> Seconds (now - hb_seen b)"
      using that(2) by (simp add: handshakeSourceIdle_def Seconds_def le_divide_eq flip: of_int_mult)
    then have "burst \<le> rate * Seconds (now - hb_seen b)"
      using assms mult_left_mono [of 60 "Seconds (now - hb_seen b)" rate] by (simp add: limiter_inv_def)
    moreover have "0 \<le> hb_tokens b" "0 < now - hb_seen b"
      using assms that by (auto simp: limiter_inv_def handshakeSourceIdle_def)
    ultimately show ?thesis
      by (simp add: bucket_potential_def max_def)
  qed
  then show ?thesis
    using assms by (auto simp: source_potential_def limiter_inv_def evict_idle_lookup split: option.splits)
qed

definition refilled :: "handshakeLimiter \<Rightarrow> handshakeBucket \<Rightarrow> time \<Rightarrow> handshakeBucket" where
  "refilled l b now = b\<lparr>hb_tokens := bucket_potential (hl_rate l) (hl_burst l) b now, hb_seen := now\<rparr>"

lemma allow_existing:
  assumes "limiter_inv rate burst l" "map_of (hl_sources l) (sourceIP address) = Some b"
  shows "allow l now address = spend l (sourceIP address) (refilled l b now)"
proof -
  have "hb_tokens b \<le> hl_burst l"
    using assms by (auto simp: limiter_inv_def simp del: map_of_eq_Some_iff)
  then show ?thesis
    using assms(2) by (auto simp: allow_def refilled_def bucket_potential_def Let_def max_def mult.commute simp del: map_of_eq_Some_iff)
qed

lemma allow_inv:
  assumes "limiter_inv rate burst l"
  shows "limiter_inv rate burst (snd (allow l now address))"
proof (cases "map_of (hl_sources l) (sourceIP address)")
  case None
  let ?l = "l\<lparr>hl_sources := evict_idle now (hl_sources l)\<rparr>"
  have "limiter_inv rate burst ?l" "hl_burst l = burst" "0 \<le> burst"
    using evicted_inv [OF assms] assms by (auto simp: limiter_inv_def)
  then show ?thesis
    using None spend_inv [of rate burst ?l "\<lparr>hb_tokens = burst, hb_seen = now\<rparr>"] by (simp add: allow_def Let_def not_le)
next
  case (Some b)
  then have "0 \<le> hb_tokens (refilled l b now)" "hb_tokens (refilled l b now) \<le> burst"
    using assms by (auto simp: limiter_inv_def refilled_def bucket_potential_def simp del: map_of_eq_Some_iff)
  with spend_inv [OF assms this] allow_existing [OF assms Some] Some show ?thesis
    by simp
qed

lemma spent_potential:
  assumes "spend l key b = (granted, l')" "hb_seen b = now" "hb_tokens b \<le> burst"
  shows "source_potential rate burst key l' now + of_bool granted = hb_tokens b"
  using spend_same [OF assms(1)] assms(2,3) by (auto simp: source_potential_def bucket_potential_def min_def simp del: map_of_eq_Some_iff)

lemma spend_potential_other:
  "key \<noteq> k \<Longrightarrow> source_potential rate burst key (snd (spend l k b)) now = source_potential rate burst key l now"
  by (simp add: source_potential_def spend_other)

lemma allow_potential:
  assumes inv: "limiter_inv rate burst l" and step: "source_take key l now address = (granted, l')"
  shows "source_potential rate burst key l' now + of_bool granted \<le> source_potential rate burst key l now"
proof (cases "map_of (hl_sources l) (sourceIP address)")
  case None
  let ?l = "l\<lparr>hl_sources := evict_idle now (hl_sources l)\<rparr>" and ?b = "\<lparr>hb_tokens = burst, hb_seen = now\<rparr>"
  have burst: "hl_burst l = burst"
    using inv by (simp add: limiter_inv_def)
  show ?thesis
  proof (cases "maxHandshakeSources \<le> length (hl_sources ?l)")
    case True
    then show ?thesis
      using step None evicted_potential [OF inv, of key now] by (simp add: source_take_def allow_def Let_def)
  next
    case False
    obtain ok where ok: "spend ?l (sourceIP address) ?b = (ok, l')" "granted = (ok \<and> sourceIP address = key)"
      using step None False burst by (auto simp: source_take_def allow_def Let_def split: prod.splits)
    show ?thesis
    proof (cases "sourceIP address = key")
      case True
      then show ?thesis
        using ok None spent_potential [OF ok(1), of now burst rate] by (simp add: source_potential_def)
    next
      case False
      then show ?thesis
        using ok spend_potential_other [of key "sourceIP address" rate burst ?l ?b now] evicted_potential [OF inv, of key now]
        by simp
    qed
  qed
next
  case (Some b)
  note existing = allow_existing [OF inv Some, of now]
  obtain ok where ok: "spend l (sourceIP address) (refilled l b now) = (ok, l')" "granted = (ok \<and> sourceIP address = key)"
    using step by (auto simp: source_take_def existing split: prod.splits)
  have r: "hl_rate l = rate" "hl_burst l = burst"
    using inv by (simp_all add: limiter_inv_def)
  show ?thesis
  proof (cases "sourceIP address = key")
    case True
    then show ?thesis
      using ok Some spent_potential [OF ok(1), of now burst rate]
      by (simp add: source_potential_def refilled_def bucket_potential_def r)
  next
    case False
    then show ?thesis
      using ok spend_potential_other [of key "sourceIP address" rate burst l "refilled l b now" now] by simp
  qed
qed

lemma potential_accrues:
  assumes "limiter_inv rate burst l" "t \<le> t'"
  shows "source_potential rate burst key l t' \<le> source_potential rate burst key l t + rate * Seconds (t' - t)"
proof (cases "map_of (hl_sources l) key")
  case None
  then show ?thesis using assms by (simp add: source_potential_def limiter_inv_def)
next
  case (Some b)
  have "rate * Seconds (max 0 (t' - hb_seen b)) \<le> rate * (Seconds (max 0 (t - hb_seen b)) + Seconds (t' - t))"
    using assms by (intro mult_left_mono) (auto simp: limiter_inv_def max_def Seconds_def divide_right_mono
        simp flip: add_divide_distrib of_int_add of_int_diff)
  moreover have "0 \<le> rate * Seconds (t' - t)"
    using assms by (simp add: limiter_inv_def)
  ultimately show ?thesis
    using Some by (auto simp: source_potential_def bucket_potential_def min_def algebra_simps)
qed

interpretation handshakes: token_bucket "source_take key" "source_potential rate burst key" "\<lambda>l t. limiter_inv rate burst l" rate burst
proof
  fix l t t' op granted l'
  assume inv: "limiter_inv rate burst l"
  then show "0 \<le> source_potential rate burst key l t \<and> source_potential rate burst key l t \<le> burst"
    by (auto simp: source_potential_def bucket_potential_def limiter_inv_def split: option.splits simp del: map_of_eq_Some_iff)
  show "limiter_inv rate burst l \<and> source_potential rate burst key l t' \<le> source_potential rate burst key l t + rate * Seconds (t' - t)"
    if "t \<le> t'"
    using inv potential_accrues [OF inv that] by simp
  assume "source_take key l t op = (granted, l')"
  then show "limiter_inv rate burst l' \<and> source_potential rate burst key l' t + of_bool granted \<le> source_potential rate burst key l t"
    using allow_potential [OF inv] allow_inv [OF inv, of t op] by (auto simp: source_take_def split: prod.splits)
qed

section \<open>Properties\<close>

text \<open>
  C30. Both limiters bound the traffic of every interval, with a clock that does not go back and after any earlier calls. When
  \<open>HandshakeBurstPerIP\<close> is at most 60 times \<open>HandshakesPerIPPerSecond\<close> (so that forgetting an idle source gives it nothing), a source
  address is allowed at most \<open>burst + rate * seconds\<close> handshakes in a window of calls; a connection at most its message burst
  and rate, counted from the tokens of a new connection, which a resumed session starts with again; and the handshake limiter never
  remembers more than \<open>maxHandshakeSources\<close> sources. Tokens are exact rationals here and \<open>float64\<close> in the code.
\<close>

theorem rate_limits_hold:
  assumes "normalizeLimits configured = Inr limits" "HandshakeBurstPerIP limits \<le> 60 * HandshakesPerIPPerSecond limits"
    and "limiter = newHandshakeLimiter (HandshakesPerIPPerSecond limits) (HandshakeBurstPerIP limits)"
    and "sorted (t0 # map fst (before @ window))" "window \<noteq> []"
    and "sorted (t0 # map fst (earlier @ messages))" "messages \<noteq> []"
  shows "of_nat (grants (source_take key) (after_calls (source_take key) limiter before) window)
      \<le> of_int (HandshakeBurstPerIP limits)
        + of_int (HandshakesPerIPPerSecond limits) * Seconds (fst (last window) - fst (hd window))
    \<and> length (hl_sources (after_calls (source_take key) limiter before)) \<le> maxHandshakeSources
    \<and> of_nat (grants (message_take limits) (after_calls (message_take limits) \<lparr>rl_at = None, rl_tokens = 0\<rparr> earlier) messages)
      \<le> of_int (MessageBurstPerSession limits)
        + of_int (MessagesPerSessionPerSecond limits) * Seconds (fst (last messages) - fst (hd messages))"
proof -
  have pos: "0 < HandshakesPerIPPerSecond limits" "0 < HandshakeBurstPerIP limits"
      "0 < MessagesPerSessionPerSecond limits" "0 < MessageBurstPerSession limits"
    using normalizeLimits_positive(1) [OF assms(1)] by (auto simp: limit_ints_def)
  have "limiter_inv (of_int (HandshakesPerIPPerSecond limits)) (of_int (HandshakeBurstPerIP limits)) limiter"
    using pos assms(2) of_int_le_iff [of "HandshakeBurstPerIP limits" "60 * HandshakesPerIPPerSecond limits", where ?'a = rat]
    by (simp add: limiter_inv_def newHandshakeLimiter_def assms(3))
  note bound = handshakes.grant_bound [OF this assms(4,5), of key] and later = handshakes.inv_after [OF this, of t0 before "fst (hd window)" key]
  have "sorted (t0 # map fst before @ [fst (hd window)])"
    using assms(4,5) by (auto simp: sorted_append)
  from later [OF this] have "length (hl_sources (after_calls (source_take key) limiter before)) \<le> maxHandshakeSources"
    by (simp add: limiter_inv_def)
  moreover have "message_inv limits \<lparr>rl_at = None, rl_tokens = 0\<rparr> t0"
    using pos by (simp add: message_inv_def)
  note messages.grant_bound [OF this assms(6,7)]
  ultimately show ?thesis
    using bound by blast
qed

theorem rate_limits_hold_witness:
  "of_nat (grants (source_take ''10.0.0.1'') (newHandshakeLimiter 20 40) (replicate 50 (0, UDPAddr ''10.0.0.1'')))
    \<le> (40 :: rat)"
proof -
  have rates: "HandshakesPerIPPerSecond DefaultLimits = 20" "HandshakeBurstPerIP DefaultLimits = 40"
    by (simp_all add: DefaultLimits_def)
  show ?thesis
    using rate_limits_hold [OF DefaultLimits_normal _ refl, of 0 "[]" "replicate 50 (0, UDPAddr ''10.0.0.1'')" "[]" "[(0, ())]" "''10.0.0.1''"]
    by (simp add: rates)
qed

text \<open>
  The condition on the burst is needed: an address that spent its burst is forgotten after a minute
  when another address appears, and then has its whole burst again.
\<close>

lemma eviction_refills_burst:
  "grants (source_take ''a'') (newHandshakeLimiter 1 61)
     (replicate 61 (0, UDPAddr ''a'') @ (60 * Second, UDPAddr ''b'') # replicate 61 (60 * Second, UDPAddr ''a'')) = 122"
  by code_simp

end
