(* ===== verification/Server.thy ===== *)
theory Server
  imports Messages Incoming_Queue Limiter
begin

text \<open>
  The server endpoint of \<open>endpoint.go\<close>: its tables of sessions, ended sessions and groups, and the
  operations on them. Go's critical sections are the atomic steps: a definition is the code between a
  lock and its unlock, or a handler composed of such sections. Sessions and groups are heap objects, so
  the tables hold pointers and \<open>sv_heap\<close> the session records. Go maps are association lists with distinct keys.
  Interfaces of the configuration are functions; observations are left out.
\<close>

section \<open>State\<close>

record tlsConfig =
  tls_InsecureSkipVerify :: bool
  tls_Certificates :: nat
  tls_GetCertificate :: bool

record 'h ServerConfig =
  sc_Role :: Role
  sc_TLS :: "tlsConfig option"
  sc_App :: AppIdentity
  sc_Owner :: Owner
  sc_Auth :: "(Credential \<Rightarrow> error + Principal) option"
  sc_AuthorizeGroup :: "(Principal \<Rightarrow> string \<Rightarrow> error option) option"
  sc_Admission :: "(string \<Rightarrow> error + Admission) option"
  sc_RequireAdmission :: bool
  sc_CommitGroupClose :: "(AppIdentity \<Rightarrow> string \<Rightarrow> Owner \<Rightarrow> error option) option"
  sc_Mode :: DispatchMode
  sc_Router :: "'h Router option"
  sc_Limits :: Limits

record groupState =
  gs_ptr :: pointer
  gs_closed :: bool
  gs_persisted :: bool
  gs_timer :: "time option"
  gs_sessions :: "pointer list"

record terminalSession =
  ts_code :: Code
  ts_expires :: time

record ('a, 'h) serverEndpoint =
  sv_config :: "'h ServerConfig"
  sv_owner :: Owner
  sv_limits :: Limits
  sv_heap :: "pointer \<rightharpoonup> 'a sessionRecord"
  sv_sessions :: "(SessionID \<times> pointer) list"
  sv_terminals :: "(SessionID \<times> terminalSession) list"
  sv_terminalTTL :: duration
  sv_terminalTimer :: "time option"
  sv_pending :: int
  sv_groups :: "(string \<times> groupState) list"
  sv_limiter :: handshakeLimiter
  sv_groupTTL :: duration
  sv_draining :: bool
  sv_served :: bool
  sv_applicationBudget :: Budget
  sv_incoming :: "incomingQueue option"
  sv_changed :: bool

text \<open>A server, or the error \<open>NewServer\<close> returns, or \<open>None\<close> for a panic of \<open>NewBudget\<close> or \<open>NewQueue\<close>.
  \<open>random\<close> is the outcome of reading the random incarnation.\<close>

definition invalid_config :: "'h ServerConfig \<Rightarrow> bool" where
  "invalid_config config \<longleftrightarrow>
     (case sc_TLS config of
        None \<Rightarrow> True
      | Some tls \<Rightarrow> tls_InsecureSkipVerify tls \<or> tls_Certificates tls = 0 \<and> \<not> tls_GetCertificate tls)
     \<or> ai_ID (sc_App config) = [] \<or> ai_Version (sc_App config) = [] \<or> ow_ID (sc_Owner config) = []
     \<or> ep_Address (ow_Endpoint (sc_Owner config)) = [] \<or> ep_ServerName (ow_Endpoint (sc_Owner config)) = []
     \<or> sc_Auth config = None"

definition NewServer :: "'h ServerConfig \<Rightarrow> error + bytes \<Rightarrow> (error + ('a, 'h) serverEndpoint) option" where
  "NewServer config random =
     (case normalizeLimits (sc_Limits config) of
        Inl err \<Rightarrow> Some (Inl err)
      | Inr limits \<Rightarrow>
          if invalid_config config then Some (Inl ErrInvalidArgument)
          else if ow_Incarnation (sc_Owner config) \<noteq> replicate 16 0 then Some (Inl ErrInvalidArgument)
          else if sc_Mode config = Polling \<and> sc_Router config \<noteq> None \<or> sc_Mode config = Handlers \<and> sc_Router config = None
          then Some (Inl ErrInvalidArgument)
          else
            (case random of
               Inl err \<Rightarrow> Some (Inl err)
             | Inr incarnation \<Rightarrow>
                 (let owner = (sc_Owner config)\<lparr>ow_Incarnation := incarnation\<rparr>;
                      config = config\<lparr>sc_Limits := limits, sc_Owner := owner, sc_Router := snapshot (sc_Router config)\<rparr> in
                  Option.bind (NewBudget (GlobalApplicationBytes limits)) (\<lambda>budget.
                    let server = (\<lambda>incoming.
                      \<lparr>sv_config = config, sv_owner = owner, sv_limits = limits, sv_heap = Map.empty, sv_sessions = [],
                       sv_terminals = [], sv_terminalTTL = 30 * Second, sv_terminalTimer = None, sv_pending = 0, sv_groups = [],
                       sv_limiter = newHandshakeLimiter (HandshakesPerIPPerSecond limits) (HandshakeBurstPerIP limits),
                       sv_groupTTL = 35 * Second, sv_draining = False, sv_served = False, sv_applicationBudget = budget,
                       sv_incoming = incoming, sv_changed = False\<rparr>) in
                    if sc_Mode config = Polling
                    then map_option (\<lambda>q. Inr (server (Some q)))
                           (newIncomingQueue (GlobalApplicationBytes limits) (wrap64 (QueueMessages limits * MaxSessions limits)) (Some budget))
                    else Some (Inr (server None))))))"

section \<open>Timers and ended sessions\<close>

text \<open>\<open>afterFunc\<close> with a delay that was cut at zero: the time the timer fires.\<close>

definition fire_time :: "time \<Rightarrow> duration \<Rightarrow> time" where
  "fire_time now delay = now + (if delay < 0 then 0 else delay)"

definition armExpiry :: "time \<Rightarrow> 'a sessionRecord \<Rightarrow> time \<Rightarrow> 'a sessionRecord" where
  "armExpiry now session expiresAt = session\<lparr>sr_expiryTimer := Some (fire_time now (expiresAt - now), AuthExpired)\<rparr>"

definition armGrace :: "time \<Rightarrow> Limits \<Rightarrow> 'a sessionRecord \<Rightarrow> 'a sessionRecord" where
  "armGrace now limits session =
     (if sr_state session \<noteq> Suspended then session
      else
        (let untilExpiry = pr_ExpiresAt (sr_principal session) - now;
             (delay, code) = (if untilExpiry \<le> ResumeGrace limits then (untilExpiry, AuthExpired)
                              else (ResumeGrace limits, SessionExpired)) in
         session\<lparr>sr_graceTimer := Some (fire_time now delay, code)\<rparr>))"

definition terminalCacheCapacity :: "('a, 'h) serverEndpoint \<Rightarrow> int" where
  "terminalCacheCapacity s = (if MaxSessions (sv_limits s) > maxInt div 2 then maxInt else 2 * MaxSessions (sv_limits s))"

text \<open>The earliest expiry among ended sessions, and one that has it.\<close>

fun oldest_terminal :: "(SessionID \<times> terminalSession) list \<Rightarrow> (SessionID \<times> terminalSession) option" where
  "oldest_terminal [] = None"
| "oldest_terminal (x # xs) =
     (case oldest_terminal xs of
        None \<Rightarrow> Some x
      | Some y \<Rightarrow> if ts_expires (snd y) < ts_expires (snd x) then Some y else Some x)"

definition scheduleTerminalExpiryLocked :: "time \<Rightarrow> ('a, 'h) serverEndpoint \<Rightarrow> ('a, 'h) serverEndpoint" where
  "scheduleTerminalExpiryLocked now s =
     s\<lparr>sv_terminalTimer :=
         (case oldest_terminal (sv_terminals s) of None \<Rightarrow> None
          | Some (_, terminal) \<Rightarrow> Some (fire_time now (ts_expires terminal - now)))\<rparr>"

definition expireTerminalsLocked :: "time \<Rightarrow> ('a, 'h) serverEndpoint \<Rightarrow> ('a, 'h) serverEndpoint" where
  "expireTerminalsLocked now s =
     scheduleTerminalExpiryLocked now (s\<lparr>sv_terminals := filter (\<lambda>(_, terminal). ts_expires terminal > now) (sv_terminals s)\<rparr>)"

text \<open>The eviction of the oldest ended session when the cache is full.\<close>

definition evict_oldest :: "int \<Rightarrow> SessionID \<Rightarrow> (SessionID \<times> terminalSession) list \<Rightarrow> (SessionID \<times> terminalSession) list" where
  "evict_oldest capacity sid terminals =
     (if map_of terminals sid = None \<and> int (length terminals) \<ge> capacity
      then (case oldest_terminal terminals of None \<Rightarrow> terminals | Some (oldest, _) \<Rightarrow> AList.delete oldest terminals)
      else terminals)"

definition recordTerminalLocked :: "time \<Rightarrow> SessionID \<Rightarrow> Code \<Rightarrow> ('a, 'h) serverEndpoint \<Rightarrow> ('a, 'h) serverEndpoint" where
  "recordTerminalLocked now sid code s =
     (let s = expireTerminalsLocked now s;
          ttl = (if sv_terminalTTL s \<le> 0 then 30 * Second else sv_terminalTTL s) in
      scheduleTerminalExpiryLocked now
        (s\<lparr>sv_terminals := AList.update sid \<lparr>ts_code = code, ts_expires = now + ttl\<rparr>
            (evict_oldest (terminalCacheCapacity s) sid (sv_terminals s))\<rparr>))"

definition lookupSession :: "time \<Rightarrow> SessionID \<Rightarrow> ('a, 'h) serverEndpoint \<Rightarrow> (Code + pointer) \<times> ('a, 'h) serverEndpoint" where
  "lookupSession now sid s =
     (let s = expireTerminalsLocked now s in
      (case map_of (sv_sessions s) sid of
         Some session \<Rightarrow> Inr session
       | None \<Rightarrow>
           (case map_of (sv_terminals s) sid of
              Some terminal \<Rightarrow> if ts_code terminal = SessionExpired then Inl SessionExpired else Inl SessionNotFound
            | None \<Rightarrow> Inl SessionNotFound), s))"

definition stopTerminalTimer :: "('a, 'h) serverEndpoint \<Rightarrow> ('a, 'h) serverEndpoint" where
  "stopTerminalTimer s = s\<lparr>sv_terminalTimer := None\<rparr>"

definition signalChanged :: "('a, 'h) serverEndpoint \<Rightarrow> ('a, 'h) serverEndpoint" where
  "signalChanged s = s\<lparr>sv_changed := True\<rparr>"

section \<open>Ending sessions\<close>

definition on_session :: "pointer \<Rightarrow> ('a sessionRecord \<Rightarrow> 'a sessionRecord) \<Rightarrow> ('a, 'h) serverEndpoint \<Rightarrow> ('a, 'h) serverEndpoint" where
  "on_session p f s = (case sv_heap s p of None \<Rightarrow> s | Some r \<Rightarrow> s\<lparr>sv_heap := (sv_heap s)(p \<mapsto> f r)\<rparr>)"

definition stop_timers :: "'a sessionRecord \<Rightarrow> 'a sessionRecord" where
  "stop_timers r = r\<lparr>sr_expiryTimer := None, sr_graceTimer := None\<rparr>"

definition leave_group :: "string \<Rightarrow> pointer \<Rightarrow> ('a, 'h) serverEndpoint \<Rightarrow> ('a, 'h) serverEndpoint" where
  "leave_group g p s =
     (if g = [] then s
      else (case map_of (sv_groups s) g of
              None \<Rightarrow> s
            | Some state \<Rightarrow> s\<lparr>sv_groups := AList.update g (state\<lparr>gs_sessions := removeAll p (gs_sessions state)\<rparr>) (sv_groups s)\<rparr>))"

definition leave_table :: "time \<Rightarrow> bool \<Rightarrow> Code \<Rightarrow> SessionID \<Rightarrow> pointer \<Rightarrow> ('a, 'h) serverEndpoint \<Rightarrow> ('a, 'h) serverEndpoint" where
  "leave_table now isClosed terminalCode sid p s =
     (if map_of (sv_sessions s) sid = Some p
      then
        (let s = s\<lparr>sv_sessions := AList.delete sid (sv_sessions s)\<rparr>;
             s = (if isClosed then recordTerminalLocked now sid terminalCode s else s) in
         signalChanged s)
      else s)"

definition removeSession :: "time \<Rightarrow> pointer \<Rightarrow> ('a, 'h) serverEndpoint \<Rightarrow> ('a, 'h) serverEndpoint" where
  "removeSession now p s =
     (case sv_heap s p of
        None \<Rightarrow> s
      | Some r \<Rightarrow>
          leave_table now (sr_state r = Closed) (sr_terminal r) (sr_id r) p
            (leave_group (sr_group r) p (on_session p stop_timers s)))"

text \<open>\<open>session.Close\<close>; what its operations return is ignored here.\<close>

definition close_record :: "Code \<Rightarrow> 'a sessionRecord \<Rightarrow> 'a sessionRecord" where
  "close_record code r = snd (Close (\<lambda>_. None) r code)"

definition closeSession :: "time \<Rightarrow> pointer \<Rightarrow> Code \<Rightarrow> ('a, 'h) serverEndpoint \<Rightarrow> ('a, 'h) serverEndpoint" where
  "closeSession now p code s = removeSession now p (on_session p (close_record code) s)"

definition finishConnection :: "time \<Rightarrow> pointer \<Rightarrow> connectionOperations \<Rightarrow> ('a, 'h) serverEndpoint \<Rightarrow> ('a, 'h) serverEndpoint" where
  "finishConnection now p operations s =
     (case sv_heap s p of
        None \<Rightarrow> s
      | Some r \<Rightarrow>
          (case suspendIfCurrent r operations of
             (True, r', _) \<Rightarrow> s\<lparr>sv_heap := (sv_heap s)(p \<mapsto> armGrace now (sv_limits s) r')\<rparr>
           | (False, _, _) \<Rightarrow> if sr_state r = Closed then removeSession now p s else s))"

section \<open>Groups\<close>

definition groupOpen :: "('a, 'h) serverEndpoint \<Rightarrow> string \<Rightarrow> bool" where
  "groupOpen s g \<longleftrightarrow> g = [] \<or> (case map_of (sv_groups s) g of None \<Rightarrow> True | Some state \<Rightarrow> \<not> gs_closed state)"

definition retainClosedGroup :: "time \<Rightarrow> string \<Rightarrow> pointer \<Rightarrow> ('a, 'h) serverEndpoint \<Rightarrow> ('a, 'h) serverEndpoint" where
  "retainClosedGroup now g p s =
     (case map_of (sv_groups s) g of
        None \<Rightarrow> s
      | Some state \<Rightarrow>
          if gs_ptr state \<noteq> p \<or> \<not> gs_closed state \<or> gs_persisted state then s
          else
            (let ttl = (if sv_groupTTL s \<le> 0 then 35 * Second else sv_groupTTL s) in
             s\<lparr>sv_groups := AList.update g (state\<lparr>gs_persisted := True, gs_timer := Some (now + ttl)\<rparr>) (sv_groups s)\<rparr>))"

text \<open>The callback of the timer it sets.\<close>

definition group_expires :: "string \<Rightarrow> pointer \<Rightarrow> ('a, 'h) serverEndpoint \<Rightarrow> ('a, 'h) serverEndpoint" where
  "group_expires g p s =
     (case map_of (sv_groups s) g of
        None \<Rightarrow> s
      | Some state \<Rightarrow>
          if gs_ptr state = p \<and> gs_closed state \<and> gs_persisted state
          then s\<lparr>sv_groups := AList.delete g (sv_groups s)\<rparr> else s)"

definition stopGroupTimers :: "('a, 'h) serverEndpoint \<Rightarrow> ('a, 'h) serverEndpoint" where
  "stopGroupTimers s = s\<lparr>sv_groups := map (\<lambda>(g, state). (g, state\<lparr>gs_timer := None\<rparr>)) (sv_groups s)\<rparr>"

text \<open>The first section of \<open>CloseGroup\<close>: the group is marked closed and its sessions are listed. \<open>p\<close> is the
  address of a new group object, if one is made.\<close>

definition close_group_begin :: "string \<Rightarrow> pointer \<Rightarrow> ('a, 'h) serverEndpoint \<Rightarrow> (error + groupState) \<times> ('a, 'h) serverEndpoint" where
  "close_group_begin groupKey p s =
     (if groupKey = [] \<or> int (length groupKey) > MaxGroupKeyBytes (sv_limits s) \<or> sc_CommitGroupClose (sv_config s) = None
      then (Inl ErrInvalidArgument, s)
      else
        (case (case map_of (sv_groups s) groupKey of
                 Some state \<Rightarrow> Some state
               | None \<Rightarrow> if int (length (sv_groups s)) \<ge> MaxActiveGroups (sv_limits s) then None
                         else Some \<lparr>gs_ptr = p, gs_closed = False, gs_persisted = False, gs_timer = None, gs_sessions = []\<rparr>) of
           None \<Rightarrow> (Inl ErrResourceExhausted, s)
         | Some state \<Rightarrow>
             (let state = state\<lparr>gs_closed := True\<rparr> in
              (Inr state, s\<lparr>sv_groups := AList.update groupKey state (sv_groups s)\<rparr>))))"

definition CloseGroup :: "time \<Rightarrow> string \<Rightarrow> pointer \<Rightarrow> ('a, 'h) serverEndpoint \<Rightarrow> error option \<times> ('a, 'h) serverEndpoint" where
  "CloseGroup now groupKey p s =
     (case close_group_begin groupKey p s of
        (Inl err, s) \<Rightarrow> (Some err, s)
      | (Inr state, s) \<Rightarrow>
          (let s = fold (\<lambda>q. closeSession now q GroupClosed) (gs_sessions state) s in
           case the (sc_CommitGroupClose (sv_config s)) (sc_App (sv_config s)) groupKey (sv_owner s) of
             Some err \<Rightarrow> (Some err, s)
           | None \<Rightarrow> (None, retainClosedGroup now groupKey (gs_ptr state) s)))"

section \<open>Accepting connections\<close>

definition serve_begin :: "('a, 'h) serverEndpoint \<Rightarrow> error option \<times> ('a, 'h) serverEndpoint" where
  "serve_begin s = (if sv_served s then (Some ErrInvalidArgument, s) else (None, s\<lparr>sv_served := True\<rparr>))"

text \<open>One turn of the accept loop of \<open>Serve\<close>: \<open>Some\<close> is the code and text the connection is closed with.\<close>

definition accept_connection :: "time \<Rightarrow> net_Addr \<Rightarrow> ('a, 'h) serverEndpoint \<Rightarrow> (Code \<times> string) option \<times> ('a, 'h) serverEndpoint" where
  "accept_connection now address s =
     (case allow (sv_limiter s) now address of
        (False, l) \<Rightarrow> (Some (ResourceExhausted, ''handshake rate exceeded''), s\<lparr>sv_limiter := l\<rparr>)
      | (True, l) \<Rightarrow>
          (let s = s\<lparr>sv_limiter := l\<rparr> in
           if sv_pending s \<ge> MaxPendingHandshakes (sv_limits s)
           then (Some (ResourceExhausted, ''too many pending handshakes''), s)
           else (None, s\<lparr>sv_pending := sv_pending s + 1\<rparr>)))"

text \<open>\<open>finishPending\<close>, called once for an accepted connection.\<close>

definition finishPending :: "('a, 'h) serverEndpoint \<Rightarrow> ('a, 'h) serverEndpoint" where
  "finishPending s = s\<lparr>sv_pending := sv_pending s - 1\<rparr>"

text \<open>
  The checks of \<open>handleConnection\<close> on a control frame that was read: its \<open>op\<close>, the parsed hello, the
  \<open>required\<close> list, whether the connection has datagrams. \<open>Inl\<close> is the rejection.
\<close>

definition authenticate_hello :: "time \<Rightarrow> 'h ServerConfig \<Rightarrow> Limits \<Rightarrow> string \<Rightarrow> helloMessage option \<Rightarrow> string list option \<Rightarrow> bool \<Rightarrow>
  (Code \<times> string) + helloMessage \<times> Principal" where
  "authenticate_hello now config limits op unmarshalled required datagrams =
     (if op \<noteq> ''hello'' then Inl (ProtocolViolation, ''expected hello'')
      else
        (case parseHello unmarshalled of
           None \<Rightarrow> Inl (ProtocolViolation, ''invalid hello'')
         | Some hello \<Rightarrow>
             if RequireCapabilities required (\<lambda>c. datagrams \<and> c = ''datagrams'') \<noteq> None
             then Inl (UnsupportedCapability, ''required capability unavailable'')
             else if int (length (he_Group hello)) > MaxGroupKeyBytes limits then Inl (InvalidArgument, ''group key too large'')
             else if validateLimitMessage (he_Limits hello) \<noteq> None then Inl (InvalidArgument, ''invalid receive limits'')
             else if he_Role hello \<noteq> roleName (sc_Role config) \<or> he_App hello \<noteq> sc_App config
                \<or> \<not> datagrams \<and> sc_Role config = GameRole
             then Inl (UnsupportedCapability, ''unsupported capability'')
             else
               (case base64_DecodeString (cm_Data (he_Credential hello)) of
                  None \<Rightarrow> Inl (Unauthenticated, ''authentication failed'')
                | Some credentialData \<Rightarrow>
                    (case the (sc_Auth config) \<lparr>cr_Scheme = cm_Scheme (he_Credential hello), cr_Data = credentialData\<rparr> of
                       Inl _ \<Rightarrow> Inl (Unauthenticated, ''authentication failed'')
                     | Inr prin \<Rightarrow>
                         if pr_Issuer prin = [] \<or> pr_Subject prin = [] \<or> \<not> pr_ExpiresAt prin > now
                         then Inl (Unauthenticated, ''authentication failed'')
                         else Inr (hello, prin)))))"

definition authorizeAdmission :: "time \<Rightarrow> 'h ServerConfig \<Rightarrow> Owner \<Rightarrow> helloMessage \<Rightarrow> Principal \<Rightarrow> error option" where
  "authorizeAdmission now config owner hello prin =
     (if sc_Role config = BootstrapRole then None
      else if \<not> (sc_RequireAdmission config \<or> he_Group hello \<noteq> []) then None
      else
        (case (sc_Admission config, sc_AuthorizeGroup config) of
           (Some verify, Some authorizeGroup) \<Rightarrow>
             if he_Admission hello = [] then Some ErrForbidden
             else
               (case verify (he_Admission hello) of
                  Inl err \<Rightarrow> Some err
                | Inr admission \<Rightarrow>
                    if ad_App admission \<noteq> sc_App config \<or> ad_PrincipalIssuer admission \<noteq> pr_Issuer prin
                      \<or> ad_Subject admission \<noteq> pr_Subject prin \<or> ad_Owner admission \<noteq> owner
                      \<or> ad_GroupKey admission \<noteq> he_Group hello \<or> \<not> ad_ExpiresAt admission > now
                    then Some ErrForbidden
                    else authorizeGroup prin (he_Group hello))
         | _ \<Rightarrow> Some ErrForbidden))"

text \<open>The group of a new session: its table entry, made when there is none, or the rejection.\<close>

definition enter_group :: "string \<Rightarrow> pointer \<Rightarrow> ('a, 'h) serverEndpoint \<Rightarrow> (Code \<times> string) option \<times> ('a, 'h) serverEndpoint" where
  "enter_group g gp s =
     (if g = [] then (None, s)
      else if sc_CommitGroupClose (sv_config s) = None then (Some (InvalidArgument, ''group closure is not configured''), s)
      else
        (case map_of (sv_groups s) g of
           Some state \<Rightarrow> (if gs_closed state then (Some (GroupClosed, ''group closed''), s) else (None, s))
         | None \<Rightarrow>
             if int (length (sv_groups s)) \<ge> MaxActiveGroups (sv_limits s) then (Some (ResourceExhausted, ''group capacity reached''), s)
             else (None, s\<lparr>sv_groups := AList.update g
                     \<lparr>gs_ptr = gp, gs_closed = False, gs_persisted = False, gs_timer = None, gs_sessions = []\<rparr> (sv_groups s)\<rparr>)))"

definition join_group :: "string \<Rightarrow> pointer \<Rightarrow> ('a, 'h) serverEndpoint \<Rightarrow> ('a, 'h) serverEndpoint" where
  "join_group g p s =
     (if g = [] then s
      else (case map_of (sv_groups s) g of
              None \<Rightarrow> s
            | Some state \<Rightarrow> s\<lparr>sv_groups := AList.update g (state\<lparr>gs_sessions := List.insert p (gs_sessions state)\<rparr>) (sv_groups s)\<rparr>))"

text \<open>
  The admission of a new session in \<open>handleConnection\<close>, from the group lookup to the table entry; the
  group lock is held throughout. \<open>p\<close>, \<open>op\<close> and \<open>gp\<close> are the addresses of the new session, connection and
  (if made) group, \<open>sid\<close> and \<open>secret\<close> the random identifier and secret. \<open>None\<close> is a panic.
\<close>

definition admit_session :: "(bytes \<Rightarrow> bytes) \<Rightarrow> helloMessage \<Rightarrow> Principal \<Rightarrow> error + bytes \<Rightarrow> error + SessionID \<Rightarrow> pointer \<Rightarrow> pointer \<Rightarrow> pointer \<Rightarrow>
  ('a, 'h) serverEndpoint \<Rightarrow> (((Code \<times> string) option) \<times> ('a, 'h) serverEndpoint) option" where
  "admit_session sha256 hello prin secret random_id p op gp s =
     (case (if sc_Role (sv_config s) = GameRole then secret else Inr (replicate 32 0)) of
        Inl _ \<Rightarrow> Some (Some (Internal, ''random failure''), s)
      | Inr secret \<Rightarrow>
          (case enter_group (he_Group hello) gp s of
             (Some reject, s) \<Rightarrow> Some (Some reject, s)
           | (None, s) \<Rightarrow>
               if sv_draining s then Some (Some (ServerDraining, ''server draining''), s)
               else if int (length (sv_sessions s)) \<ge> MaxSessions (sv_limits s)
               then Some (Some (ResourceExhausted, ''session capacity reached''), s)
               else
                 (case random_id of
                    Inl _ \<Rightarrow> Some (Some (Internal, ''random failure''), s)
                  | Inr sid \<Rightarrow>
                      map_option
                        (\<lambda>session.
                           let session = session\<lparr>sr_resumeHash := sha256 secret, sr_peerLimits := he_Limits hello\<rparr>;
                               s = s\<lparr>sv_heap := (sv_heap s)(p \<mapsto> session),
                                     sv_sessions := AList.update sid p (sv_sessions s),
                                     sv_terminals := AList.delete sid (sv_terminals s)\<rparr> in
                           (None, join_group (he_Group hello) p (signalChanged s)))
                        (newSessionRecord sid (sv_owner s) (he_Group hello) prin (sv_limits s) False (Some op)))))"

text \<open>The welcome of a new session and of a resumed one.\<close>

definition welcome_of :: "('a, 'h) serverEndpoint \<Rightarrow> SessionID \<Rightarrow> u64 \<Rightarrow> Principal \<Rightarrow> bytes option \<Rightarrow> welcomeMessage" where
  "welcome_of s sid epoch prin secret =
     (let bootstrap = (secret \<noteq> None \<and> sc_Role (sv_config s) = BootstrapRole) in
      \<lparr>we_Op = ''welcome'', we_SessionID = hex_EncodeToString sid, we_Epoch = FormatUint epoch,
       we_Owner = ownerMessage_of (sv_owner s),
       we_Principal = \<lparr>pm_Issuer = pr_Issuer prin, pm_Subject = pr_Subject prin, pm_ExpiresMS = UnixMilli (pr_ExpiresAt prin)\<rparr>,
       we_Limits = limitMessageFrom (sv_limits s), we_Capabilities = [''datagrams''],
       we_Resumed = (secret = None), we_Resumable = (secret = None \<or> sc_Role (sv_config s) = GameRole),
       we_ResumeGraceMS = (if bootstrap then 0 else ResumeGrace (sv_limits s) div Millisecond),
       we_ResumeSecret = (if bootstrap then [] else case secret of None \<Rightarrow> [] | Some b \<Rightarrow> base64_EncodeToString b)\<rparr>)"

section \<open>Resumption\<close>

text \<open>The checks of \<open>resumeConnection\<close> before the session is looked up.\<close>

definition resume_request :: "'h ServerConfig \<Rightarrow> Owner \<Rightarrow> helloMessage \<Rightarrow> resumeMessage \<Rightarrow> (Code \<times> string) + SessionID \<times> bytes" where
  "resume_request config owner hello resume =
     (if sc_Role config \<noteq> GameRole \<or> he_Group hello \<noteq> [] \<or> he_Admission hello \<noteq> [] then Inl (Forbidden, ''invalid resume'')
      else
        (case parseSessionID (rm_SessionID resume) of
           None \<Rightarrow> Inl (SessionNotFound, ''unknown session'')
         | Some sid \<Rightarrow>
             if rm_OwnerID resume \<noteq> ow_ID owner \<or> rm_Incarnation resume \<noteq> hex_EncodeToString (ow_Incarnation owner)
             then Inl (SessionNotFound, ''unknown session'')
             else
               (case base64_DecodeString (rm_Secret resume) of
                  None \<Rightarrow> Inl (Unauthenticated, ''invalid resume secret'')
                | Some secret \<Rightarrow>
                    if length secret \<noteq> 32 then Inl (Unauthenticated, ''invalid resume secret'') else Inr (sid, secret))))"

text \<open>The section under the group and session locks: the session's new epoch and the connection it had.\<close>

definition resume_session :: "time \<Rightarrow> helloMessage \<Rightarrow> Principal \<Rightarrow> bytes \<Rightarrow> pointer \<Rightarrow> pointer \<Rightarrow> 'a sessionRecord \<Rightarrow> ('a, 'h) serverEndpoint \<Rightarrow>
  ((Code \<times> string) + u64 \<times> pointer option) \<times> ('a, 'h) serverEndpoint" where
  "resume_session now hello prin hash op p r s =
     (if sr_group r \<noteq> [] \<and> (case map_of (sv_groups s) (sr_group r) of None \<Rightarrow> True | Some state \<Rightarrow> gs_closed state)
      then (Inl (GroupClosed, ''group closed''), s)
      else
        (let current = sr_principal r in
         if sr_state r = Closed \<or> \<not> pr_ExpiresAt current > now \<or> pr_Issuer current \<noteq> pr_Issuer prin
           \<or> pr_Subject current \<noteq> pr_Subject prin \<or> sr_peerLimits r \<noteq> he_Limits hello \<or> sr_resumeHash r \<noteq> hash
         then (Inl (Unauthenticated, ''resume rejected''), s)
         else if sr_epoch r = - 1 then (Inl (ResourceExhausted, ''epoch exhausted''), s)
         else
           (Inr (sr_epoch r + 1, sr_operations r),
            s\<lparr>sv_heap := (sv_heap s)(p \<mapsto> r\<lparr>sr_epoch := sr_epoch r + 1, sr_state := Active, sr_principal := copyPrincipal prin,
                sr_operations := Some op, sr_graceTimer := None\<rparr>)\<rparr>)))"

definition resumeConnection :: "time \<Rightarrow> (bytes \<Rightarrow> bytes) \<Rightarrow> helloMessage \<Rightarrow> resumeMessage \<Rightarrow> Principal \<Rightarrow> pointer \<Rightarrow> ('a, 'h) serverEndpoint \<Rightarrow>
  ((Code \<times> string) + pointer \<times> u64 \<times> pointer option) \<times> ('a, 'h) serverEndpoint" where
  "resumeConnection now sha256 hello resume prin op s =
     (case resume_request (sv_config s) (sv_owner s) hello resume of
        Inl reject \<Rightarrow> (Inl reject, s)
      | Inr (sid, secret) \<Rightarrow>
          (case lookupSession now sid s of
             (Inl terminal, s) \<Rightarrow> (Inl (terminal, ''unknown session''), s)
           | (Inr p, s) \<Rightarrow>
               (case sv_heap s p of
                  None \<Rightarrow> (Inl (SessionNotFound, ''unknown session''), s)
                | Some r \<Rightarrow>
                    if sr_group r \<noteq> []
                      \<and> (case sc_AuthorizeGroup (sv_config s) of None \<Rightarrow> True | Some authorize \<Rightarrow> authorize prin (sr_group r) \<noteq> None)
                    then (Inl (Forbidden, ''resume authorization rejected''), s)
                    else
                      (case resume_session now hello prin (sha256 secret) op p r s of
                         (Inl reject, s) \<Rightarrow> (Inl reject, s)
                       | (Inr (epoch, previous), s) \<Rightarrow>
                           (Inr (p, epoch, previous), on_session p (\<lambda>r. armExpiry now r (pr_ExpiresAt prin)) s)))))"

text \<open>
  \<open>handleConnection\<close> as one run without other activity, from a control frame that was read to the welcome
  that is written: \<open>op\<close> and \<open>message\<close> are the frame, \<open>p\<close>, \<open>conn\<close> and \<open>gp\<close> the addresses of new objects, \<open>secret\<close> and
  \<open>random_id\<close> the random reads. A rejection is the code and text the connection is closed with; \<open>None\<close> is a panic.
\<close>

definition handleConnection :: "time \<Rightarrow> (bytes \<Rightarrow> bytes) \<Rightarrow> string \<Rightarrow> helloMessage option \<Rightarrow> bool \<Rightarrow> error + bytes \<Rightarrow> error + SessionID \<Rightarrow>
  pointer \<Rightarrow> pointer \<Rightarrow> pointer \<Rightarrow> ('a, 'h) serverEndpoint \<Rightarrow> (((Code \<times> string) + welcomeMessage) \<times> ('a, 'h) serverEndpoint) option" where
  "handleConnection now sha256 op message datagrams secret random_id p conn gp s =
     (case authenticate_hello now (sv_config s) (sv_limits s) op message (map_option he_Required message) datagrams of
        Inl reject \<Rightarrow> Some (Inl reject, finishPending s)
      | Inr (hello, prin) \<Rightarrow>
          (let s = finishPending s in
           case he_Resume hello of
             Some resume \<Rightarrow>
               (case resumeConnection now sha256 hello resume prin conn s of
                  (Inl reject, s) \<Rightarrow> Some (Inl reject, s)
                | (Inr (q, epoch, _), s) \<Rightarrow>
                    (case parseSessionID (rm_SessionID resume) of
                       None \<Rightarrow> None
                     | Some sid \<Rightarrow> Some (Inr (welcome_of s sid epoch prin None), s)))
           | None \<Rightarrow>
               if authorizeAdmission now (sv_config s) (sv_owner s) hello prin \<noteq> None then Some (Inl (Forbidden, ''admission rejected''), s)
               else
                 (case admit_session sha256 hello prin secret random_id p conn gp s of
                    None \<Rightarrow> None
                  | Some (Some reject, s) \<Rightarrow> Some (Inl reject, s)
                  | Some (None, s) \<Rightarrow>
                      (case (random_id, if sc_Role (sv_config s) = GameRole then secret else Inr (replicate 32 0)) of
                         (Inr sid, Inr secret) \<Rightarrow>
                           Some (Inr (welcome_of s sid 1 prin (Some secret)), on_session p (\<lambda>r. armExpiry now r (pr_ExpiresAt prin)) s)
                       | _ \<Rightarrow> None))))"

section \<open>Refresh, revocation and draining\<close>

definition handleRefresh :: "time \<Rightarrow> refreshMessage option \<Rightarrow> pointer \<Rightarrow> ('a, 'h) serverEndpoint \<Rightarrow> refreshResultMessage \<times> ('a, 'h) serverEndpoint" where
  "handleRefresh now unmarshalled p s =
     (let failure = \<lparr>rr_Op = ''refresh_result'', rr_Code = Unauthenticated, rr_Message = ''authentication failed'', rr_ExpiresMS = 0\<rparr> in
      case unmarshalled of
        None \<Rightarrow> (failure, s)
      | Some message \<Rightarrow>
          (case base64_DecodeString (cm_Data (rf_Credential message)) of
             None \<Rightarrow> (failure, s)
           | Some data \<Rightarrow>
               (case the (sc_Auth (sv_config s)) \<lparr>cr_Scheme = cm_Scheme (rf_Credential message), cr_Data = data\<rparr> of
                  Inl _ \<Rightarrow> (failure, s)
                | Inr prin \<Rightarrow>
                    (case sv_heap s p of
                       None \<Rightarrow> (failure, s)
                     | Some r \<Rightarrow>
                         (let previous = sr_principal r in
                          if pr_Issuer prin = pr_Issuer previous \<and> pr_Subject prin = pr_Subject previous \<and> pr_ExpiresAt prin > now
                          then (\<lparr>rr_Op = ''refresh_result'', rr_Code = 0, rr_Message = [], rr_ExpiresMS = UnixMilli (pr_ExpiresAt prin)\<rparr>,
                                on_session p (\<lambda>r. armExpiry now (setPrincipal r prin) (pr_ExpiresAt prin)) s)
                          else (failure, s))))))"

definition Sessions :: "('a, 'h) serverEndpoint \<Rightarrow> pointer list" where
  "Sessions s = map snd (sv_sessions s)"

definition Revoke :: "time \<Rightarrow> string \<Rightarrow> string \<Rightarrow> ('a, 'h) serverEndpoint \<Rightarrow> ('a, 'h) serverEndpoint" where
  "Revoke now issuer subject s =
     fold (\<lambda>p. closeSession now p Forbidden)
       (filter (\<lambda>p. case sv_heap s p of None \<Rightarrow> False
                | Some r \<Rightarrow> pr_Issuer (sr_principal r) = issuer \<and> pr_Subject (sr_principal r) = subject) (Sessions s)) s"

definition drain_begin :: "bool \<Rightarrow> ('a, 'h) serverEndpoint \<Rightarrow> error option \<times> ('a, 'h) serverEndpoint" where
  "drain_begin hasDeadline s = (if hasDeadline then (None, s\<lparr>sv_draining := True\<rparr>) else (Some ErrInvalidArgument, s))"

text \<open>
  One turn of the loop of \<open>Drain\<close>. \<open>ctx\<close> is the error of an ended context; when a change is pending too,
  \<open>choice\<close> says which case the \<open>select\<close> takes. \<open>Some\<close> returns, \<open>None\<close> goes on (waiting when nothing happened).
\<close>

definition drain_turn :: "time \<Rightarrow> ctx_error option \<Rightarrow> bool \<Rightarrow> ('a, 'h) serverEndpoint \<Rightarrow> error option option \<times> ('a, 'h) serverEndpoint" where
  "drain_turn now ctx choice s =
     (if Sessions s = [] then (Some None, s)
      else if sv_changed s \<and> (ctx = None \<or> choice) then (None, s\<lparr>sv_changed := False\<rparr>)
      else (case ctx of
              None \<Rightarrow> (None, s)
            | Some e \<Rightarrow> (Some (Some (CtxError e)), fold (\<lambda>p. closeSession now p ServerDraining) (Sessions s) s)))"

end
