(* ===== verification/Client.thy ===== *)
theory Client
  imports Server
begin

text \<open>
  The client endpoint of \<open>endpoint.go\<close>: \<open>Dial\<close>, the loss of a connection, the reconnecting loop, resumption
  and \<open>Close\<close>. What the network does during one connection attempt is a record of outcomes; the
  welcome may depend on the hello that was written, so that a server's model can answer it. The client's
  socket is the flag \<open>ce_packetOpen\<close>. Observations are left out.
\<close>

section \<open>State\<close>

text \<open>\<open>cc_Credentials\<close> is what the provider returns when it is called.\<close>

record 'h ClientConfig =
  cc_Role :: Role
  cc_TLS :: "tlsConfig option"
  cc_App :: AppIdentity
  cc_Credentials :: "(error + Credential) option"
  cc_ExpectedOwner :: "Owner option"
  cc_AdmissionTicket :: string
  cc_GroupKey :: string
  cc_Mode :: DispatchMode
  cc_Router :: "'h Router option"
  cc_Limits :: Limits
  cc_DisableReconnect :: bool

record ('a, 'h) clientEndpoint =
  ce_session :: "'a sessionRecord"
  ce_connection :: pointer
  ce_packetOpen :: bool
  ce_mode :: DispatchMode
  ce_incoming :: "incomingQueue option"
  ce_endpoint :: Endpoint
  ce_config :: "'h ClientConfig"
  ce_limits :: Limits
  ce_resumeSecret :: string
  ce_resumeGrace :: duration
  ce_applicationBudget :: Budget
  ce_closed :: bool
  ce_reconnecting :: bool
  ce_closeDone :: bool

text \<open>
  One attempt to connect: the errors of resolving, listening, dialing, opening the control stream and
  writing the hello; the frame that is read, as its \<open>op\<close> and the result of \<open>parseWelcome\<close>; the close
  code of a connection whose control read failed; whether datagrams are enabled.
\<close>

record network =
  nw_resolve :: "error option"
  nw_listen :: "error option"
  nw_dial :: "error option"
  nw_open :: "error option"
  nw_write :: "helloMessage \<Rightarrow> error option"
  nw_read :: "helloMessage \<Rightarrow> error + string \<times> (error + welcomeMessage)"
  nw_closeCode :: "u64 option"
  nw_datagrams :: bool

text \<open>What an attempt leaves: its result, the code the connection was closed with, whether the socket is open.\<close>

record 'r attempt =
  at_result :: "error + 'r"
  at_close :: "(Code \<times> string) option"
  at_packetOpen :: bool

definition failed :: "(Code \<times> string) option \<Rightarrow> error \<Rightarrow> 'r attempt" where
  "failed close err = \<lparr>at_result = Inl err, at_close = close, at_packetOpen = False\<rparr>"

section \<open>Messages of the client\<close>

definition client_hello :: "'h ClientConfig \<Rightarrow> Limits \<Rightarrow> Credential \<Rightarrow> helloMessage" where
  "client_hello config limits credential =
     \<lparr>he_Op = ''hello'', he_Role = roleName (cc_Role config), he_App = cc_App config, he_AppID = [], he_AppVersion = [],
      he_Required = (if cc_Role config = BootstrapRole then [] else [''datagrams'']), he_Limits = limitMessageFrom limits,
      he_Credential = \<lparr>cm_Scheme = cr_Scheme credential, cm_Data = base64_EncodeToString (cr_Data credential)\<rparr>,
      he_Group = cc_GroupKey config, he_Admission = cc_AdmissionTicket config, he_Resume = None\<rparr>"

definition resume_hello :: "('a, 'h) clientEndpoint \<Rightarrow> Credential \<Rightarrow> helloMessage" where
  "resume_hello c credential =
     (let resume = \<lparr>rm_SessionID = hex_EncodeToString (sr_id (ce_session c)), rm_OwnerID = ow_ID (sr_owner (ce_session c)),
                    rm_Incarnation = hex_EncodeToString (ow_Incarnation (sr_owner (ce_session c))), rm_Secret = ce_resumeSecret c\<rparr> in
      \<lparr>he_Op = ''hello'', he_Role = roleName (cc_Role (ce_config c)), he_App = cc_App (ce_config c), he_AppID = [], he_AppVersion = [],
       he_Required = [''datagrams''], he_Limits = limitMessageFrom (ce_limits c),
       he_Credential = \<lparr>cm_Scheme = cr_Scheme credential, cm_Data = base64_EncodeToString (cr_Data credential)\<rparr>,
       he_Group = [], he_Admission = [], he_Resume = Some resume\<rparr>)"

text \<open>\<open>helloMessage.MarshalJSON\<close>: the record that is encoded.\<close>

definition MarshalJSON :: "helloMessage \<Rightarrow> helloMessage" where
  "MarshalJSON h = h\<lparr>he_AppID := ai_ID (he_App h), he_AppVersion := ai_Version (he_App h)\<rparr>"

definition terminal_codes :: "Code list" where
  "terminal_codes = [ProtocolViolation, UnsupportedVersion, UnsupportedCapability, Unauthenticated, Forbidden, AuthExpired,
     SessionNotFound, SessionExpired, ServerUnavailable, ServerDraining, ResourceExhausted, SlowConsumer, GroupClosed, SessionClosed]"

definition terminalCloseCode :: "Code \<Rightarrow> bool" where
  "terminalCloseCode code \<longleftrightarrow> code \<in> set terminal_codes"

text \<open>\<open>terminalConnectionError\<close> after its wait: \<open>closeCode\<close> is what the connection reports then.\<close>

definition terminalConnectionError :: "u64 option \<Rightarrow> error option" where
  "terminalConnectionError closeCode =
     (case closeCode of
        Some v \<Rightarrow> if terminalCloseCode (ucast v) then Some (codeError (ucast v)) else None
      | None \<Rightarrow> None)"

text \<open>\<open>errors.As\<close> finds an \<open>*Error\<close> in itself; the errors of other packages here wrap none.\<close>

fun terminalResumeCode :: "error \<Rightarrow> Code option" where
  "terminalResumeCode (Error code _ _ _ _) = (if terminalCloseCode code then Some code else None)"
| "terminalResumeCode _ = None"

section \<open>Dialing\<close>

definition invalid_dial :: "Endpoint \<Rightarrow> 'h ClientConfig \<Rightarrow> Limits \<Rightarrow> bool" where
  "invalid_dial endpoint config limits \<longleftrightarrow>
     (case cc_TLS config of None \<Rightarrow> True | Some tls \<Rightarrow> tls_InsecureSkipVerify tls) \<or> cc_Credentials config = None
     \<or> ai_ID (cc_App config) = [] \<or> ai_Version (cc_App config) = [] \<or> ep_Address endpoint = [] \<or> ep_ServerName endpoint = []
     \<or> int (length (cc_GroupKey config)) > MaxGroupKeyBytes limits
     \<or> cc_Mode config = Polling \<and> cc_Router config \<noteq> None \<or> cc_Mode config = Handlers \<and> cc_Router config = None"

text \<open>The part \<open>Dial\<close> and \<open>openResume\<close> have in common up to the frame that is read; \<open>texts\<close> are the reasons they close with.\<close>

definition exchange :: "network \<Rightarrow> string \<times> string \<times> string \<Rightarrow> helloMessage \<Rightarrow> (string \<times> (error + welcomeMessage)) attempt" where
  "exchange nw texts hello =
     (case texts of (stream_text, hello_text, welcome_text) \<Rightarrow>
        (case nw_resolve nw of
           Some err \<Rightarrow> failed None err
         | None \<Rightarrow>
        (case nw_listen nw of
           Some err \<Rightarrow> failed None err
         | None \<Rightarrow>
        (case nw_dial nw of
           Some err \<Rightarrow> failed None err
         | None \<Rightarrow>
        (case nw_open nw of
           Some err \<Rightarrow> failed (Some (Internal, stream_text)) err
         | None \<Rightarrow>
        (case nw_write nw hello of
           Some err \<Rightarrow> failed (Some (Internal, hello_text)) err
         | None \<Rightarrow>
        (case nw_read nw hello of
           Inl err \<Rightarrow>
             (case terminalConnectionError (nw_closeCode nw) of
                Some terminal \<Rightarrow> failed None terminal
              | None \<Rightarrow> failed (Some (ProtocolViolation, welcome_text)) err)
         | Inr frame \<Rightarrow> \<lparr>at_result = Inr frame, at_close = None, at_packetOpen = True\<rparr>)))))))"

text \<open>The checks of \<open>Dial\<close> on the frame; the session's identifier and the welcome.\<close>

definition check_welcome :: "time \<Rightarrow> network \<Rightarrow> 'h ClientConfig \<Rightarrow> string \<times> (error + welcomeMessage) \<Rightarrow> (SessionID \<times> welcomeMessage) attempt" where
  "check_welcome now nw config frame =
     (if fst frame \<noteq> ''welcome'' then failed (Some (Unauthenticated, ''rejected'')) ErrUnauthenticated
      else
        (case snd frame of
           Inl err \<Rightarrow> failed (Some (ProtocolViolation, ''invalid welcome'')) err
         | Inr welcome \<Rightarrow>
             (case validateLimitMessage (we_Limits welcome) of
                Some err \<Rightarrow> failed (Some (ProtocolViolation, ''invalid receive limits'')) err
              | None \<Rightarrow>
                  if cc_Role config = GameRole \<and> (\<not> nw_datagrams nw \<or> \<not> hasCapability (we_Capabilities welcome) ''datagrams'')
                  then failed (Some (UnsupportedCapability, ''datagram capability unavailable'')) ErrUnsupportedCapability
                  else
                    (case validateClientWelcome welcome (cc_Role config) False now of
                       Some err \<Rightarrow> failed (Some (ProtocolViolation, ''invalid welcome'')) err
                     | None \<Rightarrow>
                         if (case cc_ExpectedOwner config of None \<Rightarrow> False
                             | Some expected \<Rightarrow> om_ID (we_Owner welcome) \<noteq> ow_ID expected
                                 \<or> ow_Incarnation (toOwner (we_Owner welcome)) \<noteq> ow_Incarnation expected)
                         then failed (Some (Forbidden, ''wrong owner'')) ErrForbidden
                         else
                           (case parseSessionID (we_SessionID welcome) of
                              None \<Rightarrow> failed (Some (ProtocolViolation, ''invalid session'')) (OtherError ''invalid session ID'')
                            | Some sid \<Rightarrow> \<lparr>at_result = Inr (sid, welcome), at_close = None, at_packetOpen = True\<rparr>)))))"

definition welcome_principal :: "welcomeMessage \<Rightarrow> Principal" where
  "welcome_principal welcome =
     \<lparr>pr_Issuer = pm_Issuer (we_Principal welcome), pr_Subject = pm_Subject (we_Principal welcome),
      pr_ExpiresAt = pm_ExpiresMS (we_Principal welcome) * Millisecond, pr_Attributes = None\<rparr>"

text \<open>The client \<open>Dial\<close> makes; \<open>None\<close> is a panic of \<open>NewBudget\<close> or \<open>NewQueue\<close>. \<open>conn\<close> is the address of the connection's operations.\<close>

definition new_client :: "Endpoint \<Rightarrow> 'h ClientConfig \<Rightarrow> Limits \<Rightarrow> pointer \<Rightarrow> SessionID \<times> welcomeMessage \<Rightarrow> ('a, 'h) clientEndpoint option" where
  "new_client endpoint config limits conn accepted =
     (case accepted of (sid, welcome) \<Rightarrow>
        Option.bind (NewBudget (GlobalApplicationBytes limits)) (\<lambda>budget.
        Option.bind (if cc_Mode config = Polling
                     then map_option Some (newIncomingQueue (QueueBytes limits) (QueueMessages limits) (Some budget))
                     else Some None) (\<lambda>incoming.
        Option.bind (newSessionRecord sid (toOwner (we_Owner welcome)) (cc_GroupKey config) (welcome_principal welcome) limits True (Some conn))
          (\<lambda>session. Some
             \<lparr>ce_session = session\<lparr>sr_peerLimits := we_Limits welcome\<rparr>, ce_connection = conn, ce_packetOpen = True,
              ce_mode = cc_Mode config, ce_incoming = incoming, ce_endpoint = endpoint, ce_config = config, ce_limits = limits,
              ce_resumeSecret = we_ResumeSecret welcome, ce_resumeGrace = wrap64 (we_ResumeGraceMS welcome * Millisecond),
              ce_applicationBudget = budget, ce_closed = False, ce_reconnecting = False, ce_closeDone = False\<rparr>))))"

definition Dial :: "time \<Rightarrow> network \<Rightarrow> Endpoint \<Rightarrow> 'h ClientConfig \<Rightarrow> pointer \<Rightarrow> (('a, 'h) clientEndpoint attempt) option" where
  "Dial now nw endpoint config conn =
     (case normalizeLimits (cc_Limits config) of
        Inl err \<Rightarrow> Some (failed None err)
      | Inr limits \<Rightarrow>
          if invalid_dial endpoint config limits then Some (failed None ErrInvalidArgument)
          else
            (case the (cc_Credentials config) of
               Inl err \<Rightarrow> Some (failed None err)
             | Inr credential \<Rightarrow>
                 (let a = exchange nw (''control stream'', ''hello failed'', ''welcome failed'') (client_hello config limits credential) in
                  case at_result a of
                    Inl err \<Rightarrow> Some (failed (at_close a) err)
                  | Inr frame \<Rightarrow>
                      (let b = check_welcome now nw config frame in
                       case at_result b of
                         Inl err \<Rightarrow> Some (failed (at_close b) err)
                       | Inr accepted \<Rightarrow>
                           map_option (\<lambda>client. \<lparr>at_result = Inr client, at_close = None, at_packetOpen = True\<rparr>)
                             (new_client endpoint config limits conn accepted)))))"

section \<open>Resumption\<close>

definition check_resumed :: "time \<Rightarrow> network \<Rightarrow> 'h ClientConfig \<Rightarrow> string \<times> (error + welcomeMessage) \<Rightarrow> welcomeMessage attempt" where
  "check_resumed now nw config frame =
     (if fst frame \<noteq> ''welcome'' then failed (Some (Unauthenticated, ''resume rejected'')) ErrUnauthenticated
      else
        (case snd frame of
           Inl err \<Rightarrow> failed (Some (ProtocolViolation, ''invalid resume welcome'')) err
         | Inr welcome \<Rightarrow>
             if \<not> we_Resumed welcome then failed (Some (ProtocolViolation, ''invalid resume welcome'')) ErrProtocolViolation
             else
               (case validateLimitMessage (we_Limits welcome) of
                  Some err \<Rightarrow> failed (Some (ProtocolViolation, ''invalid resumed receive limits'')) err
                | None \<Rightarrow>
                    if cc_Role config = GameRole \<and> (\<not> nw_datagrams nw \<or> \<not> hasCapability (we_Capabilities welcome) ''datagrams'')
                    then failed (Some (UnsupportedCapability, ''datagram capability unavailable'')) ErrUnsupportedCapability
                    else
                      (case validateClientWelcome welcome (cc_Role config) True now of
                         Some err \<Rightarrow> failed (Some (ProtocolViolation, ''invalid resumed welcome'')) err
                       | None \<Rightarrow> \<lparr>at_result = Inr welcome, at_close = None, at_packetOpen = True\<rparr>))))"

definition openResume :: "time \<Rightarrow> network \<Rightarrow> ('a, 'h) clientEndpoint \<Rightarrow> welcomeMessage attempt" where
  "openResume now nw c =
     (case cc_Credentials (ce_config c) of
        None \<Rightarrow> failed None ErrInvalidArgument
      | Some (Inl err) \<Rightarrow> failed None err
      | Some (Inr credential) \<Rightarrow>
          (let a = exchange nw (''resume control stream'', ''resume hello failed'', ''resume welcome failed'') (resume_hello c credential) in
           case at_result a of
             Inl err \<Rightarrow> failed (at_close a) err
           | Inr frame \<Rightarrow> check_resumed now nw (ce_config c) frame))"

text \<open>
  \<open>attachResume\<close>, up to the session's new connection, and then under the client's lock. The first
  component is the error; the connection and the socket of a failed attachment are closed.
\<close>

definition check_attachment :: "time \<Rightarrow> welcomeMessage \<Rightarrow> ('a, 'h) clientEndpoint \<Rightarrow> (Code \<times> string \<times> error) + Principal \<times> u64" where
  "check_attachment now welcome c =
     (let session = ce_session c; prin = welcome_principal welcome; current = sr_principal session in
      if parseSessionID (we_SessionID welcome) \<noteq> Some (sr_id session) \<or> toOwner (we_Owner welcome) \<noteq> sr_owner session
        \<or> we_Limits welcome \<noteq> sr_peerLimits session
      then Inl (ProtocolViolation, ''invalid resume owner'', ErrProtocolViolation)
      else if pr_Issuer prin \<noteq> pr_Issuer current \<or> pr_Subject prin \<noteq> pr_Subject current \<or> \<not> pr_ExpiresAt prin > now
      then Inl (Unauthenticated, ''invalid resumed principal'', ErrUnauthenticated)
      else
        (case ParseUint (we_Epoch welcome) of
           None \<Rightarrow> Inl (ProtocolViolation, ''invalid resumed epoch'', ErrProtocolViolation)
         | Some epoch \<Rightarrow> if epoch = 0 then Inl (ProtocolViolation, ''invalid resumed epoch'', ErrProtocolViolation) else Inr (prin, epoch)))"

definition attach_session :: "time \<Rightarrow> welcomeMessage \<Rightarrow> pointer \<Rightarrow> ('a, 'h) clientEndpoint \<Rightarrow> (Code \<times> string \<times> error) option \<times> ('a, 'h) clientEndpoint" where
  "attach_session now welcome conn c =
     (case check_attachment now welcome c of
        Inl reject \<Rightarrow> (Some reject, c)
      | Inr (prin, epoch) \<Rightarrow>
          (case replaceConnectionAt (ce_session c) \<lparr>co_ptr = conn, co_epoch = 0, co_stopped = False\<rparr> prin epoch of
             (Inl err, _, _) \<Rightarrow> (Some (Internal, ''resume attach failed'', err), c)
           | (Inr _, session, _) \<Rightarrow> (None, c\<lparr>ce_session := session\<rparr>)))"

definition attach_client :: "welcomeMessage \<Rightarrow> pointer \<Rightarrow> ('a, 'h) clientEndpoint \<Rightarrow> (Code \<times> string \<times> error) option \<times> ('a, 'h) clientEndpoint" where
  "attach_client welcome conn c =
     (if ce_closed c then (Some (SessionClosed, ''client closed'', ErrSessionClosed), c)
      else (None, c\<lparr>ce_connection := conn, ce_packetOpen := True, ce_resumeGrace := wrap64 (we_ResumeGraceMS welcome * Millisecond)\<rparr>))"

definition attachResume :: "time \<Rightarrow> welcomeMessage \<Rightarrow> pointer \<Rightarrow> ('a, 'h) clientEndpoint \<Rightarrow> (Code \<times> string \<times> error) option \<times> ('a, 'h) clientEndpoint" where
  "attachResume now welcome conn c =
     (case attach_session now welcome conn c of
        (Some reject, c) \<Rightarrow> (Some reject, c)
      | (None, c) \<Rightarrow> attach_client welcome conn c)"

section \<open>Closing and the loss of a connection\<close>

text \<open>\<open>session.Close\<close> on the client's session; \<open>close\<close> is what the operations' \<open>close\<close> returns.\<close>

definition close_client_session :: "(Code \<Rightarrow> error option) \<Rightarrow> Code \<Rightarrow> ('a, 'h) clientEndpoint \<Rightarrow> error option \<times> ('a, 'h) clientEndpoint" where
  "close_client_session operations_close code c =
     (case Close operations_close (ce_session c) code of (err, session) \<Rightarrow> (err, c\<lparr>ce_session := session\<rparr>))"

definition Close_client :: "(Code \<Rightarrow> error option) \<Rightarrow> ('a, 'h) clientEndpoint \<Rightarrow> error option \<times> ('a, 'h) clientEndpoint" where
  "Close_client operations_close c =
     (if ce_closeDone c then (None, c)
      else
        (let c = c\<lparr>ce_closeDone := True, ce_closed := True\<rparr>; (err, c) = close_client_session operations_close Normal c in
         (err, c\<lparr>ce_packetOpen := False\<rparr>)))"

definition finishReconnect :: "(Code \<Rightarrow> error option) \<Rightarrow> Code \<Rightarrow> ('a, 'h) clientEndpoint \<Rightarrow> ('a, 'h) clientEndpoint" where
  "finishReconnect operations_close code c =
     snd (close_client_session operations_close code (c\<lparr>ce_reconnecting := False, ce_closed := True\<rparr>))"

text \<open>\<open>transportLost\<close> in its two parts: the suspension, which says whether the second part runs, and the
  decision after it. The decision says whether a \<open>reconnect\<close> is started.\<close>

definition lost_suspend :: "connectionOperations \<Rightarrow> ('a, 'h) clientEndpoint \<Rightarrow> bool \<times> ('a, 'h) clientEndpoint" where
  "lost_suspend operations c =
     (case suspendIfCurrent (ce_session c) operations of
        (True, session, _) \<Rightarrow> (True, c\<lparr>ce_session := session\<rparr>)
      | (False, _, _) \<Rightarrow>
          (False, if sr_state (ce_session c) = Closed then c\<lparr>ce_closed := True, ce_packetOpen := False\<rparr> else c))"

definition lost_decide :: "(Code \<Rightarrow> error option) \<Rightarrow> u64 option \<Rightarrow> ('a, 'h) clientEndpoint \<Rightarrow> bool \<times> ('a, 'h) clientEndpoint" where
  "lost_decide operations_close closeCode c =
     (case Option.bind closeCode (\<lambda>v. if terminalCloseCode (ucast v) then Some (ucast v) else None) of
        Some code \<Rightarrow> (False, snd (close_client_session operations_close code (c\<lparr>ce_closed := True, ce_packetOpen := False\<rparr>)))
      | None \<Rightarrow>
          (let c = c\<lparr>ce_packetOpen := False\<rparr> in
           if ce_closed c \<or> cc_DisableReconnect (ce_config c) \<or> ce_resumeSecret c = [] \<or> ce_resumeGrace c \<le> 0
           then (False, snd (close_client_session operations_close SessionClosed (c\<lparr>ce_closed := True\<rparr>)))
           else if ce_reconnecting c then (False, c)
           else (True, c\<lparr>ce_reconnecting := True\<rparr>)))"

definition transportLost :: "(Code \<Rightarrow> error option) \<Rightarrow> connectionOperations \<Rightarrow> u64 option \<Rightarrow> ('a, 'h) clientEndpoint \<Rightarrow> bool \<times> ('a, 'h) clientEndpoint" where
  "transportLost operations_close operations closeCode c =
     (case lost_suspend operations c of
        (False, c) \<Rightarrow> (False, c)
      | (True, c) \<Rightarrow> lost_decide operations_close closeCode c)"

section \<open>The reconnecting loop\<close>

text \<open>\<open>rand.Int\<close> gives a number from zero to the maximum; \<open>random\<close> is what it reduces, \<open>None\<close> its error.\<close>

definition fullJitter :: "duration \<Rightarrow> int option \<Rightarrow> duration" where
  "fullJitter maximum random =
     (if maximum \<le> 0 then 0 else case random of None \<Rightarrow> maximum div 2 | Some r \<Rightarrow> r mod (maximum + 1))"

definition reconnect_deadline :: "time \<Rightarrow> ('a, 'h) clientEndpoint \<Rightarrow> time" where
  "reconnect_deadline now c =
     (let deadline = now + ce_resumeGrace c; expiresAt = pr_ExpiresAt (sr_principal (ce_session c)) in
      if expiresAt < deadline then expiresAt else deadline)"

definition retry_delay :: "Limits \<Rightarrow> time \<Rightarrow> nat \<Rightarrow> time \<Rightarrow> duration" where
  "retry_delay limits deadline n now =
     (let maximumDelay = wrap64 (ReconnectMin limits * 2 ^ min n 3);
          maximumDelay = (if maximumDelay > ReconnectMax limits then ReconnectMax limits else maximumDelay);
          remaining = deadline - now in
      if remaining < maximumDelay then remaining else maximumDelay)"

text \<open>
  What the application does meanwhile: it may close the client, or only its session (\<open>Session().Close\<close>), which leaves the
  client's own flag alone.
\<close>

datatype intervention = Leaves | Closes_client | Closes_session Code

definition closing :: "intervention \<Rightarrow> (Code \<Rightarrow> error option) \<Rightarrow> ('a, 'h) clientEndpoint \<Rightarrow> ('a, 'h) clientEndpoint" where
  "closing a operations_close c =
     (case a of
        Leaves \<Rightarrow> c
      | Closes_client \<Rightarrow> snd (Close_client operations_close c)
      | Closes_session code \<Rightarrow> snd (close_client_session operations_close code c))"

text \<open>
  One turn of the loop: what the application does before the turn, during the attempt and
  during the wait, the clock at the check, in the attempt and after it, the network, the new connection's
  address, the random number, and whether the timer wins when the session's context has ended too.
\<close>

record turn =
  tu_closes :: intervention
  tu_check :: time
  tu_network :: network
  tu_conn :: pointer
  tu_closes_attempt :: intervention
  tu_attach :: time
  tu_after :: time
  tu_random :: "int option"
  tu_closes_waiting :: intervention
  tu_timer_first :: bool

datatype reconnect_end = Attached | Given_up Code | Stopped

definition resume_attempt :: "(Code \<Rightarrow> error option) \<Rightarrow> turn \<Rightarrow> ('a, 'h) clientEndpoint \<Rightarrow> error option \<times> ('a, 'h) clientEndpoint" where
  "resume_attempt operations_close t c =
     (let opened = at_result (openResume (tu_attach t) (tu_network t) c); c = closing (tu_closes_attempt t) operations_close c in
      case opened of
        Inl err \<Rightarrow> (Some err, c)
      | Inr welcome \<Rightarrow> (case attachResume (tu_attach t) welcome (tu_conn t) c of (r, c) \<Rightarrow> (map_option (snd \<circ> snd) r, c)))"

text \<open>A turn ends the loop (\<open>Inl\<close>) or waits for a time (\<open>Inr\<close>).\<close>

definition reconnect_turn :: "(Code \<Rightarrow> error option) \<Rightarrow> time \<Rightarrow> nat \<Rightarrow> turn \<Rightarrow> ('a, 'h) clientEndpoint \<Rightarrow>
  (reconnect_end + duration) \<times> ('a, 'h) clientEndpoint" where
  "reconnect_turn oc deadline n t c =
     (let c = closing (tu_closes t) oc c in
      if ce_closed c \<or> tu_check t > deadline then (Inl (Given_up SessionExpired), finishReconnect oc SessionExpired c)
      else
        (case resume_attempt oc t c of
           (None, c) \<Rightarrow> (Inl Attached, c\<lparr>ce_reconnecting := False\<rparr>)
         | (Some err, c) \<Rightarrow>
             (case terminalResumeCode err of
                Some code \<Rightarrow> (Inl (Given_up code), finishReconnect oc code c)
              | None \<Rightarrow>
                  (let maximumDelay = retry_delay (ce_limits c) deadline n (tu_after t) in
                   if maximumDelay \<le> 0 then (Inl (Given_up SessionExpired), finishReconnect oc SessionExpired c)
                   else
                     (let c = closing (tu_closes_waiting t) oc c in
                      if sr_cancelled (ce_session c) \<and> \<not> tu_timer_first t then (Inl Stopped, c\<lparr>ce_reconnecting := False\<rparr>)
                      else (Inr (fullJitter maximumDelay (tu_random t)), c))))))"

text \<open>The loop over given turns: how it ended (\<open>None\<close>: the turns are used up), the waits, the client.\<close>

fun reconnect_loop :: "(Code \<Rightarrow> error option) \<Rightarrow> time \<Rightarrow> nat \<Rightarrow> turn list \<Rightarrow> ('a, 'h) clientEndpoint \<Rightarrow>
  reconnect_end option \<times> duration list \<times> ('a, 'h) clientEndpoint" where
  "reconnect_loop oc deadline n [] c = (None, [], c)"
| "reconnect_loop oc deadline n (t # ts) c =
     (case reconnect_turn oc deadline n t c of
        (Inl e, c) \<Rightarrow> (Some e, [], c)
      | (Inr wait, c) \<Rightarrow> (case reconnect_loop oc deadline (Suc n) ts c of (e, waits, c) \<Rightarrow> (e, wait # waits, c)))"

definition reconnect :: "(Code \<Rightarrow> error option) \<Rightarrow> time \<Rightarrow> turn list \<Rightarrow> ('a, 'h) clientEndpoint \<Rightarrow>
  reconnect_end option \<times> duration list \<times> ('a, 'h) clientEndpoint" where
  "reconnect oc now turns c = reconnect_loop oc (reconnect_deadline now c) 0 turns c"

end
