(* ===== verification/Client_Runs.thy ===== *)
theory Client_Runs
  imports Client
begin

text \<open>
  The reconnecting client: the loop ends and what it leaves, and the goroutines of a client interleaved.
\<close>

section \<open>The loop\<close>

















section \<open>Goroutines\<close>

text \<open>
  The goroutines of a client: one \<open>watchConnection\<close> for each watched connection, one \<open>transportLost\<close> between its
  two parts for each suspension that was not decided yet, and at most one \<open>reconnect\<close>, which is in its
  loop or has attached a connection and is about to clear the flag.
\<close>

datatype reconnecting = Absent | Looping time nat | Returning

record ('a, 'h) client_run =
  cr_client :: "('a, 'h) clientEndpoint"
  cr_watched :: "connectionOperations multiset"
  cr_deciding :: nat
  cr_loop :: reconnecting

inductive client_step :: "('a, 'h) client_run \<Rightarrow> ('a, 'h) client_run \<Rightarrow> bool" where
  lost: "operations \<in># cr_watched u \<Longrightarrow> lost_suspend operations (cr_client u) = (suspended, c) \<Longrightarrow>
    client_step u (u\<lparr>cr_client := c, cr_watched := cr_watched u - {#operations#},
      cr_deciding := (if suspended then Suc (cr_deciding u) else cr_deciding u)\<rparr>)"
| decide: "cr_deciding u = Suc n \<Longrightarrow> lost_decide oc closeCode (cr_client u) = (starts, c) \<Longrightarrow>
    client_step u (u\<lparr>cr_client := c, cr_deciding := n, cr_loop := (if starts then Looping (reconnect_deadline now c) 0 else cr_loop u)\<rparr>)"
| turn_waits: "cr_loop u = Looping deadline n \<Longrightarrow> reconnect_turn oc deadline n t (cr_client u) = (Inr w, c) \<Longrightarrow>
    client_step u (u\<lparr>cr_client := c, cr_loop := Looping deadline (Suc n)\<rparr>)"
| turn_ends: "cr_loop u = Looping deadline n \<Longrightarrow> reconnect_turn oc deadline n t (cr_client u) = (Inl e, c) \<Longrightarrow> e \<noteq> Attached \<Longrightarrow>
    client_step u (u\<lparr>cr_client := c, cr_loop := Absent\<rparr>)"
| attached: "cr_loop u = Looping deadline n \<Longrightarrow> \<not> ce_closed (cr_client u) \<Longrightarrow> tu_check t \<le> deadline \<Longrightarrow>
    resume_attempt oc t (cr_client u) = (None, c) \<Longrightarrow>
    client_step u (u\<lparr>cr_client := c, cr_loop := Returning,
      cr_watched := add_mset \<lparr>co_ptr = tu_conn t, co_epoch = sr_epoch (ce_session c), co_stopped = False\<rparr> (cr_watched u)\<rparr>)"
| returned: "cr_loop u = Returning \<Longrightarrow> client_step u (u\<lparr>cr_client := (cr_client u)\<lparr>ce_reconnecting := False\<rparr>, cr_loop := Absent\<rparr>)"

definition dialed :: "('a, 'h) clientEndpoint \<Rightarrow> ('a, 'h) client_run" where
  "dialed c = \<lparr>cr_client = c, cr_watched = {#\<lparr>co_ptr = ce_connection c, co_epoch = 1, co_stopped = False\<rparr>#}, cr_deciding = 0, cr_loop = Absent\<rparr>"

text \<open>A client with no goroutine left does nothing.\<close>

lemma no_goroutines: "cr_watched u = {#} \<Longrightarrow> cr_deciding u = 0 \<Longrightarrow> cr_loop u = Absent \<Longrightarrow> \<not> client_step u v"
  by (auto elim: client_step.cases)

text \<open>A client that can resume, on the connection it has.\<close>

definition resumable :: "pointer \<Rightarrow> ('a, 'h) clientEndpoint \<Rightarrow> bool" where
  "resumable conn c \<longleftrightarrow> sr_state (ce_session c) = Active \<and> sr_operations (ce_session c) = Some conn \<and> \<not> ce_closed c
     \<and> \<not> cc_DisableReconnect (ce_config c) \<and> ce_resumeSecret c \<noteq> [] \<and> 0 < ce_resumeGrace c"

definition suspended :: "bool \<Rightarrow> ('a, 'h) clientEndpoint \<Rightarrow> ('a, 'h) clientEndpoint" where
  "suspended b c = c\<lparr>ce_session := (ce_session c)\<lparr>sr_state := Suspended\<rparr>, ce_packetOpen := False, ce_reconnecting := b\<rparr>"

text \<open>The loss of a connection without a terminal close code, both parts: with a \<open>reconnect\<close> under way no other is started.\<close>

lemma lost_and_decided:
  assumes "operations \<in># cr_watched u" "cr_deciding u = 0" "resumable (co_ptr operations) (cr_client u)"
  shows "client_step\<^sup>*\<^sup>* u (u\<lparr>cr_client := suspended True (cr_client u), cr_watched := cr_watched u - {#operations#},
      cr_loop := (if ce_reconnecting (cr_client u) then cr_loop u else Looping (reconnect_deadline now (suspended True (cr_client u))) 0)\<rparr>)"
proof -
  let ?c = "(cr_client u)\<lparr>ce_session := (ce_session (cr_client u))\<lparr>sr_state := Suspended\<rparr>\<rparr>"
  let ?v = "u\<lparr>cr_client := ?c, cr_watched := cr_watched u - {#operations#}, cr_deciding := 1\<rparr>"
  let ?loop = "Looping (reconnect_deadline now (suspended True (cr_client u))) 0"
  have first: "client_step u ?v"
    using client_step.lost [OF assms(1), of True ?c] assms(2,3) by (simp add: lost_suspend_def suspendIfCurrent_def resumable_def)
  have "lost_decide (\<lambda>_. None) None ?c = (\<not> ce_reconnecting (cr_client u), suspended True (cr_client u))"
    using assms(3) by (cases "cr_client u") (simp add: lost_decide_def resumable_def suspended_def Let_def)
  then have "client_step ?v (?v\<lparr>cr_client := suspended True (cr_client u), cr_deciding := 0,
      cr_loop := (if \<not> ce_reconnecting (cr_client u) then ?loop else cr_loop ?v)\<rparr>)"
    by (intro client_step.decide) simp_all
  from first r_into_rtranclp [of client_step, OF this] have "client_step\<^sup>*\<^sup>* u (?v\<lparr>cr_client := suspended True (cr_client u), cr_deciding := 0,
      cr_loop := (if \<not> ce_reconnecting (cr_client u) then ?loop else cr_loop ?v)\<rparr>)"
    by (rule converse_rtranclp_into_rtranclp)
  moreover have "?v\<lparr>cr_client := suspended True (cr_client u), cr_deciding := 0,
      cr_loop := (if \<not> ce_reconnecting (cr_client u) then ?loop else cr_loop ?v)\<rparr>
    = u\<lparr>cr_client := suspended True (cr_client u), cr_watched := cr_watched u - {#operations#},
        cr_loop := (if ce_reconnecting (cr_client u) then cr_loop u else ?loop)\<rparr>"
    using assms(2) by simp
  ultimately show ?thesis
    by (simp only:)
qed

text \<open>The run in which the new connection is lost before the loop has cleared its flag.\<close>

lemma lost_while_returning:
  assumes c: "resumable (ce_connection c) c" "\<not> ce_reconnecting c"
    and t: "tu_check t \<le> reconnect_deadline now (suspended True c)" "resume_attempt oc t (suspended True c) = (None, d)"
    and d: "resumable (tu_conn t) d" "ce_reconnecting d"
  shows "client_step\<^sup>*\<^sup>* (dialed c) \<lparr>cr_client = suspended False d, cr_watched = {#}, cr_deciding = 0, cr_loop = Absent\<rparr>"
proof -
  let ?op = "\<lparr>co_ptr = tu_conn t, co_epoch = sr_epoch (ce_session d), co_stopped = False\<rparr>"
  let ?run = "\<lambda>c ws l. \<lparr>cr_client = c, cr_watched = ws, cr_deciding = 0, cr_loop = l\<rparr>"
  let ?loop = "Looping (reconnect_deadline now (suspended True c)) 0"
  have "client_step\<^sup>*\<^sup>* (dialed c) (?run (suspended True c) {#} ?loop)"
    using lost_and_decided [of "\<lparr>co_ptr = ce_connection c, co_epoch = 1, co_stopped = False\<rparr>" "dialed c" now] c by (simp add: dialed_def)
  also have "client_step\<^sup>*\<^sup>* \<dots> (?run d {#?op#} Returning)"
    using client_step.attached [of "?run (suspended True c) {#} ?loop" "reconnect_deadline now (suspended True c)" 0 t oc d] t c(1)
    by (intro r_into_rtranclp) (simp add: suspended_def resumable_def)
  also have "client_step\<^sup>*\<^sup>* \<dots> (?run (suspended True d) {#} Returning)"
    using lost_and_decided [of ?op "?run d {#?op#} Returning" now] d by simp
  also have "client_step\<^sup>*\<^sup>* \<dots> (?run (suspended False d) {#} Absent)"
    using client_step.returned [of "?run (suspended True d) {#} Returning"] by (intro r_into_rtranclp) (simp add: suspended_def)
  finally show ?thesis .
qed

section \<open>A concrete client\<close>

text \<open>A client that was dialed to a server whose network then answers every resumption.\<close>

definition client_owner :: Owner where
  "client_owner = \<lparr>ow_ID = ''o'', ow_Incarnation = replicate 16 1, ow_Endpoint = \<lparr>ep_Address = ''h'', ep_ServerName = ''h''\<rparr>\<rparr>"

definition sample_welcome :: "u64 \<Rightarrow> bool \<Rightarrow> welcomeMessage" where
  "sample_welcome epoch resumed =
     \<lparr>we_Op = ''welcome'', we_SessionID = hex_EncodeToString (replicate 16 2), we_Epoch = FormatUint epoch,
      we_Owner = ownerMessage_of client_owner, we_Principal = \<lparr>pm_Issuer = ''i'', pm_Subject = ''s'', pm_ExpiresMS = 1000000\<rparr>,
      we_Limits = limitMessageFrom DefaultLimits, we_Capabilities = [''datagrams''], we_Resumed = resumed, we_Resumable = True,
      we_ResumeGraceMS = 30000, we_ResumeSecret = (if resumed then [] else base64_EncodeToString (replicate 32 7))\<rparr>"

definition sample_network :: "welcomeMessage \<Rightarrow> network" where
  "sample_network w = \<lparr>nw_resolve = None, nw_listen = None, nw_dial = None, nw_open = None, nw_write = (\<lambda>_. None),
     nw_read = (\<lambda>_. Inr (''welcome'', Inr w)), nw_closeCode = None, nw_datagrams = True\<rparr>"

definition sample_client_config :: "unit ClientConfig" where
  "sample_client_config = \<lparr>cc_Role = GameRole, cc_TLS = Some \<lparr>tls_InsecureSkipVerify = False, tls_Certificates = 0, tls_GetCertificate = False\<rparr>,
     cc_App = \<lparr>ai_ID = ''app'', ai_Version = ''1''\<rparr>, cc_Credentials = Some (Inr \<lparr>cr_Scheme = ''jwt'', cr_Data = []\<rparr>),
     cc_ExpectedOwner = None, cc_AdmissionTicket = [], cc_GroupKey = [], cc_Mode = Handlers, cc_Router = Some NewRouter,
     cc_Limits = DefaultLimits, cc_DisableReconnect = False\<rparr>"

definition sample_turn :: turn where
  "sample_turn = \<lparr>tu_closes = Leaves, tu_check = 1, tu_network = sample_network (sample_welcome 2 True), tu_conn = 6, tu_closes_attempt = Leaves,
     tu_attach = 2, tu_after = 3, tu_random = None, tu_closes_waiting = Leaves, tu_timer_first = False\<rparr>"

lemma FormatUint_1 [simp]: "FormatUint 1 = ''1''"
  by code_simp

text \<open>What the client that dials this network has.\<close>

definition sample_client :: "(unit, unit) clientEndpoint \<Rightarrow> bool" where
  "sample_client c \<longleftrightarrow> resumable 5 c \<and> ce_connection c = 5 \<and> \<not> ce_reconnecting c \<and> \<not> ce_closeDone c \<and> \<not> sr_cancelled (ce_session c) \<and> ce_config c = sample_client_config
     \<and> sr_id (ce_session c) = replicate 16 2 \<and> sr_owner (ce_session c) = client_owner \<and> sr_peerLimits (ce_session c) = limitMessageFrom DefaultLimits
     \<and> sr_principal (ce_session c) = welcome_principal (sample_welcome 1 False) \<and> sr_epoch (ce_session c) = 1 \<and> ce_resumeGrace c = 30 * Second"

lemma sample_limits: "validateLimitMessage (limitMessageFrom DefaultLimits) = None"
  by (simp add: validateLimitMessage_def limitMessageFrom_def DefaultLimits_def)

lemma client_owner_roundtrip [simp]: "toOwner (ownerMessage_of client_owner) = client_owner"
  by (rule owner_message_roundtrip) (simp add: client_owner_def)

lemma sample_welcome_checked:
  "check_welcome 0 (sample_network w) sample_client_config (''welcome'', Inr (sample_welcome 1 False))
   = \<lparr>at_result = Inr (replicate 16 2, sample_welcome 1 False), at_close = None, at_packetOpen = True\<rparr>"
  by (simp add: check_welcome_def sample_welcome_def sample_limits sample_client_config_def sample_network_def hasCapability_def
      validateClientWelcome_def session_id_roundtrip)

lemma sample_secret: "base64_EncodeToString (replicate 32 7) \<noteq> []"
  by code_simp

lemma sample_client_made:
  "\<exists>c. new_client (ow_Endpoint client_owner) sample_client_config DefaultLimits 5 (replicate 16 2, sample_welcome 1 False) = Some c \<and> sample_client c"
  by (simp add: sample_secret new_client_def newSessionRecord_def NewBudget_def directionalBudgetLimits_def DefaultLimits_def sample_client_config_def
      sample_client_def resumable_def sample_welcome_def wrap64_def signed_take_bit_eq_take_bit_minus take_bit_eq_mod)

lemma sample_dialed:
  "\<exists>c. Dial 0 (sample_network (sample_welcome 1 False)) (ow_Endpoint client_owner) sample_client_config 5
     = Some \<lparr>at_result = Inr c, at_close = None, at_packetOpen = True\<rparr> \<and> sample_client c"
proof -
  have "exchange (sample_network w) texts hello = \<lparr>at_result = Inr (''welcome'', Inr w), at_close = None, at_packetOpen = True\<rparr>" for w texts hello
    by (cases texts) (simp add: exchange_def sample_network_def)
  moreover have "\<not> invalid_dial (ow_Endpoint client_owner) sample_client_config DefaultLimits"
    by (simp add: invalid_dial_def sample_client_config_def client_owner_def DefaultLimits_def)
  moreover have "normalizeLimits (cc_Limits sample_client_config) = Inr DefaultLimits"
    by (simp add: sample_client_config_def DefaultLimits_normal)
  moreover have "the (cc_Credentials sample_client_config) = Inr \<lparr>cr_Scheme = ''jwt'', cr_Data = []\<rparr>"
    by (simp add: sample_client_config_def)
  ultimately show ?thesis
    using sample_client_made by (auto simp: Dial_def sample_welcome_checked Let_def)
qed

lemma sample_turn_attaches:
  assumes "sample_client c"
  shows "\<exists>d. resume_attempt (\<lambda>_. None) sample_turn (suspended True c) = (None, d) \<and> resumable 6 d \<and> ce_reconnecting d"
    and "tu_check sample_turn \<le> reconnect_deadline 0 (suspended True c)"
proof -
  have "at_result (openResume 2 (sample_network (sample_welcome 2 True)) (suspended True c)) = Inr (sample_welcome 2 True)"
    using assms by (simp add: openResume_def sample_client_def suspended_def sample_client_config_def exchange_def sample_network_def
        check_resumed_def sample_welcome_def sample_limits hasCapability_def validateClientWelcome_def Let_def)
  then show "\<exists>d. resume_attempt (\<lambda>_. None) sample_turn (suspended True c) = (None, d) \<and> resumable 6 d \<and> ce_reconnecting d"
    using assms by (simp add: resume_attempt_def sample_turn_def closing_def attachResume_def attach_session_def check_attachment_def
        sample_client_def suspended_def sample_welcome_def session_id_roundtrip welcome_principal_def attach_client_def
        word_le_nat_alt sample_client_config_def replaceConnectionAt_def install_def resumable_def wrap64_def signed_take_bit_eq_take_bit_minus take_bit_eq_mod Let_def
       )
  show "tu_check sample_turn \<le> reconnect_deadline 0 (suspended True c)"
    using assms by (simp add: sample_client_def reconnect_deadline_def sample_turn_def suspended_def welcome_principal_def sample_welcome_def)
qed



section \<open>Properties\<close>



text \<open>
  C39. A reconnected client can be left suspended for ever: when the resumed connection is lost after \<open>attachResume\<close>
  started to watch it and before \<open>reconnect\<close> cleared \<open>reconnecting\<close>, \<open>transportLost\<close> starts no new loop and the old one
  returns. The session is suspended, the client is open, no goroutine of it is left, no step can happen.
\<close>

theorem reconnect_lost:
  "\<exists>now nw endpoint config conn (c :: (unit, unit) clientEndpoint) u.
     Dial now nw endpoint config conn = Some \<lparr>at_result = Inr c, at_close = None, at_packetOpen = True\<rparr>
     \<and> client_step\<^sup>*\<^sup>* (dialed c) u
     \<and> sr_state (ce_session (cr_client u)) = Suspended \<and> \<not> ce_closed (cr_client u) \<and> \<not> ce_reconnecting (cr_client u)
     \<and> (\<forall>v. \<not> client_step u v)"
proof -
  obtain c where c: "Dial 0 (sample_network (sample_welcome 1 False)) (ow_Endpoint client_owner) sample_client_config 5
      = Some \<lparr>at_result = Inr c, at_close = None, at_packetOpen = True\<rparr>" "sample_client c"
    using sample_dialed by blast
  from sample_turn_attaches(1) [OF this(2)]
  obtain d where d: "resume_attempt (\<lambda>_. None) sample_turn (suspended True c) = (None, d)" "resumable 6 d" "ce_reconnecting d"
    by blast
  let ?u = "\<lparr>cr_client = suspended False d, cr_watched = {#}, cr_deciding = 0, cr_loop = Absent\<rparr>"
  have "client_step\<^sup>*\<^sup>* (dialed c) ?u"
    using lost_while_returning [OF _ _ sample_turn_attaches(2) d(1)] c(2) d by (simp add: sample_turn_def sample_client_def)
  moreover have "sr_state (ce_session (cr_client ?u)) = Suspended" "\<not> ce_reconnecting (cr_client ?u)" "\<not> ce_closed (cr_client ?u)"
    using d(2) by (simp_all add: suspended_def resumable_def)
  moreover have "\<not> client_step ?u v" for v
    by (rule no_goroutines) simp_all
  ultimately show ?thesis
    using c(1) by blast
qed

end
