(* ===== verification/Server_Safety.thy ===== *)
theory Server_Safety
  imports Server
begin

text \<open>
  The server endpoint under concurrency: every critical section is a step, any number of handshakes,
  resumptions, closings, timers and calls of \<open>CloseGroup\<close> interleave. A running \<open>CloseGroup\<close> is its group, the
  group object it holds and the sessions it still has to close; \<open>ru_handshakes\<close> counts the connections whose
  \<open>finishPending\<close> is still to come. The invariant of all reachable states bounds
  the tables and says that the sessions of a group are where \<open>CloseGroup\<close> finds them.
\<close>

section \<open>Runs\<close>

record ('a, 'h) run =
  ru_server :: "('a, 'h) serverEndpoint"
  ru_used :: "pointer set"
  ru_closers :: "(string \<times> pointer \<times> pointer list) multiset"
  ru_handshakes :: nat

inductive run_step :: "('a, 'h) run \<Rightarrow> ('a, 'h) run \<Rightarrow> bool" where
  refused: "accept_connection now address (ru_server u) = (Some reject, s) \<Longrightarrow> run_step u (u\<lparr>ru_server := s\<rparr>)"
| accepted: "accept_connection now address (ru_server u) = (None, s) \<Longrightarrow>
    run_step u (u\<lparr>ru_server := s, ru_handshakes := Suc (ru_handshakes u)\<rparr>)"
| handshaken: "ru_handshakes u = Suc n \<Longrightarrow> run_step u (u\<lparr>ru_server := finishPending (ru_server u), ru_handshakes := n\<rparr>)"
| admit: "admit_session sha256 hello prin secret random_id p op gp (ru_server u) = Some (r, s) \<Longrightarrow>
    p \<notin> ru_used u \<Longrightarrow> gp \<notin> ru_used u \<Longrightarrow> p \<noteq> gp \<Longrightarrow>
    run_step u (u\<lparr>ru_server := s, ru_used := {p, gp} \<union> ru_used u\<rparr>)"
| arm_expiry: "run_step u (u\<lparr>ru_server := on_session p (\<lambda>r. armExpiry now r t) (ru_server u)\<rparr>)"
| resume: "resumeConnection now sha256 hello resume prin op (ru_server u) = (r, s) \<Longrightarrow> run_step u (u\<lparr>ru_server := s\<rparr>)"
| finished: "run_step u (u\<lparr>ru_server := finishConnection now p operations (ru_server u)\<rparr>)"
| refresh: "handleRefresh now message p (ru_server u) = (m, s) \<Longrightarrow> run_step u (u\<lparr>ru_server := s\<rparr>)"
| closed: "code \<noteq> SessionSuperseded \<Longrightarrow> run_step u (u\<lparr>ru_server := on_session p (close_record code) (ru_server u)\<rparr>)"
| removed: "sv_heap (ru_server u) p = Some r \<Longrightarrow> sr_state r = Closed \<Longrightarrow>
    run_step u (u\<lparr>ru_server := removeSession now p (ru_server u)\<rparr>)"
| terminals: "run_step u (u\<lparr>ru_server := expireTerminalsLocked now (ru_server u)\<rparr>)"
| drain: "drain_begin hasDeadline (ru_server u) = (r, s) \<Longrightarrow> run_step u (u\<lparr>ru_server := s\<rparr>)"
| close_begin: "close_group_begin g gp (ru_server u) = (Inr state, s) \<Longrightarrow> gp \<notin> ru_used u \<Longrightarrow>
    run_step u (u\<lparr>ru_server := s, ru_used := insert gp (ru_used u),
      ru_closers := add_mset (g, gs_ptr state, gs_sessions state) (ru_closers u)\<rparr>)"
| close_next: "(g, gp, p # ps) \<in># ru_closers u \<Longrightarrow>
    run_step u (u\<lparr>ru_server := closeSession now p GroupClosed (ru_server u),
      ru_closers := add_mset (g, gp, ps) (ru_closers u - {#(g, gp, p # ps)#})\<rparr>)"
| close_failed: "(g, gp, []) \<in># ru_closers u \<Longrightarrow> run_step u (u\<lparr>ru_closers := ru_closers u - {#(g, gp, [])#}\<rparr>)"
| close_committed: "(g, gp, []) \<in># ru_closers u \<Longrightarrow>
    run_step u (u\<lparr>ru_server := retainClosedGroup now g gp (ru_server u), ru_closers := ru_closers u - {#(g, gp, [])#}\<rparr>)"
| expired: "run_step u (u\<lparr>ru_server := group_expires g gp (ru_server u)\<rparr>)"

section \<open>The invariant\<close>

text \<open>A session that has not ended.\<close>

definition alive :: "('a, 'h) serverEndpoint \<Rightarrow> pointer \<Rightarrow> string \<Rightarrow> bool" where
  "alive s p g \<longleftrightarrow> (\<exists>r. sv_heap s p = Some r \<and> sr_group r = g \<and> sr_state r \<noteq> Closed)"

text \<open>The tables are maps within their limits.\<close>

definition tables_inv :: "('a, 'h) serverEndpoint \<Rightarrow> bool" where
  "tables_inv s \<longleftrightarrow>
     distinct (map fst (sv_sessions s)) \<and> distinct (map fst (sv_terminals s)) \<and> distinct (map fst (sv_groups s))
     \<and> int (length (sv_sessions s)) \<le> MaxSessions (sv_limits s)
     \<and> int (length (sv_groups s)) \<le> MaxActiveGroups (sv_limits s)
     \<and> int (length (sv_terminals s)) \<le> terminalCacheCapacity s
     \<and> 0 < MaxSessions (sv_limits s) \<and> 0 < MaxActiveGroups (sv_limits s)"

text \<open>
  Pointers are of objects that were made and only closed groups are persisted; live sessions of a group are listed in its entry, which is not
  yet persisted; a running \<open>CloseGroup\<close> that holds the entry has all live sessions of the group before it.
\<close>

definition pointers_inv :: "('a, 'h) run \<Rightarrow> bool" where
  "pointers_inv u \<longleftrightarrow>
     dom (sv_heap (ru_server u)) \<subseteq> ru_used u
     \<and> (\<forall>g st. map_of (sv_groups (ru_server u)) g = Some st \<longrightarrow> gs_ptr st \<in> ru_used u \<and> (gs_persisted st \<longrightarrow> gs_closed st))
     \<and> (\<forall>x. x \<in># ru_closers u \<longrightarrow> fst (snd x) \<in> ru_used u)"

definition listed_inv :: "('a, 'h) serverEndpoint \<Rightarrow> bool" where
  "listed_inv s \<longleftrightarrow>
     (\<forall>p g. g \<noteq> [] \<and> alive s p g \<longrightarrow>
       (\<exists>st. map_of (sv_groups s) g = Some st \<and> p \<in> set (gs_sessions st) \<and> \<not> gs_persisted st))"

definition closer_inv :: "('a, 'h) serverEndpoint \<Rightarrow> string \<times> pointer \<times> pointer list \<Rightarrow> bool" where
  "closer_inv s x \<longleftrightarrow>
     (case x of (g, gp, ps) \<Rightarrow>
        \<forall>st. map_of (sv_groups s) g = Some st \<and> gs_ptr st = gp \<longrightarrow>
          gs_closed st \<and> g \<noteq> [] \<and> (\<forall>p. alive s p g \<longrightarrow> p \<in> set ps))"

definition groups_inv :: "('a, 'h) run \<Rightarrow> bool" where
  "groups_inv u \<longleftrightarrow> pointers_inv u \<and> listed_inv (ru_server u) \<and> (\<forall>x. x \<in># ru_closers u \<longrightarrow> closer_inv (ru_server u) x)"

section \<open>What the operations leave alone\<close>

text \<open>An update of a session that keeps its group and does not revive it.\<close>

definition tame :: "('a sessionRecord \<Rightarrow> 'a sessionRecord) \<Rightarrow> bool" where
  "tame f \<longleftrightarrow> (\<forall>r. sr_group (f r) = sr_group r \<and> (sr_state r = Closed \<longrightarrow> sr_state (f r) = Closed))"

text \<open>A change that leaves the group table alone and makes no session live.\<close>

definition quiet :: "('a, 'h) serverEndpoint \<Rightarrow> ('a, 'h) serverEndpoint \<Rightarrow> bool" where
  "quiet s s' \<longleftrightarrow> sv_groups s' = sv_groups s \<and> sv_limits s' = sv_limits s \<and> sv_pending s' = sv_pending s
     \<and> dom (sv_heap s') = dom (sv_heap s) \<and> (\<forall>p g. alive s' p g \<longrightarrow> alive s p g)"

lemma quiet_refl [simp]: "quiet s s"
  by (simp add: quiet_def)

lemma quiet_trans: "quiet s t \<Longrightarrow> quiet t v \<Longrightarrow> quiet s v"
  by (auto simp: quiet_def)

lemma tame_updates:
  "tame (\<lambda>r. armExpiry now r t)" "tame stop_timers" "tame (close_record code)" "tame (\<lambda>r. armExpiry now (setPrincipal r prin) t)"
  by (simp_all add: tame_def armExpiry_def stop_timers_def close_record_def Close_def terminate_def setPrincipal_def)

lemma close_record_Closed: "code \<noteq> SessionSuperseded \<Longrightarrow> sr_state (close_record code r) = Closed"
  by (simp add: close_record_def Close_def terminate_def)

lemma on_session_quiet: "tame f \<Longrightarrow> quiet s (on_session p f s)"
  by (auto simp: quiet_def on_session_def tame_def alive_def split: option.splits if_splits)

lemma field_quiet:
  "quiet s (s\<lparr>sv_terminals := ts\<rparr>)" "quiet s (s\<lparr>sv_terminalTimer := timer\<rparr>)" "quiet s (s\<lparr>sv_sessions := ss\<rparr>)"
  "quiet s (s\<lparr>sv_changed := c\<rparr>)"
  by (simp_all add: quiet_def alive_def)

lemma expireTerminals_quiet: "quiet s (expireTerminalsLocked now s)"
  unfolding expireTerminalsLocked_def scheduleTerminalExpiryLocked_def
  by (rule quiet_trans [OF field_quiet(1) field_quiet(2)])

lemma recordTerminal_quiet: "quiet s (recordTerminalLocked now sid code s)"
  unfolding recordTerminalLocked_def Let_def scheduleTerminalExpiryLocked_def
  by (rule quiet_trans [OF expireTerminals_quiet quiet_trans [OF field_quiet(1) field_quiet(2)]])

lemma leave_table_quiet: "quiet s (leave_table now c code sid p s)"
  using quiet_trans [OF field_quiet(3) quiet_trans [OF recordTerminal_quiet field_quiet(4)], of s]
    quiet_trans [OF field_quiet(3) field_quiet(4), of s]
  by (simp add: leave_table_def signalChanged_def Let_def)

lemma finishConnection_suspend_quiet:
  assumes "sv_heap s p = Some r" "suspendIfCurrent r operations = (True, r', operations')"
  shows "quiet s (s\<lparr>sv_heap := (sv_heap s)(p \<mapsto> armGrace now (sv_limits s) r')\<rparr>)"
  using assms by (auto simp: quiet_def alive_def suspendIfCurrent_def armGrace_def Let_def split: if_splits prod.splits)

lemma resume_session_quiet:
  assumes "sv_heap s p = Some r" "resume_session now hello prin hash op p r s = (x, s')"
  shows "quiet s s'"
  using assms by (auto simp: quiet_def alive_def resume_session_def Let_def split: if_splits)

text \<open>What a resumption can do to the server.\<close>

lemma resumeConnection_cases:
  assumes "resumeConnection now sha256 hello resume prin op s = (x, s')"
  shows "s' = s \<or> s' = expireTerminalsLocked now s
    \<or> (\<exists>p r hash y v. sv_heap (expireTerminalsLocked now s) p = Some r
        \<and> resume_session now hello prin hash op p r (expireTerminalsLocked now s) = (y, v)
        \<and> (s' = v \<or> s' = on_session p (\<lambda>r. armExpiry now r (pr_ExpiresAt prin)) v))"
proof (cases "resume_request (sv_config s) (sv_owner s) hello resume")
  case (Inl reject)
  then show ?thesis using assms by (simp add: resumeConnection_def)
next
  case (Inr r)
  obtain sid secret where r: "r = (sid, secret)"
    by fastforce
  let ?t = "expireTerminalsLocked now s"
  have "s' = ?t \<or> (\<exists>p r y v. sv_heap ?t p = Some r \<and> resume_session now hello prin (sha256 secret) op p r ?t = (y, v)
      \<and> (s' = v \<or> s' = on_session p (\<lambda>r. armExpiry now r (pr_ExpiresAt prin)) v))"
    using assms by (auto simp: resumeConnection_def Inr r lookupSession_def Let_def split: option.splits if_splits sum.splits prod.splits)
  then show ?thesis
    by metis
qed

lemma resumeConnection_quiet:
  assumes "resumeConnection now sha256 hello resume prin op s = (x, s')"
  shows "quiet s s'"
  using resumeConnection_cases [OF assms] expireTerminals_quiet [of s now]
    resume_session_quiet quiet_trans on_session_quiet [OF tame_updates(1)] quiet_refl by metis

lemma handleRefresh_quiet:
  assumes "handleRefresh now message p s = (m, s')"
  shows "quiet s s'"
proof -
  have "s' = s \<or> (\<exists>prin t. s' = on_session p (\<lambda>r. armExpiry now (setPrincipal r prin) t) s)"
    using assms by (auto simp: handleRefresh_def Let_def split: option.splits sum.splits if_splits)
  then show ?thesis
    using on_session_quiet [OF tame_updates(4)] by auto
qed

lemma listed_inv_quiet: "listed_inv s \<Longrightarrow> quiet s s' \<Longrightarrow> listed_inv s'"
  by (simp add: listed_inv_def quiet_def)

lemma closer_inv_quiet: "closer_inv s x \<Longrightarrow> quiet s s' \<Longrightarrow> closer_inv s' x"
  by (cases x) (auto simp: closer_inv_def quiet_def)

lemma groups_inv_quiet:
  assumes "groups_inv u" "quiet (ru_server u) s" "\<forall>x. x \<in># cs \<longrightarrow> x \<in># ru_closers u"
  shows "groups_inv (u\<lparr>ru_server := s, ru_closers := cs\<rparr>)"
proof -
  have "pointers_inv (u\<lparr>ru_server := s, ru_closers := cs\<rparr>)"
    using assms by (auto simp: groups_inv_def pointers_inv_def quiet_def simp del: split_paired_All)
  then show ?thesis
    using assms(1,3) listed_inv_quiet [OF _ assms(2)] closer_inv_quiet [OF _ assms(2)] by (simp add: groups_inv_def)
qed

text \<open>Removing an ended session from its group's entry.\<close>

lemma alive_groups [simp]: "alive (s\<lparr>sv_groups := gs\<rparr>) p g = alive s p g"
  by (simp add: alive_def)

lemma leave_group_fields [simp]:
  "alive (leave_group g p s) q h = alive s q h" "sv_heap (leave_group g p s) = sv_heap s"
  "sv_limits (leave_group g p s) = sv_limits s" "sv_pending (leave_group g p s) = sv_pending s"
  "sv_sessions (leave_group g p s) = sv_sessions s" "sv_terminals (leave_group g p s) = sv_terminals s"
  by (auto simp: leave_group_def alive_def split: option.splits)

lemma leave_group_lookup:
  "map_of (sv_groups (leave_group g p s)) h = Some st' \<longleftrightarrow>
   (\<exists>st. map_of (sv_groups s) h = Some st
      \<and> st' = (if h = g \<and> g \<noteq> [] then st\<lparr>gs_sessions := removeAll p (gs_sessions st)\<rparr> else st))"
  by (auto simp: leave_group_def update_conv' split: option.splits)

lemma listed_invD: "listed_inv s \<Longrightarrow> g \<noteq> [] \<Longrightarrow> alive s p g \<Longrightarrow>
   \<exists>st. map_of (sv_groups s) g = Some st \<and> p \<in> set (gs_sessions st) \<and> \<not> gs_persisted st"
  by (simp add: listed_inv_def)

lemma leave_group_listed:
  assumes "listed_inv s" "\<not> alive s p g"
  shows "listed_inv (leave_group g p s)"
  unfolding listed_inv_def
proof (intro allI impI)
  fix q h
  assume q: "h \<noteq> [] \<and> alive (leave_group g p s) q h"
  with listed_invD [OF assms(1), of h q] obtain st where
    "map_of (sv_groups s) h = Some st" "q \<in> set (gs_sessions st)" "\<not> gs_persisted st"
    by auto
  moreover have "h = g \<Longrightarrow> q \<noteq> p"
    using q assms(2) by auto
  ultimately show "\<exists>st. map_of (sv_groups (leave_group g p s)) h = Some st \<and> q \<in> set (gs_sessions st) \<and> \<not> gs_persisted st"
    by (auto simp: leave_group_lookup)
qed

lemma leave_group_closer: "closer_inv s x \<Longrightarrow> closer_inv (leave_group g p s) x"
  by (cases x) (auto simp: closer_inv_def leave_group_lookup)

lemma groups_inv_leave:
  assumes "groups_inv u" "\<not> alive (ru_server u) p g"
  shows "groups_inv (u\<lparr>ru_server := leave_group g p (ru_server u)\<rparr>)"
proof -
  have "pointers_inv (u\<lparr>ru_server := leave_group g p (ru_server u)\<rparr>)"
    using assms(1) by (auto simp: groups_inv_def pointers_inv_def leave_group_lookup split: if_splits)
  then show ?thesis
    using assms leave_group_listed [OF _ assms(2)] leave_group_closer [of "ru_server u"]
    by (simp add: groups_inv_def del: split_paired_All)
qed

lemma groups_inv_quiet_server:
  "groups_inv u \<Longrightarrow> quiet (ru_server u) s \<Longrightarrow> groups_inv (u\<lparr>ru_server := s\<rparr>)"
  using groups_inv_quiet [of u s "ru_closers u"] by simp

lemma on_session_heap: "sv_heap (on_session p f s) q = (if q = p then map_option f (sv_heap s p) else sv_heap s q)"
  by (simp add: on_session_def split: option.splits)

lemma removeSession_inv:
  assumes "groups_inv u" "\<And>r. sv_heap (ru_server u) p = Some r \<Longrightarrow> sr_state r = Closed"
  shows "groups_inv (u\<lparr>ru_server := removeSession now p (ru_server u)\<rparr>)"
proof (cases "sv_heap (ru_server u) p")
  case None
  then show ?thesis using assms(1) by (simp add: removeSession_def)
next
  case (Some r)
  let ?s = "on_session p stop_timers (ru_server u)"
  let ?v = "u\<lparr>ru_server := leave_group (sr_group r) p ?s\<rparr>"
  have "\<not> alive ?s p g" for g
    using assms(2) [OF Some] by (simp add: alive_def on_session_heap Some stop_timers_def)
  with groups_inv_leave [OF groups_inv_quiet_server [OF assms(1) on_session_quiet [OF tame_updates(2)]], of p p "sr_group r"]
  have "groups_inv ?v"
    by simp
  from groups_inv_quiet_server [OF this, OF leave_table_quiet] show ?thesis
    by (simp add: removeSession_def Some)
qed

lemma closeSession_inv:
  assumes "groups_inv u" "code \<noteq> SessionSuperseded"
  shows "groups_inv (u\<lparr>ru_server := closeSession now p code (ru_server u)\<rparr>)"
proof -
  let ?s = "on_session p (close_record code) (ru_server u)"
  have "sr_state r = Closed" if "sv_heap ?s p = Some r" for r
    using that assms(2) by (auto simp: on_session_heap close_record_Closed)
  with removeSession_inv [OF groups_inv_quiet_server [OF assms(1) on_session_quiet [OF tame_updates(3)]]] show ?thesis
    by (simp add: closeSession_def)
qed

lemma removeSession_alive: "alive (removeSession now p s) q g \<Longrightarrow> alive s q g"
proof (cases "sv_heap s p")
  case (Some r)
  let ?s = "leave_group (sr_group r) p (on_session p stop_timers s)"
  assume "alive (removeSession now p s) q g"
  then have "alive ?s q g"
    using leave_table_quiet [of ?s] by (simp add: removeSession_def Some quiet_def)
  then show ?thesis
    using on_session_quiet [OF tame_updates(2), of s p] by (simp add: quiet_def)
qed (simp add: removeSession_def)

lemma closeSession_alive: "code \<noteq> SessionSuperseded \<Longrightarrow> alive (closeSession now p code s) q g \<Longrightarrow> alive s q g \<and> q \<noteq> p"
proof -
  let ?s = "on_session p (close_record code) s"
  assume "code \<noteq> SessionSuperseded" "alive (closeSession now p code s) q g"
  then have "alive ?s q g"
    using removeSession_alive by (simp add: closeSession_def)
  moreover have "\<not> alive ?s p g"
    using \<open>code \<noteq> SessionSuperseded\<close>
    by (auto simp: alive_def on_session_heap close_record_Closed)
  ultimately show ?thesis
    using on_session_quiet [OF tame_updates(3), of s p code] by (auto simp: quiet_def)
qed

section \<open>Admission\<close>

lemma enter_group_fields [simp]:
  "sv_heap (snd (enter_group g gp s)) = sv_heap s" "sv_limits (snd (enter_group g gp s)) = sv_limits s"
  "sv_pending (snd (enter_group g gp s)) = sv_pending s" "sv_sessions (snd (enter_group g gp s)) = sv_sessions s"
  "sv_terminals (snd (enter_group g gp s)) = sv_terminals s" "alive (snd (enter_group g gp s)) p h = alive s p h"
  by (auto simp: enter_group_def alive_def split: option.splits)

lemma enter_group_entry:
  "enter_group g gp s = (None, t) \<Longrightarrow> g \<noteq> [] \<Longrightarrow> \<exists>st. map_of (sv_groups t) g = Some st \<and> \<not> gs_closed st"
  by (auto simp: enter_group_def update_conv' split: option.splits if_splits)

lemma new_entry_inv:
  assumes "groups_inv u" "map_of (sv_groups (ru_server u)) g = None" "gp \<notin> ru_used u" "gs_ptr st = gp" "\<not> gs_persisted st"
  shows "groups_inv (u\<lparr>ru_server := (ru_server u)\<lparr>sv_groups := AList.update g st (sv_groups (ru_server u))\<rparr>, ru_used := insert gp (ru_used u)\<rparr>)"
proof -
  let ?s = "(ru_server u)\<lparr>sv_groups := AList.update g st (sv_groups (ru_server u))\<rparr>"
  have inv: "pointers_inv u" "listed_inv (ru_server u)" "\<forall>x. x \<in># ru_closers u \<longrightarrow> closer_inv (ru_server u) x"
    using assms(1) by (simp_all add: groups_inv_def del: split_paired_All)
  have "pointers_inv (u\<lparr>ru_server := ?s, ru_used := insert gp (ru_used u)\<rparr>)"
    using inv(1) assms(4,5) by (auto simp: pointers_inv_def update_conv' simp del: split_paired_All)
  moreover have "listed_inv ?s"
    using listed_invD [OF inv(2)] assms(2) by (fastforce simp: listed_inv_def update_conv')
  moreover have "closer_inv ?s x" if mem: "x \<in># ru_closers u" for x
  proof -
    have "fst (snd x) \<noteq> gp"
      using inv(1) mem assms(3) by (auto simp: pointers_inv_def simp del: split_paired_All)
    then show ?thesis
      using inv(3) mem assms(4) by (cases x) (auto simp: closer_inv_def update_conv')
  qed
  ultimately show ?thesis
    by (simp add: groups_inv_def del: split_paired_All)
qed

lemma groups_inv_used: "groups_inv u \<Longrightarrow> ru_used u \<subseteq> used \<Longrightarrow> groups_inv (u\<lparr>ru_used := used\<rparr>)"
  by (auto simp: groups_inv_def pointers_inv_def simp del: split_paired_All)

lemma enter_group_inv:
  assumes "groups_inv u" "gp \<notin> ru_used u"
  shows "groups_inv (u\<lparr>ru_server := snd (enter_group g gp (ru_server u)), ru_used := insert gp (ru_used u)\<rparr>)"
proof -
  let ?st = "\<lparr>gs_ptr = gp, gs_closed = False, gs_persisted = False, gs_timer = None, gs_sessions = []\<rparr>"
  have "snd (enter_group g gp (ru_server u)) = ru_server u \<or> map_of (sv_groups (ru_server u)) g = None
      \<and> snd (enter_group g gp (ru_server u)) = (ru_server u)\<lparr>sv_groups := AList.update g ?st (sv_groups (ru_server u))\<rparr>"
    by (cases "map_of (sv_groups (ru_server u)) g") (simp_all add: enter_group_def)
  then show ?thesis
    using new_entry_inv [OF assms(1) _ assms(2), of g ?st] groups_inv_used [OF assms(1) subset_insertI, of gp] by auto
qed

text \<open>A new session in an open group.\<close>

definition install_session :: "SessionID \<Rightarrow> pointer \<Rightarrow> 'a sessionRecord \<Rightarrow> ('a, 'h) serverEndpoint \<Rightarrow> ('a, 'h) serverEndpoint" where
  "install_session sid p session s =
     join_group (sr_group session) p (signalChanged
       (s\<lparr>sv_heap := (sv_heap s)(p \<mapsto> session), sv_sessions := AList.update sid p (sv_sessions s),
          sv_terminals := AList.delete sid (sv_terminals s)\<rparr>))"

lemma install_session_fields:
  "sv_heap (install_session sid p session s) = (sv_heap s)(p \<mapsto> session)"
  "sv_limits (install_session sid p session s) = sv_limits s" "sv_pending (install_session sid p session s) = sv_pending s"
  "sv_sessions (install_session sid p session s) = AList.update sid p (sv_sessions s)"
  "sv_terminals (install_session sid p session s) = AList.delete sid (sv_terminals s)"
  by (auto simp: install_session_def join_group_def signalChanged_def split: option.splits)

lemma install_session_lookup:
  "map_of (sv_groups (install_session sid p session s)) h = Some st' \<longleftrightarrow>
   (\<exists>st. map_of (sv_groups s) h = Some st
      \<and> st' = (if h = sr_group session \<and> h \<noteq> [] then st\<lparr>gs_sessions := List.insert p (gs_sessions st)\<rparr> else st))"
  by (auto simp: install_session_def join_group_def signalChanged_def update_conv' split: option.splits)

lemma install_session_alive:
  "p \<notin> dom (sv_heap s) \<Longrightarrow> alive (install_session sid p session s) q h \<longleftrightarrow>
     (q = p \<and> h = sr_group session \<and> sr_state session \<noteq> Closed \<or> q \<noteq> p \<and> alive s q h)"
  by (auto simp: alive_def install_session_fields)

lemma install_session_inv:
  assumes "groups_inv u" "p \<notin> ru_used u"
    and "sr_group session \<noteq> [] \<Longrightarrow> \<exists>st. map_of (sv_groups (ru_server u)) (sr_group session) = Some st \<and> \<not> gs_closed st"
  shows "groups_inv (u\<lparr>ru_server := install_session sid p session (ru_server u), ru_used := insert p (ru_used u)\<rparr>)"
proof -
  let ?s = "install_session sid p session (ru_server u)"
  have inv: "pointers_inv u" "listed_inv (ru_server u)" "\<forall>x. x \<in># ru_closers u \<longrightarrow> closer_inv (ru_server u) x"
    using assms(1) by (simp_all add: groups_inv_def del: split_paired_All)
  have fresh: "p \<notin> dom (sv_heap (ru_server u))"
    using inv(1) assms(2) by (auto simp: pointers_inv_def)
  have "pointers_inv (u\<lparr>ru_server := ?s, ru_used := insert p (ru_used u)\<rparr>)"
    using inv(1) by (auto simp: pointers_inv_def install_session_fields install_session_lookup split: if_splits simp del: split_paired_All)
  moreover have "listed_inv ?s"
    unfolding listed_inv_def
  proof (intro allI impI)
    fix q h
    assume q: "h \<noteq> [] \<and> alive ?s q h"
    show "\<exists>st. map_of (sv_groups ?s) h = Some st \<and> q \<in> set (gs_sessions st) \<and> \<not> gs_persisted st"
    proof (cases "q = p")
      case True
      with q have h: "h = sr_group session"
        by (simp add: install_session_alive [OF fresh])
      with q assms(3) obtain st where "map_of (sv_groups (ru_server u)) h = Some st" "\<not> gs_closed st"
        by auto
      with inv(1) have "map_of (sv_groups (ru_server u)) h = Some st" "\<not> gs_persisted st"
        by (auto simp: pointers_inv_def)
      then show ?thesis
        using h q True by (auto simp: install_session_lookup)
    next
      case False
      with q listed_invD [OF inv(2), of h q] obtain st where
        "map_of (sv_groups (ru_server u)) h = Some st" "q \<in> set (gs_sessions st)" "\<not> gs_persisted st"
        by (auto simp: install_session_alive [OF fresh])
      then show ?thesis
        by (auto simp: install_session_lookup)
    qed
  qed
  moreover have "closer_inv ?s x" if mem: "x \<in># ru_closers u" for x
  proof (cases x)
    case (fields g gp ps)
    have old: "gs_closed st \<and> g \<noteq> [] \<and> (\<forall>q. alive (ru_server u) q g \<longrightarrow> q \<in> set ps)"
      if "map_of (sv_groups (ru_server u)) g = Some st" "gs_ptr st = gp" for st
      using inv(3) mem that by (auto simp: fields closer_inv_def simp del: split_paired_All)
    then show ?thesis
      using assms(3) by (auto simp: fields closer_inv_def install_session_lookup install_session_alive [OF fresh] split: if_splits)
  qed
  ultimately show ?thesis
    by (simp add: groups_inv_def del: split_paired_All)
qed

lemma admit_session_cases:
  assumes "admit_session sha256 hello prin secret random_id p op gp s = Some (r, s')"
  obtains (rejected) reject where "r = Some reject" "s' = s \<or> s' = snd (enter_group (he_Group hello) gp s)"
  | (admitted) t session sid where "r = None" "enter_group (he_Group hello) gp s = (None, t)" "\<not> sv_draining t"
      "int (length (sv_sessions t)) < MaxSessions (sv_limits t)" "sr_group session = he_Group hello" "sr_id session = sid"
      "sr_state session = Active" "s' = install_session sid p session t"
proof (cases "if sc_Role (sv_config s) = GameRole then secret else Inr (replicate 32 0)")
  case (Inl e)
  with assms have "r = Some (Internal, ''random failure'') \<and> s' = s"
    by (auto simp: admit_session_def)
  then show thesis
    using rejected by blast
next
  case (Inr key)
  note secret = this
  obtain reject t where enter: "enter_group (he_Group hello) gp s = (reject, t)"
    by fastforce
  show thesis
  proof (cases reject)
    case (Some e)
    with assms secret enter have "r = Some e \<and> s' = t"
      by (auto simp: admit_session_def)
    then show thesis
      using rejected enter by auto
  next
    case None
    show thesis
    proof (cases "sv_draining t \<or> int (length (sv_sessions t)) \<ge> MaxSessions (sv_limits t) \<or> (\<exists>e. random_id = Inl e)")
      case True
      with assms secret enter None have "\<exists>e. r = Some e \<and> s' = t"
        by (auto simp: admit_session_def split: if_splits)
      then show thesis
        using rejected enter by auto
    next
      case False
      then obtain sid where sid: "random_id = Inr sid"
        by (metis old.sum.exhaust)
      from False assms secret enter None sid obtain session where session:
        "newSessionRecord sid (sv_owner t) (he_Group hello) prin (sv_limits t) False (Some op) = Some session" "r = None"
        "s' = install_session sid p (session\<lparr>sr_resumeHash := sha256 key, sr_peerLimits := he_Limits hello\<rparr>) t"
        by (auto simp: admit_session_def install_session_def Let_def newSessionRecord_def split: option.splits prod.splits)
      moreover have "sr_group session = he_Group hello" "sr_id session = sid" "sr_state session = Active"
        using session(1) by (auto simp: newSessionRecord_def split: option.splits prod.splits)
      ultimately show thesis
        using admitted [of t "session\<lparr>sr_resumeHash := sha256 key, sr_peerLimits := he_Limits hello\<rparr>" sid] False enter None
        by (auto simp: not_le)
    qed
  qed
qed

lemma admit_inv:
  assumes "groups_inv u" "admit_session sha256 hello prin secret random_id p op gp (ru_server u) = Some (r, s)"
    and "p \<notin> ru_used u" "gp \<notin> ru_used u" "p \<noteq> gp"
  shows "groups_inv (u\<lparr>ru_server := s, ru_used := {p, gp} \<union> ru_used u\<rparr>)"
  using assms(2)
proof (cases rule: admit_session_cases)
  case (rejected reject)
  have "groups_inv (u\<lparr>ru_server := s, ru_used := insert gp (ru_used u)\<rparr>)"
    using rejected(2) enter_group_inv [OF assms(1,4), of "he_Group hello"] groups_inv_used [OF assms(1) subset_insertI, of gp] by auto
  from groups_inv_used [OF this, of "{p, gp} \<union> ru_used u"] show ?thesis
    by auto
next
  case (admitted t session sid)
  let ?u = "u\<lparr>ru_server := t, ru_used := insert gp (ru_used u)\<rparr>"
  have "groups_inv ?u"
    using enter_group_inv [OF assms(1,4), of "he_Group hello"] admitted(2) by simp
  moreover have "p \<notin> ru_used ?u"
    using assms(3,5) by simp
  ultimately show ?thesis
    using install_session_inv [of ?u p session sid] enter_group_entry [OF admitted(2)] admitted(5,8) by simp
qed

section \<open>Closing groups\<close>

lemma closer_invD:
  "closer_inv s (g, gp, ps) \<Longrightarrow> map_of (sv_groups s) g = Some st \<Longrightarrow> gs_ptr st = gp \<Longrightarrow>
   gs_closed st \<and> g \<noteq> [] \<and> (\<forall>p. alive s p g \<longrightarrow> p \<in> set ps)"
  by (simp add: closer_inv_def)

text \<open>Changing the flags of an entry that exists.\<close>

lemma entry_flags_inv:
  assumes "groups_inv u" "map_of (sv_groups (ru_server u)) g = Some st" "gs_ptr st' = gs_ptr st"
    and "gs_sessions st' = gs_sessions st" "gs_closed st \<longrightarrow> gs_closed st'"
    and "gs_persisted st' \<Longrightarrow> gs_closed st' \<and> (gs_persisted st \<or> (\<forall>p. \<not> alive (ru_server u) p g))"
  shows "groups_inv (u\<lparr>ru_server := (ru_server u)\<lparr>sv_groups := AList.update g st' (sv_groups (ru_server u))\<rparr>\<rparr>)"
proof -
  let ?s = "(ru_server u)\<lparr>sv_groups := AList.update g st' (sv_groups (ru_server u))\<rparr>"
  have inv: "pointers_inv u" "listed_inv (ru_server u)" "\<forall>x. x \<in># ru_closers u \<longrightarrow> closer_inv (ru_server u) x"
    using assms(1) by (simp_all add: groups_inv_def del: split_paired_All)
  have "gs_ptr st \<in> ru_used u"
    using inv(1) assms(2) by (auto simp: pointers_inv_def)
  then have "pointers_inv (u\<lparr>ru_server := ?s\<rparr>)"
    using inv(1) assms(3,6) by (auto simp: pointers_inv_def update_conv' simp del: split_paired_All)
  moreover have "listed_inv ?s"
    unfolding listed_inv_def
  proof (intro allI impI)
    fix p h
    assume p: "h \<noteq> [] \<and> alive ?s p h"
    with listed_invD [OF inv(2), of h p] obtain st1 where
      st1: "map_of (sv_groups (ru_server u)) h = Some st1" "p \<in> set (gs_sessions st1)" "\<not> gs_persisted st1"
      by auto
    with p assms show "\<exists>st. map_of (sv_groups ?s) h = Some st \<and> p \<in> set (gs_sessions st) \<and> \<not> gs_persisted st"
      by (cases "h = g") (auto simp: update_conv')
  qed
  moreover have "closer_inv ?s x" if mem: "x \<in># ru_closers u" for x
  proof (cases x)
    case (fields h hp ps)
    have "closer_inv (ru_server u) (h, hp, ps)"
      using inv(3) mem by (simp add: fields del: split_paired_All)
    then show ?thesis
      using assms(2,3,5) by (cases "h = g") (auto simp: fields closer_inv_def update_conv')
  qed
  ultimately show ?thesis
    by (simp add: groups_inv_def del: split_paired_All)
qed

lemma close_begin_cases:
  assumes "close_group_begin g gp s = (Inr state, s')"
  shows "g \<noteq> [] \<and> s' = s\<lparr>sv_groups := AList.update g state (sv_groups s)\<rparr> \<and> gs_closed state
    \<and> ((\<exists>st. map_of (sv_groups s) g = Some st \<and> state = st\<lparr>gs_closed := True\<rparr>)
       \<or> map_of (sv_groups s) g = None \<and> int (length (sv_groups s)) < MaxActiveGroups (sv_limits s)
         \<and> state = \<lparr>gs_ptr = gp, gs_closed = True, gs_persisted = False, gs_timer = None, gs_sessions = []\<rparr>)"
  using assms by (auto simp: close_group_begin_def Let_def not_le split: if_splits option.splits)

lemma close_begin_inv:
  assumes "groups_inv u" "close_group_begin g gp (ru_server u) = (Inr state, s)" "gp \<notin> ru_used u"
  shows "groups_inv (u\<lparr>ru_server := s, ru_used := insert gp (ru_used u),
    ru_closers := add_mset (g, gs_ptr state, gs_sessions state) (ru_closers u)\<rparr>)"
proof -
  note c = close_begin_cases [OF assms(2)]
  let ?u = "u\<lparr>ru_server := s, ru_used := insert gp (ru_used u)\<rparr>"
  have inv: "groups_inv ?u"
  proof (cases "map_of (sv_groups (ru_server u)) g")
    case None
    with c new_entry_inv [OF assms(1) None assms(3), of state] show ?thesis
      by auto
  next
    case (Some st)
    with c have "state = st\<lparr>gs_closed := True\<rparr>"
      by auto
    with entry_flags_inv [OF assms(1) Some, of state] c groups_inv_used [of "u\<lparr>ru_server := s\<rparr>" "insert gp (ru_used u)"]
    show ?thesis by auto
  qed
  have entry: "map_of (sv_groups s) g = Some state"
    using c by (auto simp: update_conv')
  have parts: "pointers_inv ?u" "listed_inv s" "\<forall>x. x \<in># ru_closers u \<longrightarrow> closer_inv s x"
    using inv by (simp_all add: groups_inv_def del: split_paired_All)
  have "closer_inv s (g, gs_ptr state, gs_sessions state)"
    using entry c listed_invD [OF parts(2), of g] by (simp add: closer_inv_def)
  moreover have "gs_ptr state \<in> insert gp (ru_used u)"
    using parts(1) entry by (auto simp: pointers_inv_def)
  ultimately show ?thesis
    using parts by (simp add: groups_inv_def pointers_inv_def del: split_paired_All)
qed

lemma close_next_inv:
  assumes "groups_inv u" "(g, gp, p # ps) \<in># ru_closers u"
  shows "groups_inv (u\<lparr>ru_server := closeSession now p GroupClosed (ru_server u),
    ru_closers := add_mset (g, gp, ps) (ru_closers u - {#(g, gp, p # ps)#})\<rparr>)"
proof -
  let ?s = "closeSession now p GroupClosed (ru_server u)" and ?rest = "ru_closers u - {#(g, gp, p # ps)#}"
  have inv: "groups_inv (u\<lparr>ru_server := ?s\<rparr>)"
    using closeSession_inv [OF assms(1)] by simp
  then have "closer_inv ?s (g, gp, p # ps)" "gp \<in> ru_used u"
    using assms(2) by (force simp: groups_inv_def pointers_inv_def simp del: split_paired_All)+
  moreover have "\<not> alive ?s p g"
    using closeSession_alive [of GroupClosed now p "ru_server u" p g] by auto
  ultimately have "closer_inv ?s (g, gp, ps)"
    by (fastforce simp: closer_inv_def)
  then show ?thesis
    using inv \<open>gp \<in> ru_used u\<close> by (auto simp: groups_inv_def pointers_inv_def dest: in_diffD simp del: split_paired_All)
qed

lemma retain_inv:
  assumes "groups_inv u" "(g, gp, []) \<in># ru_closers u"
  shows "groups_inv (u\<lparr>ru_server := retainClosedGroup now g gp (ru_server u), ru_closers := ru_closers u - {#(g, gp, [])#}\<rparr>)"
proof -
  let ?s = "retainClosedGroup now g gp (ru_server u)"
  have closer: "closer_inv (ru_server u) (g, gp, [])"
    using assms by (auto simp: groups_inv_def simp del: split_paired_All)
  have "groups_inv (u\<lparr>ru_server := ?s\<rparr>)"
  proof (cases "map_of (sv_groups (ru_server u)) g")
    case None
    then show ?thesis using assms(1) by (simp add: retainClosedGroup_def)
  next
    case (Some st)
    then show ?thesis
      using assms(1) closer_invD [OF closer Some] entry_flags_inv [OF assms(1) Some] by (simp add: retainClosedGroup_def Let_def)
  qed
  from groups_inv_quiet [OF this, of ?s "ru_closers u - {#(g, gp, [])#}"] show ?thesis
    by (simp add: in_diffD del: split_paired_All)
qed

lemma group_expires_inv:
  assumes "groups_inv u"
  shows "groups_inv (u\<lparr>ru_server := group_expires g gp (ru_server u)\<rparr>)"
proof (cases "\<exists>st. map_of (sv_groups (ru_server u)) g = Some st \<and> gs_ptr st = gp \<and> gs_closed st \<and> gs_persisted st")
  case True
  then obtain st where st: "map_of (sv_groups (ru_server u)) g = Some st" "gs_persisted st"
      "group_expires g gp (ru_server u) = (ru_server u)\<lparr>sv_groups := AList.delete g (sv_groups (ru_server u))\<rparr>"
    by (auto simp: group_expires_def)
  have inv: "pointers_inv u" "listed_inv (ru_server u)" "\<forall>x. x \<in># ru_closers u \<longrightarrow> closer_inv (ru_server u) x"
    using assms by (simp_all add: groups_inv_def del: split_paired_All)
  have "\<not> alive (ru_server u) p g" if "g \<noteq> []" for p
    using listed_invD [OF inv(2) that] st by auto
  then have "listed_inv ((ru_server u)\<lparr>sv_groups := AList.delete g (sv_groups (ru_server u))\<rparr>)"
    using inv(2) by (auto simp: listed_inv_def delete_conv')
  moreover have "closer_inv ((ru_server u)\<lparr>sv_groups := AList.delete g (sv_groups (ru_server u))\<rparr>) x" if mem: "x \<in># ru_closers u" for x
    using inv(3) mem by (cases x) (auto simp: closer_inv_def delete_conv' split: if_splits)
  ultimately show ?thesis
    using inv(1) by (auto simp: st(3) groups_inv_def pointers_inv_def delete_conv' split: if_splits simp del: split_paired_All)
next
  case False
  then have "group_expires g gp (ru_server u) = ru_server u"
    by (cases "map_of (sv_groups (ru_server u)) g") (auto simp: group_expires_def)
  with assms show ?thesis
    by simp
qed

section \<open>The bounds of the tables\<close>

lemma oldest_terminal_key: "oldest_terminal ts = Some (k, t) \<Longrightarrow> map_of ts k \<noteq> None"
  by (induction ts arbitrary: k t) (auto split: option.splits if_splits)

lemma length_delete_less: "map_of xs k \<noteq> None \<Longrightarrow> length (AList.delete k xs) < length xs"
  by (induction xs) (auto simp: length_delete_le less_Suc_eq_le)

lemma oldest_terminal_None: "oldest_terminal ts = None \<longleftrightarrow> ts = []"
  by (cases ts) (auto split: option.splits if_splits)

text \<open>The tables by themselves, for the operations that change one of them.\<close>

definition map_within :: "('k \<times> 'v) list \<Rightarrow> int \<Rightarrow> bool" where
  "map_within xs n \<longleftrightarrow> distinct (map fst xs) \<and> int (length xs) \<le> n"

lemma map_within_delete: "map_within xs n \<Longrightarrow> map_within (AList.delete k xs) n"
  using length_delete_le [of k xs] by (auto simp: map_within_def distinct_delete)

lemma map_within_filter: "map_within xs n \<Longrightarrow> map_within (filter P xs) n"
  using length_filter_le [of P xs] by (simp add: map_within_def distinct_map_filter del: length_filter_le)

lemma map_within_update: "map_within xs n \<Longrightarrow> map_of xs k \<noteq> None \<or> int (length xs) < n \<Longrightarrow> map_within (AList.update k v xs) n"
  by (auto simp: map_within_def distinct_update length_alist_update)

lemma tables_inv_eq:
  "tables_inv s \<longleftrightarrow> map_within (sv_sessions s) (MaxSessions (sv_limits s)) \<and> map_within (sv_groups s) (MaxActiveGroups (sv_limits s))
     \<and> map_within (sv_terminals s) (terminalCacheCapacity s) \<and> 0 < MaxSessions (sv_limits s) \<and> 0 < MaxActiveGroups (sv_limits s)"
  by (auto simp: tables_inv_def map_within_def)

lemma capacity_cong: "sv_limits s = sv_limits t \<Longrightarrow> terminalCacheCapacity s = terminalCacheCapacity t"
  by (simp add: terminalCacheCapacity_def)

lemma capacity_pos: "0 < MaxSessions (sv_limits s) \<Longrightarrow> 0 < terminalCacheCapacity s"
  by (simp add: terminalCacheCapacity_def maxInt_def)

text \<open>A change that leaves all three tables alone.\<close>

definition same_tables :: "('a, 'h) serverEndpoint \<Rightarrow> ('a, 'h) serverEndpoint \<Rightarrow> bool" where
  "same_tables s t \<longleftrightarrow> sv_sessions t = sv_sessions s \<and> sv_groups t = sv_groups s \<and> sv_terminals t = sv_terminals s \<and> sv_limits t = sv_limits s"

lemma tables_inv_same: "tables_inv s \<Longrightarrow> same_tables s t \<Longrightarrow> tables_inv t"
  by (simp add: tables_inv_eq same_tables_def capacity_cong [of t s])

lemma on_session_same: "same_tables s (on_session p f s)"
  by (simp add: same_tables_def on_session_def split: option.splits)

lemma schedule_tables [simp]: "tables_inv (scheduleTerminalExpiryLocked now s) = tables_inv s"
  by (simp add: tables_inv_eq scheduleTerminalExpiryLocked_def terminalCacheCapacity_def)

lemma signalChanged_tables [simp]: "tables_inv (signalChanged s) = tables_inv s"
  by (simp add: tables_inv_eq signalChanged_def terminalCacheCapacity_def)

lemma on_session_tables: "tables_inv s \<Longrightarrow> tables_inv (on_session p f s)"
  using tables_inv_same [OF _ on_session_same] .

lemma terminals_tables:
  "tables_inv s \<Longrightarrow> map_within ts (terminalCacheCapacity s) \<Longrightarrow> tables_inv (s\<lparr>sv_terminals := ts\<rparr>)"
  by (simp add: tables_inv_eq capacity_cong [of "s\<lparr>sv_terminals := ts\<rparr>" s])

lemma expireTerminals_tables: "tables_inv s \<Longrightarrow> tables_inv (expireTerminalsLocked now s)"
  by (simp add: expireTerminalsLocked_def terminals_tables tables_inv_eq [of s] map_within_filter)

lemma evict_oldest_room:
  assumes "map_within ts n" "0 < n"
  shows "map_within (evict_oldest n k ts) n \<and> (map_of (evict_oldest n k ts) k \<noteq> None \<or> int (length (evict_oldest n k ts)) < n)"
proof (cases "map_of ts k = None \<and> int (length ts) \<ge> n")
  case True
  then have "ts \<noteq> []"
    using assms(2) by auto
  then obtain old t where old: "oldest_terminal ts = Some (old, t)"
    using oldest_terminal_None [of ts] by (metis option.exhaust surj_pair)
  have "int (length (AList.delete old ts)) < n"
    using length_delete_less [OF oldest_terminal_key [OF old]] assms(1) by (simp add: map_within_def)
  with old True map_within_delete [OF assms(1)] show ?thesis
    by (simp add: evict_oldest_def)
next
  case False
  then show ?thesis
    using assms by (auto simp: evict_oldest_def)
qed

lemma recordTerminal_tables:
  assumes "tables_inv s"
  shows "tables_inv (recordTerminalLocked now sid code s)"
proof -
  let ?t = "expireTerminalsLocked now s"
  have t: "tables_inv ?t"
    using expireTerminals_tables [OF assms] .
  then have n: "map_within (sv_terminals ?t) (terminalCacheCapacity ?t)" "0 < terminalCacheCapacity ?t"
    by (simp_all add: tables_inv_eq capacity_pos)
  from evict_oldest_room [OF n, of sid] t show ?thesis
    unfolding recordTerminalLocked_def Let_def by (simp add: terminals_tables map_within_update)
qed

lemma sessions_tables:
  "tables_inv s \<Longrightarrow> map_within ss (MaxSessions (sv_limits s)) \<Longrightarrow> tables_inv (s\<lparr>sv_sessions := ss\<rparr>)"
  by (simp add: tables_inv_eq capacity_cong [of "s\<lparr>sv_sessions := ss\<rparr>" s])

lemma groups_tables:
  "tables_inv s \<Longrightarrow> map_within gs (MaxActiveGroups (sv_limits s)) \<Longrightarrow> tables_inv (s\<lparr>sv_groups := gs\<rparr>)"
  by (simp add: tables_inv_eq capacity_cong [of "s\<lparr>sv_groups := gs\<rparr>" s])

lemma leave_table_tables:
  assumes "tables_inv s"
  shows "tables_inv (leave_table now c code sid p s)"
proof -
  have "tables_inv (s\<lparr>sv_sessions := AList.delete sid (sv_sessions s)\<rparr>)"
    using assms by (simp add: sessions_tables tables_inv_eq [of s] map_within_delete)
  with assms show ?thesis
    by (simp add: leave_table_def Let_def recordTerminal_tables)
qed

lemma leave_group_tables: "tables_inv s \<Longrightarrow> tables_inv (leave_group g p s)"
  by (auto simp: leave_group_def tables_inv_eq [of s] intro!: groups_tables map_within_update split: option.splits)

lemma removeSession_tables: "tables_inv s \<Longrightarrow> tables_inv (removeSession now p s)"
  by (simp add: removeSession_def on_session_tables leave_group_tables leave_table_tables split: option.splits)

lemma closeSession_tables: "tables_inv s \<Longrightarrow> tables_inv (closeSession now p code s)"
  by (simp add: closeSession_def on_session_tables removeSession_tables)

lemma resumeConnection_tables:
  assumes "resumeConnection now sha256 hello resume prin op s = (x, s')" "tables_inv s"
  shows "tables_inv s'"
proof -
  have "same_tables t v" if "resume_session now hello prin hash op p r t = (y, v)" for t v y hash p r
    using that by (auto simp: resume_session_def same_tables_def Let_def split: if_splits)
  then show ?thesis
    using resumeConnection_cases [OF assms(1)] assms(2) expireTerminals_tables [OF assms(2), of now]
      tables_inv_same on_session_tables by metis
qed

lemma handleRefresh_tables: "handleRefresh now message p s = (m, s') \<Longrightarrow> tables_inv s \<Longrightarrow> tables_inv s'"
  by (auto simp: handleRefresh_def Let_def on_session_tables split: option.splits sum.splits if_splits)

lemma heap_tables [simp]: "tables_inv (s\<lparr>sv_heap := h\<rparr>) = tables_inv s"
  by (simp add: tables_inv_eq terminalCacheCapacity_def)

lemma finishConnection_tables: "tables_inv s \<Longrightarrow> tables_inv (finishConnection now p operations s)"
  by (simp add: finishConnection_def removeSession_tables split: option.splits prod.splits bool.splits)

lemma enter_group_tables: "tables_inv s \<Longrightarrow> tables_inv (snd (enter_group g gp s))"
  by (auto simp: enter_group_def tables_inv_eq [of s] not_le intro!: groups_tables map_within_update split: option.splits)

lemma install_session_tables:
  assumes "tables_inv s" "int (length (sv_sessions s)) < MaxSessions (sv_limits s)"
  shows "tables_inv (install_session sid p session s)"
proof -
  let ?gs = "sv_groups (install_session sid p session s)"
  have "map_within ?gs (MaxActiveGroups (sv_limits s))"
    using assms(1) by (auto simp: install_session_def join_group_def signalChanged_def tables_inv_eq intro!: map_within_update split: option.splits)
  then show ?thesis
    using assms unfolding tables_inv_eq
    by (simp add: install_session_fields map_within_update map_within_delete capacity_cong [of "install_session sid p session s" s])
qed

lemma admit_tables:
  assumes "admit_session sha256 hello prin secret random_id p op gp s = Some (r, s')" "tables_inv s"
  shows "tables_inv s'"
  using assms(1)
proof (cases rule: admit_session_cases)
  case (rejected reject)
  then show ?thesis using assms(2) enter_group_tables by auto
next
  case (admitted t session sid)
  then show ?thesis
    using enter_group_tables [OF assms(2), of "he_Group hello" gp] install_session_tables by simp
qed

lemma close_begin_tables:
  assumes "close_group_begin g gp s = (Inr state, s')" "tables_inv s"
  shows "tables_inv s'"
  using close_begin_cases [OF assms(1)] assms(2) groups_tables [OF assms(2)]
  by (auto simp: tables_inv_eq [of s] map_within_update)

lemma retain_tables: "tables_inv s \<Longrightarrow> tables_inv (retainClosedGroup now g gp s)"
  by (auto simp: retainClosedGroup_def Let_def tables_inv_eq [of s] intro!: groups_tables map_within_update split: option.splits)

lemma group_expires_tables: "tables_inv s \<Longrightarrow> tables_inv (group_expires g gp s)"
  by (auto simp: group_expires_def tables_inv_eq [of s] intro!: groups_tables map_within_delete split: option.splits)

section \<open>Reachable servers\<close>

definition keeps :: "('a, 'h) serverEndpoint \<Rightarrow> ('a, 'h) serverEndpoint \<Rightarrow> bool" where
  "keeps s t \<longleftrightarrow> sv_pending t = sv_pending s \<and> sv_limits t = sv_limits s"

lemma quiet_keeps: "quiet s t \<Longrightarrow> keeps s t"
  by (simp add: quiet_def keeps_def)

lemma keeps_trans: "keeps s t \<Longrightarrow> keeps t v \<Longrightarrow> keeps s v"
  by (simp add: keeps_def)

lemma removeSession_keeps: "keeps s (removeSession now p s)"
proof (cases "sv_heap s p")
  case (Some r)
  let ?s = "leave_group (sr_group r) p (on_session p stop_timers s)"
  have "keeps s ?s"
    using quiet_keeps [OF on_session_quiet [OF tame_updates(2)], of s p] by (simp add: keeps_def)
  from keeps_trans [OF this quiet_keeps [OF leave_table_quiet]] show ?thesis
    by (simp add: removeSession_def Some)
qed (simp add: removeSession_def keeps_def)

lemma closeSession_keeps: "keeps s (closeSession now p code s)"
  unfolding closeSession_def
  by (rule keeps_trans [OF quiet_keeps [OF on_session_quiet [OF tame_updates(3)]] removeSession_keeps])

lemma admit_keeps:
  assumes "admit_session sha256 hello prin secret random_id p op gp s = Some (r, s')"
  shows "keeps s s'"
  using assms
proof (cases rule: admit_session_cases)
  case (rejected reject)
  then show ?thesis by (auto simp: keeps_def)
next
  case (admitted t session sid)
  then have "t = snd (enter_group (he_Group hello) gp s)"
    by simp
  then show ?thesis using admitted(8) by (simp add: keeps_def install_session_fields)
qed

lemma finishConnection_inv:
  assumes "groups_inv u"
  shows "groups_inv (u\<lparr>ru_server := finishConnection now p operations (ru_server u)\<rparr>) \<and> keeps (ru_server u) (finishConnection now p operations (ru_server u))"
proof (cases "sv_heap (ru_server u) p")
  case None
  then show ?thesis using assms by (simp add: finishConnection_def keeps_def)
next
  case (Some r)
  obtain ok r' operations' where s: "suspendIfCurrent r operations = (ok, r', operations')"
    using prod_cases3 by blast
  show ?thesis
  proof (cases ok)
    case True
    let ?t = "(ru_server u)\<lparr>sv_heap := (sv_heap (ru_server u))(p \<mapsto> armGrace now (sv_limits (ru_server u)) r')\<rparr>"
    have "quiet (ru_server u) ?t"
      using finishConnection_suspend_quiet [OF Some] s True by simp
    then have "groups_inv (u\<lparr>ru_server := ?t\<rparr>)" "keeps (ru_server u) ?t"
      using groups_inv_quiet_server [OF assms] quiet_keeps by blast+
    with s True show ?thesis
      by (simp add: finishConnection_def Some)
  next
    case False
    with s Some removeSession_inv [OF assms, of p now] removeSession_keeps [of "ru_server u" now p] assms show ?thesis
      by (simp add: finishConnection_def keeps_def)
  qed
qed

definition pending_inv :: "('a, 'h) run \<Rightarrow> bool" where
  "pending_inv u \<longleftrightarrow> sv_pending (ru_server u) = int (ru_handshakes u)
     \<and> sv_pending (ru_server u) \<le> MaxPendingHandshakes (sv_limits (ru_server u))"

definition run_inv :: "('a, 'h) run \<Rightarrow> bool" where
  "run_inv u \<longleftrightarrow> tables_inv (ru_server u) \<and> groups_inv u \<and> pending_inv u"

lemma run_invI:
  assumes "run_inv u" "tables_inv (ru_server v)" "groups_inv v" "keeps (ru_server u) (ru_server v)" "ru_handshakes v = ru_handshakes u"
  shows "run_inv v"
  using assms by (simp add: run_inv_def pending_inv_def keeps_def)

text \<open>Fields the run does not look at.\<close>

lemma accept_quiet:
  assumes "accept_connection now address s = (r, s')"
  shows "same_tables s s' \<and> sv_groups s' = sv_groups s \<and> sv_heap s' = sv_heap s
    \<and> (if r = None then sv_pending s' = sv_pending s + 1 \<and> sv_pending s < MaxPendingHandshakes (sv_limits s) else sv_pending s' = sv_pending s)"
  using assms by (auto simp: accept_connection_def same_tables_def Let_def split: prod.splits bool.splits if_splits)

lemma groups_inv_ghost:
  assumes "groups_inv u" "sv_groups s = sv_groups (ru_server u)" "sv_heap s = sv_heap (ru_server u)"
  shows "groups_inv (u\<lparr>ru_server := s, ru_handshakes := n\<rparr>)"
proof -
  have "alive s p g = alive (ru_server u) p g" for p g
    using assms(3) by (simp add: alive_def)
  then show ?thesis
    using assms by (simp add: groups_inv_def pointers_inv_def listed_inv_def closer_inv_def del: split_paired_All)
qed

lemma run_step_inv: "run_step u v \<Longrightarrow> run_inv u \<Longrightarrow> run_inv v"
proof (induction rule: run_step.induct)
  case (refused now address u reject s)
  note a = accept_quiet [OF refused(1)]
  then have "tables_inv s" "groups_inv (u\<lparr>ru_server := s\<rparr>)"
    using refused(2) tables_inv_same groups_inv_ghost [of u s "ru_handshakes u"] by (auto simp: run_inv_def)
  with a refused(2) show ?case
    by (simp add: run_inv_def pending_inv_def same_tables_def)
next
  case (accepted now address u s)
  note a = accept_quiet [OF accepted(1)]
  then have "tables_inv s" "groups_inv (u\<lparr>ru_server := s, ru_handshakes := Suc (ru_handshakes u)\<rparr>)"
    using accepted(2) tables_inv_same groups_inv_ghost [of u s] by (auto simp: run_inv_def)
  with a accepted(2) show ?case
    by (simp add: run_inv_def pending_inv_def same_tables_def)
next
  case (handshaken u n)
  let ?s = "finishPending (ru_server u)"
  have "tables_inv ?s" "groups_inv (u\<lparr>ru_server := ?s, ru_handshakes := n\<rparr>)"
    using handshaken tables_inv_same [of "ru_server u" ?s] groups_inv_ghost [of u ?s n]
    by (auto simp: run_inv_def finishPending_def same_tables_def)
  with handshaken show ?case
    by (simp add: run_inv_def pending_inv_def finishPending_def)
next
  case (admit sha256 hello prin secret random_id p op gp u r s)
  then show ?case
    using admit_inv [OF _ admit(1-4)] admit_tables [OF admit(1)] admit_keeps [OF admit(1)]
    by (intro run_invI [OF admit(5)]) (simp_all add: run_inv_def)
next
  case (arm_expiry u p now t)
  then show ?case
    using on_session_quiet [OF tame_updates(1), of "ru_server u" p now t]
    by (intro run_invI [OF arm_expiry]) (simp_all add: run_inv_def on_session_tables groups_inv_quiet_server quiet_keeps)
next
  case (resume now sha256 hello res prin op u r s)
  then show ?case
    using resumeConnection_quiet [OF resume(1)] resumeConnection_tables [OF resume(1)]
    by (intro run_invI [OF resume(2)]) (simp_all add: run_inv_def groups_inv_quiet_server quiet_keeps)
next
  case (finished u now p operations)
  then show ?case
    using finishConnection_inv [of u now p operations]
    by (intro run_invI [OF finished]) (simp_all add: run_inv_def finishConnection_tables)
next
  case (refresh now message p u m s)
  then show ?case
    using handleRefresh_quiet [OF refresh(1)] handleRefresh_tables [OF refresh(1)]
    by (intro run_invI [OF refresh(2)]) (simp_all add: run_inv_def groups_inv_quiet_server quiet_keeps)
next
  case (closed code u p)
  then show ?case
    using on_session_quiet [OF tame_updates(3), of "ru_server u" p code]
    by (intro run_invI [OF closed(2)]) (simp_all add: run_inv_def on_session_tables groups_inv_quiet_server quiet_keeps)
next
  case (removed u p r now)
  then show ?case
    using removeSession_inv [of u p now]
    by (intro run_invI [OF removed(3)]) (simp_all add: run_inv_def removeSession_tables removeSession_keeps)
next
  case (terminals u now)
  then show ?case
    using expireTerminals_quiet [of "ru_server u" now]
    by (intro run_invI [OF terminals]) (simp_all add: run_inv_def expireTerminals_tables groups_inv_quiet_server quiet_keeps)
next
  case (drain hasDeadline u r s)
  then have "same_tables (ru_server u) s" "quiet (ru_server u) s"
    by (auto simp: drain_begin_def same_tables_def quiet_def alive_def split: if_splits)
  with drain show ?case
    by (intro run_invI [OF drain(2)]) (auto simp: run_inv_def groups_inv_quiet_server quiet_keeps intro: tables_inv_same)
next
  case (close_begin g gp u state s)
  have "keeps (ru_server u) s"
    using close_begin_cases [OF close_begin(1)] by (auto simp: keeps_def)
  with close_begin close_begin_inv [of u g gp state s] close_begin_tables [of g gp "ru_server u" state s] show ?case
    by (intro run_invI [OF close_begin(3)]) (simp_all add: run_inv_def)
next
  case (close_next g gp p ps u now)
  then show ?case
    using close_next_inv [of u g gp p ps now]
    by (intro run_invI [OF close_next(2)]) (simp_all add: run_inv_def closeSession_tables closeSession_keeps)
next
  case (close_failed g gp u)
  then show ?case
    using groups_inv_quiet [of u "ru_server u" "ru_closers u - {#(g, gp, [])#}"]
    by (intro run_invI [OF close_failed(2)]) (simp_all add: run_inv_def keeps_def in_diffD del: split_paired_All)
next
  case (close_committed g gp u now)
  then show ?case
    using retain_inv [of u g gp now]
    by (intro run_invI [OF close_committed(2)])
      (simp_all add: run_inv_def retain_tables, simp add: keeps_def retainClosedGroup_def Let_def split: option.splits)
next
  case (expired u g gp)
  then show ?case
    using group_expires_inv [of u g gp]
    by (intro run_invI [OF expired])
      (simp_all add: run_inv_def group_expires_tables, simp add: keeps_def group_expires_def split: option.splits)
qed

definition start :: "('a, 'h) serverEndpoint \<Rightarrow> ('a, 'h) run" where
  "start s = \<lparr>ru_server = s, ru_used = {}, ru_closers = {#}, ru_handshakes = 0\<rparr>"

lemma NewServer_fields:
  assumes "NewServer config random = Some (Inr s)"
  shows "normalizeLimits (sc_Limits config) = Inr (sv_limits s)" "sv_sessions s = []" "sv_groups s = []" "sv_terminals s = []"
    "sv_heap s = Map.empty" "sv_pending s = 0"
  using assms by (auto simp: NewServer_def Let_def bind_eq_Some_conv split: sum.splits if_splits option.splits)

lemma start_inv:
  assumes "NewServer config random = Some (Inr s)"
  shows "run_inv (start s)"
proof -
  note f = NewServer_fields [OF assms]
  from normalizeLimits_positive(1) [OF f(1)] have
    "0 < MaxSessions (sv_limits s)" "0 < MaxActiveGroups (sv_limits s)" "0 < MaxPendingHandshakes (sv_limits s)"
    by (auto simp: limit_ints_def)
  then show ?thesis
    using capacity_pos [of s] f(2-)
    by (auto simp: run_inv_def start_def tables_inv_def groups_inv_def pending_inv_def pointers_inv_def listed_inv_def alive_def)
qed

lemma run_steps_inv: "run_step\<^sup>*\<^sup>* u v \<Longrightarrow> run_inv u \<Longrightarrow> run_inv v"
  by (induction rule: rtranclp_induct) (auto intro: run_step_inv)

section \<open>Properties\<close>

text \<open>
  C8. The tables of a server are bounded in every state that any interleaving of handshakes, resumptions,
  closings, timers, \<open>CloseGroup\<close> and \<open>Drain\<close> reaches: sessions, groups and remembered ended sessions stay within
  their limits, each table has one entry per key, and the number of pending handshakes is the number of
  connections in their handshake and within its limit.
\<close>

theorem server_tables_bounded:
  assumes "NewServer config random = Some (Inr s)" "run_step\<^sup>*\<^sup>* (start s) u"
  shows "distinct (map fst (sv_sessions (ru_server u))) \<and> int (length (sv_sessions (ru_server u))) \<le> MaxSessions (sv_limits (ru_server u))
    \<and> distinct (map fst (sv_groups (ru_server u))) \<and> int (length (sv_groups (ru_server u))) \<le> MaxActiveGroups (sv_limits (ru_server u))
    \<and> distinct (map fst (sv_terminals (ru_server u))) \<and> int (length (sv_terminals (ru_server u))) \<le> 2 * MaxSessions (sv_limits (ru_server u))
    \<and> sv_pending (ru_server u) = int (ru_handshakes u) \<and> sv_pending (ru_server u) \<le> MaxPendingHandshakes (sv_limits (ru_server u))"
proof -
  have inv: "run_inv u"
    using run_steps_inv [OF assms(2) start_inv [OF assms(1)]] .
  moreover have "terminalCacheCapacity (ru_server u) \<le> 2 * MaxSessions (sv_limits (ru_server u))"
    by (simp add: terminalCacheCapacity_def maxInt_def)
  ultimately show ?thesis
    by (auto simp: run_inv_def tables_inv_def pending_inv_def)
qed

definition sample_config :: "unit ServerConfig" where
  "sample_config = \<lparr>sc_Role = GameRole, sc_TLS = Some \<lparr>tls_InsecureSkipVerify = False, tls_Certificates = 1, tls_GetCertificate = False\<rparr>,
     sc_App = \<lparr>ai_ID = ''app'', ai_Version = ''1''\<rparr>,
     sc_Owner = \<lparr>ow_ID = ''o'', ow_Incarnation = replicate 16 0, ow_Endpoint = \<lparr>ep_Address = ''h'', ep_ServerName = ''h''\<rparr>\<rparr>,
     sc_Auth = Some (\<lambda>_. Inr \<lparr>pr_Issuer = ''i'', pr_Subject = ''s'', pr_ExpiresAt = 100, pr_Attributes = None\<rparr>),
     sc_AuthorizeGroup = Some (\<lambda>_ _. None), sc_Admission = None, sc_RequireAdmission = False,
     sc_CommitGroupClose = Some (\<lambda>_ _ _. None), sc_Mode = Handlers, sc_Router = Some NewRouter, sc_Limits = DefaultLimits\<rparr>"

lemma sample_server: "\<exists>s. NewServer sample_config (Inr (replicate 16 1)) = Some (Inr s) \<and> sv_limits s = DefaultLimits
    \<and> sc_CommitGroupClose (sv_config s) \<noteq> None"
proof -
  have "normalizeLimits (sc_Limits sample_config) = Inr DefaultLimits"
    using DefaultLimits_normal by (simp add: sample_config_def)
  moreover have "\<not> invalid_config sample_config"
    by (simp add: invalid_config_def sample_config_def)
  moreover have "NewBudget (GlobalApplicationBytes DefaultLimits) \<noteq> None"
    by (simp add: NewBudget_def DefaultLimits_def)
  ultimately show ?thesis
    by (auto simp: NewServer_def Let_def) (simp_all add: sample_config_def)
qed

lemma sample_run:
  obtains s :: "(unit, unit) serverEndpoint" and u state where
    "NewServer sample_config (Inr (replicate 16 1)) = Some (Inr s)" "run_step (start s) u" "length (sv_groups (ru_server u)) = 1"
    "map_of (sv_groups (ru_server u)) ''g'' = Some state" "(''g'', gs_ptr state, []) \<in># ru_closers u"
proof -
  obtain s :: "(unit, unit) serverEndpoint" where s: "NewServer sample_config (Inr (replicate 16 1)) = Some (Inr s)"
      "sv_limits s = DefaultLimits" "sc_CommitGroupClose (sv_config s) \<noteq> None"
    using sample_server by blast
  obtain state t where opened: "close_group_begin ''g'' 7 s = (Inr state, t)" "length (sv_groups t) = 1"
      "map_of (sv_groups t) ''g'' = Some state" "gs_sessions state = []"
    using s NewServer_fields(3) [OF s(1)] by (auto simp: close_group_begin_def Let_def DefaultLimits_def)
  have "run_step (start s) ((start s)\<lparr>ru_server := t, ru_used := insert 7 (ru_used (start s)),
      ru_closers := add_mset (''g'', gs_ptr state, gs_sessions state) (ru_closers (start s))\<rparr>)"
    using run_step.close_begin [of "''g''" 7 "start s" state t] opened by (simp add: start_def)
  from that [OF s(1) this] opened show thesis
    by simp
qed

theorem server_tables_bounded_witness:
  "\<exists>(s :: (unit, unit) serverEndpoint) u. NewServer sample_config (Inr (replicate 16 1)) = Some (Inr s) \<and> run_step (start s) u
     \<and> length (sv_groups (ru_server u)) = 1 \<and> int (length (sv_groups (ru_server u))) \<le> MaxActiveGroups (sv_limits (ru_server u))"
proof -
  obtain s :: "(unit, unit) serverEndpoint" and u state where
    "NewServer sample_config (Inr (replicate 16 1)) = Some (Inr s)" "run_step (start s) u" "length (sv_groups (ru_server u)) = 1"
    by (rule sample_run)
  with server_tables_bounded [of sample_config _ s u] show ?thesis
    by (meson r_into_rtranclp)
qed

text \<open>
  C3. The fence of a closed group: when a \<open>CloseGroup\<close> has closed the sessions it found and is about to
  commit, and from the commit until the retention timer removes the entry, no session of the group is
  live, no handshake is admitted to the group and no session of the group can be resumed, whatever runs
  concurrently.
\<close>

theorem closed_group_fence:
  assumes "NewServer config random = Some (Inr s)" "run_step\<^sup>*\<^sup>* (start s) u"
    and "map_of (sv_groups (ru_server u)) g = Some state"
    and "(g, gs_ptr state, []) \<in># ru_closers u \<or> gs_persisted state \<and> g \<noteq> []"
  shows "(\<forall>p r. sv_heap (ru_server u) p = Some r \<and> sr_group r = g \<longrightarrow> sr_state r = Closed)
    \<and> (\<forall>sha hello prin secret sid p op gp r s'. he_Group hello = g
          \<and> admit_session sha hello prin secret sid p op gp (ru_server u) = Some (r, s') \<longrightarrow> r \<noteq> None)
    \<and> (\<forall>now hello prin hash op p r. sv_heap (ru_server u) p = Some r \<and> sr_group r = g
          \<longrightarrow> fst (resume_session now hello prin hash op p r (ru_server u)) = Inl (GroupClosed, ''group closed''))"
proof -
  have inv: "pointers_inv u" "listed_inv (ru_server u)" "\<forall>x. x \<in># ru_closers u \<longrightarrow> closer_inv (ru_server u) x"
    using run_steps_inv [OF assms(2) start_inv [OF assms(1)]] by (simp_all add: run_inv_def groups_inv_def del: split_paired_All)
  have g: "gs_closed state \<and> g \<noteq> [] \<and> (\<forall>p. \<not> alive (ru_server u) p g)"
  proof (cases "(g, gs_ptr state, []) \<in># ru_closers u")
    case True
    then have "closer_inv (ru_server u) (g, gs_ptr state, [])"
      using inv(3) by blast
    from closer_invD [OF this assms(3)] show ?thesis
      by simp
  next
    case False
    then show ?thesis
      using assms(3,4) inv(1) listed_invD [OF inv(2), of g] by (auto simp: pointers_inv_def)
  qed
  have "r \<noteq> None" if hello: "he_Group hello = g"
    and a: "admit_session sha hello prin secret sid p op gp (ru_server u) = Some (r, s')" for sha hello prin secret sid p op gp r s'
    using a
  proof (cases rule: admit_session_cases)
    case (admitted t session sid')
    then show ?thesis
      using hello g assms(3) by (auto simp: enter_group_def split: if_splits)
  qed simp
  then show ?thesis
    using g assms(3) by (auto simp: alive_def resume_session_def)
qed

theorem closed_group_fence_witness:
  "\<exists>(s :: (unit, unit) serverEndpoint) u. NewServer sample_config (Inr (replicate 16 1)) = Some (Inr s) \<and> run_step (start s) u
     \<and> (\<forall>sha hello prin secret sid p op gp r s'. he_Group hello = ''g''
          \<and> admit_session sha hello prin secret sid p op gp (ru_server u) = Some (r, s') \<longrightarrow> r \<noteq> None)"
proof -
  obtain s :: "(unit, unit) serverEndpoint" and u state where
    s: "NewServer sample_config (Inr (replicate 16 1)) = Some (Inr s)" "run_step (start s) u"
      "map_of (sv_groups (ru_server u)) ''g'' = Some state" "(''g'', gs_ptr state, []) \<in># ru_closers u"
    by (rule sample_run)
  note fence = closed_group_fence [OF s(1) r_into_rtranclp [of run_step, OF s(2)] s(3) disjI1 [OF s(4)]]
  show ?thesis
    by (intro exI [of _ s] exI [of _ u] conjI s(1,2) conjunct1 [OF conjunct2 [OF fence]])
qed

text \<open>What a resumption must bring, over the state of the server.\<close>

definition may_resume :: "time \<Rightarrow> (bytes \<Rightarrow> bytes) \<Rightarrow> helloMessage \<Rightarrow> resumeMessage \<Rightarrow> Principal \<Rightarrow> ('a, 'h) serverEndpoint \<Rightarrow>
  pointer \<Rightarrow> 'a sessionRecord \<Rightarrow> bool" where
  "may_resume now sha256 hello resume prin s p r \<longleftrightarrow>
     sc_Role (sv_config s) = GameRole \<and> he_Group hello = [] \<and> he_Admission hello = []
     \<and> rm_OwnerID resume = ow_ID (sv_owner s) \<and> rm_Incarnation resume = hex_EncodeToString (ow_Incarnation (sv_owner s))
     \<and> (\<exists>sid secret. parseSessionID (rm_SessionID resume) = Some sid \<and> base64_DecodeString (rm_Secret resume) = Some secret
          \<and> length secret = 32 \<and> map_of (sv_sessions s) sid = Some p \<and> sv_heap s p = Some r \<and> sr_resumeHash r = sha256 secret)
     \<and> (sr_group r \<noteq> [] \<longrightarrow> groupOpen s (sr_group r) \<and> map_of (sv_groups s) (sr_group r) \<noteq> None
          \<and> (\<exists>authorize. sc_AuthorizeGroup (sv_config s) = Some authorize \<and> authorize prin (sr_group r) = None))
     \<and> sr_state r \<noteq> Closed \<and> now < pr_ExpiresAt (sr_principal r)
     \<and> pr_Issuer prin = pr_Issuer (sr_principal r) \<and> pr_Subject prin = pr_Subject (sr_principal r)
     \<and> he_Limits hello = sr_peerLimits r \<and> sr_epoch r \<noteq> - 1"

lemma expired_fields [simp]:
  "sv_config (expireTerminalsLocked now s) = sv_config s" "sv_sessions (expireTerminalsLocked now s) = sv_sessions s"
  "sv_heap (expireTerminalsLocked now s) = sv_heap s" "sv_groups (expireTerminalsLocked now s) = sv_groups s"
  by (simp_all add: expireTerminalsLocked_def scheduleTerminalExpiryLocked_def)

lemma resume_request_Inr:
  "resume_request config owner hello resume = Inr (sid, secret) \<longleftrightarrow>
     sc_Role config = GameRole \<and> he_Group hello = [] \<and> he_Admission hello = []
     \<and> rm_OwnerID resume = ow_ID owner \<and> rm_Incarnation resume = hex_EncodeToString (ow_Incarnation owner)
     \<and> parseSessionID (rm_SessionID resume) = Some sid \<and> base64_DecodeString (rm_Secret resume) = Some secret \<and> length secret = 32"
  by (auto simp: resume_request_def split: option.splits)

lemma resume_session_Inr:
  "fst (resume_session now hello prin hash op p r s) = Inr (e, prev) \<longleftrightarrow>
     (sr_group r \<noteq> [] \<longrightarrow> groupOpen s (sr_group r) \<and> map_of (sv_groups s) (sr_group r) \<noteq> None)
     \<and> sr_state r \<noteq> Closed \<and> now < pr_ExpiresAt (sr_principal r)
     \<and> pr_Issuer prin = pr_Issuer (sr_principal r) \<and> pr_Subject prin = pr_Subject (sr_principal r)
     \<and> he_Limits hello = sr_peerLimits r \<and> sr_resumeHash r = hash \<and> sr_epoch r \<noteq> - 1
     \<and> e = sr_epoch r + 1 \<and> prev = sr_operations r"
  by (auto simp: resume_session_def groupOpen_def Let_def split: option.splits)

text \<open>The successful path of a resumption, forwards and backwards.\<close>

lemma resumeConnection_Inr:
  "resumeConnection now sha256 hello resume prin op s = (Inr (p, e, prev), s') \<longleftrightarrow>
   (\<exists>sid secret r t. resume_request (sv_config s) (sv_owner s) hello resume = Inr (sid, secret)
      \<and> map_of (sv_sessions s) sid = Some p \<and> sv_heap s p = Some r
      \<and> (sr_group r \<noteq> [] \<longrightarrow> (\<exists>authorize. sc_AuthorizeGroup (sv_config s) = Some authorize \<and> authorize prin (sr_group r) = None))
      \<and> resume_session now hello prin (sha256 secret) op p r (expireTerminalsLocked now s) = (Inr (e, prev), t)
      \<and> s' = on_session p (\<lambda>r. armExpiry now r (pr_ExpiresAt prin)) t)"
  by (auto simp: resumeConnection_def lookupSession_def Let_def split: sum.splits option.splits prod.splits if_splits)

lemma may_resume_iff:
  "(\<exists>e prev s'. resumeConnection now sha256 hello resume prin op s = (Inr (p, e, prev), s')) \<longleftrightarrow>
   (\<exists>r. may_resume now sha256 hello resume prin s p r)"
proof
  assume "\<exists>e prev s'. resumeConnection now sha256 hello resume prin op s = (Inr (p, e, prev), s')"
  then obtain e prev sid secret r t where r: "resume_request (sv_config s) (sv_owner s) hello resume = Inr (sid, secret)"
      "map_of (sv_sessions s) sid = Some p" "sv_heap s p = Some r"
      "sr_group r \<noteq> [] \<longrightarrow> (\<exists>authorize. sc_AuthorizeGroup (sv_config s) = Some authorize \<and> authorize prin (sr_group r) = None)"
      "resume_session now hello prin (sha256 secret) op p r (expireTerminalsLocked now s) = (Inr (e, prev), t)"
    unfolding resumeConnection_Inr by blast
  from r(5) have "fst (resume_session now hello prin (sha256 secret) op p r (expireTerminalsLocked now s)) = Inr (e, prev)"
    by simp
  with r show "\<exists>r. may_resume now sha256 hello resume prin s p r"
    unfolding resume_session_Inr resume_request_Inr by (intro exI [of _ r]) (auto simp: may_resume_def groupOpen_def)
next
  assume "\<exists>r. may_resume now sha256 hello resume prin s p r"
  then obtain r sid secret where r: "may_resume now sha256 hello resume prin s p r"
      "resume_request (sv_config s) (sv_owner s) hello resume = Inr (sid, secret)"
      "map_of (sv_sessions s) sid = Some p" "sv_heap s p = Some r" "sr_resumeHash r = sha256 secret"
    unfolding resume_request_Inr by (auto simp: may_resume_def)
  have "fst (resume_session now hello prin (sha256 secret) op p r (expireTerminalsLocked now s)) = Inr (sr_epoch r + 1, sr_operations r)"
    unfolding resume_session_Inr using r(1,5) by (auto simp: may_resume_def groupOpen_def)
  then obtain t where "resume_session now hello prin (sha256 secret) op p r (expireTerminalsLocked now s) = (Inr (sr_epoch r + 1, sr_operations r), t)"
    by (metis prod.collapse)
  then show "\<exists>e prev s'. resumeConnection now sha256 hello resume prin op s = (Inr (p, e, prev), s')"
    unfolding resumeConnection_Inr using r by (auto simp: may_resume_def)
qed

lemma resume_effect:
  assumes "resumeConnection now sha256 hello resume prin op s = (Inr (p, e, prev), s')"
  obtains r where "sv_heap s p = Some r" "e = sr_epoch r + 1" "sr_epoch r < e" "prev = sr_operations r"
    "sv_heap s' = (sv_heap s)(p \<mapsto> r\<lparr>sr_epoch := e, sr_state := Active, sr_principal := prin, sr_operations := Some op,
       sr_graceTimer := None, sr_expiryTimer := Some (fire_time now (pr_ExpiresAt prin - now), AuthExpired)\<rparr>)"
    "sv_sessions s' = sv_sessions s" "sv_groups s' = sv_groups s"
proof -
  from assms obtain secret r t where r: "sv_heap s p = Some r"
      "resume_session now hello prin (sha256 secret) op p r (expireTerminalsLocked now s) = (Inr (e, prev), t)"
      "s' = on_session p (\<lambda>r. armExpiry now r (pr_ExpiresAt prin)) t"
    unfolding resumeConnection_Inr by blast
  from r(2) have ok: "e = sr_epoch r + 1" "prev = sr_operations r" "sr_epoch r \<noteq> - 1"
      "t = (expireTerminalsLocked now s)\<lparr>sv_heap := (sv_heap s)(p \<mapsto> r\<lparr>sr_epoch := sr_epoch r + 1, sr_state := Active,
         sr_principal := prin, sr_operations := Some op, sr_graceTimer := None\<rparr>)\<rparr>"
    by (auto simp: resume_session_def Let_def split: if_splits)
  have "sr_epoch r < e"
    using word_not_max_less [OF ok(3)] ok(1) by simp
  with that r ok show thesis
    by (simp add: on_session_def armExpiry_def)
qed

text \<open>
  C7. Resumption succeeds exactly for a client that names this owner and incarnation and a session of
  its table that has not ended, shows that session's secret and the same authenticated identity before
  the old one expired, keeps its limits, and whose group (if any) is open and still authorized. It then moves
  that session, and nothing else, to the next epoch on the new connection; the connection it had is no
  longer current and can no longer suspend the session.
\<close>

theorem resume_authorized:
  assumes "\<forall>q r. sv_heap s q = Some r \<longrightarrow> sr_operations r \<noteq> Some op"
  shows "((\<exists>e prev s'. resumeConnection now sha256 hello resume prin op s = (Inr (p, e, prev), s'))
      \<longleftrightarrow> (\<exists>r. may_resume now sha256 hello resume prin s p r))
    \<and> (\<forall>e prev s'. resumeConnection now sha256 hello resume prin op s = (Inr (p, e, prev), s') \<longrightarrow>
        (\<exists>r r'. sv_heap s p = Some r \<and> sv_heap s' = (sv_heap s)(p \<mapsto> r') \<and> sv_sessions s' = sv_sessions s \<and> sv_groups s' = sv_groups s
          \<and> e = sr_epoch r + 1 \<and> sr_epoch r < e \<and> prev = sr_operations r
          \<and> sr_state r' = Active \<and> sr_epoch r' = e \<and> sr_operations r' = Some op \<and> sr_principal r' = prin
          \<and> (\<forall>c. prev = Some (co_ptr c) \<longrightarrow> \<not> isCurrent (Some r') (Some c) \<and> suspendIfCurrent r' c = (False, r', c))))"
proof (intro conjI allI impI)
  show "(\<exists>e prev s'. resumeConnection now sha256 hello resume prin op s = (Inr (p, e, prev), s'))
      \<longleftrightarrow> (\<exists>r. may_resume now sha256 hello resume prin s p r)"
    by (rule may_resume_iff)
  fix e prev s'
  assume "resumeConnection now sha256 hello resume prin op s = (Inr (p, e, prev), s')"
  then obtain r where r: "sv_heap s p = Some r" "e = sr_epoch r + 1" "sr_epoch r < e" "prev = sr_operations r"
    "sv_heap s' = (sv_heap s)(p \<mapsto> r\<lparr>sr_epoch := e, sr_state := Active, sr_principal := prin, sr_operations := Some op,
       sr_graceTimer := None, sr_expiryTimer := Some (fire_time now (pr_ExpiresAt prin - now), AuthExpired)\<rparr>)"
    "sv_sessions s' = sv_sessions s" "sv_groups s' = sv_groups s"
    by (rule resume_effect)
  have "prev \<noteq> Some op"
    using assms r(1,4) by auto
  with r show "\<exists>r r'. sv_heap s p = Some r \<and> sv_heap s' = (sv_heap s)(p \<mapsto> r') \<and> sv_sessions s' = sv_sessions s \<and> sv_groups s' = sv_groups s
      \<and> e = sr_epoch r + 1 \<and> sr_epoch r < e \<and> prev = sr_operations r
      \<and> sr_state r' = Active \<and> sr_epoch r' = e \<and> sr_operations r' = Some op \<and> sr_principal r' = prin
      \<and> (\<forall>c. prev = Some (co_ptr c) \<longrightarrow> \<not> isCurrent (Some r') (Some c) \<and> suspendIfCurrent r' c = (False, r', c))"
    by (auto simp: isCurrent_def suspendIfCurrent_def)
qed

text \<open>A server with one session whose secret is thirty-two sevens, under a hash that is the identity.\<close>

definition sample_hello :: helloMessage where
  "sample_hello = \<lparr>he_Op = ''hello'', he_Role = ''game'', he_App = \<lparr>ai_ID = ''app'', ai_Version = ''1''\<rparr>, he_AppID = ''app'',
     he_AppVersion = ''1'', he_Required = [], he_Limits = zeroLimitMessage, he_Credential = \<lparr>cm_Scheme = [], cm_Data = []\<rparr>,
     he_Group = [], he_Admission = [], he_Resume = None\<rparr>"

theorem resume_authorized_witness:
  "\<exists>(s :: (nat, unit) serverEndpoint) e prev s'. resumeConnection 5 (\<lambda>b. b) sample_hello
     \<lparr>rm_SessionID = hex_EncodeToString (replicate 16 2), rm_OwnerID = ow_ID (sv_owner s),
      rm_Incarnation = hex_EncodeToString (ow_Incarnation (sv_owner s)), rm_Secret = base64_EncodeToString (replicate 32 7)\<rparr>
     \<lparr>pr_Issuer = ''i'', pr_Subject = ''s'', pr_ExpiresAt = 99, pr_Attributes = None\<rparr> 8 s = (Inr (1, e, prev), s')"
proof -
  obtain s0 :: "(nat, unit) serverEndpoint" where s0: "NewServer sample_config (Inr (replicate 16 1)) = Some (Inr s0)"
    using sample_server by blast
  have role: "sc_Role (sv_config s0) = GameRole"
    using s0 by (auto simp: NewServer_def Let_def bind_eq_Some_conv sample_config_def split: sum.splits if_splits option.splits)
  define r where "r = sample_session\<lparr>sr_group := [], sr_resumeHash := replicate 32 7, sr_peerLimits := zeroLimitMessage,
    sr_principal := \<lparr>pr_Issuer = ''i'', pr_Subject = ''s'', pr_ExpiresAt = 50, pr_Attributes = None\<rparr>\<rparr>"
  define s where "s = s0\<lparr>sv_heap := [1 \<mapsto> r], sv_sessions := [(replicate 16 2, 1)]\<rparr>"
  let ?resume = "\<lparr>rm_SessionID = hex_EncodeToString (replicate 16 2), rm_OwnerID = ow_ID (sv_owner s),
      rm_Incarnation = hex_EncodeToString (ow_Incarnation (sv_owner s)), rm_Secret = base64_EncodeToString (replicate 32 7)\<rparr>"
  have "may_resume 5 (\<lambda>b. b) sample_hello ?resume \<lparr>pr_Issuer = ''i'', pr_Subject = ''s'', pr_ExpiresAt = 99, pr_Attributes = None\<rparr> s 1 r"
    using role by (simp add: may_resume_def s_def r_def sample_hello_def session_id_roundtrip sample_session_eq)
  moreover have "\<forall>q r. sv_heap s q = Some r \<longrightarrow> sr_operations r \<noteq> Some 8"
    by (simp add: s_def r_def sample_session_eq)
  from conjunct1 [OF resume_authorized [OF this]] calculation have
    "\<exists>e prev s'. resumeConnection 5 (\<lambda>b. b) sample_hello ?resume
       \<lparr>pr_Issuer = ''i'', pr_Subject = ''s'', pr_ExpiresAt = 99, pr_Attributes = None\<rparr> 8 s = (Inr (1, e, prev), s')"
    by blast
  then show ?thesis
    by blast
qed

end
