(* ===== verification/Handshake.thy ===== *)
theory Handshake
  imports Client Server_Safety
begin

text \<open>
  Client and server together: the hello a client writes, what the server's handler makes of it and what the
  client makes of the welcome. The network and the JSON library between them are the assumption that each
  side reads the record the other wrote (\<open>answers\<close>).
\<close>

section \<open>What each side reads\<close>

text \<open>A network on which the server's welcome answers the hello, with datagrams.\<close>

definition answers :: "network \<Rightarrow> helloMessage \<Rightarrow> welcomeMessage \<Rightarrow> bool" where
  "answers nw hello w \<longleftrightarrow>
     nw_resolve nw = None \<and> nw_listen nw = None \<and> nw_dial nw = None \<and> nw_open nw = None \<and> nw_write nw hello = None
     \<and> nw_read nw hello = Inr (''welcome'', Inr w) \<and> nw_datagrams nw"

lemma exchange_answers: "answers nw hello w \<Longrightarrow>
  exchange nw texts hello = \<lparr>at_result = Inr (''welcome'', Inr w), at_close = None, at_packetOpen = True\<rparr>"
  by (cases texts) (simp add: exchange_def answers_def)

text \<open>The server parses the hello the client encoded.\<close>

lemma parse_marshalled:
  assumes "cm_Data (he_Credential h) = base64_EncodeToString d"
  shows "parseHello (Some (MarshalJSON h)) = Some (MarshalJSON h)"
  using assms by (cases h; cases "he_App h"; cases "he_Credential h") (simp add: parseHello_def MarshalJSON_def Let_def)

lemma authenticates:
  assumes h: "he_Credential h = \<lparr>cm_Scheme = cr_Scheme credential, cm_Data = base64_EncodeToString (cr_Data credential)\<rparr>"
      "he_Required h = [''datagrams'']" "he_Role h = roleName (sc_Role config)" "he_App h = sc_App config"
      "int (length (he_Group h)) \<le> MaxGroupKeyBytes limits" "validateLimitMessage (he_Limits h) = None"
    and auth: "the (sc_Auth config) credential = Inr prin" "pr_Issuer prin \<noteq> []" "pr_Subject prin \<noteq> []" "now < pr_ExpiresAt prin"
  shows "authenticate_hello now config limits ''hello'' (Some (MarshalJSON h)) (Some (he_Required (MarshalJSON h))) True = Inr (MarshalJSON h, prin)"
proof -
  have "parseHello (Some (MarshalJSON h)) = Some (MarshalJSON h)"
    using h(1) by (simp add: parse_marshalled)
  moreover have "RequireCapabilities (Some [''datagrams'']) (\<lambda>c. True \<and> c = ''datagrams'') = None"
    by (simp add: RequireCapabilities_def)
  ultimately show ?thesis
    using h auth by (cases credential) (simp add: authenticate_hello_def MarshalJSON_def)
qed

text \<open>A game server with usable limits; a grace below a millisecond would be announced as zero, which clients reject.\<close>

definition serves :: "('a, 'h) serverEndpoint \<Rightarrow> bool" where
  "serves s \<longleftrightarrow> sc_Role (sv_config s) = GameRole \<and> length (ow_Incarnation (sv_owner s)) = 16
     \<and> (\<exists>l. normalizeLimits l = Inr (sv_limits s)) \<and> Millisecond \<le> ResumeGrace (sv_limits s)"

lemma limits_advertised: "normalizeLimits l = Inr m \<Longrightarrow> validateLimitMessage (limitMessageFrom m) = None"
  using normalizeLimits_positive(1) [of l m] by (simp add: validateLimitMessage_def limitMessageFrom_def limit_ints_def)

lemma after_truncation: "now + Millisecond \<le> t \<Longrightarrow> now < UnixMilli t * Millisecond"
  using pos_mod_bound [of Millisecond t] mult_div_mod_eq [of Millisecond t] by (simp add: UnixMilli_def mult.commute)

lemma grace_announced: "serves s \<Longrightarrow> 0 < ResumeGrace (sv_limits s) div Millisecond"
  by (simp add: serves_def pos_imp_zdiv_pos_iff)

lemma welcome_of_valid:
  assumes "serves s" "cnow + Millisecond \<le> pr_ExpiresAt prin" "\<forall>b. secret = Some b \<longrightarrow> length b = 32 \<and> epoch = 1"
  shows "validateClientWelcome (welcome_of s sid epoch prin secret) GameRole (secret = None) cnow = None"
proof -
  have "FormatUint 1 = ''1''"
    by code_simp
  then show ?thesis
    using assms(3) after_truncation [OF assms(2)] grace_announced [OF assms(1)] assms(1)
    by (auto simp: validateClientWelcome_def welcome_of_def serves_def split: option.splits)
qed

section \<open>Agreement\<close>

text \<open>A client's session and the server's session at \<open>p\<close> are two ends of one session, which the client can resume.\<close>

definition agreed :: "(bytes \<Rightarrow> bytes) \<Rightarrow> ('b, 'g) clientEndpoint \<Rightarrow> ('a, 'h) serverEndpoint \<Rightarrow> pointer \<Rightarrow> bool" where
  "agreed sha256 c s p \<longleftrightarrow>
     (\<exists>r secret. sv_heap s p = Some r \<and> map_of (sv_sessions s) (sr_id (ce_session c)) = Some p \<and> length (sr_id (ce_session c)) = 16
       \<and> sr_owner (ce_session c) = sv_owner s \<and> sr_group r = sr_group (ce_session c)
       \<and> pr_Issuer (sr_principal (ce_session c)) = pr_Issuer (sr_principal r)
       \<and> pr_Subject (sr_principal (ce_session c)) = pr_Subject (sr_principal r)
       \<and> sr_peerLimits (ce_session c) = limitMessageFrom (sv_limits s) \<and> sr_peerLimits r = limitMessageFrom (ce_limits c)
       \<and> base64_DecodeString (ce_resumeSecret c) = Some secret \<and> length secret = 32 \<and> sr_resumeHash r = sha256 secret
       \<and> sr_epoch (ce_session c) \<le> sr_epoch r)"

lemma admitted_session:
  assumes "admit_session sha256 hello prin (Inr secret) (Inr sid) p conn gp s = Some (None, t)" "sc_Role (sv_config s) = GameRole"
  obtains r where "sv_heap t p = Some r" "map_of (sv_sessions t) sid = Some p" "sr_group r = he_Group hello" "sr_principal r = prin"
    "sr_peerLimits r = he_Limits hello" "sr_resumeHash r = sha256 secret" "sr_epoch r = 1" "sr_state r = Active" "sr_operations r = Some conn"
    "sv_config t = sv_config s" "sv_owner t = sv_owner s" "sv_limits t = sv_limits s"
proof -
  obtain v where v: "enter_group (he_Group hello) gp s = (None, v)"
    using assms by (auto simp: admit_session_def split: prod.splits option.splits)
  then have same: "sv_config v = sv_config s" "sv_owner v = sv_owner s" "sv_limits v = sv_limits s"
    by (auto simp: enter_group_def split: if_splits option.splits)
  from assms v obtain session where session: "newSessionRecord sid (sv_owner v) (he_Group hello) prin (sv_limits v) False (Some conn) = Some session"
    and t: "t = join_group (he_Group hello) p (signalChanged (v\<lparr>sv_heap := (sv_heap v)(p \<mapsto> session\<lparr>sr_resumeHash := sha256 secret, sr_peerLimits := he_Limits hello\<rparr>),
       sv_sessions := AList.update sid p (sv_sessions v), sv_terminals := AList.delete sid (sv_terminals v)\<rparr>))"
    by (auto simp: admit_session_def Let_def split: if_splits)
  from session have "sr_group session = he_Group hello" "sr_principal session = prin" "sr_epoch session = 1" "sr_state session = Active"
    "sr_operations session = Some conn"
    by (auto simp: newSessionRecord_def split: prod.splits option.splits)
  with same show thesis
    using that [of "session\<lparr>sr_resumeHash := sha256 secret, sr_peerLimits := he_Limits hello\<rparr>"]
    by (simp add: t join_group_def signalChanged_def update_conv' split: option.splits)
qed

section \<open>The client's side of a welcome\<close>

lemma newIncomingQueue_defined: "0 < b \<Longrightarrow> 0 < n \<Longrightarrow> \<exists>q. newIncomingQueue b n app = Some q"
  by (simp add: newIncomingQueue_def NewQueue_def NewBudget_def maxInt_def Let_def)

lemma Dial_answered:
  assumes c: "normalizeLimits (cc_Limits config) = Inr limits" "limits_typed limits" "MessageBytes limits + 32 < 2 ^ 62"
      "\<not> invalid_dial endpoint config limits" "cc_Credentials config = Some (Inr credential)" "cc_Role config = GameRole"
      "cc_ExpectedOwner config \<in> {None, Some (sv_owner s)}"
    and s: "serves s" "length sid = 16" "length secret = 32" "cnow + Millisecond \<le> pr_ExpiresAt prin"
    and nw: "answers nw (client_hello config limits credential) (welcome_of s sid 1 prin (Some secret))"
  obtains c :: "('c, 'g) clientEndpoint" where "Dial cnow nw endpoint config conn = Some \<lparr>at_result = Inr c, at_close = None, at_packetOpen = True\<rparr>"
    "sr_id (ce_session c) = sid" "sr_owner (ce_session c) = sv_owner s" "sr_group (ce_session c) = cc_GroupKey config"
    "sr_principal (ce_session c) = welcome_principal (welcome_of s sid 1 prin (Some secret))" "sr_peerLimits (ce_session c) = limitMessageFrom (sv_limits s)"
    "ce_limits c = limits" "ce_resumeSecret c = base64_EncodeToString secret" "sr_epoch (ce_session c) = 1" "sr_state (ce_session c) = Active"
proof -
  let ?w = "welcome_of s sid 1 prin (Some secret)"
  have owner: "toOwner (we_Owner ?w) = sv_owner s" "we_Limits ?w = limitMessageFrom (sv_limits s)" "we_SessionID ?w = hex_EncodeToString sid"
    "hasCapability (we_Capabilities ?w) ''datagrams''" "om_ID (we_Owner ?w) = ow_ID (sv_owner s)" "we_ResumeSecret ?w = base64_EncodeToString secret"
    using s(1) owner_message_roundtrip [of "sv_owner s"] by (simp_all add: serves_def welcome_of_def hasCapability_def ownerMessage_of_def Let_def)
  have "validateClientWelcome ?w GameRole False cnow = None"
    using welcome_of_valid [OF s(1,4), of "Some secret" 1 sid] s(3) by simp
  moreover have "validateLimitMessage (we_Limits ?w) = None"
    using s(1) owner(2) limits_advertised by (auto simp: serves_def)
  ultimately have checked: "check_welcome cnow nw config (''welcome'', Inr ?w) = \<lparr>at_result = Inr (sid, ?w), at_close = None, at_packetOpen = True\<rparr>"
    using c(6,7) nw owner session_id_roundtrip [OF s(2)] by (auto simp: check_welcome_def answers_def)
  note budgets = normalized_directional [OF c(1-3)] and pos = normalizeLimits_positive [OF c(1)]
  have "0 < QueueBytes limits" "0 < QueueMessages limits"
    using pos(1) by (auto simp: limit_ints_def)
  then obtain q where q: "(if cc_Mode config = Polling
      then map_option Some (newIncomingQueue (QueueBytes limits) (QueueMessages limits) (Some \<lparr>bu_max = GlobalApplicationBytes limits, bu_used = 0, bu_notify = False\<rparr>))
      else Some None) = Some q"
    using newIncomingQueue_defined by (cases "cc_Mode config = Polling") (auto, metis)
  obtain session :: "'c sessionRecord" where session: "newSessionRecord sid (sv_owner s) (cc_GroupKey config) (welcome_principal ?w) limits True (Some conn) = Some session"
      "sr_id session = sid" "sr_owner session = sv_owner s" "sr_group session = cc_GroupKey config" "sr_principal session = welcome_principal ?w"
      "sr_epoch session = 1" "sr_state session = Active"
    using budgets by (simp add: newSessionRecord_def NewBudget_def)
  let ?d = "\<lparr>ce_session = session\<lparr>sr_peerLimits := limitMessageFrom (sv_limits s)\<rparr>, ce_connection = conn, ce_packetOpen = True,
      ce_mode = cc_Mode config, ce_incoming = q, ce_endpoint = endpoint, ce_config = config, ce_limits = limits,
      ce_resumeSecret = base64_EncodeToString secret, ce_resumeGrace = wrap64 (we_ResumeGraceMS ?w * Millisecond),
      ce_applicationBudget = \<lparr>bu_max = GlobalApplicationBytes limits, bu_used = 0, bu_notify = False\<rparr>,
      ce_closed = False, ce_reconnecting = False, ce_closeDone = False\<rparr>"
  have d: "new_client endpoint config limits conn (sid, ?w) = Some ?d"
    using pos(5) owner q session(1) by (simp add: new_client_def NewBudget_def)
  have "Dial cnow nw endpoint config conn = Some \<lparr>at_result = Inr ?d, at_close = None, at_packetOpen = True\<rparr>"
    using c(1,4,5) exchange_answers [OF nw] checked d by (simp add: Dial_def)
  from that [OF this] session show thesis
    by simp
qed

lemma attach_welcomed:
  assumes c: "sr_state (ce_session c) \<noteq> Closed" "\<not> ce_closed c" "sr_epoch (ce_session c) < epoch"
      "sr_owner (ce_session c) = sv_owner s" "sr_peerLimits (ce_session c) = limitMessageFrom (sv_limits s)"
      "pr_Issuer (sr_principal (ce_session c)) = pr_Issuer prin" "pr_Subject (sr_principal (ce_session c)) = pr_Subject prin"
    and s: "serves s" "length (sr_id (ce_session c)) = 16" "cnow + Millisecond \<le> pr_ExpiresAt prin"
  shows "\<exists>d. attachResume cnow (welcome_of s (sr_id (ce_session c)) epoch prin None) conn c = (None, d)
    \<and> ce_session d = (ce_session c)\<lparr>sr_epoch := epoch, sr_state := Active,
        sr_principal := welcome_principal (welcome_of s (sr_id (ce_session c)) epoch prin None), sr_operations := Some conn\<rparr>
    \<and> ce_limits d = ce_limits c \<and> ce_resumeSecret d = ce_resumeSecret c"
proof -
  let ?w = "welcome_of s (sr_id (ce_session c)) epoch prin None"
  have w: "toOwner (we_Owner ?w) = sv_owner s" "we_Limits ?w = limitMessageFrom (sv_limits s)"
    "parseSessionID (we_SessionID ?w) = Some (sr_id (ce_session c))" "ParseUint (we_Epoch ?w) = Some epoch"
    "pr_Issuer (welcome_principal ?w) = pr_Issuer prin" "pr_Subject (welcome_principal ?w) = pr_Subject prin"
    "cnow < pr_ExpiresAt (welcome_principal ?w)"
    using s(1) owner_message_roundtrip [of "sv_owner s"] session_id_roundtrip [OF s(2)] after_truncation [OF s(3)]
    by (simp_all add: serves_def welcome_of_def ownerMessage_of_def welcome_principal_def)
  have "epoch \<noteq> 0"
    using c(3) by auto
  then have "check_attachment cnow ?w c = Inr (welcome_principal ?w, epoch)"
    using c w by (simp add: check_attachment_def Let_def)
  then show ?thesis
    using c(1-3) \<open>epoch \<noteq> 0\<close> by (simp add: attachResume_def attach_session_def attach_client_def replaceConnectionAt_def install_def)
qed

lemma resume_keeps:
  assumes "resumeConnection now sha256 hello resume prin conn s = (Inr (p, e, prev), s')"
  shows "sv_config s' = sv_config s" "sv_owner s' = sv_owner s" "sv_limits s' = sv_limits s"
proof -
  obtain hash r t where t: "resume_session now hello prin hash conn p r (expireTerminalsLocked now s) = (Inr (e, prev), t)"
    "s' = on_session p (\<lambda>r. armExpiry now r (pr_ExpiresAt prin)) t"
    using assms unfolding resumeConnection_Inr by blast
  then show "sv_config s' = sv_config s" "sv_owner s' = sv_owner s" "sv_limits s' = sv_limits s"
    by (auto simp: resume_session_def Let_def expireTerminalsLocked_def scheduleTerminalExpiryLocked_def on_session_def split: if_splits)
qed

lemma openResume_answered:
  assumes "cc_Credentials (ce_config c) = Some (Inr credential)" "cc_Role (ce_config c) = GameRole"
    and "serves s" "cnow + Millisecond \<le> pr_ExpiresAt prin" "answers nw (resume_hello c credential) (welcome_of s sid epoch prin None)"
  shows "at_result (openResume cnow nw c) = Inr (welcome_of s sid epoch prin None)"
proof -
  let ?w = "welcome_of s sid epoch prin None"
  have "we_Resumed ?w" "validateLimitMessage (we_Limits ?w) = None" "hasCapability (we_Capabilities ?w) ''datagrams''"
    using assms(3) limits_advertised by (auto simp: welcome_of_def serves_def hasCapability_def)
  then show ?thesis
    using assms(1,2,5) exchange_answers [OF assms(5)] welcome_of_valid [OF assms(3,4), of None]
    by (simp add: openResume_def check_resumed_def answers_def)
qed

section \<open>A concrete client and server\<close>

definition demo_principal :: Principal where
  "demo_principal = \<lparr>pr_Issuer = ''i'', pr_Subject = ''s'', pr_ExpiresAt = 100 * Second, pr_Attributes = None\<rparr>"

definition demo_credential :: Credential where
  "demo_credential = \<lparr>cr_Scheme = ''jwt'', cr_Data = [1, 2]\<rparr>"

definition demo_server :: "unit sessionRecord option \<Rightarrow> (unit, unit) serverEndpoint" where
  "demo_server session =
     \<lparr>sv_config = sample_config\<lparr>sc_Auth := Some (\<lambda>_. Inr demo_principal)\<rparr>,
      sv_owner = \<lparr>ow_ID = ''o'', ow_Incarnation = replicate 16 1, ow_Endpoint = \<lparr>ep_Address = ''h'', ep_ServerName = ''h''\<rparr>\<rparr>,
      sv_limits = DefaultLimits, sv_heap = (case session of None \<Rightarrow> Map.empty | Some r \<Rightarrow> [1 \<mapsto> r]),
      sv_sessions = (case session of None \<Rightarrow> [] | Some r \<Rightarrow> [(replicate 16 2, 1)]), sv_terminals = [], sv_terminalTTL = 30 * Second,
      sv_terminalTimer = None, sv_pending = 1, sv_groups = [], sv_limiter = newHandshakeLimiter 20 40, sv_groupTTL = 35 * Second,
      sv_draining = False, sv_served = True, sv_applicationBudget = \<lparr>bu_max = 0, bu_used = 0, bu_notify = False\<rparr>, sv_incoming = None,
      sv_changed = False\<rparr>"

definition demo_config :: "unit ClientConfig" where
  "demo_config = \<lparr>cc_Role = GameRole, cc_TLS = Some \<lparr>tls_InsecureSkipVerify = False, tls_Certificates = 0, tls_GetCertificate = False\<rparr>,
     cc_App = \<lparr>ai_ID = ''app'', ai_Version = ''1''\<rparr>, cc_Credentials = Some (Inr demo_credential), cc_ExpectedOwner = None,
     cc_AdmissionTicket = [], cc_GroupKey = [], cc_Mode = Handlers, cc_Router = Some NewRouter, cc_Limits = DefaultLimits,
     cc_DisableReconnect = False\<rparr>"

text \<open>The two ends of a session, as \<open>newSessionRecord\<close> makes them.\<close>

definition demo_session :: "bool \<Rightarrow> pointer \<Rightarrow> unit sessionRecord" where
  "demo_session client conn =
     (the (newSessionRecord (replicate 16 2) (sv_owner (demo_server None)) [] demo_principal DefaultLimits client (Some conn)))
       \<lparr>sr_resumeHash := (if client then replicate 32 0 else replicate 32 7), sr_peerLimits := limitMessageFrom DefaultLimits,
        sr_state := Suspended\<rparr>"

definition demo_client :: "(unit, unit) clientEndpoint" where
  "demo_client = \<lparr>ce_session = demo_session True 4, ce_connection = 4, ce_packetOpen = False, ce_mode = Handlers, ce_incoming = None,
     ce_endpoint = ow_Endpoint (sv_owner (demo_server None)), ce_config = demo_config, ce_limits = DefaultLimits,
     ce_resumeSecret = base64_EncodeToString (replicate 32 7), ce_resumeGrace = 30 * Second,
     ce_applicationBudget = \<lparr>bu_max = 0, bu_used = 0, bu_notify = False\<rparr>, ce_closed = False, ce_reconnecting = True, ce_closeDone = False\<rparr>"

lemma demo_new: "\<exists>r. newSessionRecord sid own [] demo_principal DefaultLimits client conn = Some r \<and> sr_id r = sid \<and> sr_owner r = own
    \<and> sr_group r = [] \<and> sr_principal r = demo_principal \<and> sr_epoch r = 1"
  by (simp add: newSessionRecord_def NewBudget_def directionalBudgetLimits_def DefaultLimits_def wrap64_def
      signed_take_bit_eq_take_bit_minus take_bit_eq_mod)

lemma demo_session_fields: "sr_id (demo_session b n) = replicate 16 2" "sr_owner (demo_session b n) = sv_owner (demo_server None)"
  "sr_group (demo_session b n) = []" "sr_principal (demo_session b n) = demo_principal" "sr_epoch (demo_session b n) = 1"
  using demo_new [where ?'a = unit, of "replicate 16 2" "sv_owner (demo_server None)" b "Some n"] by (auto simp: demo_session_def)

lemma demo_serves: "serves (demo_server session)"
  unfolding serves_def demo_server_def using DefaultLimits_normal by (simp add: sample_config_def) (auto simp: DefaultLimits_def)

lemma demo_typed: "limits_typed DefaultLimits" "MessageBytes DefaultLimits + 32 < 2 ^ 62"
  by (simp_all add: limits_typed_def limit_ints_def limit_durations_def DefaultLimits_def int64_range_def)

lemma demo_agreed: "agreed (\<lambda>b. b) demo_client (demo_server (Some (demo_session False 3))) 1"
  unfolding agreed_def
  by (simp add: demo_server_def [of "Some (demo_session False 3)"] demo_client_def demo_session_fields)
    (simp add: demo_session_def demo_server_def)

section \<open>Properties\<close>

text \<open>
  C2. A first connection, from end to end: when the server authenticates the client's credential, admits it
  and has room, its handler answers the client's hello with a welcome, and the client accepts that welcome. Both
  then hold the same session: identifier, owner, group, identity and epoch 1, each with the limits the other
  announced, and the client has the secret whose hash the server kept. (The grace period is at least a
  millisecond and the credential outlives the client's clock by one.)
\<close>

theorem dial_end_to_end:
  fixes s :: "('a, 'h) serverEndpoint" and config :: "'g ClientConfig"
  assumes client: "normalizeLimits (cc_Limits config) = Inr limits" "limits_typed limits" "MessageBytes limits + 32 < 2 ^ 62"
      "\<not> invalid_dial endpoint config limits" "cc_Credentials config = Some (Inr credential)" "cc_Role config = GameRole"
      "cc_ExpectedOwner config \<in> {None, Some (sv_owner s)}"
    and server: "serves s" "sc_App (sv_config s) = cc_App config" "int (length (cc_GroupKey config)) \<le> MaxGroupKeyBytes (sv_limits s)"
    and auth: "the (sc_Auth (sv_config s)) credential = Inr prin" "pr_Issuer prin \<noteq> []" "pr_Subject prin \<noteq> []" "now < pr_ExpiresAt prin"
    and admission: "authorizeAdmission now (sv_config s) (sv_owner s) (MarshalJSON (client_hello config limits credential)) prin = None"
      "admit_session sha256 (MarshalJSON (client_hello config limits credential)) prin (Inr secret) (Inr sid) p conn gp (finishPending s) = Some (None, t)"
    and "length sid = 16" "length secret = 32" "cnow + Millisecond \<le> pr_ExpiresAt prin"
  shows "\<exists>w s'. handleConnection now sha256 ''hello'' (Some (MarshalJSON (client_hello config limits credential))) True (Inr secret) (Inr sid) p conn gp s
      = Some (Inr w, s')
    \<and> (\<forall>nw conn'. answers nw (client_hello config limits credential) w \<longrightarrow>
        (\<exists>c :: ('b, 'g) clientEndpoint. Dial cnow nw endpoint config conn' = Some \<lparr>at_result = Inr c, at_close = None, at_packetOpen = True\<rparr>
          \<and> agreed sha256 c s' p \<and> sr_id (ce_session c) = sid \<and> sr_state (ce_session c) = Active \<and> sr_epoch (ce_session c) = 1
          \<and> (\<exists>r. sv_heap s' p = Some r \<and> sr_state r = Active \<and> sr_epoch r = 1)))"
proof -
  let ?h = "MarshalJSON (client_hello config limits credential)"
  have h: "he_Group ?h = cc_GroupKey config" "he_Resume ?h = None" "he_Limits ?h = limitMessageFrom limits" "he_Required ?h = [''datagrams'']"
    using client(6) by (simp_all add: MarshalJSON_def client_hello_def)
  have fin: "sv_config (finishPending s) = sv_config s" "sv_owner (finishPending s) = sv_owner s" "sv_limits (finishPending s) = sv_limits s"
    by (simp_all add: finishPending_def)
  have game: "sc_Role (sv_config s) = GameRole"
    using server(1) by (simp add: serves_def)
  have hello: "authenticate_hello now (sv_config s) (sv_limits s) ''hello'' (Some ?h) (Some (he_Required ?h)) True = Inr (?h, prin)"
    using client(6) game server(2,3) auth limits_advertised [OF client(1)] by (intro authenticates) (simp_all add: client_hello_def)
  from admission(2) game obtain r where r: "sv_heap t p = Some r" "map_of (sv_sessions t) sid = Some p" "sr_group r = cc_GroupKey config"
      "sr_principal r = prin" "sr_peerLimits r = limitMessageFrom limits" "sr_resumeHash r = sha256 secret" "sr_epoch r = 1" "sr_state r = Active"
      "sv_config t = sv_config s" "sv_owner t = sv_owner s" "sv_limits t = sv_limits s"
    by (elim admitted_session) (simp_all add: h fin)
  let ?t = "on_session p (\<lambda>r. armExpiry now r (pr_ExpiresAt prin)) t"
  have t: "sv_heap ?t p = Some (armExpiry now r (pr_ExpiresAt prin))" "sv_sessions ?t = sv_sessions t" "sv_owner ?t = sv_owner s" "sv_limits ?t = sv_limits s"
    using r by (simp_all add: on_session_def)
  have "handleConnection now sha256 ''hello'' (Some ?h) True (Inr secret) (Inr sid) p conn gp s
      = Some (Inr (welcome_of t sid 1 prin (Some secret)), ?t)"
    using hello admission h fin game r(9) by (simp add: handleConnection_def Let_def)
  moreover have "welcome_of t sid 1 prin (Some secret) = welcome_of s sid 1 prin (Some secret)"
    using r(9-11) by (simp add: welcome_of_def Let_def)
  moreover have "\<exists>c :: ('b, 'g) clientEndpoint. Dial cnow nw endpoint config conn' = Some \<lparr>at_result = Inr c, at_close = None, at_packetOpen = True\<rparr>
      \<and> agreed sha256 c ?t p \<and> sr_id (ce_session c) = sid \<and> sr_state (ce_session c) = Active \<and> sr_epoch (ce_session c) = 1
      \<and> (\<exists>r. sv_heap ?t p = Some r \<and> sr_state r = Active \<and> sr_epoch r = 1)"
    if nw: "answers nw (client_hello config limits credential) (welcome_of s sid 1 prin (Some secret))" for nw conn'
  proof -
    obtain c :: "('b, 'g) clientEndpoint" where c: "Dial cnow nw endpoint config conn' = Some \<lparr>at_result = Inr c, at_close = None, at_packetOpen = True\<rparr>"
        "sr_id (ce_session c) = sid" "sr_owner (ce_session c) = sv_owner s" "sr_group (ce_session c) = cc_GroupKey config"
        "sr_principal (ce_session c) = welcome_principal (welcome_of s sid 1 prin (Some secret))" "sr_peerLimits (ce_session c) = limitMessageFrom (sv_limits s)"
        "ce_limits c = limits" "ce_resumeSecret c = base64_EncodeToString secret" "sr_epoch (ce_session c) = 1" "sr_state (ce_session c) = Active"
      by (rule Dial_answered [OF client server(1) assms(17-19) nw])
    have "agreed sha256 c ?t p"
      using c r t assms(17,18) by (simp add: agreed_def armExpiry_def welcome_principal_def welcome_of_def Let_def)
    with c t r show ?thesis
      by (intro exI [of _ c]) (simp add: armExpiry_def)
  qed
  ultimately show ?thesis
    by auto
qed

theorem dial_end_to_end_witness:
  "\<exists>w s'. handleConnection 0 (\<lambda>b. b) ''hello'' (Some (MarshalJSON (client_hello demo_config DefaultLimits demo_credential))) True
      (Inr (replicate 32 7)) (Inr (replicate 16 2)) 1 3 5 (demo_server None) = Some (Inr w, s')
    \<and> (\<forall>nw. answers nw (client_hello demo_config DefaultLimits demo_credential) w \<longrightarrow>
        (\<exists>c :: (unit, unit) clientEndpoint. Dial 0 nw (ow_Endpoint (sv_owner (demo_server None))) demo_config 4
           = Some \<lparr>at_result = Inr c, at_close = None, at_packetOpen = True\<rparr> \<and> agreed (\<lambda>b. b) c s' 1))"
proof -
  let ?h = "MarshalJSON (client_hello demo_config DefaultLimits demo_credential)"
  have h: "he_Group ?h = []" "he_Limits ?h = limitMessageFrom DefaultLimits"
    by (simp_all add: MarshalJSON_def client_hello_def demo_config_def)
  have admission: "authorizeAdmission 0 (sv_config (demo_server None)) (sv_owner (demo_server None)) ?h demo_principal = None"
    using h by (simp add: authorizeAdmission_def demo_server_def sample_config_def)
  have "\<exists>t. admit_session (\<lambda>b. b) ?h demo_principal (Inr (replicate 32 7)) (Inr (replicate 16 2)) 1 3 5 (finishPending (demo_server None)) = Some (None, t)"
    using h demo_new [where ?'a = unit, of "replicate 16 2" "sv_owner (demo_server None)" False "Some 3"]
    by (auto simp: admit_session_def enter_group_def finishPending_def demo_server_def sample_config_def DefaultLimits_def Let_def)
  then obtain t where t: "admit_session (\<lambda>b. b) ?h demo_principal (Inr (replicate 32 7)) (Inr (replicate 16 2)) 1 3 5 (finishPending (demo_server None)) = Some (None, t)"
    by blast
  have c: "normalizeLimits (cc_Limits demo_config) = Inr DefaultLimits" "\<not> invalid_dial (ow_Endpoint (sv_owner (demo_server None))) demo_config DefaultLimits"
    "cc_Credentials demo_config = Some (Inr demo_credential)" "cc_Role demo_config = GameRole" "cc_ExpectedOwner demo_config \<in> {None, Some (sv_owner (demo_server None))}"
    using DefaultLimits_normal by (simp_all add: demo_config_def invalid_dial_def demo_server_def) (simp add: DefaultLimits_def)
  have s: "sc_App (sv_config (demo_server None)) = cc_App demo_config" "int (length (cc_GroupKey demo_config)) \<le> MaxGroupKeyBytes (sv_limits (demo_server None))"
    "the (sc_Auth (sv_config (demo_server None))) demo_credential = Inr demo_principal" "pr_Issuer demo_principal \<noteq> []" "pr_Subject demo_principal \<noteq> []"
    "0 < pr_ExpiresAt demo_principal" "0 + Millisecond \<le> pr_ExpiresAt demo_principal"
    by (simp_all add: demo_server_def sample_config_def demo_config_def demo_principal_def DefaultLimits_def)
  show ?thesis
    using dial_end_to_end [where ?'b = unit, OF c(1) demo_typed c(2-5) demo_serves s(1-6) admission t _ _ s(7)] by (simp del: One_nat_def) blast
qed

text \<open>
  C1. A resumption, from end to end: a client that lost its connection and whose session at the server has
  not ended resumes it, when its credential still proves the same identity and its group, if any, is open and
  still authorized: the server's handler answers the client's hello with a welcome, and the client attaches the new
  connection. Both ends are then active at the same, larger epoch, and agree as before.
\<close>

theorem resume_end_to_end:
  fixes c :: "('b, 'g) clientEndpoint" and s :: "('a, 'h) serverEndpoint"
  assumes sessions: "agreed sha256 c s p" "sv_heap s p = Some r"
    and client: "sr_state (ce_session c) \<noteq> Closed" "\<not> ce_closed c" "cc_Credentials (ce_config c) = Some (Inr credential)"
      "cc_Role (ce_config c) = GameRole" "normalizeLimits l = Inr (ce_limits c)"
    and server: "serves s" "sc_App (sv_config s) = cc_App (ce_config c)" "sr_state r \<noteq> Closed" "now < pr_ExpiresAt (sr_principal r)" "sr_epoch r \<noteq> - 1"
      "sr_group r \<noteq> [] \<longrightarrow> groupOpen s (sr_group r) \<and> map_of (sv_groups s) (sr_group r) \<noteq> None
         \<and> (\<exists>authorize. sc_AuthorizeGroup (sv_config s) = Some authorize \<and> authorize prin (sr_group r) = None)"
    and auth: "the (sc_Auth (sv_config s)) credential = Inr prin" "pr_Issuer prin = pr_Issuer (sr_principal r)"
      "pr_Subject prin = pr_Subject (sr_principal r)" "pr_Issuer prin \<noteq> []" "pr_Subject prin \<noteq> []" "now < pr_ExpiresAt prin"
    and clock: "cnow + Millisecond \<le> pr_ExpiresAt prin"
  shows "\<exists>w s' r'. handleConnection now sha256 ''hello'' (Some (MarshalJSON (resume_hello c credential))) True secret random_id q conn gp s = Some (Inr w, s')
    \<and> sv_heap s' p = Some r' \<and> sr_state r' = Active \<and> sr_operations r' = Some conn \<and> sr_epoch r' = sr_epoch r + 1 \<and> sr_epoch r < sr_epoch r'
    \<and> (\<forall>nw conn'. answers nw (resume_hello c credential) w \<longrightarrow>
        at_result (openResume cnow nw c) = Inr w
        \<and> (\<exists>d. attachResume cnow w conn' c = (None, d) \<and> agreed sha256 d s' p
             \<and> sr_state (ce_session d) = Active \<and> sr_operations (ce_session d) = Some conn' \<and> sr_epoch (ce_session d) = sr_epoch r'))"
proof -
  let ?h = "MarshalJSON (resume_hello c credential)" and ?s = "finishPending s" and ?sid = "sr_id (ce_session c)"
  define resume where "resume = the (he_Resume ?h)"
  have resume: "he_Resume ?h = Some resume" "rm_SessionID resume = hex_EncodeToString ?sid"
      "rm_OwnerID resume = ow_ID (sr_owner (ce_session c))" "rm_Incarnation resume = hex_EncodeToString (ow_Incarnation (sr_owner (ce_session c)))"
      "rm_Secret resume = ce_resumeSecret c"
    by (simp_all add: resume_def MarshalJSON_def resume_hello_def Let_def)
  have h: "he_Group ?h = []" "he_Admission ?h = []" "he_Limits ?h = limitMessageFrom (ce_limits c)"
    by (simp_all add: MarshalJSON_def resume_hello_def Let_def)
  have "0 < MaxGroupKeyBytes (sv_limits s)"
    using server(1) normalizeLimits_positive(1) by (force simp: serves_def limit_ints_def)
  then have hello: "authenticate_hello now (sv_config s) (sv_limits s) ''hello'' (Some ?h) (Some (he_Required ?h)) True = Inr (?h, prin)"
    using client(4) server(1,2) auth limits_advertised [OF client(5)]
    by (intro authenticates) (simp_all add: resume_hello_def serves_def Let_def)
  have may: "may_resume now sha256 ?h resume prin ?s p r"
    using sessions server auth h resume session_id_roundtrip [of ?sid]
    by (auto simp: may_resume_def agreed_def serves_def finishPending_def groupOpen_def)
  then obtain e prev s' where r': "resumeConnection now sha256 ?h resume prin conn ?s = (Inr (p, e, prev), s')"
    using may_resume_iff by metis
  from this sessions(2) have s': "e = sr_epoch r + 1" "sr_epoch r < e" "sv_sessions s' = sv_sessions s"
    and heap: "sv_heap s' p = Some (r\<lparr>sr_epoch := e, sr_state := Active, sr_principal := prin, sr_operations := Some conn,
       sr_graceTimer := None, sr_expiryTimer := Some (fire_time now (pr_ExpiresAt prin - now), AuthExpired)\<rparr>)"
    by (auto elim!: resume_effect simp: finishPending_def)
  have same: "sv_config s' = sv_config s" "sv_owner s' = sv_owner s" "sv_limits s' = sv_limits s"
    using resume_keeps [OF r'] by (simp_all add: finishPending_def)
  have len: "length ?sid = 16"
    using sessions(1) by (auto simp: agreed_def)
  then have handled: "handleConnection now sha256 ''hello'' (Some ?h) True secret random_id q conn gp s = Some (Inr (welcome_of s' ?sid e prin None), s')"
    using hello resume r' session_id_roundtrip [of ?sid] by (simp add: handleConnection_def Let_def)
  have w: "welcome_of s' ?sid e prin None = welcome_of s ?sid e prin None"
    using same by (simp add: welcome_of_def Let_def)
  have "at_result (openResume cnow nw c) = Inr (welcome_of s ?sid e prin None)
      \<and> (\<exists>d. attachResume cnow (welcome_of s ?sid e prin None) conn' c = (None, d) \<and> agreed sha256 d s' p
             \<and> sr_state (ce_session d) = Active \<and> sr_operations (ce_session d) = Some conn' \<and> sr_epoch (ce_session d) = e)"
    if nw: "answers nw (resume_hello c credential) (welcome_of s ?sid e prin None)" for nw conn'
  proof
    show "at_result (openResume cnow nw c) = Inr (welcome_of s ?sid e prin None)"
      by (rule openResume_answered [OF client(3,4) server(1) clock nw])
    have "\<exists>d. attachResume cnow (welcome_of s ?sid e prin None) conn' c = (None, d)
      \<and> ce_session d = (ce_session c)\<lparr>sr_epoch := e, sr_state := Active, sr_principal := welcome_principal (welcome_of s ?sid e prin None),
          sr_operations := Some conn'\<rparr> \<and> ce_limits d = ce_limits c \<and> ce_resumeSecret d = ce_resumeSecret c"
      using sessions auth(2,3) s'(2) by (intro attach_welcomed client(1,2) server(1) len clock) (auto simp: agreed_def)
    with sessions heap s' same show "\<exists>d. attachResume cnow (welcome_of s ?sid e prin None) conn' c = (None, d) \<and> agreed sha256 d s' p
             \<and> sr_state (ce_session d) = Active \<and> sr_operations (ce_session d) = Some conn' \<and> sr_epoch (ce_session d) = e"
      by (auto simp: agreed_def welcome_principal_def welcome_of_def Let_def)
  qed
  with handled heap s' w show ?thesis
    by auto
qed

theorem resume_end_to_end_witness:
  "\<exists>w s' r'. handleConnection 0 (\<lambda>b. b) ''hello'' (Some (MarshalJSON (resume_hello demo_client demo_credential))) True (Inr []) (Inr []) 2 6 7
      (demo_server (Some (demo_session False 3))) = Some (Inr w, s')
    \<and> sv_heap s' 1 = Some r' \<and> sr_state r' = Active \<and> sr_operations r' = Some 6
    \<and> (\<forall>nw. answers nw (resume_hello demo_client demo_credential) w \<longrightarrow>
        (\<exists>d. attachResume 0 w 8 demo_client = (None, d) \<and> agreed (\<lambda>b. b) d s' 1 \<and> sr_epoch (ce_session d) = sr_epoch r'))"
proof -
  let ?s = "demo_server (Some (demo_session False 3))"
  have c: "sv_heap ?s 1 = Some (demo_session False 3)" "sr_state (ce_session demo_client) \<noteq> Closed" "\<not> ce_closed demo_client"
    "cc_Credentials (ce_config demo_client) = Some (Inr demo_credential)" "cc_Role (ce_config demo_client) = GameRole"
    "normalizeLimits DefaultLimits = Inr (ce_limits demo_client)"
    using DefaultLimits_normal by (simp_all add: demo_server_def demo_client_def demo_config_def demo_session_def)
  have s: "sc_App (sv_config ?s) = cc_App (ce_config demo_client)" "sr_state (demo_session False 3) \<noteq> Closed"
    "0 < pr_ExpiresAt (sr_principal (demo_session False 3))" "sr_epoch (demo_session False 3) \<noteq> - 1"
    "the (sc_Auth (sv_config ?s)) demo_credential = Inr demo_principal" "pr_Issuer demo_principal \<noteq> []" "pr_Subject demo_principal \<noteq> []"
    "0 < pr_ExpiresAt demo_principal" "0 + Millisecond \<le> pr_ExpiresAt demo_principal"
    by (simp_all add: demo_session_fields) (simp_all add: demo_principal_def demo_server_def demo_client_def demo_config_def sample_config_def demo_session_def)
  have g: "sr_group (demo_session False 3) \<noteq> [] \<longrightarrow> groupOpen ?s (sr_group (demo_session False 3)) \<and> map_of (sv_groups ?s) (sr_group (demo_session False 3)) \<noteq> None
      \<and> (\<exists>authorize. sc_AuthorizeGroup (sv_config ?s) = Some authorize \<and> authorize demo_principal (sr_group (demo_session False 3)) = None)"
    by (simp add: demo_session_fields)
  have p: "pr_Issuer demo_principal = pr_Issuer (sr_principal (demo_session False 3))" "pr_Subject demo_principal = pr_Subject (sr_principal (demo_session False 3))"
    by (simp_all add: demo_session_fields)
  obtain w s' r' where w: "handleConnection 0 (\<lambda>b. b) ''hello'' (Some (MarshalJSON (resume_hello demo_client demo_credential))) True (Inr []) (Inr []) 2 6 7 ?s = Some (Inr w, s')"
      "sv_heap s' 1 = Some r'" "sr_state r' = Active" "sr_operations r' = Some 6"
      "\<And>nw. answers nw (resume_hello demo_client demo_credential) w \<Longrightarrow>
        \<exists>d. attachResume 0 w 8 demo_client = (None, d) \<and> agreed (\<lambda>b. b) d s' 1 \<and> sr_epoch (ce_session d) = sr_epoch r'"
    using resume_end_to_end [OF demo_agreed c demo_serves s(1-4) g s(5) p s(6-9), of "Inr []" "Inr []" 2 6 7] by blast
  then show ?thesis
    by blast
qed

end
