(* ===== verification/Json.thy ===== *)
theory Json
  imports Requests Encodings
begin

text \<open>
  What the control frames use of Go's \<open>encoding/json\<close>: the tree a text stands for (\<open>Unmarshal\<close>), the tokens a
  \<open>Decoder\<close> returns one by one (\<open>Token\<close>, \<open>More\<close>), and the text of a tree (\<open>Marshal\<close>). A text is first cut into
  lexemes. Texts are byte strings; they are read after \<open>utf8.Valid\<close> accepted them, so the bytes of a string literal
  above \<open>0x7F\<close> stand for themselves. The last section shows that both readers invert the writer.
\<close>

section \<open>Values\<close>

text \<open>Numbers keep their text, objects the order of their members.\<close>

datatype json = JNull | JBool bool | JNum string | JStr string | JArr "json list" | JObj "(string \<times> json) list"

section \<open>Reading string and number literals\<close>

abbreviation code :: "char \<Rightarrow> nat" where
  "code c \<equiv> of_char c"

text \<open>\<open>utf8.EncodeRune\<close> and the pairs of \<open>utf16\<close>.\<close>

definition EncodeRune :: "nat \<Rightarrow> string" where
  "EncodeRune r =
     map char_of
       (if r < 0x80 then [r]
        else if r < 0x800 then [0xC0 + r div 64, 0x80 + r mod 64]
        else if r < 0x10000 then [0xE0 + r div 4096, 0x80 + r div 64 mod 64, 0x80 + r mod 64]
        else [0xF0 + r div 262144, 0x80 + r div 4096 mod 64, 0x80 + r div 64 mod 64, 0x80 + r mod 64])"

definition IsSurrogate :: "nat \<Rightarrow> bool" where
  "IsSurrogate r \<longleftrightarrow> 0xD800 \<le> r \<and> r < 0xE000"

definition DecodeRune_pair :: "nat \<Rightarrow> nat \<Rightarrow> nat option" where
  "DecodeRune_pair r1 r2 =
     (if 0xD800 \<le> r1 \<and> r1 < 0xDC00 \<and> 0xDC00 \<le> r2 \<and> r2 < 0xE000 then Some ((r1 - 0xD800) * 1024 + (r2 - 0xDC00) + 0x10000) else None)"

definition ReplacementChar :: nat where
  "ReplacementChar = 0xFFFD"

text \<open>\<open>getu4\<close>: the value of a \<open>\u\<close> escape at the head of a text.\<close>

fun getu4 :: "string \<Rightarrow> (nat \<times> string) option" where
  "getu4 (x # u # a # b # c # d # rest) =
     (if x = CHR 0x5C \<and> u = CHR ''u''
      then (case (hex_value a, hex_value b, hex_value c, hex_value d) of
              (Some i, Some j, Some k, Some l) \<Rightarrow> Some (4096 * i + 256 * j + 16 * k + l, rest)
            | _ \<Rightarrow> None)
      else None)"
| "getu4 _ = None"

lemma getu4_shrinks: "getu4 s = Some (r, rest) \<Longrightarrow> length rest < length s"
  by (induction s rule: getu4.induct) (auto split: if_splits option.splits)

definition unescape :: "char \<Rightarrow> char option" where
  "unescape c = map_of [(CHR 0x22, CHR 0x22), (CHR 0x5C, CHR 0x5C), (CHR ''/'', CHR ''/''), (CHR ''b'', CHR 0x08), (CHR ''f'', CHR 0x0C),
     (CHR ''n'', CHR 0x0A), (CHR ''r'', CHR 0x0D), (CHR ''t'', CHR 0x09)] c"

definition prepend :: "string \<Rightarrow> (string \<times> string) option \<Rightarrow> (string \<times> string) option" where
  "prepend xs = map_option (apfst ((@) xs))"

text \<open>What an escape at the head of a text stands for, and the text behind it. A \<open>\u\<close> escape of half a pair without
  its other half stands for the replacement character.\<close>

definition escape_value :: "string \<Rightarrow> (string \<times> string) option" where
  "escape_value s =
     (case getu4 s of
        Some (r, rest) \<Rightarrow>
          if IsSurrogate r
          then (case Option.bind (getu4 rest) (\<lambda>(r2, rest2). map_option (\<lambda>q. (q, rest2)) (DecodeRune_pair r r2)) of
                  None \<Rightarrow> Some (EncodeRune ReplacementChar, rest)
                | Some (q, rest2) \<Rightarrow> Some (EncodeRune q, rest2))
          else Some (EncodeRune r, rest)
      | None \<Rightarrow> (case s of x # e # rest \<Rightarrow> map_option (\<lambda>c. ([c], rest)) (unescape e) | _ \<Rightarrow> None))"

lemma escape_value_shrinks: "escape_value s = Some (v, rest) \<Longrightarrow> length rest < length s"
  using getu4_shrinks [of s]
  by (fastforce simp: escape_value_def bind_eq_Some_conv split: option.splits if_splits list.splits dest: getu4_shrinks)

text \<open>The value of a string literal after its opening quote, and the text behind it.\<close>

function scan_string :: "string \<Rightarrow> (string \<times> string) option" where
  "scan_string [] = None"
| "scan_string (c # cs) =
     (if c = CHR 0x22 then Some ([], cs)
      else if c = CHR 0x5C
      then (case escape_value (c # cs) of None \<Rightarrow> None | Some (x, rest) \<Rightarrow> prepend x (scan_string rest))
      else if code c < 0x20 then None
      else prepend [c] (scan_string cs))"
  by pat_completeness auto
termination
  by (relation "measure length") (auto dest!: escape_value_shrinks)

declare scan_string.simps(2) [simp del]

lemma prepend_simps [simp]: "prepend xs None = None" "prepend xs (Some (v, r)) = Some (xs @ v, r)"
  by (simp_all add: prepend_def)

lemma prepend_Some: "prepend xs m = Some (v, r) \<longleftrightarrow> (\<exists>w. m = Some (w, r) \<and> v = xs @ w)"
  by (cases m) auto

lemma scan_string_shrinks: "scan_string s = Some (v, rest) \<Longrightarrow> length rest < length s"
proof (induction s arbitrary: v rest rule: scan_string.induct)
  case (2 c cs)
  consider "c = CHR 0x22" | x rest' where "c \<noteq> CHR 0x22" "c = CHR 0x5C" "escape_value (c # cs) = Some (x, rest')"
      "prepend x (scan_string rest') = Some (v, rest)"
    | "c \<noteq> CHR 0x22" "c \<noteq> CHR 0x5C" "\<not> code c < 0x20" "prepend [c] (scan_string cs) = Some (v, rest)"
    using 2(3) by (auto simp: scan_string.simps(2) [of c] split: if_splits option.splits)
  then show ?case
  proof cases
    case 1
    with 2(3) show ?thesis by (simp add: scan_string.simps(2))
  next
    case (2 x rest')
    then show ?thesis
      using "2.IH"(1) escape_value_shrinks [of "c # cs" x rest'] by (fastforce simp: prepend_Some)
  next
    case 3
    then show ?thesis
      using "2.IH"(2) by (force simp: prepend_Some)
  qed
qed simp

text \<open>A number literal: sign, digits without a leading zero, fraction, exponent.\<close>

definition isdigit :: "char \<Rightarrow> bool" where
  "isdigit c \<longleftrightarrow> 48 \<le> code c \<and> code c \<le> 57"

definition scan_digits :: "string \<Rightarrow> (string \<times> string) option" where
  "scan_digits s = (if takeWhile isdigit s = [] then None else Some (takeWhile isdigit s, dropWhile isdigit s))"

definition scan_integer :: "string \<Rightarrow> (string \<times> string) option" where
  "scan_integer s = (case s of c # cs \<Rightarrow> if c = CHR ''0'' then Some ([c], cs) else scan_digits s | [] \<Rightarrow> None)"

definition scan_fraction :: "string \<Rightarrow> (string \<times> string) option" where
  "scan_fraction s = (case s of c # cs \<Rightarrow> if c = CHR ''.'' then prepend [c] (scan_digits cs) else Some ([], s) | [] \<Rightarrow> Some ([], s))"

definition scan_exponent :: "string \<Rightarrow> (string \<times> string) option" where
  "scan_exponent s =
     (case s of
        c # cs \<Rightarrow>
          if c = CHR ''e'' \<or> c = CHR ''E''
          then (case cs of
                  d # ds \<Rightarrow> if d = CHR ''+'' \<or> d = CHR ''-'' then prepend [c, d] (scan_digits ds) else prepend [c] (scan_digits cs)
                | [] \<Rightarrow> None)
          else Some ([], s)
      | [] \<Rightarrow> Some ([], s))"

definition scan_number :: "string \<Rightarrow> (string \<times> string) option" where
  "scan_number s =
     (let (sign, s) = (case s of c # cs \<Rightarrow> if c = CHR ''-'' then ([c], cs) else ([], s) | [] \<Rightarrow> ([], s)) in
      Option.bind (scan_integer s) (\<lambda>(i, s).
        Option.bind (scan_fraction s) (\<lambda>(f, s).
          Option.bind (scan_exponent s) (\<lambda>(e, s). Some (sign @ i @ f @ e, s)))))"

lemma scan_parts_shrink:
  "scan_digits s = Some (v, rest) \<Longrightarrow> length rest < length s"
  "scan_integer s = Some (v, rest) \<Longrightarrow> length rest < length s"
  "scan_fraction s = Some (v, rest) \<Longrightarrow> length rest \<le> length s"
  "scan_exponent s = Some (v, rest) \<Longrightarrow> length rest \<le> length s"
proof -
  show digits: "length rest < length s" if "scan_digits s = Some (v, rest)" for s v rest
  proof -
    have "takeWhile isdigit s \<noteq> []" "rest = dropWhile isdigit s"
      using that by (auto simp: scan_digits_def split: if_splits)
    then show ?thesis
      by (metis takeWhile_dropWhile_id length_append length_greater_0_conv less_add_same_cancel2)
  qed
  show "scan_integer s = Some (v, rest) \<Longrightarrow> length rest < length s"
    by (auto simp: scan_integer_def split: list.splits if_splits dest: digits)
  show "scan_fraction s = Some (v, rest) \<Longrightarrow> length rest \<le> length s"
    by (auto simp: scan_fraction_def prepend_Some split: list.splits if_splits dest!: digits)
  show "scan_exponent s = Some (v, rest) \<Longrightarrow> length rest \<le> length s"
    by (auto simp: scan_exponent_def prepend_Some split: list.splits if_splits dest!: digits)
qed

lemma scan_number_shrinks: "scan_number s = Some (v, rest) \<Longrightarrow> length rest < length s"
  by (auto simp: scan_number_def bind_eq_Some_conv Let_def split: list.splits if_splits prod.splits dest!: scan_parts_shrink)

section \<open>Lexemes\<close>

text \<open>\<open>Unreadable\<close> ends the lexemes of a text that is not one.\<close>

datatype lexeme = LBrace | RBrace | LBracket | RBracket | Comma | Colon | Text string | Number string | LTrue | LFalse | LNull | Unreadable

definition blank :: "char \<Rightarrow> bool" where
  "blank c \<longleftrightarrow> c \<in> {CHR '' '', CHR 0x09, CHR 0x0A, CHR 0x0D}"

definition scan_literal :: "string \<Rightarrow> (lexeme \<times> string) option" where
  "scan_literal s =
     (if take 4 s = ''true'' then Some (LTrue, drop 4 s)
      else if take 5 s = ''false'' then Some (LFalse, drop 5 s)
      else if take 4 s = ''null'' then Some (LNull, drop 4 s)
      else None)"

definition delimiters :: "(char \<times> lexeme) list" where
  "delimiters = [(CHR ''{'', LBrace), (CHR ''}'', RBrace), (CHR ''['', LBracket), (CHR '']'', RBracket), (CHR '','', Comma), (CHR '':'', Colon)]"

definition lex_one :: "char \<Rightarrow> string \<Rightarrow> (lexeme \<times> string) option" where
  "lex_one c cs =
     (case map_of delimiters c of
        Some l \<Rightarrow> Some (l, cs)
      | None \<Rightarrow>
          if c = CHR 0x22 then map_option (apfst Text) (scan_string cs)
          else if c = CHR ''-'' \<or> isdigit c then map_option (apfst Number) (scan_number (c # cs))
          else scan_literal (c # cs))"

lemma scan_literal_shrinks:
  assumes "scan_literal (c # cs) = Some (l, rest)"
  shows "length rest < Suc (length cs)"
proof -
  have "rest = drop 4 (c # cs) \<or> rest = drop 5 (c # cs)"
    using assms by (simp only: scan_literal_def option.inject prod.inject split: if_splits) simp_all
  then show ?thesis
    by (metis diff_less length_Cons length_drop zero_less_Suc zero_less_numeral)
qed

lemma lex_one_shrinks:
  assumes "lex_one c cs = Some (l, rest)"
  shows "length rest < Suc (length cs)"
proof -
  consider "rest = cs" | v where "scan_string cs = Some (v, rest)" | v where "scan_number (c # cs) = Some (v, rest)"
    | "scan_literal (c # cs) = Some (l, rest)"
    using assms unfolding lex_one_def by (auto split: option.splits if_splits)
  then show ?thesis
  proof cases
    case (2 v)
    then show ?thesis using scan_string_shrinks [of cs v rest] by simp
  next
    case (3 v)
    then show ?thesis using scan_number_shrinks [of "c # cs" v rest] by simp
  qed (simp_all add: scan_literal_shrinks)
qed

function lex :: "string \<Rightarrow> lexeme list" where
  "lex [] = []"
| "lex (c # cs) =
     (if blank c then lex cs
      else (case lex_one c cs of None \<Rightarrow> [Unreadable] | Some (l, rest) \<Rightarrow> l # lex rest))"
  by pat_completeness auto
termination
  by (relation "measure length") (auto dest!: lex_one_shrinks)

declare lex.simps(2) [simp del]

section \<open>The decoder\<close>

text \<open>The states of \<open>Decoder.Token\<close>.\<close>

datatype tokenState = TopValue | AtArrayStart | ArrayValue | ArrayComma | AtObjectStart | ObjectKey | ObjectColon | ObjectValue | ObjectComma

text \<open>What \<open>Token\<close> returns. \<open>BadToken\<close> is its error before the end of the text; its argument says whether \<open>More\<close> was
  true before that call, which it is unless a closing delimiter comes next.\<close>

datatype token = ObjectStart | ObjectEnd | ArrayStart | ArrayEnd | StringToken string | OtherToken | BadToken bool

definition tokenValueAllowed :: "tokenState \<Rightarrow> bool" where
  "tokenValueAllowed st \<longleftrightarrow> st \<in> {TopValue, AtArrayStart, ArrayValue, ObjectValue}"

definition tokenValueEnd :: "tokenState \<Rightarrow> tokenState" where
  "tokenValueEnd st =
     (if st = AtArrayStart \<or> st = ArrayValue then ArrayComma else if st = ObjectValue then ObjectComma else st)"

text \<open>All tokens of a text: the state, the enclosing states, whether a comma was just read, the lexemes left.\<close>

fun tokens :: "tokenState \<Rightarrow> tokenState list \<Rightarrow> bool \<Rightarrow> lexeme list \<Rightarrow> token list" where
  "tokens st stack comma [] = (if comma then [BadToken True] else [])"
| "tokens st stack comma (LBracket # ls) =
     (if tokenValueAllowed st then ArrayStart # tokens AtArrayStart (st # stack) False ls else [BadToken True])"
| "tokens st stack comma (RBracket # ls) =
     (if st = AtArrayStart \<or> st = ArrayComma then ArrayEnd # tokens (tokenValueEnd (hd stack)) (tl stack) False ls else [BadToken comma])"
| "tokens st stack comma (LBrace # ls) =
     (if tokenValueAllowed st then ObjectStart # tokens AtObjectStart (st # stack) False ls else [BadToken True])"
| "tokens st stack comma (RBrace # ls) =
     (if st = AtObjectStart \<or> st = ObjectComma then ObjectEnd # tokens (tokenValueEnd (hd stack)) (tl stack) False ls else [BadToken comma])"
| "tokens st stack comma (Colon # ls) = (if st = ObjectColon then tokens ObjectValue stack True ls else [BadToken True])"
| "tokens st stack comma (Comma # ls) =
     (if st = ArrayComma then tokens ArrayValue stack True ls
      else if st = ObjectComma then tokens ObjectKey stack True ls
      else [BadToken True])"
| "tokens st stack comma (Text s # ls) =
     (if st = AtObjectStart \<or> st = ObjectKey then StringToken s # tokens ObjectColon stack False ls
      else if tokenValueAllowed st then StringToken s # tokens (tokenValueEnd st) stack False ls
      else [BadToken True])"
| "tokens st stack comma (Unreadable # ls) = [BadToken True]"
| "tokens st stack comma (_ # ls) =
     (if tokenValueAllowed st then OtherToken # tokens (tokenValueEnd st) stack False ls else [BadToken True])"

definition decoder_tokens :: "string \<Rightarrow> token list" where
  "decoder_tokens s = tokens TopValue [] False (lex s)"

section \<open>Unmarshal\<close>

function parse_value :: "lexeme list \<Rightarrow> (json \<times> lexeme list) option"
  and parse_elements :: "lexeme list \<Rightarrow> (json list \<times> lexeme list) option"
  and parse_members :: "lexeme list \<Rightarrow> ((string \<times> json) list \<times> lexeme list) option" where
  "parse_value ls =
     (case ls of
        Text s # ls \<Rightarrow> Some (JStr s, ls)
      | Number n # ls \<Rightarrow> Some (JNum n, ls)
      | LTrue # ls \<Rightarrow> Some (JBool True, ls)
      | LFalse # ls \<Rightarrow> Some (JBool False, ls)
      | LNull # ls \<Rightarrow> Some (JNull, ls)
      | LBracket # ls \<Rightarrow> if take 1 ls = [RBracket] then Some (JArr [], tl ls) else map_option (apfst JArr) (parse_elements ls)
      | LBrace # ls \<Rightarrow> if take 1 ls = [RBrace] then Some (JObj [], tl ls) else map_option (apfst JObj) (parse_members ls)
      | _ \<Rightarrow> None)"
| "parse_elements ls =
     (case parse_value ls of
        Some (v, RBracket # rest) \<Rightarrow> Some ([v], rest)
      | Some (v, Comma # rest) \<Rightarrow> map_option (apfst ((#) v)) (parse_elements rest)
      | _ \<Rightarrow> None)"
| "parse_members ls =
     (case ls of
        Text k # Colon # ls \<Rightarrow>
          (case parse_value ls of
             Some (v, RBrace # rest) \<Rightarrow> Some ([(k, v)], rest)
           | Some (v, Comma # rest) \<Rightarrow> map_option (apfst ((#) (k, v))) (parse_members rest)
           | _ \<Rightarrow> None)
      | _ \<Rightarrow> None)"
  by pat_completeness auto

termination
proof -
  have parse_shrinks:
    "parse_value_parse_elements_parse_members_dom (Inl ls) \<Longrightarrow> parse_value ls = Some (v, rest) \<Longrightarrow> length rest < length ls"
    "parse_value_parse_elements_parse_members_dom (Inr (Inl ls)) \<Longrightarrow> parse_elements ls = Some (vs, rest) \<Longrightarrow> length rest < length ls"
    "parse_value_parse_elements_parse_members_dom (Inr (Inr ls)) \<Longrightarrow> parse_members ls = Some (ms, rest) \<Longrightarrow> length rest < length ls"
    for ls v rest vs ms
  proof (induction arbitrary: v rest and vs rest and ms rest rule: parse_value_parse_elements_parse_members.pinduct)
    case (1 ls)
    consider "length rest < length ls" | ls' vs where "ls = LBracket # ls'" "take 1 ls' \<noteq> [RBracket]" "parse_elements ls' = Some (vs, rest)"
      | ls' ms where "ls = LBrace # ls'" "take 1 ls' \<noteq> [RBrace]" "parse_members ls' = Some (ms, rest)"
      using 1(1,4) by (auto simp: parse_value.psimps split: list.splits lexeme.splits if_splits)
    then show ?case
    proof cases
      case (2 ls' vs)
      then show ?thesis using 1(3) [OF 2(1) refl 2(2,3)] by simp
    next
      case (3 ls' ms)
      then show ?thesis using 1(2) [OF 3(1) refl 3(2,3)] by simp
    qed
  next
    case (2 ls)
    obtain v rest' where "parse_value ls = Some (v, rest')"
        "rest' = RBracket # rest \<or> (\<exists>r ws. rest' = Comma # r \<and> parse_elements r = Some (ws, rest))"
      using 2(1,4) by (auto simp: parse_elements.psimps split: option.splits list.splits lexeme.splits)
    then show ?case
      using 2(2) [of v rest'] 2(3) by fastforce
  next
    case (3 ls)
    obtain k ls' v rest' where "ls = Text k # Colon # ls'" "parse_value ls' = Some (v, rest')"
        "rest' = RBrace # rest \<or> (\<exists>r ws. rest' = Comma # r \<and> parse_members r = Some (ws, rest))"
      using 3(1,4) by (auto simp: parse_members.psimps split: option.splits list.splits lexeme.splits)
    then show ?case
      using 3(2) [of _ _ k _ ls' v rest'] 3(3) by fastforce
  qed
  show ?thesis
    by (relation "measure (\<lambda>x. case x of Inl ls \<Rightarrow> 2 * length ls | Inr (Inl ls) \<Rightarrow> 2 * length ls + 1 | Inr (Inr ls) \<Rightarrow> 2 * length ls + 1)")
      (auto dest!: parse_shrinks)
qed

declare parse_value.simps [simp del] parse_elements.simps [simp del] parse_members.simps [simp del]

definition Unmarshal :: "string \<Rightarrow> json option" where
  "Unmarshal s = (case parse_value (lex s) of Some (v, []) \<Rightarrow> Some v | _ \<Rightarrow> None)"

section \<open>Marshal\<close>

text \<open>The length of the UTF-8 encoding at the head of a text; zero when there is none.\<close>

definition cont_char :: "char \<Rightarrow> bool" where
  "cont_char c \<longleftrightarrow> 0x80 \<le> code c \<and> code c \<le> 0xBF"

definition rune_length :: "string \<Rightarrow> nat" where
  "rune_length s =
     (case s of
        [] \<Rightarrow> 0
      | a # bs \<Rightarrow>
          if code a < 0x80 then 1
          else if 0xC2 \<le> code a \<and> code a \<le> 0xDF then (case bs of b # r \<Rightarrow> if cont_char b then 2 else 0 | _ \<Rightarrow> 0)
          else if 0xE0 \<le> code a \<and> code a \<le> 0xEF then
            (case bs of
               b # c # r \<Rightarrow>
                 if cont_char b \<and> (code a = 0xE0 \<longrightarrow> 0xA0 \<le> code b) \<and> (code a = 0xED \<longrightarrow> code b \<le> 0x9F) \<and> cont_char c then 3 else 0
             | _ \<Rightarrow> 0)
          else if 0xF0 \<le> code a \<and> code a \<le> 0xF4 then
            (case bs of
               b # c # d # r \<Rightarrow>
                 if cont_char b \<and> (code a = 0xF0 \<longrightarrow> 0x90 \<le> code b) \<and> (code a = 0xF4 \<longrightarrow> code b \<le> 0x8F) \<and> cont_char c \<and> cont_char d
                 then 4 else 0
             | _ \<Rightarrow> 0)
          else 0)"

text \<open>\<open>appendString\<close> with HTML escaping: control characters, quotes, backslashes, \<open><\<close>, \<open>>\<close>, \<open>&\<close> and the two Unicode line
  separators are escaped, invalid bytes are replaced.\<close>

definition u_escape :: "nat \<Rightarrow> string" where
  "u_escape r = [CHR 0x5C, CHR ''u'', hextable ! (r div 4096 mod 16), hextable ! (r div 256 mod 16), hextable ! (r div 16 mod 16), hextable ! (r mod 16)]"

definition escape_ascii :: "char \<Rightarrow> string" where
  "escape_ascii c =
     (if c = CHR 0x22 \<or> c = CHR 0x5C then [CHR 0x5C, c]
      else if code c \<ge> 0x20 \<and> c \<notin> {CHR ''<'', CHR ''>'', CHR ''&''} then [c]
      else (case map_of [(CHR 0x08, CHR ''b''), (CHR 0x0C, CHR ''f''), (CHR 0x0A, CHR ''n''), (CHR 0x0D, CHR ''r''), (CHR 0x09, CHR ''t'')] c of
              Some e \<Rightarrow> [CHR 0x5C, e]
            | None \<Rightarrow> u_escape (code c)))"

function escape :: "string \<Rightarrow> string" where
  "escape [] = []"
| "escape (c # cs) =
     (let n = rune_length (c # cs) in
      if n = 0 then u_escape ReplacementChar @ escape cs
      else if n = 1 then escape_ascii c @ escape cs
      else if take n (c # cs) = EncodeRune 0x2028 then u_escape 0x2028 @ escape (drop n (c # cs))
      else if take n (c # cs) = EncodeRune 0x2029 then u_escape 0x2029 @ escape (drop n (c # cs))
      else take n (c # cs) @ escape (drop n (c # cs)))"
  by pat_completeness auto
termination
  by (relation "measure length") auto

declare escape.simps(2) [simp del]

definition quote :: "string \<Rightarrow> string" where
  "quote s = CHR 0x22 # escape s @ [CHR 0x22]"

fun join :: "'a \<Rightarrow> 'a list list \<Rightarrow> 'a list" where
  "join x [] = []"
| "join x [ys] = ys"
| "join x (ys # zs # rest) = ys @ x # join x (zs # rest)"

fun Marshal :: "json \<Rightarrow> string" where
  "Marshal JNull = ''null''"
| "Marshal (JBool b) = (if b then ''true'' else ''false'')"
| "Marshal (JNum n) = n"
| "Marshal (JStr s) = quote s"
| "Marshal (JArr vs) = CHR ''['' # join (CHR '','') (map Marshal vs) @ [CHR '']'']"
| "Marshal (JObj ms) = CHR ''{'' # join (CHR '','') (map (\<lambda>(k, v). quote k @ CHR '':'' # Marshal v) ms) @ [CHR ''}'']"

section \<open>Reading what was written\<close>

text \<open>Trees whose texts are valid UTF-8 and whose numbers are decimal naturals.\<close>

definition utf8_string :: "string \<Rightarrow> bool" where
  "utf8_string s \<longleftrightarrow> utf8_valid (string_bytes s)"

definition decimal :: "string \<Rightarrow> bool" where
  "decimal n \<longleftrightarrow> n \<noteq> [] \<and> list_all isdigit n \<and> (hd n = CHR ''0'' \<longrightarrow> n = ''0'')"

fun json_ok :: "json \<Rightarrow> bool" where
  "json_ok (JNum n) = decimal n"
| "json_ok (JStr s) = utf8_string s"
| "json_ok (JArr vs) = list_all json_ok vs"
| "json_ok (JObj ms) = list_all (\<lambda>(k, v). utf8_string k \<and> json_ok v) ms"
| "json_ok _ = True"

lemma unat_of_char [simp]: "unat (word_of_nat (code c) :: byte) = code c"
  using of_char_less [of c] by (simp add: unsigned_of_nat take_bit_nat_eq_self)

lemma byte_compare:
  "word_of_nat (code c) < (b :: byte) \<longleftrightarrow> code c < unat b" "word_of_nat (code c) \<le> b \<longleftrightarrow> code c \<le> unat b"
  "b \<le> word_of_nat (code c) \<longleftrightarrow> unat b \<le> code c" "word_of_nat (code c) = b \<longleftrightarrow> code c = unat b"
  by (simp_all add: word_less_nat_alt word_le_nat_alt word_unat_eq_iff)

lemma cont_of_char: "cont (word_of_nat (code c)) = cont_char c"
  by (simp add: cont_def cont_char_def byte_compare)

lemma utf8_string_Cons:
  "utf8_string (c # cs) \<longleftrightarrow> rune_length (c # cs) \<noteq> 0 \<and> utf8_string (drop (rune_length (c # cs)) (c # cs))"
proof -
  consider "code c < 0x80" | "0xC2 \<le> code c" "code c \<le> 0xDF" | "0xE0 \<le> code c" "code c \<le> 0xEF" | "0xF0 \<le> code c" "code c \<le> 0xF4"
    | "0x80 \<le> code c" "code c < 0xC2" | "0xF4 < code c"
    by linarith
  then show ?thesis
  proof cases
    case 2
    then show ?thesis
      by (cases cs) (simp_all add: utf8_string_def rune_length_def byte_compare cont_of_char)
  next
    case 3
    then show ?thesis
      by (cases cs; cases "tl cs") (simp_all add: utf8_string_def rune_length_def byte_compare cont_of_char, blast)
  next
    case 4
    then show ?thesis
      by (cases cs; cases "tl cs"; cases "tl (tl cs)") (simp_all add: utf8_string_def rune_length_def byte_compare cont_of_char, blast?)
  qed (simp_all add: utf8_string_def rune_length_def byte_compare)
qed

lemma rune_length_facts:
  assumes "rune_length (c # cs) \<noteq> 0"
  shows "rune_length (c # cs) = 1 \<longleftrightarrow> code c < 0x80" "rune_length (c # cs) \<noteq> 1 \<Longrightarrow> \<forall>x \<in> set (take (rune_length (c # cs)) (c # cs)). code x \<ge> 0x80"
  using assms by (auto simp: rune_length_def cont_char_def split: list.splits if_splits)

lemma utf8_string_simps [simp]: "utf8_string []"
  by (simp add: utf8_string_def)

lemma utf8_string_append:
  assumes "utf8_string s"
  shows "utf8_string (s @ t) = utf8_string t"
proof -
  have "length s = n \<Longrightarrow> utf8_string s \<Longrightarrow> utf8_string (s @ t) = utf8_string t" for n
  proof (induction n arbitrary: s rule: less_induct)
    case (less n)
    show ?case
    proof (cases s)
      case (Cons c cs)
      have n: "rune_length (c # cs) \<noteq> 0" "utf8_string (drop (rune_length (c # cs)) (c # cs))"
        using less.prems Cons by (simp_all add: utf8_string_Cons [of c cs])
      moreover have "rune_length (c # cs @ t) = rune_length (c # cs)" "rune_length (c # cs) \<le> length (c # cs)"
        using n(1) by (auto simp: rune_length_def split: list.splits if_splits)
      moreover have "utf8_string (drop (rune_length (c # cs)) (c # cs) @ t) = utf8_string t"
        using n less.IH [OF _ refl n(2)] less.prems(1) Cons by simp
      moreover have "drop (rune_length (c # cs)) (c # cs @ t) = drop (rune_length (c # cs)) (c # cs) @ t"
        using calculation(4) by (metis append_Cons drop_append diff_is_0_eq drop0)
      ultimately show ?thesis
        using Cons utf8_string_Cons [of c "cs @ t"] by simp
    qed simp
  qed
  with assms show ?thesis by simp
qed

lemma utf8_string_ascii: "list_all (\<lambda>c. code c < 0x80) s \<Longrightarrow> utf8_string s"
  by (induction s) (simp_all add: utf8_string_Cons rune_length_def)

lemma hex_nibble [simp]: "hex_value (hextable ! (n mod 16)) = Some (n mod 16)"
  by (simp add: hex_value_digit)

lemma getu4_u_escape:
  assumes "r < 65536"
  shows "getu4 (u_escape r @ rest) = Some (r, rest)"
proof -
  have "4096 * (r div 4096 mod 16) + 256 * (r div 256 mod 16) + 16 * (r div 16 mod 16) + r mod 16 = r"
  proof -
    define q p d where "q = r div 16" and "p = q div 16" and "d = p div 16"
    have "r div 256 = p" "r div 4096 = d" "d < 16"
      using assms by (simp_all add: q_def p_def d_def div_mult2_eq [symmetric] less_mult_imp_div_less)
    moreover have "r = 16 * q + r mod 16" "q = 16 * p + q mod 16" "p = 16 * d + p mod 16"
      by (simp_all add: q_def p_def d_def)
    ultimately show ?thesis
      unfolding q_def [symmetric] by (simp del: minus_mod_eq_mult_div)
  qed
  then show ?thesis
    by (simp only: u_escape_def append_Cons append_Nil getu4.simps hex_nibble option.case prod.case simp_thms if_True)
qed

lemma scan_u_escape:
  assumes "r < 65536" "\<not> IsSurrogate r"
  shows "scan_string (u_escape r @ rest) = prepend (EncodeRune r) (scan_string rest)"
proof -
  obtain xs where xs: "u_escape r @ rest = CHR 0x5C # xs"
    by (simp add: u_escape_def)
  moreover have "escape_value (u_escape r @ rest) = Some (EncodeRune r, rest)"
    using assms by (simp add: escape_value_def getu4_u_escape)
  ultimately show ?thesis
    unfolding xs by (simp add: scan_string.simps(2))
qed

lemma scan_simple_escape:
  assumes "unescape e = Some x" "e \<noteq> CHR ''u''"
  shows "scan_string (CHR 0x5C # e # rest) = prepend [x] (scan_string rest)"
proof -
  have "getu4 (CHR 0x5C # e # rest) = None"
    using assms(2) by (cases "CHR 0x5C # e # rest" rule: getu4.cases) auto
  with assms(1) show ?thesis
    by (simp add: scan_string.simps(2) escape_value_def)
qed

lemma scan_escape_ascii:
  assumes "code c < 0x80"
  shows "scan_string (escape_ascii c @ rest) = prepend [c] (scan_string rest)"
proof -
  consider "c = CHR 0x22 \<or> c = CHR 0x5C" | "c \<noteq> CHR 0x22" "c \<noteq> CHR 0x5C" "code c \<ge> 0x20" "c \<notin> {CHR ''<'', CHR ''>'', CHR ''&''}"
    | "c \<in> {CHR 0x08, CHR 0x0C, CHR 0x0A, CHR 0x0D, CHR 0x09}"
    | "c \<notin> {CHR 0x22, CHR 0x5C, CHR 0x08, CHR 0x0C, CHR 0x0A, CHR 0x0D, CHR 0x09}" "code c < 0x20 \<or> c \<in> {CHR ''<'', CHR ''>'', CHR ''&''}"
    by fastforce
  then show ?thesis
  proof cases
    case 1
    then show ?thesis by (auto simp: escape_ascii_def scan_simple_escape unescape_def)
  next
    case 2
    then show ?thesis by (simp add: escape_ascii_def scan_string.simps(2))
  next
    case 3
    then show ?thesis by (auto simp: escape_ascii_def scan_simple_escape unescape_def)
  next
    case 4
    then have "escape_ascii c = u_escape (code c)"
      by (auto simp: escape_ascii_def)
    with assms show ?thesis
      by (simp add: scan_u_escape IsSurrogate_def EncodeRune_def)
  qed
qed

lemma scan_plain: "\<forall>x \<in> set xs. code x \<ge> 0x80 \<Longrightarrow> scan_string (xs @ rest) = prepend xs (scan_string rest)"
proof (induction xs)
  case (Cons x xs)
  then have "x \<noteq> CHR 0x22" "x \<noteq> CHR 0x5C"
    by auto
  with Cons show ?case
    by (cases "scan_string rest") (auto simp: scan_string.simps(2))
qed (cases "scan_string rest"; auto)

lemma prepend_prepend: "prepend xs (prepend ys m) = prepend (xs @ ys) m"
  by (cases m) auto

lemma scan_escape: "utf8_string s \<Longrightarrow> scan_string (escape s @ rest) = prepend s (scan_string rest)"
proof (induction s rule: escape.induct)
  case 1
  then show ?case by (cases "scan_string rest") auto
next
  case (2 c cs)
  define n where "n = rune_length (c # cs)"
  have n: "n \<noteq> 0" "utf8_string (drop n (c # cs))"
    using 2(6) unfolding n_def by (simp_all add: utf8_string_Cons [of c cs])
  have split: "c # cs = take n (c # cs) @ drop n (c # cs)"
    by simp
  show ?case
  proof (cases "n = 1")
    case True
    then have "utf8_string cs" "code c < 0x80"
      using n rune_length_facts(1) [of c cs] by (simp_all add: n_def)
    then show ?thesis
      using True 2(2) [OF n_def n(1) True]
      by (simp add: escape.simps(2) n_def [symmetric] scan_escape_ascii prepend_prepend)
  next
    case False
    have IH: "scan_string (escape (drop n (c # cs)) @ rest) = prepend (drop n (c # cs)) (scan_string rest)"
      using n 2(3-5) [OF n_def n(1) False] by blast
    have esc: "escape (c # cs) =
        (if take n (c # cs) = EncodeRune 0x2028 then u_escape 0x2028
         else if take n (c # cs) = EncodeRune 0x2029 then u_escape 0x2029 else take n (c # cs)) @ escape (drop n (c # cs))"
      using False n(1) unfolding escape.simps(2) [of c cs] n_def [symmetric] Let_def by simp
    have "\<forall>x \<in> set (take n (c # cs)). code x \<ge> 0x80"
      using rune_length_facts(2) [of c cs] n(1) False unfolding n_def by blast
    then have "scan_string (escape (c # cs) @ rest) = prepend (take n (c # cs) @ drop n (c # cs)) (scan_string rest)"
      unfolding esc using IH
      by (simp add: scan_u_escape scan_plain IsSurrogate_def prepend_prepend [symmetric] del: append_take_drop_id)
    then show ?thesis by simp
  qed
qed

lemma lex_quote: "utf8_string s \<Longrightarrow> lex (quote s @ rest) = Text s # lex rest"
  by (simp add: quote_def lex.simps(2) blank_def lex_one_def delimiters_def scan_escape scan_string.simps(2))

text \<open>The lexemes and the tokens of a tree. A number is only delimited by what follows it.\<close>

fun lexemes :: "json \<Rightarrow> lexeme list" where
  "lexemes JNull = [LNull]"
| "lexemes (JBool b) = [if b then LTrue else LFalse]"
| "lexemes (JNum n) = [Number n]"
| "lexemes (JStr s) = [Text s]"
| "lexemes (JArr vs) = LBracket # join Comma (map lexemes vs) @ [RBracket]"
| "lexemes (JObj ms) = LBrace # join Comma (map (\<lambda>(k, v). Text k # Colon # lexemes v) ms) @ [RBrace]"

fun tokens_of :: "json \<Rightarrow> token list" where
  "tokens_of (JStr s) = [StringToken s]"
| "tokens_of (JArr vs) = ArrayStart # concat (map tokens_of vs) @ [ArrayEnd]"
| "tokens_of (JObj ms) = ObjectStart # concat (map (\<lambda>(k, v). StringToken k # tokens_of v) ms) @ [ObjectEnd]"
| "tokens_of _ = [OtherToken]"

definition delimited :: "string \<Rightarrow> bool" where
  "delimited s \<longleftrightarrow> s = [] \<or> hd s \<in> {CHR '','', CHR ''}'', CHR '']''}"

lemma delimited_simps [simp]: "delimited []" "delimited (CHR '','' # s)" "delimited (CHR ''}'' # s)" "delimited (CHR '']'' # s)"
  by (simp_all add: delimited_def)

lemma lex_delimiters [simp]:
  "lex (CHR ''{'' # s) = LBrace # lex s" "lex (CHR ''}'' # s) = RBrace # lex s" "lex (CHR ''['' # s) = LBracket # lex s"
  "lex (CHR '']'' # s) = RBracket # lex s" "lex (CHR '','' # s) = Comma # lex s" "lex (CHR '':'' # s) = Colon # lex s"
  by (simp_all add: lex.simps(2) blank_def lex_one_def delimiters_def)

lemma lex_literals [simp]: "lex (''null'' @ s) = LNull # lex s" "lex (''true'' @ s) = LTrue # lex s" "lex (''false'' @ s) = LFalse # lex s"
  by (simp_all add: lex.simps(2) blank_def lex_one_def delimiters_def isdigit_def scan_literal_def)

lemma digit_facts: "isdigit c \<Longrightarrow> c \<notin> {CHR '' '', CHR 0x09, CHR 0x0A, CHR 0x0D, CHR ''-'', CHR 0x22, CHR ''{'', CHR ''}'', CHR ''['', CHR '']'', CHR '','', CHR '':''}"
  by (auto simp: isdigit_def)

lemma lex_number:
  assumes "decimal n" "delimited rest"
  shows "lex (n @ rest) = Number n # lex rest"
proof -
  obtain c cs where n: "n = c # cs"
    using assms(1) by (cases n) (auto simp: decimal_def)
  have c: "isdigit c"
    using assms(1) by (simp add: n decimal_def)
  have rest: "takeWhile isdigit rest = []" "dropWhile isdigit rest = rest" "scan_fraction rest = Some ([], rest)" "scan_exponent rest = Some ([], rest)"
    using assms(2) by (cases rest; auto simp: delimited_def isdigit_def scan_fraction_def scan_exponent_def)+
  have "takeWhile isdigit (n @ rest) = n" "dropWhile isdigit (n @ rest) = rest"
    using assms(1) rest(1,2) by (simp_all add: decimal_def list_all_iff takeWhile_append2 dropWhile_append2)
  then have "scan_integer (n @ rest) = Some (n, rest)"
    using assms(1) by (auto simp: scan_integer_def scan_digits_def n decimal_def)
  then have "scan_number (n @ rest) = Some (n, rest)"
    using digit_facts [OF c] rest(3,4) by (simp add: scan_number_def n)
  then show ?thesis
    using digit_facts [OF c] c by (simp add: n lex.simps(2) blank_def lex_one_def delimiters_def)
qed

lemma lex_join:
  assumes "\<And>x r. x \<in> set xs \<Longrightarrow> delimited r \<Longrightarrow> lex (f x @ r) = g x @ lex r" "delimited rest"
  shows "lex (join (CHR '','') (map f xs) @ rest) = join Comma (map g xs) @ lex rest"
  using assms
proof (induction xs rule: induct_list012)
  case (3 a b as)
  then show ?case
    by (simp add: 3(2))
qed auto

lemma lex_Marshal: "json_ok v \<Longrightarrow> delimited rest \<Longrightarrow> lex (Marshal v @ rest) = lexemes v @ lex rest"
proof (induction v arbitrary: rest)
  case (JArr vs)
  then show ?case
    by (simp add: list_all_iff lex_join [where f = Marshal and g = lexemes])
next
  case (JObj ms)
  have "lex ((case x of (k, v) \<Rightarrow> quote k @ CHR '':'' # Marshal v) @ r) = (case x of (k, v) \<Rightarrow> Text k # Colon # lexemes v) @ lex r"
    if "x \<in> set ms" "delimited r" for x r
  proof -
    obtain k v where x: "x = (k, v)"
      by (cases x)
    have "utf8_string k" "json_ok v"
      using JObj.prems(1) that(1) by (auto simp: list_all_iff x)
    then show ?thesis
      using JObj.IH [OF that(1), of v] that(2) by (simp add: x lex_quote)
  qed
  then show ?case
    by (simp add: lex_join [where f = "\<lambda>(k, v). quote k @ CHR '':'' # Marshal v" and g = "\<lambda>(k, v). Text k # Colon # lexemes v"])
qed (simp_all add: lex_quote lex_number lex_literals [unfolded append_Cons append_Nil])

lemma lexemes_head: "\<exists>l ls. lexemes v = l # ls \<and> l \<notin> {RBracket, RBrace}"
  by (cases v) auto

lemma parse_elements_join:
  assumes "\<And>v ls. v \<in> set vs \<Longrightarrow> parse_value (lexemes v @ ls) = Some (v, ls)" "vs \<noteq> []"
  shows "parse_elements (join Comma (map lexemes vs) @ RBracket # rest) = Some (vs, rest)"
  using assms
proof (induction vs rule: induct_list012)
  case (2 v)
  then show ?case by (simp add: parse_elements.simps)
next
  case (3 v w vs)
  then show ?case by (subst parse_elements.simps) simp
qed simp

lemma parse_members_join:
  assumes "\<And>k v ls. (k, v) \<in> set ms \<Longrightarrow> parse_value (lexemes v @ ls) = Some (v, ls)" "ms \<noteq> []"
  shows "parse_members (join Comma (map (\<lambda>(k, v). Text k # Colon # lexemes v) ms) @ RBrace # rest) = Some (ms, rest)"
  using assms
proof (induction ms rule: induct_list012)
  case (2 m)
  then show ?case by (cases m) (simp add: parse_members.simps)
next
  case (3 m n ms)
  obtain k v where m: "m = (k, v)"
    by (cases m)
  have "parse_members (join Comma (map (\<lambda>(k, v). Text k # Colon # lexemes v) (n # ms)) @ RBrace # rest) = Some (n # ms, rest)"
    using 3(3) by (intro "3.IH"(2)) auto
  moreover have "parse_value (lexemes v @ ls) = Some (v, ls)" for ls
    by (rule 3(3) [of k]) (simp add: m)
  ultimately show ?case
    by (subst parse_members.simps) (simp add: m)
qed simp

lemma parse_lexemes: "parse_value (lexemes v @ rest) = Some (v, rest)"
proof (induction v arbitrary: rest)
  case (JArr vs)
  show ?case
  proof (cases vs)
    case (Cons w ws)
    obtain l ls where "join Comma (map lexemes vs) @ RBracket # rest = l # ls" "l \<noteq> RBracket"
      using lexemes_head [of w] by (cases ws) (auto simp: Cons)
    then show ?thesis
      using parse_elements_join [of vs rest] JArr Cons by (subst parse_value.simps) simp
  qed (simp add: parse_value.simps)
next
  case (JObj ms)
  show ?case
  proof (cases ms)
    case (Cons w ws)
    obtain l ls where "join Comma (map (\<lambda>(k, v). Text k # Colon # lexemes v) ms) @ RBrace # rest = l # ls" "l \<noteq> RBrace"
      by (cases w; cases ws) (auto simp: Cons)
    moreover have "parse_members (join Comma (map (\<lambda>(k, v). Text k # Colon # lexemes v) ms) @ RBrace # rest) = Some (ms, rest)"
      using JObj Cons by (intro parse_members_join) force+
    ultimately show ?thesis
      by (subst parse_value.simps) simp
  qed (simp add: parse_value.simps)
qed (simp_all add: parse_value.simps)

text \<open>Conversely a tree is only read from its own lexemes.\<close>

lemma join_Cons: "xs \<noteq> [] \<Longrightarrow> join x (ys # xs) = ys @ x # join x xs"
  by (cases xs) simp_all

lemma take_head: "take (Suc 0) xs = [x] \<Longrightarrow> \<exists>ys. xs = x # ys"
  by (cases xs) auto

lemma parse_sound:
  "parse_value ls = Some (v, rest) \<Longrightarrow> ls = lexemes v @ rest"
  "parse_elements ls = Some (vs, rest) \<Longrightarrow> vs \<noteq> [] \<and> ls = join Comma (map lexemes vs) @ RBracket # rest"
  "parse_members ls = Some (ms, rest) \<Longrightarrow> ms \<noteq> [] \<and> ls = join Comma (map (\<lambda>(k, v). Text k # Colon # lexemes v) ms) @ RBrace # rest"
proof (induction ls and ls and ls arbitrary: v rest and vs rest and ms rest rule: parse_value_parse_elements_parse_members.induct)
  case (1 ls)
  consider "ls = lexemes v @ rest" | ls' vs where "ls = LBracket # ls'" "take 1 ls' \<noteq> [RBracket]" "parse_elements ls' = Some (vs, rest)" "v = JArr vs"
    | ls' ms where "ls = LBrace # ls'" "take 1 ls' \<noteq> [RBrace]" "parse_members ls' = Some (ms, rest)" "v = JObj ms"
    using 1(3) by (subst (asm) parse_value.simps) (auto split: list.splits lexeme.splits if_splits dest!: take_head)
  then show ?case
  proof cases
    case (2 ls' vs)
    then show ?thesis using 1(2) [OF 2(1) refl 2(2,3)] by simp
  next
    case (3 ls' ms)
    then show ?thesis using 1(1) [OF 3(1) refl 3(2,3)] by simp
  qed
next
  case (2 ls)
  obtain v rest' where v: "parse_value ls = Some (v, rest')"
      "rest' = RBracket # rest \<and> vs = [v] \<or> (\<exists>r ws. rest' = Comma # r \<and> parse_elements r = Some (ws, rest) \<and> vs = v # ws)"
    using 2(3) by (subst (asm) parse_elements.simps) (auto split: option.splits list.splits lexeme.splits)
  then show ?case
    using 2(1) [of v rest'] 2(2) by (fastforce simp: join_Cons)
next
  case (3 ls)
  obtain k ls' v rest' where v: "ls = Text k # Colon # ls'" "parse_value ls' = Some (v, rest')"
      "rest' = RBrace # rest \<and> ms = [(k, v)] \<or> (\<exists>r ws. rest' = Comma # r \<and> parse_members r = Some (ws, rest) \<and> ms = (k, v) # ws)"
    using 3(3) by (subst (asm) parse_members.simps) (auto split: option.splits list.splits lexeme.splits)
  then show ?case
    using 3(1) [of _ _ k _ ls' v rest'] 3(2) by (fastforce simp: join_Cons)
qed

lemma Unmarshal_lexemes: "Unmarshal s = Some v \<Longrightarrow> lex s = lexemes v"
  by (auto simp: Unmarshal_def split: option.splits list.splits dest: parse_sound(1))

theorem Unmarshal_Marshal: "json_ok v \<Longrightarrow> Unmarshal (Marshal v) = Some v"
  using lex_Marshal [of v "[]"] parse_lexemes [of v "[]"] by (simp add: Unmarshal_def)

lemma tokens_join:
  assumes "\<And>v st stack c ls. v \<in> set vs \<Longrightarrow> tokenValueAllowed st \<Longrightarrow> tokens st stack c (lexemes v @ ls) = tokens_of v @ tokens (tokenValueEnd st) stack False ls"
    and "vs \<noteq> []" "st = AtArrayStart \<or> st = ArrayValue"
  shows "tokens st stack c (join Comma (map lexemes vs) @ ls) = concat (map tokens_of vs) @ tokens ArrayComma stack False ls"
  using assms
proof (induction vs arbitrary: st c rule: induct_list012)
  case (3 v w vs)
  have "tokens ArrayValue stack True (join Comma (map lexemes (w # vs)) @ ls) = concat (map tokens_of (w # vs)) @ tokens ArrayComma stack False ls"
    using 3 by (intro "3.IH"(2)) simp_all
  then show ?case
    using 3(3,5) by (auto simp: tokenValueAllowed_def tokenValueEnd_def)
qed (auto simp: tokenValueAllowed_def tokenValueEnd_def)

lemma tokens_join_members:
  assumes "\<And>k v st stack c ls. (k, v) \<in> set ms \<Longrightarrow> tokenValueAllowed st \<Longrightarrow> tokens st stack c (lexemes v @ ls) = tokens_of v @ tokens (tokenValueEnd st) stack False ls"
    and "ms \<noteq> []" "st = AtObjectStart \<or> st = ObjectKey"
  shows "tokens st stack c (join Comma (map (\<lambda>(k, v). Text k # Colon # lexemes v) ms) @ ls)
    = concat (map (\<lambda>(k, v). StringToken k # tokens_of v) ms) @ tokens ObjectComma stack False ls"
  using assms
proof (induction ms arbitrary: st c rule: induct_list012)
  case (2 m)
  then show ?case by (cases m) (auto simp: tokenValueAllowed_def tokenValueEnd_def)
next
  case (3 m n ms)
  have "tokens ObjectKey stack True (join Comma (map (\<lambda>(k, v). Text k # Colon # lexemes v) (n # ms)) @ ls)
      = concat (map (\<lambda>(k, v). StringToken k # tokens_of v) (n # ms)) @ tokens ObjectComma stack False ls"
    by (rule "3.IH"(2), erule 3(3) [OF list.set_intros(2)]) simp_all
  moreover obtain k v where m: "m = (k, v)"
    by (cases m)
  moreover have "tokens ObjectValue stack True (lexemes v @ ls) = tokens_of v @ tokens ObjectComma stack False ls" for ls
    using 3(3) [of k v ObjectValue] by (simp add: m tokenValueAllowed_def tokenValueEnd_def)
  ultimately show ?case
    using 3(5) by auto
qed simp

lemma tokens_lexemes: "tokenValueAllowed st \<Longrightarrow> tokens st stack c (lexemes v @ ls) = tokens_of v @ tokens (tokenValueEnd st) stack False ls"
proof (induction v arbitrary: st stack c ls)
  case (JArr vs)
  then show ?case
    using tokens_join [of vs AtArrayStart "st # stack" False] by (cases "vs = []") simp_all
next
  case (JObj ms)
  have "tokens AtObjectStart (st # stack) False (join Comma (map (\<lambda>(k, v). Text k # Colon # lexemes v) ms) @ RBrace # ls)
      = concat (map (\<lambda>(k, v). StringToken k # tokens_of v) ms) @ tokens ObjectComma (st # stack) False (RBrace # ls)" if "ms \<noteq> []"
    using JObj.IH that by (intro tokens_join_members) force+
  then show ?case
    using JObj.prems by (cases "ms = []") simp_all
qed (auto simp: tokenValueAllowed_def)

lemma decoder_tokens_Marshal: "json_ok v \<Longrightarrow> decoder_tokens (Marshal v) = tokens_of v"
  using lex_Marshal [of v "[]"] tokens_lexemes [of TopValue "[]" False v "[]"] by (simp add: decoder_tokens_def tokenValueAllowed_def)

lemma decoder_tokens_Unmarshal: "Unmarshal s = Some v \<Longrightarrow> decoder_tokens s = tokens_of v"
  using Unmarshal_lexemes [of s v] tokens_lexemes [of TopValue "[]" False v "[]"] by (simp add: decoder_tokens_def tokenValueAllowed_def)

lemma hex_digit_ascii: "code (hextable ! (n mod 16)) < 0x80"
proof -
  have "\<forall>c \<in> set hextable. code c < 0x80" "length hextable = 16"
    by (simp_all add: hextable_def)
  then show ?thesis by simp
qed

lemma u_escape_list: "list_all (\<lambda>c. code c < 0x80) (u_escape r)"
  by (simp add: u_escape_def hex_digit_ascii)

lemmas u_escape_ascii = utf8_string_ascii [OF u_escape_list]

lemma escape_ascii_utf8: "code c < 0x80 \<Longrightarrow> utf8_string (escape_ascii c)"
  by (intro utf8_string_ascii) (simp add: escape_ascii_def u_escape_list)

lemma rune_utf8:
  assumes "rune_length (c # cs) \<noteq> 0"
  shows "utf8_string (take (rune_length (c # cs)) (c # cs))"
proof -
  have "rune_length (take (rune_length (c # cs)) (c # cs)) = rune_length (c # cs)"
    using assms by (auto simp: rune_length_def split: list.splits if_splits)
  then show ?thesis
    using assms utf8_string_Cons [of c "take (rune_length (c # cs) - 1) cs"] by (simp add: take_Cons' drop_Cons')
qed

lemma utf8_escape: "utf8_string (escape s)"
proof (induction s rule: escape.induct)
  case (2 c cs)
  define n where "n = rune_length (c # cs)"
  have "escape (c # cs) = (if n = 0 then u_escape ReplacementChar else if n = 1 then escape_ascii c
      else if take n (c # cs) = EncodeRune 0x2028 then u_escape 0x2028
      else if take n (c # cs) = EncodeRune 0x2029 then u_escape 0x2029 else take n (c # cs)) @ escape (if n = 0 then cs else drop n (c # cs))"
    by (simp add: escape.simps(2) [of c cs] n_def [symmetric] Let_def)
  moreover have "utf8_string (escape (if n = 0 then cs else drop n (c # cs)))"
  proof (cases "n \<le> 1")
    case True
    then consider "n = 0" | "n = 1" by linarith
    then show ?thesis using 2(1,2) [OF n_def] by cases simp_all
  next
    case False
    then show ?thesis using 2(3-5) [OF n_def] by fastforce
  qed
  moreover have "n = 1 \<Longrightarrow> utf8_string (escape_ascii c)" "n \<noteq> 0 \<Longrightarrow> utf8_string (take n (c # cs))"
    using rune_length_facts(1) [of c cs] rune_utf8 [of c cs] by (simp_all add: n_def escape_ascii_utf8)
  ultimately show ?case
    by (simp add: utf8_string_append u_escape_ascii)
qed simp

lemma utf8_join:
  "code x < 0x80 \<Longrightarrow> (\<And>ys. ys \<in> set yss \<Longrightarrow> utf8_string ys) \<Longrightarrow> utf8_string (join x yss)"
proof (induction yss rule: induct_list012)
  case (3 ys zs yss)
  then show ?case
    using utf8_string_ascii [of "[x]"] utf8_string_append [of "[x]" "join x (zs # yss)"] by (simp add: utf8_string_append)
qed simp_all

lemma utf8_ascii_Cons: "code c < 0x80 \<Longrightarrow> utf8_string (c # s) = utf8_string s"
  using utf8_string_append [of "[c]" s] utf8_string_ascii [of "[c]"] by simp

lemma utf8_quote: "utf8_string (quote s)"
  by (simp add: quote_def utf8_ascii_Cons utf8_string_append utf8_escape)

lemma utf8_Marshal: "json_ok v \<Longrightarrow> utf8_string (Marshal v)"
proof (induction v)
  case (JNum n)
  then show ?case
    by (intro utf8_string_ascii) (auto simp: decimal_def list_all_iff isdigit_def)
next
  case (JArr vs)
  then have "utf8_string (join (CHR '','') (map Marshal vs))"
    by (intro utf8_join) (auto simp: list_all_iff)
  then show ?case
    by (simp add: utf8_ascii_Cons utf8_string_append)
next
  case (JObj ms)
  have "utf8_string (quote k @ CHR '':'' # Marshal v)" if "(k, v) \<in> set ms" for k v
    using JObj.IH [OF that, of v] JObj.prems that
    by (auto simp: list_all_iff utf8_ascii_Cons utf8_string_append utf8_quote)
  then have "utf8_string (join (CHR '','') (map (\<lambda>(k, v). quote k @ CHR '':'' # Marshal v) ms))"
    by (intro utf8_join) auto
  then show ?case
    by (simp add: utf8_ascii_Cons utf8_string_append)
qed (simp_all add: utf8_ascii_Cons utf8_quote)

end
