(* ===== verification/Control.thy ===== *)
theory Control
  imports Json Messages
begin

text \<open>
  \<open>internal/wire/control.go\<close>: control frames, a length and a JSON object whose shape is checked per operation. The
  decoder of the code is the list of tokens it will return. A field is what the map of the code holds under its name,
  read as a tree; \<open>None\<close> is a missing one. Objects that were checked have distinct keys, so their maps are
  association lists.
\<close>

section \<open>Structure\<close>

text \<open>\<open>validateValue\<close> with its two loops, on the tokens that are left. \<open>More\<close> is false before a closing delimiter and at
  the end, where the next call of \<open>Token\<close> fails.\<close>

function validateValue :: "nat \<Rightarrow> bool \<Rightarrow> token list \<Rightarrow> wire_error + token list"
  and object_loop :: "nat \<Rightarrow> string list \<Rightarrow> token list \<Rightarrow> wire_error + token list"
  and array_loop :: "nat \<Rightarrow> token list \<Rightarrow> wire_error + token list" where
  "validateValue depth root ts =
     (if depth > 8 then Inl ErrNesting
      else
        (case ts of
           [] \<Rightarrow> Inl ErrInvalidControl
         | t # ts \<Rightarrow>
             if t \<in> {BadToken True, BadToken False} then Inl ErrInvalidControl
             else if t = ObjectStart then (if \<not> root \<and> depth = 8 then Inl ErrNesting else object_loop depth [] ts)
             else if t = ArrayStart then (if root then Inl ErrInvalidControl else array_loop depth ts)
             else if root then Inl ErrInvalidControl
             else Inr ts))"
| "object_loop depth seen ts =
     (case ts of
        [] \<Rightarrow> Inl ErrInvalidControl
      | ObjectEnd # ts \<Rightarrow> Inr ts
      | ArrayEnd # ts \<Rightarrow> Inl ErrInvalidControl
      | StringToken key # ts \<Rightarrow>
          if key \<in> set seen then Inl ErrDuplicateKey
          else (case validateValue (Suc depth) False ts of
                  Inl err \<Rightarrow> Inl err
                | Inr rest \<Rightarrow> object_loop depth (key # seen) rest)
      | _ # ts \<Rightarrow> Inl ErrInvalidControl)"
| "array_loop depth ts =
     (case ts of
        [] \<Rightarrow> Inl ErrInvalidControl
      | t # ts' \<Rightarrow>
          if t = ArrayEnd then Inr ts'
          else if t = ObjectEnd \<or> t = BadToken False then Inl ErrInvalidControl
          else (case validateValue (Suc depth) False ts of
                  Inl err \<Rightarrow> Inl err
                | Inr rest \<Rightarrow> array_loop depth rest))"
  by pat_completeness auto

termination
proof -
  have validateValue_shrinks:
    "validateValue_object_loop_array_loop_dom (Inl (depth, root, ts)) \<Longrightarrow> validateValue depth root ts = Inr rest \<Longrightarrow> length rest < length ts"
    "validateValue_object_loop_array_loop_dom (Inr (Inl (depth, seen, ts))) \<Longrightarrow> object_loop depth seen ts = Inr rest \<Longrightarrow> length rest < length ts"
    "validateValue_object_loop_array_loop_dom (Inr (Inr (depth, ts))) \<Longrightarrow> array_loop depth ts = Inr rest \<Longrightarrow> length rest < length ts"
    for depth root ts seen rest
  proof (induction arbitrary: rest and rest and rest rule: validateValue_object_loop_array_loop.pinduct)
    case (1 depth root ts)
    consider t where "ts = t # rest" | ts' where "ts = ObjectStart # ts'" "object_loop depth [] ts' = Inr rest" "\<not> (\<not> root \<and> depth = 8)"
      | ts' where "ts = ArrayStart # ts'" "array_loop depth ts' = Inr rest" "\<not> root"
      using 1(1,4) by (auto simp: validateValue.psimps split: if_splits list.splits)
    then show ?case
      using 1(1,2,3,4) by cases (auto simp: validateValue.psimps split: if_splits intro!: less_SucI)
  next
    case (2 depth seen ts)
    consider "ts = ObjectEnd # rest" | key ts' rest' where "ts = StringToken key # ts'" "key \<notin> set seen"
        "validateValue (Suc depth) False ts' = Inr rest'" "object_loop depth (key # seen) rest' = Inr rest"
      using 2(1,4) by (auto simp: object_loop.psimps split: if_splits list.splits token.splits sum.splits)
    then show ?case
    proof cases
      case (2 key ts' rest')
      then show ?thesis
        using "2.IH"(1) [OF 2(1) refl 2(2) 2(3)] "2.IH"(2) [OF 2(1) refl 2(2) 2(3) 2(4)] by simp
    qed simp
  next
    case (3 depth ts)
    consider "ts = ArrayEnd # rest"
      | t ts' rest' where "ts = t # ts'" "t \<noteq> ArrayEnd" "\<not> (t = ObjectEnd \<or> t = BadToken False)"
        "validateValue (Suc depth) False ts = Inr rest'" "array_loop depth rest' = Inr rest"
      using 3(1,4) by (auto simp: array_loop.psimps split: if_splits list.splits sum.splits)
    then show ?case
    proof cases
      case (2 t ts' rest')
      then show ?thesis
        using "3.IH"(1) [OF 2(1-4)] "3.IH"(2) [OF 2] by simp
    qed simp
  qed
  show ?thesis
    by (relation "measure (\<lambda>x. case x of Inl (depth, root, ts) \<Rightarrow> 2 * length ts | Inr (Inl (depth, seen, ts)) \<Rightarrow> 2 * length ts + 1
          | Inr (Inr (depth, ts)) \<Rightarrow> 2 * length ts + 1)")
      (auto dest!: validateValue_shrinks)
qed

declare validateValue.simps [simp del] object_loop.simps [simp del] array_loop.simps [simp del]

section \<open>Fields\<close>

definition jsonString :: "json option \<Rightarrow> nat \<Rightarrow> bool \<Rightarrow> bool" where
  "jsonString raw mx may_be_empty =
     (case raw of Some (JStr v) \<Rightarrow> (may_be_empty \<or> v \<noteq> []) \<and> length v \<le> mx \<and> utf8_string v | _ \<Rightarrow> False)"

definition validText :: "json option \<Rightarrow> nat \<Rightarrow> bool \<Rightarrow> bool" where
  "validText raw mx may_be_empty = jsonString raw mx may_be_empty"

definition object_field :: "json option \<Rightarrow> (string \<times> json) list option" where
  "object_field raw = (case raw of Some (JObj fs) \<Rightarrow> Some fs | _ \<Rightarrow> None)"

definition boolean :: "json option \<Rightarrow> bool" where
  "boolean raw = (case raw of Some (JBool _) \<Rightarrow> True | _ \<Rightarrow> False)"

definition positiveInteger :: "json option \<Rightarrow> bool" where
  "positiveInteger raw = (case raw of Some (JNum n) \<Rightarrow> (case ParseUint n of Some v \<Rightarrow> v > 0 | None \<Rightarrow> False) | _ \<Rightarrow> False)"

definition nonnegativeInteger :: "json option \<Rightarrow> bool" where
  "nonnegativeInteger raw = (case raw of Some (JNum n) \<Rightarrow> ParseUint n \<noteq> None | _ \<Rightarrow> False)"

text \<open>\<open>null\<close> unmarshals into an empty string.\<close>

definition string_value :: "json option \<Rightarrow> string option" where
  "string_value raw = (case raw of Some (JStr v) \<Rightarrow> Some v | Some JNull \<Rightarrow> Some [] | _ \<Rightarrow> None)"

definition oneOfString :: "json option \<Rightarrow> string list \<Rightarrow> bool" where
  "oneOfString raw values = (case string_value raw of None \<Rightarrow> False | Some v \<Rightarrow> v \<in> set values)"

definition positiveDecimalString :: "json option \<Rightarrow> bool" where
  "positiveDecimalString raw =
     (case string_value raw of
        None \<Rightarrow> False
      | Some v \<Rightarrow> v \<noteq> [] \<and> hd v \<noteq> CHR ''0'' \<and> (\<forall>c \<in> set v. c \<in> set ''0123456789''))"

definition lowercase :: "string \<Rightarrow> bool" where
  "lowercase s \<longleftrightarrow> (\<forall>c \<in> set s. \<not> (of_char c \<ge> (65 :: nat) \<and> of_char c \<le> (90 :: nat)))"

definition validID :: "json option \<Rightarrow> bool" where
  "validID raw =
     (case string_value raw of
        None \<Rightarrow> False
      | Some v \<Rightarrow> length v = 32 \<and> lowercase v \<and> hex_DecodeString v \<noteq> None)"

definition validBase64Exact :: "json option \<Rightarrow> nat \<Rightarrow> bool" where
  "validBase64Exact raw n =
     (case Option.bind (string_value raw) base64_DecodeString of None \<Rightarrow> False | Some decoded \<Rightarrow> length decoded = n)"

definition validBase64AtMost :: "json option \<Rightarrow> nat \<Rightarrow> bool" where
  "validBase64AtMost raw mx =
     (case raw of
        Some (JStr v) \<Rightarrow> (case base64_DecodeString v of None \<Rightarrow> False | Some decoded \<Rightarrow> length decoded \<le> mx)
      | _ \<Rightarrow> False)"

text \<open>The names in a list: each must be a string, \<open>null\<close> reads as the empty one and is refused with it.\<close>

fun string_list :: "json list \<Rightarrow> string list option" where
  "string_list [] = Some []"
| "string_list (v # vs) = Option.bind (string_value (Some v)) (\<lambda>x. map_option ((#) x) (string_list vs))"

definition validateStringList :: "json option \<Rightarrow> nat \<Rightarrow> wire_error option" where
  "validateStringList raw mx =
     (case raw of
        Some (JArr vs) \<Rightarrow>
          (case string_list vs of
             None \<Rightarrow> Some ErrInvalidControl
           | Some values \<Rightarrow>
               if (\<forall>v \<in> set values. v \<noteq> [] \<and> length v \<le> mx \<and> utf8_string v) \<and> distinct values then None else Some ErrInvalidControl)
      | _ \<Rightarrow> Some ErrInvalidControl)"

section \<open>Operations\<close>

definition limit_names :: "string list" where
  "limit_names = [''control_bytes'', ''message_bytes'', ''datagram_bytes'', ''reliable_channels'', ''datagram_channels'', ''requests'', ''streams'']"

definition validateLimits :: "json option \<Rightarrow> wire_error option" where
  "validateLimits raw =
     (case object_field raw of
        None \<Rightarrow> Some ErrInvalidControl
      | Some limits \<Rightarrow> if \<forall>key \<in> set limit_names. positiveInteger (map_of limits key) then None else Some ErrInvalidControl)"

definition validateCredential :: "(string \<times> json) list \<Rightarrow> wire_error option" where
  "validateCredential fs =
     (case object_field (map_of fs ''credential'') of
        None \<Rightarrow> Some ErrInvalidControl
      | Some credential \<Rightarrow>
          if validText (map_of credential ''scheme'') 128 False \<and> validBase64AtMost (map_of credential ''data'') 4096 then None
          else Some ErrInvalidControl)"

definition validateResume :: "json option \<Rightarrow> wire_error option" where
  "validateResume raw =
     (case object_field raw of
        None \<Rightarrow> Some ErrInvalidControl
      | Some resume \<Rightarrow>
          if validID (map_of resume ''session_id'') \<and> validText (map_of resume ''owner_id'') 128 False \<and> validID (map_of resume ''incarnation'')
            \<and> validBase64Exact (map_of resume ''secret'') 32
          then None else Some ErrInvalidControl)"

definition validOwner_json :: "json option \<Rightarrow> bool" where
  "validOwner_json raw =
     (case object_field raw of
        None \<Rightarrow> False
      | Some owner \<Rightarrow> validText (map_of owner ''id'') 128 False \<and> validID (map_of owner ''incarnation'')
          \<and> validText (map_of owner ''address'') 128 False \<and> validText (map_of owner ''server_name'') 128 False)"

definition validateHello :: "(string \<times> json) list \<Rightarrow> wire_error option" where
  "validateHello fs =
     (if \<not> oneOfString (map_of fs ''role'') [''game'', ''bootstrap''] \<or> \<not> validText (map_of fs ''app'') 128 False
        \<or> \<not> validText (map_of fs ''app_version'') 128 False then Some ErrInvalidControl
      else if validateStringList (map_of fs ''required'') 128 \<noteq> None then validateStringList (map_of fs ''required'') 128
      else if validateLimits (map_of fs ''limits'') \<noteq> None then validateLimits (map_of fs ''limits'')
      else if validateCredential fs \<noteq> None then validateCredential fs
      else if map_of fs ''group'' \<noteq> None \<and> \<not> validText (map_of fs ''group'') 256 False then Some ErrInvalidControl
      else if map_of fs ''admission'' \<noteq> None \<and> \<not> validText (map_of fs ''admission'') 4096 False then Some ErrInvalidControl
      else if map_of fs ''resume'' \<noteq> None then validateResume (map_of fs ''resume'')
      else None)"

definition validateWelcome :: "(string \<times> json) list \<Rightarrow> wire_error option" where
  "validateWelcome fs =
     (if \<not> validID (map_of fs ''session_id'') \<or> \<not> positiveDecimalString (map_of fs ''epoch'') \<or> \<not> validOwner_json (map_of fs ''owner'')
      then Some ErrInvalidControl
      else
        (case object_field (map_of fs ''principal'') of
           None \<Rightarrow> Some ErrInvalidControl
         | Some prin \<Rightarrow>
             if \<not> validText (map_of prin ''issuer'') 128 False \<or> \<not> validText (map_of prin ''subject'') 128 False
               \<or> \<not> positiveInteger (map_of prin ''expires_unix_ms'') then Some ErrInvalidControl
             else if validateLimits (map_of fs ''limits'') \<noteq> None then validateLimits (map_of fs ''limits'')
             else if validateStringList (map_of fs ''capabilities'') 128 \<noteq> None \<or> \<not> boolean (map_of fs ''resumed'')
               \<or> \<not> boolean (map_of fs ''resumable'') \<or> \<not> nonnegativeInteger (map_of fs ''resume_grace_ms'') then Some ErrInvalidControl
             else if map_of fs ''resume_secret'' \<noteq> None \<and> \<not> validBase64Exact (map_of fs ''resume_secret'') 32 then Some ErrInvalidControl
             else None))"

definition validateCodeMessage :: "(string \<times> json) list \<Rightarrow> wire_error option" where
  "validateCodeMessage fs =
     (if nonnegativeInteger (map_of fs ''code'') \<and> validText (map_of fs ''message'') maxDiagnosticBytes True then None else Some ErrInvalidControl)"

record Control =
  ct_Op :: string
  ct_Fields :: "(string \<times> json) list"

definition ValidateControl :: "Control \<Rightarrow> wire_error option" where
  "ValidateControl c =
     (if ct_Op c = ''hello'' then validateHello (ct_Fields c)
      else if ct_Op c = ''welcome'' then validateWelcome (ct_Fields c)
      else if ct_Op c = ''reject'' then validateCodeMessage (ct_Fields c)
      else if ct_Op c = ''refresh'' then validateCredential (ct_Fields c)
      else if ct_Op c = ''refresh_result''
      then (if validateCodeMessage (ct_Fields c) \<noteq> None then validateCodeMessage (ct_Fields c)
            else if map_of (ct_Fields c) ''expires_unix_ms'' \<noteq> None \<and> \<not> positiveInteger (map_of (ct_Fields c) ''expires_unix_ms'')
            then Some ErrInvalidControl else None)
      else if ct_Op c = ''close'' then validateCodeMessage (ct_Fields c)
      else if ct_Op c = ''close_ack'' then None
      else Some ErrInvalidControl)"

section \<open>Frames\<close>

definition PreNegotiationControlBytes :: int where
  "PreNegotiationControlBytes = 16 * 2 ^ 10"

definition control_limit :: "int \<Rightarrow> int" where
  "control_limit maxBytes =
     (if maxBytes \<le> 0 \<or> maxBytes > PreNegotiationControlBytes then PreNegotiationControlBytes else maxBytes)"

definition DecodeControlBody :: "bytes \<Rightarrow> int \<Rightarrow> wire_error + Control" where
  "DecodeControlBody raw maxBytes =
     (if raw = [] \<or> int (length raw) > maxBytes \<or> \<not> utf8_valid raw then Inl ErrInvalidControl
      else bind (validateValue 0 True (decoder_tokens (bytes_string raw))) (\<lambda>rest.
        if rest \<noteq> [] then Inl ErrInvalidControl
        else
          (case Unmarshal (bytes_string raw) of
             Some (JObj fs) \<Rightarrow>
               if \<not> jsonString (map_of fs ''op'') 128 False then Inl ErrInvalidControl
               else
                 (let control = \<lparr>ct_Op = the (string_value (map_of fs ''op'')), ct_Fields = fs\<rparr> in
                  case ValidateControl control of Some err \<Rightarrow> Inl err | None \<Rightarrow> Inr control)
           | _ \<Rightarrow> Inl ErrInvalidControl)))"

definition EncodeControl :: "bytes \<Rightarrow> int \<Rightarrow> wire_error + bytes" where
  "EncodeControl raw maxBytes =
     (let maxBytes = control_limit maxBytes in
      if int (length raw) > maxBytes then Inl ErrTooLarge
      else bind (DecodeControlBody raw maxBytes) (\<lambda>_.
        bind (AppendVarint [] (of_nat (length raw))) (\<lambda>b. Inr (b @ raw))))"

definition DecodeControl :: "bytes \<Rightarrow> int \<Rightarrow> wire_error + Control \<times> nat" where
  "DecodeControl src maxBytes =
     bind (DecodeVarint src) (\<lambda>(len, n).
       let maxBytes = control_limit maxBytes in
       if len > uint64 maxBytes then Inl ErrTooLarge
       else if len > of_nat (length src - n) then Inl ErrTruncated
       else bind (DecodeControlBody (take (unat len) (drop n src)) maxBytes) (\<lambda>control. Inr (control, n + unat len)))"

text \<open>\<open>readControlReader\<close> of \<open>endpoint.go\<close>, and \<open>encodeControl\<close> for a message as the tree \<open>json.Marshal\<close> makes of it.\<close>

definition readControlReader :: "reader \<Rightarrow> int \<Rightarrow> error + Control \<times> reader" where
  "readControlReader r mx =
     (case ReadVarint r of
        Inl err \<Rightarrow> Inl (WireError err)
      | Inr (len, r) \<Rightarrow>
          if len > uint64 mx then Inl (codeError TooLarge)
          else
            (case ReadFull r (unat len) of
               Inl e \<Rightarrow> Inl (WireError (IOError e))
             | Inr (body, r) \<Rightarrow> (case DecodeControlBody body mx of Inl err \<Rightarrow> Inl (WireError err) | Inr control \<Rightarrow> Inr (control, r))))"

definition encodeControl :: "json \<Rightarrow> wire_error + bytes" where
  "encodeControl message = EncodeControl (string_bytes (Marshal message)) PreNegotiationControlBytes"

section \<open>What is accepted\<close>

text \<open>The structure \<open>validateValue\<close> demands, said of the tree: no object at level eight, nothing below it, no repeated
  key.\<close>

fun well_nested :: "nat \<Rightarrow> json \<Rightarrow> bool" where
  "well_nested d (JArr vs) \<longleftrightarrow> d \<le> 8 \<and> list_all (well_nested (Suc d)) vs"
| "well_nested d (JObj ms) \<longleftrightarrow> d < 8 \<and> distinct (map fst ms) \<and> list_all (\<lambda>(k, v). well_nested (Suc d) v) ms"
| "well_nested d _ \<longleftrightarrow> d \<le> 8"

text \<open>Reading a tree either consumes exactly its tokens or fails.\<close>

definition reads :: "bool \<Rightarrow> wire_error + token list \<Rightarrow> token list \<Rightarrow> bool" where
  "reads good r rest \<longleftrightarrow> (if good then r = Inr rest else \<exists>err. r = Inl err)"

lemma tokens_of_head: "\<exists>t ts. tokens_of v = t # ts \<and> t \<notin> {ArrayEnd, ObjectEnd, BadToken False, BadToken True}"
  by (cases v) auto

lemma array_loop_reads:
  assumes "\<And>v ts. v \<in> set vs \<Longrightarrow> reads (well_nested (Suc d) v) (validateValue (Suc d) False (tokens_of v @ ts)) ts"
  shows "reads (list_all (well_nested (Suc d)) vs) (array_loop d (concat (map tokens_of vs) @ ArrayEnd # rest)) rest"
  using assms
proof (induction vs)
  case Nil
  then show ?case by (simp add: array_loop.simps reads_def)
next
  case (Cons v vs)
  let ?rest = "concat (map tokens_of vs) @ ArrayEnd # rest"
  obtain t ts where t: "tokens_of v = t # ts" "t \<notin> {ArrayEnd, ObjectEnd, BadToken False, BadToken True}"
    using tokens_of_head by blast
  have "array_loop d (tokens_of v @ ?rest)
      = (case validateValue (Suc d) False (tokens_of v @ ?rest) of Inl err \<Rightarrow> Inl err | Inr rest \<Rightarrow> array_loop d rest)"
    using t by (subst array_loop.simps) simp
  moreover have "reads (well_nested (Suc d) v) (validateValue (Suc d) False (tokens_of v @ ?rest)) ?rest"
    by (rule Cons.prems) simp
  moreover have "reads (list_all (well_nested (Suc d)) vs) (array_loop d ?rest) rest"
    by (rule Cons.IH) (rule Cons.prems, simp)
  ultimately show ?case
    by (auto simp: reads_def split: if_splits)
qed

lemma object_loop_reads:
  assumes "\<And>k v ts. (k, v) \<in> set ms \<Longrightarrow> reads (well_nested (Suc d) v) (validateValue (Suc d) False (tokens_of v @ ts)) ts"
  shows "reads (distinct (map fst ms) \<and> set (map fst ms) \<inter> set seen = {} \<and> list_all (\<lambda>(k, v). well_nested (Suc d) v) ms)
    (object_loop d seen (concat (map (\<lambda>(k, v). StringToken k # tokens_of v) ms) @ ObjectEnd # rest)) rest"
  using assms
proof (induction ms arbitrary: seen)
  case Nil
  then show ?case by (simp add: object_loop.simps reads_def)
next
  case (Cons m ms)
  obtain k v where m: "m = (k, v)"
    by (cases m)
  let ?rest = "concat (map (\<lambda>(k, v). StringToken k # tokens_of v) ms) @ ObjectEnd # rest"
  have "reads (well_nested (Suc d) v) (validateValue (Suc d) False (tokens_of v @ ?rest)) ?rest"
    by (rule Cons.prems [of k]) (simp add: m)
  moreover have "reads (distinct (map fst ms) \<and> set (map fst ms) \<inter> set (k # seen) = {} \<and> list_all (\<lambda>(k, v). well_nested (Suc d) v) ms)
      (object_loop d (k # seen) ?rest) rest"
    by (rule Cons.IH) (rule Cons.prems, erule list.set_intros(2))
  ultimately show ?case
    by (auto simp: m object_loop.simps [of d seen "StringToken k # _"] reads_def split: if_splits)
qed

lemma validateValue_reads:
  "reads (well_nested d v \<and> (root \<longrightarrow> d = 0 \<and> (\<exists>ms. v = JObj ms)) ) (validateValue d root (tokens_of v @ rest)) rest"
  if "root \<longrightarrow> d = 0"
  using that
proof (induction v arbitrary: d root rest)
  case (JArr vs)
  have "reads (list_all (well_nested (Suc d)) vs) (array_loop d (concat (map tokens_of vs) @ ArrayEnd # rest)) rest"
    using JArr.IH [of _ False "Suc d"] by (intro array_loop_reads) simp
  then show ?case
    by (auto simp: validateValue.simps reads_def split: if_splits)
next
  case (JObj ms)
  have "reads (well_nested (Suc d) v) (validateValue (Suc d) False (tokens_of v @ ts)) ts" if "(k, v) \<in> set ms" for k v ts
    using JObj.IH [OF that, of v False "Suc d" ts] by simp
  then have "reads (distinct (map fst ms) \<and> list_all (\<lambda>(k, v). well_nested (Suc d) v) ms)
      (object_loop d [] (concat (map (\<lambda>(k, v). StringToken k # tokens_of v) ms) @ ObjectEnd # rest)) rest"
    using object_loop_reads [of ms d "[]" rest] by simp
  then show ?case
    using JObj.prems by (auto simp: validateValue.simps reads_def split: if_splits)
qed (auto simp: validateValue.simps reads_def)

lemma validateValue_tree:
  "validateValue 0 True (tokens_of v) = Inr [] \<longleftrightarrow> (\<exists>ms. v = JObj ms) \<and> well_nested 0 v"
  using validateValue_reads [of True 0 v "[]"] by (auto simp: reads_def split: if_splits)

text \<open>
  The type of a control message: the members an object must or may have, and the shape of each. An identifier is the
  hexadecimal text of sixteen bytes.
\<close>

datatype shape =
    Str nat nat | OneOf "string list" | Identifier | PositiveDecimal | Nat64 | Positive64 | Boolean
  | Base64 nat nat | Names nat | Object "(string \<times> bool \<times> shape) list"

fun conforms :: "shape \<Rightarrow> json \<Rightarrow> bool" where
  "conforms (Str lo hi) v \<longleftrightarrow> (case v of JStr s \<Rightarrow> lo \<le> length s \<and> length s \<le> hi \<and> utf8_string s | _ \<Rightarrow> False)"
| "conforms (OneOf xs) v \<longleftrightarrow> (case v of JStr s \<Rightarrow> s \<in> set xs | _ \<Rightarrow> False)"
| "conforms Identifier v \<longleftrightarrow>
     (case v of JStr s \<Rightarrow> (case hex_DecodeString s of Some b \<Rightarrow> length b = 16 \<and> hex_EncodeToString b = s | None \<Rightarrow> False) | _ \<Rightarrow> False)"
| "conforms PositiveDecimal v \<longleftrightarrow> (case v of JStr s \<Rightarrow> decimal s \<and> s \<noteq> ''0'' | _ \<Rightarrow> False)"
| "conforms Nat64 v \<longleftrightarrow> (case v of JNum n \<Rightarrow> ParseUint n \<noteq> None | _ \<Rightarrow> False)"
| "conforms Positive64 v \<longleftrightarrow> (case v of JNum n \<Rightarrow> ParseUint n \<noteq> None \<and> ParseUint n \<noteq> Some 0 | _ \<Rightarrow> False)"
| "conforms Boolean v \<longleftrightarrow> (case v of JBool b \<Rightarrow> True | _ \<Rightarrow> False)"
| "conforms (Base64 lo hi) v \<longleftrightarrow>
     (case v of JStr s \<Rightarrow> (case base64_DecodeString s of Some b \<Rightarrow> lo \<le> length b \<and> length b \<le> hi | None \<Rightarrow> False) | _ \<Rightarrow> False)"
| "conforms (Names hi) v \<longleftrightarrow> (case v of JArr vs \<Rightarrow> distinct vs \<and> list_all (conforms (Str 1 hi)) vs | _ \<Rightarrow> False)"
| "conforms (Object schema) v \<longleftrightarrow>
     (case v of
        JObj fs \<Rightarrow> list_all (\<lambda>(k, optional, sh). case map_of fs k of None \<Rightarrow> optional | Some x \<Rightarrow> conforms sh x) schema
      | _ \<Rightarrow> False)"

definition limits_shape :: shape where
  "limits_shape = Object (map (\<lambda>k. (k, False, Positive64)) limit_names)"

definition credential_shape :: shape where
  "credential_shape = Object [(''scheme'', False, Str 1 128), (''data'', False, Base64 0 4096)]"

definition diagnostic_members :: "(string \<times> bool \<times> shape) list" where
  "diagnostic_members = [(''code'', False, Nat64), (''message'', False, Str 0 256)]"

definition control_schemas :: "(string \<times> (string \<times> bool \<times> shape) list) list" where
  "control_schemas =
     [(''hello'',
        [(''role'', False, OneOf [''game'', ''bootstrap'']), (''app'', False, Str 1 128), (''app_version'', False, Str 1 128),
         (''required'', False, Names 128), (''limits'', False, limits_shape), (''credential'', False, credential_shape),
         (''group'', True, Str 1 256), (''admission'', True, Str 1 4096),
         (''resume'', True, Object [(''session_id'', False, Identifier), (''owner_id'', False, Str 1 128), (''incarnation'', False, Identifier),
           (''secret'', False, Base64 32 32)])]),
      (''welcome'',
        [(''session_id'', False, Identifier), (''epoch'', False, PositiveDecimal),
         (''owner'', False, Object [(''id'', False, Str 1 128), (''incarnation'', False, Identifier), (''address'', False, Str 1 128),
           (''server_name'', False, Str 1 128)]),
         (''principal'', False, Object [(''issuer'', False, Str 1 128), (''subject'', False, Str 1 128), (''expires_unix_ms'', False, Positive64)]),
         (''limits'', False, limits_shape), (''capabilities'', False, Names 128), (''resumed'', False, Boolean), (''resumable'', False, Boolean),
         (''resume_grace_ms'', False, Nat64), (''resume_secret'', True, Base64 32 32)]),
      (''reject'', diagnostic_members),
      (''refresh'', [(''credential'', False, credential_shape)]),
      (''refresh_result'', diagnostic_members @ [(''expires_unix_ms'', True, Positive64)]),
      (''close'', diagnostic_members),
      (''close_ack'', [])]"

definition typed :: "Control \<Rightarrow> bool" where
  "typed c \<longleftrightarrow> (case map_of control_schemas (ct_Op c) of None \<Rightarrow> False | Some schema \<Rightarrow> conforms (Object schema) (JObj (ct_Fields c)))"

definition has :: "(string \<times> json) list \<Rightarrow> string \<Rightarrow> bool \<Rightarrow> shape \<Rightarrow> bool" where
  "has fs k optional sh \<longleftrightarrow> (case map_of fs k of None \<Rightarrow> optional | Some x \<Rightarrow> conforms sh x)"

lemma conforms_Object: "conforms (Object schema) (JObj fs) \<longleftrightarrow> list_all (\<lambda>(k, optional, sh). has fs k optional sh) schema"
  by (simp add: has_def case_prod_beta')

lemma jsonString_has: "jsonString (map_of fs k) mx e = has fs k False (Str (if e then 0 else 1) mx)"
  by (auto simp: jsonString_def has_def Suc_le_eq split: option.splits json.splits)

lemma oneOfString_has: "[] \<notin> set xs \<Longrightarrow> oneOfString (map_of fs k) xs = has fs k False (OneOf xs)"
  by (auto simp: oneOfString_def string_value_def has_def split: option.splits json.splits)

lemma boolean_has: "boolean (map_of fs k) = has fs k False Boolean"
  by (auto simp: boolean_def has_def split: option.splits json.splits)

lemma positiveInteger_has: "positiveInteger (map_of fs k) = has fs k False Positive64"
  by (auto simp: positiveInteger_def has_def word_gt_0 split: option.splits json.splits)

lemma nonnegativeInteger_has: "nonnegativeInteger (map_of fs k) = has fs k False Nat64"
  by (auto simp: nonnegativeInteger_def has_def split: option.splits json.splits)

lemma base64_has:
  "n > 0 \<Longrightarrow> validBase64Exact (map_of fs k) n = has fs k False (Base64 n n)" "validBase64AtMost (map_of fs k) n = has fs k False (Base64 0 n)"
proof -
  have "base64_DecodeString [] = Some []"
    by (simp add: base64_DecodeString_def)
  then show "n > 0 \<Longrightarrow> validBase64Exact (map_of fs k) n = has fs k False (Base64 n n)"
    by (auto simp: validBase64Exact_def string_value_def has_def split: option.splits json.splits)
  show "validBase64AtMost (map_of fs k) n = has fs k False (Base64 0 n)"
    by (auto simp: validBase64AtMost_def has_def split: option.splits json.splits)
qed

lemma digit_chars: "c \<in> set ''0123456789'' \<longleftrightarrow> isdigit c"
proof -
  have "''0123456789'' = map char_of [48..<58 :: nat]"
    by code_simp
  then have "c \<in> set ''0123456789'' \<longleftrightarrow> c \<in> char_of ` {48..<58 :: nat}"
    by (simp only: set_map set_upt)
  also have "\<dots> \<longleftrightarrow> isdigit c"
    by (force simp: isdigit_def image_iff intro: bexI [of _ "code c"])
  finally show ?thesis .
qed

lemma decimal_has: "positiveDecimalString (map_of fs k) = has fs k False PositiveDecimal"
proof -
  have "(v \<noteq> [] \<and> hd v \<noteq> CHR ''0'' \<and> (\<forall>c \<in> set v. c \<in> set ''0123456789'')) = (decimal v \<and> v \<noteq> ''0'')" for v
    unfolding digit_chars decimal_def list_all_iff by (cases "hd v = CHR ''0''") auto
  then show ?thesis
    unfolding positiveDecimalString_def string_value_def has_def by (cases "map_of fs k") (simp_all split: json.splits)
qed

lemma hex_digit_lower:
  assumes "hex_value c = Some x"
  shows "x < 16" "\<not> (65 \<le> code c \<and> code c \<le> 90) \<Longrightarrow> hextable ! x = c" "\<not> (65 \<le> code (hextable ! x) \<and> code (hextable ! x) \<le> 90)"
proof -
  have "(c, x) \<in> set (zip hextable [0..<16] @ zip ''ABCDEF'' [10..<16])"
    using assms unfolding hex_value_def by (rule map_of_SomeD)
  then have "x < 16 \<and> (\<not> (65 \<le> code c \<and> code c \<le> 90) \<longrightarrow> hextable ! x = c) \<and> \<not> (65 \<le> code (hextable ! x) \<and> code (hextable ! x) \<le> 90)"
    by (simp add: hextable_def upt_rec) (elim disjE; simp)
  then show "x < 16" "\<not> (65 \<le> code c \<and> code c \<le> 90) \<Longrightarrow> hextable ! x = c" "\<not> (65 \<le> code (hextable ! x) \<and> code (hextable ! x) \<le> 90)"
    by simp_all
qed

lemma hex_Encode_Cons: "hex_EncodeToString (b # bs) = hextable ! (unat b div 16) # hextable ! (unat b mod 16) # hex_EncodeToString bs"
  by (simp add: hex_EncodeToString_def)

lemma unat_byte_of_nat: "n < 256 \<Longrightarrow> unat (word_of_nat n :: byte) = n"
  by (simp add: unsigned_of_nat take_bit_nat_eq_self)

lemma hex_decoded:
  assumes "hex_DecodeString v = Some b"
  shows "length v = 2 * length b" "lowercase v \<longleftrightarrow> hex_EncodeToString b = v"
proof -
  have "length v = 2 * length b \<and> (lowercase v \<longleftrightarrow> hex_EncodeToString b = v)"
    using assms
  proof (induction v arbitrary: b rule: hex_DecodeString.induct)
    case 1
    then show ?case by (simp add: lowercase_def hex_EncodeToString_def)
  next
    case (3 c d rest)
    obtain x y bs where x: "hex_value c = Some x" "hex_value d = Some y" "hex_DecodeString rest = Some bs" "b = word_of_nat (16 * x + y) # bs"
      using "3.prems" by (auto split: option.splits)
    have "unat (word_of_nat (16 * x + y) :: byte) = 16 * x + y"
      using hex_digit_lower(1) [OF x(1)] hex_digit_lower(1) [OF x(2)] by (intro unat_byte_of_nat) simp
    then have enc: "hex_EncodeToString b = hextable ! x # hextable ! y # hex_EncodeToString bs"
      using hex_digit_lower(1) [OF x(2)] by (simp add: x(4) hex_Encode_Cons)
    have "length rest = 2 * length bs" "lowercase rest \<longleftrightarrow> hex_EncodeToString bs = rest"
      using "3.IH" x by auto
    moreover have "hextable ! x = c \<longleftrightarrow> \<not> (65 \<le> code c \<and> code c \<le> 90)" "hextable ! y = d \<longleftrightarrow> \<not> (65 \<le> code d \<and> code d \<le> 90)"
      using hex_digit_lower(2,3) [OF x(1)] hex_digit_lower(2,3) [OF x(2)] by auto
    moreover have "lowercase (c # d # rest) \<longleftrightarrow> \<not> (65 \<le> code c \<and> code c \<le> 90) \<and> \<not> (65 \<le> code d \<and> code d \<le> 90) \<and> lowercase rest"
      by (simp add: lowercase_def)
    moreover have "length b = Suc (length bs)"
      by (simp add: x(4))
    ultimately show ?case
      unfolding enc by simp
  qed simp
  then show "length v = 2 * length b" "lowercase v \<longleftrightarrow> hex_EncodeToString b = v"
    by simp_all
qed

lemma identifier_has: "validID (map_of fs k) = has fs k False Identifier"
proof -
  have "(length v = 32 \<and> lowercase v \<and> hex_DecodeString v \<noteq> None)
      = (case hex_DecodeString v of Some b \<Rightarrow> length b = 16 \<and> hex_EncodeToString b = v | None \<Rightarrow> False)" for v
    using hex_decoded [of v] by (cases "hex_DecodeString v") auto
  then show ?thesis
    unfolding validID_def string_value_def has_def by (cases "map_of fs k") (simp_all split: json.splits)
qed

lemma string_list_strings: "string_list vs = Some vals \<and> [] \<notin> set vals \<longleftrightarrow> vs = map JStr vals \<and> [] \<notin> set vals"
proof (induction vs arbitrary: vals)
  case (Cons v vs)
  show ?case
    using Cons.IH by (cases v; cases vals) (auto simp: string_value_def bind_eq_Some_conv)
qed auto

lemma names_has: "validateStringList (map_of fs k) mx = None \<longleftrightarrow> has fs k False (Names mx)"
proof -
  have eq: "(case string_list vs of None \<Rightarrow> False | Some vals \<Rightarrow> (\<forall>v \<in> set vals. v \<noteq> [] \<and> length v \<le> mx \<and> utf8_string v) \<and> distinct vals)
      \<longleftrightarrow> distinct vs \<and> list_all (conforms (Str 1 mx)) vs" (is "?l = ?r") for vs
  proof
    assume ?l
    then obtain vals where "string_list vs = Some vals" "\<forall>v \<in> set vals. v \<noteq> [] \<and> length v \<le> mx \<and> utf8_string v" "distinct vals"
      by (auto split: option.splits)
    moreover have "vs = map JStr vals"
      using calculation string_list_strings [of vs vals] by auto
    ultimately show ?r
      by (auto simp: list_all_iff distinct_map inj_on_def Suc_le_eq)
  next
    assume r: ?r
    define vals where "vals = map (\<lambda>v. case v of JStr s \<Rightarrow> s | _ \<Rightarrow> []) vs"
    have "vs = map JStr vals"
      unfolding vals_def map_map using r by (intro map_idI [symmetric]) (auto simp: list_all_iff split: json.splits)
    then show ?l
      using r string_list_strings [of vs vals] by (auto simp: list_all_iff distinct_map)
  qed
  show ?thesis
    unfolding validateStringList_def has_def
    by (cases "map_of fs k") (simp_all add: eq [symmetric] del: One_nat_def split: json.split option.split)
qed

lemma object_has:
  "has fs k False (Object schema) \<longleftrightarrow>
     (case object_field (map_of fs k) of None \<Rightarrow> False | Some ms \<Rightarrow> list_all (\<lambda>(k, optional, sh). has ms k optional sh) schema)"
  by (auto simp: has_def object_field_def case_prod_beta' split: option.splits json.splits)

lemma optional_has: "has fs k True sh \<longleftrightarrow> (map_of fs k \<noteq> None \<longrightarrow> has fs k False sh)"
  by (auto simp: has_def split: option.splits)

lemmas field_has = jsonString_has oneOfString_has boolean_has positiveInteger_has nonnegativeInteger_has base64_has decimal_has identifier_has

lemma limits_has: "validateLimits (map_of fs k) = None \<longleftrightarrow> has fs k False limits_shape"
  by (auto simp: validateLimits_def limits_shape_def object_has list_all_iff field_has split: option.splits)

lemma credential_has: "validateCredential fs = None \<longleftrightarrow> has fs ''credential'' False credential_shape"
  by (auto simp: validateCredential_def validText_def credential_shape_def object_has field_has split: option.splits)

lemma resume_has:
  "validateResume (map_of fs k) = None \<longleftrightarrow>
   has fs k False (Object [(''session_id'', False, Identifier), (''owner_id'', False, Str 1 128), (''incarnation'', False, Identifier),
     (''secret'', False, Base64 32 32)])"
  by (auto simp: validateResume_def validText_def object_has field_has split: option.splits)

lemma owner_has:
  "validOwner_json (map_of fs k) \<longleftrightarrow>
   has fs k False (Object [(''id'', False, Str 1 128), (''incarnation'', False, Identifier), (''address'', False, Str 1 128),
     (''server_name'', False, Str 1 128)])"
  by (auto simp: validOwner_json_def validText_def object_has field_has split: option.splits)

lemma code_message_has: "validateCodeMessage fs = None \<longleftrightarrow> list_all (\<lambda>(k, optional, sh). has fs k optional sh) diagnostic_members"
  by (simp add: validateCodeMessage_def validText_def diagnostic_members_def field_has maxDiagnosticBytes_def)

lemma hello_has:
  "validateHello fs = None \<longleftrightarrow> list_all (\<lambda>(k, optional, sh). has fs k optional sh) (the (map_of control_schemas ''hello''))"
  by (auto simp: validateHello_def validText_def control_schemas_def optional_has field_has names_has limits_has credential_has resume_has
      simp del: One_nat_def)

lemma principal_has:
  "(case object_field (map_of fs ''principal'') of
      None \<Rightarrow> False
    | Some prin \<Rightarrow> validText (map_of prin ''issuer'') 128 False \<and> validText (map_of prin ''subject'') 128 False \<and> positiveInteger (map_of prin ''expires_unix_ms''))
   \<longleftrightarrow> has fs ''principal'' False (Object [(''issuer'', False, Str 1 128), (''subject'', False, Str 1 128), (''expires_unix_ms'', False, Positive64)])"
  by (auto simp: object_has validText_def field_has split: option.splits)

lemma welcome_checks:
  "validateWelcome fs = None \<longleftrightarrow>
     validID (map_of fs ''session_id'') \<and> positiveDecimalString (map_of fs ''epoch'') \<and> validOwner_json (map_of fs ''owner'')
     \<and> (case object_field (map_of fs ''principal'') of
          None \<Rightarrow> False
        | Some prin \<Rightarrow> validText (map_of prin ''issuer'') 128 False \<and> validText (map_of prin ''subject'') 128 False \<and> positiveInteger (map_of prin ''expires_unix_ms''))
     \<and> validateLimits (map_of fs ''limits'') = None \<and> validateStringList (map_of fs ''capabilities'') 128 = None \<and> boolean (map_of fs ''resumed'')
     \<and> boolean (map_of fs ''resumable'') \<and> nonnegativeInteger (map_of fs ''resume_grace_ms'')
     \<and> (map_of fs ''resume_secret'' \<noteq> None \<longrightarrow> validBase64Exact (map_of fs ''resume_secret'') 32)"
  by (cases "object_field (map_of fs ''principal'')") (auto simp add: validateWelcome_def)

lemma welcome_has:
  "validateWelcome fs = None \<longleftrightarrow> list_all (\<lambda>(k, optional, sh). has fs k optional sh) (the (map_of control_schemas ''welcome''))"
  unfolding welcome_checks principal_has
  unfolding field_has names_has limits_has owner_has
  by (simp add: control_schemas_def optional_has field_has(6) del: One_nat_def)

lemma schemas:
  "map_of control_schemas ''reject'' = Some diagnostic_members" "map_of control_schemas ''close'' = Some diagnostic_members"
  "map_of control_schemas ''refresh'' = Some [(''credential'', False, credential_shape)]" "map_of control_schemas ''close_ack'' = Some []"
  "map_of control_schemas ''refresh_result'' = Some (diagnostic_members @ [(''expires_unix_ms'', True, Positive64)])"
  "map_of control_schemas ''hello'' = Some (the (map_of control_schemas ''hello''))"
  "map_of control_schemas ''welcome'' = Some (the (map_of control_schemas ''welcome''))"
  "map_of control_schemas k \<noteq> None \<Longrightarrow> k \<in> {''hello'', ''welcome'', ''reject'', ''refresh'', ''refresh_result'', ''close'', ''close_ack''}"
  by (simp_all add: control_schemas_def split: if_splits)

lemma ValidateControl_typed: "ValidateControl c = None \<longleftrightarrow> typed c"
proof -
  have typed: "typed c \<longleftrightarrow> (case map_of control_schemas (ct_Op c) of None \<Rightarrow> False
      | Some schema \<Rightarrow> list_all (\<lambda>(k, optional, sh). has (ct_Fields c) k optional sh) schema)"
    by (simp add: typed_def conforms_Object del: conforms.simps split: option.splits)
  consider "ct_Op c = ''hello''" | "ct_Op c = ''welcome''" | "ct_Op c = ''reject''" | "ct_Op c = ''refresh''" | "ct_Op c = ''refresh_result''"
    | "ct_Op c = ''close''" | "ct_Op c = ''close_ack''" | "map_of control_schemas (ct_Op c) = None" "ct_Op c \<notin> {''hello'', ''welcome'', ''reject'', ''refresh'', ''refresh_result'', ''close'', ''close_ack''}"
    using schemas(8) [of "ct_Op c"] by blast
  then show ?thesis
  proof cases
    case 1
    then show ?thesis unfolding typed by (subst schemas(6) [folded 1]) (simp add: ValidateControl_def hello_has)
  next
    case 2
    then show ?thesis unfolding typed by (subst schemas(7) [folded 2]) (simp add: ValidateControl_def welcome_has)
  qed (simp_all add: ValidateControl_def typed schemas(1-5) code_message_has credential_has optional_has positiveInteger_has)
qed

lemma control_frames_typed_iff:
  "DecodeControlBody raw mx = Inr c \<longleftrightarrow>
     int (length raw) \<le> mx \<and> utf8_valid raw \<and> Unmarshal (bytes_string raw) = Some (JObj (ct_Fields c)) \<and> well_nested 0 (JObj (ct_Fields c))
     \<and> map_of (ct_Fields c) ''op'' = Some (JStr (ct_Op c)) \<and> typed c"
proof -
  have op: "length (ct_Op c) \<le> 128 \<and> ct_Op c \<noteq> [] \<and> utf8_string (ct_Op c)" if "typed c" for c
    using that schemas(8) [of "ct_Op c"]
    by (auto simp: typed_def utf8_string_ascii split: option.splits)
  have nonempty: "Unmarshal (bytes_string []) = None"
    by (simp add: Unmarshal_def bytes_string_def parse_value.simps)
  show ?thesis
  proof
    assume d: "DecodeControlBody raw mx = Inr c"
    then obtain fs where fs: "raw \<noteq> []" "int (length raw) \<le> mx" "utf8_valid raw" "validateValue 0 True (decoder_tokens (bytes_string raw)) = Inr []"
        "Unmarshal (bytes_string raw) = Some (JObj fs)" "jsonString (map_of fs ''op'') 128 False"
        "c = \<lparr>ct_Op = the (string_value (map_of fs ''op'')), ct_Fields = fs\<rparr>" "ValidateControl c = None"
      by (auto simp: DecodeControlBody_def Let_def split: if_splits option.splits json.splits)
    moreover have "well_nested 0 (JObj fs)"
      using fs(4) decoder_tokens_Unmarshal [OF fs(5)] validateValue_tree by metis
    moreover obtain op1 where "map_of fs ''op'' = Some (JStr op1)"
      using fs(6) by (auto simp: jsonString_def split: option.splits json.splits)
    moreover from this have "ct_Op c = op1" "ct_Fields c = fs"
      by (simp_all add: fs(7) string_value_def)
    ultimately show "int (length raw) \<le> mx \<and> utf8_valid raw \<and> Unmarshal (bytes_string raw) = Some (JObj (ct_Fields c)) \<and> well_nested 0 (JObj (ct_Fields c))
       \<and> map_of (ct_Fields c) ''op'' = Some (JStr (ct_Op c)) \<and> typed c"
      using ValidateControl_typed [of c] by metis
  next
    assume r: "int (length raw) \<le> mx \<and> utf8_valid raw \<and> Unmarshal (bytes_string raw) = Some (JObj (ct_Fields c)) \<and> well_nested 0 (JObj (ct_Fields c))
       \<and> map_of (ct_Fields c) ''op'' = Some (JStr (ct_Op c)) \<and> typed c"
    then have "raw \<noteq> []"
      using nonempty by fastforce
    moreover have "validateValue 0 True (decoder_tokens (bytes_string raw)) = Inr []"
      using r decoder_tokens_Unmarshal [of "bytes_string raw"] validateValue_tree [of "JObj (ct_Fields c)"] by simp
    ultimately show "DecodeControlBody raw mx = Inr c"
      using r op [of c] ValidateControl_typed [of c] by (cases c) (simp add: DecodeControlBody_def jsonString_def string_value_def Let_def)
  qed
qed

text \<open>
  C20. The control frames that are accepted are exactly the texts of well-nested JSON objects without repeated keys whose
  members have the types their operation demands: the streaming check and the field validators together decide membership
  in the schema of the operation. What is returned is the operation and the members of that object.
\<close>

theorem control_frames_typed:
  "DecodeControlBody raw mx = Inr c \<longleftrightarrow>
     int (length raw) \<le> mx \<and> utf8_valid raw \<and> Unmarshal (bytes_string raw) = Some (JObj (ct_Fields c)) \<and> well_nested 0 (JObj (ct_Fields c))
     \<and> map_of (ct_Fields c) ''op'' = Some (JStr (ct_Op c)) \<and> typed c"
  by (rule control_frames_typed_iff)

section \<open>Frames that are read back\<close>

lemma DecodeControlBody_mono:
  "DecodeControlBody raw mx = Inr c \<Longrightarrow> int (length raw) \<le> mx' \<Longrightarrow> DecodeControlBody raw mx' = Inr c"
  by (auto simp: DecodeControlBody_def split: if_splits)

lemma EncodeControl_Inr:
  assumes "EncodeControl raw mx = Inr frame"
  shows "\<exists>c. frame = vb (of_nat (length raw)) @ raw \<and> length raw \<le> 16384 \<and> int (length raw) \<le> control_limit mx
    \<and> (\<forall>mx'. int (length raw) \<le> mx' \<longrightarrow> DecodeControlBody raw mx' = Inr c)"
proof -
  obtain c b where c: "int (length raw) \<le> control_limit mx" "DecodeControlBody raw (control_limit mx) = Inr c"
      "AppendVarint [] (of_nat (length raw)) = Inr b" "frame = b @ raw"
    using assms by (auto simp: EncodeControl_def Let_def split: if_splits)
  moreover have "control_limit mx \<le> 16384"
    by (simp add: control_limit_def PreNegotiationControlBytes_def)
  ultimately show ?thesis
    using DecodeControlBody_mono [OF c(2)] by (auto simp: AppendVarint_Inr_iff)
qed

lemma control_length: "length raw \<le> 16384 \<Longrightarrow> unat (of_nat (length raw) :: u64) = length raw \<and> (of_nat (length raw) :: u64) \<le> MaxVarint"
  by (simp add: unat_of_nat_u64 small_le_MaxVarint)

text \<open>A frame one side encodes is accepted by the other, from a stream and from a slice, with the same result.\<close>

lemma control_frame_read:
  assumes "EncodeControl raw mx = Inr frame"
  obtains c where "DecodeControlBody raw (int (length raw)) = Inr c"
    and "\<And>lim rest e. int (length raw) \<le> lim \<Longrightarrow> lim < 2 ^ 63 \<Longrightarrow> readControlReader (Reader (frame @ rest) e) lim = Inr (c, Reader rest e)"
    and "\<And>rest. length rest < 2 ^ 62 \<Longrightarrow> DecodeControl (frame @ rest) mx = Inr (c, length frame)"
proof -
  obtain c where c: "frame = vb (of_nat (length raw)) @ raw" "length raw \<le> 16384" "int (length raw) \<le> control_limit mx"
      "\<And>mx'. int (length raw) \<le> mx' \<Longrightarrow> DecodeControlBody raw mx' = Inr c"
    using EncodeControl_Inr [OF assms] by auto
  note len = control_length [OF c(2)]
  have le: "of_nat (length raw) \<le> uint64 lim" if "int (length raw) \<le> lim" "lim < 2 ^ 63" for lim
    using that len by (simp add: word_le_nat_alt unat_uint64)
  have "readControlReader (Reader (frame @ rest) e) lim = Inr (c, Reader rest e)" if "int (length raw) \<le> lim" "lim < 2 ^ 63" for lim rest e
    using le [OF that] len c(4) [OF that(1)] by (simp add: c(1) readControlReader_def ReadVarint_vb ReadFull_def not_less)
  moreover have "DecodeControl (frame @ rest) mx = Inr (c, length frame)" if "length rest < 2 ^ 62" for rest
  proof -
    have "control_limit mx < 2 ^ 63"
      by (simp add: control_limit_def PreNegotiationControlBytes_def)
    moreover have "(of_nat (length raw) :: u64) \<le> of_nat (length raw + length rest)"
      using that c(2) by (simp add: word_le_nat_alt unat_of_nat_u64 del: of_nat_add)
    ultimately show ?thesis
      using le [OF c(3)] len c(4) [OF c(3)] by (simp add: c(1) DecodeControl_def DecodeVarint_vb Let_def not_less)
  qed
  ultimately show thesis
    using c(4) [of "int (length raw)"] by (intro that) auto
qed

end
