(* ===== verification/Control_Messages.thy ===== *)
theory Control_Messages
  imports Control Client "HOL-Library.List_Lexorder"
begin

text \<open>
  Between the messages of \<open>endpoint.go\<close> and control frames: the tree \<open>json.Marshal\<close> makes of a message, and the record
  \<open>json.Unmarshal\<close> fills from the fields of a frame. The second is written as the library does it: every member of the
  object updates the field whose tag it names, in the order of the text; names match without regard to case when none
  matches exactly; \<open>null\<close> leaves a field as it is; a value of another type makes the call fail. \<open>parseHello\<close>, \<open>parseWelcome\<close> and
  \<open>parseClose\<close> first marshal the map of fields, which sorts them.
\<close>

section \<open>Numbers\<close>

definition ParseInt :: "string \<Rightarrow> int option" where
  "ParseInt s =
     (case s of
        c # cs \<Rightarrow>
          if c = CHR ''-'' then Option.bind (parse_nat cs) (\<lambda>n. if n \<le> 2 ^ 63 then Some (- int n) else None)
          else Option.bind (parse_nat s) (\<lambda>n. if n < 2 ^ 63 then Some (int n) else None)
      | [] \<Rightarrow> None)"

section \<open>Filling a record\<close>

text \<open>The names that fold to a lower-case tag: letters in either case, and the two other characters that fold to an
  ASCII letter, the long s and the Kelvin sign.\<close>

definition lower :: "char \<Rightarrow> char" where
  "lower c = (if 65 \<le> code c \<and> code c \<le> 90 then char_of (code c + 32) else c)"

fun folds_to :: "string \<Rightarrow> string \<Rightarrow> bool" where
  "folds_to key [] = (key = [])"
| "folds_to key (c # cs) =
     (key \<noteq> [] \<and> lower (hd key) = c \<and> folds_to (tl key) cs
      \<or> c = CHR ''s'' \<and> take 2 key = [CHR 0xC5, CHR 0xBF] \<and> folds_to (drop 2 key) cs
      \<or> c = CHR ''k'' \<and> take 3 key = [CHR 0xE2, CHR 0x84, CHR 0xAA] \<and> folds_to (drop 3 key) cs)"

type_synonym 'r member = "string \<times> (json \<Rightarrow> 'r \<Rightarrow> 'r option)"

definition member_of :: "'r member list \<Rightarrow> string \<Rightarrow> (json \<Rightarrow> 'r \<Rightarrow> 'r option) option" where
  "member_of ms key = (case map_of ms key of Some f \<Rightarrow> Some f | None \<Rightarrow> map_option snd (find (\<lambda>(n, _). folds_to key n) ms))"

fun fill :: "'r member list \<Rightarrow> (string \<times> json) list \<Rightarrow> 'r \<Rightarrow> 'r option" where
  "fill ms [] r = Some r"
| "fill ms ((k, v) # rest) r =
     (case member_of ms k of
        None \<Rightarrow> fill ms rest r
      | Some f \<Rightarrow> Option.bind (f v r) (fill ms rest))"

definition text_field :: "(string \<Rightarrow> 'r \<Rightarrow> 'r) \<Rightarrow> json \<Rightarrow> 'r \<Rightarrow> 'r option" where
  "text_field put v r = (case v of JStr s \<Rightarrow> Some (put s r) | JNull \<Rightarrow> Some r | _ \<Rightarrow> None)"

definition int_field :: "(int \<Rightarrow> 'r \<Rightarrow> 'r) \<Rightarrow> json \<Rightarrow> 'r \<Rightarrow> 'r option" where
  "int_field put v r = (case v of JNum n \<Rightarrow> map_option (\<lambda>i. put i r) (ParseInt n) | JNull \<Rightarrow> Some r | _ \<Rightarrow> None)"

definition u32_field :: "(u32 \<Rightarrow> 'r \<Rightarrow> 'r) \<Rightarrow> json \<Rightarrow> 'r \<Rightarrow> 'r option" where
  "u32_field put v r =
     (case v of
        JNum n \<Rightarrow> Option.bind (parse_nat n) (\<lambda>i. if i < 2 ^ 32 then Some (put (of_nat i) r) else None)
      | JNull \<Rightarrow> Some r
      | _ \<Rightarrow> None)"

definition bool_field :: "(bool \<Rightarrow> 'r \<Rightarrow> 'r) \<Rightarrow> json \<Rightarrow> 'r \<Rightarrow> 'r option" where
  "bool_field put v r = (case v of JBool b \<Rightarrow> Some (put b r) | JNull \<Rightarrow> Some r | _ \<Rightarrow> None)"

text \<open>A list is filled element by element; \<open>null\<close> leaves what an earlier member put there.\<close>

fun fill_texts :: "json list \<Rightarrow> string list \<Rightarrow> string list option" where
  "fill_texts [] old = Some []"
| "fill_texts (v # vs) old =
     Option.bind (case v of JStr s \<Rightarrow> Some s | JNull \<Rightarrow> Some (if old = [] then [] else hd old) | _ \<Rightarrow> None)
       (\<lambda>s. map_option ((#) s) (fill_texts vs (tl old)))"

definition texts_field :: "('r \<Rightarrow> string list) \<Rightarrow> (string list \<Rightarrow> 'r \<Rightarrow> 'r) \<Rightarrow> json \<Rightarrow> 'r \<Rightarrow> 'r option" where
  "texts_field get put v r =
     (case v of JArr vs \<Rightarrow> map_option (\<lambda>xs. put xs r) (fill_texts vs (get r)) | JNull \<Rightarrow> Some (put [] r) | _ \<Rightarrow> None)"

definition struct_field :: "'s member list \<Rightarrow> ('r \<Rightarrow> 's) \<Rightarrow> ('s \<Rightarrow> 'r \<Rightarrow> 'r) \<Rightarrow> json \<Rightarrow> 'r \<Rightarrow> 'r option" where
  "struct_field ms get put v r =
     (case v of JObj fs \<Rightarrow> map_option (\<lambda>x. put x r) (fill ms fs (get r)) | JNull \<Rightarrow> Some r | _ \<Rightarrow> None)"

definition pointer_field :: "'s member list \<Rightarrow> 's \<Rightarrow> ('r \<Rightarrow> 's option) \<Rightarrow> ('s option \<Rightarrow> 'r \<Rightarrow> 'r) \<Rightarrow> json \<Rightarrow> 'r \<Rightarrow> 'r option" where
  "pointer_field ms zero get put v r =
     (case v of
        JObj fs \<Rightarrow> map_option (\<lambda>x. put (Some x) r) (fill ms fs (case get r of None \<Rightarrow> zero | Some x \<Rightarrow> x))
      | JNull \<Rightarrow> Some (put None r)
      | _ \<Rightarrow> None)"

definition sorted_fields :: "(string \<times> json) list \<Rightarrow> (string \<times> json) list" where
  "sorted_fields = sort_key (string_bytes \<circ> fst)"

section \<open>The messages\<close>

definition limit_members :: "limitMessage member list" where
  "limit_members =
     [(''control_bytes'', int_field (\<lambda>i. lm_ControlBytes_update (\<lambda>_. i))), (''message_bytes'', int_field (\<lambda>i. lm_MessageBytes_update (\<lambda>_. i))),
      (''datagram_bytes'', int_field (\<lambda>i. lm_DatagramBytes_update (\<lambda>_. i))), (''reliable_channels'', int_field (\<lambda>i. lm_ReliableChannels_update (\<lambda>_. i))),
      (''datagram_channels'', int_field (\<lambda>i. lm_DatagramChannels_update (\<lambda>_. i))), (''requests'', int_field (\<lambda>i. lm_Requests_update (\<lambda>_. i))),
      (''streams'', int_field (\<lambda>i. lm_Streams_update (\<lambda>_. i)))]"

definition limits_zero :: limitMessage where
  "limits_zero = \<lparr>lm_ControlBytes = 0, lm_MessageBytes = 0, lm_DatagramBytes = 0, lm_ReliableChannels = 0, lm_DatagramChannels = 0,
     lm_Requests = 0, lm_Streams = 0\<rparr>"

definition limits_json :: "limitMessage \<Rightarrow> json" where
  "limits_json l =
     JObj [(''control_bytes'', JNum (FormatInt (lm_ControlBytes l))), (''message_bytes'', JNum (FormatInt (lm_MessageBytes l))),
       (''datagram_bytes'', JNum (FormatInt (lm_DatagramBytes l))), (''reliable_channels'', JNum (FormatInt (lm_ReliableChannels l))),
       (''datagram_channels'', JNum (FormatInt (lm_DatagramChannels l))), (''requests'', JNum (FormatInt (lm_Requests l))),
       (''streams'', JNum (FormatInt (lm_Streams l)))]"

definition credential_members :: "credentialMessage member list" where
  "credential_members = [(''scheme'', text_field (\<lambda>s. cm_Scheme_update (\<lambda>_. s))), (''data'', text_field (\<lambda>s. cm_Data_update (\<lambda>_. s)))]"

definition credential_zero :: credentialMessage where
  "credential_zero = \<lparr>cm_Scheme = [], cm_Data = []\<rparr>"

definition credential_json :: "credentialMessage \<Rightarrow> json" where
  "credential_json m = JObj [(''scheme'', JStr (cm_Scheme m)), (''data'', JStr (cm_Data m))]"

definition resume_members :: "resumeMessage member list" where
  "resume_members =
     [(''session_id'', text_field (\<lambda>s. rm_SessionID_update (\<lambda>_. s))), (''owner_id'', text_field (\<lambda>s. rm_OwnerID_update (\<lambda>_. s))),
      (''incarnation'', text_field (\<lambda>s. rm_Incarnation_update (\<lambda>_. s))), (''secret'', text_field (\<lambda>s. rm_Secret_update (\<lambda>_. s)))]"

definition resume_zero :: resumeMessage where
  "resume_zero = \<lparr>rm_SessionID = [], rm_OwnerID = [], rm_Incarnation = [], rm_Secret = []\<rparr>"

definition resume_json :: "resumeMessage \<Rightarrow> json" where
  "resume_json m =
     JObj [(''session_id'', JStr (rm_SessionID m)), (''owner_id'', JStr (rm_OwnerID m)), (''incarnation'', JStr (rm_Incarnation m)),
       (''secret'', JStr (rm_Secret m))]"

definition hello_members :: "helloMessage member list" where
  "hello_members =
     [(''op'', text_field (\<lambda>s. he_Op_update (\<lambda>_. s))), (''role'', text_field (\<lambda>s. he_Role_update (\<lambda>_. s))),
      (''app'', text_field (\<lambda>s. he_AppID_update (\<lambda>_. s))), (''app_version'', text_field (\<lambda>s. he_AppVersion_update (\<lambda>_. s))),
      (''required'', texts_field he_Required (\<lambda>xs. he_Required_update (\<lambda>_. xs))),
      (''limits'', struct_field limit_members he_Limits (\<lambda>l. he_Limits_update (\<lambda>_. l))),
      (''credential'', struct_field credential_members he_Credential (\<lambda>c. he_Credential_update (\<lambda>_. c))),
      (''group'', text_field (\<lambda>s. he_Group_update (\<lambda>_. s))), (''admission'', text_field (\<lambda>s. he_Admission_update (\<lambda>_. s))),
      (''resume'', pointer_field resume_members resume_zero he_Resume (\<lambda>p. he_Resume_update (\<lambda>_. p)))]"

definition hello_zero :: helloMessage where
  "hello_zero = \<lparr>he_Op = [], he_Role = [], he_App = \<lparr>ai_ID = [], ai_Version = []\<rparr>, he_AppID = [], he_AppVersion = [], he_Required = [],
     he_Limits = limits_zero, he_Credential = credential_zero, he_Group = [], he_Admission = [], he_Resume = None\<rparr>"

definition omitempty :: "string \<Rightarrow> string \<Rightarrow> (string \<times> json) list" where
  "omitempty k s = (if s = [] then [] else [(k, JStr s)])"

text \<open>\<open>helloMessage.MarshalJSON\<close> copies the application identity into its two tagged fields; the lists the program sends
  are never nil.\<close>

definition hello_fields :: "helloMessage \<Rightarrow> (string \<times> json) list" where
  "hello_fields h =
     (let h = MarshalJSON h in
      [(''op'', JStr (he_Op h)), (''role'', JStr (he_Role h)), (''app'', JStr (he_AppID h)), (''app_version'', JStr (he_AppVersion h)),
       (''required'', JArr (map JStr (he_Required h))), (''limits'', limits_json (he_Limits h)), (''credential'', credential_json (he_Credential h))]
      @ omitempty ''group'' (he_Group h) @ omitempty ''admission'' (he_Admission h)
      @ (case he_Resume h of None \<Rightarrow> [] | Some resume \<Rightarrow> [(''resume'', resume_json resume)]))"

definition unmarshal_hello :: "(string \<times> json) list \<Rightarrow> helloMessage option" where
  "unmarshal_hello fs = fill hello_members (sorted_fields fs) hello_zero"

definition owner_members :: "ownerMessage member list" where
  "owner_members =
     [(''id'', text_field (\<lambda>s. om_ID_update (\<lambda>_. s))), (''incarnation'', text_field (\<lambda>s. om_Incarnation_update (\<lambda>_. s))),
      (''address'', text_field (\<lambda>s. om_Address_update (\<lambda>_. s))), (''server_name'', text_field (\<lambda>s. om_ServerName_update (\<lambda>_. s)))]"

definition owner_json :: "ownerMessage \<Rightarrow> json" where
  "owner_json m =
     JObj [(''id'', JStr (om_ID m)), (''incarnation'', JStr (om_Incarnation m)), (''address'', JStr (om_Address m)),
       (''server_name'', JStr (om_ServerName m))]"

definition principal_members :: "principalMessage member list" where
  "principal_members =
     [(''issuer'', text_field (\<lambda>s. pm_Issuer_update (\<lambda>_. s))), (''subject'', text_field (\<lambda>s. pm_Subject_update (\<lambda>_. s))),
      (''expires_unix_ms'', int_field (\<lambda>i. pm_ExpiresMS_update (\<lambda>_. i)))]"

definition principal_json :: "principalMessage \<Rightarrow> json" where
  "principal_json m =
     JObj [(''issuer'', JStr (pm_Issuer m)), (''subject'', JStr (pm_Subject m)), (''expires_unix_ms'', JNum (FormatInt (pm_ExpiresMS m)))]"

definition welcome_members :: "welcomeMessage member list" where
  "welcome_members =
     [(''op'', text_field (\<lambda>s. we_Op_update (\<lambda>_. s))), (''session_id'', text_field (\<lambda>s. we_SessionID_update (\<lambda>_. s))),
      (''epoch'', text_field (\<lambda>s. we_Epoch_update (\<lambda>_. s))), (''owner'', struct_field owner_members we_Owner (\<lambda>x. we_Owner_update (\<lambda>_. x))),
      (''principal'', struct_field principal_members we_Principal (\<lambda>x. we_Principal_update (\<lambda>_. x))),
      (''limits'', struct_field limit_members we_Limits (\<lambda>x. we_Limits_update (\<lambda>_. x))),
      (''capabilities'', texts_field we_Capabilities (\<lambda>xs. we_Capabilities_update (\<lambda>_. xs))),
      (''resumed'', bool_field (\<lambda>b. we_Resumed_update (\<lambda>_. b))), (''resumable'', bool_field (\<lambda>b. we_Resumable_update (\<lambda>_. b))),
      (''resume_grace_ms'', int_field (\<lambda>i. we_ResumeGraceMS_update (\<lambda>_. i))), (''resume_secret'', text_field (\<lambda>s. we_ResumeSecret_update (\<lambda>_. s)))]"

definition welcome_zero :: welcomeMessage where
  "welcome_zero = \<lparr>we_Op = [], we_SessionID = [], we_Epoch = [], we_Owner = \<lparr>om_ID = [], om_Incarnation = [], om_Address = [], om_ServerName = []\<rparr>,
     we_Principal = \<lparr>pm_Issuer = [], pm_Subject = [], pm_ExpiresMS = 0\<rparr>, we_Limits = limits_zero, we_Capabilities = [], we_Resumed = False,
     we_Resumable = False, we_ResumeGraceMS = 0, we_ResumeSecret = []\<rparr>"

definition welcome_fields :: "welcomeMessage \<Rightarrow> (string \<times> json) list" where
  "welcome_fields w =
     [(''op'', JStr (we_Op w)), (''session_id'', JStr (we_SessionID w)), (''epoch'', JStr (we_Epoch w)), (''owner'', owner_json (we_Owner w)),
      (''principal'', principal_json (we_Principal w)), (''limits'', limits_json (we_Limits w)), (''capabilities'', JArr (map JStr (we_Capabilities w))),
      (''resumed'', JBool (we_Resumed w)), (''resumable'', JBool (we_Resumable w)), (''resume_grace_ms'', JNum (FormatInt (we_ResumeGraceMS w)))]
     @ omitempty ''resume_secret'' (we_ResumeSecret w)"

definition parseWelcome :: "(string \<times> json) list \<Rightarrow> welcomeMessage option" where
  "parseWelcome fs = fill welcome_members (sorted_fields fs) welcome_zero"

definition close_members :: "closeMessage member list" where
  "close_members =
     [(''op'', text_field (\<lambda>s. cl_Op_update (\<lambda>_. s))), (''code'', u32_field (\<lambda>i. cl_Code_update (\<lambda>_. i))),
      (''message'', text_field (\<lambda>s. cl_Message_update (\<lambda>_. s)))]"

definition close_fields :: "closeMessage \<Rightarrow> (string \<times> json) list" where
  "close_fields m = [(''op'', JStr (cl_Op m)), (''code'', JNum (format_nat (unat (cl_Code m)))), (''message'', JStr (cl_Message m))]"

definition unmarshal_close :: "(string \<times> json) list \<Rightarrow> closeMessage option" where
  "unmarshal_close fs = fill close_members (sorted_fields fs) \<lparr>cl_Op = [], cl_Code = 0, cl_Message = []\<rparr>"

section \<open>What is sent is read back\<close>

text \<open>The contract of a kind of message: when a message may be sent, its tree is a typed control frame, and the record
  that is filled from it is the message.\<close>

locale control_message =
  fixes op :: string and members :: "'m \<Rightarrow> (string \<times> json) list" and unmarshal :: "(string \<times> json) list \<Rightarrow> 'm option"
    and received :: "'m \<Rightarrow> 'm" and sendable :: "'m \<Rightarrow> bool"
  assumes op_member: "sendable m \<Longrightarrow> map_of (members m) ''op'' = Some (JStr op)"
    and texts_ok: "sendable m \<Longrightarrow> json_ok (JObj (members m))"
    and nested: "sendable m \<Longrightarrow> well_nested 0 (JObj (members m))"
    and types: "sendable m \<Longrightarrow> typed \<lparr>ct_Op = op, ct_Fields = members m\<rparr>"
    and filled: "sendable m \<Longrightarrow> unmarshal (members m) = Some (received m)"
begin

lemma sent_is_received:
  assumes "sendable m" "length (Marshal (JObj (members m))) \<le> 16384"
  shows "\<exists>frame. encodeControl (JObj (members m)) = Inr frame
    \<and> (\<forall>rest e lim. 16384 \<le> lim \<longrightarrow> lim < 2 ^ 63 \<longrightarrow>
        (\<exists>c. readControlReader (Reader (frame @ rest) e) lim = Inr (c, Reader rest e) \<and> ct_Op c = op \<and> unmarshal (ct_Fields c) = Some (received m)))"
proof -
  let ?raw = "string_bytes (Marshal (JObj (members m)))" and ?c = "\<lparr>ct_Op = op, ct_Fields = members m\<rparr>"
  have body: "DecodeControlBody ?raw mx = Inr ?c" if "int (length ?raw) \<le> mx" for mx
    using that utf8_Marshal [OF texts_ok [OF assms(1)]] nested [OF assms(1)] op_member [OF assms(1)] types [OF assms(1)] texts_ok [OF assms(1)]
    unfolding control_frames_typed_iff by (simp add: Unmarshal_Marshal utf8_string_def del: Marshal.simps well_nested.simps json_ok.simps)
  have "control_limit PreNegotiationControlBytes = 16384"
    by (simp add: control_limit_def PreNegotiationControlBytes_def)
  then obtain frame where frame: "encodeControl (JObj (members m)) = Inr frame"
    using assms(2) body [of 16384] control_length [of ?raw]
    by (simp add: encodeControl_def EncodeControl_def AppendVarint_ok del: Marshal.simps)
  then obtain c where c: "DecodeControlBody ?raw (int (length ?raw)) = Inr c"
      "\<And>lim rest e. int (length ?raw) \<le> lim \<Longrightarrow> lim < 2 ^ 63 \<Longrightarrow> readControlReader (Reader (frame @ rest) e) lim = Inr (c, Reader rest e)"
    unfolding encodeControl_def by (rule control_frame_read) (rule that; assumption)
  moreover have "c = ?c"
    using c(1) body [of "int (length ?raw)"] by simp
  ultimately show ?thesis
    using frame assms(2) filled [OF assms(1)] by (auto simp del: Marshal.simps)
qed

end

text \<open>What the fields of a message must be for it to be sent.\<close>

definition wire_text :: "nat \<Rightarrow> nat \<Rightarrow> string \<Rightarrow> bool" where
  "wire_text lo hi s \<longleftrightarrow> lo \<le> length s \<and> length s \<le> hi \<and> utf8_string s"

definition wire_names :: "string list \<Rightarrow> bool" where
  "wire_names xs \<longleftrightarrow> distinct xs \<and> list_all (wire_text 1 128) xs"

definition wire_identifier :: "string \<Rightarrow> bool" where
  "wire_identifier s \<longleftrightarrow> conforms Identifier (JStr s)"

definition wire_positive :: "int \<Rightarrow> bool" where
  "wire_positive i \<longleftrightarrow> 0 < i \<and> i < 2 ^ 63"

definition sendable_limits :: "limitMessage \<Rightarrow> bool" where
  "sendable_limits l \<longleftrightarrow> list_all wire_positive [lm_ControlBytes l, lm_MessageBytes l, lm_DatagramBytes l, lm_ReliableChannels l,
     lm_DatagramChannels l, lm_Requests l, lm_Streams l]"

definition sendable_credential :: "credentialMessage \<Rightarrow> bool" where
  "sendable_credential c \<longleftrightarrow> wire_text 1 128 (cm_Scheme c) \<and> utf8_string (cm_Data c) \<and> conforms (Base64 0 4096) (JStr (cm_Data c))"

definition sendable_resume :: "resumeMessage \<Rightarrow> bool" where
  "sendable_resume r \<longleftrightarrow> wire_identifier (rm_SessionID r) \<and> wire_text 1 128 (rm_OwnerID r) \<and> wire_identifier (rm_Incarnation r)
     \<and> utf8_string (rm_Secret r) \<and> conforms (Base64 32 32) (JStr (rm_Secret r))"

definition sendable_hello :: "helloMessage \<Rightarrow> bool" where
  "sendable_hello h \<longleftrightarrow>
     he_Op h = ''hello'' \<and> he_Role h \<in> {''game'', ''bootstrap''} \<and> wire_text 1 128 (ai_ID (he_App h)) \<and> wire_text 1 128 (ai_Version (he_App h))
     \<and> wire_names (he_Required h) \<and> sendable_limits (he_Limits h) \<and> sendable_credential (he_Credential h) \<and> wire_text 0 256 (he_Group h)
     \<and> wire_text 0 4096 (he_Admission h) \<and> (case he_Resume h of None \<Rightarrow> True | Some r \<Rightarrow> sendable_resume r)"

definition sendable_welcome :: "welcomeMessage \<Rightarrow> bool" where
  "sendable_welcome w \<longleftrightarrow>
     we_Op w = ''welcome'' \<and> wire_identifier (we_SessionID w) \<and> decimal (we_Epoch w) \<and> we_Epoch w \<noteq> ''0''
     \<and> wire_text 1 128 (om_ID (we_Owner w)) \<and> wire_identifier (om_Incarnation (we_Owner w)) \<and> wire_text 1 128 (om_Address (we_Owner w))
     \<and> wire_text 1 128 (om_ServerName (we_Owner w)) \<and> wire_text 1 128 (pm_Issuer (we_Principal w)) \<and> wire_text 1 128 (pm_Subject (we_Principal w))
     \<and> wire_positive (pm_ExpiresMS (we_Principal w)) \<and> sendable_limits (we_Limits w) \<and> wire_names (we_Capabilities w)
     \<and> 0 \<le> we_ResumeGraceMS w \<and> we_ResumeGraceMS w < 2 ^ 63
     \<and> (we_ResumeSecret w \<noteq> [] \<longrightarrow> utf8_string (we_ResumeSecret w) \<and> conforms (Base64 32 32) (JStr (we_ResumeSecret w)))"

definition sendable_close :: "closeMessage \<Rightarrow> bool" where
  "sendable_close m \<longleftrightarrow> cl_Op m = ''close'' \<and> wire_text 0 256 (cl_Message m)"

lemma digit_isdigit: "n < 10 \<Longrightarrow> isdigit (digit n)"
proof -
  assume "n < 10"
  then have "digit n \<in> set ''0123456789''"
    by (simp add: digit_def del: set_simps)
  then show ?thesis
    by (simp only: digit_chars)
qed

lemma format_nat_head: "n > 0 \<Longrightarrow> hd (format_nat n) \<noteq> CHR ''0''"
proof (induction n rule: format_nat.induct)
  case (1 n)
  show ?case
  proof (cases "n < 10")
    case True
    with 1 have "n \<in> {1, 2, 3, 4, 5, 6, 7, 8, 9}"
      by auto
    then show ?thesis
      by (elim insertE emptyE) (simp_all add: format_nat.simps digit_def)
  next
    case False
    then show ?thesis
      using 1 by (simp add: format_nat.simps [of n])
  qed
qed

lemma format_nat_isdigit: "list_all isdigit (format_nat n)"
proof (induction n rule: format_nat.induct)
  case (1 n)
  then show ?case
    by (simp add: format_nat.simps [of n] digit_isdigit)
qed

lemma decimal_format_nat: "decimal (format_nat n)"
  using format_nat_head [of n] format_nat_isdigit [of n]
  by (cases "n = 0") (auto simp: decimal_def format_nat.simps [of 0] digit_def)

lemma parse_format_nat: "parse_nat (format_nat n) = Some n"
  using format_nat_digits [of n] by (auto simp: parse_nat_def)

lemma ParseUint_format_nat: "n < 2 ^ 64 \<Longrightarrow> ParseUint (format_nat n) = Some (of_nat n)"
  by (simp add: ParseUint_def parse_format_nat)

lemma ParseInt_FormatInt: "0 \<le> i \<Longrightarrow> i < 2 ^ 63 \<Longrightarrow> ParseInt (FormatInt i) = Some i"
proof -
  assume i: "0 \<le> i" "i < 2 ^ 63"
  obtain c cs where f: "format_nat (nat i) = c # cs"
    by (cases "format_nat (nat i)") auto
  then have "c \<noteq> CHR ''-''"
    using format_nat_isdigit [of "nat i"] by (auto simp: isdigit_def)
  then show ?thesis
    using i parse_format_nat [of "nat i"] by (auto simp: ParseInt_def FormatInt_def f)
qed

lemma FormatInt_facts [simp]:
  "0 \<le> i \<Longrightarrow> decimal (FormatInt i)"
  "wire_positive i \<Longrightarrow> decimal (FormatInt i)"
  "wire_positive i \<Longrightarrow> ParseInt (FormatInt i) = Some i"
  "wire_positive i \<Longrightarrow> conforms Positive64 (JNum (FormatInt i))"
proof -
  show "0 \<le> i \<Longrightarrow> decimal (FormatInt i)" "wire_positive i \<Longrightarrow> decimal (FormatInt i)"
    by (simp_all add: FormatInt_def decimal_format_nat wire_positive_def)
  show "wire_positive i \<Longrightarrow> ParseInt (FormatInt i) = Some i"
    by (simp add: wire_positive_def ParseInt_FormatInt)
  show "conforms Positive64 (JNum (FormatInt i))" if "wire_positive i"
  proof -
    have "nat i < 2 ^ 64" "0 < nat i"
      using that by (auto simp: wire_positive_def nat_less_iff)
    then have "ParseUint (FormatInt i) = Some (of_nat (nat i))" "unat (of_nat (nat i) :: u64) = nat i"
      using that by (simp_all add: FormatInt_def ParseUint_format_nat unat_of_nat_u64 wire_positive_def del: of_nat_nat)
    then show ?thesis
      using \<open>0 < nat i\<close> by (auto simp del: of_nat_nat)
  qed
qed

lemma wire_text_facts [simp]:
  "wire_text 1 128 s \<Longrightarrow> utf8_string s" "wire_text 0 256 s \<Longrightarrow> utf8_string s" "wire_text 0 4096 s \<Longrightarrow> utf8_string s"
  "wire_text lo hi s \<Longrightarrow> conforms (Str lo hi) (JStr s)"
  by (simp_all add: wire_text_def)

lemma wire_identifier_utf8 [simp]: "wire_identifier s \<Longrightarrow> utf8_string s"
proof -
  have "list_all (\<lambda>c. code c < 0x80) (hex_EncodeToString b)" for b
  proof (induction b)
    case (Cons x b)
    have "unat x div 16 mod 16 = unat x div 16"
      using unat_byte [of x] by simp
    then show ?case
      using Cons hex_digit_ascii [of "unat x div 16"] hex_digit_ascii [of "unat x"] by (simp add: hex_Encode_Cons)
  qed (simp add: hex_EncodeToString_def)
  then show "wire_identifier s \<Longrightarrow> utf8_string s"
    by (auto simp: wire_identifier_def intro: utf8_string_ascii split: option.splits)
qed

lemma wire_names_facts:
  assumes "wire_names xs"
  shows "conforms (Names 128) (JArr (map JStr xs))" "json_ok (JArr (map JStr xs))" "well_nested 1 (JArr (map JStr xs))"
    "fill_texts (map JStr xs) [] = Some xs"
proof -
  show "conforms (Names 128) (JArr (map JStr xs))" "json_ok (JArr (map JStr xs))"
    using assms by (auto simp: wire_names_def list_all_iff distinct_map inj_on_def wire_text_def Suc_le_eq simp del: wire_text_facts)
  show "well_nested 1 (JArr (map JStr xs))" "fill_texts (map JStr xs) [] = Some xs"
    by (induction xs) simp_all
qed

lemmas field_defs = text_field_def int_field_def u32_field_def bool_field_def texts_field_def struct_field_def pointer_field_def

lemma limits_sent:
  assumes "sendable_limits l"
  shows "conforms limits_shape (limits_json l)" "json_ok (limits_json l)" "well_nested 1 (limits_json l)"
    "\<exists>fs. limits_json l = JObj fs \<and> fill limit_members fs limits_zero = Some l"
  using assms
  by (simp_all add: sendable_limits_def limits_json_def limits_shape_def limit_names_def limit_members_def limits_zero_def member_of_def field_defs
      utf8_string_ascii del: conforms.simps(6))

lemma credential_sent:
  assumes "sendable_credential c"
  shows "conforms credential_shape (credential_json c)" "json_ok (credential_json c)" "well_nested 1 (credential_json c)"
    "\<exists>fs. credential_json c = JObj fs \<and> fill credential_members fs credential_zero = Some c"
  using assms
  by (simp_all add: sendable_credential_def credential_json_def credential_shape_def credential_members_def credential_zero_def member_of_def
      field_defs utf8_string_ascii del: conforms.simps(1,8) One_nat_def)

lemma resume_sent:
  assumes "sendable_resume r"
  shows "conforms (Object [(''session_id'', False, Identifier), (''owner_id'', False, Str 1 128), (''incarnation'', False, Identifier),
      (''secret'', False, Base64 32 32)]) (resume_json r)" "json_ok (resume_json r)" "well_nested 1 (resume_json r)"
    "\<exists>fs. resume_json r = JObj fs \<and> fill resume_members fs resume_zero = Some r"
  using assms
  by (simp_all add: sendable_resume_def resume_json_def resume_members_def resume_zero_def member_of_def field_defs utf8_string_ascii
      wire_identifier_def [symmetric] del: conforms.simps(1,3,8) One_nat_def)

lemma owner_sent:
  assumes "wire_text 1 128 (om_ID m)" "wire_identifier (om_Incarnation m)" "wire_text 1 128 (om_Address m)" "wire_text 1 128 (om_ServerName m)"
  shows "conforms (Object [(''id'', False, Str 1 128), (''incarnation'', False, Identifier), (''address'', False, Str 1 128),
      (''server_name'', False, Str 1 128)]) (owner_json m)" "json_ok (owner_json m)" "well_nested 1 (owner_json m)"
    "\<exists>fs. owner_json m = JObj fs \<and> fill owner_members fs (we_Owner welcome_zero) = Some m"
  using assms
  by (simp_all add: owner_json_def owner_members_def welcome_zero_def member_of_def field_defs utf8_string_ascii
      wire_identifier_def [symmetric] del: conforms.simps(1,3,8) One_nat_def)

lemma principal_sent:
  assumes "wire_text 1 128 (pm_Issuer m)" "wire_text 1 128 (pm_Subject m)" "wire_positive (pm_ExpiresMS m)"
  shows "conforms (Object [(''issuer'', False, Str 1 128), (''subject'', False, Str 1 128), (''expires_unix_ms'', False, Positive64)]) (principal_json m)"
    "json_ok (principal_json m)" "well_nested 1 (principal_json m)"
    "\<exists>fs. principal_json m = JObj fs \<and> fill principal_members fs (we_Principal welcome_zero) = Some m"
  using assms
  by (simp_all add: principal_json_def principal_members_def welcome_zero_def member_of_def field_defs utf8_string_ascii
      del: conforms.simps(1,6) One_nat_def)

lemma ascii_keys: "utf8_string ''op''" "utf8_string ''code''" "utf8_string ''message''"
  by (simp_all add: utf8_string_ascii)

interpretation close_message: control_message "''close''" close_fields unmarshal_close "\<lambda>m. m" sendable_close
proof
  fix m
  assume m: "sendable_close m"
  have code: "parse_nat (format_nat (unat (cl_Code m))) = Some (unat (cl_Code m))" "unat (cl_Code m) < 2 ^ 32"
      "conforms Nat64 (JNum (format_nat (unat (cl_Code m))))"
    using unsigned_less [of "cl_Code m", where ?'a = nat] by (simp_all add: parse_format_nat ParseUint_format_nat)
  show "map_of (close_fields m) ''op'' = Some (JStr ''close'')"
    using m by (simp add: close_fields_def sendable_close_def)
  show "json_ok (JObj (close_fields m))"
    using m by (simp add: close_fields_def sendable_close_def ascii_keys decimal_format_nat utf8_string_ascii)
  show "well_nested 0 (JObj (close_fields m))"
    by (simp add: close_fields_def)
  show "typed \<lparr>ct_Op = ''close'', ct_Fields = close_fields m\<rparr>"
    using m code(3) by (simp add: typed_def schemas diagnostic_members_def close_fields_def sendable_close_def del: conforms.simps(1,5))
  show "unmarshal_close (close_fields m) = Some m"
    using code(1,2) by (simp add: unmarshal_close_def sorted_fields_def sort_key_def close_fields_def close_members_def member_of_def field_defs)
qed

abbreviation unsent_app :: "helloMessage \<Rightarrow> helloMessage" where
  "unsent_app h \<equiv> (MarshalJSON h)\<lparr>he_App := \<lparr>ai_ID = [], ai_Version = []\<rparr>\<rparr>"

lemma optional_text: "omitempty k s = (if s = [] then [] else [(k, JStr s)])"
  by (simp add: omitempty_def)

lemma hello_typed:
  assumes "sendable_hello h"
  shows "typed \<lparr>ct_Op = ''hello'', ct_Fields = hello_fields h\<rparr>"
proof -
  have "wire_text 1 256 (he_Group h)" if "he_Group h \<noteq> []"
    using assms that by (simp add: sendable_hello_def wire_text_def Suc_le_eq del: wire_text_facts)
  moreover have "wire_text 1 4096 (he_Admission h)" if "he_Admission h \<noteq> []"
    using assms that by (simp add: sendable_hello_def wire_text_def Suc_le_eq del: wire_text_facts)
  ultimately show ?thesis
    using assms limits_sent(1) [of "he_Limits h"] credential_sent(1) [of "he_Credential h"] wire_names_facts(1) [of "he_Required h"] resume_sent(1)
    by (cases "he_Resume h"; cases "he_Group h = []"; cases "he_Admission h = []")
      (simp_all add: typed_def control_schemas_def hello_fields_def MarshalJSON_def Let_def optional_text sendable_hello_def
        del: conforms.simps(1,3-9) One_nat_def)
qed

lemma hello_filled:
  assumes "sendable_hello h"
  shows "unmarshal_hello (hello_fields h) = Some (unsent_app h)"
proof -
  obtain ls cs where ls: "limits_json (he_Limits h) = JObj ls" "fill limit_members ls limits_zero = Some (he_Limits h)"
      "credential_json (he_Credential h) = JObj cs" "fill credential_members cs credential_zero = Some (he_Credential h)"
    using assms limits_sent(4) [of "he_Limits h"] credential_sent(4) [of "he_Credential h"] by (auto simp: sendable_hello_def)
  have names: "fill_texts (map JStr (he_Required h)) [] = Some (he_Required h)"
    using assms wire_names_facts(4) by (simp add: sendable_hello_def)
  show ?thesis
  proof (cases "he_Resume h")
    case None
    then show ?thesis
      using ls names
      by (cases "he_Group h = []"; cases "he_Admission h = []"; cases h)
        (simp_all add: unmarshal_hello_def sorted_fields_def sort_key_def hello_fields_def MarshalJSON_def Let_def optional_text hello_members_def
          member_of_def field_defs hello_zero_def)
  next
    case (Some r)
    then obtain rs where rs: "resume_json r = JObj rs" "fill resume_members rs resume_zero = Some r"
      using assms resume_sent(4) [of r] by (auto simp: sendable_hello_def)
    then show ?thesis
      using ls names Some
      by (cases "he_Group h = []"; cases "he_Admission h = []"; cases h)
        (simp_all add: unmarshal_hello_def sorted_fields_def sort_key_def hello_fields_def MarshalJSON_def Let_def optional_text hello_members_def
          member_of_def field_defs hello_zero_def)
  qed
qed

interpretation hello_message: control_message "''hello''" hello_fields unmarshal_hello unsent_app sendable_hello
proof
  fix h
  assume h: "sendable_hello h"
  note parts = limits_sent [of "he_Limits h"] credential_sent [of "he_Credential h"] wire_names_facts [of "he_Required h"]
  show "map_of (hello_fields h) ''op'' = Some (JStr ''hello'')"
    using h by (simp add: hello_fields_def sendable_hello_def MarshalJSON_def Let_def)
  show "json_ok (JObj (hello_fields h))"
    using h parts(2,6,10) resume_sent(2)
    by (cases "he_Resume h") (auto simp: hello_fields_def sendable_hello_def MarshalJSON_def Let_def optional_text utf8_string_ascii)
  show "well_nested 0 (JObj (hello_fields h))"
    using h parts(3,7,11) resume_sent(3)
    by (cases "he_Resume h") (auto simp: hello_fields_def sendable_hello_def MarshalJSON_def Let_def optional_text)
  show "typed \<lparr>ct_Op = ''hello'', ct_Fields = hello_fields h\<rparr>" "unmarshal_hello (hello_fields h) = Some (unsent_app h)"
    using h by (simp_all add: hello_typed hello_filled)
qed

lemma welcome_typed:
  assumes "sendable_welcome w"
  shows "typed \<lparr>ct_Op = ''welcome'', ct_Fields = welcome_fields w\<rparr>"
proof -
  have "conforms Nat64 (JNum (FormatInt (we_ResumeGraceMS w)))"
    using assms by (simp add: sendable_welcome_def FormatInt_def ParseUint_format_nat nat_less_iff)
  moreover have "conforms PositiveDecimal (JStr (we_Epoch w))"
    using assms by (simp add: sendable_welcome_def)
  ultimately show ?thesis
    using assms limits_sent(1) [of "we_Limits w"] wire_names_facts(1) [of "we_Capabilities w"] owner_sent(1) [of "we_Owner w"]
      principal_sent(1) [of "we_Principal w"]
    by (cases "we_ResumeSecret w = []")
      (simp_all add: typed_def control_schemas_def welcome_fields_def optional_text sendable_welcome_def wire_identifier_def
        del: conforms.simps(1,3-6,8,9) One_nat_def)
qed

lemma welcome_filled:
  assumes "sendable_welcome w"
  shows "parseWelcome (welcome_fields w) = Some w"
proof -
  obtain ls os ps where ls: "limits_json (we_Limits w) = JObj ls" "fill limit_members ls limits_zero = Some (we_Limits w)"
      "owner_json (we_Owner w) = JObj os" "fill owner_members os (we_Owner welcome_zero) = Some (we_Owner w)"
      "principal_json (we_Principal w) = JObj ps" "fill principal_members ps (we_Principal welcome_zero) = Some (we_Principal w)"
    using assms limits_sent(4) [of "we_Limits w"] owner_sent(4) [of "we_Owner w"] principal_sent(4) [of "we_Principal w"]
    by (auto simp: sendable_welcome_def simp del: One_nat_def)
  moreover have "fill_texts (map JStr (we_Capabilities w)) [] = Some (we_Capabilities w)" "ParseInt (FormatInt (we_ResumeGraceMS w)) = Some (we_ResumeGraceMS w)"
    using assms wire_names_facts(4) by (simp_all add: sendable_welcome_def ParseInt_FormatInt)
  ultimately show ?thesis
    by (cases "we_ResumeSecret w = []"; cases w)
      (simp_all add: parseWelcome_def sorted_fields_def sort_key_def welcome_fields_def optional_text welcome_members_def member_of_def field_defs
        welcome_zero_def)
qed

interpretation welcome_message: control_message "''welcome''" welcome_fields parseWelcome "\<lambda>w. w" sendable_welcome
proof
  fix w
  assume w: "sendable_welcome w"
  note parts = limits_sent [of "we_Limits w"] owner_sent [of "we_Owner w"] principal_sent [of "we_Principal w"] wire_names_facts [of "we_Capabilities w"]
  have epoch: "utf8_string (we_Epoch w)"
    using w by (intro utf8_string_ascii) (auto simp: sendable_welcome_def decimal_def list_all_iff isdigit_def)
  show "map_of (welcome_fields w) ''op'' = Some (JStr ''welcome'')"
    using w by (simp add: welcome_fields_def sendable_welcome_def)
  show "json_ok (JObj (welcome_fields w))"
    using w epoch parts(2,6,10,14) by (auto simp: welcome_fields_def sendable_welcome_def optional_text utf8_string_ascii simp del: One_nat_def)
  show "well_nested 0 (JObj (welcome_fields w))"
    using w parts(3,7,11,15) by (auto simp: welcome_fields_def sendable_welcome_def optional_text)
  show "typed \<lparr>ct_Op = ''welcome'', ct_Fields = welcome_fields w\<rparr>" "parseWelcome (welcome_fields w) = Some w"
    using w by (simp_all add: welcome_typed welcome_filled)
qed

lemma parseHello_unsent: "parseHello (Some (unsent_app h)) = parseHello (Some (MarshalJSON h))"
  by (simp add: parseHello_def Let_def)

lemma parseClose_sent: "sendable_close m \<Longrightarrow> cl_Code m \<le> WrongMode \<Longrightarrow> parseClose utf8_string (Some m) = Some m"
  by (simp add: parseClose_def sendable_close_def wire_text_def not_less del: wire_text_facts)

definition fits :: "(string \<times> json) list \<Rightarrow> bool" where
  "fits fs \<longleftrightarrow> length (Marshal (JObj fs)) \<le> 16384"

text \<open>
  C19. What one endpoint writes on the control stream the other reads. A hello, a welcome or a close whose fields are within
  the bounds of the protocol is encoded as a frame; from a stream that goes on with anything the reader takes exactly that
  frame and the parser returns the message that was sent.
\<close>

theorem control_messages_received:
  "(sendable_hello h \<and> fits (hello_fields h) \<longrightarrow>
      (\<exists>frame. encodeControl (JObj (hello_fields h)) = Inr frame
        \<and> (\<forall>rest e lim. 16384 \<le> lim \<longrightarrow> lim < 2 ^ 63 \<longrightarrow>
             (\<exists>c. readControlReader (Reader (frame @ rest) e) lim = Inr (c, Reader rest e) \<and> ct_Op c = ''hello''
               \<and> parseHello (unmarshal_hello (ct_Fields c)) = parseHello (Some (MarshalJSON h))))))
   \<and> (sendable_welcome w \<and> fits (welcome_fields w) \<longrightarrow>
      (\<exists>frame. encodeControl (JObj (welcome_fields w)) = Inr frame
        \<and> (\<forall>rest e lim. 16384 \<le> lim \<longrightarrow> lim < 2 ^ 63 \<longrightarrow>
             (\<exists>c. readControlReader (Reader (frame @ rest) e) lim = Inr (c, Reader rest e) \<and> ct_Op c = ''welcome''
               \<and> parseWelcome (ct_Fields c) = Some w))))
   \<and> (sendable_close m \<and> cl_Code m \<le> WrongMode \<and> fits (close_fields m) \<longrightarrow>
      (\<exists>frame. encodeControl (JObj (close_fields m)) = Inr frame
        \<and> (\<forall>rest e lim. 16384 \<le> lim \<longrightarrow> lim < 2 ^ 63 \<longrightarrow>
             (\<exists>c. readControlReader (Reader (frame @ rest) e) lim = Inr (c, Reader rest e) \<and> ct_Op c = ''close''
               \<and> parseClose utf8_string (unmarshal_close (ct_Fields c)) = Some m))))"
  using hello_message.sent_is_received [of h] welcome_message.sent_is_received [of w] close_message.sent_is_received [of m]
  unfolding fits_def by (metis parseHello_unsent parseClose_sent)

text \<open>A bound on the size of a text: escaping makes a string at most six times as long.\<close>

lemma length_escape: "length (escape s) \<le> 6 * length s"
proof (induction s rule: escape.induct)
  case (2 c cs)
  define n where "n = rune_length (c # cs)"
  have ascii: "length (escape_ascii c) \<le> 6" "length (u_escape r) = 6" for r
    by (simp_all add: escape_ascii_def u_escape_def)
  have n: "n \<le> length (c # cs)"
    by (auto simp: n_def rune_length_def split: list.splits)
  consider "n = 0" | "n = 1" | "n > 1"
    by linarith
  then show ?case
  proof cases
    case 1
    then show ?thesis
      using 2(1) [OF n_def] by (simp add: escape.simps(2) n_def [symmetric] ascii)
  next
    case 2
    then show ?thesis
      using "2.IH"(2) [OF n_def] ascii(1) by (simp add: escape.simps(2) n_def [symmetric])
  next
    case 3
    have "length (escape (drop n (c # cs))) \<le> 6 * (length (c # cs) - n)"
      using 3 "2.IH"(3-5) [OF n_def] by fastforce
    then show ?thesis
      using 3 n by (auto simp: escape.simps(2) n_def [symmetric] ascii Let_def)
  qed
qed simp

fun bulk :: "json \<Rightarrow> nat" where
  "bulk (JStr s) = 6 * length s + 2"
| "bulk (JNum n) = length n"
| "bulk (JArr vs) = 2 + sum_list (map (\<lambda>v. bulk v + 1) vs)"
| "bulk (JObj ms) = 2 + sum_list (map (\<lambda>(k, v). 6 * length k + 3 + bulk v + 1) ms)"
| "bulk _ = 5"

lemma length_join: "length (join x xss) \<le> sum_list (map (\<lambda>xs. length xs + 1) xss)"
  by (induction xss rule: induct_list012) simp_all

lemma length_Marshal: "length (Marshal v) \<le> bulk v"
proof (induction v)
  case (JStr s)
  then show ?case by (simp add: quote_def length_escape)
next
  case (JArr vs)
  have "length (join (CHR '','') (map Marshal vs)) \<le> sum_list (map (\<lambda>v. length (Marshal v) + 1) vs)"
    using length_join [of "CHR '',''" "map Marshal vs"] by (simp add: o_def)
  also have "\<dots> \<le> sum_list (map (\<lambda>v. bulk v + 1) vs)"
    using JArr by (intro sum_list_mono) simp
  finally show ?case by simp
next
  case (JObj ms)
  let ?f = "\<lambda>(k, v). quote k @ CHR '':'' # Marshal v"
  have "length (join (CHR '','') (map ?f ms)) \<le> sum_list (map (\<lambda>m. length (?f m) + 1) ms)"
    using length_join [of "CHR '',''" "map ?f ms"] by (simp add: o_def)
  also have "\<dots> \<le> sum_list (map (\<lambda>(k, v). 6 * length k + 3 + bulk v + 1) ms)"
  proof (rule sum_list_mono)
    fix m
    assume m: "m \<in> set ms"
    obtain k v where kv: "m = (k, v)"
      by (cases m)
    show "length (?f m) + 1 \<le> (case m of (k, v) \<Rightarrow> 6 * length k + 3 + bulk v + 1)"
      using JObj [OF m, of v] length_escape [of k] by (simp add: kv quote_def)
  qed
  finally show ?case by simp
qed simp_all

definition greeting :: helloMessage where
  "greeting = \<lparr>he_Op = ''hello'', he_Role = ''game'', he_App = \<lparr>ai_ID = ''pong'', ai_Version = ''1''\<rparr>, he_AppID = [], he_AppVersion = [],
     he_Required = [''datagrams''], he_Limits = \<lparr>lm_ControlBytes = 16384, lm_MessageBytes = 65536, lm_DatagramBytes = 1200, lm_ReliableChannels = 8,
     lm_DatagramChannels = 8, lm_Requests = 8, lm_Streams = 8\<rparr>, he_Credential = \<lparr>cm_Scheme = ''jwt'', cm_Data = ''AQ''\<rparr>, he_Group = ''a<b'',
     he_Admission = [], he_Resume = None\<rparr>"

definition farewell :: closeMessage where
  "farewell = \<lparr>cl_Op = ''close'', cl_Code = 20, cl_Message = [CHR ''c'', CHR 0x0A, CHR 0xC3, CHR 0xBC]\<rparr>"

theorem control_messages_received_witness:
  "sendable_hello greeting \<and> fits (hello_fields greeting) \<and> sendable_close farewell \<and> fits (close_fields farewell)
   \<and> (\<exists>frame c. encodeControl (JObj (hello_fields greeting)) = Inr frame
       \<and> readControlReader (Reader (frame @ [1]) EOF) 16384 = Inr (c, Reader [1] EOF) \<and> ct_Op c = ''hello'')
   \<and> (\<exists>frame c. encodeControl (JObj (close_fields farewell)) = Inr frame
       \<and> readControlReader (Reader frame EOF) 16384 = Inr (c, Reader [] EOF)
       \<and> parseClose utf8_string (unmarshal_close (ct_Fields c)) = Some farewell)"
proof -
  have h: "sendable_hello greeting"
    by code_simp
  have "bulk (JObj (hello_fields greeting)) \<le> 16384"
    by (simp add: hello_fields_def greeting_def MarshalJSON_def limits_json_def credential_json_def optional_text FormatInt_def format_nat.simps)
  then have "fits (hello_fields greeting)"
    unfolding fits_def by (rule order_trans [OF length_Marshal])
  note h = h this
  have "bulk (JObj (close_fields farewell)) \<le> 16384"
    by (simp add: close_fields_def farewell_def format_nat.simps)
  then have "fits (close_fields farewell)"
    unfolding fits_def by (rule order_trans [OF length_Marshal])
  moreover have "sendable_close farewell" "cl_Code farewell \<le> WrongMode"
    by code_simp+
  ultimately have m: "sendable_close farewell" "fits (close_fields farewell)" "cl_Code farewell \<le> WrongMode"
    by simp_all
  have lim: "(16384 :: int) \<le> 16384" "(16384 :: int) < 2 ^ 63"
    by simp_all
  have "\<exists>frame c. encodeControl (JObj (hello_fields greeting)) = Inr frame
      \<and> readControlReader (Reader (frame @ [1]) EOF) 16384 = Inr (c, Reader [1] EOF) \<and> ct_Op c = ''hello''"
    using control_messages_received [of greeting] h lim by blast
  moreover have "\<exists>frame c. encodeControl (JObj (close_fields farewell)) = Inr frame
      \<and> readControlReader (Reader (frame @ []) EOF) 16384 = Inr (c, Reader [] EOF)
      \<and> parseClose utf8_string (unmarshal_close (ct_Fields c)) = Some farewell"
    using control_messages_received [of _ _ farewell] m lim by blast
  ultimately show ?thesis
    using h m by simp
qed

end
