(* ===== verification/Control_Channel.thy ===== *)
theory Control_Channel
  imports Runtime_Queue Types
begin

text \<open>
  The control channel of a connection (\<open>controlChannel\<close> in \<open>endpoint.go\<close>): frames are written by the caller until the
  handshake is over and by one goroutine behind a bounded queue from then on. A caller waits for the result of its frame on
  a channel of one slot. The critical sections under \<open>queueMu\<close>, the operations of the queue and the sends on such channels
  are the steps of a transition system at the end. The writer of the stream reports an error or how much it wrote.
\<close>

section \<open>Data\<close>

record queuedControlFrame =
  qf_id :: nat
  qf_payload :: bytes

text \<open>\<open>ch_cancelled\<close>: \<open>queueCtx\<close> is done. \<open>ch_exhausted\<close>: \<open>exhaustOnce\<close> has run the callback. \<open>ch_results\<close>: what is in the
  channels \<open>done\<close>.\<close>

record controlChannel =
  ch_queue :: "queuedControlFrame Queue option"
  ch_cancelled :: bool
  ch_closed :: bool
  ch_exhausted :: bool
  ch_results :: "nat \<Rightarrow> error option option"
  ch_written :: "bytes list"

definition newControlChannel :: controlChannel where
  "newControlChannel = \<lparr>ch_queue = None, ch_cancelled = False, ch_closed = False, ch_exhausted = False, ch_results = (\<lambda>_. None), ch_written = []\<rparr>"

section \<open>Operations\<close>

text \<open>\<open>outcome\<close> is what \<open>writer.Write\<close> returns: how many bytes it took, and its error.\<close>

definition writeFrame :: "nat \<times> error option \<Rightarrow> bytes \<Rightarrow> controlChannel \<Rightarrow> error option \<times> controlChannel" where
  "writeFrame outcome payload c =
     (case outcome of (written, err) \<Rightarrow>
        (if err = None \<and> written \<noteq> length payload then (Some (OtherError ''short write''), c)
         else (err, if err = None then c\<lparr>ch_written := ch_written c @ [payload]\<rparr> else c)))"

definition finishControlFrame :: "queuedControlFrame \<Rightarrow> error option \<Rightarrow> controlChannel \<Rightarrow> controlChannel" where
  "finishControlFrame frame err c =
     (case ch_results c (qf_id frame) of
        None \<Rightarrow> c\<lparr>ch_results := (ch_results c)(qf_id frame := Some err)\<rparr>
      | Some _ \<Rightarrow> c)"

text \<open>\<open>write\<close> up to the release of \<open>queueMu\<close>: what it returns, or that it goes on with or without the queue.\<close>

datatype write_path = WriteReturns "error option" | WriteDirect | WriteQueued

definition write_snapshot :: "controlChannel \<Rightarrow> write_path" where
  "write_snapshot c =
     (if ch_closed c then WriteReturns (Some (CtxError Canceled_ctx))
      else if ch_queue c = None then WriteDirect
      else WriteQueued)"

text \<open>The push: \<open>None\<close> when the caller goes on to wait for its result.\<close>

definition write_push :: "queuedControlFrame \<Rightarrow> controlChannel \<Rightarrow> error option \<times> controlChannel" where
  "write_push frame c =
     (case ch_queue c of
        None \<Rightarrow> (None, c)
      | Some q \<Rightarrow>
          (case TryPush q \<lparr>it_Value = frame, it_Bytes = int (length (qf_payload frame)), it_Key = 0\<rparr> of
             (True, q) \<Rightarrow> (None, c\<lparr>ch_queue := Some q\<rparr>)
           | (False, q) \<Rightarrow> (Some ErrBackpressure, c\<lparr>ch_exhausted := True\<rparr>)))"

definition startWriter :: "bool \<Rightarrow> int \<Rightarrow> int \<Rightarrow> controlChannel \<Rightarrow> bool \<times> controlChannel" where
  "startWriter ctx_done maxBytes maxItems c =
     (if ch_closed c \<or> ch_queue c \<noteq> None then (False, c)
      else (True, c\<lparr>ch_queue := NewQueue (max 1 maxBytes) (max 1 maxItems), ch_cancelled := ctx_done\<rparr>))"

text \<open>The loop over \<open>Pop\<close>.\<close>

function failQueuedControls :: "error option \<Rightarrow> queuedControlFrame Queue \<Rightarrow> controlChannel \<Rightarrow> queuedControlFrame Queue \<times> controlChannel" where
  "failQueuedControls err q c =
     (case Pop q of
        (None, q) \<Rightarrow> (q, c)
      | (Some item, q) \<Rightarrow> failQueuedControls err q (finishControlFrame (it_Value item) err c))"
  by pat_completeness auto
termination
  by (relation "measure (\<lambda>(err, q, c). length (q_items q))") (auto simp: Pop_def signal_q_def split: list.splits)

declare failQueuedControls.simps [simp del]

definition fail_queue :: "error option \<Rightarrow> controlChannel \<Rightarrow> controlChannel" where
  "fail_queue err c =
     (case ch_queue c of
        None \<Rightarrow> c
      | Some q \<Rightarrow> (let (q, c) = failQueuedControls err q c in c\<lparr>ch_queue := Some q\<rparr>))"

text \<open>\<open>stopWriter\<close>: first the mark under the lock, then the context, the queue and the frames that are left in it.\<close>

definition stopWriter :: "controlChannel \<Rightarrow> controlChannel" where
  "stopWriter c =
     (if ch_closed c then c
      else
        (let c = c\<lparr>ch_closed := True\<rparr> in
         case ch_queue c of
           None \<Rightarrow> c
         | Some q \<Rightarrow> fail_queue (Some (CtxError Canceled_ctx)) (c\<lparr>ch_cancelled := True, ch_queue := Some (Close_q q)\<rparr>)))"

text \<open>An iteration of \<open>writeLoop\<close>: taking a frame, and what is done with it. The loop returns when \<open>WaitPop\<close> fails or the
  context was found to be done, and fails what is still queued.\<close>

datatype loop_step = LoopWaits | LoopReturns | LoopHas queuedControlFrame

definition writeLoop_pop :: "controlChannel \<Rightarrow> loop_step \<times> controlChannel" where
  "writeLoop_pop c =
     (case ch_queue c of
        None \<Rightarrow> (LoopReturns, c)
      | Some q \<Rightarrow>
          (case WaitPop q of
             (Some (Inr item), q) \<Rightarrow> (LoopHas (it_Value item), c\<lparr>ch_queue := Some q\<rparr>)
           | (Some (Inl _), q) \<Rightarrow> (LoopReturns, c)
           | (None, q) \<Rightarrow> (if ch_cancelled c then LoopReturns else LoopWaits, c)))"

definition writeLoop_frame :: "bool \<Rightarrow> nat \<times> error option \<Rightarrow> queuedControlFrame \<Rightarrow> controlChannel \<Rightarrow> bool \<times> controlChannel" where
  "writeLoop_frame ctx_done outcome frame c =
     (if ctx_done
      then (False, fail_queue (Some (CtxError Canceled_ctx)) (finishControlFrame frame (Some (CtxError Canceled_ctx)) c))
      else (let (err, c) = writeFrame outcome (qf_payload frame) c in (True, finishControlFrame frame err c)))"

section \<open>The channel in use\<close>

text \<open>
  The goroutines around a channel whose writer was started: callers between their look at the channel and their push, callers
  waiting for a result, the frame the loop holds, whether it runs. \<open>cy_accepted\<close> remembers the frames that were queued,
  \<open>cy_returned\<close> what calls returned.
\<close>

record control_system =
  cy_channel :: controlChannel
  cy_pushing :: "queuedControlFrame list"
  cy_waiting :: "nat list"
  cy_hand :: "queuedControlFrame option"
  cy_running :: bool
  cy_accepted :: "queuedControlFrame list"
  cy_returned :: "(nat \<times> error option) list"

definition known :: "control_system \<Rightarrow> nat set" where
  "known y = qf_id ` set (cy_pushing y) \<union> qf_id ` set (cy_accepted y) \<union> fst ` set (cy_returned y)"

inductive writer_step :: "control_system \<Rightarrow> control_system \<Rightarrow> bool" where
  call: "write_snapshot (cy_channel y) = WriteQueued \<Longrightarrow> qf_id frame \<notin> known y \<Longrightarrow>
    writer_step y (y\<lparr>cy_pushing := frame # cy_pushing y\<rparr>)"
| push: "frame \<in> set (cy_pushing y) \<Longrightarrow> write_push frame (cy_channel y) = (None, c) \<Longrightarrow>
    writer_step y (y\<lparr>cy_channel := c, cy_pushing := remove1 frame (cy_pushing y), cy_waiting := qf_id frame # cy_waiting y,
      cy_accepted := cy_accepted y @ [frame]\<rparr>)"
| refuse: "frame \<in> set (cy_pushing y) \<Longrightarrow> write_push frame (cy_channel y) = (Some err, c) \<Longrightarrow>
    writer_step y (y\<lparr>cy_channel := c, cy_pushing := remove1 frame (cy_pushing y), cy_returned := (qf_id frame, Some err) # cy_returned y\<rparr>)"
| pop: "cy_running y \<Longrightarrow> cy_hand y = None \<Longrightarrow> writeLoop_pop (cy_channel y) = (LoopHas frame, c) \<Longrightarrow>
    writer_step y (y\<lparr>cy_channel := c, cy_hand := Some frame\<rparr>)"
| ends: "cy_running y \<Longrightarrow> cy_hand y = None \<Longrightarrow> writeLoop_pop (cy_channel y) = (LoopReturns, c) \<Longrightarrow>
    writer_step y (y\<lparr>cy_channel := fail_queue (Some (CtxError Canceled_ctx)) c, cy_running := False\<rparr>)"
| handle: "cy_running y \<Longrightarrow> cy_hand y = Some frame \<Longrightarrow> ctx_done \<longrightarrow> ch_cancelled (cy_channel y) \<Longrightarrow> writeLoop_frame ctx_done outcome frame (cy_channel y) = (go_on, c) \<Longrightarrow>
    writer_step y (y\<lparr>cy_channel := c, cy_hand := None, cy_running := go_on\<rparr>)"
| result: "i \<in> set (cy_waiting y) \<Longrightarrow> ch_results (cy_channel y) i = Some err \<Longrightarrow>
    writer_step y (y\<lparr>cy_waiting := remove1 i (cy_waiting y), cy_returned := (i, err) # cy_returned y\<rparr>)"
| abandoned: "i \<in> set (cy_waiting y) \<Longrightarrow> ch_cancelled (cy_channel y) \<Longrightarrow>
    writer_step y (y\<lparr>cy_waiting := remove1 i (cy_waiting y), cy_returned := (i, Some (CtxError Canceled_ctx)) # cy_returned y\<rparr>)"
| stop: "writer_step y (y\<lparr>cy_channel := stopWriter (cy_channel y)\<rparr>)"
| lost: "writer_step y (y\<lparr>cy_channel := (cy_channel y)\<lparr>ch_cancelled := True\<rparr>\<rparr>)"

definition writing :: "controlChannel \<Rightarrow> control_system" where
  "writing c = \<lparr>cy_channel = c, cy_pushing = [], cy_waiting = [], cy_hand = None, cy_running = True, cy_accepted = [], cy_returned = []\<rparr>"

section \<open>Invariant\<close>

definition contents :: "controlChannel \<Rightarrow> queuedControlFrame list" where
  "contents c = (case ch_queue c of None \<Rightarrow> [] | Some q \<Rightarrow> map it_Value (q_items q))"

definition in_hand :: "control_system \<Rightarrow> queuedControlFrame list" where
  "in_hand y = (case cy_hand y of None \<Rightarrow> [] | Some frame \<Rightarrow> [frame])"

text \<open>The channel with its queue: the queue is bounded, a closed one is empty, cancelled and marked.\<close>

definition channel_ok :: "controlChannel \<Rightarrow> bool" where
  "channel_ok c \<longleftrightarrow>
     (\<exists>q. ch_queue c = Some q \<and> queue_inv q {#} \<and> (q_closed q \<longleftrightarrow> ch_closed c) \<and> (ch_closed c \<longrightarrow> ch_cancelled c \<and> q_items q = []))"

text \<open>The frames without a result are, in the order they were queued, the one in hand and the queued ones; those with a good
  result are what was written, and no frame overtakes one that is still to be written.\<close>

definition ordered :: "queuedControlFrame list \<Rightarrow> queuedControlFrame list \<Rightarrow> (nat \<Rightarrow> error option option) \<Rightarrow> bytes list \<Rightarrow> bool" where
  "ordered accepted unanswered results written \<longleftrightarrow>
     unanswered = filter (\<lambda>frame. results (qf_id frame) = None) accepted
     \<and> written = map qf_payload (filter (\<lambda>frame. results (qf_id frame) = Some None) accepted)
     \<and> sorted_wrt (\<lambda>f g. results (qf_id f) = None \<longrightarrow> results (qf_id g) \<noteq> Some None) accepted
     \<and> (\<forall>i. results i \<noteq> None \<longrightarrow> i \<in> qf_id ` set accepted)"

definition order_ok :: "control_system \<Rightarrow> bool" where
  "order_ok y \<longleftrightarrow>
     ordered (cy_accepted y) (in_hand y @ contents (cy_channel y)) (ch_results (cy_channel y)) (ch_written (cy_channel y))"

definition calls_ok :: "control_system \<Rightarrow> bool" where
  "calls_ok y \<longleftrightarrow>
     distinct (map qf_id (cy_pushing y @ cy_accepted y)) \<and> distinct (cy_waiting y @ map fst (cy_returned y))
     \<and> set (cy_waiting y) \<subseteq> qf_id ` set (cy_accepted y) \<and> qf_id ` set (cy_pushing y) \<inter> fst ` set (cy_returned y) = {}
     \<and> (\<forall>i. (i, None) \<in> set (cy_returned y) \<longrightarrow> ch_results (cy_channel y) i = Some None)
     \<and> (\<not> cy_running y \<longrightarrow> cy_hand y = None \<and> ch_cancelled (cy_channel y))"

definition writer_inv :: "control_system \<Rightarrow> bool" where
  "writer_inv y \<longleftrightarrow> channel_ok (cy_channel y) \<and> order_ok y \<and> calls_ok y"

lemma failQueuedControls_eq:
  "failQueuedControls err q c = (q', c') \<Longrightarrow>
     q_items q' = [] \<and> q_closed q' = q_closed q \<and> q_maxBytes q' = q_maxBytes q \<and> q_maxItems q' = q_maxItems q \<and> (queue_inv q {#} \<longrightarrow> queue_inv q' {#})
     \<and> c' = c\<lparr>ch_results := (\<lambda>i. if ch_results c i = None \<and> i \<in> qf_id ` it_Value ` set (q_items q) then Some err else ch_results c i)\<rparr>"
proof (induction err q c arbitrary: q' c' rule: failQueuedControls.induct)
  case (1 err q c)
  show ?case
  proof (cases "q_items q")
    case Nil
    then have "Pop q = (None, q)"
      by (simp add: Pop_def)
    then show ?thesis
      using 1(2) Nil by (simp add: failQueuedControls.simps)
  next
    case (Cons item rest)
    define p where "p = snd (Pop q)"
    have pop: "Pop q = (Some item, p)" "q_items p = rest" "q_closed p = q_closed q" "q_maxBytes p = q_maxBytes q" "q_maxItems p = q_maxItems q" "queue_inv q {#} \<longrightarrow> queue_inv p {#}"
      using Cons Pop_inv [of q "{#}" "Some item" p] by (auto simp: p_def Pop_def signal_q_def)
    have "failQueuedControls err p (finishControlFrame (it_Value item) err c) = (q', c')"
      using 1(2) pop(1) by (simp add: failQueuedControls.simps [of err q])
    note 1(1) [OF pop(1) [symmetric] refl this]
    then show ?thesis
      using pop by (auto simp: Cons finishControlFrame_def fun_eq_iff split: option.splits)
  qed
qed

lemma fail_queue_eq:
  assumes "channel_ok c"
  shows "channel_ok (fail_queue err c)" "contents (fail_queue err c) = []"
    "ch_results (fail_queue err c) = (\<lambda>i. if ch_results c i = None \<and> i \<in> qf_id ` set (contents c) then Some err else ch_results c i)"
    "ch_written (fail_queue err c) = ch_written c" "ch_cancelled (fail_queue err c) = ch_cancelled c" "ch_closed (fail_queue err c) = ch_closed c"
proof -
  obtain q where q: "ch_queue c = Some q" "queue_inv q {#}" "q_closed q \<longleftrightarrow> ch_closed c" "ch_closed c \<longrightarrow> ch_cancelled c \<and> q_items q = []"
    using assms by (auto simp: channel_ok_def)
  obtain q' c' where f: "failQueuedControls err q c = (q', c')"
    by (cases "failQueuedControls err q c")
  note eq = failQueuedControls_eq [OF f]
  have fq: "fail_queue err c = c'\<lparr>ch_queue := Some q'\<rparr>"
    by (simp add: fail_queue_def q(1) f)
  show "channel_ok (fail_queue err c)" "contents (fail_queue err c) = []"
    "ch_results (fail_queue err c) = (\<lambda>i. if ch_results c i = None \<and> i \<in> qf_id ` set (contents c) then Some err else ch_results c i)"
    "ch_written (fail_queue err c) = ch_written c" "ch_cancelled (fail_queue err c) = ch_cancelled c" "ch_closed (fail_queue err c) = ch_closed c"
    using eq q by (auto simp: fq channel_ok_def contents_def)
qed

lemma push_accepted:
  assumes "channel_ok c" "write_push frame c = (None, c')"
  shows "channel_ok c'" "contents c' = contents c @ [frame]" "ch_results c' = ch_results c" "ch_written c' = ch_written c" "ch_cancelled c' = ch_cancelled c"
proof -
  obtain q where q: "ch_queue c = Some q" "queue_inv q {#}" "q_closed q \<longleftrightarrow> ch_closed c" "ch_closed c \<longrightarrow> ch_cancelled c \<and> q_items q = []"
    using assms(1) by (auto simp: channel_ok_def)
  let ?item = "\<lparr>it_Value = frame, it_Bytes = int (length (qf_payload frame)), it_Key = 0\<rparr>"
  obtain q' where push: "TryPush q ?item = (True, q')" "c' = c\<lparr>ch_queue := Some q'\<rparr>"
    using assms(2) q(1) by (auto simp: write_push_def split: prod.splits bool.splits)
  then have "q_items q' = q_items q @ [?item]" "q_closed q' = q_closed q" "\<not> q_closed q"
    by (auto simp: TryPush_def signal_q_def split: if_splits)
  then show "channel_ok c'" "contents c' = contents c @ [frame]" "ch_results c' = ch_results c" "ch_written c' = ch_written c" "ch_cancelled c' = ch_cancelled c"
    using q push TryPush_inv [OF q(2) push(1)] by (auto simp: channel_ok_def contents_def)
qed

lemma push_refused:
  assumes "channel_ok c" "write_push frame c = (Some err, c')"
  shows "err = ErrBackpressure \<and> c' = c\<lparr>ch_exhausted := True\<rparr>"
  using assms by (auto simp: write_push_def channel_ok_def split: prod.splits bool.splits)

lemma pop_taken:
  assumes "channel_ok c" "writeLoop_pop c = (LoopHas frame, c')"
  shows "channel_ok c'" "contents c = frame # contents c'" "ch_results c' = ch_results c" "ch_written c' = ch_written c" "ch_cancelled c' = ch_cancelled c"
proof -
  obtain q where q: "ch_queue c = Some q" "queue_inv q {#}" "q_closed q \<longleftrightarrow> ch_closed c" "ch_closed c \<longrightarrow> ch_cancelled c \<and> q_items q = []"
    using assms(1) by (auto simp: channel_ok_def)
  obtain item rest where items: "q_items q = item # rest"
    using assms(2) q(1) by (cases "q_items q") (auto simp: writeLoop_pop_def WaitPop_def Pop_def split: if_splits)
  define q' where "q' = snd (Pop q)"
  have pop: "Pop q = (Some item, q')" "q_items q' = rest" "q_closed q' = q_closed q"
    by (simp_all add: q'_def items Pop_def signal_q_def)
  have c': "frame = it_Value item" "c' = c\<lparr>ch_queue := Some q'\<rparr>"
    using assms(2) q(1) pop(1) by (simp_all add: writeLoop_pop_def WaitPop_def)
  show "channel_ok c'" "contents c = frame # contents c'" "ch_results c' = ch_results c" "ch_written c' = ch_written c" "ch_cancelled c' = ch_cancelled c"
    using q items pop Pop_inv [OF q(2) pop(1)] by (auto simp: c' channel_ok_def contents_def)
qed

lemma pop_returns: "channel_ok c \<Longrightarrow> writeLoop_pop c = (LoopReturns, c') \<Longrightarrow> c' = c \<and> ch_cancelled c"
  by (auto simp: writeLoop_pop_def WaitPop_def Pop_def channel_ok_def split: list.splits if_splits)

lemma finish_unanswered:
  "ch_results c (qf_id frame) = None \<Longrightarrow> finishControlFrame frame err c = c\<lparr>ch_results := (ch_results c)(qf_id frame := Some err)\<rparr>"
  by (simp add: finishControlFrame_def)

text \<open>A new frame, a result for the first unanswered frame, and a failure for all of them.\<close>

lemma ordered_push:
  assumes "ordered acc rest results w" "qf_id frame \<notin> qf_id ` set acc"
  shows "ordered (acc @ [frame]) (rest @ [frame]) results w"
proof -
  have "results (qf_id frame) = None"
    using assms by (auto simp: ordered_def)
  with assms(1) show ?thesis
    by (auto simp: ordered_def sorted_wrt_append)
qed

lemma sorted_wrt_all: "(\<And>x y. x \<in> set xs \<Longrightarrow> y \<in> set xs \<Longrightarrow> P x y) \<Longrightarrow> sorted_wrt P xs"
  by (induction xs) auto

lemma ordered_finish:
  assumes "ordered acc (frame # rest) results w" "distinct (map qf_id acc)"
  shows "results (qf_id frame) = None"
    and "ordered acc rest (results(qf_id frame := Some err)) (if err = None then w @ [qf_payload frame] else w)"
proof -
  let ?results = "results(qf_id frame := Some err)"
  obtain xs ys where acc: "acc = xs @ frame # ys" "\<forall>f \<in> set xs. results (qf_id f) \<noteq> None" "results (qf_id frame) = None"
      "rest = filter (\<lambda>f. results (qf_id f) = None) ys"
    using assms(1) by (auto simp: ordered_def eq_commute [of "frame # rest"] filter_eq_Cons_iff)
  show "results (qf_id frame) = None"
    by (fact acc(3))
  have same: "?results (qf_id f) = results (qf_id f)" if "f \<in> set xs \<union> set ys" for f
  proof -
    have "qf_id f \<noteq> qf_id frame"
      using assms(2) that by (auto simp: acc(1) rev_image_eqI)
    then show ?thesis
      by simp
  qed
  have late: "\<forall>g \<in> set ys. results (qf_id g) \<noteq> Some None"
    using assms(1) acc(3) by (auto simp: ordered_def acc(1) sorted_wrt_append)
  have cong: "filter (\<lambda>f. P (?results (qf_id f))) xs = filter (\<lambda>f. P (results (qf_id f))) xs"
      "filter (\<lambda>f. P (?results (qf_id f))) ys = filter (\<lambda>f. P (results (qf_id f))) ys" for P
    by (rule filter_cong; use same in auto)+
  have none: "filter (\<lambda>f. results (qf_id f) = None) xs = []" "filter (\<lambda>f. results (qf_id f) = Some None) ys = []"
    using acc(2) late by (auto simp: filter_empty_conv)
  have w: "w = map qf_payload (filter (\<lambda>f. results (qf_id f) = Some None) xs)"
    using assms(1) none(2) acc(3) by (simp add: ordered_def acc(1))
  have "sorted_wrt (\<lambda>f g. ?results (qf_id f) = None \<longrightarrow> ?results (qf_id g) \<noteq> Some None) xs"
      "sorted_wrt (\<lambda>f g. ?results (qf_id f) = None \<longrightarrow> ?results (qf_id g) \<noteq> Some None) ys"
    using acc(2) late same by (auto intro!: sorted_wrt_all simp del: fun_upd_apply)
  then show "ordered acc rest ?results (if err = None then w @ [qf_payload frame] else w)"
    unfolding ordered_def
    using cong [of "\<lambda>r. r = None"] cong [of "\<lambda>r. r = Some None"] none w acc same assms(1)
    by (auto simp: acc(1) sorted_wrt_append ordered_def)
qed

definition answered :: "queuedControlFrame list \<Rightarrow> error option \<Rightarrow> (nat \<Rightarrow> error option option) \<Rightarrow> nat \<Rightarrow> error option option" where
  "answered frames err results = (\<lambda>i. if results i = None \<and> i \<in> qf_id ` set frames then Some err else results i)"

lemma ordered_fail:
  assumes "ordered acc (hand @ frames) results w" "distinct (map qf_id acc)"
  shows "ordered acc hand (answered frames (Some e) results) w"
proof -
  let ?un = "filter (\<lambda>f. results (qf_id f) = None) acc"
  have un: "hand @ frames = ?un"
    using assms(1) by (simp add: ordered_def)
  then have "distinct (map qf_id (hand @ frames))"
    using distinct_map_filter [OF assms(2)] by simp
  then have hand: "filter (\<lambda>f. qf_id f \<notin> qf_id ` set frames) (hand @ frames) = hand"
    by (auto simp: filter_id_conv filter_empty_conv)
  have sub: "set frames \<subseteq> set acc"
    using arg_cong [OF un, of set] by auto
  have "filter (\<lambda>f. answered frames (Some e) results (qf_id f) = None) acc = filter (\<lambda>f. qf_id f \<notin> qf_id ` set frames) ?un"
    by (auto simp: answered_def filter_filter intro: filter_cong)
  then have "hand = filter (\<lambda>f. answered frames (Some e) results (qf_id f) = None) acc"
    using hand un by simp
  moreover have "filter (\<lambda>f. answered frames (Some e) results (qf_id f) = Some None) acc = filter (\<lambda>f. results (qf_id f) = Some None) acc"
    by (rule filter_cong) (auto simp: answered_def)
  moreover have "sorted_wrt (\<lambda>f g. answered frames (Some e) results (qf_id f) = None \<longrightarrow> answered frames (Some e) results (qf_id g) \<noteq> Some None) acc"
    by (rule sorted_wrt_mono_rel [of _ "\<lambda>f g. results (qf_id f) = None \<longrightarrow> results (qf_id g) \<noteq> Some None"])
      (use assms(1) in \<open>auto simp: answered_def ordered_def split: if_splits\<close>)
  ultimately show ?thesis
    using assms(1) sub by (auto simp: ordered_def answered_def split: if_splits)
qed

lemma stopWriter_eq:
  assumes "channel_ok c"
  shows "channel_ok (stopWriter c)" "ch_written (stopWriter c) = ch_written c" "ch_cancelled c \<Longrightarrow> ch_cancelled (stopWriter c)"
    "ch_closed (stopWriter c)" "contents (stopWriter c) = []" "ch_results (stopWriter c) = answered (contents c) (Some (CtxError Canceled_ctx)) (ch_results c)"
proof -
  obtain q where q: "ch_queue c = Some q" "queue_inv q {#}" "q_closed q \<longleftrightarrow> ch_closed c" "ch_closed c \<longrightarrow> ch_cancelled c \<and> q_items q = []"
    using assms by (auto simp: channel_ok_def)
  have "channel_ok (stopWriter c) \<and> ch_written (stopWriter c) = ch_written c \<and> (ch_cancelled c \<longrightarrow> ch_cancelled (stopWriter c))
    \<and> ch_closed (stopWriter c) \<and> contents (stopWriter c) = [] \<and> ch_results (stopWriter c) = answered (contents c) (Some (CtxError Canceled_ctx)) (ch_results c)"
  proof (cases "ch_closed c")
    case True
    then show ?thesis
      using assms q by (simp add: stopWriter_def contents_def answered_def)
  next
    case False
    define c1 where "c1 = c\<lparr>ch_closed := True, ch_cancelled := True, ch_queue := Some (Close_q q)\<rparr>"
    have c1: "ch_results c1 = ch_results c" "ch_written c1 = ch_written c" "ch_cancelled c1" "ch_closed c1"
      by (simp_all add: c1_def)
    obtain q' c' where f: "failQueuedControls (Some (CtxError Canceled_ctx)) (Close_q q) c1 = (q', c')"
      by (cases "failQueuedControls (Some (CtxError Canceled_ctx)) (Close_q q) c1")
    have "stopWriter c = c'\<lparr>ch_queue := Some q'\<rparr>"
      using False q(1) f by (simp add: stopWriter_def fail_queue_def c1_def)
    moreover have "q_items (Close_q q) = q_items q" "q_closed (Close_q q)" "queue_inv (Close_q q) {#}"
      using q(2) by (simp_all add: Close_q_def signal_q_def queue_inv_def)
    ultimately show ?thesis
      using failQueuedControls_eq [OF f] c1 q(1) by (simp add: channel_ok_def contents_def answered_def fun_eq_iff image_image)
  qed
  then show "channel_ok (stopWriter c)" "ch_written (stopWriter c) = ch_written c" "ch_cancelled c \<Longrightarrow> ch_cancelled (stopWriter c)"
    "ch_closed (stopWriter c)" "contents (stopWriter c) = []" "ch_results (stopWriter c) = answered (contents c) (Some (CtxError Canceled_ctx)) (ch_results c)"
    by simp_all
qed

text \<open>What a step leaves of the calls, given what it does to the channel: results stay, and so does the end of the context.\<close>

definition grows :: "controlChannel \<Rightarrow> controlChannel \<Rightarrow> bool" where
  "grows c c' \<longleftrightarrow> (\<forall>i e. ch_results c i = Some e \<longrightarrow> ch_results c' i = Some e) \<and> (ch_cancelled c \<longrightarrow> ch_cancelled c')"

lemma calls_ok_channel: "calls_ok y \<Longrightarrow> grows (cy_channel y) c \<Longrightarrow> calls_ok (y\<lparr>cy_channel := c\<rparr>)"
  by (auto simp: calls_ok_def grows_def)

lemma grows_answered: "ch_results c' = answered frames err (ch_results c) \<Longrightarrow> ch_cancelled c \<longrightarrow> ch_cancelled c' \<Longrightarrow> grows c c'"
  by (auto simp: grows_def answered_def)

lemma fail_queue_answered: "channel_ok c \<Longrightarrow> ch_results (fail_queue err c) = answered (contents c) err (ch_results c)"
  by (simp add: fail_queue_eq(3) answered_def)

lemma writeFrame_eq:
  assumes "writeFrame outcome payload c = (err, c')"
  shows "c' = (if err = None then c\<lparr>ch_written := ch_written c @ [payload]\<rparr> else c)"
  using assms by (auto simp: writeFrame_def split: prod.splits if_splits)

text \<open>What becomes of the frame in hand.\<close>

lemma writeLoop_frame_ok:
  assumes "channel_ok c" "ordered acc (frame # contents c) (ch_results c) (ch_written c)" "distinct (map qf_id acc)"
    and "ctx_done \<longrightarrow> ch_cancelled c" "writeLoop_frame ctx_done outcome frame c = (go_on, c')"
  shows "channel_ok c'" "ordered acc (contents c') (ch_results c') (ch_written c')" "grows c c'" "\<not> go_on \<longrightarrow> ch_cancelled c'"
proof -
  note none = ordered_finish(1) [OF assms(2,3)]
  have fin: "channel_ok (finishControlFrame frame err c1)" "contents (finishControlFrame frame err c1) = contents c"
      "ch_results (finishControlFrame frame err c1) = (ch_results c)(qf_id frame := Some err)" "ch_written (finishControlFrame frame err c1) = ch_written c1"
      "ch_cancelled (finishControlFrame frame err c1) = ch_cancelled c"
    if "c1 = c\<lparr>ch_written := w\<rparr>" for c1 err w
    using assms(1) none that by (simp_all add: finish_unanswered channel_ok_def contents_def)
  have "channel_ok c' \<and> ordered acc (contents c') (ch_results c') (ch_written c') \<and> grows c c' \<and> (\<not> go_on \<longrightarrow> ch_cancelled c')"
  proof (cases ctx_done)
    case True
    let ?e = "CtxError Canceled_ctx"
    define c1 where "c1 = finishControlFrame frame (Some ?e) c"
    note f1 = fin [of c "ch_written c" "Some ?e", simplified, folded c1_def]
    have c': "c' = fail_queue (Some ?e) c1" "\<not> go_on"
      using assms(5) True by (auto simp: writeLoop_frame_def c1_def)
    have "ordered acc ([] @ contents c1) (ch_results c1) (ch_written c1)"
      using ordered_finish(2) [OF assms(2,3), of "Some ?e"] by (simp add: f1)
    then have "ordered acc [] (answered (contents c1) (Some ?e) (ch_results c1)) (ch_written c1)"
      using assms(3) by (rule ordered_fail)
    moreover have "grows c c'"
      using none by (auto simp: grows_def c' fail_queue_answered [OF f1(1)] fail_queue_eq [OF f1(1)] f1 answered_def)
    ultimately show ?thesis
      using assms(4) True by (simp add: c' fail_queue_eq(1,2,4,5) [OF f1(1)] fail_queue_answered [OF f1(1)] f1)
  next
    case False
    obtain err c1 where w: "writeFrame outcome (qf_payload frame) c = (err, c1)"
      by (cases "writeFrame outcome (qf_payload frame) c")
    define w1 where "w1 = (if err = None then ch_written c @ [qf_payload frame] else ch_written c)"
    have c1: "c1 = c\<lparr>ch_written := w1\<rparr>"
      using writeFrame_eq [OF w] by (simp add: w1_def)
    have c': "c' = finishControlFrame frame err c1" "go_on"
      using assms(5) False w by (auto simp: writeLoop_frame_def)
    show ?thesis
      using ordered_finish(2) [OF assms(2,3), of err] none fin [OF c1, of err] c1 by (auto simp: c' w1_def grows_def)
  qed
  then show "channel_ok c'" "ordered acc (contents c') (ch_results c') (ch_written c')" "grows c c'" "\<not> go_on \<longrightarrow> ch_cancelled c'"
    by simp_all
qed



lemma writer_inv_start:
  assumes "ch_closed c = False" "ch_queue c = None" "ch_results c = (\<lambda>_. None)" "ch_written c = []"
    and "startWriter ctx_done maxBytes maxItems c = (True, c')"
  shows "writer_inv (writing c')"
proof -
  obtain q :: "queuedControlFrame Queue" where q: "NewQueue (max 1 maxBytes) (max 1 maxItems) = Some q" "queue_inv q {#}" "q_items q = []" "\<not> q_closed q"
    using NewQueue_inv [of "max 1 maxBytes" "max 1 maxItems"] by (auto simp: NewQueue_def)
  moreover have "c' = c\<lparr>ch_queue := Some q, ch_cancelled := ctx_done\<rparr>"
    using assms(5) q(1) by (simp add: startWriter_def split: if_splits)
  ultimately show ?thesis
    using assms(1-4)
    by (auto simp: writer_inv_def channel_ok_def order_ok_def ordered_def calls_ok_def writing_def in_hand_def contents_def)
qed

lemma distinct_moved:
  assumes "frame \<in> set frames" "distinct (map qf_id (frames @ acc))"
  shows "distinct (map qf_id (remove1 frame frames @ acc))" "qf_id frame \<notin> qf_id ` set (remove1 frame frames @ acc)"
proof -
  have "mset (map qf_id (frames @ acc)) = mset (qf_id frame # map qf_id (remove1 frame frames @ acc))"
    using assms(1) by (simp add: mset_remove1 image_mset_Diff)
  then have "distinct (qf_id frame # map qf_id (remove1 frame frames @ acc))"
    using assms(2) mset_eq_imp_distinct_iff by blast
  then show "distinct (map qf_id (remove1 frame frames @ acc))" "qf_id frame \<notin> qf_id ` set (remove1 frame frames @ acc)"
    by auto
qed

lemma distinct_returned:
  assumes "i \<in> set waiting" "distinct (waiting @ map fst returned)"
  shows "distinct (remove1 i waiting @ map fst ((i, err) # returned))"
  using assms by (auto simp: set_remove1_eq)

lemma calls_push:
  assumes "calls_ok y" "frame \<in> set (cy_pushing y)" "ch_results c = ch_results (cy_channel y)" "ch_cancelled c = ch_cancelled (cy_channel y)"
  shows "calls_ok (y\<lparr>cy_channel := c, cy_pushing := remove1 frame (cy_pushing y), cy_waiting := qf_id frame # cy_waiting y, cy_accepted := cy_accepted y @ [frame]\<rparr>)"
    "calls_ok (y\<lparr>cy_channel := c, cy_pushing := remove1 frame (cy_pushing y), cy_returned := (qf_id frame, Some err) # cy_returned y\<rparr>)"
proof -
  define p where "p = remove1 frame (cy_pushing y)"
  have moved: "distinct (map qf_id (p @ cy_accepted y))" "qf_id frame \<notin> qf_id ` set p" "qf_id frame \<notin> qf_id ` set (cy_accepted y)"
    using distinct_moved [OF assms(2), of "cy_accepted y"] assms(1) unfolding calls_ok_def p_def by (simp_all add: image_Un)
  have "set p \<subseteq> set (cy_pushing y)"
    by (simp add: p_def set_remove1_subset)
  moreover have "qf_id ` set (cy_pushing y) \<inter> fst ` set (cy_returned y) = {}" "set (cy_waiting y) \<subseteq> qf_id ` set (cy_accepted y)"
    using assms(1) by (simp_all add: calls_ok_def)
  ultimately have apart: "qf_id frame \<notin> set (cy_waiting y)" "qf_id frame \<notin> fst ` set (cy_returned y)" "qf_id ` set p \<inter> fst ` set (cy_returned y) = {}"
    using moved(3) assms(2) by auto
  have old: "distinct (cy_waiting y @ map fst (cy_returned y))" "set (cy_waiting y) \<subseteq> qf_id ` set (cy_accepted y)"
      "\<forall>i. (i, None) \<in> set (cy_returned y) \<longrightarrow> ch_results c i = Some None" "\<not> cy_running y \<longrightarrow> cy_hand y = None \<and> ch_cancelled c"
    using assms(1,3,4) by (simp_all add: calls_ok_def)
  show "calls_ok (y\<lparr>cy_channel := c, cy_pushing := remove1 frame (cy_pushing y), cy_waiting := qf_id frame # cy_waiting y, cy_accepted := cy_accepted y @ [frame]\<rparr>)"
  proof -
    have "distinct (map qf_id (p @ cy_accepted y @ [frame]))" "distinct ((qf_id frame # cy_waiting y) @ map fst (cy_returned y))"
        "set (qf_id frame # cy_waiting y) \<subseteq> qf_id ` set (cy_accepted y @ [frame])"
      using moved apart old(1,2) by auto
    then show ?thesis
      unfolding calls_ok_def p_def [symmetric] using apart(3) old(3,4) by simp
  qed
  show "calls_ok (y\<lparr>cy_channel := c, cy_pushing := remove1 frame (cy_pushing y), cy_returned := (qf_id frame, Some err) # cy_returned y\<rparr>)"
    unfolding calls_ok_def p_def [symmetric] using moved apart old by simp
qed

lemma calls_return:
  assumes "calls_ok y" "i \<in> set (cy_waiting y)" "err = None \<longrightarrow> ch_results (cy_channel y) i = Some None"
  shows "calls_ok (y\<lparr>cy_waiting := remove1 i (cy_waiting y), cy_returned := (i, err) # cy_returned y\<rparr>)"
proof -
  have "i \<notin> qf_id ` set (cy_pushing y)"
    using assms(1,2) by (auto simp: calls_ok_def)
  then show ?thesis
    using assms distinct_returned [of i "cy_waiting y" "cy_returned y" err] set_remove1_subset [of i "cy_waiting y"] by (auto simp: calls_ok_def)
qed

lemma writer_step_inv: "writer_step y y' \<Longrightarrow> writer_inv y \<Longrightarrow> writer_inv y'"
proof (induction rule: writer_step.induct)
  case (call y frame)
  then show ?case
    by (auto simp: writer_inv_def order_ok_def calls_ok_def in_hand_def known_def)
next
  case (push frame y c)
  note ok = push(3) [unfolded writer_inv_def order_ok_def]
  note p = push_accepted [OF conjunct1 [OF ok] push(2)]
  have new: "qf_id frame \<notin> qf_id ` set (cy_accepted y)"
    using ok push(1) by (auto simp: calls_ok_def)
  show ?case
    using ok p calls_push(1) [OF _ push(1) p(3,5)] ordered_push [OF _ new, of "in_hand y @ contents (cy_channel y)"]
    by (simp add: writer_inv_def order_ok_def in_hand_def)
next
  case (refuse frame y err c)
  note ok = refuse(3) [unfolded writer_inv_def]
  have c: "c = (cy_channel y)\<lparr>ch_exhausted := True\<rparr>"
    using push_refused [OF conjunct1 [OF ok] refuse(2)] by simp
  have "channel_ok c" "contents c = contents (cy_channel y)"
    using ok by (simp_all add: c channel_ok_def contents_def)
  moreover have "calls_ok (y\<lparr>cy_channel := c, cy_pushing := remove1 frame (cy_pushing y), cy_returned := (qf_id frame, Some err) # cy_returned y\<rparr>)"
    using ok refuse(1) by (intro calls_push(2)) (simp_all add: c)
  ultimately show ?case
    using ok by (simp add: writer_inv_def order_ok_def in_hand_def c)
next
  case (pop y frame c)
  note ok = pop(4) [unfolded writer_inv_def order_ok_def]
  note p = pop_taken [OF conjunct1 [OF ok] pop(3)]
  have "grows (cy_channel y) c"
    using p by (simp add: grows_def)
  then show ?case
    using ok p pop(1,2) calls_ok_channel [of y c] by (auto simp: writer_inv_def order_ok_def in_hand_def calls_ok_def)
next
  case (ends y c)
  note ok = ends(4) [unfolded writer_inv_def order_ok_def]
  have c: "c = cy_channel y" and cancelled: "ch_cancelled (cy_channel y)"
    using pop_returns [OF conjunct1 [OF ok] ends(3)] by simp_all
  note f = fail_queue_eq(1,2,4,5) [OF conjunct1 [OF ok]] fail_queue_answered [OF conjunct1 [OF ok]]
  have "ordered (cy_accepted y) [] (answered (contents (cy_channel y)) (Some (CtxError Canceled_ctx)) (ch_results (cy_channel y))) (ch_written (cy_channel y))"
    using ok ends(2) by (intro ordered_fail [where hand = "[]"]) (auto simp: in_hand_def calls_ok_def)
  then show ?case
    using ok ends(2) cancelled f calls_ok_channel [OF _ grows_answered [OF f(5)]] by (simp add: writer_inv_def order_ok_def in_hand_def calls_ok_def c)
next
  case (handle y frame ctx_done outcome go_on c)
  note ok = handle(5) [unfolded writer_inv_def order_ok_def]
  have dist: "distinct (map qf_id (cy_accepted y))" and ord: "ordered (cy_accepted y) (frame # contents (cy_channel y)) (ch_results (cy_channel y)) (ch_written (cy_channel y))"
    using ok handle(2) by (auto simp: calls_ok_def in_hand_def)
  note w = writeLoop_frame_ok [OF conjunct1 [OF ok] ord dist handle(3,4)]
  show ?case
    using ok w calls_ok_channel [of y c] by (auto simp: writer_inv_def order_ok_def in_hand_def calls_ok_def)
next
  case (result i y err)
  then show ?case
    using calls_return [of y i err] by (simp add: writer_inv_def order_ok_def in_hand_def)
next
  case (abandoned i y)
  then show ?case
    using calls_return [of y i "Some (CtxError Canceled_ctx)"] by (simp add: writer_inv_def order_ok_def in_hand_def)
next
  case (stop y)
  note ok = stop [unfolded writer_inv_def order_ok_def]
  note st = stopWriter_eq [OF conjunct1 [OF ok]]
  have "calls_ok (y\<lparr>cy_channel := stopWriter (cy_channel y)\<rparr>)"
    using ok st(3,6) by (intro calls_ok_channel grows_answered) auto
  moreover have "order_ok (y\<lparr>cy_channel := stopWriter (cy_channel y)\<rparr>)"
    using ok st ordered_fail [of "cy_accepted y" "in_hand y"] by (auto simp: order_ok_def in_hand_def calls_ok_def)
  ultimately show ?case
    using st(1) by (simp add: writer_inv_def)
next
  case (lost y)
  then show ?case
    by (auto simp: writer_inv_def order_ok_def in_hand_def contents_def calls_ok_def channel_ok_def)
qed

text \<open>The limits of the queue never change.\<close>

definition limits :: "controlChannel \<Rightarrow> (int \<times> int) option" where
  "limits c = map_option (\<lambda>q. (q_maxBytes q, q_maxItems q)) (ch_queue c)"

lemma limits_finish [simp]: "ch_queue (finishControlFrame frame err c) = ch_queue c"
  by (simp add: finishControlFrame_def split: option.split)

lemma limits_ops [simp]:
  "limits (fail_queue err c) = limits c" "limits (stopWriter c) = limits c" "limits (snd (write_push frame c)) = limits c"
  "limits (snd (writeLoop_pop c)) = limits c" "limits (snd (writeLoop_frame ctx_done outcome frame c)) = limits c"
proof -
  show fail: "limits (fail_queue err c) = limits c" for err c
    using failQueuedControls_eq by (fastforce simp: limits_def fail_queue_def split: option.split prod.split)
  show "limits (stopWriter c) = limits c"
    by (simp add: stopWriter_def fail Let_def split: option.split) (simp add: limits_def Close_q_def signal_q_def split: option.split)
  show "limits (snd (write_push frame c)) = limits c"
    by (auto simp: limits_def write_push_def TryPush_def signal_q_def split: option.split prod.splits bool.splits if_splits)
  show "limits (snd (writeLoop_pop c)) = limits c"
    by (auto simp: limits_def writeLoop_pop_def WaitPop_def Pop_def signal_q_def split: option.split list.split)
  have "limits c' = limits c" if "writeFrame outcome payload c = (err, c')" for payload err c'
    using writeFrame_eq [OF that] by (simp add: limits_def)
  then show "limits (snd (writeLoop_frame ctx_done outcome frame c)) = limits c"
    by (auto simp: writeLoop_frame_def fail split: prod.split) (simp_all add: limits_def)
qed

lemma writer_step_limits: "writer_step y y' \<Longrightarrow> limits (cy_channel y') = limits (cy_channel y)"
proof (induction rule: writer_step.induct)
  case (push frame y c)
  then show ?case
    using limits_ops(3) [of frame "cy_channel y"] by simp
next
  case (refuse frame y err c)
  then show ?case
    using limits_ops(3) [of frame "cy_channel y"] by simp
next
  case (pop y frame c)
  then show ?case
    using limits_ops(4) [of "cy_channel y"] by simp
next
  case (ends y c)
  then show ?case
    using limits_ops(4) [of "cy_channel y"] by simp
next
  case (handle y frame ctx_done outcome go_on c)
  then show ?case
    using limits_ops(5) [of ctx_done outcome frame "cy_channel y"] by simp
next
  case (lost y)
  then show ?case
    by (simp add: limits_def)
qed simp_all

lemma writer_reachable:
  assumes "startWriter ctx_done maxBytes maxItems newControlChannel = (True, c)" "writer_step\<^sup>*\<^sup>* (writing c) y"
  shows "writer_inv y" "limits (cy_channel y) = Some (max 1 maxBytes, max 1 maxItems)"
proof -
  have "writer_inv y \<and> limits (cy_channel y) = limits c"
    using assms(2)
  proof (induction rule: rtranclp_induct)
    case base
    show ?case
      using writer_inv_start [OF _ _ _ _ assms(1)] by (simp add: newControlChannel_def writing_def)
  next
    case (step y z)
    then show ?case
      using writer_step_inv writer_step_limits by metis
  qed
  then show "writer_inv y" "limits (cy_channel y) = Some (max 1 maxBytes, max 1 maxItems)"
    using assms(1) by (auto simp: startWriter_def newControlChannel_def limits_def NewQueue_def)
qed

lemma waiting_answered:
  assumes "writer_inv y" "i \<in> set (cy_waiting y)"
  shows "ch_results (cy_channel y) i \<noteq> None \<or> ch_cancelled (cy_channel y) \<or> (cy_running y \<and> i \<in> qf_id ` set (in_hand y @ contents (cy_channel y)))"
proof -
  have "i \<in> qf_id ` set (cy_accepted y)"
    using assms unfolding writer_inv_def calls_ok_def by blast
  then obtain frame where "frame \<in> set (cy_accepted y)" "qf_id frame = i"
    by auto
  then show ?thesis
    using assms(1) by (auto simp: writer_inv_def calls_ok_def order_ok_def ordered_def)
qed

section \<open>Properties\<close>

text \<open>
  C21. A channel whose writer was started, with any callers, writes, results and a stop at any time: the frames without a
  result are the one in hand and the queued ones, in the order they were queued; what was written is, in that order, the
  frames with a good result; a call returns at most once, and with success only if its frame was written; a caller that waits
  has its result, or the context is done, or the loop runs and has its frame; the queue keeps its two limits.
\<close>

theorem control_writer:
  assumes "startWriter ctx_done maxBytes maxItems newControlChannel = (True, c)" "writer_step\<^sup>*\<^sup>* (writing c) y"
  shows "filter (\<lambda>f. ch_results (cy_channel y) (qf_id f) = None) (cy_accepted y) = in_hand y @ contents (cy_channel y)
    \<and> ch_written (cy_channel y) = map qf_payload (filter (\<lambda>f. ch_results (cy_channel y) (qf_id f) = Some None) (cy_accepted y))
    \<and> distinct (map fst (cy_returned y))
    \<and> (\<forall>i. (i, None) \<in> set (cy_returned y) \<longrightarrow> (\<exists>f \<in> set (cy_accepted y). qf_id f = i \<and> qf_payload f \<in> set (ch_written (cy_channel y))))
    \<and> (\<forall>i \<in> set (cy_waiting y). ch_results (cy_channel y) i \<noteq> None \<or> ch_cancelled (cy_channel y)
          \<or> (cy_running y \<and> i \<in> qf_id ` set (in_hand y @ contents (cy_channel y))))
    \<and> (\<exists>q. ch_queue (cy_channel y) = Some q \<and> int (length (q_items q)) \<le> max 1 maxItems \<and> q_bytes q \<le> max 1 maxBytes)"
proof -
  note inv = writer_reachable(1) [OF assms] and limits = writer_reachable(2) [OF assms]
  have ord: "ordered (cy_accepted y) (in_hand y @ contents (cy_channel y)) (ch_results (cy_channel y)) (ch_written (cy_channel y))"
    and calls: "calls_ok y"
    using inv by (simp_all add: writer_inv_def order_ok_def)
  have "\<exists>f \<in> set (cy_accepted y). qf_id f = i \<and> qf_payload f \<in> set (ch_written (cy_channel y))" if "(i, None) \<in> set (cy_returned y)" for i
  proof -
    have good: "ch_results (cy_channel y) i = Some None"
      using calls that by (simp add: calls_ok_def)
    then obtain f where "f \<in> set (cy_accepted y)" "qf_id f = i"
      using ord by (auto simp: ordered_def)
    with good ord show ?thesis
      by (auto simp: ordered_def)
  qed
  moreover obtain q where "ch_queue (cy_channel y) = Some q" "queue_inv q {#}"
    using inv by (auto simp: writer_inv_def channel_ok_def)
  ultimately show ?thesis
    using ord calls limits waiting_answered [OF inv] by (auto simp: ordered_def calls_ok_def limits_def queue_inv_def)
qed

text \<open>A frame that is queued, taken, written and answered.\<close>

definition sample_channel :: controlChannel where
  "sample_channel = snd (startWriter False 64 4 newControlChannel)"

definition sample_frame :: queuedControlFrame where
  "sample_frame = \<lparr>qf_id = 7, qf_payload = [1, 2, 3]\<rparr>"

definition sample_written :: control_system where
  "sample_written =
     (let c1 = snd (write_push sample_frame sample_channel); c2 = snd (writeLoop_pop c1); c3 = snd (writeLoop_frame False (3, None) sample_frame c2)
      in (writing c3)\<lparr>cy_accepted := [sample_frame], cy_returned := [(7, None)]\<rparr>)"

lemma written_run: "writer_step\<^sup>*\<^sup>* (writing sample_channel) sample_written"
proof -
  let ?c1 = "snd (write_push sample_frame sample_channel)"
  let ?c2 = "snd (writeLoop_pop ?c1)"
  let ?c3 = "snd (writeLoop_frame False (3, None) sample_frame ?c2)"
  have fsts: "write_snapshot sample_channel = WriteQueued" "fst (write_push sample_frame sample_channel) = None"
      "fst (writeLoop_pop ?c1) = LoopHas sample_frame" "fst (writeLoop_frame False (3, None) sample_frame ?c2) = True" "ch_results ?c3 7 = Some None"
    by code_simp+
  then have ops: "write_snapshot sample_channel = WriteQueued" "write_push sample_frame sample_channel = (None, ?c1)"
      "writeLoop_pop ?c1 = (LoopHas sample_frame, ?c2)" "writeLoop_frame False (3, None) sample_frame ?c2 = (True, ?c3)" "ch_results ?c3 7 = Some None"
    by (simp_all only: prod_eq_iff fst_conv snd_conv simp_thms)
  have "writer_step (writing sample_channel) ((writing sample_channel)\<lparr>cy_pushing := [sample_frame]\<rparr>)" (is "writer_step _ ?y1")
    using writer_step.call [of "writing sample_channel" sample_frame] ops(1) by (simp add: writing_def known_def)
  moreover have "writer_step ?y1 ((writing ?c1)\<lparr>cy_waiting := [7], cy_accepted := [sample_frame]\<rparr>)" (is "writer_step _ ?y2")
    using writer_step.push [of sample_frame ?y1 ?c1] ops(2) by (simp add: writing_def sample_frame_def)
  moreover have "writer_step ?y2 ((writing ?c2)\<lparr>cy_waiting := [7], cy_accepted := [sample_frame], cy_hand := Some sample_frame\<rparr>)" (is "writer_step _ ?y3")
    using writer_step.pop [of ?y2 sample_frame ?c2] ops(3) by (simp add: writing_def)
  moreover have "writer_step ?y3 ((writing ?c3)\<lparr>cy_waiting := [7], cy_accepted := [sample_frame]\<rparr>)" (is "writer_step _ ?y4")
    using writer_step.handle [of ?y3 sample_frame False "(3, None)" True ?c3] ops(4) by (simp add: writing_def)
  moreover have "writer_step ?y4 sample_written"
    using writer_step.result [of 7 ?y4 None] ops(5) by (simp add: writing_def sample_written_def Let_def)
  ultimately show ?thesis
    by (meson converse_rtranclp_into_rtranclp rtranclp.rtrancl_refl)
qed

theorem control_writer_witness:
  "startWriter False 64 4 newControlChannel = (True, sample_channel) \<and> writer_step\<^sup>*\<^sup>* (writing sample_channel) sample_written
   \<and> cy_returned sample_written = [(7, None)] \<and> ch_written (cy_channel sample_written) = [[1, 2, 3]]
   \<and> (\<exists>q. ch_queue (cy_channel sample_written) = Some q \<and> int (length (q_items q)) \<le> max 1 4 \<and> q_bytes q \<le> max 1 64)"
proof -
  have start: "startWriter False 64 4 newControlChannel = (True, sample_channel)"
    by (simp add: sample_channel_def startWriter_def newControlChannel_def)
  have "cy_returned sample_written = [(7, None)]" "ch_written (cy_channel sample_written) = [[1, 2, 3]]"
    by code_simp+
  then show ?thesis
    using start written_run control_writer [OF start written_run] by auto
qed

text \<open>
  The two critical sections of \<open>write\<close> race with \<open>stopWriter\<close>: for any limits a channel whose queue never held a frame
  reports that its queue is exhausted, because \<open>TryPush\<close> refuses a closed queue as it refuses for a full one. The
  callback closes the session with \<open>resource_exhausted\<close>, also when the writer was stopped to suspend it.
\<close>

theorem stopped_writer_exhausted:
  fixes frame :: queuedControlFrame
  shows "\<exists>y. writer_step\<^sup>*\<^sup>* (writing (snd (startWriter False maxBytes maxItems newControlChannel))) y
     \<and> cy_accepted y = [] \<and> cy_returned y = [(qf_id frame, Some ErrBackpressure)] \<and> ch_exhausted (cy_channel y)"
proof -
  let ?c = "snd (startWriter False maxBytes maxItems newControlChannel)"
  obtain q :: "queuedControlFrame Queue" where q: "ch_queue ?c = Some q" "q_items q = []" "\<not> ch_closed ?c"
    by (auto simp: startWriter_def newControlChannel_def NewQueue_def)
  let ?y1 = "(writing ?c)\<lparr>cy_pushing := [frame]\<rparr>" and ?s = "stopWriter ?c"
  have closed: "stopWriter ?c = ?c\<lparr>ch_closed := True, ch_cancelled := True, ch_queue := Some (Close_q q)\<rparr>"
    using q by (simp add: stopWriter_def fail_queue_def failQueuedControls.simps Pop_def Close_q_def signal_q_def)
  have "writer_step (writing ?c) ?y1"
    using writer_step.call [of "writing ?c" frame] q by (simp add: writing_def known_def write_snapshot_def)
  moreover have "writer_step ?y1 ((writing ?s)\<lparr>cy_pushing := [frame]\<rparr>)" (is "writer_step _ ?y2")
    using writer_step.stop [of ?y1] by (simp add: writing_def)
  moreover have "writer_step ?y2 ((writing (?s\<lparr>ch_exhausted := True\<rparr>))\<lparr>cy_returned := [(qf_id frame, Some ErrBackpressure)]\<rparr>)" (is "writer_step _ ?y3")
    using writer_step.refuse [of frame ?y2 ErrBackpressure "?s\<lparr>ch_exhausted := True\<rparr>"]
    by (simp add: writing_def write_push_def closed TryPush_def Close_q_def signal_q_def)
  ultimately have "writer_step\<^sup>*\<^sup>* (writing ?c) ?y3"
    by (meson converse_rtranclp_into_rtranclp rtranclp.rtrancl_refl)
  then show ?thesis
    by (intro exI [of _ ?y3]) (simp add: writing_def)
qed

end
