(* ===== verification/Control_Loop.thy ===== *)
theory Control_Loop
  imports Control_Messages Control_Channel Server
begin

text \<open>
  The control stream of an open session (\<open>refresh\<close>, \<open>close\<close>, \<open>controlLoop\<close> and what they call in \<open>endpoint.go\<close>). The
  operations of one end come first, each critical section or wait of a call a definition of its own; then the two ends of a
  connection with their calls and loops, as a transition system over the bytes they write to each other.
\<close>

section \<open>Messages\<close>

record closeAckMessage =
  ca_Op :: string

definition refresh_members :: "refreshMessage member list" where
  "refresh_members =
     [(''op'', text_field (\<lambda>s. rf_Op_update (\<lambda>_. s))),
      (''credential'', struct_field credential_members rf_Credential (\<lambda>c. rf_Credential_update (\<lambda>_. c)))]"

definition refresh_fields :: "refreshMessage \<Rightarrow> (string \<times> json) list" where
  "refresh_fields m = [(''op'', JStr (rf_Op m)), (''credential'', credential_json (rf_Credential m))]"

definition unmarshal_refresh :: "(string \<times> json) list \<Rightarrow> refreshMessage option" where
  "unmarshal_refresh fs = fill refresh_members (sorted_fields fs) \<lparr>rf_Op = [], rf_Credential = credential_zero\<rparr>"

definition result_members :: "refreshResultMessage member list" where
  "result_members =
     [(''op'', text_field (\<lambda>s. rr_Op_update (\<lambda>_. s))), (''code'', u32_field (\<lambda>i. rr_Code_update (\<lambda>_. i))),
      (''message'', text_field (\<lambda>s. rr_Message_update (\<lambda>_. s))), (''expires_unix_ms'', int_field (\<lambda>i. rr_ExpiresMS_update (\<lambda>_. i)))]"

definition result_fields :: "refreshResultMessage \<Rightarrow> (string \<times> json) list" where
  "result_fields m =
     [(''op'', JStr (rr_Op m)), (''code'', JNum (format_nat (unat (rr_Code m)))), (''message'', JStr (rr_Message m))]
     @ (if rr_ExpiresMS m = 0 then [] else [(''expires_unix_ms'', JNum (FormatInt (rr_ExpiresMS m)))])"

definition unmarshal_result :: "(string \<times> json) list \<Rightarrow> refreshResultMessage option" where
  "unmarshal_result fs = fill result_members (sorted_fields fs) \<lparr>rr_Op = [], rr_Code = 0, rr_Message = [], rr_ExpiresMS = 0\<rparr>"

definition ack_fields :: "closeAckMessage \<Rightarrow> (string \<times> json) list" where
  "ack_fields m = [(''op'', JStr (ca_Op m))]"

section \<open>One end\<close>

text \<open>
  What the operations of a connection keep for the control stream, with its session. \<open>sd_replies\<close> is what is in the channels
  of the calls of \<open>refresh\<close>, \<open>sd_acked\<close> the channels of \<open>close\<close> that were closed; both are numbered by the call. \<open>sd_ended\<close> are the
  notices \<open>SessionEnded\<close>, \<open>sd_connection\<close> what the connection was closed with first, \<open>sd_exhausted\<close> says that \<open>exhaustOnce\<close> is done, \<open>sd_out\<close> what was written to the stream.
\<close>

record 'a side =
  sd_session :: "'a sessionRecord"
  sd_ops :: connectionOperations
  sd_refreshActive :: bool
  sd_refreshReply :: "nat option"
  sd_replies :: "nat \<Rightarrow> refreshResultMessage option"
  sd_closeAck :: "nat option"
  sd_acked :: "nat set"
  sd_ended :: "Code list"
  sd_connection :: "(Code \<times> string) option"
  sd_exhausted :: bool
  sd_out :: bytes

text \<open>\<open>stopEpoch\<close>; the envelopes it discards are those of the queues in \<open>Scheduler\<close> and \<open>Incoming_Queue\<close>.\<close>

definition stopEpoch :: "'a side \<Rightarrow> 'a side" where
  "stopEpoch d = d\<lparr>sd_ops := (sd_ops d)\<lparr>co_stopped := True\<rparr>\<rparr>"

definition emitTerminal :: "Code \<Rightarrow> 'a side \<Rightarrow> 'a side" where
  "emitTerminal why d = d\<lparr>sd_ended := sd_ended d @ [why]\<rparr>"

text \<open>Closing a connection again changes nothing.\<close>

definition connection_Close :: "Code \<Rightarrow> string \<Rightarrow> 'a side \<Rightarrow> 'a side" where
  "connection_Close why reason d = (if sd_connection d = None then d\<lparr>sd_connection := Some (why, reason)\<rparr> else d)"

definition remoteClose :: "Code \<Rightarrow> 'a side \<Rightarrow> 'a side" where
  "remoteClose why d =
     (case closeRemote (sd_session d) why of
        (False, _) \<Rightarrow> d
      | (True, s) \<Rightarrow> emitTerminal why (stopEpoch (d\<lparr>sd_session := s\<rparr>)))"

definition abortControl :: "Code \<Rightarrow> 'a side \<Rightarrow> 'a side" where
  "abortControl why d = connection_Close why ''invalid control'' (remoteClose why d)"

text \<open>
  \<open>control.write\<close> as its callers see it. Nothing is written when the message cannot be encoded or the writer was stopped. Otherwise the
  queue and the stream take the frame; or the queue refuses it, because it is full or was closed after \<open>write\<close> had looked at
  it, and the callback \<open>exhausted\<close> that \<open>startControl\<close> installs aborts the connection, once; or the writing ends with an error.
\<close>

datatype outlet = Takes | Refuses | Breaks error

definition exhaust :: "'a side \<Rightarrow> 'a side" where
  "exhaust d = (if sd_exhausted d then d else abortControl ResourceExhausted (d\<lparr>sd_exhausted := True\<rparr>))"

definition control_write :: "outlet \<Rightarrow> (string \<times> json) list \<Rightarrow> 'a side \<Rightarrow> error option \<times> 'a side" where
  "control_write outlet message d =
     (case encodeControl (JObj message) of
        Inl err \<Rightarrow> (Some (WireError err), d)
      | Inr frame \<Rightarrow>
          (case outlet of
             Refuses \<Rightarrow> (Some ErrBackpressure, exhaust d)
           | Breaks err \<Rightarrow> (Some err, d)
           | Takes \<Rightarrow> if co_stopped (sd_ops d) then (Some (CtxError Canceled_ctx), d) else (None, d\<lparr>sd_out := sd_out d @ frame\<rparr>)))"

definition clearRefresh :: "nat \<Rightarrow> 'a side \<Rightarrow> 'a side" where
  "clearRefresh call d = (if sd_refreshReply d = Some call then d\<lparr>sd_refreshActive := False, sd_refreshReply := None\<rparr> else d)"

definition refresh_message :: "Credential \<Rightarrow> refreshMessage" where
  "refresh_message credential =
     \<lparr>rf_Op = ''refresh'', rf_Credential = \<lparr>cm_Scheme = cr_Scheme credential, cm_Data = base64_EncodeToString (cr_Data credential)\<rparr>\<rparr>"

text \<open>\<open>refresh\<close> up to its wait: \<open>None\<close> when the call waits for its reply.\<close>

definition refresh_send :: "nat \<Rightarrow> Credential \<Rightarrow> outlet \<Rightarrow> 'a side \<Rightarrow> error option \<times> 'a side" where
  "refresh_send call credential outlet d =
     (if \<not> sr_clientSide (sd_session d) then (Some ErrWrongMode, d)
      else if \<not> isCurrent (Some (sd_session d)) (Some (sd_ops d)) then (Some ErrSessionSuspended, d)
      else if sd_refreshActive d then (Some ErrResourceExhausted, d)
      else
        (case control_write outlet (refresh_fields (refresh_message credential)) (d\<lparr>sd_refreshActive := True, sd_refreshReply := Some call\<rparr>) of
           (Some err, d) \<Rightarrow> (Some err, clearRefresh call d)
         | (None, d) \<Rightarrow> (None, d)))"

text \<open>The reply of a call; \<open>onRefresh\<close> of a client sets the expiry of the principal.\<close>

definition refresh_reply :: "refreshResultMessage \<Rightarrow> 'a side \<Rightarrow> error option \<times> 'a side" where
  "refresh_reply result d =
     (if rr_Code result \<noteq> 0 then (Some (Error (rr_Code result) (rr_Message result) False 0 None), d)
      else if rr_ExpiresMS result \<le> 0 then (Some ErrProtocolViolation, d)
      else (None, d\<lparr>sd_session := setPrincipal (sd_session d) ((sr_principal (sd_session d))\<lparr>pr_ExpiresAt := rr_ExpiresMS result * Millisecond\<rparr>)\<rparr>))"

text \<open>\<open>close\<close> up to its wait (\<open>True\<close> when it waits), after the wait, and what follows the two critical sections.\<close>

definition close_send :: "nat \<Rightarrow> Code \<Rightarrow> outlet \<Rightarrow> 'a side \<Rightarrow> bool \<times> 'a side" where
  "close_send call why outlet d =
     (case control_write outlet (close_fields \<lparr>cl_Op = ''close'', cl_Code = why, cl_Message = ''session closed''\<rparr>) (d\<lparr>sd_closeAck := Some call\<rparr>) of
        (None, d) \<Rightarrow> (True, d)
      | (Some _, d) \<Rightarrow> (False, d))"

definition close_waited :: "nat \<Rightarrow> 'a side \<Rightarrow> 'a side" where
  "close_waited call d = (if sd_closeAck d = Some call then d\<lparr>sd_closeAck := None\<rparr> else d)"

definition close_rest :: "Code \<Rightarrow> 'a side \<Rightarrow> 'a side" where
  "close_rest why d = connection_Close why ''session closed'' (emitTerminal why (stopEpoch d))"

text \<open>\<open>handleRefresh\<close> on the session itself, as the closure \<open>onIncomingRefresh\<close> of a server calls it.\<close>

definition answer_refresh :: "(Credential \<Rightarrow> error + Principal) \<Rightarrow> time \<Rightarrow> refreshMessage option \<Rightarrow> 'a sessionRecord \<Rightarrow> refreshResultMessage \<times> 'a sessionRecord" where
  "answer_refresh auth now unmarshalled r =
     (let failure = \<lparr>rr_Op = ''refresh_result'', rr_Code = Unauthenticated, rr_Message = ''authentication failed'', rr_ExpiresMS = 0\<rparr> in
      case unmarshalled of
        None \<Rightarrow> (failure, r)
      | Some message \<Rightarrow>
          (case base64_DecodeString (cm_Data (rf_Credential message)) of
             None \<Rightarrow> (failure, r)
           | Some data \<Rightarrow>
               (case auth \<lparr>cr_Scheme = cm_Scheme (rf_Credential message), cr_Data = data\<rparr> of
                  Inl _ \<Rightarrow> (failure, r)
                | Inr prin \<Rightarrow>
                    (let previous = sr_principal r in
                     if pr_Issuer prin = pr_Issuer previous \<and> pr_Subject prin = pr_Subject previous \<and> pr_ExpiresAt prin > now
                     then (\<lparr>rr_Op = ''refresh_result'', rr_Code = 0, rr_Message = [], rr_ExpiresMS = UnixMilli (pr_ExpiresAt prin)\<rparr>,
                           armExpiry now (setPrincipal r prin) (pr_ExpiresAt prin))
                     else (failure, r)))))"

lemma handleRefresh_answer:
  assumes "sv_heap s p = Some r" "sc_Auth (sv_config s) = Some auth"
  shows "fst (handleRefresh now unmarshalled p s) = fst (answer_refresh auth now unmarshalled r)"
    and "sv_heap (snd (handleRefresh now unmarshalled p s)) p = Some (snd (answer_refresh auth now unmarshalled r))"
  using assms by (auto simp: handleRefresh_def answer_refresh_def on_session_def Let_def split: option.splits sum.splits)

text \<open>A turn of \<open>controlLoop\<close> after \<open>read\<close>; \<open>False\<close> when the loop returns.\<close>

definition controlLoop_turn ::
  "(refreshMessage option \<Rightarrow> 'a sessionRecord \<Rightarrow> refreshResultMessage \<times> 'a sessionRecord) option \<Rightarrow> outlet \<Rightarrow> Control \<Rightarrow> 'a side \<Rightarrow> bool \<times> 'a side" where
  "controlLoop_turn onIncomingRefresh outlet control d =
     (if ct_Op control = ''refresh'' then
        (case onIncomingRefresh of
           None \<Rightarrow> (False, abortControl ProtocolViolation d)
         | Some onRefresh \<Rightarrow>
             (let (result, s) = onRefresh (unmarshal_refresh (ct_Fields control)) (sd_session d);
                  (err, d) = control_write outlet (result_fields result) (d\<lparr>sd_session := s\<rparr>)
              in (err = None, d)))
      else if ct_Op control = ''refresh_result'' then
        (case unmarshal_result (ct_Fields control) of
           None \<Rightarrow> (False, abortControl ProtocolViolation d)
         | Some result \<Rightarrow>
             if \<not> sd_refreshActive d then (False, abortControl ProtocolViolation d)
             else
               (True, (case sd_refreshReply d of None \<Rightarrow> d | Some call \<Rightarrow> d\<lparr>sd_replies := (sd_replies d)(call := Some result)\<rparr>)
                        \<lparr>sd_refreshActive := False, sd_refreshReply := None\<rparr>))
      else if ct_Op control = ''close'' then
        (case parseClose utf8_string (unmarshal_close (ct_Fields control)) of
           None \<Rightarrow> (False, abortControl ProtocolViolation d)
         | Some message \<Rightarrow>
             (case control_write outlet (ack_fields \<lparr>ca_Op = ''close_ack''\<rparr>) d of
                (Some _, d) \<Rightarrow> (False, d)
              | (None, d) \<Rightarrow> (False, remoteClose (cl_Code message) d)))
      else if ct_Op control = ''close_ack'' then
        (case sd_closeAck d of
           None \<Rightarrow> (False, abortControl ProtocolViolation d)
         | Some call \<Rightarrow> (True, d\<lparr>sd_acked := insert call (sd_acked d)\<rparr>))
      else (False, abortControl ProtocolViolation d))"

section \<open>Two ends\<close>

text \<open>
  An end with its goroutines: whether its loop runs, how much of what the other end wrote it has read, the calls of \<open>refresh\<close>
  and how far \<open>close\<close> has come. \<open>pt_asked\<close> remembers the calls whose message was written, \<open>pt_local\<close> the code the session was
  closed with at this end.
\<close>

datatype stage = Open | Terminated Code | Waiting nat Code | Waited Code | Ended

record 'a party =
  pt_side :: "'a side"
  pt_loop :: bool
  pt_read :: nat
  pt_calls :: "nat set"
  pt_waiting :: "nat set"
  pt_asked :: "(nat \<times> refreshMessage) list"
  pt_stage :: stage
  pt_local :: "Code option"

text \<open>The client is the end \<open>True\<close>; only a server answers refreshes.\<close>

type_synonym 'a link = "bool \<Rightarrow> 'a party"

definition onIncoming :: "(Credential \<Rightarrow> error + Principal) \<Rightarrow> time \<Rightarrow> bool \<Rightarrow>
  (refreshMessage option \<Rightarrow> 'a sessionRecord \<Rightarrow> refreshResultMessage \<times> 'a sessionRecord) option" where
  "onIncoming auth now b = (if b then None else Some (answer_refresh auth now))"

inductive link_step :: "(Credential \<Rightarrow> error + Principal) \<Rightarrow> 'a link \<Rightarrow> 'a link \<Rightarrow> bool" for auth where
  refreshes: "p = l b \<Longrightarrow> call \<notin> pt_calls p \<Longrightarrow> utf8_string (cr_Scheme credential) \<Longrightarrow> refresh_send call credential outlet (pt_side p) = (r, d) \<Longrightarrow>
    link_step auth l (l(b := p\<lparr>pt_side := d, pt_calls := insert call (pt_calls p),
      pt_waiting := (if r = None then insert call (pt_waiting p) else pt_waiting p),
      pt_asked := (if r = None then pt_asked p @ [(call, refresh_message credential)] else pt_asked p)\<rparr>))"
| replied: "p = l b \<Longrightarrow> call \<in> pt_waiting p \<Longrightarrow> sd_replies (pt_side p) call = Some result \<Longrightarrow> refresh_reply result (pt_side p) = (r, d) \<Longrightarrow>
    link_step auth l (l(b := p\<lparr>pt_side := d, pt_waiting := pt_waiting p - {call}\<rparr>))"
| gives_up: "p = l b \<Longrightarrow> call \<in> pt_waiting p \<Longrightarrow> link_step auth l (l(b := p\<lparr>pt_waiting := pt_waiting p - {call}\<rparr>))"
| closes: "p = l b \<Longrightarrow> Close (\<lambda>_. None) (sd_session (pt_side p)) why = (None, s) \<Longrightarrow> why \<le> WrongMode \<Longrightarrow>
    link_step auth l (l(b := p\<lparr>pt_side := (pt_side p)\<lparr>sd_session := s\<rparr>, pt_stage := Terminated why, pt_local := Some why\<rparr>))"
| close_sends: "p = l b \<Longrightarrow> pt_stage p = Terminated why \<Longrightarrow> close_send call why outlet (pt_side p) = (waits, d) \<Longrightarrow>
    link_step auth l (l(b := p\<lparr>pt_side := d, pt_stage := Waiting call why\<rparr>))"
| close_waits: "p = l b \<Longrightarrow> pt_stage p = Waiting call why \<Longrightarrow>
    link_step auth l (l(b := p\<lparr>pt_side := close_waited call (pt_side p), pt_stage := Waited why\<rparr>))"
| close_ends: "p = l b \<Longrightarrow> pt_stage p = Waited why \<Longrightarrow>
    link_step auth l (l(b := p\<lparr>pt_side := close_rest why (pt_side p), pt_stage := Ended\<rparr>))"
| turn: "p = l b \<Longrightarrow> pt_loop p \<Longrightarrow>
    readControlReader (Reader (drop (pt_read p) (sd_out (pt_side (l (\<not> b))))) e) (ControlBytes (sr_limits (sd_session (pt_side p))))
      = Inr (control, Reader rest e') \<Longrightarrow>
    controlLoop_turn (onIncoming auth now b) outlet control (pt_side p) = (go_on, d) \<Longrightarrow>
    link_step auth l (l(b := p\<lparr>pt_side := d, pt_loop := go_on, pt_read := length (sd_out (pt_side (l (\<not> b)))) - length rest\<rparr>))"
| lost: "p = l b \<Longrightarrow> suspendIfCurrent (sd_session (pt_side p)) (sd_ops (pt_side p)) = (r, s, opers) \<Longrightarrow>
    link_step auth l (l(b := p\<lparr>pt_side := (pt_side p)\<lparr>sd_session := s, sd_ops := opers\<rparr>, pt_loop := False\<rparr>))"

definition attached :: "'a sessionRecord \<Rightarrow> connectionOperations \<Rightarrow> 'a party" where
  "attached s opers =
     \<lparr>pt_side = \<lparr>sd_session = s, sd_ops = opers, sd_refreshActive = False, sd_refreshReply = None, sd_replies = (\<lambda>_. None), sd_closeAck = None,
        sd_acked = {}, sd_ended = [], sd_connection = None, sd_exhausted = False, sd_out = []\<rparr>,
      pt_loop = True, pt_read = 0, pt_calls = {}, pt_waiting = {}, pt_asked = [], pt_stage = Open, pt_local = None\<rparr>"

text \<open>A session that was just opened at both ends, whose readers take the largest control frame.\<close>

definition linked :: "(bool \<Rightarrow> 'a sessionRecord) \<Rightarrow> (bool \<Rightarrow> connectionOperations) \<Rightarrow> bool" where
  "linked s opers \<longleftrightarrow>
     (\<forall>b. sr_state (s b) \<noteq> Closed \<and> (sr_clientSide (s b) \<longleftrightarrow> b) \<and> 16384 \<le> ControlBytes (sr_limits (s b)) \<and> ControlBytes (sr_limits (s b)) < 2 ^ 63)"


section \<open>The messages that are written\<close>

datatype control_out = RefreshOut refreshMessage | ResultOut refreshResultMessage | CloseOut closeMessage | AckOut

fun out_fields :: "control_out \<Rightarrow> (string \<times> json) list" where
  "out_fields (RefreshOut m) = refresh_fields m"
| "out_fields (ResultOut m) = result_fields m"
| "out_fields (CloseOut m) = close_fields m"
| "out_fields AckOut = ack_fields \<lparr>ca_Op = ''close_ack''\<rparr>"

fun out_op :: "control_out \<Rightarrow> string" where
  "out_op (RefreshOut m) = ''refresh''"
| "out_op (ResultOut m) = ''refresh_result''"
| "out_op (CloseOut m) = ''close''"
| "out_op AckOut = ''close_ack''"

fun out_ok :: "control_out \<Rightarrow> bool" where
  "out_ok (RefreshOut m) \<longleftrightarrow> rf_Op m = ''refresh'' \<and> utf8_string (cm_Scheme (rf_Credential m)) \<and> utf8_string (cm_Data (rf_Credential m))"
| "out_ok (ResultOut m) \<longleftrightarrow> rr_Op m = ''refresh_result'' \<and> utf8_string (rr_Message m) \<and> 0 \<le> rr_ExpiresMS m \<and> rr_ExpiresMS m < 2 ^ 63"
| "out_ok (CloseOut m) \<longleftrightarrow> cl_Op m = ''close'' \<and> cl_Message m = ''session closed'' \<and> cl_Code m \<le> WrongMode"
| "out_ok AckOut \<longleftrightarrow> True"

definition frame :: "control_out \<Rightarrow> bytes" where
  "frame m = (case encodeControl (JObj (out_fields m)) of Inl _ \<Rightarrow> [] | Inr f \<Rightarrow> f)"

definition written :: "control_out \<Rightarrow> bool" where
  "written m \<longleftrightarrow> out_ok m \<and> encodeControl (JObj (out_fields m)) = Inr (frame m)"

lemma out_json:
  assumes "out_ok m"
  shows "json_ok (JObj (out_fields m))" "map_of (out_fields m) ''op'' = Some (JStr (out_op m))"
proof -
  show "json_ok (JObj (out_fields m))"
    using assms
    by (cases m) (auto simp: refresh_fields_def result_fields_def close_fields_def ack_fields_def credential_json_def utf8_string_ascii decimal_format_nat)
  show "map_of (out_fields m) ''op'' = Some (JStr (out_op m))"
    using assms by (cases m) (auto simp: refresh_fields_def result_fields_def close_fields_def ack_fields_def)
qed

lemma frame_read:
  assumes "written m" "16384 \<le> mx" "mx < 2 ^ 63"
  shows "readControlReader (Reader (frame m @ rest) e) mx = Inr (\<lparr>ct_Op = out_op m, ct_Fields = out_fields m\<rparr>, Reader rest e)"
proof -
  let ?raw = "string_bytes (Marshal (JObj (out_fields m)))"
  have ok: "out_ok m" and enc: "EncodeControl ?raw PreNegotiationControlBytes = Inr (frame m)"
    using assms(1) by (simp_all add: written_def encodeControl_def del: Marshal.simps)
  note facts = out_json [OF ok]
  from enc obtain c where c: "DecodeControlBody ?raw (int (length ?raw)) = Inr c"
      "\<And>mx rest e. int (length ?raw) \<le> mx \<Longrightarrow> mx < 2 ^ 63 \<Longrightarrow> readControlReader (Reader (frame m @ rest) e) mx = Inr (c, Reader rest e)"
    by (rule control_frame_read) (rule that; assumption)
  have "int (length ?raw) \<le> 16384"
    using EncodeControl_Inr [OF enc] by auto
  moreover have "c = \<lparr>ct_Op = out_op m, ct_Fields = out_fields m\<rparr>"
    using c(1) facts by (cases c) (auto simp: control_frames_typed_iff Unmarshal_Marshal simp del: Marshal.simps json_ok.simps well_nested.simps)
  ultimately show ?thesis
    using c(2) assms(2,3) by auto
qed


text \<open>What a write does, in terms of the messages.\<close>

lemma control_write_out:
  assumes "control_write outlet (out_fields m) d = (err, d')" "out_ok m"
  shows "if err = None then written m \<and> d' = d\<lparr>sd_out := sd_out d @ frame m\<rparr> else d' = d \<or> d' = exhaust d"
  using assms by (auto simp: control_write_def written_def frame_def split: sum.splits if_splits outlet.splits)

text \<open>What the exhausted writer leaves alone.\<close>

lemma exhaust_keeps [simp]:
  "sd_out (exhaust d) = sd_out d" "sd_refreshActive (exhaust d) = sd_refreshActive d" "sd_refreshReply (exhaust d) = sd_refreshReply d"
  "sd_replies (exhaust d) = sd_replies d" "sd_closeAck (exhaust d) = sd_closeAck d" "sd_acked (exhaust d) = sd_acked d"
  "sr_clientSide (sd_session (exhaust d)) = sr_clientSide (sd_session d)" "sr_limits (sd_session (exhaust d)) = sr_limits (sd_session d)"
  by (simp_all add: exhaust_def abortControl_def connection_Close_def remoteClose_def closeRemote_def terminate_def emitTerminal_def stopEpoch_def)



lemma parseClose_fields: "out_ok (CloseOut m) \<Longrightarrow> parseClose utf8_string (unmarshal_close (close_fields m)) = Some m"
  using parseClose_sent [of m] close_message.filled [of m] by (simp add: sendable_close_def wire_text_def utf8_string_ascii)



lemma turn_close:
  "out_ok (CloseOut m) \<Longrightarrow>
   controlLoop_turn h outlet \<lparr>ct_Op = out_op (CloseOut m), ct_Fields = out_fields (CloseOut m)\<rparr> d =
     (case control_write outlet (out_fields AckOut) d of (Some _, d) \<Rightarrow> (False, d) | (None, d) \<Rightarrow> (False, remoteClose (cl_Code m) d))"
  by (simp add: controlLoop_turn_def parseClose_fields)


section \<open>Invariant\<close>


fun requests :: "control_out list \<Rightarrow> refreshMessage list" where
  "requests [] = []"
| "requests (m # ms) = (case m of RefreshOut r \<Rightarrow> r # requests ms | _ \<Rightarrow> requests ms)"

fun results :: "control_out list \<Rightarrow> refreshResultMessage list" where
  "results [] = []"
| "results (m # ms) = (case m of ResultOut r \<Rightarrow> r # results ms | _ \<Rightarrow> results ms)"

















text \<open>Steps that leave alone how a session was closed, and the messages that matter for it.\<close>

definition closes_of :: "control_out list \<Rightarrow> control_out set" where
  "closes_of ms = {m \<in> set ms. \<exists>c. m = CloseOut c \<or> m = AckOut}"












lemma base64_utf8: "utf8_string (base64_EncodeToString bs)"
proof (rule utf8_string_ascii)
  have alphabet: "list_all (\<lambda>c. code c < 0x80) base64_alphabet"
    by (simp add: base64_alphabet_def)
  have "list_all (\<lambda>x. x < 64) (to_sextets (map unat bs))"
    by (rule to_sextets_range) (simp add: list_all_iff unat_byte)
  then show "list_all (\<lambda>c. code c < 0x80) (base64_EncodeToString bs)"
    using alphabet by (auto simp: base64_EncodeToString_def list_all_length alphabet_facts)
qed

lemma exhaust_clears: "clearRefresh call (exhaust d) = exhaust (clearRefresh call d)"
proof (cases "sd_refreshReply d = Some call")
  case False
  then show ?thesis
    by (simp add: clearRefresh_def)
next
  case True
  have "(exhaust d)\<lparr>sd_refreshActive := False, sd_refreshReply := None\<rparr> = exhaust (d\<lparr>sd_refreshActive := False, sd_refreshReply := None\<rparr>)"
    by (cases d; cases "sd_exhausted d"; cases "sr_state (sd_session d) = Closed"; cases "sd_connection d")
      (simp_all add: exhaust_def abortControl_def connection_Close_def remoteClose_def closeRemote_def emitTerminal_def stopEpoch_def)
  with True show ?thesis
    by (simp add: clearRefresh_def)
qed

lemma refresh_send_out:
  assumes "refresh_send call credential outlet d = (r, d')" "utf8_string (cr_Scheme credential)"
  shows "if r = None
    then sr_clientSide (sd_session d) \<and> \<not> sd_refreshActive d \<and> written (RefreshOut (refresh_message credential))
      \<and> d' = d\<lparr>sd_refreshActive := True, sd_refreshReply := Some call, sd_out := sd_out d @ frame (RefreshOut (refresh_message credential))\<rparr>
    else \<exists>e. (e = d \<or> (\<not> sd_refreshActive d \<and> e = d\<lparr>sd_refreshActive := False, sd_refreshReply := None\<rparr>)) \<and> (d' = e \<or> d' = exhaust e)"
proof (cases "\<not> sr_clientSide (sd_session d) \<or> \<not> isCurrent (Some (sd_session d)) (Some (sd_ops d)) \<or> sd_refreshActive d")
  case True
  then show ?thesis
    using assms(1) by (auto simp: refresh_send_def split: if_splits)
next
  case False
  let ?d = "d\<lparr>sd_refreshActive := True, sd_refreshReply := Some call\<rparr>"
  obtain err d1 where w: "control_write outlet (out_fields (RefreshOut (refresh_message credential))) ?d = (err, d1)"
    by (cases "control_write outlet (out_fields (RefreshOut (refresh_message credential))) ?d")
  have "out_ok (RefreshOut (refresh_message credential))"
    using assms(2) by (simp add: refresh_message_def base64_utf8)
  note out = control_write_out [OF w this]
  show ?thesis
  proof (cases err)
    case None
    then show ?thesis
      using assms(1) False w out by (simp add: refresh_send_def)
  next
    case (Some e)
    have "r = Some e" "d' = clearRefresh call d1"
      using assms(1) False w Some by (simp_all add: refresh_send_def)
    moreover have "d1 = ?d \<or> d1 = exhaust ?d"
      using out Some by simp
    moreover have "clearRefresh call ?d = d\<lparr>sd_refreshActive := False, sd_refreshReply := None\<rparr>"
      by (simp add: clearRefresh_def)
    ultimately show ?thesis
      using False by (auto simp: exhaust_clears)
  qed
qed




lemma closes_of_append [simp]: "closes_of (ms @ [RefreshOut r]) = closes_of ms" "closes_of (ms @ [ResultOut r']) = closes_of ms"
  by (auto simp: closes_of_def)


text \<open>Messages about closing do not touch the refreshes.\<close>

definition about_closing :: "control_out \<Rightarrow> bool" where
  "about_closing m \<longleftrightarrow> (\<exists>c. m = CloseOut c) \<or> m = AckOut"

lemma about_closing_skips [simp]: "about_closing m \<Longrightarrow> requests [m] = []" "about_closing m \<Longrightarrow> results [m] = []"
  by (auto simp: about_closing_def)












section \<open>Properties\<close>


definition quiet_auth :: "Credential \<Rightarrow> error + Principal" where
  "quiet_auth credential = Inl ErrUnauthenticated"

definition two_ends :: "bool \<Rightarrow> nat sessionRecord" where
  "two_ends b = sample_session\<lparr>sr_clientSide := b\<rparr>"

definition two_connections :: "bool \<Rightarrow> connectionOperations" where
  "two_connections b = \<lparr>co_ptr = 0, co_epoch = 1, co_stopped = False\<rparr>"

lemma two_ends_linked: "linked two_ends two_connections"
  by (simp add: linked_def two_ends_def sample_session_eq sample_session_def newSessionRecord_def directionalBudgetLimits_def DefaultLimits_def
      NewBudget_def Let_def wrap64_def signed_take_bit_eq_take_bit_minus take_bit_eq_mod)


section \<open>Closes that cross\<close>

text \<open>Both ends close the session and write their close before they read the other's.\<close>

definition farewell_of :: "Code \<Rightarrow> closeMessage" where
  "farewell_of why = \<lparr>cl_Op = ''close'', cl_Code = why, cl_Message = ''session closed''\<rparr>"

definition crossed :: "(bool \<Rightarrow> 'a sessionRecord) \<Rightarrow> (bool \<Rightarrow> connectionOperations) \<Rightarrow> (bool \<Rightarrow> Code) \<Rightarrow> 'a link" where
  "crossed s opers why b =
     (attached (s b) (opers b))\<lparr>pt_side := (pt_side (attached (s b) (opers b)))\<lparr>sd_session := terminate (why b) (s b), sd_closeAck := Some 0,
        sd_out := frame (CloseOut (farewell_of (why b)))\<rparr>, pt_stage := Waiting 0 (why b), pt_local := Some (why b)\<rparr>"

lemma farewell_written:
  assumes "why \<le> WrongMode"
  shows "written (CloseOut (farewell_of why))"
proof -
  let ?m = "farewell_of why"
  have "bulk (JObj (close_fields ?m)) \<le> 16384"
  proof -
    have "length (format_nat n) \<le> Suc n" for n
    proof (induction n rule: format_nat.induct)
      case (1 n)
      then show ?case
        by (cases "n < 10") (auto simp: format_nat.simps [of n])
    qed
    note this [of "unat why"]
    moreover have "unat why \<le> unat WrongMode"
      using assms by (simp only: word_le_nat_alt)
    moreover have "unat WrongMode \<le> 100"
      by code_simp
    ultimately show ?thesis
      by (simp add: close_fields_def farewell_of_def)
  qed
  then have "length (Marshal (JObj (close_fields ?m))) \<le> 16384"
    by (rule order_trans [OF length_Marshal])
  moreover have "sendable_close ?m"
    by (simp add: sendable_close_def farewell_of_def wire_text_def utf8_string_ascii)
  ultimately obtain f where "encodeControl (JObj (close_fields ?m)) = Inr f"
    using close_message.sent_is_received by blast
  then show ?thesis
    using assms by (simp add: written_def frame_def farewell_of_def)
qed

lemma crossed_reachable:
  assumes "linked s opers" "\<forall>b. \<not> co_stopped (opers b) \<and> why b \<le> WrongMode \<and> why b \<noteq> SessionSuperseded"
  shows "(link_step auth)\<^sup>*\<^sup>* (\<lambda>b. attached (s b) (opers b)) (crossed s opers why)"
proof -
  let ?l = "\<lambda>b. attached (s b) (opers b)"
  have one: "(link_step auth)\<^sup>*\<^sup>* l (l(b := crossed s opers why b))" if l: "l b = ?l b" for l b
  proof -
    let ?p = "(?l b)\<lparr>pt_side := (pt_side (?l b))\<lparr>sd_session := terminate (why b) (s b)\<rparr>, pt_stage := Terminated (why b), pt_local := Some (why b)\<rparr>"
    have "Close (\<lambda>_. None) (sd_session (pt_side (?l b))) (why b) = (None, terminate (why b) (s b))"
      using assms by (simp add: Close_def attached_def linked_def)
    then have "link_step auth l (l(b := ?p))"
      using link_step.closes [of "?l b" l b "why b" _ auth] assms(2) l by simp
    moreover have "close_send 0 (why b) Takes (pt_side ?p) = (True, pt_side (crossed s opers why b))"
      using farewell_written [of "why b"] assms(2)
      by (simp add: close_send_def control_write_def written_def crossed_def farewell_of_def attached_def)
    then have "link_step auth (l(b := ?p)) ((l(b := ?p))(b := ?p\<lparr>pt_side := pt_side (crossed s opers why b), pt_stage := Waiting 0 (why b)\<rparr>))"
      using link_step.close_sends [of ?p "l(b := ?p)" b "why b" 0 Takes True _ auth] by simp
    then have "link_step auth (l(b := ?p)) (l(b := crossed s opers why b))"
      by (simp add: crossed_def attached_def)
    ultimately show ?thesis
      by (meson converse_rtranclp_into_rtranclp r_into_rtranclp)
  qed
  have "(link_step auth)\<^sup>*\<^sup>* ?l ((?l(True := crossed s opers why True))(False := crossed s opers why False))"
    by (rule rtranclp_trans [OF one one]) simp_all
  moreover have "(?l(True := crossed s opers why True))(False := crossed s opers why False) = crossed s opers why"
    by (rule ext) simp
  ultimately show ?thesis
    by simp
qed

text \<open>From then on: each stream begins with the close, and a loop that has read anything has ended.\<close>

definition crossing :: "(bool \<Rightarrow> Code) \<Rightarrow> 'a link \<Rightarrow> bool" where
  "crossing why l \<longleftrightarrow>
     (\<forall>b. (\<exists>rest. sd_out (pt_side (l b)) = frame (CloseOut (farewell_of (why b))) @ rest) \<and> (pt_read (l b) = 0 \<or> \<not> pt_loop (l b))
       \<and> 16384 \<le> ControlBytes (sr_limits (sd_session (pt_side (l b)))) \<and> ControlBytes (sr_limits (sd_session (pt_side (l b)))) < 2 ^ 63
       \<and> sd_acked (pt_side (l b)) = {})"

definition extends :: "'a side \<Rightarrow> 'a side \<Rightarrow> bool" where
  "extends d d' \<longleftrightarrow> (\<exists>rest. sd_out d' = sd_out d @ rest) \<and> sr_limits (sd_session d') = sr_limits (sd_session d) \<and> sd_acked d' = sd_acked d"

lemma crossing_step:
  assumes "crossing why l" "extends (pt_side (l b)) (pt_side p)" "pt_read p = pt_read (l b) \<and> (pt_loop p \<longrightarrow> pt_loop (l b)) \<or> \<not> pt_loop p"
  shows "crossing why (l(b := p))"
proof -
  obtain out rest where "sd_out (pt_side p) = sd_out (pt_side (l b)) @ rest" "sd_out (pt_side (l b)) = frame (CloseOut (farewell_of (why b))) @ out"
    using assms(1,2) unfolding crossing_def extends_def by blast
  moreover have "pt_read (l b) = 0 \<or> \<not> pt_loop (l b)"
    using assms(1) unfolding crossing_def by blast
  with assms(3) have "pt_read p = 0 \<or> \<not> pt_loop p"
    by auto
  ultimately show ?thesis
    using assms(1,2) by (auto simp: crossing_def extends_def)
qed

lemma control_write_extends: "control_write outlet fs d = (err, d') \<Longrightarrow> extends d d'"
  by (auto simp: control_write_def extends_def split: sum.splits if_splits option.splits outlet.splits)

lemma side_extends_ops:
  "extends d d" "extends d (stopEpoch d)" "extends d (connection_Close c r d)" "extends d (emitTerminal c d)" "extends d (clearRefresh call d)"
  "extends d (close_waited call d)" "extends d (remoteClose c d)"
  by (simp_all add: extends_def stopEpoch_def connection_Close_def emitTerminal_def clearRefresh_def close_waited_def remoteClose_def closeRemote_def
      terminate_def)

lemma side_extends_trans: "extends d d' \<Longrightarrow> extends d' d'' \<Longrightarrow> extends d d''"
  by (auto simp: extends_def)

lemma crossing_turn:
  assumes "crossing why l" "\<forall>b. why b \<le> WrongMode" "pt_loop (l b)"
    and read: "readControlReader (Reader (drop (pt_read (l b)) (sd_out (pt_side (l (\<not> b))))) e) (ControlBytes (sr_limits (sd_session (pt_side (l b)))))
      = Inr (control, Reader rest e')"
    and turn: "controlLoop_turn h outlet control (pt_side (l b)) = (go_on, d)"
  shows "\<not> go_on \<and> extends (pt_side (l b)) d"
proof -
  let ?m = "CloseOut (farewell_of (why (\<not> b)))"
  have w: "written ?m"
    using farewell_written assms(2) by blast
  obtain out where out: "sd_out (pt_side (l (\<not> b))) = frame ?m @ out" and start: "pt_read (l b) = 0"
    using assms(1,3) unfolding crossing_def by metis
  have "control = \<lparr>ct_Op = out_op ?m, ct_Fields = out_fields ?m\<rparr>"
    using read frame_read [OF w, of _ out e] assms(1) by (auto simp: out start crossing_def)
  note turn = turn [unfolded this turn_close [OF conjunct1 [OF w [unfolded written_def]]]]
  obtain err d1 where wr: "control_write outlet (out_fields AckOut) (pt_side (l b)) = (err, d1)"
    by (cases "control_write outlet (out_fields AckOut) (pt_side (l b))")
  show ?thesis
    using turn control_write_extends [OF wr] side_extends_trans [OF control_write_extends [OF wr] side_extends_ops(7)]
    by (auto simp: wr simp del: out_fields.simps split: option.splits)
qed

lemma link_step_crossing:
  "link_step auth l l' \<Longrightarrow> \<forall>b. why b \<le> WrongMode \<Longrightarrow> crossing why l \<Longrightarrow> crossing why l'"
proof (induction rule: link_step.induct)
  case (refreshes p l b call credential outlet r d)
  have "extends (pt_side p) d"
    using refresh_send_out [OF refreshes(4,3)] by (auto simp: extends_def split: if_splits)
  then show ?case
    by (intro crossing_step [OF refreshes(6)]) (simp_all add: refreshes(1))
next
  case (replied p l b call result r d)
  have "extends (pt_side p) d"
    using replied(4) by (auto simp: extends_def refresh_reply_def setPrincipal_def split: if_splits)
  then show ?case
    by (intro crossing_step [OF replied(6)]) (simp_all add: replied(1))
next
  case (gives_up p l b call)
  then show ?case
    by (intro crossing_step) (simp_all add: side_extends_ops)
next
  case (closes p l b v s)
  then show ?case
    by (intro crossing_step [OF closes(5)]) (auto simp: extends_def Close_def terminate_def split: if_splits)
next
  case (close_sends p l b v call outlet waits d)
  have "extends (pt_side p) d"
    using close_sends(3) control_write_extends [of outlet _ "(pt_side p)\<lparr>sd_closeAck := Some call\<rparr>"]
    by (fastforce simp: close_send_def extends_def split: prod.splits option.splits)
  then show ?case
    by (intro crossing_step [OF close_sends(5)]) (simp_all add: close_sends(1))
next
  case (close_waits p l b call v)
  then show ?case
    by (intro crossing_step) (simp_all add: side_extends_ops)
next
  case (close_ends p l b v)
  have "extends d (close_rest v d)" for d :: "'a side"
    unfolding close_rest_def by (meson side_extends_ops side_extends_trans)
  then show ?case
    by (intro crossing_step [OF close_ends(4)]) (simp_all add: close_ends(1))
next
  case (turn p l b e control rest e' now outlet go_on d)
  have "\<not> go_on \<and> extends (pt_side (l b)) d"
    by (rule crossing_turn [OF turn(6,5)]) (use turn in simp_all)
  then show ?case
    by (intro crossing_step [OF turn(6)]) (simp_all add: turn(1))
next
  case (lost p l b r s opers)
  then show ?case
    by (intro crossing_step [OF lost(4)]) (auto simp: extends_def suspendIfCurrent_def split: if_splits)
qed

text \<open>
  C40. When both ends close a session at the same time, neither close is ever acknowledged: for any two codes the ends reach the
  state in which both closes are written, and in no continuation does either see a \<open>close_ack\<close>, because a loop returns once it has
  answered the other close. Both calls wait for \<open>CloseTimeout\<close>.
\<close>

theorem crossed_closes_unacknowledged:
  assumes "linked s opers" "\<forall>b. \<not> co_stopped (opers b) \<and> why b \<le> WrongMode \<and> why b \<noteq> SessionSuperseded"
  shows "(link_step auth)\<^sup>*\<^sup>* (\<lambda>b. attached (s b) (opers b)) (crossed s opers why)
    \<and> (\<forall>b. pt_stage (crossed s opers why b) = Waiting 0 (why b))
    \<and> (\<forall>l b. (link_step auth)\<^sup>*\<^sup>* (crossed s opers why) l \<longrightarrow> sd_acked (pt_side (l b)) = {})"
proof -
  have start: "crossing why (crossed s opers why)"
    using assms(1) by (simp add: crossing_def crossed_def attached_def linked_def terminate_def)
  have "crossing why l" if "(link_step auth)\<^sup>*\<^sup>* (crossed s opers why) l" for l
    using that
  proof (induction rule: rtranclp_induct)
    case base
    show ?case by (fact start)
  next
    case (step l l')
    then show ?case
      using link_step_crossing [of auth l l' why] assms(2) by blast
  qed
  then show ?thesis
    using crossed_reachable [OF assms] by (auto simp: crossing_def crossed_def)
qed

theorem crossed_closes_unacknowledged_witness:
  "(link_step quiet_auth)\<^sup>*\<^sup>* (\<lambda>b. attached (two_ends b) (two_connections b)) (crossed two_ends two_connections (\<lambda>_. Normal))
   \<and> \<not> (\<exists>l b. (link_step quiet_auth)\<^sup>*\<^sup>* (crossed two_ends two_connections (\<lambda>_. Normal)) l \<and> sd_acked (pt_side (l b)) \<noteq> {})"
  using crossed_closes_unacknowledged [OF two_ends_linked, of "\<lambda>_. Normal" quiet_auth] by (auto simp: two_connections_def)

end
