(* ===== verification/Delivery.thy ===== *)
theory Delivery
  imports Scheduler Channels
begin

text \<open>
  From a decoded message to the application (\<open>dispatch\<close>, the \<open>deliver\<close> operations, \<open>dropDatagram\<close>, \<open>protocolViolation\<close> and \<open>stats\<close> of
  \<open>endpoint.go\<close>): the composition of the session, the polling queue and the handler queues. \<open>None\<close> is a panic of a budget or a
  queue. Time stamps and observations are left out; the three drop counters are kept.
\<close>

section \<open>State\<close>

record 'a delivery =
  dl_mode :: DispatchMode
  dl_session :: "'a sessionRecord"
  dl_pointer :: pointer
  dl_ops :: connectionOperations
  dl_incoming :: "incomingQueue option"
  dl_handling :: handling
  dl_localDrops :: u64
  dl_coalescedDrops :: u64
  dl_staleDrops :: u64

definition current :: "'a delivery \<Rightarrow> bool" where
  "current d = isCurrent (Some (dl_session d)) (Some (dl_ops d))"

text \<open>\<open>dropDatagram\<close>; the counters are atomic and wrap.\<close>

definition dropDatagram :: "string \<Rightarrow> bool \<Rightarrow> 'a delivery \<Rightarrow> 'a delivery" where
  "dropDatagram kind stale d =
     d\<lparr>dl_localDrops := dl_localDrops d + 1,
       dl_coalescedDrops := (if kind = ''coalesced'' then dl_coalescedDrops d + 1 else dl_coalescedDrops d),
       dl_staleDrops := (if stale then dl_staleDrops d + 1 else dl_staleDrops d)\<rparr>"

text \<open>\<open>stats\<close>, from what the transport reports.\<close>

definition stats :: "duration \<Rightarrow> u64 \<Rightarrow> u64 \<Rightarrow> 'a delivery \<Rightarrow> Stats" where
  "stats rtt out_bytes in_bytes d =
     \<lparr>st_RTT = rtt, st_TransportStatsAvailable = True, st_BytesSent = out_bytes, st_BytesReceived = in_bytes, st_SendQueuedBytes = 0,
      st_ReceiveQueuedBytes = 0, st_LocalDatagramsDropped = dl_localDrops d, st_CoalescedDatagramsDropped = dl_coalescedDrops d,
      st_StaleUpdatesDropped = dl_staleDrops d\<rparr>"

text \<open>\<open>protocolViolation\<close>: the session is closed unless the transport or the epoch is over or the connection was replaced.\<close>

definition protocolViolation :: "bool \<Rightarrow> bool \<Rightarrow> (Code \<Rightarrow> error option) \<Rightarrow> 'a delivery \<Rightarrow> 'a delivery" where
  "protocolViolation transport_done epoch_done operations_close d =
     (if transport_done \<or> epoch_done \<or> \<not> current d then d
      else d\<lparr>dl_session := snd (Close operations_close (dl_session d) ProtocolViolation)\<rparr>)"

section \<open>Dispatch\<close>

text \<open>Whether \<open>enqueueHandler\<close> replaces a queued envelope, and what its own envelope is like when it returns false: charged, and
  released if it was the one taken back out of the queue.\<close>

definition coalesces :: "pointer \<Rightarrow> Incoming \<Rightarrow> handling \<Rightarrow> bool" where
  "coalesces p incoming h =
     (case chargeHandlerIncoming incoming h of
        (False, _, _) \<Rightarrow> False
      | (True, incoming, h) \<Rightarrow>
          (case handler_queue (hg_conns h p) of
             None \<Rightarrow> False
           | Some q \<Rightarrow>
               in_Delivery incoming = UnreliableSequenced
               \<and> (case ReplaceWith q \<lparr>it_Value = incoming, it_Bytes = incomingCharge (Some incoming), it_Key = ucast (in_Channel incoming) + 1\<rparr> of
                    ((accepted, _, replaced), _) \<Rightarrow> accepted \<and> replaced)))"

definition rejected_envelope :: "pointer \<Rightarrow> Incoming \<Rightarrow> handling \<Rightarrow> Incoming" where
  "rejected_envelope p incoming h =
     (case chargeHandlerIncoming incoming h of
        (False, i, _) \<Rightarrow> i
      | (True, i, h) \<Rightarrow>
          (case handler_queue (hg_conns h p) of
             None \<Rightarrow> i
           | Some q \<Rightarrow>
               (let bytes = incomingCharge (Some i);
                    (accepted, q') =
                      (if in_Delivery i = UnreliableSequenced
                       then (let ((accepted, _, _), q') = ReplaceWith q \<lparr>it_Value = i, it_Bytes = bytes, it_Key = ucast (in_Channel i) + 1\<rparr> in (accepted, q'))
                       else TryPush q \<lparr>it_Value = i, it_Bytes = bytes, it_Key = 0\<rparr>)
                in if accepted \<and> (case fst (Pop q') of None \<Rightarrow> False | Some item \<Rightarrow> it_Value item = i) then snd (Release_in i) else i)))"

definition dispatch_handlers :: "Incoming \<Rightarrow> 'a delivery \<Rightarrow> (bool \<times> Incoming \<times> 'a delivery) option" where
  "dispatch_handlers incoming d =
     (let p = co_ptr (dl_ops d); d' = (if coalesces p incoming (dl_handling d) then dropDatagram ''coalesced'' False d else d) in
      map_option (\<lambda>(ok, h). (ok, rejected_envelope p incoming (dl_handling d), d'\<lparr>dl_handling := h\<rparr>)) (enqueueHandler p incoming (dl_handling d)))"

definition push_polling :: "Incoming \<Rightarrow> 'a delivery \<Rightarrow> (bool \<times> Incoming \<times> 'a delivery) option" where
  "push_polling incoming d =
     (case dl_incoming d of
        None \<Rightarrow> Some (False, incoming, d)
      | Some q \<Rightarrow> map_option (\<lambda>(ok, i, q). (ok, i, d\<lparr>dl_incoming := Some q\<rparr>)) (Push_iq q incoming (incomingCharge (Some incoming))))"

definition dispatch :: "Incoming \<Rightarrow> 'a delivery \<Rightarrow> (bool \<times> Incoming \<times> 'a delivery) option" where
  "dispatch incoming d =
     (if \<not> current d then Some (False, incoming, d)
      else if dl_mode d = Polling then push_polling incoming d
      else dispatch_handlers incoming d)"

text \<open>\<open>Release\<close> of an envelope that was not delivered.\<close>

definition release_undelivered :: "Incoming \<Rightarrow> 'a delivery \<Rightarrow> 'a delivery option" where
  "release_undelivered i d =
     (if dl_mode d = Polling
      then (case dl_incoming d of None \<Rightarrow> Some d | Some q \<Rightarrow> map_option (\<lambda>(i, q). d\<lparr>dl_incoming := Some q\<rparr>) (release_incoming i q))
      else map_option (\<lambda>h. d\<lparr>dl_handling := h\<rparr>) (release_handler i (dl_handling d)))"

section \<open>Delivery\<close>

definition incoming_of :: "'a delivery \<Rightarrow> IncomingKind \<Rightarrow> Incoming" where
  "incoming_of d kind =
     \<lparr>in_Kind = kind, in_Session = dl_pointer d, in_Epoch = co_epoch (dl_ops d), in_Type = 0, in_Channel = 0, in_Delivery = ReliableOrdered,
      in_Sequence = 0, in_Payload = [], in_Lifecycle = None, in_release = [], in_after = False, in_released = False, in_responded = False\<rparr>"

definition event_envelope :: "'a delivery \<Rightarrow> Event \<Rightarrow> Incoming" where
  "event_envelope d event =
     (let i = (incoming_of d EventMessage)\<lparr>in_Type := ucast (ev_MessageType event), in_Channel := ucast (ev_Channel event), in_Payload := ev_Payload event\<rparr> in
      if ev_Kind event = UnreliableKind then i\<lparr>in_Delivery := Unreliable\<rparr>
      else if ev_Kind event = SequencedKind then i\<lparr>in_Delivery := UnreliableSequenced, in_Sequence := ev_Sequence event\<rparr>
      else i\<lparr>in_Delivery := ReliableOrdered\<rparr>)"

definition deliverEvent :: "Event \<Rightarrow> 'a delivery \<Rightarrow> 'a delivery option" where
  "deliverEvent event d =
     Option.bind (dispatch (event_envelope d event) d) (\<lambda>(ok, i, d).
       if ok then Some d
       else release_undelivered i (if current d then dropDatagram ''pressure'' False d else d))"

text \<open>\<open>deliverLifecycleAfter\<close>; the first component says that the function \<open>after\<close> was called here.\<close>

definition deliverLifecycleAfter :: "LifecycleKind \<Rightarrow> Code \<Rightarrow> bool \<Rightarrow> 'a delivery \<Rightarrow> (bool \<times> 'a delivery) option" where
  "deliverLifecycleAfter kind reason has_after d =
     (let i = (incoming_of d LifecycleMessage)\<lparr>in_Lifecycle := Some \<lparr>lc_Kind = kind, lc_Epoch = co_epoch (dl_ops d), lc_Reason = reason\<rparr>, in_after := has_after\<rparr> in
      if dl_mode d = Polling
      then
        Option.bind (push_polling i d) (\<lambda>(ok, i, d).
          map_option (Pair has_after) (if ok then Some d else release_undelivered i d))
      else
        Option.bind (dispatch_handlers i d) (\<lambda>(ok, i, d).
          if ok then Some (False, d) else map_option (Pair has_after) (release_undelivered i d)))"

text \<open>Reliable messages: the reservation, the delivery into it, and both for a payload that is already there.\<close>

definition reserveReliableIncoming :: "int \<Rightarrow> 'a delivery \<Rightarrow> (reliableIncomingReservation progress \<times> 'a delivery) option" where
  "reserveReliableIncoming bytes d =
     (if dl_mode d = Polling
      then
        (case dl_incoming d of
           None \<Rightarrow> Some (Failed ErrBackpressure, d)
         | Some q \<Rightarrow> map_option (\<lambda>(r, q). (r, d\<lparr>dl_incoming := Some q\<rparr>)) (reserveReliable q bytes))
      else map_option (\<lambda>(r, h). (r, d\<lparr>dl_handling := h\<rparr>)) (reserveReliableHandler (co_ptr (dl_ops d)) bytes (dl_handling d)))"

definition deliverReservedReliableEvent :: "Event \<Rightarrow> reliableIncomingReservation \<Rightarrow> 'a delivery \<Rightarrow>
  (error option \<times> reliableIncomingReservation \<times> 'a delivery) option" where
  "deliverReservedReliableEvent event r d =
     (let i = (incoming_of d EventMessage)\<lparr>in_Type := ucast (ev_MessageType event), in_Channel := ucast (ev_Channel event), in_Delivery := ReliableOrdered,
                in_Payload := ev_Payload event\<rparr> in
      if dl_mode d = Polling
      then
        (case dl_incoming d of
           None \<Rightarrow> Some (Some ErrBackpressure, r, d)
         | Some q \<Rightarrow>
             map_option (\<lambda>(ok, r, i, q). (if ok then None else Some ErrBackpressure, r, d\<lparr>dl_incoming := Some q\<rparr>)) (Commit_rr q r i))
      else map_option (\<lambda>(err, r, h). (err, r, d\<lparr>dl_handling := h\<rparr>)) (enqueueReservedReliableHandler (co_ptr (dl_ops d)) i r (dl_handling d)))"

definition cancel_reservation :: "reliableIncomingReservation \<Rightarrow> Incoming Item \<Rightarrow> 'a delivery \<Rightarrow> 'a delivery option" where
  "cancel_reservation r zero d =
     (if dl_mode d = Polling
      then (case dl_incoming d of None \<Rightarrow> Some d | Some q \<Rightarrow> map_option (\<lambda>(r, q). d\<lparr>dl_incoming := Some q\<rparr>) (Cancel_rr q r zero))
      else if rr_done r then Some d
      else
        (let p = co_ptr (dl_ops d); h = dl_handling d in
         case cn_queue (hg_conns h p) of
           None \<Rightarrow> None
         | Some q \<Rightarrow>
             map_option (\<lambda>h. d\<lparr>dl_handling := h\<rparr>)
               (give_back_app [rr_charge r] (set_conn p ((hg_conns h p)\<lparr>cn_queue := Some (snd (Cancel q (rr_queue r) zero))\<rparr>) h))))"

text \<open>A call that would wait is its wait, at most for \<open>SlowConsumerTimeout\<close>.\<close>

definition deliverReliableEvent :: "Incoming Item \<Rightarrow> Event \<Rightarrow> 'a delivery \<Rightarrow> (unit progress \<times> 'a delivery) option" where
  "deliverReliableEvent zero event d =
     Option.bind (reserveReliableIncoming (incomingCharge (Some ((incoming_of d EventMessage)\<lparr>in_Payload := ev_Payload event\<rparr>))) d) (\<lambda>(progress, d).
       case progress of
         Failed err \<Rightarrow> Some (Failed err, d)
       | WaitsForLedger \<Rightarrow> Some (WaitsForLedger, d)
       | WaitsForQueue \<Rightarrow> Some (WaitsForQueue, d)
       | Returned r \<Rightarrow>
           Option.bind (deliverReservedReliableEvent event r d) (\<lambda>(err, r, d).
             case err of
               None \<Rightarrow> Some (Returned (), d)
             | Some e \<Rightarrow> map_option (Pair (Failed e)) (cancel_reservation r zero d)))"

section \<open>What the handler queues hold of the application budget\<close>

fun app_charge :: "charge \<Rightarrow> int" where
  "app_charge (AppCharge n) = n"
| "app_charge _ = 0"

definition app_holds :: "Incoming \<Rightarrow> int" where
  "app_holds i = (if in_released i then 0 else \<Sum>c \<leftarrow> in_release i. app_charge c)"

definition app_chargeable :: "Incoming \<Rightarrow> bool" where
  "app_chargeable i \<longleftrightarrow> (\<forall>c \<in> set (in_release i). 0 \<le> app_charge c)"

definition app_used :: "handling \<Rightarrow> int" where
  "app_used h = (case hg_app h of None \<Rightarrow> 0 | Some b \<Rightarrow> bu_used b)"

definition app_ok :: "handling \<Rightarrow> bool" where
  "app_ok h = (case hg_app h of None \<Rightarrow> True | Some b \<Rightarrow> budget_inv b)"

text \<open>The key a queued envelope has: its channel, for the replaceable ones.\<close>

definition item_key :: "Incoming \<Rightarrow> u64" where
  "item_key i = (if in_Delivery i = UnreliableSequenced then ucast (in_Channel i) + 1 else 0)"

lemma uint_channel: "uint (ucast (c :: u16) :: u64) = uint c"
  using uint_bounded [of c] by (simp add: unsigned_ucast_eq take_bit_eq_mod)

lemma channel_key: "ucast (c :: u16) + 1 \<noteq> (0 :: u64)" "ucast c = (ucast c' :: u64) \<longleftrightarrow> c = c'"
proof -
  have "uint (ucast c + 1 :: u64) = uint c + 1"
    using uint_bounded [of c] by (simp add: uint_word_ariths uint_channel)
  moreover have "uint c + 1 \<noteq> 0"
    using uint_ge_0 [of c] by linarith
  ultimately show "ucast (c :: u16) + 1 \<noteq> (0 :: u64)"
    by (metis uint_0_eq)
  show "ucast c = (ucast c' :: u64) \<longleftrightarrow> c = c'"
    by (metis uint_channel word_uint_eq_iff)
qed

lemma item_key_eq: "in_Delivery i = UnreliableSequenced \<Longrightarrow> item_key old = item_key i \<longleftrightarrow> in_Delivery old = UnreliableSequenced \<and> in_Channel old = in_Channel i"
  by (auto simp: item_key_def channel_key channel_key(1) [THEN not_sym])

definition handling_ok :: "pointer \<Rightarrow> handling \<Rightarrow> bool" where
  "handling_ok p h \<longleftrightarrow>
     handler_queue (hg_conns h p) \<noteq> None \<and> app_ok h
     \<and> (\<forall>it \<in> set (items_of (hg_conns h p)). app_chargeable (it_Value it) \<and> it_Key it = item_key (it_Value it))
     \<and> (\<Sum>it \<leftarrow> items_of (hg_conns h p). app_holds (it_Value it)) \<le> app_used h"

lemma app_conns [simp]:
  "app_used (set_conn p c h) = app_used h" "app_ok (set_conn p c h) = app_ok h"
  "app_used (h\<lparr>hg_sched := s\<rparr>) = app_used h" "app_ok (h\<lparr>hg_sched := s\<rparr>) = app_ok h"
  by (simp_all add: app_used_def app_ok_def set_conn_def)

lemma app_charges_nonneg: "\<forall>c \<in> set cs. 0 \<le> app_charge c \<Longrightarrow> 0 \<le> (\<Sum>c \<leftarrow> cs. app_charge c)"
  by (induction cs) auto

lemma app_holds_nonneg: "app_chargeable i \<Longrightarrow> 0 \<le> app_holds i"
  by (simp add: app_holds_def app_chargeable_def app_charges_nonneg)

lemma give_back_app_defined:
  assumes "app_ok h" "\<forall>c \<in> set cs. 0 \<le> app_charge c" "(\<Sum>c \<leftarrow> cs. app_charge c) \<le> app_used h"
  shows "\<exists>h'. give_back_app cs h = Some h' \<and> app_ok h' \<and> app_used h' = app_used h - (\<Sum>c \<leftarrow> cs. app_charge c)"
  using assms
proof (induction cs h rule: give_back_app.induct)
  case (2 n cs h)
  then have nonneg: "0 \<le> n" "0 \<le> (\<Sum>c \<leftarrow> cs. app_charge c)"
    using app_charges_nonneg by auto
  show ?case
  proof (cases "hg_app h")
    case None
    with 2 nonneg show ?thesis by (auto simp: app_used_def)
  next
    case (Some app)
    with 2(4,5) nonneg have bounds: "n \<le> bu_used app" "(\<Sum>c \<leftarrow> cs. app_charge c) \<le> bu_used app - n"
      by (auto simp: app_used_def)
    define app' where "app' = signal (app\<lparr>bu_used := bu_used app - n\<rparr>)"
    have rel: "Release app n = Some app'"
      using nonneg bounds by (simp add: Release_def app'_def)
    have "app_ok (h\<lparr>hg_app := Some app'\<rparr>)" "app_used (h\<lparr>hg_app := Some app'\<rparr>) = app_used h - n"
      using 2(3) Some nonneg bounds by (simp_all add: app_ok_def app_used_def app'_def signal_def budget_inv_def)
    with 2(2) [OF Some rel] 2(4) bounds Some rel show ?thesis
      by (auto simp: app_used_def)
  qed
qed auto

lemma release_handler_defined:
  assumes "app_ok h" "app_chargeable i" "app_holds i \<le> app_used h"
  shows "\<exists>h'. release_handler i h = Some h' \<and> app_ok h' \<and> app_used h' = app_used h - app_holds i
    \<and> hg_sched h' = hg_sched h \<and> hg_conns h' = hg_conns h"
proof -
  have "\<exists>h'. release_handler i h = Some h' \<and> app_ok h' \<and> app_used h' = app_used h - app_holds i"
    using assms give_back_app_defined [of h "fst (Release_in i)"]
    by (auto simp: release_handler_def Release_in_def app_holds_def app_chargeable_def)
  then show ?thesis
    using release_handler_frame by blast
qed

lemma released_holds [simp]: "app_holds (snd (Release_in i)) = 0"
  by (simp add: Release_in_def app_holds_def)

lemma released_chargeable: "app_chargeable i \<Longrightarrow> app_chargeable (snd (Release_in i))"
  by (simp add: Release_in_def app_chargeable_def)

lemma charge_cases:
  assumes "app_ok h" "in_release i = []" "\<not> in_released i" "chargeHandlerIncoming i h = (ok, i', h')"
  shows "if ok then app_ok h' \<and> app_chargeable i' \<and> app_used h' = app_used h + app_holds i' \<and> i'\<lparr>in_release := []\<rparr> = i
       \<and> hg_sched h' = hg_sched h \<and> hg_conns h' = hg_conns h
     else i' = i \<and> h' = h"
proof -
  have same: "i\<lparr>in_release := []\<rparr> = i"
    using assms(2) by (cases i) simp
  show ?thesis
    using assms same
    by (auto simp: chargeHandlerIncoming_def app_ok_def app_used_def app_holds_def app_chargeable_def Acquire_def budget_inv_def
        incomingCharge_def Let_def split: option.splits if_splits)
qed

text \<open>\<open>schedule\<close> after an item was queued: it stays, or the connection had no token, could get none, and the item is out again.\<close>

lemma schedule_outcome:
  assumes "app_ok h" "cn_queue (hg_conns h p) = Some q" "cn_scheduled (hg_conns h p) \<or> q_items q = [it]"
    and "app_chargeable (it_Value it)" "app_holds (it_Value it) \<le> app_used h"
  shows "\<exists>ok h'. schedule p h = Some (ok, h') \<and> app_ok h' \<and> cn_queue (hg_conns h' p) \<noteq> None
    \<and> (if ok then items_of (hg_conns h' p) = q_items q \<and> app_used h' = app_used h
       else q_items q = [it] \<and> items_of (hg_conns h' p) = [] \<and> app_used h' = app_used h - app_holds (it_Value it))"
proof (cases "cn_scheduled (hg_conns h p)")
  case True
  with assms show ?thesis by (intro exI [of _ True]) (simp add: schedule_def items_of_def)
next
  case False
  with assms have q: "q_items q = [it]" by blast
  obtain b s where enq: "enqueue (hg_sched h) p = (b, s)"
    by fastforce
  show ?thesis
  proof (cases b)
    case True
    with False enq assms(1,2) show ?thesis
      by (simp add: schedule_def Let_def items_of_def) (auto simp: set_conn_def)
  next
    case refused: False
    define q' where "q' = snd (Pop q)"
    have pop: "Pop q = (Some it, q')" "q_items q' = []"
      using q by (simp_all add: Pop_def q'_def signal_q_def)
    define h2 where "h2 = set_conn p ((hg_conns h p)\<lparr>cn_queue := Some q', cn_scheduled := False\<rparr>) (h\<lparr>hg_sched := s\<rparr>)"
    have "schedule p h = map_option (Pair False) (release_handler (it_Value it) h2)"
      using False enq refused pop assms(2) by (simp add: schedule_def Let_def h2_def)
    moreover have "app_ok h2" "app_used h2 = app_used h" "cn_queue (hg_conns h2 p) = Some q'"
      using assms(1) by (simp_all add: h2_def) (simp add: set_conn_def)
    moreover from this assms(4,5) release_handler_defined [of h2 "it_Value it"] obtain h' where
      "release_handler (it_Value it) h2 = Some h'" "app_ok h'" "app_used h' = app_used h2 - app_holds (it_Value it)"
      "hg_conns h' = hg_conns h2"
      by auto
    ultimately show ?thesis
      using q pop(2) by (intro exI [of _ False] exI [of _ h']) (simp add: items_of_def)
  qed
qed

text \<open>The item \<open>enqueueHandler\<close> makes of an envelope, and what the queue does with it.\<close>

definition handler_item :: "Incoming \<Rightarrow> Incoming Item" where
  "handler_item i = \<lparr>it_Value = i, it_Bytes = incomingCharge (Some i), it_Key = item_key i\<rparr>"

definition offer :: "Incoming Queue \<Rightarrow> Incoming \<Rightarrow> (bool \<times> Incoming Item option \<times> bool) \<times> Incoming Queue" where
  "offer q i =
     (if in_Delivery i = UnreliableSequenced then ReplaceWith q (handler_item i)
      else (let (accepted, q') = TryPush q (handler_item i) in ((accepted, None, False), q')))"

lemma offer_cases:
  assumes "offer q i = ((accepted, previous, replaced), q')"
  shows "(\<not> accepted \<and> q' = q)
    \<or> (accepted \<and> previous = None \<and> \<not> replaced \<and> q_items q' = q_items q @ [handler_item i])
    \<or> (accepted \<and> replaced \<and> in_Delivery i = UnreliableSequenced
        \<and> (\<exists>pre old post. q_items q = pre @ old # post \<and> previous = Some old \<and> it_Key old = it_Key (handler_item i)
             \<and> q_items q' = pre @ handler_item i # post))"
proof (cases "in_Delivery i = UnreliableSequenced")
  case False
  with assms show ?thesis
    by (auto simp: offer_def TryPush_def signal_q_def split: if_splits)
next
  case True
  show ?thesis
  proof (cases "find_key (it_Key (handler_item i)) (q_items q) 0")
    case None
    with True assms show ?thesis
      by (auto simp: offer_def ReplaceWith_def signal_q_def split: if_splits)
  next
    case (Some r)
    obtain j old where r: "r = (j, old)"
      by fastforce
    with Some obtain pre post where eq: "q_items q = pre @ old # post" "j = length pre" "it_Key old = it_Key (handler_item i)"
      using find_key_Some by fastforce
    with True assms Some r show ?thesis
      by (fastforce simp: offer_def ReplaceWith_def signal_q_def split: if_splits)
  qed
qed

lemma enqueueHandler_offer:
  assumes "chargeHandlerIncoming incoming h = (True, i, h1)" "handler_queue (hg_conns h1 p) = Some q"
    and "offer q i = ((accepted, previous, replaced), q')"
  defines "h2 \<equiv> set_conn p ((hg_conns h1 p)\<lparr>cn_queue := Some q'\<rparr>) h1"
  shows "enqueueHandler p incoming h =
      Option.bind (case previous of Some old \<Rightarrow> if accepted \<and> replaced then release_handler (it_Value old) h2 else Some h2 | None \<Rightarrow> Some h2)
        (\<lambda>h. if \<not> accepted then Some (False, h) else schedule p h)"
    and "coalesces p incoming h \<longleftrightarrow> accepted \<and> replaced"
    and "rejected_envelope p incoming h =
      (if accepted \<and> (case fst (Pop q') of None \<Rightarrow> False | Some item \<Rightarrow> it_Value item = i) then snd (Release_in i) else i)"
  using assms(1-3) unfolding h2_def
  by (auto simp: enqueueHandler_def coalesces_def rejected_envelope_def offer_def handler_item_def item_key_def Let_def split: if_splits prod.splits)

lemma handler_item_simps [simp]: "it_Value (handler_item i) = i" "it_Key (handler_item i) = item_key i"
  by (simp_all add: handler_item_def)

text \<open>
  The three outcomes of \<open>enqueueHandler\<close>, for a connection that has a token or an empty queue: queued at the end, queued in the place of
  an envelope with the same key, refused.
\<close>

definition queued_last :: "pointer \<Rightarrow> handling \<Rightarrow> Incoming \<Rightarrow> handling \<Rightarrow> bool" where
  "queued_last p h i h' \<longleftrightarrow> handling_ok p h' \<and> items_of (hg_conns h' p) = items_of (hg_conns h p) @ [handler_item i]"

definition queued_instead :: "pointer \<Rightarrow> handling \<Rightarrow> Incoming \<Rightarrow> handling \<Rightarrow> bool" where
  "queued_instead p h i h' \<longleftrightarrow> handling_ok p h' \<and> in_Delivery i = UnreliableSequenced
     \<and> (\<exists>pre old post. items_of (hg_conns h p) = pre @ old # post
          \<and> in_Delivery (it_Value old) = UnreliableSequenced \<and> in_Channel (it_Value old) = in_Channel i
          \<and> items_of (hg_conns h' p) = pre @ handler_item i # post)"

definition not_queued :: "pointer \<Rightarrow> handling \<Rightarrow> Incoming \<Rightarrow> handling \<Rightarrow> bool" where
  "not_queued p h r h' \<longleftrightarrow> app_ok h' \<and> handler_queue (hg_conns h' p) \<noteq> None \<and> items_of (hg_conns h' p) = items_of (hg_conns h p)
     \<and> app_chargeable r \<and> app_used h' = app_used h + app_holds r"

text \<open>After the charge: the connection's queue is \<open>q'\<close> with the item of \<open>i\<close> at its end, or with it in the place of \<open>old\<close>.\<close>

lemma queued_last_or_not:
  assumes ok: "handling_ok p h" and h2: "app_ok h2" "app_used h2 = app_used h + app_holds i" "app_chargeable i"
    and q: "cn_queue (hg_conns h2 p) = Some q'" "q_items q' = items_of (hg_conns h p) @ [handler_item i]"
    and token: "cn_scheduled (hg_conns h2 p) \<or> items_of (hg_conns h p) = []"
  shows "\<exists>ok h'. schedule p h2 = Some (ok, h')
    \<and> (if ok then queued_last p h i h' else items_of (hg_conns h p) = [] \<and> not_queued p h (snd (Release_in i)) h')"
proof -
  have sums: "(\<Sum>it \<leftarrow> items_of (hg_conns h p). app_holds (it_Value it)) \<le> app_used h"
      "0 \<le> (\<Sum>it \<leftarrow> items_of (hg_conns h p). app_holds (it_Value it))"
    using ok app_holds_nonneg by (auto simp: handling_ok_def intro!: sum_list_nonneg)
  have "app_holds (it_Value (handler_item i)) \<le> app_used h2" "app_chargeable (it_Value (handler_item i))"
    using h2 sums by simp_all
  from schedule_outcome [OF h2(1) q(1) _ this(2,1), unfolded handler_item_simps(1)] token q(2) obtain ok' h' where
    res: "schedule p h2 = Some (ok', h')" "app_ok h'" "cn_queue (hg_conns h' p) \<noteq> None"
      "if ok' then items_of (hg_conns h' p) = q_items q' \<and> app_used h' = app_used h2
       else q_items q' = [handler_item i] \<and> items_of (hg_conns h' p) = [] \<and> app_used h' = app_used h2 - app_holds i"
    by fastforce
  have "handler_queue (hg_conns h' p) \<noteq> None"
    using res(3) by (auto simp: handler_queue_def)
  with res q(2) sums h2 ok released_chargeable [OF h2(3)] show ?thesis
    by (intro exI [of _ ok'] exI [of _ h']) (auto simp: queued_last_def not_queued_def handling_ok_def)
qed

lemma queued_instead_of:
  assumes ok: "handling_ok p h" and h2: "app_ok h2" "app_used h2 = app_used h + app_holds i" "app_chargeable i"
    and items: "items_of (hg_conns h p) = pre @ old # post" "it_Key old = it_Key (handler_item i)" "in_Delivery i = UnreliableSequenced"
    and q: "cn_queue (hg_conns h2 p) = Some q'" "q_items q' = pre @ handler_item i # post"
    and token: "cn_scheduled (hg_conns h2 p)"
  shows "\<exists>h'. Option.bind (release_handler (it_Value old) h2) (schedule p) = Some (True, h') \<and> queued_instead p h i h'"
proof -
  have sums: "(\<Sum>it \<leftarrow> pre. app_holds (it_Value it)) + app_holds (it_Value old) + (\<Sum>it \<leftarrow> post. app_holds (it_Value it)) \<le> app_used h"
      "0 \<le> (\<Sum>it \<leftarrow> pre. app_holds (it_Value it))" "0 \<le> (\<Sum>it \<leftarrow> post. app_holds (it_Value it))"
    using ok app_holds_nonneg items(1) by (auto simp: handling_ok_def intro!: sum_list_nonneg)
  have old: "app_chargeable (it_Value old)"
    using ok items(1) by (simp add: handling_ok_def)
  have "app_holds (it_Value old) \<le> app_used h2"
    using sums h2 app_holds_nonneg [OF h2(3)] by linarith
  from release_handler_defined [OF h2(1) old this] obtain h3 where
    rel: "release_handler (it_Value old) h2 = Some h3" "app_ok h3" "app_used h3 = app_used h2 - app_holds (it_Value old)"
      "hg_conns h3 = hg_conns h2"
    by blast
  moreover have "schedule p h3 = Some (True, h3)"
    using rel token by (simp add: schedule_def)
  moreover have "queued_instead p h i h3"
    using rel q items sums h2 ok item_key_eq [OF items(3), of "it_Value old"]
    by (auto simp: queued_instead_def handling_ok_def items_of_def handler_queue_def)
  ultimately show ?thesis by simp
qed

lemma enqueueHandler_outcome:
  assumes ok: "handling_ok p h" and new: "in_release incoming = []" "\<not> in_released incoming"
    and token: "cn_scheduled (hg_conns h p) \<or> items_of (hg_conns h p) = []"
  shows "\<exists>ok h' i. enqueueHandler p incoming h = Some (ok, h') \<and> i\<lparr>in_release := []\<rparr> = incoming
    \<and> (if \<not> ok then \<not> coalesces p incoming h \<and> not_queued p h (rejected_envelope p incoming h) h'
       else if coalesces p incoming h then queued_instead p h i h' else queued_last p h i h')"
proof -
  obtain b i h1 where charge: "chargeHandlerIncoming incoming h = (b, i, h1)"
    using prod_cases3 by blast
  have okD: "handler_queue (hg_conns h p) \<noteq> None" "app_ok h"
    using ok by (simp_all add: handling_ok_def)
  note cases = charge_cases [OF okD(2) new charge]
  have same: "incoming\<lparr>in_release := []\<rparr> = incoming"
    using new by (cases incoming) simp
  show ?thesis
  proof (cases b)
    case False
    with charge cases okD same new show ?thesis
      by (intro exI [of _ False] exI [of _ h] exI [of _ incoming])
        (simp add: enqueueHandler_def coalesces_def rejected_envelope_def not_queued_def app_chargeable_def app_holds_def)
  next
    case True
    with cases have h1: "app_ok h1" "app_chargeable i" "app_used h1 = app_used h + app_holds i" "i\<lparr>in_release := []\<rparr> = incoming"
        "hg_conns h1 = hg_conns h"
      by simp_all
    obtain q where q: "handler_queue (hg_conns h1 p) = Some q"
      using okD h1 by auto
    note items = handler_queue_items [OF q, unfolded h1(5)]
    obtain accepted previous replaced q' where offer: "offer q i = ((accepted, previous, replaced), q')"
      by (metis prod.collapse)
    define h2 where "h2 = set_conn p ((hg_conns h1 p)\<lparr>cn_queue := Some q'\<rparr>) h1"
    have h2: "app_ok h2" "app_used h2 = app_used h + app_holds i" "cn_queue (hg_conns h2 p) = Some q'"
        "cn_scheduled (hg_conns h2 p) = cn_scheduled (hg_conns h p)"
      using h1 by (simp_all add: h2_def) (simp_all add: set_conn_def)
    note eqs = enqueueHandler_offer [OF charge [unfolded eqTrueI [OF True]] q offer, folded h2_def]
    consider (refused) "\<not> accepted" "q' = q"
      | (queued) "accepted" "previous = None" "\<not> replaced" "q_items q' = q_items q @ [handler_item i]"
      | (replaced) pre old post where "accepted" "replaced" "in_Delivery i = UnreliableSequenced" "q_items q = pre @ old # post"
          "previous = Some old" "it_Key old = it_Key (handler_item i)" "q_items q' = pre @ handler_item i # post"
      using offer_cases [OF offer] by blast
    then show ?thesis
    proof cases
      case refused
      then have "enqueueHandler p incoming h = Some (False, h2)" "\<not> coalesces p incoming h" "rejected_envelope p incoming h = i"
        using eqs by (auto split: option.splits)
      moreover have "not_queued p h i h2"
        using h2 h1(2) refused items by (simp add: not_queued_def items_of_def handler_queue_def)
      ultimately show ?thesis
        using h1(4) by (intro exI [of _ False] exI [of _ h2] exI [of _ i]) simp
    next
      case queued
      with items have q': "q_items q' = items_of (hg_conns h p) @ [handler_item i]" by simp
      from queued_last_or_not [OF ok h2(1,2) h1(2) h2(3) q'] token h2(4) obtain ok' h' where
        res: "schedule p h2 = Some (ok', h')"
          "if ok' then queued_last p h i h' else items_of (hg_conns h p) = [] \<and> not_queued p h (snd (Release_in i)) h'"
        by auto
      moreover have "items_of (hg_conns h p) = [] \<Longrightarrow> rejected_envelope p incoming h = snd (Release_in i)"
        using eqs(3) queued(1) q' by (simp add: Pop_def)
      ultimately show ?thesis
        using eqs(1,2) queued h1(4) by (intro exI [of _ ok'] exI [of _ h'] exI [of _ i]) auto
    next
      case replaced
      with items token h2(4) have "cn_scheduled (hg_conns h2 p)" by auto
      from queued_instead_of [OF ok h2(1,2) h1(2) _ replaced(6,3) h2(3) replaced(7) this] items replaced(4) obtain h' where
        "Option.bind (release_handler (it_Value old) h2) (schedule p) = Some (True, h')" "queued_instead p h i h'"
        by auto
      then show ?thesis
        using eqs(1,2) replaced h1(4) by (intro exI [of _ True] exI [of _ h'] exI [of _ i]) (auto cong: option.case_cong)
    qed
  qed
qed

section \<open>The polling queue\<close>

lemma Push_iq_outcome:
  assumes "iq_inv q" "in_release i = []" "\<not> in_released i" "0 \<le> n"
  shows "\<exists>ok i' q'. Push_iq q i n = Some (ok, i', q') \<and> iq_inv q'
    \<and> (if ok then i' = attachCharge i n \<and> q_items (iq_queue q') = q_items (iq_queue q) @ [\<lparr>it_Value = i', it_Bytes = n, it_Key = 0\<rparr>]
       else holds i' = 0 \<and> chargeable i' \<and> q_items (iq_queue q') = q_items (iq_queue q) \<and> iq_used q' = iq_used q)"
proof -
  obtain b q1 where acq: "acquire_iq q n = (b, q1)"
    by fastforce
  have frame: "iq_queue q1 = iq_queue q"
    using acquire_iq_frame [OF acq] by (simp add: same_frame_def)
  have fr: "fresh i"
    using assms(2,3) by (simp add: fresh_def)
  show ?thesis
  proof (cases b)
    case False
    with polling.acquire_refused [OF assms(1)] acq have "iq_used q1 = iq_used q" "iq_inv q1"
      by auto
    with False acq frame assms(4) fresh_holds [OF fr] show ?thesis
      by (auto simp: Push_iq_def)
  next
    case True
    with polling.acquire_granted [OF assms(1)] acq have q1: "iq_used q1 = iq_used q + n" "iq_inv q1"
      by auto
    define c where "c = attachCharge i n"
    have c: "holds c = n" "chargeable c"
      using holds_charged [OF fr assms(4)] by (simp_all add: c_def attachCharge_def)
    obtain ok queue where pushed: "(if iq_closed q1 then (False, iq_queue q1)
        else TryPush (iq_queue q1) \<lparr>it_Value = c, it_Bytes = n, it_Key = 0\<rparr>) = (ok, queue)"
      by fastforce
    have items: "q_items queue = (if ok then q_items (iq_queue q) @ [\<lparr>it_Value = c, it_Bytes = n, it_Key = 0\<rparr>] else q_items (iq_queue q))"
      using pushed frame by (auto dest: TryPush_items split: if_splits)
    have eq: "Push_iq q i n = (if ok then Some (True, c, q1\<lparr>iq_queue := queue\<rparr>)
        else map_option (Pair False) (release_incoming c (q1\<lparr>iq_queue := queue\<rparr>)))"
      using acq True assms(4) pushed by (auto simp: Push_iq_def c_def Let_def split: if_splits)
    have "0 \<le> iq_used q"
      using assms(1) by (simp add: iq_inv_def budget_inv_def)
    with release_incoming_defined [of "q1\<lparr>iq_queue := queue\<rparr>" c] c q1 obtain c' q2 where
      "release_incoming c (q1\<lparr>iq_queue := queue\<rparr>) = Some (c', q2)" "iq_inv q2"
      "iq_queue q2 = queue" "iq_used q2 = iq_used q" "holds c' = 0" "chargeable c'"
      by (auto simp: same_frame_def)
    with eq items q1 show ?thesis
      by (cases ok) (auto simp: c_def)
  qed
qed

section \<open>Every datagram is queued or counted\<close>

definition delivery_ok :: "'a delivery \<Rightarrow> bool" where
  "delivery_ok d =
     (if dl_mode d = Polling then (case dl_incoming d of None \<Rightarrow> False | Some q \<Rightarrow> iq_inv q)
      else handling_ok (co_ptr (dl_ops d)) (dl_handling d))"

definition queued :: "'a delivery \<Rightarrow> Incoming list" where
  "queued d =
     map it_Value (if dl_mode d = Polling then (case dl_incoming d of None \<Rightarrow> [] | Some q \<Rightarrow> q_items (iq_queue q))
       else items_of (hg_conns (dl_handling d) (co_ptr (dl_ops d))))"

definition in_use :: "'a delivery \<Rightarrow> int" where
  "in_use d =
     (if dl_mode d = Polling then (case dl_incoming d of None \<Rightarrow> 0 | Some q \<Rightarrow> iq_used q) else app_used (dl_handling d))"

text \<open>A connection whose handler queue has work has a token for it.\<close>

definition has_token :: "'a delivery \<Rightarrow> bool" where
  "has_token d \<longleftrightarrow> dl_mode d = Polling \<or> cn_scheduled (hg_conns (dl_handling d) (co_ptr (dl_ops d))) \<or> queued d = []"

lemma event_envelope_new: "in_release (event_envelope d event) = []" "\<not> in_released (event_envelope d event)"
  "in_Delivery (event_envelope d event) = UnreliableSequenced \<longleftrightarrow> ev_Kind event = SequencedKind"
  "in_Channel (event_envelope d event) = ucast (ev_Channel event)"
  by (simp_all add: event_envelope_def incoming_of_def Let_def UnreliableKind_def SequencedKind_def)

lemma holds_released: "holds i = 0 \<Longrightarrow> chargeable i \<Longrightarrow> iq_inv q \<Longrightarrow>
  \<exists>i' q'. release_incoming i q = Some (i', q') \<and> iq_inv q' \<and> iq_queue q' = iq_queue q \<and> iq_used q' = iq_used q"
  using release_incoming_defined [of q i] by (fastforce simp: same_frame_def iq_inv_def budget_inv_def)

lemma polling_event:
  assumes "current d" "delivery_ok d" "dl_mode d = Polling"
  shows "\<exists>d' i. deliverEvent event d = Some d' \<and> delivery_ok d'
    \<and> (queued d' = queued d @ [i] \<and> i\<lparr>in_release := []\<rparr> = event_envelope d event
         \<and> dl_localDrops d' = dl_localDrops d \<and> dl_coalescedDrops d' = dl_coalescedDrops d
       \<or> queued d' = queued d \<and> in_use d' = in_use d
         \<and> dl_localDrops d' = dl_localDrops d + 1 \<and> dl_coalescedDrops d' = dl_coalescedDrops d)"
proof -
  let ?e = "event_envelope d event"
  from assms obtain q where q: "dl_incoming d = Some q" "iq_inv q"
    by (auto simp: delivery_ok_def split: option.splits)
  have "0 \<le> incomingCharge (Some ?e)"
    by (simp add: incomingCharge_def)
  from Push_iq_outcome [OF q(2) event_envelope_new(1,2) this] obtain ok i q' where
    push: "Push_iq q ?e (incomingCharge (Some ?e)) = Some (ok, i, q')" "iq_inv q'"
      "if ok then i = attachCharge ?e (incomingCharge (Some ?e))
           \<and> q_items (iq_queue q') = q_items (iq_queue q) @ [\<lparr>it_Value = i, it_Bytes = incomingCharge (Some ?e), it_Key = 0\<rparr>]
       else holds i = 0 \<and> chargeable i \<and> q_items (iq_queue q') = q_items (iq_queue q) \<and> iq_used q' = iq_used q"
    by blast
  have same: "?e\<lparr>in_release := []\<rparr> = ?e"
    using event_envelope_new(1) by (metis Incoming.surjective Incoming.update_convs(10) old.unit.exhaust)
  have disp: "dispatch ?e d = Some (ok, i, d\<lparr>dl_incoming := Some q'\<rparr>)"
    using assms q(1) push(1) by (simp add: dispatch_def push_polling_def)
  show ?thesis
  proof (cases ok)
    case True
    with disp push assms(3) q same show ?thesis
      by (intro exI [of _ "d\<lparr>dl_incoming := Some q'\<rparr>"] exI [of _ i])
        (simp add: deliverEvent_def delivery_ok_def queued_def attachCharge_def)
  next
    case False
    with push holds_released [of i q'] obtain i' q'' where
      rel: "release_incoming i q' = Some (i', q'')" "iq_inv q''" "iq_queue q'' = iq_queue q'" "iq_used q'' = iq_used q'"
      by auto
    have "current (d\<lparr>dl_incoming := Some q'\<rparr>)"
      using assms(1) by (simp add: current_def)
    with False disp push assms(3) q rel show ?thesis
      by (intro exI [of _ "dropDatagram ''pressure'' False (d\<lparr>dl_incoming := Some q''\<rparr>)"] exI)
        (simp add: deliverEvent_def release_undelivered_def dropDatagram_def delivery_ok_def queued_def in_use_def)
  qed
qed

lemma handlers_event:
  assumes "current d" "delivery_ok d" "dl_mode d \<noteq> Polling" "has_token d"
  shows "\<exists>d' i. deliverEvent event d = Some d' \<and> delivery_ok d'
    \<and> (queued d' = queued d @ [i] \<and> i\<lparr>in_release := []\<rparr> = event_envelope d event
         \<and> dl_localDrops d' = dl_localDrops d \<and> dl_coalescedDrops d' = dl_coalescedDrops d
       \<or> dl_mode d \<noteq> Polling \<and> ev_Kind event = SequencedKind
         \<and> (\<exists>pre old post. queued d = pre @ old # post \<and> queued d' = pre @ i # post \<and> i\<lparr>in_release := []\<rparr> = event_envelope d event
              \<and> in_Delivery old = UnreliableSequenced \<and> in_Channel old = ucast (ev_Channel event))
         \<and> dl_localDrops d' = dl_localDrops d + 1 \<and> dl_coalescedDrops d' = dl_coalescedDrops d + 1
       \<or> queued d' = queued d \<and> in_use d' = in_use d
         \<and> dl_localDrops d' = dl_localDrops d + 1 \<and> dl_coalescedDrops d' = dl_coalescedDrops d)"
proof -
  define p e where "p = co_ptr (dl_ops d)" and "e = event_envelope d event"
  have ok: "handling_ok p (dl_handling d)"
    and token: "cn_scheduled (hg_conns (dl_handling d) p) \<or> items_of (hg_conns (dl_handling d) p) = []"
    using assms by (simp_all add: delivery_ok_def has_token_def queued_def p_def)
  from enqueueHandler_outcome [OF ok, of e] token event_envelope_new(1,2) obtain b h' i where
    enq: "enqueueHandler p e (dl_handling d) = Some (b, h')" "i\<lparr>in_release := []\<rparr> = e"
      "if \<not> b then \<not> coalesces p e (dl_handling d) \<and> not_queued p (dl_handling d) (rejected_envelope p e (dl_handling d)) h'
       else if coalesces p e (dl_handling d) then queued_instead p (dl_handling d) i h' else queued_last p (dl_handling d) i h'"
    unfolding e_def by blast
  define d1 where "d1 = (if coalesces p e (dl_handling d) then dropDatagram ''coalesced'' False d else d)\<lparr>dl_handling := h'\<rparr>"
  have disp: "dispatch e d = Some (b, rejected_envelope p e (dl_handling d), d1)"
    using assms(1,3) enq(1) by (simp add: dispatch_def dispatch_handlers_def d1_def p_def)
  have d1: "dl_mode d1 = dl_mode d" "dl_handling d1 = h'" "dl_ops d1 = dl_ops d" "current d1"
    using assms(1) by (simp_all add: d1_def dropDatagram_def current_def)
  show ?thesis
  proof (cases b)
    case False
    let ?r = "rejected_envelope p e (dl_handling d)"
    from False enq(3) have nq: "\<not> coalesces p e (dl_handling d)" "not_queued p (dl_handling d) ?r h'"
      by simp_all
    then have "0 \<le> app_used (dl_handling d)"
      using ok by (auto simp: handling_ok_def app_ok_def app_used_def budget_inv_def split: option.splits)
    with nq release_handler_defined [of h' ?r] obtain h2 where
      rel: "release_handler ?r h' = Some h2" "app_ok h2" "app_used h2 = app_used (dl_handling d)" "hg_conns h2 = hg_conns h'"
      by (auto simp: not_queued_def)
    have "deliverEvent event d = Some (dropDatagram ''pressure'' False (d1\<lparr>dl_handling := h2\<rparr>))"
      using disp False d1 rel(1) assms(3) by (simp add: deliverEvent_def e_def [symmetric] release_undelivered_def dropDatagram_def)
    moreover have "handling_ok p h2"
      using ok nq(2) rel by (simp add: handling_ok_def not_queued_def)
    ultimately show ?thesis
      using nq rel assms(3)
      by (intro exI [of _ "dropDatagram ''pressure'' False (d1\<lparr>dl_handling := h2\<rparr>)"] exI)
        (simp add: d1_def dropDatagram_def delivery_ok_def queued_def in_use_def p_def [symmetric] not_queued_def)
  next
    case True
    have res: "deliverEvent event d = Some d1"
      using disp True by (simp add: deliverEvent_def e_def)
    show ?thesis
    proof (cases "coalesces p e (dl_handling d)")
      case coal: True
      with True enq(3) have "queued_instead p (dl_handling d) i h'" by simp
      then obtain pre old post where
        inst: "handling_ok p h'" "in_Delivery i = UnreliableSequenced" "items_of (hg_conns (dl_handling d) p) = pre @ old # post"
          "in_Delivery (it_Value old) = UnreliableSequenced" "in_Channel (it_Value old) = in_Channel i"
          "items_of (hg_conns h' p) = pre @ handler_item i # post"
        by (auto simp: queued_instead_def)
      have same: "in_Delivery i = in_Delivery e" "in_Channel i = in_Channel e"
        using enq(2) by (metis Incoming.select_convs(5,6) Incoming.surjective Incoming.update_convs(10))+
      have "delivery_ok d1" "queued d = map it_Value pre @ it_Value old # map it_Value post" "queued d1 = map it_Value pre @ i # map it_Value post"
        using assms(3) d1 inst by (simp_all add: delivery_ok_def queued_def p_def [symmetric])
      moreover have "ev_Kind event = SequencedKind" "in_Channel (it_Value old) = ucast (ev_Channel event)"
        using inst same event_envelope_new(3,4) [of d event] by (simp_all add: e_def)
      moreover have "dl_localDrops d1 = dl_localDrops d + 1" "dl_coalescedDrops d1 = dl_coalescedDrops d + 1"
        using coal by (simp_all add: d1_def dropDatagram_def)
      ultimately show ?thesis
        using res enq(2) inst(4) assms(3) by (intro exI [of _ d1] exI [of _ i] conjI disjI2 disjI1) (auto simp: e_def)
    next
      case False
      with True enq(3) have "queued_last p (dl_handling d) i h'" by simp
      with res enq(2) assms(3) False show ?thesis
        by (intro exI [of _ d1] exI [of _ i])
          (simp add: queued_last_def d1_def delivery_ok_def queued_def p_def [symmetric] e_def)
    qed
  qed
qed

definition lifecycle_envelope :: "'a delivery \<Rightarrow> LifecycleKind \<Rightarrow> Code \<Rightarrow> bool \<Rightarrow> Incoming" where
  "lifecycle_envelope d kind reason has_after =
     (incoming_of d LifecycleMessage)\<lparr>in_Lifecycle := Some \<lparr>lc_Kind = kind, lc_Epoch = co_epoch (dl_ops d), lc_Reason = reason\<rparr>, in_after := has_after\<rparr>"

text \<open>In handler mode a lifecycle message is queued with its \<open>after\<close> function, or the function runs at once and nothing is queued.\<close>

lemma lifecycle_after_once:
  assumes "delivery_ok d" "dl_mode d \<noteq> Polling" "has_token d"
  shows "\<exists>now d' i. deliverLifecycleAfter kind reason has_after d = Some (now, d') \<and> delivery_ok d'
    \<and> (\<not> now \<and> queued d' = queued d @ [i] \<and> i\<lparr>in_release := []\<rparr> = lifecycle_envelope d kind reason has_after
       \<or> now = has_after \<and> queued d' = queued d \<and> in_use d' = in_use d)"
proof -
  define p e where "p = co_ptr (dl_ops d)" and "e = lifecycle_envelope d kind reason has_after"
  have ok: "handling_ok p (dl_handling d)"
    and token: "cn_scheduled (hg_conns (dl_handling d) p) \<or> items_of (hg_conns (dl_handling d) p) = []"
    using assms by (simp_all add: delivery_ok_def has_token_def queued_def p_def)
  have new: "in_release e = []" "\<not> in_released e" "in_Delivery e \<noteq> UnreliableSequenced"
    by (simp_all add: e_def lifecycle_envelope_def incoming_of_def)
  let ?r = "rejected_envelope p e (dl_handling d)"
  from enqueueHandler_outcome [OF ok new(1,2) token] obtain b h' i where
    enq: "enqueueHandler p e (dl_handling d) = Some (b, h')" "i\<lparr>in_release := []\<rparr> = e"
      "if \<not> b then \<not> coalesces p e (dl_handling d) \<and> not_queued p (dl_handling d) ?r h'
       else if coalesces p e (dl_handling d) then queued_instead p (dl_handling d) i h' else queued_last p (dl_handling d) i h'"
    by blast
  have "in_Delivery i = in_Delivery e"
    using enq(2) by (metis Incoming.select_convs(6) Incoming.surjective Incoming.update_convs(10))
  with new(3) enq(3) have res: "\<not> coalesces p e (dl_handling d)" "b \<Longrightarrow> queued_last p (dl_handling d) i h'"
      "\<not> b \<Longrightarrow> not_queued p (dl_handling d) ?r h'"
    by (auto simp: queued_instead_def split: if_splits)
  have disp: "dispatch_handlers e d = Some (b, ?r, d\<lparr>dl_handling := h'\<rparr>)"
    using enq(1) res(1) by (simp add: dispatch_handlers_def p_def [symmetric])
  have eq: "deliverLifecycleAfter kind reason has_after d =
      (if b then Some (False, d\<lparr>dl_handling := h'\<rparr>) else map_option (Pair has_after) (release_undelivered ?r (d\<lparr>dl_handling := h'\<rparr>)))"
    using assms(2) disp by (simp add: deliverLifecycleAfter_def lifecycle_envelope_def [symmetric] e_def)
  show ?thesis
  proof (cases b)
    case True
    with eq res(2) enq(2) assms(2) show ?thesis
      by (intro exI [of _ False] exI [of _ "d\<lparr>dl_handling := h'\<rparr>"] exI [of _ i])
        (simp add: queued_last_def delivery_ok_def queued_def p_def [symmetric] e_def)
  next
    case False
    have "0 \<le> app_used (dl_handling d)"
      using ok by (auto simp: handling_ok_def app_ok_def app_used_def budget_inv_def split: option.splits)
    with False res(3) release_handler_defined [of h' ?r] obtain h2 where
      rel: "release_handler ?r h' = Some h2" "app_ok h2" "app_used h2 = app_used (dl_handling d)" "hg_conns h2 = hg_conns h'"
      by (auto simp: not_queued_def)
    with False eq res(3) ok assms(2) show ?thesis
      by (intro exI [of _ has_after] exI [of _ "d\<lparr>dl_handling := h2\<rparr>"] exI)
        (simp add: release_undelivered_def not_queued_def handling_ok_def delivery_ok_def queued_def in_use_def p_def [symmetric])
  qed
qed

section \<open>Properties\<close>

definition sample_delivery :: "nat delivery" where
  "sample_delivery =
     \<lparr>dl_mode = Handlers, dl_session = sample_session, dl_pointer = 0, dl_ops = \<lparr>co_ptr = 0, co_epoch = 1, co_stopped = False\<rparr>,
      dl_incoming = None, dl_handling = fresh_handling 1 1 None 10000 100, dl_localDrops = 0, dl_coalescedDrops = 0, dl_staleDrops = 0\<rparr>"

text \<open>
  C18. No datagram is lost in silence: on the current connection of an active session, with the accounts of the queue in order and a token for
  queued work, \<open>deliverEvent\<close> returns and keeps the accounts in order, and it does one of three things. The envelope it queues last has
  every field of the event, and no counter moves. Or, for a sequenced event with handlers, the envelope takes the place of a queued
  sequenced envelope of the same channel, and the drop counter and the counter of coalesced drops go up by one. Or the queue and the
  budget it draws on are as before, and the drop counter goes up by one.
\<close>

theorem event_outcomes:
  assumes "current d" "delivery_ok d" "has_token d"
  shows "\<exists>d' i. deliverEvent event d = Some d' \<and> delivery_ok d'
    \<and> (queued d' = queued d @ [i] \<and> i\<lparr>in_release := []\<rparr> = event_envelope d event
         \<and> dl_localDrops d' = dl_localDrops d \<and> dl_coalescedDrops d' = dl_coalescedDrops d
       \<or> dl_mode d \<noteq> Polling \<and> ev_Kind event = SequencedKind
         \<and> (\<exists>pre old post. queued d = pre @ old # post \<and> queued d' = pre @ i # post \<and> i\<lparr>in_release := []\<rparr> = event_envelope d event
              \<and> in_Delivery old = UnreliableSequenced \<and> in_Channel old = ucast (ev_Channel event))
         \<and> dl_localDrops d' = dl_localDrops d + 1 \<and> dl_coalescedDrops d' = dl_coalescedDrops d + 1
       \<or> queued d' = queued d \<and> in_use d' = in_use d
         \<and> dl_localDrops d' = dl_localDrops d + 1 \<and> dl_coalescedDrops d' = dl_coalescedDrops d)"
proof (cases "dl_mode d = Polling")
  case True
  from polling_event [OF assms(1,2) True, of event] show ?thesis by (elim exE) (intro exI, blast)
next
  case False
  show ?thesis by (rule handlers_event [OF assms(1,2) False assms(3)])
qed

theorem event_outcomes_witness:
  "\<exists>d' i. deliverEvent \<lparr>ev_Kind = SequencedKind, ev_Channel = 3, ev_MessageType = 7, ev_Sequence = 1, ev_Payload = [1, 2]\<rparr> sample_delivery = Some d'
     \<and> delivery_ok d' \<and> queued sample_delivery = []
     \<and> (queued d' = [i] \<and> in_Payload i = [1, 2] \<and> dl_localDrops d' = 0 \<or> queued d' = [] \<and> dl_localDrops d' = 1)"
proof -
  have pre: "current sample_delivery" "delivery_ok sample_delivery" "has_token sample_delivery" "queued sample_delivery = []"
      "dl_localDrops sample_delivery = 0"
    using sample_session_eq(2-)
    by (simp_all add: sample_delivery_def current_def isCurrent_def delivery_ok_def has_token_def queued_def handling_ok_def fresh_handling_def
        fresh_conn_def handler_queue_def NewQueue_def app_ok_def app_used_def items_of_def)
  let ?e = "\<lparr>ev_Kind = SequencedKind, ev_Channel = 3, ev_MessageType = 7, ev_Sequence = 1, ev_Payload = [1, 2]\<rparr>"
  have "in_Payload (event_envelope sample_delivery ?e) = [1, 2]"
    by (simp add: event_envelope_def incoming_of_def Let_def)
  then have payload: "i\<lparr>in_release := []\<rparr> = event_envelope sample_delivery ?e \<Longrightarrow> in_Payload i = [1, 2]" for i
    by (metis Incoming.select_convs(8) Incoming.surjective Incoming.update_convs(10))
  from event_outcomes [OF pre(1-3), of ?e] show ?thesis
    using pre(4,5) payload by auto
qed

end
