(* ===== verification/Typed.thy ===== *)
theory Typed
  imports Custom_Streams Scheduler Control_Messages
begin

text \<open>
  \<open>typed.go\<close>: messages and requests with codecs, over \<open>Send\<close>, \<open>Call\<close> and the router. A registered handler is seen as the answers it tries
  to give to a request, in their order, and whether it panics; \<open>answers_with\<close> turns it into the handler that \<open>invoke\<close> runs.
  \<open>None\<close> is a panic: \<open>Emit\<close> and \<open>Call\<close> do not check their codecs.
\<close>

section \<open>Codecs\<close>

record 'a Codec =
  co_Encode :: "'a \<Rightarrow> error + bytes"
  co_Decode :: "bytes \<Rightarrow> error + 'a"

record 'a Message =
  me_ID :: MessageType
  me_Codec :: "'a Codec option"

record ('i, 'o) typedRequest =
  tr_ID :: MessageType
  tr_Input :: "'i Codec option"
  tr_Output :: "'o Codec option"

text \<open>
  \<open>jsonCodec\<close>: the tree \<open>json.Marshal\<close> makes of a value of the type, and the fields \<open>json.Unmarshal\<close> fills from a tree, starting
  from the zero value. A struct of texts, integers and structs is always marshalled.
\<close>

definition JSON :: "('a \<Rightarrow> json) \<Rightarrow> 'a member list \<Rightarrow> 'a \<Rightarrow> 'a Codec" where
  "JSON tree members zero =
     \<lparr>co_Encode = (\<lambda>v. Inr (string_bytes (Marshal (tree v)))),
      co_Decode = (\<lambda>b. case Option.bind (Unmarshal (bytes_string b)) (\<lambda>t. struct_field members (\<lambda>r. r) (\<lambda>x _. x) t zero) of
                         None \<Rightarrow> Inl (OtherError ''json'')
                       | Some v \<Rightarrow> Inr v)\<rparr>"

definition Emit :: "(MessageType \<Rightarrow> bytes \<Rightarrow> SendOptions \<Rightarrow> error option) \<Rightarrow> 'a Message \<Rightarrow> 'a \<Rightarrow> SendOptions \<Rightarrow> error option option" where
  "Emit transmit m v options =
     map_option (\<lambda>codec. case co_Encode codec v of Inl err \<Rightarrow> Some err | Inr b \<Rightarrow> transmit (me_ID m) b options) (me_Codec m)"

definition Call_typed :: "(MessageType \<Rightarrow> bytes \<Rightarrow> error + bytes) \<Rightarrow> ('i, 'o) typedRequest \<Rightarrow> 'i \<Rightarrow> (error + 'o) option" where
  "Call_typed call r input =
     Option.bind (tr_Input r) (\<lambda>ci.
       case bind (co_Encode ci input) (call (tr_ID r)) of
         Inl err \<Rightarrow> Some (Inl err)
       | Inr b \<Rightarrow> map_option (\<lambda>out. co_Decode out b) (tr_Output r))"

section \<open>Handlers\<close>

type_synonym answering = "Incoming \<Rightarrow> (Code \<times> bytes) list \<times> bool"

text \<open>What \<open>OnMessage\<close> registers: the application's handler gets the value, or is not called.\<close>

definition OnMessage :: "answering Router \<Rightarrow> 'a Message \<Rightarrow> ('a \<Rightarrow> answering) option \<Rightarrow> error option \<times> answering Router" where
  "OnMessage router m run =
     (case (me_Codec m, run) of
        (Some codec, Some f) \<Rightarrow>
          OnEvent router (me_ID m) (Some (\<lambda>i. case co_Decode codec (in_Payload i) of Inl _ \<Rightarrow> ([], False) | Inr v \<Rightarrow> f v i))
      | _ \<Rightarrow> (Some ErrInvalidArgument, router))"

text \<open>The answer of the closure that \<open>OnCall\<close> registers; a code other than \<open>Normal\<close> comes with a diagnostic.\<close>

definition call_answer :: "'i Codec \<Rightarrow> 'o Codec \<Rightarrow> ('i \<Rightarrow> error + 'o) \<Rightarrow> bytes \<Rightarrow> Code \<times> bytes" where
  "call_answer ci out run payload =
     (case co_Decode ci payload of
        Inl _ \<Rightarrow> (InvalidArgument, string_bytes ''invalid request payload'')
      | Inr v \<Rightarrow>
          (case run v of
             Inl (Error c message _ _ _) \<Rightarrow>
               if c \<noteq> Normal then (c, string_bytes message) else (Internal, string_bytes ''request failed'')
           | Inl _ \<Rightarrow> (Internal, string_bytes ''request failed'')
           | Inr result \<Rightarrow>
               (case co_Encode out result of
                  Inl _ \<Rightarrow> (Internal, string_bytes ''response encoding failed'')
                | Inr b \<Rightarrow> (Normal, b))))"

definition OnCall :: "answering Router \<Rightarrow> ('i, 'o) typedRequest \<Rightarrow> ('i \<Rightarrow> error + 'o) option \<Rightarrow> error option \<times> answering Router" where
  "OnCall router r run =
     (case (tr_Input r, tr_Output r, run) of
        (Some ci, Some out, Some f) \<Rightarrow> OnRequest router (tr_ID r) (Some (\<lambda>i. ([call_answer ci out f (in_Payload i)], False)))
      | _ \<Rightarrow> (Some ErrInvalidArgument, router))"

section \<open>From a request to its response\<close>

text \<open>The closure \<open>respond\<close> of a request on a current connection whose stream takes everything: the answer must fit its frame.\<close>

definition answer_error :: "int \<Rightarrow> Code \<Rightarrow> bytes \<Rightarrow> error option" where
  "answer_error limit status payload =
     (case EncodeResponse \<lparr>rs_Status = ucast status, rs_Payload = payload\<rparr> limit of Inl e \<Rightarrow> Some (mapWireError (WireError e)) | Inr _ \<Rightarrow> None)"

definition give_answer :: "int \<Rightarrow> Code \<times> bytes \<Rightarrow> Incoming \<Rightarrow> Incoming" where
  "give_answer limit a i =
     (if fst a = Normal then snd (Reply (Some (answer_error limit Normal)) i (snd a))
      else snd (Fail (Some (\<lambda>why message. answer_error limit why (string_bytes message))) i (fst a) (bytes_string (snd a))))"

definition answers_with :: "int \<Rightarrow> answering \<Rightarrow> Incoming \<Rightarrow> Incoming \<times> bool" where
  "answers_with limit h i = (fold (give_answer limit) (fst (h i)) i, snd (h i))"

definition serving :: "int \<Rightarrow> answering Router \<Rightarrow> (Incoming \<Rightarrow> Incoming \<times> bool) Router" where
  "serving limit router =
     \<lparr>rt_routes = (\<lambda>k. map_option (answers_with limit) (rt_routes router k)), rt_unknown = map_option (answers_with limit) (rt_unknown router),
      rt_lifecycle = map_option (answers_with limit) (rt_lifecycle router)\<rparr>"

text \<open>The frame on the stream: of the first answer that is taken, the last one tried being the one of \<open>invoke\<close>.\<close>

definition fallback :: "Code \<times> bytes" where
  "fallback = (Internal, string_bytes ''handler returned without a response'')"

definition attempts :: "answering Router \<Rightarrow> Incoming \<Rightarrow> (Code \<times> bytes) list" where
  "attempts router i =
     (case handler (Some router) (Some i) of
        None \<Rightarrow> [(UnsupportedMessage, string_bytes ''unsupported message'')]
      | Some h \<Rightarrow> if snd (h i) then fst (h i) else fst (h i) @ [fallback])"

definition response_frame :: "int \<Rightarrow> (Code \<times> bytes) list \<Rightarrow> bytes option" where
  "response_frame limit as =
     map_option (\<lambda>a. projr (EncodeResponse \<lparr>rs_Status = ucast (fst a), rs_Payload = snd a\<rparr> limit))
       (find (\<lambda>a. answer_error limit (fst a) (snd a) = None) as)"

definition request_envelope :: "MessageType \<Rightarrow> bytes \<Rightarrow> Incoming" where
  "request_envelope mt payload =
     \<lparr>in_Kind = RequestMessage, in_Session = 0, in_Epoch = 0, in_Type = mt, in_Channel = 0, in_Delivery = ReliableOrdered, in_Sequence = 0,
      in_Payload = payload, in_Lifecycle = None, in_release = [], in_after = False, in_released = False, in_responded = False\<rparr>"

text \<open>What a caller makes of the server's response; without one the outcome is unknown.\<close>

definition answered_call :: "int \<Rightarrow> Limits \<Rightarrow> answering Router \<Rightarrow> MessageType \<Rightarrow> bytes \<Rightarrow> error + bytes" where
  "answered_call limit limits router mt payload =
     (case response_frame limit (attempts router (request_envelope mt payload)) of
        None \<Rightarrow> Inl (unknownRequestOutcome None)
      | Some frame \<Rightarrow>
          (case read_response True limits (Reader frame EOF) of
             Inl (err, whole) \<Rightarrow> if whole then Inl (mapWireError err) else Inl (unknownRequestOutcome (Some err))
           | Inr response \<Rightarrow>
               if rs_Status response \<noteq> 0 then Inl (Error (ucast (rs_Status response)) (message_text (rs_Payload response)) False 0 None)
               else Inr (rs_Payload response)))"

text \<open>
  The server's end of a request stream that carries \<open>bs\<close>: what its caller can read. \<open>limit\<close> is the server's bound for an answer. A request that is not read
  costs the session, and its caller's context ends.
\<close>

definition served :: "channels \<Rightarrow> pressure \<Rightarrow> int \<Rightarrow> answering Router \<Rightarrow> bytes \<Rightarrow> error + reader" where
  "served server p limit router bs =
     (case fst (readApplicationStream 0 True server (Reader bs EOF)) of
        RequestStream r _ \<Rightarrow>
          (case readRequestStream p (ch_limits server) r of
             Inl _ \<Rightarrow> Inl (CtxError Canceled_ctx)
           | Inr rq \<Rightarrow>
               (case response_frame limit (attempts router (request_envelope (ucast (rq_MessageType rq)) (rq_Payload rq))) of
                  None \<Rightarrow> Inl (CtxError Canceled_ctx)
                | Some frame \<Rightarrow> Inr (Reader frame EOF)))
      | RequestRefused status _ \<Rightarrow>
          (case EncodeResponse \<lparr>rs_Status = ucast status, rs_Payload = string_bytes ''request capacity reached''\<rparr> (MessageBytes (ch_limits server)) of
             Inl _ \<Rightarrow> Inr (Reader [] EOF)
           | Inr frame \<Rightarrow> Inr (Reader frame EOF))
      | _ \<Rightarrow> Inl (CtxError Canceled_ctx))"

text \<open>
  \<open>Call\<close> of a session over a network that carries its stream to \<open>served\<close> and back: the checks of \<open>Session.Call\<close>, then \<open>call\<close> of the connection.
\<close>

definition routed_call :: "'a sessionRecord \<Rightarrow> duration option \<Rightarrow> channels \<Rightarrow> pressure \<Rightarrow> int \<Rightarrow> answering Router \<Rightarrow> MessageType \<Rightarrow> bytes \<Rightarrow> error + bytes" where
  "routed_call s remaining server p limit router =
     Call (\<lambda>mt payload.
         call_exchange
           \<lparr>ce_current = True, ce_remaining = remaining, ce_open = None, ce_write = (0, None), ce_closeWrite = None,
            ce_response =
              (case bind (call_timeout (sr_limits s) remaining) (\<lambda>ms.
                  map_sum WireError (\<lambda>bs. bs) (EncodeRequest \<lparr>rq_MessageType = ucast mt, rq_TimeoutMS = ms, rq_Payload = payload\<rparr> (outboundMessageLimit s))) of
                 Inl err \<Rightarrow> Inl err
               | Inr bs \<Rightarrow> served server p limit router bs),
            ce_reserved = True\<rparr>
           (outboundMessageLimit s) (sr_limits s) mt payload)
       s"

text \<open>An active session with time left, whose peer has a request slot and accepts the messages the session may send.\<close>

definition connected :: "'a sessionRecord \<Rightarrow> duration option \<Rightarrow> channels \<Rightarrow> pressure \<Rightarrow> int \<Rightarrow> bool" where
  "connected s remaining server p limit \<longleftrightarrow>
     sr_state s = Active \<and> sr_operations s \<noteq> None
     \<and> (case call_timeout (sr_limits s) remaining of Inl _ \<Rightarrow> False | Inr ms \<Rightarrow> ms \<le> 300000)
     \<and> fst (acquireRequest server True) \<and> pr_reserved p 0
     \<and> outboundMessageLimit s \<le> MessageBytes (ch_limits server) \<and> MessageBytes (ch_limits server) < 2 ^ 62
     \<and> 64 \<le> limit \<and> limit \<le> MessageBytes (sr_limits s) \<and> MessageBytes (sr_limits s) < 2 ^ 62"

section \<open>Answers\<close>

lemma string_bytes_bytes_string [simp]: "string_bytes (bytes_string b) = b"
proof -
  have "word_of_nat (of_char (char_of (unat x) :: char)) = (x :: byte)" for x
  proof -
    have "unat x < 256"
      using unsigned_less [of x] by simp
    then have "of_char (char_of (unat x) :: char) = unat x"
      by simp
    then show ?thesis
      by simp
  qed
  then show ?thesis
    by (simp add: string_bytes_def bytes_string_def map_idI)
qed

lemma answer_taken: "answer_error limit c p = None \<longleftrightarrow> (\<exists>frame. EncodeResponse \<lparr>rs_Status = ucast c, rs_Payload = p\<rparr> limit = Inr frame)"
  by (simp add: answer_error_def split: sum.split)

lemma diagnostic_taken:
  assumes "length text \<le> 256" "int (length text) \<le> limit" "utf8_valid (string_bytes text)"
  shows "answer_error limit c (string_bytes text) = None"
proof -
  have "(of_nat (length text) :: u64) \<le> MaxVarint" "(ucast c :: u64) \<le> MaxVarint"
    using assms(1) by (auto intro!: small_le_MaxVarint simp: unat_of_nat_u64 code_le_MaxVarint)
  with assms show ?thesis
    by (auto simp: answer_taken EncodeResponse_Inr_iff maxDiagnosticBytes_def)
qed

text \<open>\<open>invoke\<close> leaves a request answered exactly when one of the attempts was taken.\<close>

lemma give_answer_simps:
  assumes "in_Kind i = RequestMessage"
  shows "in_Kind (give_answer limit a i) = RequestMessage"
    "in_responded (give_answer limit a i) \<longleftrightarrow> in_responded i \<or> answer_error limit (fst a) (snd a) = None"
  using assms by (auto simp: give_answer_def Reply_def Fail_def respond_def split: option.split)

lemma fold_give_answer:
  assumes "in_Kind i = RequestMessage"
  shows "in_Kind (fold (give_answer limit) as i) = RequestMessage
    \<and> (in_responded (fold (give_answer limit) as i) \<longleftrightarrow> in_responded i \<or> (\<exists>a \<in> set as. answer_error limit (fst a) (snd a) = None))"
  using assms by (induction as arbitrary: i) (auto simp: give_answer_simps)

lemma invoke_answers:
  fixes limit router
  defines "fail \<equiv> Some (\<lambda>why message. answer_error limit why (string_bytes message))"
  shows "in_responded (iv_incoming (invoke True (Some (serving limit router)) fail (request_envelope mt payload)))
    \<longleftrightarrow> response_frame limit (attempts router (request_envelope mt payload)) \<noteq> None"
proof -
  define i where "i = request_envelope mt payload"
  have i: "in_Kind i = RequestMessage" "\<not> in_responded i" "in_Type i = mt"
    by (simp_all add: i_def request_envelope_def)
  have found: "(\<exists>frame. response_frame limit as = Some frame) \<longleftrightarrow> (\<exists>a \<in> set as. answer_error limit (fst a) (snd a) = None)" for as
    by (induction as) (auto simp: response_frame_def)
  have released: "in_responded (snd (Release_in x)) = in_responded x" for x
    by (simp add: Release_in_def)
  have handler_eq: "handler (Some (serving limit router)) (Some i) = map_option (answers_with limit) (handler (Some router) (Some i))"
    using i by (simp add: handler_def serving_def split: option.split)
  have fails: "in_responded (snd (Fail fail x why message)) \<longleftrightarrow> in_responded x \<or> answer_error limit why (string_bytes message) = None"
    if "in_Kind x = RequestMessage" "why \<noteq> Normal" for x why message
    using that by (auto simp: Fail_def fail_def respond_def split: option.split)
  show ?thesis
  proof (cases "handler (Some router) (Some i)")
    case None
    then show ?thesis
      using i handler_eq fails [of i UnsupportedMessage] unfolding i_def [symmetric]
      by (simp add: invoke_def Let_def split_beta released found attempts_def)
  next
    case (Some h)
    note folded = fold_give_answer [OF i(1), of limit "fst (h i)"]
    define x where "x = fold (give_answer limit) (fst (h i)) i"
    have x: "answers_with limit h i = (x, snd (h i))"
      by (simp add: answers_with_def x_def)
    show ?thesis
      using Some i handler_eq folded fails [of x Internal "''handler returned without a response''"] unfolding i_def [symmetric]
      by (auto simp: invoke_def Let_def split_beta released found attempts_def x x_def [symmetric] hasResponded_def fallback_def)
  qed
qed

lemma answered_call_answer:
  assumes "find (\<lambda>a. answer_error limit (fst a) (snd a) = None) (attempts router (request_envelope mt payload)) = Some (c, p)"
    and "limit \<le> MessageBytes limits" "MessageBytes limits < 2 ^ 63"
  shows "answered_call limit limits router mt payload = (if c = Normal then Inr p else Inl (Error c (message_text p) False 0 None))"
proof -
  from assms(1) have "answer_error limit c p = None"
    unfolding find_Some_iff by (metis fst_conv snd_conv)
  then obtain frame where frame: "EncodeResponse \<lparr>rs_Status = ucast c, rs_Payload = p\<rparr> limit = Inr frame"
    by (auto simp: answer_taken)
  have "response_frame limit (attempts router (request_envelope mt payload)) = Some frame"
    using assms(1) frame by (simp add: response_frame_def)
  with read_response_encoded [OF frame assms(2,3)] show ?thesis
    by (simp add: answered_call_def code_ucast code_ucast_zero)
qed

lemma call_timeout_positive: "call_timeout limits remaining = Inr ms \<Longrightarrow> ms \<noteq> 0"
  by (auto simp: call_timeout_def Let_def split: if_splits option.splits)

lemma routed_call_eq:
  assumes "connected s remaining server p limit"
  shows "routed_call s remaining server p limit router mt payload =
    (if mt = 0 \<or> int (length payload) > outboundMessageLimit s then Inl ErrInvalidArgument else answered_call limit (sr_limits s) router mt payload)"
proof (cases "mt = 0 \<or> int (length payload) > outboundMessageLimit s")
  case True
  then show ?thesis
    by (simp add: routed_call_def Call_def)
next
  case False
  obtain ms where ms: "call_timeout (sr_limits s) remaining = Inr ms" "ms \<noteq> 0" "ms \<le> 300000"
    using assms call_timeout_positive by (auto simp: connected_def split: sum.splits)
  let ?rq = "\<lparr>rq_MessageType = ucast mt, rq_TimeoutMS = ms, rq_Payload = payload\<rparr>"
  have "(of_nat (length payload) :: u64) \<le> MaxVarint"
    using False assms by (intro small_le_MaxVarint) (simp add: unat_of_nat_u64 connected_def)
  then obtain bs where bs: "EncodeRequest ?rq (outboundMessageLimit s) = Inr bs"
    using False ms type_le_max [of mt] by (simp add: EncodeRequest_Inr_iff code_ucast_zero)
  obtain server' where slot: "acquireRequest server True = (True, server')"
    using assms by (cases "acquireRequest server True") (simp add: connected_def)
  have "served server p limit router bs =
      (case response_frame limit (attempts router (request_envelope mt payload)) of None \<Rightarrow> Inl (CtxError Canceled_ctx) | Some frame \<Rightarrow> Inr (Reader frame EOF))"
  proof -
    have "outboundMessageLimit s \<le> MessageBytes (ch_limits server)" "MessageBytes (ch_limits server) < 2 ^ 63" "pr_reserved p 0"
      using assms by (simp_all add: connected_def)
    then obtain r where "readApplicationStream 0 True server (Reader bs EOF) = (RequestStream r (Some (0 + AuthTimeout (ch_limits server))), server')"
        "readRequestStream p (ch_limits server) r = Inr ?rq"
      using request_read [OF bs _ _ slot, of p 0] by blast
    then show ?thesis
      by (simp add: served_def code_ucast)
  qed
  moreover have "state_gate s = None"
    using assms by (auto simp: connected_def state_gate_def)
  ultimately show ?thesis
    using False ms(1) bs
    by (simp add: routed_call_def Call_def call_exchange_def answered_call_def unknownRequestOutcome_def message_text_def
        split: option.split sum.split)
qed

lemma message_text_string_bytes [simp]: "message_text (string_bytes s) = s"
  using bytes_string_string_bytes [of s] by (simp add: message_text_def bytes_string_def comp_def)

lemma fallback_taken: "64 \<le> limit \<Longrightarrow> answer_error limit (fst fallback) (snd fallback) = None"
  unfolding fallback_def fst_conv snd_conv
  by (rule diagnostic_taken) (simp_all only: utf8_string_def [symmetric], simp_all add: utf8_string_ascii)

text \<open>What the caller of a registered handler gets: the first answer that is taken, and the one of \<open>invoke\<close> when none is.\<close>

definition outcome :: "int \<Rightarrow> (Code \<times> bytes) list \<Rightarrow> error + bytes" where
  "outcome limit answers =
     (case find (\<lambda>a. answer_error limit (fst a) (snd a) = None) (answers @ [fallback]) of
        Some (c, p) \<Rightarrow> if c = Normal then Inr p else Inl (Error c (message_text p) False 0 None)
      | None \<Rightarrow> Inl (unknownRequestOutcome None))"

lemma handled_call:
  assumes "rt_routes router (RequestMessage, mt) = Some h" "h (request_envelope mt payload) = (answers, False)"
    and "limit \<le> MessageBytes limits" "MessageBytes limits < 2 ^ 63"
  shows "answered_call limit limits router mt payload = outcome limit answers"
proof -
  have "attempts router (request_envelope mt payload) = answers @ [fallback]"
    using assms(1,2) by (simp add: attempts_def handler_def request_envelope_def)
  then show ?thesis
    using answered_call_answer [OF _ assms(3,4), of router mt payload]
    by (auto simp: outcome_def response_frame_def answered_call_def split: option.splits)
qed

lemma message_of_fallback: "fst fallback = Internal" "message_text (snd fallback) = ''handler returned without a response''"
  unfolding fallback_def fst_conv snd_conv message_text_string_bytes by (rule refl)+

lemma reply_taken:
  assumes "limit < 2 ^ 62"
  shows "answer_error limit Normal p = None \<longleftrightarrow> int (length p) \<le> limit"
proof -
  have "(of_nat (length p) :: u64) \<le> MaxVarint" if "int (length p) \<le> limit"
    using that assms by (intro small_le_MaxVarint) (simp add: unat_of_nat_u64)
  then show ?thesis
    by (auto simp: answer_taken EncodeResponse_Inr_iff)
qed

lemma refusal_taken:
  assumes "c \<noteq> Normal"
  shows "answer_error limit c (string_bytes message) = None \<longleftrightarrow> length message \<le> 256 \<and> int (length message) \<le> limit \<and> utf8_string message"
  using assms diagnostic_taken [of message limit c]
  by (auto simp: answer_taken EncodeResponse_Inr_iff maxDiagnosticBytes_def code_ucast_zero utf8_string_def)

definition refused :: "Code \<Rightarrow> string \<Rightarrow> error" where
  "refused c message = Error c message False 0 None"

definition unanswered :: error where
  "unanswered = refused Internal ''handler returned without a response''"

lemma outcome_simps:
  assumes "64 \<le> limit"
  shows "outcome limit [] = Inl unanswered"
    "limit < 2 ^ 62 \<Longrightarrow> outcome limit [(Normal, p)] = (if int (length p) \<le> limit then Inr p else Inl unanswered)"
    "c \<noteq> Normal \<Longrightarrow> outcome limit [(c, string_bytes message)] =
       Inl (if length message \<le> 256 \<and> int (length message) \<le> limit \<and> utf8_string message then refused c message else unanswered)"
proof -
  have last: "(case Some fallback of Some (c, p) \<Rightarrow> if c = Normal then Inr p else Inl (Error c (message_text p) False 0 None)
      | None \<Rightarrow> Inl (unknownRequestOutcome None)) = Inl unanswered"
    using message_of_fallback by (simp add: split_beta unanswered_def refused_def)
  then show none: "outcome limit [] = Inl unanswered"
    using fallback_taken [OF assms] by (simp add: outcome_def)
  show "outcome limit [(Normal, p)] = (if int (length p) \<le> limit then Inr p else Inl unanswered)" if "limit < 2 ^ 62"
    using none reply_taken [OF that, of p] by (simp add: outcome_def)
  show "outcome limit [(c, string_bytes message)] =
      Inl (if length message \<le> 256 \<and> int (length message) \<le> limit \<and> utf8_string message then refused c message else unanswered)" if "c \<noteq> Normal"
    using none refusal_taken [OF that, of limit message] that by (simp add: outcome_def refused_def)
qed

section \<open>The contract of a codec\<close>

text \<open>A codec under which the values of a set survive the wire.\<close>

locale codec_roundtrip =
  fixes codec :: "'a Codec" and domain :: "'a \<Rightarrow> bool"
  assumes encodes: "domain v \<Longrightarrow> \<exists>b. co_Encode codec v = Inr b"
    and decodes: "domain v \<Longrightarrow> co_Encode codec v = Inr b \<Longrightarrow> co_Decode codec b = Inr v"
begin

lemma carried: "domain v \<Longrightarrow> \<exists>b. co_Encode codec v = Inr b \<and> co_Decode codec b = Inr v"
  using encodes decodes by blast

text \<open>An event of the codec reaches the application's handler as the value that was emitted.\<close>

lemma message_delivered:
  assumes "domain v" "OnMessage router \<lparr>me_ID = mt, me_Codec = Some codec\<rparr> (Some run) = (None, router')"
  obtains b where "\<And>transmit options. Emit transmit \<lparr>me_ID = mt, me_Codec = Some codec\<rparr> v options = Some (transmit mt b options)"
    "\<And>i. in_Kind i = EventMessage \<Longrightarrow> in_Type i = mt \<Longrightarrow> in_Payload i = b
      \<Longrightarrow> \<exists>h. handler (Some router') (Some i) = Some h \<and> h i = run v i"
proof -
  obtain b where b: "co_Encode codec v = Inr b" "co_Decode codec b = Inr v"
    using carried [OF assms(1)] by blast
  have "\<exists>h. rt_routes router' (EventMessage, mt) = Some h \<and> (\<forall>i. in_Payload i = b \<longrightarrow> h i = run v i)"
    using assms(2) b by (auto simp: OnMessage_def OnEvent_def register_def split: if_splits option.splits)
  then show thesis
    using b by (intro that [of b]) (auto simp: Emit_def handler_def)
qed

end

text \<open>The codec of a record that is filled from the tree it makes.\<close>

locale json_record =
  fixes tree :: "'a \<Rightarrow> json" and members :: "'a member list" and zero :: 'a and domain :: "'a \<Rightarrow> bool"
  assumes texts: "domain v \<Longrightarrow> json_ok (tree v)"
    and filled: "domain v \<Longrightarrow> struct_field members (\<lambda>r. r) (\<lambda>x _. x) (tree v) zero = Some v"

sublocale json_record \<subseteq> json: codec_roundtrip "JSON tree members zero" domain
  by unfold_locales (auto simp: JSON_def Unmarshal_Marshal texts filled)

end
