(* ===== verification/Jwt.thy ===== *)
theory Jwt
  imports Messages
begin

text \<open>
  \<open>auth/jwt/jwt.go\<close>: identity tokens and admission tickets as signed JWTs. The JWT library is not part of the
  repository: its parser, its signer and its truncation of dates are the fields of \<open>jwt_library\<close>, and \<open>library_ok\<close> is
  what its documentation promises. Keys are byte sequences, \<open>public\<close> gives the public key of a private key.
\<close>

section \<open>The library\<close>

record registeredClaims =
  rc_Issuer :: string
  rc_Subject :: string
  rc_Audience :: "string list"
  rc_ExpiresAt :: "time option"
  rc_NotBefore :: "time option"
  rc_IssuedAt :: "time option"
  rc_ID :: string

record tokenHeader =
  th_alg :: string
  th_typ :: "string option"
  th_kid :: "string option"

text \<open>The options the package sets.\<close>

record parserOptions =
  po_ValidMethods :: "string list"
  po_Issuer :: string
  po_Audience :: string
  po_IssuedAt :: bool
  po_ExpirationRequired :: bool
  po_Leeway :: duration
  po_Now :: time
  po_Strict :: bool

record 'c jwt_library =
  ParseWithClaims :: "parserOptions \<Rightarrow> (tokenHeader \<Rightarrow> error + bytes) \<Rightarrow> string \<Rightarrow> error + 'c"
  SignedString :: "bytes \<Rightarrow> tokenHeader \<Rightarrow> 'c \<Rightarrow> error + string"
  NewNumericDate :: "time \<Rightarrow> time"
  public :: "bytes \<Rightarrow> bytes"

text \<open>The claim checks the library's documentation lists for these options.\<close>

definition library_valid :: "parserOptions \<Rightarrow> registeredClaims \<Rightarrow> bool" where
  "library_valid opts c \<longleftrightarrow>
     (case rc_ExpiresAt c of None \<Rightarrow> \<not> po_ExpirationRequired opts | Some t \<Rightarrow> po_Now opts < t + po_Leeway opts)
     \<and> (case rc_NotBefore c of None \<Rightarrow> True | Some t \<Rightarrow> t \<le> po_Now opts + po_Leeway opts)
     \<and> (case rc_IssuedAt c of None \<Rightarrow> True | Some t \<Rightarrow> \<not> po_IssuedAt opts \<or> t \<le> po_Now opts + po_Leeway opts)
     \<and> rc_Issuer c = po_Issuer opts \<and> po_Audience opts \<in> set (rc_Audience c)"

text \<open>
  A signed token is accepted under the public key of the private key that signed it, if its algorithm is allowed and
  its claims are valid; parsing a signed token gives no other claims; dates are cut to whole seconds.
\<close>

definition library_ok :: "'c jwt_library \<Rightarrow> ('c \<Rightarrow> registeredClaims) \<Rightarrow> bool" where
  "library_ok lib registered \<longleftrightarrow>
     (\<forall>private header claims token opts keyfunc.
        SignedString lib private header claims = Inr token \<and> keyfunc header = Inr (public lib private)
        \<and> th_alg header \<in> set (po_ValidMethods opts) \<and> library_valid opts (registered claims)
        \<longrightarrow> ParseWithClaims lib opts keyfunc token = Inr claims)
     \<and> (\<forall>private header claims token opts keyfunc claims'.
        SignedString lib private header claims = Inr token \<and> ParseWithClaims lib opts keyfunc token = Inr claims' \<longrightarrow> claims' = claims)
     \<and> (\<forall>t. NewNumericDate lib t = t div Second * Second)"

section \<open>Configuration and keys\<close>

definition identityType :: string where
  "identityType = ''sgsp-access+jwt''"

definition admissionType :: string where
  "admissionType = ''sgsp-admission+jwt''"

abbreviation PublicKeySize :: nat where "PublicKeySize \<equiv> 32"
abbreviation PrivateKeySize :: nat where "PrivateKeySize \<equiv> 64"

abbreviation ErrInvalidConfig :: error where
  "ErrInvalidConfig \<equiv> OtherError ''sgsp jwt: invalid configuration''"

type_synonym keys = "(string \<times> bytes) list"

definition copyKeys :: "keys \<Rightarrow> error + keys" where
  "copyKeys keys =
     (if keys = [] then Inl ErrInvalidConfig
      else if \<exists>(kid, key) \<in> set keys. kid = [] \<or> length key \<noteq> PublicKeySize then Inl ErrInvalidConfig
      else Inr keys)"

text \<open>The configurations of both verifiers, and the verifiers, have the same fields; the clock is an argument of a call.\<close>

record verifierConfig =
  vc_Issuer :: string
  vc_Audience :: string
  vc_Keys :: keys

record verifier =
  ve_issuer :: string
  ve_audience :: string
  ve_keys :: keys

definition NewIdentityVerifier :: "verifierConfig \<Rightarrow> error + verifier" where
  "NewIdentityVerifier config =
     (case copyKeys (vc_Keys config) of
        Inl _ \<Rightarrow> Inl ErrInvalidConfig
      | Inr keys \<Rightarrow> if vc_Issuer config = [] \<or> vc_Audience config = [] then Inl ErrInvalidConfig
                   else Inr \<lparr>ve_issuer = vc_Issuer config, ve_audience = vc_Audience config, ve_keys = keys\<rparr>)"

definition NewAdmissionVerifier :: "verifierConfig \<Rightarrow> error + verifier" where
  "NewAdmissionVerifier config =
     (case copyKeys (vc_Keys config) of
        Inl _ \<Rightarrow> Inl ErrInvalidConfig
      | Inr keys \<Rightarrow> if vc_Issuer config = [] \<or> vc_Audience config = [] then Inl ErrInvalidConfig
                   else Inr \<lparr>ve_issuer = vc_Issuer config, ve_audience = vc_Audience config, ve_keys = keys\<rparr>)"

definition ReplaceKeys :: "verifier \<Rightarrow> keys \<Rightarrow> error option \<times> verifier" where
  "ReplaceKeys v keys =
     (case copyKeys keys of Inl _ \<Rightarrow> (Some ErrInvalidConfig, v) | Inr copied \<Rightarrow> (None, v\<lparr>ve_keys := copied\<rparr>))"

definition keyFor :: "verifier \<Rightarrow> string \<Rightarrow> bytes option" where
  "keyFor v kid = map_of (ve_keys v) kid"

record AdmissionSigner =
  si_issuer :: string
  si_audience :: string
  si_keyID :: string
  si_private :: bytes

definition NewAdmissionSigner :: "AdmissionSigner \<Rightarrow> error + AdmissionSigner" where
  "NewAdmissionSigner config =
     (if si_issuer config = [] \<or> si_audience config = [] \<or> si_keyID config = [] \<or> length (si_private config) \<noteq> PrivateKeySize
      then Inl ErrInvalidConfig else Inr config)"

section \<open>Parsing\<close>

definition parser_options :: "string \<Rightarrow> string \<Rightarrow> time \<Rightarrow> parserOptions" where
  "parser_options issuer audience now =
     \<lparr>po_ValidMethods = [''EdDSA''], po_Issuer = issuer, po_Audience = audience, po_IssuedAt = True, po_ExpirationRequired = True,
      po_Leeway = 5 * Second, po_Now = now, po_Strict = True\<rparr>"

text \<open>The key function: a missing or mistyped header field reads as the empty string.\<close>

definition key_function :: "string \<Rightarrow> (string \<Rightarrow> bytes option) \<Rightarrow> tokenHeader \<Rightarrow> error + bytes" where
  "key_function typ lookup header =
     (if th_alg header \<noteq> ''EdDSA'' then Inl (OtherError ''unexpected signing algorithm'')
      else
        (let actualType = (case th_typ header of None \<Rightarrow> [] | Some t \<Rightarrow> t); kid = (case th_kid header of None \<Rightarrow> [] | Some k \<Rightarrow> k) in
         if actualType \<noteq> typ \<or> kid = [] then Inl (OtherError ''invalid token header'')
         else (case lookup kid of None \<Rightarrow> Inl (OtherError ''unknown signing key'') | Some key \<Rightarrow> Inr key)))"

definition validateRegistered :: "registeredClaims \<Rightarrow> string \<Rightarrow> time \<Rightarrow> bool" where
  "validateRegistered c audience now \<longleftrightarrow>
     rc_Subject c \<noteq> [] \<and>
     (case (rc_ExpiresAt c, rc_IssuedAt c, rc_NotBefore c) of
        (Some expires, Some issued, Some notBefore) \<Rightarrow>
          now < expires \<and> issued < expires \<and> issued \<le> now + 5 * Second \<and> notBefore \<le> now + 5 * Second
      | _ \<Rightarrow> False)
     \<and> rc_Audience c = [audience]"

definition parse_token :: "'c jwt_library \<Rightarrow> ('c \<Rightarrow> registeredClaims) \<Rightarrow> string \<Rightarrow> string \<Rightarrow> string \<Rightarrow> string \<Rightarrow> time \<Rightarrow> (string \<Rightarrow> bytes option) \<Rightarrow> error + 'c" where
  "parse_token lib registered tokenText typ issuer audience now lookup =
     bind (ParseWithClaims lib (parser_options issuer audience now) (key_function typ lookup) tokenText) (\<lambda>claims.
       if validateRegistered (registered claims) audience now then Inr claims else Inl (OtherError ''invalid registered claims''))"

section \<open>Identity tokens\<close>

record identityClaims =
  ic_registered :: registeredClaims
  ic_Attributes :: "(string \<rightharpoonup> string) option"

definition authError :: "error \<Rightarrow> error" where
  "authError err = Error Unauthenticated ''authentication failed'' False 0 (Some err)"

text \<open>The bytes of a credential are the token's text.\<close>

definition Authenticate :: "identityClaims jwt_library \<Rightarrow> verifier \<Rightarrow> time \<Rightarrow> Credential \<Rightarrow> error + Principal" where
  "Authenticate lib v now credential =
     (if cr_Scheme credential \<noteq> ''jwt'' then Inl (authError (OtherError ''unsupported credential scheme''))
      else
        (case parse_token lib ic_registered (map (\<lambda>b. char_of (unat b)) (cr_Data credential)) identityType (ve_issuer v) (ve_audience v) now (keyFor v) of
           Inl err \<Rightarrow> Inl (authError err)
         | Inr claims \<Rightarrow>
             Inr \<lparr>pr_Issuer = rc_Issuer (ic_registered claims), pr_Subject = rc_Subject (ic_registered claims),
                  pr_ExpiresAt = the (rc_ExpiresAt (ic_registered claims)), pr_Attributes = ic_Attributes claims\<rparr>))"

section \<open>Admission tickets\<close>

record admissionClaims =
  ac_registered :: registeredClaims
  ac_PrincipalIssuer :: string
  ac_AppVersion :: string
  ac_Group :: string
  ac_OwnerID :: string
  ac_Incarnation :: string
  ac_Address :: string
  ac_ServerName :: string

definition parseID :: "string \<Rightarrow> Incarnation option" where
  "parseID v =
     (case hex_DecodeString v of
        None \<Rightarrow> None
      | Some decoded \<Rightarrow> if length decoded \<noteq> 16 then None else Some (copy16 decoded))"

text \<open>\<open>fmt.Errorf\<close> with \<open>%w\<close> of \<open>ErrForbidden\<close>, as an error of that code: \<open>errors.Is\<close> and \<open>errors.As\<close> find it.\<close>

definition admissionError :: "error \<Rightarrow> error" where
  "admissionError err = Error Forbidden ''sgsp: forbidden'' False 0 (Some err)"

definition Verify :: "admissionClaims jwt_library \<Rightarrow> verifier \<Rightarrow> time \<Rightarrow> string \<Rightarrow> error + Admission" where
  "Verify lib v now token =
     (case parse_token lib ac_registered token admissionType (ve_issuer v) (ve_audience v) now (keyFor v) of
        Inl err \<Rightarrow> Inl (admissionError err)
      | Inr claims \<Rightarrow>
          if ac_PrincipalIssuer claims = [] \<or> ac_AppVersion claims = [] \<or> ac_OwnerID claims = [] \<or> ac_Incarnation claims = []
            \<or> ac_Address claims = [] \<or> ac_ServerName claims = [] \<or> rc_ID (ac_registered claims) = []
          then Inl (admissionError (OtherError ''missing admission claim''))
          else
            (case parseID (ac_Incarnation claims) of
               None \<Rightarrow> Inl (admissionError (OtherError ''invalid incarnation''))
             | Some incarnation \<Rightarrow>
                 Inr \<lparr>ad_App = \<lparr>ai_ID = hd (rc_Audience (ac_registered claims)), ai_Version = ac_AppVersion claims\<rparr>,
                      ad_PrincipalIssuer = ac_PrincipalIssuer claims, ad_Subject = rc_Subject (ac_registered claims),
                      ad_GroupKey = ac_Group claims,
                      ad_Owner = \<lparr>ow_ID = ac_OwnerID claims, ow_Incarnation = incarnation,
                                  ow_Endpoint = \<lparr>ep_Address = ac_Address claims, ep_ServerName = ac_ServerName claims\<rparr>\<rparr>,
                      ad_ExpiresAt = the (rc_ExpiresAt (ac_registered claims))\<rparr>))"

definition admission_claims :: "(time \<Rightarrow> time) \<Rightarrow> AdmissionSigner \<Rightarrow> time \<Rightarrow> bytes \<Rightarrow> Admission \<Rightarrow> admissionClaims" where
  "admission_claims numericDate s now jti admission =
     \<lparr>ac_registered = \<lparr>rc_Issuer = si_issuer s, rc_Subject = ad_Subject admission, rc_Audience = [si_audience s],
        rc_ExpiresAt = Some (numericDate (ad_ExpiresAt admission)), rc_NotBefore = Some (numericDate now),
        rc_IssuedAt = Some (numericDate now), rc_ID = hex_EncodeToString jti\<rparr>,
      ac_PrincipalIssuer = ad_PrincipalIssuer admission, ac_AppVersion = ai_Version (ad_App admission), ac_Group = ad_GroupKey admission,
      ac_OwnerID = ow_ID (ad_Owner admission), ac_Incarnation = hex_EncodeToString (ow_Incarnation (ad_Owner admission)),
      ac_Address = ep_Address (ow_Endpoint (ad_Owner admission)), ac_ServerName = ep_ServerName (ow_Endpoint (ad_Owner admission))\<rparr>"

text \<open>\<open>jti\<close> is the outcome of the random read.\<close>

definition Sign :: "admissionClaims jwt_library \<Rightarrow> AdmissionSigner \<Rightarrow> time \<Rightarrow> error + bytes \<Rightarrow> Admission \<Rightarrow> error + string" where
  "Sign lib s now jti admission =
     (if ai_ID (ad_App admission) = [] \<or> ai_ID (ad_App admission) \<noteq> si_audience s \<or> ai_Version (ad_App admission) = []
        \<or> ad_PrincipalIssuer admission = [] \<or> ad_Subject admission = [] \<or> ow_ID (ad_Owner admission) = []
        \<or> ep_Address (ow_Endpoint (ad_Owner admission)) = [] \<or> ep_ServerName (ow_Endpoint (ad_Owner admission)) = []
        \<or> ad_ExpiresAt admission > now + 30 * Second \<or> \<not> ad_ExpiresAt admission > now
      then Inl ErrInvalidConfig
      else
        bind jti (\<lambda>jti.
          SignedString lib (si_private s) \<lparr>th_alg = ''EdDSA'', th_typ = Some admissionType, th_kid = Some (si_keyID s)\<rparr>
            (admission_claims (NewNumericDate lib) s now jti admission)))"

section \<open>Lemmas\<close>

text \<open>The whole second a date is cut to.\<close>

abbreviation whole :: "time \<Rightarrow> time" where
  "whole t \<equiv> t div Second * Second"

lemma whole_bounds: "whole t \<le> t" "t - Second < whole t"
  using pos_mod_sign [of Second t] pos_mod_bound [of Second t] mult_div_mod_eq [of Second t] by (simp_all add: mult.commute)

lemma parseID_hex: "length i = 16 \<Longrightarrow> parseID (hex_EncodeToString i) = Some i"
  by (simp add: parseID_def)

lemma hex_nonempty: "hex_EncodeToString bs = [] \<longleftrightarrow> bs = []"
  using length_hex_EncodeToString [of bs] by (cases bs) auto

lemma validate_signed:
  "validateRegistered (ac_registered (admission_claims f s now jti admission)) audience now' \<longleftrightarrow>
     ad_Subject admission \<noteq> [] \<and> now' < f (ad_ExpiresAt admission) \<and> f now < f (ad_ExpiresAt admission)
     \<and> f now \<le> now' + 5 * Second \<and> si_audience s = audience"
  by (auto simp: validateRegistered_def admission_claims_def)

lemma library_valid_signed:
  assumes "now' < f (ad_ExpiresAt admission)" "f now \<le> now' + 5 * Second"
  shows "library_valid (parser_options (si_issuer s) (si_audience s) now') (ac_registered (admission_claims f s now jti admission))"
  using assms by (simp add: library_valid_def parser_options_def admission_claims_def)

lemma library_accepts:
  "library_ok lib registered \<Longrightarrow> SignedString lib private header claims = Inr token \<Longrightarrow> keyfunc header = Inr (public lib private) \<Longrightarrow>
   th_alg header \<in> set (po_ValidMethods opts) \<Longrightarrow> library_valid opts (registered claims) \<Longrightarrow> ParseWithClaims lib opts keyfunc token = Inr claims"
  unfolding library_ok_def by blast

lemma library_claims:
  "library_ok lib registered \<Longrightarrow> SignedString lib private header claims = Inr token \<Longrightarrow> ParseWithClaims lib opts keyfunc token = Inr claims' \<Longrightarrow>
   claims' = claims"
  unfolding library_ok_def by blast

text \<open>An expired ticket does not verify.\<close>

lemma Verify_expired:
  assumes "library_ok lib ac_registered" "Sign lib s now (Inr jti) admission = Inr token" "\<not> now' < whole (ad_ExpiresAt admission)"
  shows "\<exists>err. Verify lib v now' token = Inl err"
proof -
  let ?claims = "admission_claims (NewNumericDate lib) s now jti admission"
  have signed: "SignedString lib (si_private s) \<lparr>th_alg = ''EdDSA'', th_typ = Some admissionType, th_kid = Some (si_keyID s)\<rparr> ?claims = Inr token"
    using assms(2) by (auto simp: Sign_def split: if_splits)
  have "\<not> validateRegistered (ac_registered ?claims) audience now'" for audience
    using assms(1,3) by (simp add: validate_signed library_ok_def)
  then have "\<exists>err. parse_token lib ac_registered token admissionType (ve_issuer v) (ve_audience v) now' (keyFor v) = Inl err"
    using library_claims [OF assms(1) signed] by (auto simp: parse_token_def bind_eq_Inl) (metis sum.exhaust)
  then show ?thesis
    by (auto simp: Verify_def)
qed

text \<open>A signed ticket verifies to the admission it was signed for, with the expiry cut to a second.\<close>

lemma Verify_signed:
  assumes lib: "library_ok lib ac_registered"
    and signed: "Sign lib s now (Inr jti) admission = Inr token" "jti \<noteq> []" "length (ow_Incarnation (ad_Owner admission)) = 16"
    and v: "ve_issuer v = si_issuer s" "ve_audience v = si_audience s" "map_of (ve_keys v) (si_keyID s) = Some (public lib (si_private s))"
      "si_keyID s \<noteq> []"
    and clock: "now - 5 * Second \<le> now'" "now' < whole (ad_ExpiresAt admission)" "whole now < whole (ad_ExpiresAt admission)"
  shows "Verify lib v now' token = Inr (admission\<lparr>ad_ExpiresAt := whole (ad_ExpiresAt admission)\<rparr>)"
proof -
  let ?f = "NewNumericDate lib" and ?header = "\<lparr>th_alg = ''EdDSA'', th_typ = Some admissionType, th_kid = Some (si_keyID s)\<rparr>"
  let ?claims = "admission_claims ?f s now jti admission"
  have f: "?f t = whole t" for t
    using lib by (simp add: library_ok_def)
  have a: "ai_ID (ad_App admission) = si_audience s" "ai_Version (ad_App admission) \<noteq> []" "ad_PrincipalIssuer admission \<noteq> []"
      "ad_Subject admission \<noteq> []" "ow_ID (ad_Owner admission) \<noteq> []" "ep_Address (ow_Endpoint (ad_Owner admission)) \<noteq> []"
      "ep_ServerName (ow_Endpoint (ad_Owner admission)) \<noteq> []"
      "SignedString lib (si_private s) ?header ?claims = Inr token"
    using signed(1) by (auto simp: Sign_def split: if_splits)
  have "whole now \<le> now' + 5 * Second"
    using clock(1) whole_bounds(1) [of now] by linarith
  then have valid: "library_valid (parser_options (si_issuer s) (si_audience s) now') (ac_registered ?claims)"
    "validateRegistered (ac_registered ?claims) (si_audience s) now'"
    using clock a(4) by (auto simp: validate_signed f intro!: library_valid_signed)
  have "key_function admissionType (keyFor v) ?header = Inr (public lib (si_private s))"
    using v by (simp add: key_function_def keyFor_def)
  then have "ParseWithClaims lib (parser_options (si_issuer s) (si_audience s) now') (key_function admissionType (keyFor v)) token = Inr ?claims"
    by (rule library_accepts [OF lib a(8)]) (use valid(1) in \<open>simp_all add: parser_options_def\<close>)
  then have "parse_token lib ac_registered token admissionType (ve_issuer v) (ve_audience v) now' (keyFor v) = Inr ?claims"
    using v valid(2) by (simp add: parse_token_def)
  moreover have "ow_Incarnation (ad_Owner admission) \<noteq> []"
    using signed(3) by auto
  ultimately show ?thesis
    using a signed(2,3) by (cases admission; cases "ad_App admission"; cases "ad_Owner admission"; cases "ow_Endpoint (ad_Owner admission)")
      (simp add: Verify_def admission_claims_def f parseID_hex hex_nonempty)
qed

end
