(* ===== verification/Assignments.thy ===== *)
theory Assignments
  imports Types
begin

text \<open>
  The store and registry side of placement: the records of \<open>placement/placement.go\<close>, the contract of
  its interface \<open>AssignmentStore\<close> as the locale \<open>assignment_store\<close>, and the in-memory adapters of
  \<open>placement/memory/memory.go\<close>, which are shown to keep that contract. Go maps are association lists
  with distinct keys. The mutex of an adapter makes every operation atomic; \<open>ctx\<close> is what
  \<open>ctx.Err()\<close> returns. Receivers are not nil.
\<close>

section \<open>Records\<close>

record GroupID =
  gi_App :: AppIdentity
  gi_Key :: string

record Assignment =
  as_Group :: GroupID
  as_Owner :: Owner
  as_Closed :: bool

record OwnerStatus =
  os_Owner :: Owner
  os_Healthy :: bool
  os_Draining :: bool
  os_HasCapacity :: bool

definition ErrAssignmentNotFound :: error where
  "ErrAssignmentNotFound = OtherError ''sgsp placement: assignment not found''"

section \<open>The store in memory\<close>

type_synonym assignmentKey = "string \<times> string"

record Store =
  ms_max :: int
  ms_assignments :: "(assignmentKey \<times> Assignment) list"

definition DefaultMaxAssignments :: int where
  "DefaultMaxAssignments = 100000"

definition NewStore :: "int list \<Rightarrow> Store" where
  "NewStore maxRecords =
     (let mx = (case maxRecords of [] \<Rightarrow> DefaultMaxAssignments | m # _ \<Rightarrow> m) in
      \<lparr>ms_max = (if mx < 1 then 1 else mx), ms_assignments = []\<rparr>)"

definition key :: "GroupID \<Rightarrow> assignmentKey" where
  "key grp = (ai_ID (gi_App grp), gi_Key grp)"

definition validGroup :: "GroupID \<Rightarrow> bool" where
  "validGroup grp \<longleftrightarrow> ai_ID (gi_App grp) \<noteq> [] \<and> ai_Version (gi_App grp) \<noteq> [] \<and> gi_Key grp \<noteq> []"

definition validOwner :: "Owner \<Rightarrow> bool" where
  "validOwner owner \<longleftrightarrow> ow_ID owner \<noteq> [] \<and> ep_Address (ow_Endpoint owner) \<noteq> [] \<and> ep_ServerName (ow_Endpoint owner) \<noteq> []"

definition version :: "GroupID \<Rightarrow> string" where
  "version grp = ai_Version (gi_App grp)"

definition Assign :: "ctx_error option \<Rightarrow> Store \<Rightarrow> GroupID \<Rightarrow> Owner \<Rightarrow> (error + Assignment) \<times> Store" where
  "Assign ctx s grp candidate =
     (case ctx of
        Some e \<Rightarrow> (Inl (CtxError e), s)
      | None \<Rightarrow>
          if \<not> validGroup grp \<or> \<not> validOwner candidate then (Inl ErrInvalidArgument, s)
          else
            (case map_of (ms_assignments s) (key grp) of
               Some existing \<Rightarrow>
                 if version (as_Group existing) \<noteq> version grp then (Inl ErrUnsupportedVersion, s)
                 else if as_Closed existing then (Inl ErrGroupClosed, s)
                 else (Inr existing, s)
             | None \<Rightarrow>
                 if int (length (ms_assignments s)) \<ge> ms_max s then (Inl ErrResourceExhausted, s)
                 else
                   (let assignment = \<lparr>as_Group = grp, as_Owner = candidate, as_Closed = False\<rparr> in
                    (Inr assignment, s\<lparr>ms_assignments := AList.update (key grp) assignment (ms_assignments s)\<rparr>))))"

definition Get :: "ctx_error option \<Rightarrow> Store \<Rightarrow> GroupID \<Rightarrow> error + Assignment" where
  "Get ctx s grp =
     (case ctx of
        Some e \<Rightarrow> Inl (CtxError e)
      | None \<Rightarrow>
          if \<not> validGroup grp then Inl ErrInvalidArgument
          else
            (case map_of (ms_assignments s) (key grp) of
               None \<Rightarrow> Inl ErrAssignmentNotFound
             | Some assignment \<Rightarrow>
                 if version (as_Group assignment) \<noteq> version grp then Inl ErrUnsupportedVersion
                 else Inr assignment))"

definition Close_store :: "ctx_error option \<Rightarrow> Store \<Rightarrow> GroupID \<Rightarrow> Owner \<Rightarrow> error option \<times> Store" where
  "Close_store ctx s grp expected =
     (case ctx of
        Some e \<Rightarrow> (Some (CtxError e), s)
      | None \<Rightarrow>
          if \<not> validGroup grp \<or> \<not> validOwner expected then (Some ErrInvalidArgument, s)
          else
            (case map_of (ms_assignments s) (key grp) of
               None \<Rightarrow> (Some ErrAssignmentNotFound, s)
             | Some assignment \<Rightarrow>
                 if version (as_Group assignment) \<noteq> version grp then (Some ErrUnsupportedVersion, s)
                 else if ow_ID (as_Owner assignment) \<noteq> ow_ID expected
                   \<or> ow_Incarnation (as_Owner assignment) \<noteq> ow_Incarnation expected then (Some ErrForbidden, s)
                 else (None, s\<lparr>ms_assignments :=
                        AList.update (key grp) (assignment\<lparr>as_Closed := True\<rparr>) (ms_assignments s)\<rparr>)))"

section \<open>The registry in memory\<close>

type_synonym ownerKey = "string \<times> Incarnation"

record Registry =
  re_owners :: "(ownerKey \<times> OwnerStatus) list"

definition NewRegistry :: Registry where
  "NewRegistry = \<lparr>re_owners = []\<rparr>"

definition registryKey :: "Owner \<Rightarrow> ownerKey" where
  "registryKey owner = (ow_ID owner, ow_Incarnation owner)"

definition Register_owner :: "ctx_error option \<Rightarrow> Registry \<Rightarrow> Owner \<Rightarrow> error option \<times> Registry" where
  "Register_owner ctx r owner =
     (case ctx of
        Some e \<Rightarrow> (Some (CtxError e), r)
      | None \<Rightarrow>
          if \<not> validOwner owner then (Some ErrInvalidArgument, r)
          else (None, r\<lparr>re_owners := AList.update (registryKey owner)
                  \<lparr>os_Owner = owner, os_Healthy = True, os_Draining = False, os_HasCapacity = True\<rparr> (re_owners r)\<rparr>))"

definition SetStatus :: "ctx_error option \<Rightarrow> Registry \<Rightarrow> Owner \<Rightarrow> bool \<Rightarrow> bool \<Rightarrow> bool \<Rightarrow> error option \<times> Registry" where
  "SetStatus ctx r owner healthy draining hasCapacity =
     (case ctx of
        Some e \<Rightarrow> (Some (CtxError e), r)
      | None \<Rightarrow>
          if \<not> validOwner owner then (Some ErrInvalidArgument, r)
          else if map_of (re_owners r) (registryKey owner) = None then (Some ErrAssignmentNotFound, r)
          else (None, r\<lparr>re_owners := AList.update (registryKey owner)
                  \<lparr>os_Owner = owner, os_Healthy = healthy, os_Draining = draining, os_HasCapacity = hasCapacity\<rparr> (re_owners r)\<rparr>))"

definition Remove_owner :: "ctx_error option \<Rightarrow> Registry \<Rightarrow> Owner \<Rightarrow> error option \<times> Registry" where
  "Remove_owner ctx r owner =
     (case ctx of
        Some e \<Rightarrow> (Some (CtxError e), r)
      | None \<Rightarrow>
          if \<not> validOwner owner then (Some ErrInvalidArgument, r)
          else (None, r\<lparr>re_owners := AList.delete (registryKey owner) (re_owners r)\<rparr>))"

text \<open>A Go map is ranged over in any order; the order of the list stands for the one the run happened to use.\<close>

definition Snapshot :: "ctx_error option \<Rightarrow> Registry \<Rightarrow> error + OwnerStatus list" where
  "Snapshot ctx r = (case ctx of Some e \<Rightarrow> Inl (CtxError e) | None \<Rightarrow> Inr (map snd (re_owners r)))"

section \<open>The contract of an assignment store\<close>

text \<open>
  \<open>view\<close> is the durable content. Assigning an assigned group returns the assignment there is, an
  assignment is only ever created for an absent key and closed by its owner, and no operation that
  fails changes anything.
\<close>

locale assignment_store =
  fixes assign :: "ctx_error option \<Rightarrow> 's \<Rightarrow> GroupID \<Rightarrow> Owner \<Rightarrow> (error + Assignment) \<times> 's"
    and get :: "ctx_error option \<Rightarrow> 's \<Rightarrow> GroupID \<Rightarrow> error + Assignment"
    and close :: "ctx_error option \<Rightarrow> 's \<Rightarrow> GroupID \<Rightarrow> Owner \<Rightarrow> error option \<times> 's"
    and view :: "'s \<Rightarrow> assignmentKey \<Rightarrow> Assignment option"
  assumes assign_ok: "assign ctx s g candidate = (Inr a, s') \<Longrightarrow>
      \<not> as_Closed a \<and> view s' = (view s)(key g \<mapsto> a)
      \<and> (view s (key g) = Some a \<or> view s (key g) = None \<and> a = \<lparr>as_Group = g, as_Owner = candidate, as_Closed = False\<rparr>)"
    and assign_failed: "assign ctx s g candidate = (Inl e, s') \<Longrightarrow> view s' = view s"
    and get_ok: "get ctx s g = Inr a \<Longrightarrow> view s (key g) = Some a"
    and get_missing: "get ctx s g = Inl ErrAssignmentNotFound \<Longrightarrow> view s (key g) = None"
    and close_ok: "close ctx s g expected = (None, s') \<Longrightarrow>
      \<exists>a. view s (key g) = Some a \<and> view s' = (view s)(key g \<mapsto> a\<lparr>as_Closed := True\<rparr>)
        \<and> ow_ID (as_Owner a) = ow_ID expected \<and> ow_Incarnation (as_Owner a) = ow_Incarnation expected"
    and close_failed: "close ctx s g expected = (Some e, s') \<Longrightarrow> view s' = view s"
begin

text \<open>One operation of any user of the store.\<close>

definition store_step :: "'s \<Rightarrow> 's \<Rightarrow> bool" where
  "store_step s s' \<longleftrightarrow>
     (\<exists>ctx g candidate. snd (assign ctx s g candidate) = s') \<or> (\<exists>ctx g expected. snd (close ctx s g expected) = s')"

definition extends :: "'s \<Rightarrow> 's \<Rightarrow> bool" where
  "extends s s' \<longleftrightarrow>
     (\<forall>k a. view s k = Some a \<longrightarrow>
        (\<exists>b. view s' k = Some b \<and> as_Group b = as_Group a \<and> as_Owner b = as_Owner a \<and> (as_Closed a \<longrightarrow> as_Closed b)))"

lemma extendsD:
  "extends s s' \<Longrightarrow> view s k = Some a \<Longrightarrow>
   \<exists>b. view s' k = Some b \<and> as_Group b = as_Group a \<and> as_Owner b = as_Owner a \<and> (as_Closed a \<longrightarrow> as_Closed b)"
  by (simp only: extends_def)

lemma extends_trans: "extends s t \<Longrightarrow> extends t u \<Longrightarrow> extends s u"
  unfolding extends_def by metis

lemma assign_extends:
  assumes "assign ctx s g candidate = (r, s')"
  shows "extends s s'"
proof (cases r)
  case (Inl e)
  then show ?thesis using assign_failed assms by (simp add: extends_def)
next
  case (Inr a)
  from assign_ok [OF assms [unfolded Inr]] show ?thesis
    by (auto simp: extends_def)
qed

lemma close_extends:
  assumes "close ctx s g expected = (r, s')"
  shows "extends s s'"
proof (cases r)
  case None
  from close_ok [OF assms [unfolded None]] show ?thesis
    by (auto simp: extends_def)
next
  case (Some e)
  then show ?thesis using close_failed assms by (simp add: extends_def)
qed

lemma step_extends: "store_step s s' \<Longrightarrow> extends s s'"
  unfolding store_step_def by (metis assign_extends close_extends surjective_pairing)

text \<open>Ownership of a group is decided once and a closed group stays closed.\<close>

lemma steps_extend: "store_step\<^sup>*\<^sup>* s s' \<Longrightarrow> extends s s'"
proof (induction rule: rtranclp_induct)
  case base
  then show ?case by (auto simp: extends_def)
next
  case (step t u)
  then show ?case using extends_trans step_extends by blast
qed

lemma assigned_once:
  assumes "view s (key g) = Some a" "store_step\<^sup>*\<^sup>* s s'" "assign ctx s' h candidate = (Inr b, s'')" "key h = key g"
  shows "as_Owner b = as_Owner a \<and> \<not> as_Closed a"
  using extendsD [OF steps_extend [OF assms(2)] assms(1)] assign_ok [OF assms(3)] assms(4) by auto

lemma read_once:
  assumes "view s (key g) = Some a" "store_step\<^sup>*\<^sup>* s s'" "get ctx s' h = Inr b" "key h = key g"
  shows "as_Owner b = as_Owner a \<and> (as_Closed a \<longrightarrow> as_Closed b)"
  using extendsD [OF steps_extend [OF assms(2)] assms(1)] get_ok [OF assms(3)] assms(4) by auto

end

interpretation memory: assignment_store Assign Get Close_store "\<lambda>s. map_of (ms_assignments s)"
  by unfold_locales
    (auto simp: Assign_def Get_def Close_store_def Let_def update_conv' ErrAssignmentNotFound_def codeError_def
      split: option.splits if_splits)

abbreviation memory_step :: "Store \<Rightarrow> Store \<Rightarrow> bool" where
  "memory_step \<equiv> assignment_store.store_step Assign Close_store"

definition store_inv :: "Store \<Rightarrow> bool" where
  "store_inv s \<longleftrightarrow> distinct (map fst (ms_assignments s)) \<and> int (length (ms_assignments s)) \<le> ms_max s
     \<and> (\<forall>k a. map_of (ms_assignments s) k = Some a \<longrightarrow> key (as_Group a) = k \<and> validGroup (as_Group a) \<and> validOwner (as_Owner a))"

lemma NewStore_inv: "store_inv (NewStore mx)"
  by (simp add: NewStore_def store_inv_def Let_def)

lemma Assign_inv: "store_inv s \<Longrightarrow> store_inv (snd (Assign ctx s grp candidate))"
  by (auto simp: store_inv_def Assign_def Let_def length_alist_update distinct_update update_conv'
      split: option.splits if_splits simp del: map_of_eq_Some_iff split_paired_All)

lemma Close_store_inv: "store_inv s \<Longrightarrow> store_inv (snd (Close_store ctx s grp expected))"
  by (auto simp: store_inv_def Close_store_def Let_def length_alist_update distinct_update update_conv'
      split: option.splits if_splits simp del: map_of_eq_Some_iff split_paired_All)

lemma store_steps_inv: "memory_step\<^sup>*\<^sup>* s s' \<Longrightarrow> store_inv s \<Longrightarrow> store_inv s'"
  by (induction rule: rtranclp_induct) (auto simp: memory.store_step_def Assign_inv Close_store_inv)

end
