(* ===== verification/Placement.thy ===== *)
theory Placement
  imports Assignments Codec_Spec "HOL-Library.List_Lexorder"
begin

text \<open>
  \<open>placement/placement.go\<close>: a bootstrap server resolves a group to its owner and issues an admission
  ticket. The store, the registry, the selector, the signer and the authorizer are interfaces of the
  package, so they are arguments; \<open>crypto/sha256\<close> is an argument too, of which nothing but being a
  function is used. A call that reads the clock several times takes one reading for each. Between the
  reading and the writing of the store other callers may act, so \<open>Resolve\<close> takes the state each finds.
\<close>

section \<open>Rendezvous hashing\<close>

definition PutUint16 :: "u16 \<Rightarrow> bytes" where
  "PutUint16 w = [ucast (drop_bit 8 w), ucast w]"

definition PutUint32 :: "u32 \<Rightarrow> bytes" where
  "PutUint32 w = [ucast (drop_bit 24 w), ucast (drop_bit 16 w), ucast (drop_bit 8 w), ucast w]"

definition PutUint64 :: "u64 \<Rightarrow> bytes" where
  "PutUint64 w = map (\<lambda>i. ucast (drop_bit (8 * (7 - i)) w)) [0..<8]"

definition appendQUICVarint :: "bytes \<Rightarrow> u64 \<Rightarrow> bytes" where
  "appendQUICVarint dst v =
     (if v \<le> 63 then dst @ [ucast v]
      else if v \<le> 16383 then dst @ PutUint16 (ucast v OR 0x4000)
      else if v \<le> 1073741823 then dst @ PutUint32 (ucast v OR 0x80000000)
      else dst @ PutUint64 (v OR 0xc000000000000000))"

text \<open>The buffer \<open>rendezvous\<close> hashes.\<close>

definition rendezvous_input :: "GroupID \<Rightarrow> Owner \<Rightarrow> bytes" where
  "rendezvous_input g owner =
     fold (\<lambda>v buf. appendQUICVarint buf (of_nat (length v)) @ string_bytes v) [ai_ID (gi_App g), gi_Key g, ow_ID owner] []
     @ ow_Incarnation owner"

definition rendezvous :: "(bytes \<Rightarrow> bytes) \<Rightarrow> GroupID \<Rightarrow> Owner \<Rightarrow> bytes" where
  "rendezvous sha256 g owner = sha256 (rendezvous_input g owner)"

text \<open>The comparison given to \<open>sort.Slice\<close>.\<close>

definition candidate_less :: "(bytes \<Rightarrow> bytes) \<Rightarrow> GroupID \<Rightarrow> OwnerStatus \<Rightarrow> OwnerStatus \<Rightarrow> bool" where
  "candidate_less sha256 g a b =
     (let left = rendezvous sha256 g (os_Owner a); right = rendezvous sha256 g (os_Owner b) in
      if left \<noteq> right then left > right
      else if ow_ID (os_Owner a) \<noteq> ow_ID (os_Owner b) then string_bytes (ow_ID (os_Owner a)) < string_bytes (ow_ID (os_Owner b))
      else ow_Incarnation (os_Owner a) < ow_Incarnation (os_Owner b))"

definition eligible :: "OwnerStatus \<Rightarrow> bool" where
  "eligible c \<longleftrightarrow> os_Healthy c \<and> \<not> os_Draining c \<and> os_HasCapacity c"

text \<open>
  The first element after sorting: the least one. Two entries of the same owner identity compare as
  equal; \<open>sort.Slice\<close> may put either first, the model takes the one listed first.
\<close>

fun least :: "('a \<Rightarrow> 'a \<Rightarrow> bool) \<Rightarrow> 'a list \<Rightarrow> 'a option" where
  "least lt [] = None"
| "least lt (x # xs) = (case least lt xs of None \<Rightarrow> Some x | Some y \<Rightarrow> if lt y x then Some y else Some x)"

type_synonym selector = "Principal \<Rightarrow> GroupID \<Rightarrow> OwnerStatus list \<Rightarrow> error + Owner"

definition selectOwner :: "(bytes \<Rightarrow> bytes) \<Rightarrow> Principal \<Rightarrow> GroupID \<Rightarrow> OwnerStatus list \<Rightarrow> selector option \<Rightarrow> error + Owner" where
  "selectOwner sha256 prin g candidates sel =
     (case sel of
        Some select \<Rightarrow> select prin g candidates
      | None \<Rightarrow>
          (case least (candidate_less sha256 g) (filter eligible candidates) of
             None \<Rightarrow> Inl ErrServerUnavailable
           | Some c \<Rightarrow> Inr (os_Owner c)))"

definition same_owner :: "Owner \<Rightarrow> Owner \<Rightarrow> bool" where
  "same_owner a b \<longleftrightarrow> ow_ID a = ow_ID b \<and> ow_Incarnation a = ow_Incarnation b"

definition matchingStatus :: "Owner \<Rightarrow> OwnerStatus list \<Rightarrow> OwnerStatus option" where
  "matchingStatus owner statuses = find (\<lambda>status. same_owner (os_Owner status) owner) statuses"

section \<open>Resolving\<close>

record 's AssignmentStore =
  st_Assign :: "'s \<Rightarrow> GroupID \<Rightarrow> Owner \<Rightarrow> (error + Assignment) \<times> 's"
  st_Get :: "'s \<Rightarrow> GroupID \<Rightarrow> error + Assignment"
  st_Close :: "'s \<Rightarrow> GroupID \<Rightarrow> Owner \<Rightarrow> error option \<times> 's"

text \<open>A registry is what its \<open>Snapshot\<close> returns to the call.\<close>

record 's BootstrapConfig =
  bc_App :: AppIdentity
  bc_Store :: "'s AssignmentStore option"
  bc_Registry :: "(error + OwnerStatus list) option"
  bc_Selector :: "selector option"
  bc_Signer :: "(Admission \<Rightarrow> error + string) option"
  bc_AuthorizeGroup :: "(Principal \<Rightarrow> string \<Rightarrow> error option) option"

record Placement =
  pl_Owner :: Owner
  pl_GroupKey :: string
  pl_AdmissionTicket :: string
  pl_ExpiresAt :: time

definition NewBootstrap :: "'s BootstrapConfig \<Rightarrow> error + 's BootstrapConfig" where
  "NewBootstrap config =
     (if ai_ID (bc_App config) = [] \<or> ai_Version (bc_App config) = [] \<or> bc_Registry config = None \<or> bc_Signer config = None
      then Inl ErrInvalidArgument else Inr config)"

text \<open>The owner of a named group: read, and assigned when there is none. \<open>s1\<close> and \<open>s2\<close> are the states
  the two store calls find; the state afterwards is returned.\<close>

definition resolve_group :: "(bytes \<Rightarrow> bytes) \<Rightarrow> 's BootstrapConfig \<Rightarrow> OwnerStatus list \<Rightarrow> 's \<Rightarrow> 's \<Rightarrow> Principal \<Rightarrow> GroupID \<Rightarrow>
  (error + Owner) \<times> 's" where
  "resolve_group sha256 config statuses s1 s2 prin g =
     (case bc_Store config of
        None \<Rightarrow> (Inl ErrInvalidArgument, s1)
      | Some store \<Rightarrow>
          (let (assignment, s) =
             (case st_Get store s1 g of
                Inl err \<Rightarrow>
                  if errors_Is err ErrAssignmentNotFound
                  then (case selectOwner sha256 prin g statuses (bc_Selector config) of
                          Inl selectErr \<Rightarrow> (Inl selectErr, s1)
                        | Inr candidate \<Rightarrow> st_Assign store s2 g candidate)
                  else (Inl err, s1)
              | Inr assignment \<Rightarrow> (Inr assignment, s1)) in
           case assignment of
             Inl err \<Rightarrow> (Inl err, s)
           | Inr a \<Rightarrow> if as_Closed a then (Inl ErrGroupClosed, s) else (Inr (as_Owner a), s)))"

text \<open>The last part of \<open>Resolve\<close>: the owner must be admissible, and the ticket is signed.\<close>

definition issue_ticket :: "'s BootstrapConfig \<Rightarrow> OwnerStatus list \<Rightarrow> time \<Rightarrow> time \<Rightarrow> Principal \<Rightarrow> string \<Rightarrow> Owner \<Rightarrow> error + Placement" where
  "issue_ticket config statuses now2 now3 prin groupKey owner =
     (case matchingStatus owner statuses of
        None \<Rightarrow> Inl ErrServerUnavailable
      | Some status \<Rightarrow>
          if \<not> os_Healthy status \<or> \<not> os_HasCapacity status then Inl ErrServerUnavailable
          else if os_Draining status then Inl ErrServerDraining
          else
            (let limit = now2 + 30 * Second;
                 expiresAt = (if pr_ExpiresAt prin < limit then pr_ExpiresAt prin else limit) in
             if \<not> expiresAt > now3 then Inl ErrUnauthenticated
             else
               (case bc_Signer config of
                  None \<Rightarrow> Inl ErrInvalidArgument
                | Some sign \<Rightarrow>
                    bind (sign \<lparr>ad_App = bc_App config, ad_PrincipalIssuer = pr_Issuer prin, ad_Subject = pr_Subject prin,
                            ad_GroupKey = groupKey, ad_Owner = owner, ad_ExpiresAt = expiresAt\<rparr>)
                      (\<lambda>ticket. Inr \<lparr>pl_Owner = owner, pl_GroupKey = groupKey, pl_AdmissionTicket = ticket,
                                     pl_ExpiresAt = expiresAt\<rparr>))))"

definition Resolve :: "(bytes \<Rightarrow> bytes) \<Rightarrow> 's BootstrapConfig \<Rightarrow> error + bytes \<Rightarrow> time \<times> time \<times> time \<Rightarrow> 's \<Rightarrow> 's \<Rightarrow> Principal \<Rightarrow> string \<Rightarrow>
  (error + Placement) \<times> 's" where
  "Resolve sha256 config random clock s1 s2 prin groupKey =
     (case clock of (now1, now2, now3) \<Rightarrow>
        if bc_Registry config = None \<or> bc_Signer config = None \<or> pr_Issuer prin = [] \<or> pr_Subject prin = [] \<or> \<not> pr_ExpiresAt prin > now1
        then (Inl ErrInvalidArgument, s1)
        else
          (case (if groupKey \<noteq> [] then Option.bind (bc_AuthorizeGroup config) (\<lambda>authorize. authorize prin groupKey) else None) of
             Some err \<Rightarrow> (Inl err, s1)
           | None \<Rightarrow>
               (case the (bc_Registry config) of
                  Inl err \<Rightarrow> (Inl err, s1)
                | Inr statuses \<Rightarrow>
                    (let (owner, s) =
                       (if groupKey \<noteq> []
                        then resolve_group sha256 config statuses s1 s2 prin \<lparr>gi_App = bc_App config, gi_Key = groupKey\<rparr>
                        else (bind random (\<lambda>selectionKey.
                                selectOwner sha256 prin \<lparr>gi_App = bc_App config, gi_Key = bytes_string selectionKey\<rparr>
                                  statuses (bc_Selector config)), s1)) in
                     (bind owner (issue_ticket config statuses now2 now3 prin groupKey), s)))))"

definition CloseGroup_bootstrap :: "'s BootstrapConfig \<Rightarrow> 's \<Rightarrow> string \<Rightarrow> Owner \<Rightarrow> error option \<times> 's" where
  "CloseGroup_bootstrap config s groupKey owner =
     (case bc_Store config of
        None \<Rightarrow> (Some ErrInvalidArgument, s)
      | Some store \<Rightarrow>
          if groupKey = [] then (Some ErrInvalidArgument, s)
          else st_Close store s \<lparr>gi_App = bc_App config, gi_Key = groupKey\<rparr> owner)"

text \<open>The code of an error for the wire. Every sentinel is an \<open>*Error\<close>, so the first test decides.\<close>

fun as_protocol :: "error \<Rightarrow> Code option" where
  "as_protocol (Error code _ _ _ _) = Some code"
| "as_protocol _ = None"

definition errorCode :: "error \<Rightarrow> Code" where
  "errorCode err =
     (case as_protocol err of
        Some code \<Rightarrow> code
      | None \<Rightarrow>
          (case find (\<lambda>(e, _). errors_Is err e)
             [(ErrGroupClosed, GroupClosed), (ErrServerUnavailable, ServerUnavailable), (ErrServerDraining, ServerDraining),
              (ErrUnsupportedVersion, UnsupportedVersion), (ErrForbidden, Forbidden)] of
             Some (_, code) \<Rightarrow> code
           | None \<Rightarrow> Internal))"

definition placementObservationCode :: "error option \<Rightarrow> Code" where
  "placementObservationCode err =
     (case err of
        None \<Rightarrow> Normal
      | Some e \<Rightarrow>
          if errors_Is e ErrAssignmentNotFound then Normal
          else (let code = errorCode e in if code > WrongMode then Internal else code))"

section \<open>The hashed encoding\<close>

lemma ucast_or: "(ucast (a OR b) :: 'b::len word) = ucast a OR ucast (b :: 'a::len word)"
  by (rule bit_word_eqI) (auto simp: bit_simps)

lemma ucast_drop_16: "(ucast (drop_bit 8 (ucast (v :: u64) :: u16)) :: byte) = ucast (drop_bit 8 v)"
  "(ucast (ucast v :: u16) :: byte) = ucast v"
  by (rule bit_word_eqI; simp add: bit_simps)+

lemma ucast_drop_32:
  "n \<le> 24 \<Longrightarrow> (ucast (drop_bit n (ucast (v :: u64) :: u32)) :: byte) = ucast (drop_bit n v)"
  "(ucast (ucast v :: u32) :: byte) = ucast v"
  by (rule bit_word_eqI; auto simp: bit_simps)+

lemma byte_numerals:
  "(0x4000 :: byte) = 0" "(0x80000000 :: byte) = 0" "(0x800000 :: byte) = 0" "(0x8000 :: byte) = 0"
  "(0xc000000000000000 :: byte) = 0" "(0xc0000000000000 :: byte) = 0" "(0xc00000000000 :: byte) = 0"
  "(0xc000000000 :: byte) = 0" "(0xc0000000 :: byte) = 0" "(0xc00000 :: byte) = 0" "(0xc000 :: byte) = 0"
  by simp_all

text \<open>The private encoder of this package is the wire package's encoder.\<close>

lemma appendQUICVarint_vb:
  assumes "v \<le> MaxVarint"
  shows "appendQUICVarint dst v = dst @ vb v"
proof -
  consider "v \<le> 63" | "63 < v" "v \<le> 16383" | "16383 < v" "v \<le> 1073741823" | "1073741823 < v"
    by force
  then show ?thesis
  proof cases
    case 1
    then show ?thesis by (simp add: appendQUICVarint_def varint_bytes_def VarintLen_def)
  next
    case 2
    then have "\<not> v \<le> 63"
      by (simp add: not_le)
    with 2 show ?thesis
      by (simp add: appendQUICVarint_def varint_bytes_def VarintLen_def PutUint16_def ucast_or drop_bit_or byte_numerals ucast_drop_16)
  next
    case 3
    then have "\<not> v \<le> 16383" "\<not> v \<le> 63"
      by (auto simp: not_le intro: order_less_trans [rotated])
    with 3 show ?thesis
      by (simp add: appendQUICVarint_def varint_bytes_def VarintLen_def PutUint32_def ucast_or drop_bit_or byte_numerals ucast_drop_32)
  next
    case 4
    then have "\<not> v \<le> 63" "\<not> v \<le> 16383" "\<not> v \<le> 1073741823"
      by (auto simp: not_le intro: order_less_trans [rotated])
    with assms show ?thesis
      by (simp add: appendQUICVarint_def varint_bytes_def VarintLen_def PutUint64_def ucast_or drop_bit_or byte_numerals upt_rec)
  qed
qed

definition frame :: "string \<Rightarrow> bytes" where
  "frame t = vb (of_nat (length t)) @ string_bytes t"

lemma length_le_MaxVarint: "n < 2 ^ 62 \<Longrightarrow> (of_nat n :: u64) \<le> MaxVarint"
  by (intro small_le_MaxVarint) (simp add: unsigned_of_nat take_bit_nat_eq_self)

lemma frame_inject:
  assumes "frame t @ x = frame u @ y" "length t < 2 ^ 62" "length u < 2 ^ 62"
  shows "t = u \<and> x = y"
proof -
  let ?n = "of_nat (length t) :: u64" and ?m = "of_nat (length u) :: u64"
  have "DecodeVarint (frame t @ x) = Inr (?n, length (vb ?n))" "DecodeVarint (frame u @ y) = Inr (?m, length (vb ?m))"
    using assms(2,3) by (simp_all add: frame_def DecodeVarint_vb length_le_MaxVarint)
  with assms(1) have "?n = ?m"
    by simp
  moreover have "unat ?n = length t" "unat ?m = length u"
    using assms(2,3) by (auto intro!: unat_of_nat_u64 elim: order_less_trans)
  ultimately have "length t = length u"
    by metis
  then show ?thesis
    using assms(1) \<open>?n = ?m\<close> append_eq_append_conv [of "string_bytes t" "string_bytes u" x y] unfolding frame_def by auto
qed

lemma rendezvous_input_frames:
  assumes "length (ai_ID (gi_App g)) < 2 ^ 62" "length (gi_Key g) < 2 ^ 62" "length (ow_ID owner) < 2 ^ 62"
  shows "rendezvous_input g owner = frame (ai_ID (gi_App g)) @ frame (gi_Key g) @ frame (ow_ID owner) @ ow_Incarnation owner"
  using assms by (simp add: rendezvous_input_def frame_def appendQUICVarint_vb length_le_MaxVarint)

section \<open>Selection\<close>

text \<open>The order of the candidates, as a comparison of keys; the identity of an owner decides ties.\<close>

lemma candidate_less_asym: "candidate_less sha g a b \<Longrightarrow> \<not> candidate_less sha g b a"
  by (auto simp: candidate_less_def Let_def split: if_splits)

lemma candidate_less_weak: "candidate_less sha g a c \<Longrightarrow> candidate_less sha g a b \<or> candidate_less sha g b c"
  by (auto simp: candidate_less_def Let_def split: if_splits) (metis linorder_less_linear string_bytes_inject)+

lemma candidate_less_total:
  "\<not> same_owner (os_Owner a) (os_Owner b) \<Longrightarrow> candidate_less sha g a b \<or> candidate_less sha g b a"
  unfolding candidate_less_def same_owner_def Let_def by (metis linorder_less_linear string_bytes_inject)

lemma least_None [simp]: "least lt xs = None \<longleftrightarrow> xs = []"
  by (cases xs) (auto split: option.splits)

lemma least_member: "least lt xs = Some x \<Longrightarrow> x \<in> set xs"
  by (induction xs arbitrary: x) (auto split: option.splits if_splits)

lemma least_minimal:
  assumes "\<And>a b. lt a b \<Longrightarrow> \<not> lt b a" "\<And>a b c. lt a c \<Longrightarrow> lt a b \<or> lt b c"
  shows "least lt xs = Some x \<Longrightarrow> y \<in> set xs \<Longrightarrow> \<not> lt y x"
proof (induction xs arbitrary: x)
  case (Cons z xs)
  show ?case
  proof (cases "least lt xs")
    case None
    then show ?thesis using Cons assms(1) by auto
  next
    case (Some w)
    then show ?thesis
      using Cons.prems Cons.IH [OF Some] assms(1) [of w z] assms(1) [of z z] assms(2) [of y z w] by (cases "lt w z") auto
  qed
qed simp

lemma selected_candidate:
  assumes "selectOwner sha prin g candidates None = Inr owner"
  obtains c where "c \<in> set candidates" "eligible c" "os_Owner c = owner"
    "\<forall>d \<in> set candidates. eligible d \<longrightarrow> \<not> candidate_less sha g d c"
proof -
  from assms obtain c where c: "least (candidate_less sha g) (filter eligible candidates) = Some c" "os_Owner c = owner"
    by (auto simp: selectOwner_def split: option.splits)
  from least_member [OF c(1)] least_minimal [OF candidate_less_asym candidate_less_weak c(1)] c(2) that show thesis
    by auto
qed

lemma selectOwner_Inr: "(\<exists>owner. selectOwner sha prin g candidates None = Inr owner) \<longleftrightarrow> (\<exists>c \<in> set candidates. eligible c)"
  using least_None [of "candidate_less sha g" "filter eligible candidates"]
  by (cases "least (candidate_less sha g) (filter eligible candidates)") (auto simp: selectOwner_def filter_empty_conv)

text \<open>With one entry per identity, the selected owner is the one that comes before all others.\<close>

lemma candidate_less_iff:
  "candidate_less sha g a b \<longleftrightarrow>
     rendezvous sha g (os_Owner b) < rendezvous sha g (os_Owner a)
     \<or> rendezvous sha g (os_Owner b) = rendezvous sha g (os_Owner a)
       \<and> (string_bytes (ow_ID (os_Owner a)) < string_bytes (ow_ID (os_Owner b))
           \<or> ow_ID (os_Owner a) = ow_ID (os_Owner b) \<and> ow_Incarnation (os_Owner a) < ow_Incarnation (os_Owner b))"
  by (auto simp: candidate_less_def Let_def)

lemma selected_first:
  assumes "\<forall>c \<in> set candidates. \<forall>d \<in> set candidates. same_owner (os_Owner c) (os_Owner d) \<longrightarrow> c = d"
  shows "selectOwner sha prin g candidates None = Inr owner \<longleftrightarrow>
    (\<exists>c \<in> set candidates. eligible c \<and> os_Owner c = owner \<and> (\<forall>d \<in> set candidates. eligible d \<and> d \<noteq> c \<longrightarrow> candidate_less sha g c d))"
proof
  assume "selectOwner sha prin g candidates None = Inr owner"
  then obtain c where c: "c \<in> set candidates" "eligible c" "os_Owner c = owner" "\<forall>d \<in> set candidates. eligible d \<longrightarrow> \<not> candidate_less sha g d c"
    by (rule selected_candidate)
  have "candidate_less sha g c d" if "d \<in> set candidates" "eligible d" "d \<noteq> c" for d
    using that c assms candidate_less_total [of c d sha g] by blast
  with c show "\<exists>c \<in> set candidates. eligible c \<and> os_Owner c = owner \<and> (\<forall>d \<in> set candidates. eligible d \<and> d \<noteq> c \<longrightarrow> candidate_less sha g c d)"
    by blast
next
  assume "\<exists>c \<in> set candidates. eligible c \<and> os_Owner c = owner \<and> (\<forall>d \<in> set candidates. eligible d \<and> d \<noteq> c \<longrightarrow> candidate_less sha g c d)"
  then obtain c where c: "c \<in> set candidates" "eligible c" "os_Owner c = owner" "\<forall>d \<in> set candidates. eligible d \<and> d \<noteq> c \<longrightarrow> candidate_less sha g c d"
    by blast
  then obtain owner' where owner': "selectOwner sha prin g candidates None = Inr owner'"
    using selectOwner_Inr [of sha prin g candidates] by blast
  then obtain d where "d \<in> set candidates" "eligible d" "os_Owner d = owner'" "\<forall>e \<in> set candidates. eligible e \<longrightarrow> \<not> candidate_less sha g e d"
    by (rule selected_candidate)
  with c owner' show "selectOwner sha prin g candidates None = Inr owner"
    by (cases "d = c") auto
qed

text \<open>Distinct pairs of a group and an owner are hashed from distinct buffers.\<close>

lemma rendezvous_input_inject:
  assumes "rendezvous_input g owner = rendezvous_input h other"
    and "length (ai_ID (gi_App g)) < 2 ^ 62" "length (gi_Key g) < 2 ^ 62" "length (ow_ID owner) < 2 ^ 62"
    and "length (ai_ID (gi_App h)) < 2 ^ 62" "length (gi_Key h) < 2 ^ 62" "length (ow_ID other) < 2 ^ 62"
  shows "key g = key h \<and> same_owner owner other"
proof -
  have eq: "frame (ai_ID (gi_App g)) @ frame (gi_Key g) @ frame (ow_ID owner) @ ow_Incarnation owner
      = frame (ai_ID (gi_App h)) @ frame (gi_Key h) @ frame (ow_ID other) @ ow_Incarnation other"
    using assms by (simp add: rendezvous_input_frames)
  note 1 = frame_inject [OF eq assms(2,5)]
  note 2 = frame_inject [OF conjunct2 [OF 1] assms(3,6)]
  note 3 = frame_inject [OF conjunct2 [OF 2] assms(4,7)]
  from 1 2 3 show ?thesis
    by (simp add: key_def same_owner_def)
qed

section \<open>Resolution over a shared store\<close>

context assignment_store
begin

text \<open>A configuration whose store is this one, called with one context.\<close>

definition uses_store :: "'s BootstrapConfig \<Rightarrow> bool" where
  "uses_store config \<longleftrightarrow>
     (\<exists>ctx. bc_Store config = Some \<lparr>st_Assign = assign ctx, st_Get = get ctx, st_Close = close ctx\<rparr>)"

lemma resolve_group_view:
  assumes "resolve_group sha config statuses s1 s2 prin g = (Inr owner, s')" "uses_store config"
  obtains a where "view s' (key g) = Some a" "as_Owner a = owner" "\<not> as_Closed a"
    "view s1 (key g) = Some a \<and> s' = s1 \<or> view s2 (key g) = Some a \<or> view s2 (key g) = None"
proof -
  from assms(2) obtain ctx where store: "bc_Store config = Some \<lparr>st_Assign = assign ctx, st_Get = get ctx, st_Close = close ctx\<rparr>"
    by (auto simp: uses_store_def)
  show thesis
  proof (cases "get ctx s1 g")
    case (Inr a)
    then show thesis
      using assms(1) store get_ok [OF Inr] that by (auto simp: resolve_group_def split: if_splits)
  next
    case (Inl err)
    with assms(1) store obtain candidate a where a: "assign ctx s2 g candidate = (Inr a, s')" "as_Owner a = owner"
      by (auto simp: resolve_group_def split: if_splits sum.splits prod.splits)
    from assign_ok [OF a(1)] a(2) that show thesis
      by auto
  qed
qed

lemma Resolve_group:
  assumes "Resolve sha config random clock s1 s2 prin groupKey = (Inr p, s')" "groupKey \<noteq> []"
  obtains statuses where
    "resolve_group sha config statuses s1 s2 prin \<lparr>gi_App = bc_App config, gi_Key = groupKey\<rparr> = (Inr (pl_Owner p), s')"
    "bc_Registry config = Some (Inr statuses)"
    "issue_ticket config statuses (fst (snd clock)) (snd (snd clock)) prin groupKey (pl_Owner p) = Inr p"
proof -
  obtain now1 now2 now3 where clock: "clock = (now1, now2, now3)"
    using prod_cases3 by blast
  from assms obtain statuses owner where r: "bc_Registry config = Some (Inr statuses)"
      "resolve_group sha config statuses s1 s2 prin \<lparr>gi_App = bc_App config, gi_Key = groupKey\<rparr> = (Inr owner, s')"
      "issue_ticket config statuses now2 now3 prin groupKey owner = Inr p"
    by (auto simp: Resolve_def clock split: if_splits option.splits sum.splits prod.splits)
  from r(3) have "pl_Owner p = owner"
    by (auto simp: issue_ticket_def Let_def split: option.splits if_splits)
  with r that show thesis
    by (simp add: clock)
qed

text \<open>What a successful resolution says about any later state of the store.\<close>

lemma Resolve_owner_later:
  assumes "Resolve sha config random clock s1 s2 prin groupKey = (Inr p, s')" "groupKey \<noteq> []" "uses_store config"
    and "store_step\<^sup>*\<^sup>* s' u"
  shows "\<exists>a. view u (ai_ID (bc_App config), groupKey) = Some a \<and> as_Owner a = pl_Owner p"
proof -
  let ?g = "\<lparr>gi_App = bc_App config, gi_Key = groupKey\<rparr>"
  from assms(1,2) obtain statuses where "resolve_group sha config statuses s1 s2 prin ?g = (Inr (pl_Owner p), s')"
    by (rule Resolve_group)
  from this assms(3) obtain a where "view s' (key ?g) = Some a" "as_Owner a = pl_Owner p"
    by (rule resolve_group_view)
  with extendsD [OF steps_extend [OF assms(4)]] show ?thesis
    by (force simp: key_def)
qed

text \<open>Once a group is closed, no resolution that starts later succeeds.\<close>

lemma Resolve_closed:
  assumes "close ctx c \<lparr>gi_App = app, gi_Key = groupKey\<rparr> expected = (None, c')" "groupKey \<noteq> []" "uses_store config"
    and "ai_ID (bc_App config) = ai_ID app" "store_step\<^sup>*\<^sup>* c' s1" "store_step\<^sup>*\<^sup>* c' s2"
  shows "\<exists>e. fst (Resolve sha config random clock s1 s2 prin groupKey) = Inl e"
proof (rule ccontr)
  let ?g = "\<lparr>gi_App = bc_App config, gi_Key = groupKey\<rparr>"
  assume "\<nexists>e. fst (Resolve sha config random clock s1 s2 prin groupKey) = Inl e"
  then obtain p s' where "Resolve sha config random clock s1 s2 prin groupKey = (Inr p, s')"
    by (metis fst_conv old.sum.exhaust surj_pair)
  from this assms(2) obtain statuses where "resolve_group sha config statuses s1 s2 prin ?g = (Inr (pl_Owner p), s')"
    by (rule Resolve_group)
  from this assms(3) obtain a where a: "view s' (key ?g) = Some a" "\<not> as_Closed a"
      "view s1 (key ?g) = Some a \<and> s' = s1 \<or> view s2 (key ?g) = Some a \<or> view s2 (key ?g) = None"
    by (rule resolve_group_view)
  from close_ok [OF assms(1)] obtain b where "view c' (key ?g) = Some b" "as_Closed b"
    using assms(4) by (auto simp: key_def)
  with extendsD [OF steps_extend [OF assms(5)]] extendsD [OF steps_extend [OF assms(6)]] a show False
    by (metis option.distinct(1) option.inject)
qed

end

section \<open>Properties\<close>

text \<open>A bootstrap configuration over the in-memory store, with the context of its calls.\<close>

definition memory_store :: "ctx_error option \<Rightarrow> Store AssignmentStore" where
  "memory_store ctx = \<lparr>st_Assign = Assign ctx, st_Get = Get ctx, st_Close = Close_store ctx\<rparr>"

lemma uses_memory: "bc_Store config = Some (memory_store ctx) \<Longrightarrow> memory.uses_store config"
  by (auto simp: memory.uses_store_def memory_store_def)

text \<open>
  C5. A group has one owner: two resolutions of the same group of an application, by any two bootstrap
  servers over one store, interleaved in any way with each other and with other users of the store,
  place the group on the same owner when both succeed; and no resolution that starts after the group
  was closed succeeds. \<open>u\<close> is any state of the store after both.
\<close>

theorem group_has_one_owner:
  assumes "bc_Store config = Some (memory_store ctx)" "bc_Store config' = Some (memory_store ctx')"
    and "ai_ID (bc_App config) = ai_ID (bc_App config')" "groupKey \<noteq> []"
    and "Resolve sha config random clock s1 s2 prin groupKey = (Inr p, s)" "memory_step\<^sup>*\<^sup>* s u"
    and "Resolve sha' config' random' clock' t1 t2 prin' groupKey = (Inr q, t)" "memory_step\<^sup>*\<^sup>* t u"
  shows "pl_Owner p = pl_Owner q
    \<and> (\<forall>c v1 v2. fst (CloseGroup_bootstrap config u groupKey c) = None
          \<and> memory_step\<^sup>*\<^sup>* (snd (CloseGroup_bootstrap config u groupKey c)) v1
          \<and> memory_step\<^sup>*\<^sup>* (snd (CloseGroup_bootstrap config u groupKey c)) v2
        \<longrightarrow> (\<exists>e. fst (Resolve sha' config' random' clock' v1 v2 prin' groupKey) = Inl e))"
proof -
  note uses = uses_memory [OF assms(1)] uses_memory [OF assms(2)]
  from memory.Resolve_owner_later [OF assms(5,4) uses(1) assms(6)] memory.Resolve_owner_later [OF assms(7,4) uses(2) assms(8)]
  have "pl_Owner p = pl_Owner q"
    using assms(3) by auto
  moreover have "\<exists>e. fst (Resolve sha' config' random' clock' v1 v2 prin' groupKey) = Inl e"
    if closed: "fst (CloseGroup_bootstrap config u groupKey c) = None"
      "memory_step\<^sup>*\<^sup>* (snd (CloseGroup_bootstrap config u groupKey c)) v1"
      "memory_step\<^sup>*\<^sup>* (snd (CloseGroup_bootstrap config u groupKey c)) v2" for c v1 v2
  proof -
    have "CloseGroup_bootstrap config u groupKey c = Close_store ctx u \<lparr>gi_App = bc_App config, gi_Key = groupKey\<rparr> c"
      using assms(1,4) by (simp add: CloseGroup_bootstrap_def memory_store_def)
    with closed memory.Resolve_closed [OF _ assms(4) uses(2) assms(3) [symmetric]] show ?thesis
      by (metis prod.collapse)
  qed
  ultimately show ?thesis
    by blast
qed

definition sample_owner :: "string \<Rightarrow> Owner" where
  "sample_owner name = \<lparr>ow_ID = name, ow_Incarnation = [1], ow_Endpoint = \<lparr>ep_Address = ''h'', ep_ServerName = ''h''\<rparr>\<rparr>"

definition sample_status :: "string \<Rightarrow> OwnerStatus" where
  "sample_status name = \<lparr>os_Owner = sample_owner name, os_Healthy = True, os_Draining = False, os_HasCapacity = True\<rparr>"

definition sample_bootstrap :: "string list \<Rightarrow> Store BootstrapConfig" where
  "sample_bootstrap names = \<lparr>bc_App = \<lparr>ai_ID = ''app'', ai_Version = ''1''\<rparr>, bc_Store = Some (memory_store None),
     bc_Registry = Some (Inr (map sample_status names)), bc_Selector = None, bc_Signer = Some (\<lambda>a. Inr ''ticket''),
     bc_AuthorizeGroup = None\<rparr>"

definition sample_principal :: Principal where
  "sample_principal = \<lparr>pr_Issuer = ''i'', pr_Subject = ''s'', pr_ExpiresAt = 100, pr_Attributes = None\<rparr>"

lemmas placement_eval = Resolve_def resolve_group_def issue_ticket_def selectOwner_def matchingStatus_def same_owner_def
  eligible_def sample_bootstrap_def sample_status_def sample_owner_def sample_principal_def memory_store_def
  Get_def Assign_def NewStore_def DefaultMaxAssignments_def validGroup_def validOwner_def version_def key_def
  ErrAssignmentNotFound_def codeError_def Let_def

text \<open>
  The second bootstrap server knows a second owner, which wins its selection; it still returns the
  first.
\<close>

theorem group_has_one_owner_witness:
  "\<exists>p s q t. Resolve (\<lambda>bs. bs) (sample_bootstrap [''a'']) (Inr []) (1, 2, 3) (NewStore []) (NewStore []) sample_principal ''g'' = (Inr p, s)
    \<and> Resolve (\<lambda>bs. bs) (sample_bootstrap [''b'', ''a'']) (Inr []) (4, 5, 6) s s sample_principal ''g'' = (Inr q, t)
    \<and> pl_Owner p = pl_Owner q \<and> pl_Owner q = sample_owner ''a''"
proof -
  obtain p s where p: "Resolve (\<lambda>bs. bs) (sample_bootstrap [''a'']) (Inr []) (1, 2, 3) (NewStore []) (NewStore []) sample_principal ''g'' = (Inr p, s)"
      "pl_Owner p = sample_owner ''a''" "map_of (ms_assignments s) (''app'', ''g'')
        = Some \<lparr>as_Group = \<lparr>gi_App = \<lparr>ai_ID = ''app'', ai_Version = ''1''\<rparr>, gi_Key = ''g''\<rparr>, as_Owner = sample_owner ''a'', as_Closed = False\<rparr>"
    by (simp add: placement_eval)
  from p(3) obtain q where q: "Resolve (\<lambda>bs. bs) (sample_bootstrap [''b'', ''a'']) (Inr []) (4, 5, 6) s s sample_principal ''g'' = (Inr q, s)"
    by (simp add: placement_eval)
  have config: "bc_Store (sample_bootstrap ns) = Some (memory_store None)" "bc_App (sample_bootstrap ns) = \<lparr>ai_ID = ''app'', ai_Version = ''1''\<rparr>" for ns
    by (simp_all add: sample_bootstrap_def)
  from group_has_one_owner [OF config(1) config(1) _ _ p(1) _ q, of s] have "pl_Owner p = pl_Owner q"
    by (simp add: config(2))
  with p q show ?thesis
    by auto
qed

text \<open>
  C38. Selection by rendezvous hashing, with one entry per owner identity: an owner is selected exactly when it is an eligible candidate
  whose hash for the group is the greatest, ties going to the smaller identifier and then to the smaller incarnation; selection
  fails with \<open>ErrServerUnavailable\<close> exactly when no candidate is eligible. So the choice does not depend on the order of the candidates
  or on the principal; it stays when other candidates disappear or become ineligible; and a new candidate either leaves it or is
  selected itself.
\<close>

theorem rendezvous_selection_stable:
  assumes "\<forall>c \<in> set candidates. \<forall>d \<in> set candidates. same_owner (os_Owner c) (os_Owner d) \<longrightarrow> c = d"
  shows "(selectOwner sha prin g candidates None = Inr owner \<longleftrightarrow>
        (\<exists>c \<in> set candidates. eligible c \<and> os_Owner c = owner
          \<and> (\<forall>d \<in> set candidates. eligible d \<and> d \<noteq> c \<longrightarrow>
               rendezvous sha g (os_Owner d) < rendezvous sha g owner
               \<or> rendezvous sha g (os_Owner d) = rendezvous sha g owner
                 \<and> (string_bytes (ow_ID owner) < string_bytes (ow_ID (os_Owner d))
                     \<or> ow_ID owner = ow_ID (os_Owner d) \<and> ow_Incarnation owner < ow_Incarnation (os_Owner d)))))
    \<and> (selectOwner sha prin g candidates None = Inl ErrServerUnavailable \<longleftrightarrow> \<not> (\<exists>c \<in> set candidates. eligible c))
    \<and> (\<forall>others prin'. selectOwner sha prin g candidates None = Inr owner \<and> set others \<subseteq> set candidates \<and> owner \<in> os_Owner ` set (filter eligible others)
        \<longrightarrow> selectOwner sha prin' g others None = Inr owner)
    \<and> (\<forall>rest c. candidates = c # rest \<and> selectOwner sha prin g rest None = Inr owner
        \<longrightarrow> selectOwner sha prin g candidates None \<in> {Inr owner, Inr (os_Owner c)})"
proof (intro conjI allI impI)
  show "selectOwner sha prin g candidates None = Inr owner \<longleftrightarrow>
      (\<exists>c \<in> set candidates. eligible c \<and> os_Owner c = owner
        \<and> (\<forall>d \<in> set candidates. eligible d \<and> d \<noteq> c \<longrightarrow>
             rendezvous sha g (os_Owner d) < rendezvous sha g owner
             \<or> rendezvous sha g (os_Owner d) = rendezvous sha g owner
               \<and> (string_bytes (ow_ID owner) < string_bytes (ow_ID (os_Owner d))
                   \<or> ow_ID owner = ow_ID (os_Owner d) \<and> ow_Incarnation owner < ow_Incarnation (os_Owner d))))"
    using selected_first [OF assms, of sha prin g owner] by (auto simp: candidate_less_iff)
  show "selectOwner sha prin g candidates None = Inl ErrServerUnavailable \<longleftrightarrow> \<not> (\<exists>c \<in> set candidates. eligible c)"
    using selectOwner_Inr [of sha prin g candidates] by (auto simp: selectOwner_def filter_empty_conv split: option.splits)
next
  fix others prin'
  assume a: "selectOwner sha prin g candidates None = Inr owner \<and> set others \<subseteq> set candidates \<and> owner \<in> os_Owner ` set (filter eligible others)"
  then have "\<forall>c \<in> set others. \<forall>d \<in> set others. same_owner (os_Owner c) (os_Owner d) \<longrightarrow> c = d"
    using assms by blast
  note first = selected_first [OF this, of sha prin' g owner]
  from a selected_first [OF assms, of sha prin g owner] obtain c where
    c: "c \<in> set candidates" "os_Owner c = owner" "\<forall>d \<in> set candidates. eligible d \<and> d \<noteq> c \<longrightarrow> candidate_less sha g c d"
    by auto
  from a obtain c' where c': "c' \<in> set others" "eligible c'" "os_Owner c' = owner"
    by auto
  have sub: "set others \<subseteq> set candidates"
    using a by blast
  have "same_owner (os_Owner c') (os_Owner c)"
    by (simp add: same_owner_def c'(3) c(2))
  then have "c' = c"
    using assms c(1) c'(1) sub by blast
  then show "selectOwner sha prin' g others None = Inr owner"
    using c' c(3) sub by (subst first) blast
next
  fix rest c
  assume a: "candidates = c # rest \<and> selectOwner sha prin g rest None = Inr owner"
  then have some: "\<exists>owner'. selectOwner sha prin g candidates None = Inr owner'"
    using selectOwner_Inr [of sha prin g candidates] selectOwner_Inr [of sha prin g rest] by auto
  then obtain owner' where owner': "selectOwner sha prin g candidates None = Inr owner'"
    by blast
  have rest: "\<forall>c \<in> set rest. \<forall>d \<in> set rest. same_owner (os_Owner c) (os_Owner d) \<longrightarrow> c = d"
    using assms a by auto
  from owner' selected_first [OF assms, of sha prin g owner'] obtain d where
    d: "d \<in> set candidates" "eligible d" "os_Owner d = owner'" "\<forall>e \<in> set candidates. eligible e \<and> e \<noteq> d \<longrightarrow> candidate_less sha g d e"
    by auto
  have "owner' = owner" if "d \<noteq> c"
  proof -
    have "d \<in> set rest" "set rest \<subseteq> set candidates"
      using d(1) a that by auto
    then have "selectOwner sha prin g rest None = Inr owner'"
      using d(2-4) by (subst selected_first [OF rest]) blast
    then show ?thesis
      using a by simp
  qed
  then have "owner' \<in> {owner, os_Owner c}"
    using d(3) by (cases "d = c") simp_all
  then show "selectOwner sha prin g candidates None \<in> {Inr owner, Inr (os_Owner c)}"
    unfolding owner' by simp
qed

theorem rendezvous_selection_stable_witness:
  "selectOwner (\<lambda>bs. bs) sample_principal \<lparr>gi_App = \<lparr>ai_ID = ''app'', ai_Version = ''1''\<rparr>, gi_Key = ''g''\<rparr>
     (map sample_status [''a'', ''b'']) None = Inr (sample_owner ''b'')"
proof -
  let ?g = "\<lparr>gi_App = \<lparr>ai_ID = ''app'', ai_Version = ''1''\<rparr>, gi_Key = ''g''\<rparr>"
  have one: "\<forall>c \<in> set (map sample_status [''a'', ''b'']). \<forall>d \<in> set (map sample_status [''a'', ''b'']).
      same_owner (os_Owner c) (os_Owner d) \<longrightarrow> c = d"
    by (simp add: sample_status_def sample_owner_def same_owner_def)
  have "rendezvous (\<lambda>bs. bs) ?g (sample_owner ''a'') < rendezvous (\<lambda>bs. bs) ?g (sample_owner ''b'')"
    by code_simp
  with conjunct1 [OF rendezvous_selection_stable [OF one, of "\<lambda>bs. bs" sample_principal ?g "sample_owner ''b''"]] show ?thesis
    by (simp add: sample_status_def eligible_def)
qed

end
