(* ===== verification/Tickets.thy ===== *)
theory Tickets
  imports Jwt Placement Server
begin

text \<open>
  Admission tickets from end to end: the placement service signs a ticket for the owner it selected, the client
  presents it in its hello, and a game server admits exactly what the ticket names.
\<close>

text \<open>A resolved placement carries a ticket its signer made for it, within thirty seconds and the principal's life.\<close>

lemma Resolve_ticket:
  assumes "Resolve sha config random clock s1 s2 prin groupKey = (Inr placement, s')" "bc_Signer config = Some sign" "clock = (now1, now2, now3)"
  shows "pl_GroupKey placement = groupKey \<and> pl_ExpiresAt placement \<le> now2 + 30 * Second \<and> pl_ExpiresAt placement \<le> pr_ExpiresAt prin
    \<and> now3 < pl_ExpiresAt placement
    \<and> sign \<lparr>ad_App = bc_App config, ad_PrincipalIssuer = pr_Issuer prin, ad_Subject = pr_Subject prin, ad_GroupKey = groupKey,
         ad_Owner = pl_Owner placement, ad_ExpiresAt = pl_ExpiresAt placement\<rparr> = Inr (pl_AdmissionTicket placement)"
proof -
  obtain statuses owner where "issue_ticket config statuses now2 now3 prin groupKey owner = Inr placement"
    using assms(1,3) by (auto simp: Resolve_def split: if_splits option.splits sum.splits prod.splits)
  then show ?thesis
    using assms(2) by (auto simp: issue_ticket_def Let_def split: option.splits if_splits)
qed

section \<open>Properties\<close>

text \<open>
  C4. A ticket admits its bearer to what it names and to nothing else: a game server that requires admission and
  trusts the signer's key accepts a ticket of the placement service exactly when application, principal, owner
  (with its incarnation) and group are those of the placement, the ticket's last whole second has not begun to
  pass, and the group is still authorized. A ticket lives at most thirty seconds and no longer than the principal's
  credential; a group that is closed after the placement is remembered five seconds longer than the ticket lives.
\<close>

theorem ticket_end_to_end:
  assumes lib: "library_ok lib ac_registered"
    and placed: "Resolve sha config random (now1, now2, now3) s1 s2 bprin groupKey = (Inr placement, s')"
      "bc_Signer config = Some (Sign lib signer snow (Inr jti))" "jti \<noteq> []" "length (ow_Incarnation (pl_Owner placement)) = 16"
    and keys: "NewAdmissionSigner signer = Inr signer" "ve_issuer v = si_issuer signer" "ve_audience v = si_audience signer"
      "map_of (ve_keys v) (si_keyID signer) = Some (public lib (si_private signer))"
    and server: "sc_Role scfg = GameRole" "sc_Admission scfg = Some (Verify lib v vnow)" "sc_AuthorizeGroup scfg = Some authorize"
    and hello: "sc_RequireAdmission scfg \<or> he_Group hello \<noteq> []" "he_Admission hello = pl_AdmissionTicket placement" "he_Admission hello \<noteq> []"
    and clock: "snow - 5 * Second \<le> vnow" "whole snow < whole (pl_ExpiresAt placement)"
  shows "(authorizeAdmission now scfg owner hello prin = None \<longleftrightarrow>
      sc_App scfg = bc_App config \<and> pr_Issuer prin = pr_Issuer bprin \<and> pr_Subject prin = pr_Subject bprin
      \<and> owner = pl_Owner placement \<and> he_Group hello = groupKey
      \<and> vnow < whole (pl_ExpiresAt placement) \<and> now < whole (pl_ExpiresAt placement) \<and> authorize prin groupKey = None)
    \<and> pl_ExpiresAt placement \<le> now2 + 30 * Second \<and> pl_ExpiresAt placement \<le> pr_ExpiresAt bprin
    \<and> (\<forall>(s :: ('a, 'h) serverEndpoint) state closing p. now2 \<le> closing \<and> sv_groupTTL s = 35 * Second
        \<and> map_of (sv_groups s) groupKey = Some state \<and> gs_ptr state = p \<and> gs_closed state \<and> \<not> gs_persisted state
        \<longrightarrow> (\<exists>state' t. map_of (sv_groups (retainClosedGroup closing groupKey p s)) groupKey = Some state' \<and> gs_closed state'
              \<and> gs_timer state' = Some t \<and> pl_ExpiresAt placement + 5 * Second \<le> t))"
proof (intro conjI)
  let ?a = "\<lparr>ad_App = bc_App config, ad_PrincipalIssuer = pr_Issuer bprin, ad_Subject = pr_Subject bprin, ad_GroupKey = groupKey,
         ad_Owner = pl_Owner placement, ad_ExpiresAt = pl_ExpiresAt placement\<rparr>"
  have ticket: "pl_ExpiresAt placement \<le> now2 + 30 * Second" "pl_ExpiresAt placement \<le> pr_ExpiresAt bprin"
      "Sign lib signer snow (Inr jti) ?a = Inr (pl_AdmissionTicket placement)"
    using Resolve_ticket [OF placed(1,2) refl] by auto
  show "pl_ExpiresAt placement \<le> now2 + 30 * Second" "pl_ExpiresAt placement \<le> pr_ExpiresAt bprin"
    by (fact ticket)+
  show "\<forall>(s :: ('a, 'h) serverEndpoint) state closing p. now2 \<le> closing \<and> sv_groupTTL s = 35 * Second
        \<and> map_of (sv_groups s) groupKey = Some state \<and> gs_ptr state = p \<and> gs_closed state \<and> \<not> gs_persisted state
        \<longrightarrow> (\<exists>state' t. map_of (sv_groups (retainClosedGroup closing groupKey p s)) groupKey = Some state' \<and> gs_closed state'
              \<and> gs_timer state' = Some t \<and> pl_ExpiresAt placement + 5 * Second \<le> t)"
    using ticket(1) by (auto simp: retainClosedGroup_def update_conv')
  have keyID: "si_keyID signer \<noteq> []"
    using keys(1) by (auto simp: NewAdmissionSigner_def split: if_splits)
  show "authorizeAdmission now scfg owner hello prin = None \<longleftrightarrow>
      sc_App scfg = bc_App config \<and> pr_Issuer prin = pr_Issuer bprin \<and> pr_Subject prin = pr_Subject bprin
      \<and> owner = pl_Owner placement \<and> he_Group hello = groupKey
      \<and> vnow < whole (pl_ExpiresAt placement) \<and> now < whole (pl_ExpiresAt placement) \<and> authorize prin groupKey = None"
  proof (cases "vnow < whole (pl_ExpiresAt placement)")
    case True
    have "Verify lib v vnow (pl_AdmissionTicket placement) = Inr (?a\<lparr>ad_ExpiresAt := whole (ad_ExpiresAt ?a)\<rparr>)"
      by (rule Verify_signed [OF lib ticket(3) placed(3)]) (use placed(4) keys keyID clock True in simp_all)
    with True server hello show ?thesis
      by (auto simp: authorizeAdmission_def)
  next
    case False
    then obtain err where "Verify lib v vnow (pl_AdmissionTicket placement) = Inl err"
      using Verify_expired [OF lib ticket(3), of vnow v] by auto
    with False server hello show ?thesis
      by (auto simp: authorizeAdmission_def)
  qed
qed

text \<open>A library that knows one token, and a deployment that uses it.\<close>

definition ticket_signer :: AdmissionSigner where
  "ticket_signer = \<lparr>si_issuer = ''place'', si_audience = ''app'', si_keyID = ''k'', si_private = replicate 64 1\<rparr>"

definition ticket_header :: tokenHeader where
  "ticket_header = \<lparr>th_alg = ''EdDSA'', th_typ = Some admissionType, th_kid = Some ''k''\<rparr>"

definition ticket_owner :: Owner where
  "ticket_owner = \<lparr>ow_ID = ''o'', ow_Incarnation = replicate 16 1, ow_Endpoint = \<lparr>ep_Address = ''h'', ep_ServerName = ''h''\<rparr>\<rparr>"

definition ticket_principal :: Principal where
  "ticket_principal = \<lparr>pr_Issuer = ''i'', pr_Subject = ''s'', pr_ExpiresAt = 100 * Second, pr_Attributes = None\<rparr>"

definition ticket_claims :: admissionClaims where
  "ticket_claims = admission_claims (\<lambda>t. whole t) ticket_signer 0 [9]
     \<lparr>ad_App = \<lparr>ai_ID = ''app'', ai_Version = ''1''\<rparr>, ad_PrincipalIssuer = ''i'', ad_Subject = ''s'', ad_GroupKey = [], ad_Owner = ticket_owner,
      ad_ExpiresAt = 30 * Second\<rparr>"

definition ticket_library :: "admissionClaims jwt_library" where
  "ticket_library =
     \<lparr>ParseWithClaims = (\<lambda>opts keyfunc token.
        if token = ''t'' \<and> keyfunc ticket_header = Inr (replicate 32 2) \<and> ''EdDSA'' \<in> set (po_ValidMethods opts) \<and> library_valid opts (ac_registered ticket_claims)
        then Inr ticket_claims else Inl (OtherError ''invalid'')),
      SignedString = (\<lambda>private header claims.
        if private = replicate 64 1 \<and> header = ticket_header \<and> claims = ticket_claims then Inr ''t'' else Inl (OtherError ''unknown'')),
      NewNumericDate = (\<lambda>t. whole t), public = (\<lambda>_. replicate 32 2)\<rparr>"

definition ticket_bootstrap :: "unit BootstrapConfig" where
  "ticket_bootstrap = \<lparr>bc_App = \<lparr>ai_ID = ''app'', ai_Version = ''1''\<rparr>, bc_Store = None,
     bc_Registry = Some (Inr [\<lparr>os_Owner = ticket_owner, os_Healthy = True, os_Draining = False, os_HasCapacity = True\<rparr>]),
     bc_Selector = None, bc_Signer = Some (Sign ticket_library ticket_signer 0 (Inr [9])), bc_AuthorizeGroup = None\<rparr>"

definition ticket_verifier :: verifier where
  "ticket_verifier = \<lparr>ve_issuer = ''place'', ve_audience = ''app'', ve_keys = [(''k'', replicate 32 2)]\<rparr>"

definition ticket_game :: "unit ServerConfig" where
  "ticket_game = \<lparr>sc_Role = GameRole, sc_TLS = None, sc_App = \<lparr>ai_ID = ''app'', ai_Version = ''1''\<rparr>, sc_Owner = ticket_owner, sc_Auth = None,
     sc_AuthorizeGroup = Some (\<lambda>_ _. None), sc_Admission = Some (Verify ticket_library ticket_verifier Second), sc_RequireAdmission = True,
     sc_CommitGroupClose = None, sc_Mode = Polling, sc_Router = None, sc_Limits = DefaultLimits\<rparr>"

definition ticket_hello :: helloMessage where
  "ticket_hello = \<lparr>he_Op = ''hello'', he_Role = ''game'', he_App = \<lparr>ai_ID = ''app'', ai_Version = ''1''\<rparr>, he_AppID = [], he_AppVersion = [],
     he_Required = [], he_Limits = limitMessageFrom DefaultLimits, he_Credential = \<lparr>cm_Scheme = [], cm_Data = []\<rparr>, he_Group = [],
     he_Admission = ''t'', he_Resume = None\<rparr>"

lemma ticket_library_ok: "library_ok ticket_library ac_registered"
  unfolding library_ok_def by (auto simp: ticket_library_def ticket_header_def split: if_splits)

lemma ticket_placed: "Resolve (\<lambda>b. b) ticket_bootstrap (Inr [5]) (0, 0, 0) () () ticket_principal []
    = (Inr \<lparr>pl_Owner = ticket_owner, pl_GroupKey = [], pl_AdmissionTicket = ''t'', pl_ExpiresAt = 30 * Second\<rparr>, ())"
proof -
  have "Sign ticket_library ticket_signer 0 (Inr [9])
      \<lparr>ad_App = \<lparr>ai_ID = ''app'', ai_Version = ''1''\<rparr>, ad_PrincipalIssuer = ''i'', ad_Subject = ''s'', ad_GroupKey = [], ad_Owner = ticket_owner,
       ad_ExpiresAt = 30 * Second\<rparr> = Inr ''t''"
    by (simp add: Sign_def ticket_library_def ticket_claims_def ticket_signer_def ticket_header_def ticket_owner_def)
  then show ?thesis
    by (simp add: Resolve_def ticket_bootstrap_def ticket_principal_def selectOwner_def eligible_def issue_ticket_def matchingStatus_def same_owner_def Let_def)
qed

theorem ticket_end_to_end_witness:
  "authorizeAdmission Second ticket_game ticket_owner ticket_hello ticket_principal = None
   \<and> authorizeAdmission (30 * Second) ticket_game ticket_owner ticket_hello ticket_principal \<noteq> None"
proof -
  have keys: "NewAdmissionSigner ticket_signer = Inr ticket_signer" "ve_issuer ticket_verifier = si_issuer ticket_signer"
    "ve_audience ticket_verifier = si_audience ticket_signer"
    "map_of (ve_keys ticket_verifier) (si_keyID ticket_signer) = Some (public ticket_library (si_private ticket_signer))"
    by (simp_all add: NewAdmissionSigner_def ticket_signer_def ticket_verifier_def ticket_library_def)
  have sign: "bc_Signer ticket_bootstrap = Some (Sign ticket_library ticket_signer 0 (Inr [9]))"
    by (simp add: ticket_bootstrap_def)
  have game: "sc_Role ticket_game = GameRole" "sc_Admission ticket_game = Some (Verify ticket_library ticket_verifier Second)"
    "sc_AuthorizeGroup ticket_game = Some (\<lambda>_ _. None)" "sc_RequireAdmission ticket_game \<or> he_Group ticket_hello \<noteq> []"
    by (simp_all add: ticket_game_def)
  have "authorizeAdmission now ticket_game ticket_owner ticket_hello ticket_principal = None \<longleftrightarrow> now < 30 * Second" for now
    using conjunct1 [OF ticket_end_to_end [OF ticket_library_ok ticket_placed sign _ _ keys game, of now ticket_owner ticket_principal]]
    by (simp add: ticket_hello_def ticket_game_def ticket_bootstrap_def ticket_owner_def)
  then show ?thesis
    by simp
qed

end
