(* ===== verification/Resolution.thy ===== *)
theory Resolution
  imports Typed Tickets
begin

text \<open>
  The request by which a client finds the owner of a group: the handler that \<open>Bootstrap.Register\<close> installs, and \<open>Resolve\<close> of a client, in
  \<open>placement/placement.go\<close>. \<open>Resolve\<close> of the bootstrap server is in \<open>Placement\<close>. With it, what a typed call returns.
\<close>

section \<open>The messages\<close>

record resolveRequest =
  rr_Group :: string

record ownerWire =
  wo_ID :: string
  wo_Incarnation :: string
  wo_Address :: string
  wo_ServerName :: string

record resolveReply =
  rp_Owner :: ownerWire
  rp_Group :: string
  rp_Admission :: string
  rp_ExpiresMS :: int

definition request_codec :: "resolveRequest Codec" where
  "request_codec = JSON (\<lambda>r. JObj [(''group'', JStr (rr_Group r))]) [(''group'', text_field (\<lambda>s. rr_Group_update (\<lambda>_. s)))] \<lparr>rr_Group = []\<rparr>"

definition ownerWire_members :: "ownerWire member list" where
  "ownerWire_members =
     [(''id'', text_field (\<lambda>s. wo_ID_update (\<lambda>_. s))), (''incarnation'', text_field (\<lambda>s. wo_Incarnation_update (\<lambda>_. s))),
      (''address'', text_field (\<lambda>s. wo_Address_update (\<lambda>_. s))), (''server_name'', text_field (\<lambda>s. wo_ServerName_update (\<lambda>_. s)))]"

definition ownerWire_json :: "ownerWire \<Rightarrow> json" where
  "ownerWire_json m =
     JObj [(''id'', JStr (wo_ID m)), (''incarnation'', JStr (wo_Incarnation m)), (''address'', JStr (wo_Address m)),
       (''server_name'', JStr (wo_ServerName m))]"

definition reply_json :: "resolveReply \<Rightarrow> json" where
  "reply_json r =
     JObj [(''owner'', ownerWire_json (rp_Owner r)), (''group'', JStr (rp_Group r)), (''admission'', JStr (rp_Admission r)),
       (''expires_unix_ms'', JNum (FormatInt (rp_ExpiresMS r)))]"

definition reply_members :: "resolveReply member list" where
  "reply_members =
     [(''owner'', struct_field ownerWire_members rp_Owner (\<lambda>x. rp_Owner_update (\<lambda>_. x))), (''group'', text_field (\<lambda>s. rp_Group_update (\<lambda>_. s))),
      (''admission'', text_field (\<lambda>s. rp_Admission_update (\<lambda>_. s))), (''expires_unix_ms'', int_field (\<lambda>i. rp_ExpiresMS_update (\<lambda>_. i)))]"

definition reply_zero :: resolveReply where
  "reply_zero = \<lparr>rp_Owner = \<lparr>wo_ID = [], wo_Incarnation = [], wo_Address = [], wo_ServerName = []\<rparr>, rp_Group = [], rp_Admission = [], rp_ExpiresMS = 0\<rparr>"

definition reply_codec :: "resolveReply Codec" where
  "reply_codec = JSON reply_json reply_members reply_zero"

definition ownerWireFrom :: "Owner \<Rightarrow> ownerWire" where
  "ownerWireFrom owner =
     \<lparr>wo_ID = ow_ID owner, wo_Incarnation = hex_EncodeToString (ow_Incarnation owner), wo_Address = ep_Address (ow_Endpoint owner),
      wo_ServerName = ep_ServerName (ow_Endpoint owner)\<rparr>"

definition wire_toOwner :: "ownerWire \<Rightarrow> error + Owner" where
  "wire_toOwner w =
     (case hex_DecodeString (wo_Incarnation w) of
        Some decoded \<Rightarrow>
          if length decoded \<noteq> 16 \<or> wo_ID w = [] \<or> wo_Address w = [] \<or> wo_ServerName w = [] then Inl (OtherError ''invalid placement owner'')
          else Inr \<lparr>ow_ID = wo_ID w, ow_Incarnation = decoded, ow_Endpoint = \<lparr>ep_Address = wo_Address w, ep_ServerName = wo_ServerName w\<rparr>\<rparr>
      | None \<Rightarrow> Inl (OtherError ''invalid placement owner''))"

section \<open>The handler\<close>

text \<open>\<open>Fail\<close> refuses the code \<open>Normal\<close>, so an error of that code leaves the request unanswered.\<close>

definition failing :: "Code \<Rightarrow> string \<Rightarrow> (Code \<times> bytes) list" where
  "failing c message = (if c = Normal then [] else [(c, string_bytes message)])"

definition resolve_handler :: "(Principal \<Rightarrow> string \<Rightarrow> error + Placement) \<Rightarrow> (nat \<Rightarrow> Principal) \<Rightarrow> answering" where
  "resolve_handler resolve principal_of i =
     (case co_Decode request_codec (in_Payload i) of
        Inl _ \<Rightarrow> failing InvalidArgument ''invalid resolve request''
      | Inr request \<Rightarrow>
          (case resolve (principal_of (in_Session i)) (rr_Group request) of
             Inl err \<Rightarrow> failing (errorCode err) ''placement unavailable''
           | Inr placement \<Rightarrow>
               (case co_Encode reply_codec
                       \<lparr>rp_Owner = ownerWireFrom (pl_Owner placement), rp_Group = pl_GroupKey placement,
                        rp_Admission = pl_AdmissionTicket placement, rp_ExpiresMS = UnixMilli (pl_ExpiresAt placement)\<rparr> of
                  Inl _ \<Rightarrow> failing Internal ''encode placement''
                | Inr payload \<Rightarrow> [(Normal, payload)])),
      False)"

definition Register :: "(Principal \<Rightarrow> string \<Rightarrow> error + Placement) option \<Rightarrow> (nat \<Rightarrow> Principal) \<Rightarrow> answering Router option \<Rightarrow>
  error option \<times> answering Router option" where
  "Register b principal_of router =
     (case (b, router) of
        (Some resolve, Some r) \<Rightarrow> map_prod (\<lambda>e. e) Some (OnRequest r 1 (Some (resolve_handler resolve principal_of)))
      | _ \<Rightarrow> (Some ErrInvalidArgument, router))"

section \<open>The client\<close>

record ResolveConfig =
  rc_App :: AppIdentity
  rc_TLS :: "tlsConfig option"
  rc_Credentials :: "(error + Credential) option"
  rc_GroupKey :: string

text \<open>The configuration with which the client dials.\<close>

definition resolve_config :: "ResolveConfig \<Rightarrow> 'h ClientConfig" where
  "resolve_config config =
     \<lparr>cc_Role = BootstrapRole, cc_TLS = rc_TLS config, cc_App = rc_App config, cc_Credentials = rc_Credentials config, cc_ExpectedOwner = None,
      cc_AdmissionTicket = [], cc_GroupKey = [], cc_Mode = Handlers, cc_Router = Some NewRouter, cc_Limits = zeroLimits, cc_DisableReconnect = True\<rparr>"

text \<open>\<open>dial\<close> gives the \<open>Call\<close> of the session, \<open>now\<close> is read when the reply is there.\<close>

definition Resolve_client ::
  "('h ClientConfig \<Rightarrow> error + (MessageType \<Rightarrow> bytes \<Rightarrow> error + bytes)) \<Rightarrow> time \<Rightarrow> ResolveConfig \<Rightarrow> error + Placement" where
  "Resolve_client dial now config =
     (if ai_ID (rc_App config) = [] \<or> ai_Version (rc_App config) = [] \<or> rc_TLS config = None \<or> rc_Credentials config = None
      then Inl ErrInvalidArgument
      else
        bind (dial (resolve_config config)) (\<lambda>call.
        bind (co_Encode request_codec \<lparr>rr_Group = rc_GroupKey config\<rparr>) (\<lambda>payload.
        bind (call 1 payload) (\<lambda>reply.
        bind (co_Decode reply_codec reply) (\<lambda>decoded.
        case wire_toOwner (rp_Owner decoded) of
          Inl _ \<Rightarrow> Inl ErrProtocolViolation
        | Inr owner \<Rightarrow>
            if rp_Admission decoded = [] \<or> rp_ExpiresMS decoded \<le> UnixMilli now then Inl ErrProtocolViolation
            else Inr \<lparr>pl_Owner = owner, pl_GroupKey = rp_Group decoded, pl_AdmissionTicket = rp_Admission decoded,
                      pl_ExpiresAt = rp_ExpiresMS decoded * Millisecond\<rparr>)))))"

section \<open>The codecs\<close>

definition reply_ok :: "resolveReply \<Rightarrow> bool" where
  "reply_ok r \<longleftrightarrow> list_all utf8_string [wo_ID (rp_Owner r), wo_Incarnation (rp_Owner r), wo_Address (rp_Owner r), wo_ServerName (rp_Owner r), rp_Group r,
     rp_Admission r] \<and> 0 \<le> rp_ExpiresMS r \<and> rp_ExpiresMS r < 2 ^ 63"

interpretation resolve_request: json_record "\<lambda>r. JObj [(''group'', JStr (rr_Group r))]" "[(''group'', text_field (\<lambda>s. rr_Group_update (\<lambda>_. s)))]"
  "\<lparr>rr_Group = []\<rparr>" "\<lambda>r. utf8_string (rr_Group r)"
  by unfold_locales (simp_all add: field_defs member_of_def utf8_string_ascii)

interpretation resolve_reply: json_record reply_json reply_members reply_zero reply_ok
proof unfold_locales
  fix r
  assume ok: "reply_ok r"
  then show "json_ok (reply_json r)"
    by (simp add: reply_json_def ownerWire_json_def reply_ok_def utf8_string_ascii)
  show "struct_field reply_members (\<lambda>r. r) (\<lambda>x _. x) (reply_json r) reply_zero = Some r"
    using ok by (simp add: reply_json_def ownerWire_json_def reply_ok_def reply_members_def ownerWire_members_def reply_zero_def field_defs
        member_of_def ParseInt_FormatInt)
qed

section \<open>Calls\<close>

lemma request_carried:
  "utf8_string g \<Longrightarrow> \<exists>b. co_Encode request_codec \<lparr>rr_Group = g\<rparr> = Inr b \<and> co_Decode request_codec b = Inr \<lparr>rr_Group = g\<rparr>"
  using resolve_request.json.carried [of "\<lparr>rr_Group = g\<rparr>"] by (simp add: request_codec_def)

lemma registered_handler: "OnRequest router mt (Some h) = (None, router') \<Longrightarrow> rt_routes router' (RequestMessage, mt) = Some h"
  by (auto simp: OnRequest_def register_def split: if_splits option.splits)


lemma short_refusals [simp]:
  "utf8_string ''request failed''" "utf8_string ''response encoding failed''" "utf8_string ''placement unavailable''"
  by (simp_all add: utf8_string_ascii)




text \<open>A session and a server that can talk.\<close>

definition calling_session :: "unit sessionRecord" where
  "calling_session = the (newSessionRecord [] \<lparr>ow_ID = ''o'', ow_Incarnation = [], ow_Endpoint = \<lparr>ep_Address = [], ep_ServerName = []\<rparr>\<rparr>
     [] \<lparr>pr_Issuer = ''i'', pr_Subject = ''s'', pr_ExpiresAt = 0, pr_Attributes = None\<rparr> DefaultLimits True (Some 0))"

definition calm :: pressure where
  "calm = \<lparr>pr_allowed = (\<lambda>_. True), pr_reserved = (\<lambda>_. True), pr_delivered = (\<lambda>_. True)\<rparr>"

lemma calling_session_limit: "outboundMessageLimit calling_session = MessageBytes DefaultLimits"
  by (simp add: calling_session_def newSessionRecord_def directionalBudgetLimits_def DefaultLimits_def NewBudget_def Let_def wrap64_def
      signed_take_bit_eq_take_bit_minus take_bit_eq_mod outboundMessageLimit_def minimumAdvertisedLimit_def zeroLimitMessage_def)

lemma sample_connected: "connected calling_session None (newChannels DefaultLimits zeroLimitMessage) calm 65536"
  using calling_session_limit
  by (simp add: connected_def calling_session_def newSessionRecord_def directionalBudgetLimits_def DefaultLimits_def NewBudget_def Let_def wrap64_def
      signed_take_bit_eq_take_bit_minus take_bit_eq_mod acquireRequest_def newChannels_def calm_def call_timeout_def uint64_def)



definition sample_call :: "answering Router \<Rightarrow> MessageType \<Rightarrow> bytes \<Rightarrow> error + bytes" where
  "sample_call = routed_call calling_session None (newChannels DefaultLimits zeroLimitMessage) calm 65536"


section \<open>Resolving a group\<close>

definition reply_of :: "Placement \<Rightarrow> resolveReply" where
  "reply_of p = \<lparr>rp_Owner = ownerWireFrom (pl_Owner p), rp_Group = pl_GroupKey p, rp_Admission = pl_AdmissionTicket p,
     rp_ExpiresMS = UnixMilli (pl_ExpiresAt p)\<rparr>"

text \<open>A placement that the reply can carry.\<close>

definition placeable :: "int \<Rightarrow> Placement \<Rightarrow> bool" where
  "placeable limit p \<longleftrightarrow>
     reply_ok (reply_of p) \<and> int (length (Marshal (reply_json (reply_of p)))) \<le> limit \<and> pl_AdmissionTicket p \<noteq> []
     \<and> ow_ID (pl_Owner p) \<noteq> [] \<and> length (ow_Incarnation (pl_Owner p)) = 16
     \<and> ep_Address (ow_Endpoint (pl_Owner p)) \<noteq> [] \<and> ep_ServerName (ow_Endpoint (pl_Owner p)) \<noteq> []"

lemma wire_toOwner_From:
  assumes "placeable limit p"
  shows "wire_toOwner (ownerWireFrom (pl_Owner p)) = Inr (pl_Owner p)"
  using assms by (cases "pl_Owner p"; cases "ow_Endpoint (pl_Owner p)") (simp add: wire_toOwner_def ownerWireFrom_def placeable_def)

lemma reply_carried:
  "reply_ok r \<Longrightarrow> co_Encode reply_codec r = Inr (string_bytes (Marshal (reply_json r))) \<and> co_Decode reply_codec (string_bytes (Marshal (reply_json r))) = Inr r"
  using resolve_reply.json.carried [of r] by (simp add: reply_codec_def JSON_def)

definition resolve_outcome :: "time \<Rightarrow> error + Placement \<Rightarrow> error + Placement" where
  "resolve_outcome now result =
     (case result of
        Inl err \<Rightarrow> Inl (if errorCode err = Normal then unanswered else refused (errorCode err) ''placement unavailable'')
      | Inr p \<Rightarrow>
          if UnixMilli (pl_ExpiresAt p) \<le> UnixMilli now then Inl ErrProtocolViolation
          else Inr (p\<lparr>pl_ExpiresAt := UnixMilli (pl_ExpiresAt p) * Millisecond\<rparr>))"

lemma resolved_call:
  assumes "Register (Some resolve) principal_of (Some router) = (None, Some router')" "utf8_string g"
    and "\<And>p. resolve (principal_of 0) g = Inr p \<Longrightarrow> placeable limit p"
    and "connected s remaining server p limit"
  obtains b where "co_Encode request_codec \<lparr>rr_Group = g\<rparr> = Inr b"
    "routed_call s remaining server p limit router' 1 b =
       (if int (length b) > outboundMessageLimit s then Inl ErrInvalidArgument
        else case resolve (principal_of 0) g of
          Inl err \<Rightarrow> Inl (if errorCode err = Normal then unanswered else refused (errorCode err) ''placement unavailable'')
        | Inr p \<Rightarrow> Inr (string_bytes (Marshal (reply_json (reply_of p)))))"
proof -
  have limits: "64 \<le> limit" "limit < 2 ^ 62" "limit \<le> MessageBytes (sr_limits s)" "MessageBytes (sr_limits s) < 2 ^ 63"
    using assms(4) by (simp_all add: connected_def)
  obtain b where b: "co_Encode request_codec \<lparr>rr_Group = g\<rparr> = Inr b" "co_Decode request_codec b = Inr \<lparr>rr_Group = g\<rparr>"
    using request_carried [OF assms(2)] by blast
  let ?h = "resolve_handler resolve principal_of"
  have "rt_routes router' (RequestMessage, 1) = Some ?h"
    using assms(1) registered_handler [of router 1 ?h router'] by (cases "OnRequest router 1 (Some ?h)") (simp add: Register_def)
  then have call: "answered_call limit (sr_limits s) router' 1 b = outcome limit (fst (?h (request_envelope 1 b)))"
    using limits(3,4) handled_call [of router' 1 ?h b "fst (?h (request_envelope 1 b))" limit "sr_limits s"]
    by (simp add: prod_eq_iff) (simp add: resolve_handler_def)
  have "answered_call limit (sr_limits s) router' 1 b =
      (case resolve (principal_of 0) g of
         Inl err \<Rightarrow> Inl (if errorCode err = Normal then unanswered else refused (errorCode err) ''placement unavailable'')
       | Inr p \<Rightarrow> Inr (string_bytes (Marshal (reply_json (reply_of p)))))"
    using assms(3) limits b(2) reply_carried
    by (auto simp: call resolve_handler_def request_envelope_def failing_def outcome_simps placeable_def reply_of_def [symmetric]
        simp del: string_bytes_simps split: sum.split)
  with b(1) show thesis
    by (intro that [of b]) (simp_all add: routed_call_eq [OF assms(4)])
qed

text \<open>What the ticket of a placement was signed for.\<close>

lemma Resolve_signed:
  assumes "fst (Resolve sha config random (now1, now2, now3) s1 s2 prin g) = Inr p"
  obtains sign where "bc_Signer config = Some sign"
    "sign \<lparr>ad_App = bc_App config, ad_PrincipalIssuer = pr_Issuer prin, ad_Subject = pr_Subject prin, ad_GroupKey = g,
       ad_Owner = pl_Owner p, ad_ExpiresAt = pl_ExpiresAt p\<rparr> = Inr (pl_AdmissionTicket p)"
    "pl_GroupKey p = g" "pl_ExpiresAt p \<le> now2 + 30 * Second" "pl_ExpiresAt p \<le> pr_ExpiresAt prin"
proof -
  from assms obtain statuses owner where "issue_ticket config statuses now2 now3 prin g owner = Inr p"
    by (auto simp: Resolve_def split: if_splits option.splits sum.splits prod.splits)
  with that show thesis
    by (auto simp: issue_ticket_def Let_def split: option.splits if_splits sum.splits)
qed

definition found :: "(bytes \<Rightarrow> bytes) \<Rightarrow> 's BootstrapConfig \<Rightarrow> error + bytes \<Rightarrow> time \<times> time \<times> time \<Rightarrow> 's \<Rightarrow> 's \<Rightarrow> Principal \<Rightarrow> string \<Rightarrow> error + Placement" where
  "found sha config random clock s1 s2 prin g = fst (Resolve sha config random clock s1 s2 prin g)"

definition signed_for :: "'s BootstrapConfig \<Rightarrow> Principal \<Rightarrow> string \<Rightarrow> Placement \<Rightarrow> time \<Rightarrow> bool" where
  "signed_for config prin g pl until \<longleftrightarrow>
     (\<exists>sign. bc_Signer config = Some sign
        \<and> sign \<lparr>ad_App = bc_App config, ad_PrincipalIssuer = pr_Issuer prin, ad_Subject = pr_Subject prin, ad_GroupKey = g,
            ad_Owner = pl_Owner pl, ad_ExpiresAt = until\<rparr> = Inr (pl_AdmissionTicket pl))"

lemma resolve_outcome_signed:
  assumes "resolve_outcome now (found sha config random (now1, now2, now3) s1 s2 prin g) = Inr pl"
  shows "pl_GroupKey pl = g \<and> now < pl_ExpiresAt pl
    \<and> (\<exists>until. signed_for config prin g pl until \<and> pl_ExpiresAt pl \<le> until \<and> until \<le> now2 + 30 * Second)"
proof -
  from assms obtain p where p: "found sha config random (now1, now2, now3) s1 s2 prin g = Inr p"
      "pl = p\<lparr>pl_ExpiresAt := UnixMilli (pl_ExpiresAt p) * Millisecond\<rparr>" "UnixMilli now < UnixMilli (pl_ExpiresAt p)"
    by (auto simp: resolve_outcome_def split: sum.splits if_splits)
  have "now < UnixMilli (pl_ExpiresAt p) * Millisecond" "UnixMilli (pl_ExpiresAt p) * Millisecond \<le> pl_ExpiresAt p"
    using p(3) by (auto simp: UnixMilli_def)
  moreover have "signed_for config prin g pl (pl_ExpiresAt p)" "pl_GroupKey pl = g" "pl_ExpiresAt p \<le> now2 + 30 * Second"
    using p(2) Resolve_signed [OF p(1) [unfolded found_def]] by (auto simp: signed_for_def)
  ultimately show ?thesis
    using p(2) by auto
qed

text \<open>The bytes of the request for a group.\<close>

definition request_size :: "string \<Rightarrow> int" where
  "request_size g = (case co_Encode request_codec \<lparr>rr_Group = g\<rparr> of Inl _ \<Rightarrow> 0 | Inr b \<Rightarrow> int (length b))"

text \<open>
  C6. Resolving end to end. When the bootstrap server registered its handler and the network carries the call, the client's \<open>Resolve\<close>
  returns exactly what the server's \<open>Resolve\<close> found for the principal of the session and the group that was asked for, with the expiry cut to
  milliseconds; an error of the server arrives with its code; a placement that has expired meanwhile is refused; a group key whose request exceeds the
  outgoing limit is refused at once. The ticket the client holds was signed
  for that principal, that group and the owner the client is sent to, and is good for at most thirty seconds.
\<close>

theorem resolve_end_to_end:
  assumes "Register (Some (found sha config random (now1, now2, now3) s1 s2)) principal_of (Some router) = (None, Some router')"
    and "ai_ID (rc_App client) \<noteq> []" "ai_Version (rc_App client) \<noteq> []" "rc_TLS client \<noteq> None" "rc_Credentials client \<noteq> None"
    and "utf8_string (rc_GroupKey client)"
    and "\<And>p. found sha config random (now1, now2, now3) s1 s2 (principal_of 0) (rc_GroupKey client) = Inr p \<Longrightarrow> placeable limit p"
    and "connected s remaining server p limit"
  shows "Resolve_client (\<lambda>_ :: unit ClientConfig. Inr (routed_call s remaining server p limit router')) now client
      = (if request_size (rc_GroupKey client) > outboundMessageLimit s then Inl ErrInvalidArgument
         else resolve_outcome now (found sha config random (now1, now2, now3) s1 s2 (principal_of 0) (rc_GroupKey client)))
    \<and> (\<forall>pl. Resolve_client (\<lambda>_ :: unit ClientConfig. Inr (routed_call s remaining server p limit router')) now client = Inr pl \<longrightarrow>
        pl_GroupKey pl = rc_GroupKey client \<and> now < pl_ExpiresAt pl
        \<and> (\<exists>until. signed_for config (principal_of 0) (rc_GroupKey client) pl until
            \<and> pl_ExpiresAt pl \<le> until \<and> until \<le> now2 + 30 * Second))"
proof -
  let ?found = "found sha config random (now1, now2, now3) s1 s2 (principal_of 0) (rc_GroupKey client)"
  let ?result = "Resolve_client (\<lambda>_ :: unit ClientConfig. Inr (routed_call s remaining server p limit router')) now client"
  obtain b where b: "co_Encode request_codec \<lparr>rr_Group = rc_GroupKey client\<rparr> = Inr b"
    "routed_call s remaining server p limit router' 1 b =
       (if int (length b) > outboundMessageLimit s then Inl ErrInvalidArgument
        else case ?found of
          Inl err \<Rightarrow> Inl (if errorCode err = Normal then unanswered else refused (errorCode err) ''placement unavailable'')
        | Inr p \<Rightarrow> Inr (string_bytes (Marshal (reply_json (reply_of p)))))"
    by (rule resolved_call [OF assms(1,6-8)])
  have size: "request_size (rc_GroupKey client) = int (length b)"
    by (simp add: request_size_def b(1))
  have "?result = (if request_size (rc_GroupKey client) > outboundMessageLimit s then Inl ErrInvalidArgument else resolve_outcome now ?found)"
  proof (cases "int (length b) > outboundMessageLimit s")
    case True
    then show ?thesis
      using assms(2-5) b by (auto simp: Resolve_client_def size)
  next
    case False
    show ?thesis
    proof (cases ?found)
      case (Inl err)
      then show ?thesis
        using assms(2-5) b False by (auto simp: Resolve_client_def resolve_outcome_def size)
    next
      case (Inr p)
      then have "placeable limit p"
        by (rule assms(7))
      then show ?thesis
        using Inr assms(2-5) b False reply_carried [of "reply_of p"] wire_toOwner_From [of limit p]
        by (auto simp: Resolve_client_def resolve_outcome_def reply_of_def placeable_def size)
    qed
  qed
  note result = this
  have "resolve_outcome now ?found = Inr pl" if "?result = Inr pl" for pl
    using that unfolding result by (simp split: if_splits)
  then have "\<forall>pl. ?result = Inr pl \<longrightarrow> pl_GroupKey pl = rc_GroupKey client \<and> now < pl_ExpiresAt pl
      \<and> (\<exists>until. signed_for config (principal_of 0) (rc_GroupKey client) pl until \<and> pl_ExpiresAt pl \<le> until \<and> until \<le> now2 + 30 * Second)"
    using resolve_outcome_signed by (metis (no_types, lifting))
  with result show ?thesis
    by (rule conjI)
qed

definition resolve_client_sample :: ResolveConfig where
  "resolve_client_sample = \<lparr>rc_App = \<lparr>ai_ID = ''app'', ai_Version = ''1''\<rparr>, rc_TLS = Some \<lparr>tls_InsecureSkipVerify = False, tls_Certificates = 0,
     tls_GetCertificate = False\<rparr>, rc_Credentials = Some (Inl (OtherError [])), rc_GroupKey = []\<rparr>"

theorem resolve_end_to_end_witness:
  "\<exists>router pl. Register (Some (found (\<lambda>b. b) ticket_bootstrap (Inr [5]) (0, 0, 0) () ())) (\<lambda>_. ticket_principal) (Some NewRouter) = (None, Some router)
    \<and> Resolve_client (\<lambda>_ :: unit ClientConfig. Inr (sample_call router)) Second resolve_client_sample = Inr pl
    \<and> pl_Owner pl = ticket_owner \<and> pl_AdmissionTicket pl = ''t''"
proof -
  let ?found = "found (\<lambda>b. b) ticket_bootstrap (Inr [5]) (0, 0, 0) () ()"
  let ?p = "\<lparr>pl_Owner = ticket_owner, pl_GroupKey = [], pl_AdmissionTicket = ''t'', pl_ExpiresAt = 30 * Second\<rparr>"
  have found: "?found ticket_principal [] = Inr ?p"
    using ticket_placed by (simp add: found_def)
  obtain router where router: "Register (Some ?found) (\<lambda>_. ticket_principal) (Some NewRouter) = (None, Some router)"
    by (simp add: Register_def OnRequest_def register_def NewRouter_def)
  have "bulk (reply_json (reply_of ?p)) \<le> 65536"
    by (simp add: reply_json_def reply_of_def ownerWire_json_def ownerWireFrom_def ticket_owner_def UnixMilli_def FormatInt_def format_nat.simps
        length_hex_EncodeToString)
  then have "length (Marshal (reply_json (reply_of ?p))) \<le> 65536"
    by (rule order_trans [OF length_Marshal])
  moreover have "reply_ok (reply_of ?p)"
    by code_simp
  ultimately have "placeable 65536 ?p"
    by (simp add: placeable_def ticket_owner_def)
  then have "Resolve_client (\<lambda>_ :: unit ClientConfig. Inr (sample_call router)) Second resolve_client_sample
      = (if request_size [] > outboundMessageLimit calling_session then Inl ErrInvalidArgument else resolve_outcome Second (?found ticket_principal []))"
    using conjunct1 [OF resolve_end_to_end [OF router, of resolve_client_sample 65536 calling_session None "newChannels DefaultLimits zeroLimitMessage" calm Second]]
      found sample_connected by (simp add: resolve_client_sample_def sample_call_def)
  moreover have "length (Marshal (JObj [(''group'', JStr [])])) \<le> 65536"
    by (rule order_trans [OF length_Marshal]) simp
  then have "\<not> request_size [] > outboundMessageLimit calling_session"
    by (simp add: request_size_def request_codec_def JSON_def calling_session_limit DefaultLimits_def del: Marshal.simps)
  ultimately show ?thesis
    using router by (simp add: found resolve_outcome_def UnixMilli_def)
qed

end
