(* ===== verification/Packet_Heap.thy ===== *)
theory Packet_Heap
  imports Prelude "HOL-Library.Multiset"
begin

text \<open>
  The array heap of Go's \<open>container/heap\<close> on a slice, as \<open>internal/udprelay/relay.go\<close> uses it with \<open>packetHeap\<close>, and the contract of a
  priority queue it meets. \<open>Less\<close> compares a key of the elements.
\<close>

section \<open>The operations\<close>

definition Swap :: "'a list \<Rightarrow> nat \<Rightarrow> nat \<Rightarrow> 'a list" where
  "Swap h i j = h[i := h ! j, j := h ! i]"

definition Less :: "('a \<Rightarrow> 'k::linorder) \<Rightarrow> 'a list \<Rightarrow> nat \<Rightarrow> nat \<Rightarrow> bool" where
  "Less key h i j \<longleftrightarrow> key (h ! i) < key (h ! j)"

text \<open>\<open>up\<close> and \<open>down\<close> of the library; \<open>(0-1)/2\<close> is 0 in Go as it is here.\<close>

function heap_up :: "('a \<Rightarrow> 'k::linorder) \<Rightarrow> 'a list \<Rightarrow> nat \<Rightarrow> 'a list" where
  "heap_up key h j =
     (let i = (j - 1) div 2 in
      if i = j \<or> \<not> Less key h j i then h else heap_up key (Swap h i j) i)"
  by pat_completeness auto
termination
  by (relation "measure (\<lambda>(key, h, j). j)") auto

function heap_down :: "('a \<Rightarrow> 'k::linorder) \<Rightarrow> 'a list \<Rightarrow> nat \<Rightarrow> nat \<Rightarrow> 'a list" where
  "heap_down key h i n =
     (let j1 = 2 * i + 1; j = (if j1 + 1 < n \<and> Less key h (j1 + 1) j1 then j1 + 1 else j1) in
      if j1 \<ge> n \<or> \<not> Less key h j i then h else heap_down key (Swap h i j) j n)"
  by pat_completeness auto
termination
  by (relation "measure (\<lambda>(key, h, i, n). n - i)") (auto split: if_splits)

declare heap_up.simps [simp del] heap_down.simps [simp del]

text \<open>\<open>heap.Push\<close> and \<open>heap.Pop\<close>; the latter indexes an empty slice out of range and panics.\<close>

definition heap_Push :: "('a \<Rightarrow> 'k::linorder) \<Rightarrow> 'a list \<Rightarrow> 'a \<Rightarrow> 'a list" where
  "heap_Push key h x = (let h = h @ [x] in heap_up key h (length h - 1))"

definition heap_Pop :: "('a \<Rightarrow> 'k::linorder) \<Rightarrow> 'a list \<Rightarrow> ('a \<times> 'a list) option" where
  "heap_Pop key h =
     (if h = [] then None
      else (let n = length h - 1; h = heap_down key (Swap h 0 n) 0 n in Some (last h, butlast h)))"

section \<open>The heap property\<close>

definition parent :: "nat \<Rightarrow> nat" where
  "parent j = (j - 1) div 2"

text \<open>The first \<open>n\<close> elements form a heap; all of them but position \<open>j\<close> respect their parent; all but the children of \<open>i\<close> do.\<close>

definition is_heap :: "('a \<Rightarrow> 'k::linorder) \<Rightarrow> 'a list \<Rightarrow> nat \<Rightarrow> bool" where
  "is_heap key h n \<longleftrightarrow> (\<forall>m. 0 < m \<and> m < n \<longrightarrow> key (h ! parent m) \<le> key (h ! m))"

definition up_inv :: "('a \<Rightarrow> 'k::linorder) \<Rightarrow> 'a list \<Rightarrow> nat \<Rightarrow> nat \<Rightarrow> bool" where
  "up_inv key h j n \<longleftrightarrow>
     (\<forall>m. 0 < m \<and> m < n \<and> m \<noteq> j \<longrightarrow> key (h ! parent m) \<le> key (h ! m))
     \<and> (\<forall>m. 0 < m \<and> m < n \<and> 0 < j \<and> parent m = j \<longrightarrow> key (h ! parent j) \<le> key (h ! m))"

definition down_inv :: "('a \<Rightarrow> 'k::linorder) \<Rightarrow> 'a list \<Rightarrow> nat \<Rightarrow> nat \<Rightarrow> bool" where
  "down_inv key h i n \<longleftrightarrow>
     (\<forall>m. 0 < m \<and> m < n \<and> parent m \<noteq> i \<longrightarrow> key (h ! parent m) \<le> key (h ! m))
     \<and> (\<forall>m. 0 < m \<and> m < n \<and> 0 < i \<and> parent m = i \<longrightarrow> key (h ! parent i) \<le> key (h ! m))"

lemma parent_less: "0 < m \<Longrightarrow> parent m < m"
  by (simp add: parent_def)

lemma parent_eq_iff: "0 < m \<Longrightarrow> parent m = i \<longleftrightarrow> m = 2 * i + 1 \<or> m = 2 * i + 2"
  by (auto simp: parent_def)

lemma Swap_length [simp]: "length (Swap h i j) = length h"
  by (simp add: Swap_def)

lemma Swap_nth: "i < length h \<Longrightarrow> j < length h \<Longrightarrow> m < length h \<Longrightarrow> Swap h i j ! m = (if m = i then h ! j else if m = j then h ! i else h ! m)"
  by (auto simp: Swap_def nth_list_update)

lemma Swap_mset: "i < length h \<Longrightarrow> j < length h \<Longrightarrow> mset (Swap h i j) = mset h"
  unfolding Swap_def by (rule mset_swap)

lemma is_heap_min:
  assumes "is_heap key h n" "m < n"
  shows "key (h ! 0) \<le> key (h ! m)"
  using assms(2)
proof (induction m rule: less_induct)
  case (less m)
  show ?case
  proof (cases "m = 0")
    case False
    then have "key (h ! 0) \<le> key (h ! parent m)"
      using less parent_less [of m] by simp
    moreover have "key (h ! parent m) \<le> key (h ! m)"
      using assms(1) less.prems False by (simp add: is_heap_def)
    ultimately show ?thesis by (rule order_trans)
  qed simp
qed

text \<open>One turn of each loop keeps its invariant.\<close>

lemma up_turn:
  assumes "up_inv key h j (length h)" "j < length h" "parent j \<noteq> j" "key (h ! j) < key (h ! parent j)"
  shows "up_inv key (Swap h (parent j) j) (parent j) (length h)"
proof -
  let ?i = "parent j" and ?h = "Swap h (parent j) j"
  have j: "0 < j"
    using assms(3) by (auto simp: parent_def intro: gr0I)
  have i: "?i < j" "?i < length h"
    using parent_less [OF j] assms(2) by simp_all
  note inv = assms(1)[unfolded up_inv_def, THEN conjunct1, rule_format] assms(1)[unfolded up_inv_def, THEN conjunct2, rule_format]
  have nth: "?h ! m = (if m = ?i then h ! j else if m = j then h ! ?i else h ! m)" if "m < length h" for m
    using Swap_nth [OF i(2) assms(2) that] .
  have "key (?h ! parent m) \<le> key (?h ! m)" if m: "0 < m" "m < length h" "m \<noteq> ?i" for m
  proof -
    have p: "parent m < m" "parent m < length h"
      using parent_less [OF m(1)] m(2) by simp_all
    consider "m = j" | "m \<noteq> j" "parent m = ?i" | "m \<noteq> j" "parent m = j" | "m \<noteq> j" "parent m \<noteq> ?i" "parent m \<noteq> j"
      by blast
    then show ?thesis
    proof cases
      case 1
      with nth m i assms(4) show ?thesis by simp
    next
      case 2
      then have "key (h ! ?i) \<le> key (h ! m)"
        using inv(1) [of m] m by simp
      with 2 nth m p assms(4) show ?thesis by (simp add: order_less_imp_le order_le_less_trans)
    next
      case 3
      with nth m p i inv(2) [of m] j show ?thesis by simp
    next
      case 4
      with nth m p inv(1) [of m] show ?thesis by simp
    qed
  qed
  moreover have "key (?h ! parent ?i) \<le> key (?h ! m)" if m: "0 < m" "m < length h" "0 < ?i" "parent m = ?i" for m
  proof -
    have pi: "parent ?i < ?i"
      using parent_less [OF m(3)] .
    have top: "key (h ! parent ?i) \<le> key (h ! ?i)"
      using inv(1) [of ?i] m(3) i by simp
    have "key (h ! parent ?i) \<le> key (h ! m)" if "m \<noteq> j"
      using inv(1) [of m] m that top by auto
    moreover have "m \<noteq> ?i"
      using parent_less [OF m(1)] m(4) by simp
    ultimately show ?thesis
      using nth [of m] nth [of "parent ?i"] m(2) pi i top by auto
  qed
  ultimately show ?thesis by (simp add: up_inv_def)
qed

lemma heap_up_correct:
  assumes "up_inv key h j (length h)" "j < length h"
  shows "is_heap key (heap_up key h j) (length h) \<and> mset (heap_up key h j) = mset h \<and> length (heap_up key h j) = length h"
  using assms
proof (induction key h j rule: heap_up.induct)
  case (1 key h j)
  have i: "parent j < length h"
    using "1.prems"(2) by (simp add: parent_def)
  show ?case
  proof (cases "parent j = j \<or> \<not> Less key h j (parent j)")
    case True
    then have "heap_up key h j = h"
      by (subst heap_up.simps) (simp add: parent_def Let_def)
    moreover have "is_heap key h (length h)"
      using True "1.prems"(1) parent_less [of j] by (auto simp: is_heap_def up_inv_def Less_def)
    ultimately show ?thesis by simp
  next
    case False
    then have eq: "heap_up key h j = heap_up key (Swap h (parent j) j) (parent j)"
      by (subst heap_up.simps) (simp add: parent_def Let_def)
    have "up_inv key (Swap h (parent j) j) (parent j) (length h)"
      using up_turn [OF "1.prems"] False by (simp add: Less_def)
    with "1.IH" [OF refl] False i eq Swap_mset [OF i "1.prems"(2)] show ?thesis
      by (simp add: parent_def)
  qed
qed

lemma down_turn:
  assumes "down_inv key h i n" "n \<le> length h" "j < n" "0 < j" "parent j = i"
    and "\<forall>m. 0 < m \<and> m < n \<and> parent m = i \<longrightarrow> key (h ! j) \<le> key (h ! m)" "key (h ! j) < key (h ! i)"
  shows "down_inv key (Swap h i j) j n"
proof -
  let ?h = "Swap h i j"
  have i: "i < j" "i < length h" "j < length h"
    using parent_less [OF assms(4)] assms(2,3,5) by simp_all
  note inv = assms(1)[unfolded down_inv_def, THEN conjunct1, rule_format] assms(1)[unfolded down_inv_def, THEN conjunct2, rule_format]
  have nth: "?h ! m = (if m = i then h ! j else if m = j then h ! i else h ! m)" if "m < n" for m
    using Swap_nth [OF i(2,3)] that assms(2) by simp
  have "key (?h ! parent m) \<le> key (?h ! m)" if m: "0 < m" "m < n" "parent m \<noteq> j" for m
  proof -
    have p: "parent m < m" "parent m < n"
      using parent_less [OF m(1)] m(2) by simp_all
    consider "parent m = i" "m = j" | "parent m = i" "m \<noteq> j" | "parent m \<noteq> i" "m = i" | "parent m \<noteq> i" "m \<noteq> i"
      by blast
    then show ?thesis
    proof cases
      case 1
      with nth m p assms(7) i show ?thesis by simp
    next
      case 2
      with nth m p assms(6) show ?thesis by auto
    next
      case 3
      have "key (h ! parent i) \<le> key (h ! j)"
        using inv(2) [of j] assms(3-5) m 3 by simp
      with 3 nth m p show ?thesis by simp
    next
      case 4
      with nth m p inv(1) [of m] assms(5) show ?thesis by auto
    qed
  qed
  moreover have "key (?h ! parent j) \<le> key (?h ! m)" if m: "0 < m" "m < n" "parent m = j" for m
  proof -
    have "key (h ! j) \<le> key (h ! m)"
      using inv(1) [of m] m i by simp
    moreover have "m \<noteq> i" "m \<noteq> j"
      using parent_less [OF m(1)] m(3) i by auto
    ultimately show ?thesis
      using nth [of m] nth [of i] m i assms(3,5) by simp
  qed
  ultimately show ?thesis by (simp add: down_inv_def)
qed

lemma heap_down_correct:
  assumes "down_inv key h i n" "n \<le> length h"
  shows "is_heap key (heap_down key h i n) n \<and> mset (heap_down key h i n) = mset h \<and> length (heap_down key h i n) = length h
    \<and> drop n (heap_down key h i n) = drop n h"
  using assms
proof (induction key h i n rule: heap_down.induct)
  case (1 key h i n)
  define j where "j = (if 2 * i + 1 + 1 < n \<and> Less key h (2 * i + 1 + 1) (2 * i + 1) then 2 * i + 1 + 1 else 2 * i + 1)"
  show ?case
  proof (cases "2 * i + 1 \<ge> n \<or> \<not> Less key h j i")
    case True
    then have "heap_down key h i n = h"
      by (subst heap_down.simps) (auto simp: j_def Let_def)
    moreover have "key (h ! i) \<le> key (h ! m)" if "0 < m" "m < n" "parent m = i" for m
      using True that by (auto simp: parent_eq_iff j_def Less_def split: if_splits)
    then have "is_heap key h n"
      using "1.prems"(1) unfolding is_heap_def down_inv_def by blast
    ultimately show ?thesis by simp
  next
    case False
    then have eq: "heap_down key h i n = heap_down key (Swap h i j) j n"
      by (subst heap_down.simps) (auto simp: j_def Let_def)
    have j: "j < n" "0 < j" "parent j = i" "i < j"
      using False by (auto simp: j_def parent_def split: if_splits)
    have "key (h ! j) \<le> key (h ! m)" if "0 < m" "m < n" "m = 2 * i + 1 \<or> m = 2 * i + 2" for m
      using that by (auto simp: j_def Less_def)
    then have least: "\<forall>m. 0 < m \<and> m < n \<and> parent m = i \<longrightarrow> key (h ! j) \<le> key (h ! m)"
      using parent_eq_iff by blast
    have inv: "down_inv key (Swap h i j) j n"
      using down_turn [OF "1.prems" j(1-3) least] False by (simp add: Less_def)
    have len: "i < length h" "j < length h"
      using j "1.prems"(2) by simp_all
    have "drop n (Swap h i j) = drop n h"
      using j by (simp add: Swap_def)
    moreover have "\<not> (n \<le> 2 * i + 1 \<or> \<not> Less key h j i)"
      using False by simp
    ultimately show ?thesis
      using "1.IH" [OF refl, folded j_def, OF refl] inv "1.prems"(2) Swap_mset [OF len] eq by simp
  qed
qed

section \<open>The contract\<close>

text \<open>
  A priority queue: \<open>pop\<close> removes an element whose key is least. The loop that takes out everything that is due returns it in the
  order of the keys and leaves what is not due.
\<close>

locale priority_queue =
  fixes push :: "'q \<Rightarrow> 'a \<Rightarrow> 'q" and pop :: "'q \<Rightarrow> ('a \<times> 'q) option" and top :: "'q \<Rightarrow> 'a option"
    and contents :: "'q \<Rightarrow> 'a multiset" and key :: "'a \<Rightarrow> 'k::linorder" and wf :: "'q \<Rightarrow> bool"
  assumes push_wf: "wf q \<Longrightarrow> wf (push q x)" and push_contents: "wf q \<Longrightarrow> contents (push q x) = add_mset x (contents q)"
    and top_None: "wf q \<Longrightarrow> top q = None \<longleftrightarrow> contents q = {#}"
    and top_pop: "wf q \<Longrightarrow> top q = Some x \<Longrightarrow> \<exists>q'. pop q = Some (x, q') \<and> wf q' \<and> contents q = add_mset x (contents q')"
    and top_least: "wf q \<Longrightarrow> top q = Some x \<Longrightarrow> y \<in># contents q \<Longrightarrow> key x \<le> key y"
begin

fun take_due :: "nat \<Rightarrow> 'k \<Rightarrow> 'q \<Rightarrow> 'a list \<times> 'q" where
  "take_due 0 now q = ([], q)"
| "take_due (Suc fuel) now q =
     (case top q of
        None \<Rightarrow> ([], q)
      | Some x \<Rightarrow>
          if now < key x then ([], q)
          else (case pop q of None \<Rightarrow> ([], q) | Some (x, q) \<Rightarrow> (let (xs, q) = take_due fuel now q in (x # xs, q))))"

lemma take_due_correct:
  assumes "wf q" "size (contents q) \<le> fuel" "take_due fuel now q = (xs, q')"
  shows "wf q' \<and> mset xs + contents q' = contents q \<and> sorted (map key xs) \<and> (\<forall>x \<in> set xs. key x \<le> now)
    \<and> (\<forall>y \<in># contents q'. now < key y)"
  using assms
proof (induction fuel arbitrary: q xs)
  case 0
  then show ?case by simp
next
  case (Suc fuel)
  show ?case
  proof (cases "top q")
    case None
    with Suc.prems top_None show ?thesis by auto
  next
    case (Some x)
    note least = top_least [OF Suc.prems(1) Some]
    show ?thesis
    proof (cases "now < key x")
      case True
      with Suc.prems Some least show ?thesis by (auto intro: order_less_le_trans)
    next
      case False
      from top_pop [OF Suc.prems(1) Some] obtain q1 where q1: "pop q = Some (x, q1)" "wf q1" "contents q = add_mset x (contents q1)"
        by blast
      obtain ys q2 where rest: "take_due fuel now q1 = (ys, q2)"
        by fastforce
      with Suc.prems Some False q1 have eq: "xs = x # ys" "q' = q2"
        by simp_all
      have "size (contents q1) \<le> fuel"
        using Suc.prems(2) q1(3) by simp
      from Suc.IH [OF q1(2) this rest [folded eq(2)]] eq q1(3) False have
        ih: "wf q'" "mset ys + contents q' = contents q1" "sorted (map key ys)" "\<forall>x \<in> set ys. key x \<le> now" "\<forall>y \<in># contents q'. now < key y"
        by blast+
      have "key x \<le> key y" if "y \<in> set ys" for y
      proof (rule least)
        have "y \<in># mset ys + contents q'" using that by simp
        then show "y \<in># contents q" unfolding ih(2) q1(3) by simp
      qed
      with ih eq q1(3) False show ?thesis by auto
    qed
  qed
qed

end

definition heap_top :: "'a list \<Rightarrow> 'a option" where
  "heap_top h = (if h = [] then None else Some (h ! 0))"

definition wf_heap :: "('a \<Rightarrow> 'k::linorder) \<Rightarrow> 'a list \<Rightarrow> bool" where
  "wf_heap key h \<longleftrightarrow> is_heap key h (length h)"

lemma heap_Push_correct:
  assumes "wf_heap key h"
  shows "wf_heap key (heap_Push key h x)" "mset (heap_Push key h x) = add_mset x (mset h)"
proof -
  have "key ((h @ [x]) ! parent m) \<le> key ((h @ [x]) ! m)" if "0 < m" "m < length h" for m
    using assms that parent_less [OF that(1)] by (simp add: wf_heap_def is_heap_def nth_append)
  moreover have "parent m \<noteq> length h" if "0 < m" "m < length (h @ [x])" for m
    using parent_less [OF that(1)] that(2) by simp
  ultimately have "up_inv key (h @ [x]) (length h) (length (h @ [x]))"
    by (auto simp: up_inv_def)
  then have "is_heap key (heap_Push key h x) (length (h @ [x]))" "mset (heap_Push key h x) = mset (h @ [x])"
      "length (heap_Push key h x) = length (h @ [x])"
    using heap_up_correct [of key "h @ [x]" "length h"] by (simp_all add: heap_Push_def)
  then show "wf_heap key (heap_Push key h x)" "mset (heap_Push key h x) = add_mset x (mset h)"
    by (simp_all add: wf_heap_def)
qed

lemma heap_Pop_correct:
  assumes "wf_heap key h" "h \<noteq> []"
  shows "\<exists>h'. heap_Pop key h = Some (h ! 0, h') \<and> wf_heap key h' \<and> mset h = add_mset (h ! 0) (mset h')"
proof -
  define n where "n = length h - 1"
  define h1 where "h1 = Swap h 0 n"
  define h2 where "h2 = heap_down key h1 0 n"
  have n: "n < length h" "length h = Suc n"
    using assms(2) by (simp_all add: n_def)
  have nth: "h1 ! m = (if m = 0 then h ! n else if m = n then h ! 0 else h ! m)" if "m < length h" for m
    using Swap_nth [of 0 h n m] n that by (simp add: h1_def)
  have "key (h1 ! parent m) \<le> key (h1 ! m)" if "0 < m" "m < n" "parent m \<noteq> 0" for m
    using that assms(1) nth [of m] nth [of "parent m"] parent_less [of m] n by (simp add: wf_heap_def is_heap_def)
  then have "down_inv key h1 0 n"
    by (simp add: down_inv_def)
  from heap_down_correct [OF this] n have
    h2: "is_heap key h2 n" "mset h2 = mset h1" "length h2 = Suc n" "drop n h2 = drop n h1"
    by (simp_all add: h2_def h1_def)
  have "h2 ! n = h1 ! n"
    using h2(3,4) n by (metis Cons_nth_drop_Suc Swap_length h1_def lessI list.inject)
  also have "\<dots> = h ! 0"
    using nth [of n] n by (simp add: h1_def)
  finally have "last h2 = h ! 0"
    using h2(3) by (metis diff_Suc_1 last_conv_nth length_0_conv nat.distinct(1))
  moreover have "mset h = mset h2"
    using h2(2) n Swap_mset [of 0 h n] by (simp add: h1_def)
  moreover have "key (butlast h2 ! parent m) \<le> key (butlast h2 ! m)" if "0 < m" "m < n" for m
    using h2(1,3) that parent_less [OF that(1)] by (simp add: is_heap_def nth_butlast)
  then have "wf_heap key (butlast h2)"
    using h2(3) by (simp add: wf_heap_def is_heap_def)
  moreover have "h2 \<noteq> []"
    using h2(3) by auto
  ultimately have "mset h = add_mset (h ! 0) (mset (butlast h2))" "wf_heap key (butlast h2)" "last h2 = h ! 0"
    by (metis add_mset_add_single append_butlast_last_id mset.simps mset_append)+
  moreover have "heap_Pop key h = Some (last h2, butlast h2)"
    using assms(2) by (simp add: heap_Pop_def Let_def n_def h1_def h2_def)
  ultimately show ?thesis by simp
qed

interpretation packets: priority_queue "heap_Push key" "heap_Pop key" heap_top mset key "wf_heap key" for key :: "'a \<Rightarrow> 'k::linorder"
proof
  fix q :: "'a list" and x
  assume wf: "wf_heap key q"
  show "wf_heap key (heap_Push key q x)" "mset (heap_Push key q x) = add_mset x (mset q)"
    using heap_Push_correct [OF wf] by simp_all
  show "heap_top q = None \<longleftrightarrow> mset q = {#}"
    by (simp add: heap_top_def)
next
  fix q :: "'a list" and x
  assume "wf_heap key q" "heap_top q = Some x"
  then show "\<exists>q'. heap_Pop key q = Some (x, q') \<and> wf_heap key q' \<and> mset q = add_mset x (mset q')"
    using heap_Pop_correct [of key q] by (auto simp: heap_top_def split: if_splits)
next
  fix q :: "'a list" and x y
  assume "wf_heap key q" "heap_top q = Some x" "y \<in># mset q"
  then show "key x \<le> key y"
    using is_heap_min [of key q "length q"] by (auto simp: heap_top_def wf_heap_def in_set_conv_nth split: if_splits)
qed

end
