(* ===== verification/Relay.thy ===== *)
theory Relay
  imports Types Packet_Heap Complex_Main "HOL-Library.Sublist"
begin

text \<open>
  \<open>internal/udprelay/relay.go\<close>: a relay between one client and a server that delays, drops and reorders packets. Its readers, its
  scheduler and its callers are steps on one state; a step is a critical section or one turn of a loop. The generators of
  \<open>math/rand/v2\<close> and the sockets are seen through what they return. \<open>None\<close> is a panic.
\<close>

section \<open>Configuration\<close>

type_synonym Direction = byte

abbreviation ClientToServer :: Direction where "ClientToServer \<equiv> 1"
abbreviation ServerToClient :: Direction where "ServerToClient \<equiv> 2"

text \<open>A \<open>float64\<close> of the configuration; \<open>None\<close> is not a number, which every comparison answers with false.\<close>

type_synonym fraction = "rat option"

definition below :: "rat \<Rightarrow> fraction \<Rightarrow> bool" where
  "below x f = (case f of None \<Rightarrow> False | Some y \<Rightarrow> x < y)"

definition above :: "rat \<Rightarrow> fraction \<Rightarrow> bool" where
  "above x f = (case f of None \<Rightarrow> False | Some y \<Rightarrow> x > y)"

record relayConfig =
  rc_RTT :: duration
  rc_Jitter :: duration
  rc_Loss :: fraction
  rc_Reorder :: fraction
  rc_Seed :: u64
  rc_MaxPackets :: int
  rc_MaxBytes :: int

datatype relay_error = InvalidConfiguration | InvalidCapacity | InvalidRebind | RelayCanceled | ErrHarnessOverload | SocketError string

text \<open>The checks and defaults at the start of \<open>New\<close>.\<close>

definition relay_config :: "string option \<Rightarrow> relayConfig \<Rightarrow> relay_error + relayConfig" where
  "relay_config upstream config =
     (if upstream = None \<or> rc_RTT config < 0 \<or> rc_Jitter config < 0 \<or> above 0 (rc_Loss config) \<or> below 1 (rc_Loss config)
         \<or> above 0 (rc_Reorder config) \<or> below 1 (rc_Reorder config)
      then Inl InvalidConfiguration
      else
        (let config = (if rc_MaxPackets config = 0 then config\<lparr>rc_MaxPackets := 65536\<rparr> else config);
             config = (if rc_MaxBytes config = 0 then config\<lparr>rc_MaxBytes := 64 * 2 ^ 20\<rparr> else config) in
         if rc_MaxPackets config < 1 \<or> rc_MaxBytes config < 1 then Inl InvalidCapacity else Inr config))"

section \<open>State\<close>

record relayPacket =
  rp_direction :: Direction
  rp_payload :: bytes
  rp_target :: string
  rp_at :: time

record relay =
  rl_clientAddr :: "string option"
  rl_upstreamAddr :: string
  rl_upstream :: nat
  rl_closedSockets :: "nat set"
  rl_clientOpen :: bool
  rl_cancelled :: bool
  rl_pendingPackets :: int
  rl_pendingBytes :: int
  rl_peakPackets :: int
  rl_peakBytes :: int
  rl_forwarded :: u64
  rl_dropped :: u64
  rl_overloaded :: bool
  rl_err :: "relay_error option"
  rl_blackholeForward :: bool
  rl_blackholeReverse :: bool
  rl_maxPackets :: int
  rl_maxBytes :: int
  rl_in :: "relayPacket list"
  rl_closers :: nat

text \<open>The rest of \<open>New\<close>, for sockets that could be bound or not.\<close>

definition new_relay :: "string \<Rightarrow> relayConfig \<Rightarrow> relay" where
  "new_relay upstream config =
     \<lparr>rl_clientAddr = None, rl_upstreamAddr = upstream, rl_upstream = 0, rl_closedSockets = {}, rl_clientOpen = True, rl_cancelled = False,
      rl_pendingPackets = 0, rl_pendingBytes = 0, rl_peakPackets = 0, rl_peakBytes = 0, rl_forwarded = 0, rl_dropped = 0,
      rl_overloaded = False, rl_err = None, rl_blackholeForward = False, rl_blackholeReverse = False,
      rl_maxPackets = rc_MaxPackets config, rl_maxBytes = rc_MaxBytes config, rl_in = [], rl_closers = 0\<rparr>"

definition New :: "relay_error option \<Rightarrow> relay_error option \<Rightarrow> string option \<Rightarrow> relayConfig \<Rightarrow> relay_error + relayConfig \<times> relay" where
  "New listen_client listen_upstream upstream config =
     bind (relay_config upstream config) (\<lambda>config.
       case listen_client of
         Some err \<Rightarrow> Inl err
       | None \<Rightarrow> (case listen_upstream of Some err \<Rightarrow> Inl err | None \<Rightarrow> Inr (config, new_relay (the upstream) config)))"

record relayStats =
  rs_Forwarded :: u64
  rs_Dropped :: u64
  rs_PendingPackets :: u64
  rs_PeakPendingPackets :: u64
  rs_PendingBytes :: int
  rs_PeakPendingBytes :: int
  rs_Overloaded :: bool

definition relay_stats :: "relay \<Rightarrow> relayStats" where
  "relay_stats r =
     \<lparr>rs_Forwarded = rl_forwarded r, rs_Dropped = rl_dropped r, rs_PendingPackets = uint64 (rl_pendingPackets r),
      rs_PeakPendingPackets = uint64 (rl_peakPackets r), rs_PendingBytes = rl_pendingBytes r, rs_PeakPendingBytes = rl_peakBytes r,
      rs_Overloaded = rl_overloaded r\<rparr>"

section \<open>Callers\<close>

definition RebindUpstream :: "string \<Rightarrow> relay_error option \<Rightarrow> nat \<Rightarrow> relay \<Rightarrow> relay_error option \<times> relay" where
  "RebindUpstream listen failed replacement r =
     (if listen = [] then (Some InvalidRebind, r)
      else
        (case failed of
           Some err \<Rightarrow> (Some err, r)
         | None \<Rightarrow>
             if rl_cancelled r then (Some RelayCanceled, r\<lparr>rl_closedSockets := insert replacement (rl_closedSockets r)\<rparr>)
             else (None, r\<lparr>rl_upstream := replacement, rl_closedSockets := insert (rl_upstream r) (rl_closedSockets r)\<rparr>)))"

definition SetBlackhole :: "Direction \<Rightarrow> bool \<Rightarrow> relay \<Rightarrow> relay" where
  "SetBlackhole direction enabled r =
     (if direction = ClientToServer then r\<lparr>rl_blackholeForward := enabled\<rparr>
      else if direction = ServerToClient then r\<lparr>rl_blackholeReverse := enabled\<rparr>
      else r)"

text \<open>What \<open>Close\<close> does once; the caller then waits for the scheduler.\<close>

definition Close_relay :: "relay \<Rightarrow> relay" where
  "Close_relay r =
     (if rl_cancelled r then r
      else r\<lparr>rl_cancelled := True, rl_clientOpen := False, rl_closedSockets := insert (rl_upstream r) (rl_closedSockets r)\<rparr>)"

definition failLocked :: "relay_error \<Rightarrow> relay \<Rightarrow> relay" where
  "failLocked err r =
     (if rl_overloaded r then r else r\<lparr>rl_overloaded := True, rl_err := Some err, rl_closers := rl_closers r + 1\<rparr>)"

section \<open>Readers\<close>

text \<open>\<open>enqueue\<close> up to its \<open>select\<close>; the packet is what it then offers to the channel. A reader hands \<open>enqueue\<close> what it read.\<close>

definition enqueue_relay :: "Direction \<Rightarrow> bytes \<Rightarrow> string \<Rightarrow> relay \<Rightarrow> relayPacket option \<times> relay" where
  "enqueue_relay direction payload target r =
     (let blackholed = (if direction = ServerToClient then rl_blackholeReverse r else rl_blackholeForward r); n = int (length payload) in
      if blackholed then (None, r\<lparr>rl_dropped := rl_dropped r + 1\<rparr>)
      else if rl_pendingPackets r \<ge> rl_maxPackets r \<or> n > rl_maxBytes r - rl_pendingBytes r then (None, failLocked ErrHarnessOverload r)
      else
        (let r = r\<lparr>rl_pendingPackets := rl_pendingPackets r + 1, rl_pendingBytes := rl_pendingBytes r + n\<rparr>;
             r = (if rl_pendingPackets r > rl_peakPackets r then r\<lparr>rl_peakPackets := rl_pendingPackets r\<rparr> else r);
             r = (if rl_pendingBytes r > rl_peakBytes r then r\<lparr>rl_peakBytes := rl_pendingBytes r\<rparr> else r) in
         (Some \<lparr>rp_direction = direction, rp_payload = payload, rp_target = target, rp_at = 0\<rparr>, r)))"

definition readClient :: "bytes \<Rightarrow> string \<Rightarrow> relay \<Rightarrow> relayPacket option \<times> relay" where
  "readClient payload source r = enqueue_relay ClientToServer payload (rl_upstreamAddr r) (r\<lparr>rl_clientAddr := Some source\<rparr>)"

definition readUpstream :: "bytes \<Rightarrow> relay \<Rightarrow> relayPacket option \<times> relay" where
  "readUpstream payload r =
     (case rl_clientAddr r of None \<Rightarrow> (None, r) | Some target \<Rightarrow> enqueue_relay ServerToClient payload target r)"

definition releasePending :: "nat \<Rightarrow> relay \<Rightarrow> relay" where
  "releasePending n r = r\<lparr>rl_pendingPackets := rl_pendingPackets r - 1, rl_pendingBytes := rl_pendingBytes r - int n\<rparr>"

definition recordDrop :: "nat \<Rightarrow> relay \<Rightarrow> relay" where
  "recordDrop n r = (releasePending n r)\<lparr>rl_dropped := rl_dropped r + 1\<rparr>"

definition recordForward :: "nat \<Rightarrow> relay \<Rightarrow> relay" where
  "recordForward n r = (releasePending n r)\<lparr>rl_forwarded := rl_forwarded r + 1\<rparr>"

section \<open>The scheduler\<close>

text \<open>The operations of a generator: from its two seeds, a fraction in [0,1) and a number in [0,n). The latter panics unless \<open>n\<close> is positive.\<close>

record 'g generator =
  gr_New :: "u64 \<Rightarrow> u64 \<Rightarrow> 'g"
  gr_Float64 :: "'g \<Rightarrow> rat \<times> 'g"
  gr_Int64N :: "'g \<Rightarrow> int \<Rightarrow> int \<times> 'g"

definition oneWayDelay :: "'g generator \<Rightarrow> relayConfig \<Rightarrow> 'g \<Rightarrow> (duration \<times> 'g) option" where
  "oneWayDelay gen config g =
     (let delay = rc_RTT config div 2; n = wrap64 (wrap64 (rc_Jitter config * 2) + 1) in
      Option.bind
        (if rc_Jitter config > 0
         then (if n \<le> 0 then None else (let (x, g) = gr_Int64N gen g n in Some (wrap64 (delay + wrap64 (x - rc_Jitter config)), g)))
         else Some (delay, g))
        (\<lambda>(delay, g).
           let delay = (if delay < 0 then 0 else delay); (x, g) = gr_Float64 gen g in
           Some (if below x (rc_Reorder config) then wrap64 (delay + rc_RTT config div 2) else delay, g)))"

text \<open>What becomes of a packet the scheduler receives: lost, or delayed.\<close>

definition fate :: "'g generator \<Rightarrow> relayConfig \<Rightarrow> 'g \<Rightarrow> (duration option \<times> 'g) option" where
  "fate gen config g =
     (let (x, g) = gr_Float64 gen g in
      if below x (rc_Loss config) then Some (None, g)
      else map_option (\<lambda>(delay, g). (Some delay, g)) (oneWayDelay gen config g))"

record 'g scheduler =
  sd_queues :: "relayPacket list"
  sd_forward :: 'g
  sd_reverse :: 'g
  sd_done :: bool

definition new_scheduler :: "'g generator \<Rightarrow> relayConfig \<Rightarrow> 'g scheduler" where
  "new_scheduler gen config =
     \<lparr>sd_queues = [], sd_forward = gr_New gen (rc_Seed config) (rc_Seed config XOR 0x9e3779b97f4a7c15),
      sd_reverse = gr_New gen (rc_Seed config XOR 0xc2b2ae3d27d4eb4f) (rc_Seed config XOR 0x165667b19e3779f9), sd_done = False\<rparr>"

definition draw :: "'g generator \<Rightarrow> relayConfig \<Rightarrow> Direction \<Rightarrow> 'g scheduler \<Rightarrow> (duration option \<times> 'g scheduler) option" where
  "draw gen config direction s =
     (if direction = ServerToClient then map_option (\<lambda>(x, g). (x, s\<lparr>sd_reverse := g\<rparr>)) (fate gen config (sd_reverse s))
      else map_option (\<lambda>(x, g). (x, s\<lparr>sd_forward := g\<rparr>)) (fate gen config (sd_forward s)))"

text \<open>The three cases of the \<open>select\<close> in \<open>schedule\<close>: a packet from the channel, the timer, the end of the context.\<close>

definition schedule_packet :: "'g generator \<Rightarrow> relayConfig \<Rightarrow> time \<Rightarrow> relay \<times> 'g scheduler \<Rightarrow> (relay \<times> 'g scheduler) option" where
  "schedule_packet gen config now rs =
     (case rs of (r, s) \<Rightarrow>
        (case rl_in r of
           [] \<Rightarrow> None
         | packet # rest \<Rightarrow>
             map_option
               (\<lambda>(x, s).
                  let r = r\<lparr>rl_in := rest\<rparr> in
                  case x of
                    None \<Rightarrow> (recordDrop (length (rp_payload packet)) r, s)
                  | Some delay \<Rightarrow> (r, s\<lparr>sd_queues := heap_Push rp_at (sd_queues s) (packet\<lparr>rp_at := now + delay\<rparr>)\<rparr>))
               (draw gen config (rp_direction packet) s)))"

text \<open>The loop over the due packets, at most \<open>fuel\<close> of them; \<open>ok\<close> says which writes succeed. The result has the packets that were written.\<close>

fun schedule_due :: "nat \<Rightarrow> (nat \<Rightarrow> bool) \<Rightarrow> time \<Rightarrow> relay \<times> relayPacket list \<Rightarrow> relayPacket list \<times> relay \<times> relayPacket list" where
  "schedule_due 0 ok now rq = ([], rq)"
| "schedule_due (Suc fuel) ok now (r, q) =
     (if q \<noteq> [] \<and> rp_at (q ! 0) \<le> now
      then
        (case heap_Pop rp_at q of
           None \<Rightarrow> ([], r, q)
         | Some (packet, q) \<Rightarrow>
             if ok fuel
             then (let (written, r, q) = schedule_due fuel ok now (recordForward (length (rp_payload packet)) r, q) in (packet # written, r, q))
             else schedule_due fuel ok now (recordDrop (length (rp_payload packet)) r, q))
      else ([], r, q))"

fun release_list :: "relayPacket list \<Rightarrow> relay \<Rightarrow> relay" where
  "release_list [] r = r"
| "release_list (packet # packets) r = release_list packets (releasePending (length (rp_payload packet)) r)"

text \<open>At the end the heap is popped empty and the channel is emptied.\<close>

fun pop_all :: "nat \<Rightarrow> relayPacket list \<Rightarrow> relayPacket list" where
  "pop_all 0 q = []"
| "pop_all (Suc fuel) q = (case heap_Pop rp_at q of None \<Rightarrow> [] | Some (packet, q) \<Rightarrow> packet # pop_all fuel q)"

definition schedule_stop :: "relay \<times> 'g scheduler \<Rightarrow> relay \<times> 'g scheduler" where
  "schedule_stop rs =
     (case rs of (r, s) \<Rightarrow>
        ((release_list (rl_in r) (release_list (pop_all (length (sd_queues s)) (sd_queues s)) r))\<lparr>rl_in := []\<rparr>,
         s\<lparr>sd_queues := [], sd_done := True\<rparr>))"

text \<open>The \<open>case <-wake\<close>: as many turns as there are packets are enough.\<close>

definition schedule_wake :: "(nat \<Rightarrow> bool) \<Rightarrow> time \<Rightarrow> relay \<times> 'g scheduler \<Rightarrow> relayPacket list \<times> relay \<times> 'g scheduler" where
  "schedule_wake ok now rs =
     (case rs of (r, s) \<Rightarrow>
        (let (written, r, q) = schedule_due (length (sd_queues s)) ok now (r, sd_queues s) in (written, r, s\<lparr>sd_queues := q\<rparr>)))"

section \<open>Runs\<close>

text \<open>
  A relay at work: the relay, its scheduler and the packets that readers hold between the two halves of \<open>enqueue\<close>. The other fields
  record history: the datagrams that arrived; those that went into a blackhole, that came from the server before any client was known,
  and that were refused for want of capacity; the packets that were admitted; those lost on the way (by the loss rate or a failed
  write), those released when the relay was closed, and the writes with their times. A packet is recorded without its due time
  where that is not set yet.
\<close>

record 'g relaying =
  ry_relay :: relay
  ry_sched :: "'g scheduler"
  ry_sending :: "relayPacket multiset"
  ry_arrived :: "(Direction \<times> bytes) multiset"
  ry_blackholed :: "(Direction \<times> bytes) multiset"
  ry_clientless :: "(Direction \<times> bytes) multiset"
  ry_refused :: "(Direction \<times> bytes) multiset"
  ry_admitted :: "relayPacket multiset"
  ry_lost :: "relayPacket multiset"
  ry_released :: "relayPacket multiset"
  ry_written :: "(time \<times> relayPacket) list"

definition untimed :: "relayPacket \<Rightarrow> relayPacket" where
  "untimed packet = packet\<lparr>rp_at := 0\<rparr>"

definition arrival_of :: "relayPacket \<Rightarrow> Direction \<times> bytes" where
  "arrival_of packet = (rp_direction packet, rp_payload packet)"

text \<open>A datagram arrives: a reader admits it, or the state it was read in says why it did not.\<close>

definition admit :: "Direction \<Rightarrow> bytes \<Rightarrow> relayPacket option \<times> relay \<Rightarrow> 'g relaying \<Rightarrow> 'g relaying" where
  "admit direction payload res y =
     (let r = ry_relay y; a = (direction, payload); y = y\<lparr>ry_relay := snd res, ry_arrived := add_mset a (ry_arrived y)\<rparr> in
      case fst res of
        Some packet \<Rightarrow> y\<lparr>ry_sending := add_mset packet (ry_sending y), ry_admitted := add_mset (untimed packet) (ry_admitted y)\<rparr>
      | None \<Rightarrow>
          if direction = ServerToClient \<and> rl_clientAddr r = None then y\<lparr>ry_clientless := add_mset a (ry_clientless y)\<rparr>
          else if (if direction = ServerToClient then rl_blackholeReverse r else rl_blackholeForward r)
          then y\<lparr>ry_blackholed := add_mset a (ry_blackholed y)\<rparr>
          else y\<lparr>ry_refused := add_mset a (ry_refused y)\<rparr>)"

text \<open>The packets inside: held by a reader, in the channel, or waiting until they are due.\<close>

definition in_relay :: "'g relaying \<Rightarrow> relayPacket multiset" where
  "in_relay y = image_mset untimed (ry_sending y + mset (rl_in (ry_relay y)) + mset (sd_queues (ry_sched y)))"

inductive relay_step :: "'g generator \<Rightarrow> relayConfig \<Rightarrow> 'g relaying \<Rightarrow> 'g relaying \<Rightarrow> bool" for gen config where
  from_client: "relay_step gen config y (admit ClientToServer payload (readClient payload source (ry_relay y)) y)"
| from_upstream: "relay_step gen config y (admit ServerToClient payload (readUpstream payload (ry_relay y)) y)"
| sends: "packet \<in># ry_sending y \<Longrightarrow> int (length (rl_in (ry_relay y))) < rl_maxPackets (ry_relay y) \<Longrightarrow>
    relay_step gen config y (y\<lparr>ry_relay := (ry_relay y)\<lparr>rl_in := rl_in (ry_relay y) @ [packet]\<rparr>, ry_sending := ry_sending y - {#packet#}\<rparr>)"
| gives_up: "packet \<in># ry_sending y \<Longrightarrow> rl_cancelled (ry_relay y) \<Longrightarrow>
    relay_step gen config y (y\<lparr>ry_relay := releasePending (length (rp_payload packet)) (ry_relay y), ry_sending := ry_sending y - {#packet#},
      ry_released := add_mset (untimed packet) (ry_released y)\<rparr>)"
| receives: "\<not> sd_done (ry_sched y) \<Longrightarrow> rl_in (ry_relay y) = packet # rest \<Longrightarrow>
    schedule_packet gen config now (ry_relay y, ry_sched y) = Some (r, s) \<Longrightarrow>
    relay_step gen config y (y\<lparr>ry_relay := r, ry_sched := s,
      ry_lost := (if sd_queues s = sd_queues (ry_sched y) then add_mset (untimed packet) (ry_lost y) else ry_lost y)\<rparr>)"
| wakes: "\<not> sd_done (ry_sched y) \<Longrightarrow> schedule_wake ok now (ry_relay y, ry_sched y) = (written, r, s) \<Longrightarrow>
    relay_step gen config y (y\<lparr>ry_relay := r, ry_sched := s, ry_written := ry_written y @ map (Pair now) written,
      ry_lost := ry_lost y + image_mset untimed (mset (sd_queues (ry_sched y)) - mset (sd_queues s) - mset written)\<rparr>)"
| stops: "\<not> sd_done (ry_sched y) \<Longrightarrow> rl_cancelled (ry_relay y) \<Longrightarrow> schedule_stop (ry_relay y, ry_sched y) = (r, s) \<Longrightarrow>
    relay_step gen config y (y\<lparr>ry_relay := r, ry_sched := s,
      ry_released := ry_released y + image_mset untimed (mset (rl_in (ry_relay y)) + mset (sd_queues (ry_sched y)))\<rparr>)"
| rebinds: "relay_step gen config y (y\<lparr>ry_relay := snd (RebindUpstream listen failed replacement (ry_relay y))\<rparr>)"
| blackholes: "relay_step gen config y (y\<lparr>ry_relay := SetBlackhole direction enabled (ry_relay y)\<rparr>)"
| closes: "relay_step gen config y (y\<lparr>ry_relay := Close_relay (ry_relay y)\<rparr>)"
| fails: "0 < rl_closers (ry_relay y) \<Longrightarrow>
    relay_step gen config y (y\<lparr>ry_relay := (Close_relay (ry_relay y))\<lparr>rl_closers := rl_closers (ry_relay y) - 1\<rparr>\<rparr>)"

definition relay_inv :: "'g relaying \<Rightarrow> bool" where
  "relay_inv y \<longleftrightarrow>
     ry_admitted y = in_relay y + image_mset untimed (mset (map snd (ry_written y))) + ry_lost y + ry_released y
     \<and> ry_arrived y = image_mset arrival_of (ry_admitted y) + ry_blackholed y + ry_clientless y + ry_refused y
     \<and> rl_dropped (ry_relay y) = of_nat (size (ry_lost y) + size (ry_blackholed y))
     \<and> (ry_refused y \<noteq> {#} \<longleftrightarrow> rl_overloaded (ry_relay y)) \<and> (rl_overloaded (ry_relay y) \<longrightarrow> rl_err (ry_relay y) = Some ErrHarnessOverload)
     \<and> (ry_released y \<noteq> {#} \<longrightarrow> rl_cancelled (ry_relay y)) \<and> fst ` set_mset (ry_clientless y) \<subseteq> {ServerToClient}
     \<and> rl_pendingPackets (ry_relay y) = int (size (in_relay y))
     \<and> rl_pendingBytes (ry_relay y) = (\<Sum>p \<in># in_relay y. int (length (rp_payload p)))
     \<and> rl_pendingPackets (ry_relay y) \<le> rl_peakPackets (ry_relay y) \<and> rl_peakPackets (ry_relay y) \<le> rl_maxPackets (ry_relay y)
     \<and> rl_pendingBytes (ry_relay y) \<le> rl_peakBytes (ry_relay y) \<and> rl_peakBytes (ry_relay y) \<le> rl_maxBytes (ry_relay y)
     \<and> wf_heap rp_at (sd_queues (ry_sched y)) \<and> rl_forwarded (ry_relay y) = of_nat (length (ry_written y))
     \<and> (\<forall>(t, p) \<in> set (ry_written y). rp_at p \<le> t)"

section \<open>The accounts\<close>

lemma untimed_simps [simp]: "rp_payload (untimed p) = rp_payload p" "untimed (p\<lparr>rp_at := t\<rparr>) = untimed p" "untimed (untimed p) = untimed p"
  by (simp_all add: untimed_def)

definition payload_sum :: "relayPacket multiset \<Rightarrow> int" where
  "payload_sum M = (\<Sum>p \<in># M. int (length (rp_payload p)))"

lemma payload_sum_simps [simp]: "payload_sum {#} = 0" "payload_sum (add_mset p M) = int (length (rp_payload p)) + payload_sum M"
  "payload_sum (M + N) = payload_sum M + payload_sum N" "payload_sum (image_mset untimed M) = payload_sum M"
  by (simp_all add: payload_sum_def multiset.map_comp comp_def)

lemma payload_sum_nonneg: "0 \<le> payload_sum M"
  by (induction M) simp_all

lemma schedule_due_take:
  assumes "wf_heap rp_at q" "schedule_due fuel ok now (r, q) = (written, r', q')"
  shows "\<exists>xs. packets.take_due rp_at fuel now q = (xs, q') \<and> subseq written xs
    \<and> r' = r\<lparr>rl_pendingPackets := rl_pendingPackets r - int (length xs), rl_pendingBytes := rl_pendingBytes r - payload_sum (mset xs),
         rl_forwarded := rl_forwarded r + of_nat (length written), rl_dropped := rl_dropped r + of_nat (length xs - length written)\<rparr>"
  using assms
proof (induction fuel arbitrary: r q written)
  case 0
  then show ?case by simp
next
  case (Suc fuel)
  show ?case
  proof (cases "q \<noteq> [] \<and> rp_at (q ! 0) \<le> now")
    case False
    then have "packets.take_due rp_at (Suc fuel) now q = ([], q)"
      by (auto simp: heap_top_def)
    with False Suc.prems(2) show ?thesis by auto
  next
    case True
    from heap_Pop_correct [OF Suc.prems(1)] True obtain q1 where q1: "heap_Pop rp_at q = Some (q ! 0, q1)" "wf_heap rp_at q1"
      by blast
    define n where "n = length (rp_payload (q ! 0))"
    define r1 where "r1 = (if ok fuel then recordForward n r else recordDrop n r)"
    obtain written1 where rest: "schedule_due fuel ok now (r1, q1) = (written1, r', q')"
      and written: "written = (if ok fuel then q ! 0 # written1 else written1)"
      using Suc.prems(2) True q1(1) by (auto simp: r1_def n_def split: if_splits prod.splits)
    from Suc.IH [OF q1(2) rest] obtain xs where
      xs: "packets.take_due rp_at fuel now q1 = (xs, q')" "subseq written1 xs"
        "r' = r1\<lparr>rl_pendingPackets := rl_pendingPackets r1 - int (length xs), rl_pendingBytes := rl_pendingBytes r1 - payload_sum (mset xs),
           rl_forwarded := rl_forwarded r1 + of_nat (length written1), rl_dropped := rl_dropped r1 + of_nat (length xs - length written1)\<rparr>"
      by blast
    have "packets.take_due rp_at (Suc fuel) now q = (q ! 0 # xs, q')"
      using True q1(1) xs(1) by (simp add: heap_top_def)
    moreover have "subseq written (q ! 0 # xs)"
      using xs(2) written by auto
    moreover have "length written1 \<le> length xs"
      using xs(2) by (rule list_emb_length)
    ultimately show ?thesis
      using xs(3) written
      by (intro exI [of _ "q ! 0 # xs"]) (auto simp: r1_def recordForward_def recordDrop_def releasePending_def n_def Suc_diff_le algebra_simps)
  qed
qed

lemma schedule_due_effect:
  assumes "wf_heap rp_at q" "schedule_due (length q) ok now (r, q) = (written, r', q')"
  shows "\<exists>xs. mset xs + mset q' = mset q \<and> wf_heap rp_at q' \<and> sorted (map rp_at xs) \<and> (\<forall>x \<in> set xs. rp_at x \<le> now)
    \<and> (\<forall>y \<in> set q'. now < rp_at y) \<and> subseq written xs
    \<and> r' = r\<lparr>rl_pendingPackets := rl_pendingPackets r - int (length xs), rl_pendingBytes := rl_pendingBytes r - payload_sum (mset xs),
         rl_forwarded := rl_forwarded r + of_nat (length written), rl_dropped := rl_dropped r + of_nat (length xs - length written)\<rparr>"
proof -
  from schedule_due_take [OF assms] obtain xs where
    xs: "packets.take_due rp_at (length q) now q = (xs, q')" "subseq written xs"
      "r' = r\<lparr>rl_pendingPackets := rl_pendingPackets r - int (length xs), rl_pendingBytes := rl_pendingBytes r - payload_sum (mset xs),
         rl_forwarded := rl_forwarded r + of_nat (length written), rl_dropped := rl_dropped r + of_nat (length xs - length written)\<rparr>"
    by blast
  from packets.take_due_correct [OF assms(1) _ xs(1)] xs(2,3) show ?thesis
    by (intro exI [of _ xs]) simp
qed

lemma pop_all_mset: "wf_heap rp_at q \<Longrightarrow> mset (pop_all (length q) q) = mset q"
proof (induction "length q" arbitrary: q)
  case 0
  then show ?case by simp
next
  case (Suc n)
  then have "q \<noteq> []" by auto
  from heap_Pop_correct [OF Suc.prems this] obtain q1 where
    q1: "heap_Pop rp_at q = Some (q ! 0, q1)" "wf_heap rp_at q1" "mset q = add_mset (q ! 0) (mset q1)"
    by blast
  then have "length q1 = n"
    using Suc.hyps(2) by (metis diff_Suc_1 size_add_mset size_mset)
  with Suc.hyps(1) [of q1] Suc.hyps(2) [symmetric] q1 show ?case by simp
qed

lemma release_list_eq:
  "release_list ps r = r\<lparr>rl_pendingPackets := rl_pendingPackets r - int (length ps), rl_pendingBytes := rl_pendingBytes r - payload_sum (mset ps)\<rparr>"
  by (induction ps arbitrary: r) (simp_all add: releasePending_def algebra_simps)

lemma draw_frame: "draw gen config d s = Some (x, s') \<Longrightarrow> sd_queues s' = sd_queues s \<and> sd_done s' = sd_done s"
  by (auto simp: draw_def split: if_splits)

lemma schedule_packet_cases:
  assumes "schedule_packet gen config now (r, s) = Some (r', s')" "rl_in r = packet # rest"
  shows "r' = recordDrop (length (rp_payload packet)) (r\<lparr>rl_in := rest\<rparr>) \<and> sd_queues s' = sd_queues s
    \<or> r' = r\<lparr>rl_in := rest\<rparr> \<and> (\<exists>t. sd_queues s' = heap_Push rp_at (sd_queues s) (packet\<lparr>rp_at := t\<rparr>))"
proof -
  from assms obtain x s1 where x: "draw gen config (rp_direction packet) s = Some (x, s1)"
    by (auto simp: schedule_packet_def)
  note frame = draw_frame [OF x]
  show ?thesis
  proof (cases x)
    case None
    with assms x frame show ?thesis by (simp add: schedule_packet_def)
  next
    case (Some delay)
    with assms x frame have "r' = r\<lparr>rl_in := rest\<rparr>" "sd_queues s' = heap_Push rp_at (sd_queues s) (packet\<lparr>rp_at := now + delay\<rparr>)"
      by (auto simp: schedule_packet_def)
    then show ?thesis by blast
  qed
qed

lemma enqueue_relay_cases:
  assumes "enqueue_relay d payload target r = (p, r')" "rl_pendingPackets r \<le> rl_peakPackets r" "rl_peakPackets r \<le> rl_maxPackets r"
    and "rl_pendingBytes r \<le> rl_peakBytes r" "rl_peakBytes r \<le> rl_maxBytes r"
  shows "rl_in r' = rl_in r \<and> rl_forwarded r' = rl_forwarded r \<and> rl_maxPackets r' = rl_maxPackets r \<and> rl_maxBytes r' = rl_maxBytes r
    \<and> rl_pendingPackets r' \<le> rl_peakPackets r' \<and> rl_peakPackets r' \<le> rl_maxPackets r'
    \<and> rl_pendingBytes r' \<le> rl_peakBytes r' \<and> rl_peakBytes r' \<le> rl_maxBytes r' \<and> rl_cancelled r' = rl_cancelled r
    \<and> rl_pendingPackets r' = rl_pendingPackets r + (case p of None \<Rightarrow> 0 | Some _ \<Rightarrow> 1)
    \<and> rl_pendingBytes r' = rl_pendingBytes r + (case p of None \<Rightarrow> 0 | Some q \<Rightarrow> int (length (rp_payload q)))"
  using assms by (auto simp: enqueue_relay_def failLocked_def Let_def split: if_splits)

text \<open>What \<open>enqueue\<close> counts: a blackholed datagram is dropped, one without room overloads the relay, and nothing else does either.\<close>

lemma enqueue_relay_counts:
  assumes "enqueue_relay d payload target r = (p, r')" "blackholed = (if d = ServerToClient then rl_blackholeReverse r else rl_blackholeForward r)"
  shows "rl_dropped r' = rl_dropped r + of_bool blackholed" "blackholed \<Longrightarrow> p = None"
    "p = None \<Longrightarrow> \<not> blackholed \<Longrightarrow> rl_overloaded r' \<and> rl_err r' = (if rl_overloaded r then rl_err r else Some ErrHarnessOverload)"
    "p \<noteq> None \<or> blackholed \<Longrightarrow> rl_overloaded r' = rl_overloaded r \<and> rl_err r' = rl_err r"
    "p = Some q \<Longrightarrow> arrival_of q = (d, payload)"
  using assms by (auto simp: enqueue_relay_def failLocked_def arrival_of_def Let_def split: if_splits)

text \<open>A change of the relay that leaves the accounts and the channel alone.\<close>

definition same_accounts :: "relay \<Rightarrow> relay \<Rightarrow> bool" where
  "same_accounts r r' \<longleftrightarrow>
     rl_in r' = rl_in r \<and> rl_forwarded r' = rl_forwarded r \<and> rl_maxPackets r' = rl_maxPackets r \<and> rl_maxBytes r' = rl_maxBytes r
     \<and> rl_pendingPackets r' = rl_pendingPackets r \<and> rl_pendingBytes r' = rl_pendingBytes r \<and> rl_peakPackets r' = rl_peakPackets r
     \<and> rl_peakBytes r' = rl_peakBytes r \<and> rl_dropped r' = rl_dropped r \<and> rl_overloaded r' = rl_overloaded r \<and> rl_err r' = rl_err r
     \<and> (rl_cancelled r \<longrightarrow> rl_cancelled r')"

lemma same_accounts_inv: "relay_inv y \<Longrightarrow> same_accounts (ry_relay y) r \<Longrightarrow> relay_inv (y\<lparr>ry_relay := r\<rparr>)"
  by (simp add: relay_inv_def same_accounts_def in_relay_def)

lemma callers_same_accounts:
  "same_accounts r (snd (RebindUpstream listen failed replacement r))" "same_accounts r (SetBlackhole d enabled r)"
  "same_accounts r (Close_relay r)" "same_accounts r ((Close_relay r)\<lparr>rl_closers := n\<rparr>)" "same_accounts r (r\<lparr>rl_clientAddr := a\<rparr>)"
  by (simp_all add: same_accounts_def RebindUpstream_def SetBlackhole_def Close_relay_def split: option.split)

lemma enqueue_inv:
  assumes "relay_inv y" "enqueue_relay d payload target (ry_relay y) = (p, r')" "d = ServerToClient \<Longrightarrow> rl_clientAddr (ry_relay y) \<noteq> None"
  shows "relay_inv (admit d payload (p, r') y)"
proof -
  define blackholed where "blackholed = (if d = ServerToClient then rl_blackholeReverse (ry_relay y) else rl_blackholeForward (ry_relay y))"
  note cases = enqueue_relay_cases [OF assms(2)] and counts = enqueue_relay_counts [OF assms(2) blackholed_def]
  have inv: "ry_refused y \<noteq> {#} \<longleftrightarrow> rl_overloaded (ry_relay y)" "rl_overloaded (ry_relay y) \<longrightarrow> rl_err (ry_relay y) = Some ErrHarnessOverload"
    using assms(1) by (simp_all add: relay_inv_def)
  show ?thesis
  proof (cases p)
    case None
    then have y: "admit d payload (p, r') y =
        (if blackholed then y\<lparr>ry_relay := r', ry_arrived := add_mset (d, payload) (ry_arrived y), ry_blackholed := add_mset (d, payload) (ry_blackholed y)\<rparr>
         else y\<lparr>ry_relay := r', ry_arrived := add_mset (d, payload) (ry_arrived y), ry_refused := add_mset (d, payload) (ry_refused y)\<rparr>)"
      using assms(3) by (auto simp: admit_def blackholed_def Let_def)
    show ?thesis
    proof (cases blackholed)
      case True
      with None cases assms(1) counts(1,4) inv show ?thesis
        unfolding y by (simp add: relay_inv_def in_relay_def)
    next
      case False
      with None cases assms(1) counts(1,3) inv show ?thesis
        unfolding y by (simp add: relay_inv_def in_relay_def)
    qed
  next
    case (Some q)
    then have "\<not> blackholed" "arrival_of q = (d, payload)" "rl_overloaded r' = rl_overloaded (ry_relay y)" "rl_err r' = rl_err (ry_relay y)"
      using counts by auto
    moreover have "arrival_of (untimed q) = arrival_of q"
      by (simp add: arrival_of_def untimed_def)
    ultimately show ?thesis
      using Some cases assms(1) counts(1) by (simp add: relay_inv_def admit_def in_relay_def Let_def)
  qed
qed

lemma readers_inv: "relay_inv y \<Longrightarrow> relay_inv (admit ClientToServer payload (readClient payload source (ry_relay y)) y)"
  "relay_inv y \<Longrightarrow> relay_inv (admit ServerToClient payload (readUpstream payload (ry_relay y)) y)"
proof -
  assume inv: "relay_inv y"
  define r where "r = (ry_relay y)\<lparr>rl_clientAddr := Some source\<rparr>"
  have "relay_inv (y\<lparr>ry_relay := r\<rparr>)"
    using same_accounts_inv [OF inv callers_same_accounts(5)] by (simp add: r_def)
  moreover obtain p r' where read: "readClient payload source (ry_relay y) = (p, r')" "enqueue_relay ClientToServer payload (rl_upstreamAddr r) r = (p, r')"
    by (cases "readClient payload source (ry_relay y)") (simp add: readClient_def r_def)
  ultimately have "relay_inv (admit ClientToServer payload (p, r') (y\<lparr>ry_relay := r\<rparr>))"
    by (intro enqueue_inv) simp_all
  moreover have "admit ClientToServer payload (p, r') (y\<lparr>ry_relay := r\<rparr>) = admit ClientToServer payload (p, r') y"
    by (simp add: admit_def r_def Let_def split: option.split)
  ultimately show "relay_inv (admit ClientToServer payload (readClient payload source (ry_relay y)) y)"
    using read(1) by simp
  show "relay_inv (admit ServerToClient payload (readUpstream payload (ry_relay y)) y)"
  proof (cases "rl_clientAddr (ry_relay y)")
    case None
    with inv show ?thesis by (simp add: readUpstream_def admit_def relay_inv_def in_relay_def Let_def)
  next
    case (Some target)
    with enqueue_inv [OF inv] show ?thesis
      by (cases "readUpstream payload (ry_relay y)") (simp add: readUpstream_def)
  qed
qed

lemma sends_inv:
  assumes "relay_inv y" "packet \<in># ry_sending y"
  shows "relay_inv (y\<lparr>ry_relay := (ry_relay y)\<lparr>rl_in := rl_in (ry_relay y) @ [packet]\<rparr>, ry_sending := ry_sending y - {#packet#}\<rparr>)"
proof -
  obtain others where "ry_sending y = add_mset packet others"
    using assms(2) by (metis multi_member_split)
  with assms(1) show ?thesis
    by (simp add: relay_inv_def in_relay_def)
qed

lemma gives_up_inv:
  assumes "relay_inv y" "packet \<in># ry_sending y" "rl_cancelled (ry_relay y)"
  shows "relay_inv (y\<lparr>ry_relay := releasePending (length (rp_payload packet)) (ry_relay y), ry_sending := ry_sending y - {#packet#},
    ry_released := add_mset (untimed packet) (ry_released y)\<rparr>)"
proof -
  obtain others where "ry_sending y = add_mset packet others"
    using assms(2) by (metis multi_member_split)
  with assms(1,3) show ?thesis
    by (simp add: relay_inv_def in_relay_def releasePending_def)
qed

lemma receives_inv:
  assumes "relay_inv y" "rl_in (ry_relay y) = packet # rest" "schedule_packet gen config now (ry_relay y, ry_sched y) = Some (r, s)"
  shows "relay_inv (y\<lparr>ry_relay := r, ry_sched := s,
    ry_lost := (if sd_queues s = sd_queues (ry_sched y) then add_mset (untimed packet) (ry_lost y) else ry_lost y)\<rparr>)"
proof -
  have wf: "wf_heap rp_at (sd_queues (ry_sched y))"
    using assms(1) by (simp add: relay_inv_def)
  consider "r = recordDrop (length (rp_payload packet)) ((ry_relay y)\<lparr>rl_in := rest\<rparr>)" "sd_queues s = sd_queues (ry_sched y)"
    | t where "r = (ry_relay y)\<lparr>rl_in := rest\<rparr>" "sd_queues s = heap_Push rp_at (sd_queues (ry_sched y)) (packet\<lparr>rp_at := t\<rparr>)"
    using schedule_packet_cases [OF assms(3,2)] by blast
  then show ?thesis
  proof cases
    case 1
    with assms(1,2) show ?thesis
      by (simp add: relay_inv_def in_relay_def recordDrop_def releasePending_def)
  next
    case 2
    note push = heap_Push_correct [OF wf, of "packet\<lparr>rp_at := t\<rparr>"]
    then have "sd_queues s \<noteq> sd_queues (ry_sched y)"
      using 2(2) by (metis add_mset_remove_trivial_eq multi_self_add_other_not_self union_single_eq_member)
    with 2 push assms(1,2) show ?thesis
      by (simp add: relay_inv_def in_relay_def)
  qed
qed

lemma subseq_mset: "subseq xs ys \<Longrightarrow> mset xs \<subseteq># mset ys"
  by (induction rule: list_emb.induct) (auto simp: subset_mset.le_imp_diff_is_add intro: subset_mset.order_trans)

lemma forget_time [simp]: "image_mset (snd \<circ> Pair t) M = M"
  by (simp add: comp_def)

lemma wakes_inv:
  assumes "relay_inv y" "schedule_wake ok now (ry_relay y, ry_sched y) = (written, r, s)"
  shows "relay_inv (y\<lparr>ry_relay := r, ry_sched := s, ry_written := ry_written y @ map (Pair now) written,
    ry_lost := ry_lost y + image_mset untimed (mset (sd_queues (ry_sched y)) - mset (sd_queues s) - mset written)\<rparr>)"
proof -
  have wf: "wf_heap rp_at (sd_queues (ry_sched y))"
    using assms(1) by (simp add: relay_inv_def)
  obtain q' where due: "schedule_due (length (sd_queues (ry_sched y))) ok now (ry_relay y, sd_queues (ry_sched y)) = (written, r, q')"
    and s: "s = (ry_sched y)\<lparr>sd_queues := q'\<rparr>"
    using assms(2) by (auto simp: schedule_wake_def split: prod.splits)
  from schedule_due_effect [OF wf due] obtain xs where
    xs: "mset (sd_queues (ry_sched y)) = mset xs + mset q'" "wf_heap rp_at q'" "\<forall>x \<in> set xs. rp_at x \<le> now" "subseq written xs"
      "r = (ry_relay y)\<lparr>rl_pendingPackets := rl_pendingPackets (ry_relay y) - int (length xs),
         rl_pendingBytes := rl_pendingBytes (ry_relay y) - payload_sum (mset xs), rl_forwarded := rl_forwarded (ry_relay y) + of_nat (length written),
         rl_dropped := rl_dropped (ry_relay y) + of_nat (length xs - length written)\<rparr>"
    by metis
  have sub: "mset written \<subseteq># mset xs"
    using xs(4) by (rule subseq_mset)
  then obtain failed where failed: "mset xs = mset written + failed"
    by (metis mset_subset_eq_exists_conv)
  have early: "\<forall>p \<in> set written. rp_at p \<le> now"
    using sub xs(3) by (metis mset_subset_eqD set_mset_mset)
  have len: "int (length xs) = int (length written) + int (size failed)" "payload_sum (mset xs) = payload_sum (mset written) + payload_sum failed"
    using failed by (metis of_nat_add size_mset size_union, simp)
  have dropped: "length xs - length written = size failed"
    using len(1) by simp
  have gone: "mset (sd_queues (ry_sched y)) - mset (sd_queues s) - mset written = failed"
    using xs(1) failed s by simp
  show ?thesis
    unfolding gone using assms(1) xs s failed len early payload_sum_nonneg [of "mset xs"] dropped
    by (auto simp: relay_inv_def in_relay_def payload_sum_def [symmetric])
qed

lemma stops_inv:
  assumes "relay_inv y" "schedule_stop (ry_relay y, ry_sched y) = (r, s)" "rl_cancelled (ry_relay y)"
  shows "relay_inv (y\<lparr>ry_relay := r, ry_sched := s,
    ry_released := ry_released y + image_mset untimed (mset (rl_in (ry_relay y)) + mset (sd_queues (ry_sched y)))\<rparr>)"
proof -
  have wf: "wf_heap rp_at (sd_queues (ry_sched y))"
    using assms(1) by (simp add: relay_inv_def)
  note all = pop_all_mset [OF wf]
  then have "length (pop_all (length (sd_queues (ry_sched y))) (sd_queues (ry_sched y))) = length (sd_queues (ry_sched y))"
    by (metis size_mset)
  with all assms show ?thesis
    using payload_sum_nonneg [of "mset (rl_in (ry_relay y))"] payload_sum_nonneg [of "mset (sd_queues (ry_sched y))"]
    by (auto simp: relay_inv_def schedule_stop_def release_list_eq in_relay_def payload_sum_def [symmetric] wf_heap_def is_heap_def)
qed

lemma relay_step_inv: "relay_step gen config y y' \<Longrightarrow> relay_inv y \<Longrightarrow> relay_inv y'"
  by (induction rule: relay_step.induct)
    (blast intro: readers_inv sends_inv gives_up_inv receives_inv wakes_inv stops_inv same_accounts_inv callers_same_accounts)+

definition start_relay :: "'g generator \<Rightarrow> relayConfig \<Rightarrow> relay \<Rightarrow> 'g relaying" where
  "start_relay gen config r =
     \<lparr>ry_relay = r, ry_sched = new_scheduler gen config, ry_sending = {#}, ry_arrived = {#}, ry_blackholed = {#}, ry_clientless = {#},
      ry_refused = {#}, ry_admitted = {#}, ry_lost = {#}, ry_released = {#}, ry_written = []\<rparr>"

lemma start_relay_inv: "New a b upstream config = Inr (config', r) \<Longrightarrow> relay_inv (start_relay gen config' r)"
  by (auto simp: New_def relay_config_def Let_def start_relay_def relay_inv_def in_relay_def new_scheduler_def new_relay_def wf_heap_def is_heap_def
      split: if_splits option.splits)

lemma relay_run_inv: "(relay_step gen config)\<^sup>*\<^sup>* y y' \<Longrightarrow> relay_inv y \<Longrightarrow> relay_inv y'"
  by (induction rule: rtranclp_induct) (auto intro: relay_step_inv)

section \<open>Delays\<close>

text \<open>What \<open>math/rand/v2\<close> documents of its generators.\<close>

definition generator_ok :: "'g generator \<Rightarrow> bool" where
  "generator_ok gen \<longleftrightarrow> (\<forall>g n. 0 < n \<longrightarrow> 0 \<le> fst (gr_Int64N gen g n) \<and> fst (gr_Int64N gen g n) < n)"

definition delays_ok :: "relayConfig \<Rightarrow> bool" where
  "delays_ok config \<longleftrightarrow> 0 \<le> rc_RTT config \<and> 0 \<le> rc_Jitter config \<and> rc_Jitter config < 2 ^ 62 \<and> rc_RTT config + rc_Jitter config \<le> maxInt"

lemma oneWayDelay_bounds:
  assumes "generator_ok gen" "delays_ok config"
  shows "\<exists>delay g'. oneWayDelay gen config g = Some (delay, g') \<and> max 0 (rc_RTT config div 2 - rc_Jitter config) \<le> delay
    \<and> delay \<le> 2 * (rc_RTT config div 2) + rc_Jitter config"
proof -
  let ?J = "rc_Jitter config" and ?D = "rc_RTT config div 2"
  have range: "0 \<le> ?D" "0 \<le> ?J" "?J < 2 ^ 62" "2 * ?D + ?J \<le> maxInt"
    using assms(2) by (auto simp: delays_ok_def)
  then have n: "wrap64 (wrap64 (?J * 2) + 1) = 2 * ?J + 1"
    by (simp add: wrap64_id int64_range_def)
  have late: "wrap64 (d + ?D) = d + ?D" if "0 \<le> d" "d \<le> ?D + ?J" for d
    using that range by (intro wrap64_id) (simp add: int64_range_def maxInt_def)
  show ?thesis
  proof (cases "?J > 0")
    case True
    obtain x g1 where x: "gr_Int64N gen g (2 * ?J + 1) = (x, g1)"
      by fastforce
    then have "0 \<le> x" "x < 2 * ?J + 1"
      using assms(1) range by (auto simp: generator_ok_def dest!: spec [of _ g] spec [of _ "2 * ?J + 1"])
    moreover from this range have "wrap64 (?D + wrap64 (x - ?J)) = ?D + (x - ?J)"
      by (simp add: wrap64_id int64_range_def maxInt_def)
    moreover obtain y g2 where "gr_Float64 gen g1 = (y, g2)"
      by fastforce
    ultimately show ?thesis
      using True x n range late [of "max 0 (?D + (x - ?J))"] by (auto simp: oneWayDelay_def Let_def max_def split: if_splits)
  next
    case False
    obtain y g2 where "gr_Float64 gen g = (y, g2)"
      by fastforce
    with False range late [of ?D] show ?thesis
      by (auto simp: oneWayDelay_def Let_def)
  qed
qed

text \<open>The fates of the packets the scheduler receives, in the order of their directions.\<close>

fun fates :: "'g generator \<Rightarrow> relayConfig \<Rightarrow> Direction list \<Rightarrow> 'g scheduler \<Rightarrow> duration option list option" where
  "fates gen config [] s = Some []"
| "fates gen config (d # ds) s = Option.bind (draw gen config d s) (\<lambda>(x, s). map_option ((#) x) (fates gen config ds s))"

lemma fate_bounds:
  assumes "generator_ok gen" "delays_ok config"
  shows "\<exists>x g'. fate gen config g = Some (x, g')
    \<and> (\<forall>delay. x = Some delay \<longrightarrow> max 0 (rc_RTT config div 2 - rc_Jitter config) \<le> delay \<and> delay \<le> 2 * (rc_RTT config div 2) + rc_Jitter config)"
proof -
  obtain y g1 where "gr_Float64 gen g = (y, g1)"
    by fastforce
  then show ?thesis
    using oneWayDelay_bounds [OF assms, of g1] by (auto simp: fate_def)
qed

definition own_generator :: "Direction \<Rightarrow> 'g scheduler \<Rightarrow> 'g" where
  "own_generator d s = (if d = ServerToClient then sd_reverse s else sd_forward s)"

definition set_own :: "Direction \<Rightarrow> 'g \<Rightarrow> 'g scheduler \<Rightarrow> 'g scheduler" where
  "set_own d g s = (if d = ServerToClient then s\<lparr>sd_reverse := g\<rparr> else s\<lparr>sd_forward := g\<rparr>)"

lemma draw_eq: "draw gen config d s = map_option (\<lambda>(x, g). (x, set_own d g s)) (fate gen config (own_generator d s))"
  by (simp add: draw_def own_generator_def set_own_def)

lemma own_set_own: "own_generator d (set_own d g s) = g"
  "(d = ServerToClient) \<noteq> (d' = ServerToClient) \<Longrightarrow> own_generator d' (set_own d g s) = own_generator d' s"
  by (auto simp: own_generator_def set_own_def)

lemma fates_own:
  "own_generator d s = own_generator d s' \<Longrightarrow> set ds \<subseteq> {d} \<Longrightarrow> fates gen config ds s = fates gen config ds s'"
proof (induction ds arbitrary: s s')
  case (Cons e ds)
  then have e: "e = d" by simp
  show ?case
  proof (cases "fate gen config (own_generator d s')")
    case None
    with Cons.prems(1) e show ?thesis by (simp add: draw_eq)
  next
    case (Some xg)
    obtain x g where xg: "xg = (x, g)"
      by fastforce
    have "fates gen config ds (set_own d g s) = fates gen config ds (set_own d g s')"
      using Cons.prems(2) by (intro Cons.IH) (simp_all add: own_set_own)
    with Some xg Cons.prems(1) e show ?thesis by (simp add: draw_eq)
  qed
qed simp

lemma fates_split:
  assumes "generator_ok gen" "delays_ok config" "set ds \<subseteq> {ClientToServer, ServerToClient}" "d \<in> {ClientToServer, ServerToClient}"
  shows "\<exists>xs. fates gen config ds s = Some xs \<and> length xs = length ds
    \<and> fates gen config (filter ((=) d) ds) s = Some (map snd (filter (\<lambda>dx. fst dx = d) (zip ds xs)))
    \<and> (\<forall>delay. Some delay \<in> set xs \<longrightarrow> max 0 (rc_RTT config div 2 - rc_Jitter config) \<le> delay \<and> delay \<le> 2 * (rc_RTT config div 2) + rc_Jitter config)"
  using assms(3)
proof (induction ds arbitrary: s)
  case (Cons e ds)
  from fate_bounds [OF assms(1,2), of "own_generator e s"] obtain x g where x: "fate gen config (own_generator e s) = Some (x, g)"
      "\<forall>delay. x = Some delay \<longrightarrow> max 0 (rc_RTT config div 2 - rc_Jitter config) \<le> delay \<and> delay \<le> 2 * (rc_RTT config div 2) + rc_Jitter config"
    by blast
  define s1 where "s1 = set_own e g s"
  have draw: "draw gen config e s = Some (x, s1)"
    using x(1) by (simp add: draw_eq s1_def)
  have "set ds \<subseteq> {ClientToServer, ServerToClient}"
    using Cons.prems by simp
  from Cons.IH [OF this, of s1] obtain xs where xs: "fates gen config ds s1 = Some xs" "length xs = length ds"
      "fates gen config (filter ((=) d) ds) s1 = Some (map snd (filter (\<lambda>dx. fst dx = d) (zip ds xs)))"
      "\<forall>delay. Some delay \<in> set xs \<longrightarrow> max 0 (rc_RTT config div 2 - rc_Jitter config) \<le> delay \<and> delay \<le> 2 * (rc_RTT config div 2) + rc_Jitter config"
    by blast
  have other: "fates gen config (filter ((=) d) ds) s = fates gen config (filter ((=) d) ds) s1" if "d \<noteq> e"
  proof (rule fates_own)
    have "(e = ServerToClient) \<noteq> (d = ServerToClient)"
      using that Cons.prems assms(4) by auto
    then show "own_generator d s = own_generator d s1"
      by (simp add: s1_def own_set_own)
  qed auto
  have "fates gen config (e # ds) s = Some (x # xs)"
    using draw xs(1) by simp
  moreover have "fates gen config (filter ((=) d) (e # ds)) s = Some (map snd (filter (\<lambda>dx. fst dx = d) (zip (e # ds) (x # xs))))"
    using draw xs(3) other by (cases "d = e") auto
  ultimately show ?case
    using xs(2,4) x(2) by (intro exI [of _ "x # xs"]) auto
qed simp

section \<open>A relay at work\<close>

definition sample_generator :: "nat generator" where
  "sample_generator =
     \<lparr>gr_New = (\<lambda>a b. unat (a XOR b)), gr_Float64 = (\<lambda>g. (of_nat (g mod 10) / 10, Suc g)), gr_Int64N = (\<lambda>g n. (int g mod n, Suc g))\<rparr>"

definition sample_relay_config :: relayConfig where
  "sample_relay_config =
     \<lparr>rc_RTT = 20, rc_Jitter = 3, rc_Loss = Some 0, rc_Reorder = Some 0, rc_Seed = 7, rc_MaxPackets = 2, rc_MaxBytes = 100\<rparr>"

definition sample_relay :: relay where
  "sample_relay = new_relay ''server'' sample_relay_config"

lemma sample_relay_new: "New None None (Some ''server'') sample_relay_config = Inr (sample_relay_config, sample_relay)"
  by (simp add: New_def relay_config_def above_def below_def sample_relay_def sample_relay_config_def Let_def)

lemma sample_generator_ok: "generator_ok sample_generator" "delays_ok sample_relay_config"
  by (simp_all add: generator_ok_def sample_generator_def delays_ok_def sample_relay_config_def maxInt_def)

section \<open>Properties\<close>

text \<open>
  C32. The relay accounts for every datagram and respects its limits, in every run of a relay that \<open>New\<close> has made. What arrived was
  admitted, or went into a blackhole, or came from the server before any client was known, or was refused for want of capacity; what
  was admitted is still inside, was written with payload, direction and target unchanged and not before it was due, was lost (by the loss
  rate or a failed write), or was released at the end. \<open>forwarded\<close> counts the writes and \<open>dropped\<close> the blackholed and lost
  datagrams, and only those; refused datagrams leave their trace in \<open>overloaded\<close> and the error, nothing is released unless the relay
  was closed, and datagrams without a client leave none. The pending counters are the number and the bytes of the packets inside and
  never exceed the peaks, nor these the configured maxima; and a reader that holds a packet always finds room in the channel.
\<close>

theorem relay_accounting:
  assumes "New listen_client listen_upstream upstream config = Inr (config', r)"
    and "(relay_step gen config')\<^sup>*\<^sup>* (start_relay gen config' r) y"
  shows "ry_arrived y = image_mset arrival_of (ry_admitted y) + ry_blackholed y + ry_clientless y + ry_refused y
    \<and> ry_admitted y = in_relay y + image_mset untimed (mset (map snd (ry_written y))) + ry_lost y + ry_released y
    \<and> rl_forwarded (ry_relay y) = of_nat (length (ry_written y)) \<and> rl_dropped (ry_relay y) = of_nat (size (ry_lost y) + size (ry_blackholed y))
    \<and> (ry_refused y \<noteq> {#} \<longleftrightarrow> rl_overloaded (ry_relay y)) \<and> (rl_overloaded (ry_relay y) \<longrightarrow> rl_err (ry_relay y) = Some ErrHarnessOverload)
    \<and> (ry_released y \<noteq> {#} \<longrightarrow> rl_cancelled (ry_relay y)) \<and> fst ` set_mset (ry_clientless y) \<subseteq> {ServerToClient}
    \<and> rl_pendingPackets (ry_relay y) = int (size (in_relay y))
    \<and> rl_pendingBytes (ry_relay y) = (\<Sum>p \<in># in_relay y. int (length (rp_payload p)))
    \<and> rl_pendingPackets (ry_relay y) \<le> rl_peakPackets (ry_relay y) \<and> rl_peakPackets (ry_relay y) \<le> rl_maxPackets (ry_relay y)
    \<and> rl_pendingBytes (ry_relay y) \<le> rl_peakBytes (ry_relay y) \<and> rl_peakBytes (ry_relay y) \<le> rl_maxBytes (ry_relay y)
    \<and> (\<forall>(t, p) \<in> set (ry_written y). rp_at p \<le> t)
    \<and> (ry_sending y \<noteq> {#} \<longrightarrow> int (length (rl_in (ry_relay y))) < rl_maxPackets (ry_relay y))
    \<and> (\<not> rl_overloaded (ry_relay y) \<longrightarrow> \<not> rl_cancelled (ry_relay y) \<longrightarrow>
         of_nat (size (ry_arrived y)) = rs_Forwarded (relay_stats (ry_relay y)) + rs_Dropped (relay_stats (ry_relay y))
           + rs_PendingPackets (relay_stats (ry_relay y)) + of_nat (size (ry_clientless y)))"
proof -
  have inv: "relay_inv y"
    using relay_run_inv [OF assms(2) start_relay_inv [OF assms(1)]] .
  have "ry_sending y \<noteq> {#} \<Longrightarrow> 0 < size (ry_sending y)"
    by (simp add: nonempty_has_size)
  moreover have "int (size (in_relay y)) \<le> rl_maxPackets (ry_relay y)"
    using inv by (simp add: relay_inv_def)
  ultimately have room: "ry_sending y \<noteq> {#} \<longrightarrow> int (length (rl_in (ry_relay y))) < rl_maxPackets (ry_relay y)"
    by (auto simp: in_relay_def)
  have "of_nat (size (ry_arrived y)) = rs_Forwarded (relay_stats (ry_relay y)) + rs_Dropped (relay_stats (ry_relay y))
      + rs_PendingPackets (relay_stats (ry_relay y)) + of_nat (size (ry_clientless y))"
    if "\<not> rl_overloaded (ry_relay y)" "\<not> rl_cancelled (ry_relay y)"
  proof -
    have none: "ry_refused y = {#}" "ry_released y = {#}"
      using inv that unfolding relay_inv_def by blast+
    have "size (ry_arrived y) = size (ry_admitted y) + size (ry_blackholed y) + size (ry_clientless y)"
      using inv none(1) by (simp add: relay_inv_def)
    moreover have "size (ry_admitted y) = size (in_relay y) + length (ry_written y) + size (ry_lost y)"
      using inv none(2) by (simp add: relay_inv_def)
    moreover have "rl_forwarded (ry_relay y) = of_nat (length (ry_written y))" "rl_dropped (ry_relay y) = of_nat (size (ry_lost y) + size (ry_blackholed y))"
        "uint64 (rl_pendingPackets (ry_relay y)) = of_nat (size (in_relay y))"
      using inv by (simp_all add: relay_inv_def uint64_def)
    ultimately show ?thesis
      by (simp add: relay_stats_def)
  qed
  with inv room show ?thesis
    unfolding relay_inv_def by blast
qed

theorem relay_accounting_witness:
  "\<exists>y. (relay_step sample_generator sample_relay_config)\<^sup>*\<^sup>* (start_relay sample_generator sample_relay_config sample_relay) y
     \<and> size (ry_admitted y) = 1 \<and> ry_sending y = {#} \<and> rl_pendingPackets (ry_relay y) = 1 \<and> rl_pendingBytes (ry_relay y) = 2
     \<and> int (size (in_relay y)) = 1 \<and> ry_arrived y = image_mset arrival_of (ry_admitted y) + ry_blackholed y + ry_clientless y + ry_refused y"
proof -
  let ?step = "relay_step sample_generator sample_relay_config"
  define y0 where "y0 = start_relay sample_generator sample_relay_config sample_relay"
  define y1 where "y1 = admit ClientToServer [1, 2] (readClient [1, 2] ''client'' (ry_relay y0)) y0"
  define p where "p = \<lparr>rp_direction = ClientToServer, rp_payload = [1, 2], rp_target = ''server'', rp_at = 0\<rparr>"
  define y2 where "y2 = y1\<lparr>ry_relay := (ry_relay y1)\<lparr>rl_in := rl_in (ry_relay y1) @ [p]\<rparr>, ry_sending := ry_sending y1 - {#p#}\<rparr>"
  have y1: "ry_sending y1 = {#p#}" "ry_admitted y1 = {#p#}" "rl_in (ry_relay y1) = []" "rl_maxPackets (ry_relay y1) = 2"
      "rl_pendingPackets (ry_relay y1) = 1" "rl_pendingBytes (ry_relay y1) = 2"
    by (simp_all add: y1_def y0_def start_relay_def admit_def readClient_def enqueue_relay_def sample_relay_def sample_relay_config_def new_relay_def
        p_def untimed_def)
  have "?step y0 y1"
    unfolding y1_def by (rule relay_step.from_client)
  moreover have "?step y1 y2"
    unfolding y2_def by (rule relay_step.sends) (simp_all add: y1)
  ultimately have run: "?step\<^sup>*\<^sup>* y0 y2"
    by simp
  have "size (ry_admitted y2) = 1" "ry_sending y2 = {#}" "rl_pendingPackets (ry_relay y2) = 1" "rl_pendingBytes (ry_relay y2) = 2"
    using y1 by (simp_all add: y2_def)
  with relay_accounting [OF sample_relay_new run [unfolded y0_def]] run show ?thesis
    unfolding y0_def by (intro exI [of _ y2]) simp
qed

text \<open>
  The treatment of the packets is reproducible per direction: as long as delays fit their type, the scheduler draws a fate for every packet
  it receives, and the fates of the packets of one direction are those it would draw for them alone, whatever packets of the other
  direction come between. Delays are non-negative and between half the round-trip time less the jitter and the round-trip time plus the jitter.
\<close>

theorem relay_fates_reproducible:
  assumes "generator_ok gen" "delays_ok config" "set ds \<subseteq> {ClientToServer, ServerToClient}" "d \<in> {ClientToServer, ServerToClient}"
  shows "\<exists>xs. fates gen config ds s = Some xs \<and> length xs = length ds
    \<and> fates gen config (filter ((=) d) ds) s = Some (map snd (filter (\<lambda>dx. fst dx = d) (zip ds xs)))
    \<and> (\<forall>delay. Some delay \<in> set xs \<longrightarrow> max 0 (rc_RTT config div 2 - rc_Jitter config) \<le> delay \<and> delay \<le> rc_RTT config + rc_Jitter config)"
proof -
  from fates_split [OF assms, of s] obtain xs where xs: "fates gen config ds s = Some xs" "length xs = length ds"
      "fates gen config (filter ((=) d) ds) s = Some (map snd (filter (\<lambda>dx. fst dx = d) (zip ds xs)))"
      "\<And>delay. Some delay \<in> set xs \<Longrightarrow> max 0 (rc_RTT config div 2 - rc_Jitter config) \<le> delay \<and> delay \<le> 2 * (rc_RTT config div 2) + rc_Jitter config"
    by metis
  have "delay \<le> rc_RTT config + rc_Jitter config" if "Some delay \<in> set xs" for delay
    using xs(4) [OF that] by linarith
  with xs show ?thesis
    by (intro exI [of _ xs]) blast
qed

theorem relay_fates_reproducible_witness:
  "\<exists>xs. fates sample_generator sample_relay_config [ClientToServer, ServerToClient, ClientToServer]
       (new_scheduler sample_generator sample_relay_config) = Some xs
     \<and> length xs = 3 \<and> fates sample_generator sample_relay_config [ClientToServer, ClientToServer]
       (new_scheduler sample_generator sample_relay_config) = Some [xs ! 0, xs ! 2]"
proof -
  from relay_fates_reproducible [OF sample_generator_ok, of "[ClientToServer, ServerToClient, ClientToServer]" ClientToServer
      "new_scheduler sample_generator sample_relay_config"] obtain xs where
    xs: "fates sample_generator sample_relay_config [ClientToServer, ServerToClient, ClientToServer]
        (new_scheduler sample_generator sample_relay_config) = Some xs" "length xs = 3"
      "fates sample_generator sample_relay_config [ClientToServer, ClientToServer] (new_scheduler sample_generator sample_relay_config)
        = Some (map snd (filter (\<lambda>dx. fst dx = ClientToServer) (zip [ClientToServer, ServerToClient, ClientToServer] xs)))"
    by auto
  from xs(2) obtain a b c where "xs = [a, b, c]"
    by (auto simp: numeral_3_eq_3 length_Suc_conv)
  with xs show ?thesis
    by (intro exI [of _ xs]) simp
qed

end
