(* ===== verification/Observers.thy ===== *)
theory Observers
  imports Delivery Placement Encodings
begin

text \<open>
  \<open>observer.go\<close>, \<open>placement/observer.go\<close> and the operations of \<open>endpoint.go\<close> and \<open>placement.go\<close> that make observations: what is
  observed under which labels, the aggregation between two flushes and the bounded queue to the host's observer. A \<open>float64\<close> is
  an element of a type with an addition, a zero and a conversion of integers as parameters.
\<close>

section \<open>Observations\<close>

record 'v Observation =
  ob_Name :: string
  ob_Kind :: string
  ob_Code :: Code
  ob_Value :: 'v

type_synonym observationKey = "string \<times> string \<times> Code"

definition key_of :: "'v Observation \<Rightarrow> observationKey" where
  "key_of b = (ob_Name b, ob_Kind b, ob_Code b)"

text \<open>The loop over the buckets of \<open>histogramKind\<close>; the shift of the last one ends it.\<close>

function bucket_loop :: "string \<Rightarrow> duration \<Rightarrow> nat \<Rightarrow> string option" where
  "bucket_loop kind d bucket =
     (if bucket = 0 \<or> bucket > 524288 then None
      else if d \<le> int bucket * 1000 then Some (kind @ ''_le_'' @ format_nat bucket @ ''us'')
      else bucket_loop kind d (2 * bucket))"
  by pat_completeness auto
termination
  by (relation "measure (\<lambda>(kind, d, bucket). 1048576 - bucket)") auto

declare bucket_loop.simps [simp del]

definition placementHistogramKind :: "string \<Rightarrow> duration \<Rightarrow> string" where
  "placementHistogramKind kind d =
     (let d = (if d < 0 then 0 else d) in
      case bucket_loop kind d 1 of
        Some text \<Rightarrow> text
      | None \<Rightarrow> if d \<le> Second then kind @ ''_le_1s'' else kind @ ''_overflow'')"

definition histogramKind :: "string \<Rightarrow> duration \<Rightarrow> string" where
  "histogramKind kind d =
     (let kind = (if kind = [] then ''duration'' else kind); d = (if d < 0 then 0 else d) in
      case bucket_loop kind d 1 of
        Some text \<Rightarrow> text
      | None \<Rightarrow> if d \<le> Second then kind @ ''_le_1s'' else kind @ ''_overflow'')"

definition boundedObservationCode :: "Code \<Rightarrow> Code" where
  "boundedObservationCode code = (if code > WrongMode then Internal else code)"

definition observationErrorCode :: "error option \<Rightarrow> Code" where
  "observationErrorCode err =
     (case err of
        None \<Rightarrow> Normal
      | Some e \<Rightarrow>
          (case as_protocol e of
             Some code \<Rightarrow> boundedObservationCode code
           | None \<Rightarrow>
               if errors_Is e (CtxError Canceled_ctx) then Canceled
               else if errors_Is e (CtxError DeadlineExceeded_ctx) then DeadlineExceeded
               else Internal))"

section \<open>What the endpoints observe\<close>

text \<open>Each operation as the list of its observations; without an observer there are none.\<close>

definition observe :: "(int \<Rightarrow> 'v) \<Rightarrow> string \<Rightarrow> string \<Rightarrow> Code \<Rightarrow> int \<Rightarrow> 'v Observation list" where
  "observe float name kind code v = [\<lparr>ob_Name = name, ob_Kind = kind, ob_Code = code, ob_Value = float v\<rparr>]"

definition observeMessage :: "(int \<Rightarrow> 'v) \<Rightarrow> string \<Rightarrow> int \<Rightarrow> 'v Observation list" where
  "observeMessage float kind payloadBytes =
     observe float ''messages'' (kind @ ''_count'') Normal 1 @ observe float ''messages'' (kind @ ''_bytes'') Normal payloadBytes"

definition observeDuration :: "(int \<Rightarrow> 'v) \<Rightarrow> string \<Rightarrow> string \<Rightarrow> Code \<Rightarrow> duration \<Rightarrow> 'v Observation list" where
  "observeDuration float name kind code d = observe float name (histogramKind kind d) code 1"

definition lifecycleObservationKind :: "LifecycleKind \<Rightarrow> string" where
  "lifecycleObservationKind kind =
     (case kind of
        Opened \<Rightarrow> ''opened'' | ConnectionLost \<Rightarrow> ''connection_lost'' | Resumed \<Rightarrow> ''resumed'' | SessionEnded \<Rightarrow> ''ended''
      | AuthRefreshed \<Rightarrow> ''auth_refreshed'')"

definition sessionStateObservationKind :: "State \<Rightarrow> string" where
  "sessionStateObservationKind state =
     (case state of
        Connecting \<Rightarrow> ''state_connecting'' | Authenticating \<Rightarrow> ''state_authenticating'' | Active \<Rightarrow> ''state_active''
      | Suspended \<Rightarrow> ''state_suspended'' | Closed \<Rightarrow> ''state_closed'')"

definition observeSessionStatesOnce :: "(int \<Rightarrow> 'v) \<Rightarrow> 'a sessionRecord list \<Rightarrow> 'v Observation list" where
  "observeSessionStatesOnce float sessions =
     concat (map (\<lambda>state. observe float ''sessions'' (sessionStateObservationKind state) Normal
         (int (length (filter (\<lambda>s. sr_state s = state) sessions))))
       [Connecting, Authenticating, Active, Suspended, Closed])"

record transportStats =
  ts_RTT :: duration
  ts_BytesSent :: u64
  ts_BytesReceived :: u64
  ts_PacketsLost :: u64

definition observeTransportSample :: "(int \<Rightarrow> 'v) \<Rightarrow> transportStats \<Rightarrow> transportStats \<Rightarrow> 'v Observation list" where
  "observeTransportSample float previous cur =
     (if ts_RTT cur > 0 then observeDuration float ''transport'' ''rtt'' Normal (ts_RTT cur) else [])
     @ observe float ''transport'' ''packets_lost'' Normal (uint (ts_PacketsLost cur))
     @ (if ts_BytesSent cur > ts_BytesSent previous
        then observe float ''transport'' ''bytes_sent'' Normal (uint (ts_BytesSent cur - ts_BytesSent previous)) else [])
     @ (if ts_BytesReceived cur > ts_BytesReceived previous
        then observe float ''transport'' ''bytes_received'' Normal (uint (ts_BytesReceived cur - ts_BytesReceived previous)) else [])"

definition observeActiveOperations :: "(int \<Rightarrow> 'v) \<Rightarrow> channels \<Rightarrow> 'v Observation list" where
  "observeActiveOperations float c =
     observe float ''requests'' ''active_inbound'' Normal (ch_inRequests c)
     @ observe float ''requests'' ''active_outbound'' Normal (ch_outRequests c)
     @ observe float ''streams'' ''request_inbound'' Normal (ch_inRequests c)
     @ observe float ''streams'' ''request_outbound'' Normal (ch_outRequests c)
     @ observe float ''streams'' ''custom_inbound'' Normal (ch_inStreams c)
     @ observe float ''streams'' ''custom_outbound'' Normal (ch_outStreams c)"

definition observeHandlerQueueUsage :: "(int \<Rightarrow> 'v) \<Rightarrow> conn \<Rightarrow> 'v Observation list" where
  "observeHandlerQueueUsage float c =
     (case cn_queue c of
        None \<Rightarrow> []
      | Some q \<Rightarrow> observe float ''queue_bytes'' ''in_handler'' Normal (snd (Len q)) @ observe float ''queue_items'' ''in_handler'' Normal (fst (Len q)))"

definition observeUsage :: "(int \<Rightarrow> 'v) \<Rightarrow> incomingQueue \<Rightarrow> 'v Observation list" where
  "observeUsage float q =
     observe float ''queue_bytes'' ''in_polling'' Normal (snd (Len (iq_queue q))) @ observe float ''queue_items'' ''in_polling'' Normal (fst (Len (iq_queue q)))"

text \<open>\<open>observeIncomingQueueAge\<close>: nothing for an envelope that was never queued.\<close>

definition observeIncomingQueueAge :: "(int \<Rightarrow> 'v) \<Rightarrow> time option \<Rightarrow> time \<Rightarrow> Incoming \<Rightarrow> 'v Observation list" where
  "observeIncomingQueueAge float enqueuedAt now incoming =
     (case enqueuedAt of
        None \<Rightarrow> []
      | Some at \<Rightarrow>
          (let kind = (if in_Kind incoming = EventMessage then ''in_event'' else if in_Kind incoming = RequestMessage then ''in_request''
                else if in_Kind incoming = StreamMessage then ''in_stream'' else ''in_lifecycle'');
               age = (if now - at < 0 then 0 else now - at) in
           observe float ''queue_age'' (histogramKind kind age) Normal 1))"

definition observeResult :: "(int \<Rightarrow> 'v) \<Rightarrow> string \<Rightarrow> duration \<Rightarrow> error option \<Rightarrow> 'v Observation list" where
  "observeResult float kind elapsed err =
     (let code = placementObservationCode err in
      observe float ''placement'' kind code 1 @ observe float ''placement'' (placementHistogramKind (kind @ ''_latency'') elapsed) code 1)"

section \<open>The queue to the host\<close>

text \<open>\<open>oq_delivered\<close> records what the host's observer was called with.\<close>

record 'v observerQueue =
  oq_queue :: "'v Observation list"
  oq_capacity :: nat
  oq_pending :: "observationKey \<rightharpoonup> 'v"
  oq_dropped :: u64
  oq_interval :: duration
  oq_cancelled :: bool
  oq_delivered :: "'v Observation list"

definition newObserverQueue :: "int \<Rightarrow> duration \<Rightarrow> 'v observerQueue" where
  "newObserverQueue capacity interval =
     \<lparr>oq_queue = [], oq_capacity = nat (if capacity < 1 then 1 else capacity), oq_pending = Map.empty, oq_dropped = 0,
      oq_interval = (if interval \<le> 0 then Second else interval), oq_cancelled = False, oq_delivered = []\<rparr>"

definition placement_newObserverQueue :: "'v observerQueue" where
  "placement_newObserverQueue = newObserverQueue 4096 Second"

definition Observe :: "('v \<Rightarrow> 'v \<Rightarrow> 'v) \<Rightarrow> 'v \<Rightarrow> 'v Observation \<Rightarrow> 'v observerQueue \<Rightarrow> 'v observerQueue" where
  "Observe add zero b q =
     q\<lparr>oq_pending := (oq_pending q)(key_of b \<mapsto> add (case oq_pending q (key_of b) of None \<Rightarrow> zero | Some v \<Rightarrow> v) (ob_Value b))\<rparr>"

definition Close_observer :: "'v observerQueue \<Rightarrow> 'v observerQueue" where
  "Close_observer q = q\<lparr>oq_cancelled := True\<rparr>"

text \<open>The loop of \<open>flushOnce\<close> over the entries in the order in which the map is traversed.\<close>

fun flush_loop :: "(observationKey \<times> 'v) list \<Rightarrow> 'v observerQueue \<Rightarrow> 'v observerQueue" where
  "flush_loop [] q = q"
| "flush_loop ((k, v) # entries) q =
     flush_loop entries
       (if length (oq_queue q) < oq_capacity q
        then q\<lparr>oq_queue := oq_queue q @ [\<lparr>ob_Name = fst k, ob_Kind = fst (snd k), ob_Code = snd (snd k), ob_Value = v\<rparr>]\<rparr>
        else q\<lparr>oq_dropped := oq_dropped q + 1\<rparr>)"

definition flushOnce :: "(observationKey \<times> 'v) list \<Rightarrow> 'v observerQueue \<Rightarrow> 'v observerQueue" where
  "flushOnce entries q = flush_loop entries (q\<lparr>oq_pending := Map.empty\<rparr>)"

text \<open>One turn of the task that calls the host.\<close>

definition deliver_next :: "'v observerQueue \<Rightarrow> 'v observerQueue option" where
  "deliver_next q = (case oq_queue q of [] \<Rightarrow> None | b # rest \<Rightarrow> Some (q\<lparr>oq_queue := rest, oq_delivered := oq_delivered q @ [b]\<rparr>))"

section \<open>Aggregation\<close>

definition observation :: "observationKey \<Rightarrow> 'v \<Rightarrow> 'v Observation" where
  "observation k v = \<lparr>ob_Name = fst k, ob_Kind = fst (snd k), ob_Code = snd (snd k), ob_Value = v\<rparr>"

lemma flush_loop_eq:
  "flush_loop entries q =
     (let n = oq_capacity q - length (oq_queue q) in
      q\<lparr>oq_queue := oq_queue q @ map (\<lambda>(k, v). observation k v) (take n entries), oq_dropped := oq_dropped q + of_nat (length entries - n)\<rparr>)"
proof (induction entries q rule: flush_loop.induct)
  case (2 k v entries q)
  show ?case
  proof (cases "length (oq_queue q) < oq_capacity q")
    case True
    then obtain m where "oq_capacity q - length (oq_queue q) = Suc m" "oq_capacity q - Suc (length (oq_queue q)) = m"
      by (metis Suc_diff_Suc)
    with 2 True show ?thesis by (simp add: observation_def Let_def)
  next
    case False
    with 2 show ?thesis by (simp add: Let_def algebra_simps)
  qed
qed simp

text \<open>
  A queue at work with its history: everything observed, the values of each key since the last flush, and the groups of values that were
  flushed, each with its key and whether it found room in the queue.
\<close>

record 'v observing =
  og_q :: "'v observerQueue"
  og_seen :: "(observationKey \<times> 'v) list"
  og_open :: "observationKey \<Rightarrow> 'v list"
  og_groups :: "(observationKey \<times> 'v list \<times> bool) list"

inductive observer_step :: "('v \<Rightarrow> 'v \<Rightarrow> 'v) \<Rightarrow> 'v \<Rightarrow> 'v observing \<Rightarrow> 'v observing \<Rightarrow> bool" for add zero where
  observes: "observer_step add zero g (g\<lparr>og_q := Observe add zero b (og_q g), og_seen := og_seen g @ [(key_of b, ob_Value b)],
     og_open := (og_open g)(key_of b := og_open g (key_of b) @ [ob_Value b])\<rparr>)"
| flushes: "\<not> oq_cancelled (og_q g) \<Longrightarrow> distinct (map fst entries) \<Longrightarrow> map_of entries = oq_pending (og_q g) \<Longrightarrow>
     n = oq_capacity (og_q g) - length (oq_queue (og_q g)) \<Longrightarrow>
     observer_step add zero g (g\<lparr>og_q := flushOnce entries (og_q g), og_open := (\<lambda>_. []),
       og_groups := og_groups g @ map (\<lambda>(k, v). (k, og_open g k, True)) (take n entries) @ map (\<lambda>(k, v). (k, og_open g k, False)) (drop n entries)\<rparr>)"
| delivers: "deliver_next (og_q g) = Some q \<Longrightarrow> observer_step add zero g (g\<lparr>og_q := q\<rparr>)"
| ends: "observer_step add zero g (g\<lparr>og_q := Close_observer (og_q g)\<rparr>)"

definition values_of :: "observationKey \<Rightarrow> (observationKey \<times> 'v) list \<Rightarrow> 'v list" where
  "values_of k seen = map snd (filter (\<lambda>x. fst x = k) seen)"

definition groups_of :: "observationKey \<Rightarrow> (observationKey \<times> 'v list \<times> bool) list \<Rightarrow> 'v list" where
  "groups_of k groups = concat (map (\<lambda>x. fst (snd x)) (filter (\<lambda>x. fst x = k) groups))"

definition observer_inv :: "('v \<Rightarrow> 'v \<Rightarrow> 'v) \<Rightarrow> 'v \<Rightarrow> 'v observing \<Rightarrow> bool" where
  "observer_inv add zero g \<longleftrightarrow>
     (\<forall>k. groups_of k (og_groups g) @ og_open g k = values_of k (og_seen g))
     \<and> oq_delivered (og_q g) @ oq_queue (og_q g)
         = map (\<lambda>x. observation (fst x) (foldl add zero (fst (snd x)))) (filter (\<lambda>x. snd (snd x)) (og_groups g))
     \<and> oq_dropped (og_q g) = of_nat (length (filter (\<lambda>x. \<not> snd (snd x)) (og_groups g)))
     \<and> length (oq_queue (og_q g)) \<le> oq_capacity (og_q g)
     \<and> (\<forall>k. oq_pending (og_q g) k = (if og_open g k = [] then None else Some (foldl add zero (og_open g k))))"

lemma groups_of_append [simp]: "groups_of k (xs @ ys) = groups_of k xs @ groups_of k ys"
  by (simp add: groups_of_def)

lemma groups_of_entries:
  "distinct (map fst entries) \<Longrightarrow>
   groups_of k (map (\<lambda>(k, v). (k, vs k, b)) entries) = (if k \<in> fst ` set entries then vs k else [])"
proof (induction entries)
  case (Cons e entries)
  have "groups_of k (map (\<lambda>(k, v). (k, vs k, b)) (e # entries))
      = (if fst e = k then vs k else []) @ groups_of k (map (\<lambda>(k, v). (k, vs k, b)) entries)"
    by (cases e) (simp add: groups_of_def)
  with Cons show ?case
    by (cases "fst e = k") auto
qed (simp add: groups_of_def)

lemma flush_groups:
  assumes "distinct (map fst entries)"
  shows "groups_of k (map (\<lambda>(k, v). (k, vs k, True)) (take n entries) @ map (\<lambda>(k, v). (k, vs k, False)) (drop n entries))
    = (if k \<in> fst ` set entries then vs k else [])"
proof -
  have "distinct (map fst (take n entries @ drop n entries))"
    using assms by simp
  then have "distinct (map fst (take n entries))" "distinct (map fst (drop n entries))"
      "fst ` set (take n entries) \<inter> fst ` set (drop n entries) = {}"
    unfolding map_append distinct_append by simp_all
  moreover have "fst ` set entries = fst ` set (take n entries) \<union> fst ` set (drop n entries)"
    by (metis append_take_drop_id image_Un set_append)
  ultimately show ?thesis
    by (auto simp: groups_of_entries)
qed

lemma flushes_inv:
  assumes inv: "observer_inv add zero g" and entries: "distinct (map fst entries)" "map_of entries = oq_pending (og_q g)"
    and n: "n = oq_capacity (og_q g) - length (oq_queue (og_q g))"
  shows "observer_inv add zero (g\<lparr>og_q := flushOnce entries (og_q g), og_open := (\<lambda>_. []),
    og_groups := og_groups g @ map (\<lambda>(k, v). (k, og_open g k, True)) (take n entries) @ map (\<lambda>(k, v). (k, og_open g k, False)) (drop n entries)\<rparr>)"
proof -
  have pending: "oq_pending (og_q g) k = (if og_open g k = [] then None else Some (foldl add zero (og_open g k)))" for k
    using inv unfolding observer_inv_def by blast
  have dom: "k \<in> fst ` set entries \<longleftrightarrow> og_open g k \<noteq> []" for k
    using pending [of k] entries(2) by (metis domIff dom_map_of_conv_image_fst option.distinct(1))
  have sum: "v = foldl add zero (og_open g k)" if "(k, v) \<in> set entries" for k v
    using map_of_is_SomeI [OF entries(1) that] pending [of k] entries(2) by (auto split: if_splits)
  have "map (\<lambda>x. observation (fst x) (snd x)) (take n entries) = map (\<lambda>x. observation (fst x) (foldl add zero (og_open g (fst x)))) (take n entries)"
    using sum by (auto dest: in_set_takeD)
  moreover have "oq_delivered (og_q g) @ oq_queue (og_q g)
      = map (\<lambda>x. observation (fst x) (foldl add zero (fst (snd x)))) (filter (\<lambda>x. snd (snd x)) (og_groups g))"
    using inv unfolding observer_inv_def by blast
  ultimately have queue: "oq_delivered (og_q g) @ oq_queue (og_q g) @ map (\<lambda>x. observation (fst x) (snd x)) (take n entries)
      = map (\<lambda>x. observation (fst x) (foldl add zero (fst (snd x)))) (filter (\<lambda>x. snd (snd x)) (og_groups g))
        @ map (\<lambda>x. observation (fst x) (foldl add zero (og_open g (fst x)))) (take n entries)"
    by (metis append_assoc)
  have "groups_of k (map (\<lambda>(k, v). (k, og_open g k, True)) (take n entries) @ map (\<lambda>(k, v). (k, og_open g k, False)) (drop n entries)) = og_open g k" for k
    unfolding flush_groups [OF entries(1)] using dom [of k] by auto
  then show ?thesis
    using inv n queue
    by (auto simp: observer_inv_def flushOnce_def flush_loop_eq Let_def filter_map comp_def case_prod_unfold simp del: split_paired_All)
qed

lemma observes_inv:
  assumes "observer_inv add zero g"
  shows "observer_inv add zero (g\<lparr>og_q := Observe add zero b (og_q g), og_seen := og_seen g @ [(key_of b, ob_Value b)],
    og_open := (og_open g)(key_of b := og_open g (key_of b) @ [ob_Value b])\<rparr>)"
proof -
  have seen: "groups_of k (og_groups g) @ og_open g k = values_of k (og_seen g)" for k
    using assms unfolding observer_inv_def by blast
  have pending: "oq_pending (og_q g) k = (if og_open g k = [] then None else Some (foldl add zero (og_open g k)))" for k
    using assms unfolding observer_inv_def by blast
  let ?k = "key_of b"
  have "groups_of k (og_groups g) @ ((og_open g)(?k := og_open g ?k @ [ob_Value b])) k = values_of k (og_seen g @ [(?k, ob_Value b)])" for k
    using seen [of k] by (cases "k = ?k") (auto simp: values_of_def)
  moreover have "oq_pending (Observe add zero b (og_q g)) k
      = (let vs = ((og_open g)(?k := og_open g ?k @ [ob_Value b])) k in if vs = [] then None else Some (foldl add zero vs))" for k
    using pending [of k] by (cases "k = ?k") (auto simp: Observe_def)
  ultimately show ?thesis
    using assms by (simp add: observer_inv_def Let_def Observe_def del: split_paired_All)
qed

lemma observer_step_inv: "observer_step add zero g g' \<Longrightarrow> observer_inv add zero g \<Longrightarrow> observer_inv add zero g'"
proof (induction rule: observer_step.induct)
  case (delivers g q)
  then show ?case by (auto simp: observer_inv_def deliver_next_def split: list.splits)
next
  case (ends g)
  then show ?case by (simp add: observer_inv_def Close_observer_def)
qed (blast intro: observes_inv flushes_inv)+

definition new_observing :: "int \<Rightarrow> duration \<Rightarrow> 'v observing" where
  "new_observing capacity interval = \<lparr>og_q = newObserverQueue capacity interval, og_seen = [], og_open = (\<lambda>_. []), og_groups = []\<rparr>"

lemma observer_run_inv: "(observer_step add zero)\<^sup>*\<^sup>* (new_observing capacity interval) g \<Longrightarrow> observer_inv add zero g"
proof (induction rule: rtranclp_induct)
  case base
  then show ?case by (simp add: observer_inv_def new_observing_def newObserverQueue_def groups_of_def values_of_def)
qed (blast intro: observer_step_inv)

section \<open>Labels\<close>

text \<open>The bucket a duration falls into: the least of the powers of two up to 524288 microseconds that it does not exceed.\<close>

definition histogram_suffixes :: "string list" where
  "histogram_suffixes = map (\<lambda>i. ''_le_'' @ format_nat (2 ^ i) @ ''us'') [0..<20] @ [''_le_1s'', ''_overflow'']"

definition bucket_index :: "duration \<Rightarrow> nat" where
  "bucket_index d =
     (if d \<le> 524288 * 1000 then (LEAST i. d \<le> 2 ^ i * 1000) else if d \<le> Second then 20 else 21)"

lemma bucket_loop_None: "524288 * 1000 < d \<Longrightarrow> bucket_loop kind d bucket = None"
proof (induction kind d bucket rule: bucket_loop.induct)
  case (1 kind d bucket)
  then show ?case by (subst bucket_loop.simps) auto
qed

lemma bucket_loop_Some:
  assumes "d \<le> 524288 * 1000" "i \<le> 19" "\<forall>j < i. 2 ^ j * 1000 < d"
  shows "bucket_loop kind d (2 ^ i) = Some (kind @ ''_le_'' @ format_nat (2 ^ (LEAST i. d \<le> 2 ^ i * 1000)) @ ''us'')"
  using assms(2,3)
proof (induction "19 - i" arbitrary: i)
  case 0
  then have i: "i = 19" by simp
  with assms(1) 0(3) have "(LEAST i. d \<le> 2 ^ i * 1000) = 19"
    by (intro Least_equality) (auto simp: not_less [symmetric])
  with i assms(1) show ?case by (subst bucket_loop.simps) simp
next
  case (Suc n)
  then have small: "(2 :: nat) ^ i \<le> 524288"
    using power_increasing [of i 19 "2 :: nat"] by simp
  show ?case
  proof (cases "d \<le> 2 ^ i * 1000")
    case True
    with Suc.prems(2) have "(LEAST i. d \<le> 2 ^ i * 1000) = i"
      by (intro Least_equality) (auto simp: not_less [symmetric])
    with True small show ?thesis by (subst bucket_loop.simps) simp
  next
    case False
    with Suc.prems Suc.hyps(2) have "bucket_loop kind d (2 ^ Suc i) = Some (kind @ ''_le_'' @ format_nat (2 ^ (LEAST i. d \<le> 2 ^ i * 1000)) @ ''us'')"
      by (intro Suc.hyps(1)) (auto simp: less_Suc_eq)
    with False small show ?thesis by (subst bucket_loop.simps) simp
  qed
qed

lemma Least_bucket_le: "(d :: duration) \<le> 524288 * 1000 \<Longrightarrow> (LEAST i. d \<le> 2 ^ i * 1000) \<le> 19"
  by (rule Least_le) simp

lemma histogram_label:
  "placementHistogramKind kind d = kind @ histogram_suffixes ! bucket_index (max 0 d)"
  "histogramKind kind d = (if kind = [] then ''duration'' else kind) @ histogram_suffixes ! bucket_index (max 0 d)"
proof -
  have loop: "(case bucket_loop k e 1 of Some text \<Rightarrow> text | None \<Rightarrow> if e \<le> Second then k @ ''_le_1s'' else k @ ''_overflow'')
      = k @ histogram_suffixes ! bucket_index e" for k e
  proof (cases "e \<le> 524288 * 1000")
    case True
    with bucket_loop_Some [of e 0 k] Least_bucket_le [of e] show ?thesis
      by (simp add: bucket_index_def histogram_suffixes_def nth_append)
  next
    case False
    with bucket_loop_None [of e k 1] show ?thesis
      by (simp add: bucket_index_def histogram_suffixes_def nth_append)
  qed
  show "placementHistogramKind kind d = kind @ histogram_suffixes ! bucket_index (max 0 d)"
    using loop [where k = kind and e = "max 0 d"] by (simp add: placementHistogramKind_def Let_def max_def not_less [symmetric] split: if_splits)
  show "histogramKind kind d = (if kind = [] then ''duration'' else kind) @ histogram_suffixes ! bucket_index (max 0 d)"
    using loop [where k = "if kind = [] then ''duration'' else kind" and e = "max 0 d"]
    by (simp add: histogramKind_def Let_def max_def not_less [symmetric] split: if_splits)
qed

lemma histogram_suffix_mem: "histogram_suffixes ! bucket_index d \<in> set histogram_suffixes"
proof -
  have "bucket_index d < length histogram_suffixes"
    using Least_bucket_le [of d] by (cases "d \<le> 524288 * 1000") (auto simp: bucket_index_def histogram_suffixes_def)
  then show ?thesis by simp
qed

text \<open>The names and kinds of the program, counters and gauges first, then the histograms.\<close>

definition counter_labels :: "(string \<times> string) list" where
  "counter_labels =
     List.product [''messages'']
       (concat (map (\<lambda>k. [k @ ''_count'', k @ ''_bytes''])
          [''in_reliable'', ''in_unreliable'', ''in_sequenced'', ''out_reliable'', ''out_unreliable'', ''out_sequenced'']))
     @ List.product [''datagram_drop''] [''coalesced'', ''invalid'', ''rate'', ''stale'', ''pressure'']
     @ List.product [''sessions''] [''state_connecting'', ''state_authenticating'', ''state_active'', ''state_suspended'', ''state_closed'']
     @ List.product [''transport''] [''packets_lost'', ''bytes_sent'', ''bytes_received'']
     @ List.product [''requests''] [''active_inbound'', ''active_outbound'', ''outbound_result'', ''inbound_result'', ''unknown_outbound'']
     @ List.product [''streams''] [''request_inbound'', ''request_outbound'', ''custom_inbound'', ''custom_outbound'']
     @ List.product [''queue_bytes'', ''queue_items''] [''in_handler'', ''in_polling'']
     @ List.product [''placement''] [''resolve'', ''registry'', ''ticket'', ''close'', ''read'', ''assign'']
     @ [(''handshakes'', ''attempt''), (''handshakes'', ''result''), (''resumes'', ''attempt''), (''resumes'', ''superseded''), (''resumes'', ''success''),
        (''protocol_errors'', ''framing''), (''handler_panics'', ''panic'')]"

definition histogram_labels :: "(string \<times> string) list" where
  "histogram_labels =
     concat (map (\<lambda>(name, kind). map (\<lambda>suffix. (name, kind @ suffix)) histogram_suffixes)
       ([(''auth'', ''verify''), (''auth'', ''refresh''), (''requests'', ''outbound_latency''), (''requests'', ''inbound_latency''), (''transport'', ''rtt''),
         (''queue_age'', ''in_event''), (''queue_age'', ''in_request''), (''queue_age'', ''in_stream''), (''queue_age'', ''in_lifecycle'')]
        @ map (\<lambda>kind. (''placement'', kind @ ''_latency'')) [''resolve'', ''registry'', ''ticket'', ''close'', ''read'', ''assign'']))"

definition observation_labels :: "observationKey set" where
  "observation_labels = {(name, kind, code). (name, kind) \<in> set (counter_labels @ histogram_labels) \<and> code \<le> WrongMode}"

text \<open>
  The places that observe, apart from those that pass on the code an application closed a session with (\<open>deliverLifecycleAfter\<close>, and the
  rejection of a resume of such a session): the arguments are the constants of the program, and the codes of results are fixed or bounded.
\<close>

inductive emitted :: "(int \<Rightarrow> 'v) \<Rightarrow> 'v Observation \<Rightarrow> bool" for float where
  message: "kind \<in> {''in_reliable'', ''in_unreliable'', ''in_sequenced'', ''out_reliable'', ''out_unreliable'', ''out_sequenced''} \<Longrightarrow>
    b \<in> set (observeMessage float kind n) \<Longrightarrow> emitted float b"
| drop: "(kind, code) \<in> {(''coalesced'', Normal), (''invalid'', ProtocolViolation), (''rate'', ResourceExhausted), (''stale'', Normal), (''pressure'', Backpressure)} \<Longrightarrow>
    b \<in> set (observe float ''datagram_drop'' kind code 1) \<Longrightarrow> emitted float b"
| states: "b \<in> set (observeSessionStatesOnce float (sessions :: unit sessionRecord list)) \<Longrightarrow> emitted float b"
| transport: "b \<in> set (observeTransportSample float previous cur) \<Longrightarrow> emitted float b"
| active: "b \<in> set (observeActiveOperations float c) \<Longrightarrow> emitted float b"
| handler_usage: "b \<in> set (observeHandlerQueueUsage float conn) \<Longrightarrow> emitted float b"
| polling_usage: "b \<in> set (observeUsage float q) \<Longrightarrow> emitted float b"
| age: "b \<in> set (observeIncomingQueueAge float at now incoming) \<Longrightarrow> emitted float b"
| request: "code = boundedObservationCode c \<or> code = observationErrorCode err \<or> code \<in> {Normal, SessionSuspended, ResourceExhausted, DeadlineExceeded,
      OutcomeUnknown, SessionSuperseded, Backpressure, Internal} \<Longrightarrow> direction \<in> {''outbound'', ''inbound''} \<Longrightarrow>
    b \<in> set (observe float ''requests'' (direction @ ''_result'') code 1 @ observeDuration float ''requests'' (direction @ ''_latency'') code d) \<Longrightarrow> emitted float b"
| unknown: "b \<in> set (observe float ''requests'' ''unknown_outbound'' OutcomeUnknown 1) \<Longrightarrow> emitted float b"
| handshake: "code \<in> {Normal, ProtocolViolation, UnsupportedCapability, InvalidArgument, Unauthenticated, Forbidden, Internal, ResourceExhausted, GroupClosed,
      ServerDraining, SessionNotFound} \<Longrightarrow> kind \<in> {''attempt'', ''result''} \<Longrightarrow> b \<in> set (observe float ''handshakes'' kind code 1) \<Longrightarrow> emitted float b"
| resume: "(kind, code) \<in> {(''attempt'', Normal), (''superseded'', SessionSuperseded), (''success'', Normal)} \<Longrightarrow>
    b \<in> set (observe float ''resumes'' kind code 1) \<Longrightarrow> emitted float b"
| auth: "kind \<in> {''verify'', ''refresh''} \<Longrightarrow> code \<in> {Normal, Unauthenticated} \<Longrightarrow>
    b \<in> set (observe float ''auth'' (histogramKind kind d) code 1) \<Longrightarrow> emitted float b"
| framing: "b \<in> set (observe float ''protocol_errors'' ''framing'' ProtocolViolation 1) \<Longrightarrow> emitted float b"
| panic: "b \<in> set (observe float ''handler_panics'' ''panic'' Internal 1) \<Longrightarrow> emitted float b"
| placement: "kind \<in> {''resolve'', ''registry'', ''ticket'', ''close'', ''read'', ''assign''} \<Longrightarrow>
    b \<in> set (observeResult float kind elapsed err) \<Longrightarrow> emitted float b"

lemma codes_bounded: "boundedObservationCode c \<le> WrongMode" "observationErrorCode err \<le> WrongMode" "placementObservationCode err \<le> WrongMode"
  by (auto simp: boundedObservationCode_def observationErrorCode_def placementObservationCode_def Let_def not_less split: option.split)

lemma counter_mem: "(name, kind) \<in> set counter_labels \<Longrightarrow> code \<le> WrongMode \<Longrightarrow> (name, kind, code) \<in> observation_labels"
  by (simp add: observation_labels_def)

lemma histogram_mem:
  assumes "(name, kind) \<in> {(''auth'', ''verify''), (''auth'', ''refresh''), (''requests'', ''outbound_latency''), (''requests'', ''inbound_latency''),
      (''transport'', ''rtt''), (''queue_age'', ''in_event''), (''queue_age'', ''in_request''), (''queue_age'', ''in_stream''), (''queue_age'', ''in_lifecycle'')}
      \<or> name = ''placement'' \<and> kind \<in> (\<lambda>k. k @ ''_latency'') ` {''resolve'', ''registry'', ''ticket'', ''close'', ''read'', ''assign''}"
    and "code \<le> WrongMode"
  shows "(name, histogramKind kind d, code) \<in> observation_labels" "(name, placementHistogramKind kind d, code) \<in> observation_labels"
proof -
  have "kind \<noteq> []"
    using assms(1) by auto
  moreover have "(name, kind @ histogram_suffixes ! bucket_index (max 0 d)) \<in> set histogram_labels"
    using assms(1) histogram_suffix_mem [of "max 0 d"] unfolding histogram_labels_def by auto
  ultimately show "(name, histogramKind kind d, code) \<in> observation_labels" "(name, placementHistogramKind kind d, code) \<in> observation_labels"
    using assms(2) by (simp_all add: histogram_label observation_labels_def)
qed

lemma emitted_label: "emitted float b \<Longrightarrow> key_of b \<in> observation_labels"
proof (induction rule: emitted.induct)
  case (message kind b n)
  then show ?case
    by (auto simp: observeMessage_def observe_def key_of_def intro!: counter_mem) (simp_all add: counter_labels_def)
next
  case (drop kind code b)
  then show ?case
    by (auto simp: observe_def key_of_def intro!: counter_mem) (simp_all add: counter_labels_def)
next
  case (states b sessions)
  then show ?case
    by (auto simp: observeSessionStatesOnce_def observe_def key_of_def sessionStateObservationKind_def intro!: counter_mem) (simp_all add: counter_labels_def)
next
  case (transport b previous cur)
  have "(''transport'', histogramKind ''rtt'' d, Normal) \<in> observation_labels" for d
    by (rule histogram_mem(1)) simp_all
  moreover have "(''transport'', kind, Normal) \<in> observation_labels" if "kind \<in> {''packets_lost'', ''bytes_sent'', ''bytes_received''}" for kind
    using that by (intro counter_mem) (auto simp: counter_labels_def)
  ultimately show ?case
    using transport by (auto simp: observeTransportSample_def observeDuration_def observe_def key_of_def split: if_splits)
next
  case (active b c)
  then show ?case
    by (auto simp: observeActiveOperations_def observe_def key_of_def intro!: counter_mem) (simp_all add: counter_labels_def)
next
  case (handler_usage b conn)
  then show ?case
    by (auto simp: observeHandlerQueueUsage_def observe_def key_of_def intro!: counter_mem split: option.splits) (simp_all add: counter_labels_def)
next
  case (polling_usage b q)
  then show ?case
    by (auto simp: observeUsage_def observe_def key_of_def intro!: counter_mem) (simp_all add: counter_labels_def)
next
  case (age b at now incoming)
  then show ?case
    by (auto simp: observeIncomingQueueAge_def observe_def key_of_def Let_def intro!: histogram_mem(1) split: option.splits)
next
  case (request code c err direction b d)
  then have "code \<le> WrongMode"
    using codes_bounded by auto
  then have "(''requests'', direction @ ''_result'', code) \<in> observation_labels"
    using request(2) by (intro counter_mem) (auto simp: counter_labels_def)
  moreover have "(''requests'', histogramKind (direction @ ''_latency'') d, code) \<in> observation_labels"
    using request(2) \<open>code \<le> WrongMode\<close> by (intro histogram_mem(1)) auto
  ultimately show ?case
    using request(3) by (auto simp: observeDuration_def observe_def key_of_def)
next
  case (unknown b)
  then show ?case
    by (auto simp: observe_def key_of_def intro!: counter_mem) (simp_all add: counter_labels_def)
next
  case (handshake code kind b)
  then have "code \<le> WrongMode" by auto
  with handshake show ?case
    by (auto simp: observe_def key_of_def intro!: counter_mem) (simp_all add: counter_labels_def)
next
  case (resume kind code b)
  then show ?case
    by (auto simp: observe_def key_of_def intro!: counter_mem) (simp_all add: counter_labels_def)
next
  case (auth kind code b d)
  then have "code \<le> WrongMode" by auto
  with auth show ?case
    by (auto simp: observe_def key_of_def intro!: histogram_mem(1))
next
  case (framing b)
  then show ?case
    by (auto simp: observe_def key_of_def intro!: counter_mem) (simp_all add: counter_labels_def)
next
  case (panic b)
  then show ?case
    by (auto simp: observe_def key_of_def intro!: counter_mem) (simp_all add: counter_labels_def)
next
  case (placement kind b elapsed err)
  then have "(''placement'', kind, placementObservationCode err) \<in> observation_labels"
    using codes_bounded(3) [of err] by (intro counter_mem) (auto simp: counter_labels_def)
  moreover have "(''placement'', placementHistogramKind (kind @ ''_latency'') elapsed, placementObservationCode err) \<in> observation_labels"
    using placement(1) codes_bounded(3) [of err] by (intro histogram_mem(2)) simp_all
  ultimately show ?case
    using placement(2) by (auto simp: observeResult_def observe_def key_of_def Let_def)
qed

lemma observation_labels_finite: "finite observation_labels \<and> card observation_labels \<le> 26 * length (counter_labels @ histogram_labels)"
proof -
  have eq: "observation_labels = (\<lambda>((name, kind), code). (name, kind, code)) ` (set (counter_labels @ histogram_labels) \<times> {.. WrongMode})"
    by (force simp: observation_labels_def)
  have "{.. WrongMode} = word_of_nat ` {..< 26 :: nat}"
  proof -
    have "c \<in> word_of_nat ` {..< 26 :: nat}" if "c \<le> WrongMode" for c
    proof (rule image_eqI [of _ _ "unat c"])
      show "unat c \<in> {..< 26}"
        using that by (simp add: word_le_nat_alt)
    qed simp
    then show ?thesis
      by (auto simp: word_le_nat_alt unat_of_nat take_bit_eq_mod)
  qed
  then have codes: "finite {.. WrongMode}" "card {.. WrongMode} \<le> 26"
    by (metis finite_imageI finite_lessThan, metis card_image_le card_lessThan finite_lessThan)
  have "card observation_labels \<le> card (set (counter_labels @ histogram_labels) \<times> {.. WrongMode})"
    unfolding eq using codes by (intro card_image_le) simp
  also have "\<dots> \<le> length (counter_labels @ histogram_labels) * 26"
    unfolding card_cartesian_product using codes(2) card_length by (intro mult_le_mono)
  finally show ?thesis
    using codes(1) unfolding eq by (simp add: mult.commute)
qed

lemma label_count: "length (counter_labels @ histogram_labels) = 381"
  by (simp add: counter_labels_def histogram_labels_def histogram_suffixes_def)

lemma pending_seen: "(observer_step add zero)\<^sup>*\<^sup>* (new_observing capacity interval) g \<Longrightarrow> dom (oq_pending (og_q g)) \<subseteq> fst ` set (og_seen g)"
proof -
  assume "(observer_step add zero)\<^sup>*\<^sup>* (new_observing capacity interval) g"
  note inv = observer_run_inv [OF this]
  have "k \<in> fst ` set (og_seen g)" if "oq_pending (og_q g) k \<noteq> None" for k
  proof -
    have "og_open g k \<noteq> []" "groups_of k (og_groups g) @ og_open g k = values_of k (og_seen g)"
      using inv that unfolding observer_inv_def by (metis (lifting), blast)
    then have "values_of k (og_seen g) \<noteq> []"
      by auto
    then show ?thesis
      by (force simp: values_of_def filter_empty_conv)
  qed
  then show ?thesis
    by (auto simp: dom_def)
qed

section \<open>A queue at work\<close>

definition sample_label :: observationKey where
  "sample_label = (''messages'', ''in_reliable_bytes'', Normal)"

definition saw :: "int \<Rightarrow> int observing \<Rightarrow> int observing" where
  "saw n g =
     (let b = observation sample_label n in
      g\<lparr>og_q := Observe (+) 0 b (og_q g), og_seen := og_seen g @ [(key_of b, ob_Value b)],
        og_open := (og_open g)(key_of b := og_open g (key_of b) @ [ob_Value b])\<rparr>)"

definition sample_observing :: "int observing" where
  "sample_observing = saw 7 (saw 5 (new_observing 1 0))"

lemma sample_observing_run: "(observer_step (+) 0)\<^sup>*\<^sup>* (new_observing 1 0) sample_observing"
proof -
  have step: "observer_step (+) 0 g (saw n g)" for n g
    unfolding saw_def Let_def by (rule observer_step.observes)
  show ?thesis
    unfolding sample_observing_def by (rule rtranclp.rtrancl_into_rtrancl [OF r_into_rtranclp [where r = "observer_step (+) 0", OF step] step])
qed

lemma sample_observing_history:
  "og_open sample_observing sample_label = [5, 7]" "og_groups sample_observing = []" "og_seen sample_observing = [(sample_label, 5), (sample_label, 7)]"
  by (simp_all add: sample_observing_def saw_def Let_def observation_def key_of_def sample_label_def new_observing_def)

lemma sample_label_emitted: "\<exists>b. emitted (\<lambda>n. n :: int) b \<and> key_of b = sample_label"
proof -
  have "emitted (\<lambda>n. n :: int) (observation sample_label 5)"
    by (rule emitted.message [where kind = "''in_reliable''" and n = 5]) (simp_all add: observeMessage_def observe_def observation_def sample_label_def)
  then show ?thesis
    by (intro exI [of _ "observation sample_label (5 :: int)"]) (simp add: observation_def key_of_def sample_label_def)
qed

section \<open>Properties\<close>

text \<open>
  C31. Observations are aggregated exactly and lost only as a whole and counted: in every run of an observer queue, the values observed under
  a key are, in their order, those of the groups flushed so far and those since the last flush; what the host received and what
  still waits are the sums of the groups that found room, in the order of the flushes; the drop counter is the number of groups that
  found none; the queue stays within its capacity; and the pending sum of a key is the sum of its values since the last flush.
\<close>

theorem observer_aggregation:
  assumes "(observer_step add zero)\<^sup>*\<^sup>* (new_observing capacity interval) g"
  shows "(\<forall>k. groups_of k (og_groups g) @ og_open g k = values_of k (og_seen g))
    \<and> oq_delivered (og_q g) @ oq_queue (og_q g)
        = map (\<lambda>x. observation (fst x) (foldl add zero (fst (snd x)))) (filter (\<lambda>x. snd (snd x)) (og_groups g))
    \<and> oq_dropped (og_q g) = of_nat (length (filter (\<lambda>x. \<not> snd (snd x)) (og_groups g)))
    \<and> length (oq_queue (og_q g)) \<le> oq_capacity (og_q g)
    \<and> (\<forall>k. oq_pending (og_q g) k = (if og_open g k = [] then None else Some (foldl add zero (og_open g k))))"
  using observer_run_inv [OF assms] unfolding observer_inv_def .

theorem observer_aggregation_witness:
  "(observer_step (+) 0)\<^sup>*\<^sup>* (new_observing 1 0) sample_observing \<and> oq_pending (og_q sample_observing) sample_label = Some 12
     \<and> oq_dropped (og_q sample_observing) = 0"
proof -
  from observer_aggregation [OF sample_observing_run]
  have "oq_pending (og_q sample_observing) sample_label
        = (if og_open sample_observing sample_label = [] then None else Some (foldl (+) 0 (og_open sample_observing sample_label)))"
      "oq_dropped (og_q sample_observing) = of_nat (length (filter (\<lambda>x. \<not> snd (snd x)) (og_groups sample_observing)))"
    by blast+
  with sample_observing_run sample_observing_history show ?thesis by simp
qed

text \<open>
  The number of labels is bounded: whatever the program observes, apart from the two places that pass on the code an application closed
  a session with, has one of 381 pairs of a name and a kind and one of the 26 codes of the protocol, so the aggregation table of an
  observer queue that is fed with such observations never has more than 9906 entries.
\<close>

theorem observation_labels_bounded:
  assumes "(observer_step add zero)\<^sup>*\<^sup>* (new_observing capacity interval) g"
    and "\<forall>k v. (k, v) \<in> set (og_seen g) \<longrightarrow> (\<exists>b. emitted float b \<and> key_of b = k)"
  shows "finite (dom (oq_pending (og_q g))) \<and> card (dom (oq_pending (og_q g))) \<le> 9906"
proof -
  have "dom (oq_pending (og_q g)) \<subseteq> observation_labels"
    using pending_seen [OF assms(1)] assms(2) emitted_label by fastforce
  moreover have "finite observation_labels" "card observation_labels \<le> 9906"
    using observation_labels_finite unfolding label_count by simp_all
  ultimately show ?thesis
    by (meson card_mono finite_subset order_trans)
qed

theorem observation_labels_bounded_witness:
  "(observer_step (+) (0 :: int))\<^sup>*\<^sup>* (new_observing 1 0) sample_observing \<and> length (og_seen sample_observing) = 2
     \<and> card (dom (oq_pending (og_q sample_observing))) \<le> 9906"
proof -
  have "\<forall>k v. (k, v) \<in> set (og_seen sample_observing) \<longrightarrow> (\<exists>b. emitted (\<lambda>n. n :: int) b \<and> key_of b = k)"
    using sample_label_emitted sample_observing_history(3) by auto
  from observation_labels_bounded [OF sample_observing_run this] sample_observing_run sample_observing_history(3) show ?thesis by simp
qed

end
