(* ===== verification/Request_Runs.thy ===== *)
theory Request_Runs
  imports Streams Scheduler
begin

text \<open>
  The life of one incoming request, \<open>readRequestStream\<close> of \<open>endpoint.go\<close> from the moment the envelope is made: the reader, the application that
  answers and releases the envelope, and the deadline interleave. \<open>cleanupOnce\<close>, \<open>completeOnce\<close> and \<open>responseMu\<close> make the closures of
  the function atomic steps. \<open>release\<close>, which the only caller always gives, returns the request slot of the connection.
\<close>

section \<open>State\<close>

datatype reader_phase = Deciding | Waiting | Returned

text \<open>
  \<open>rn_frames\<close> are the frames that were written to the stream, \<open>rn_closes\<close> and \<open>rn_slots\<close> count the calls of \<open>stream.Close\<close> and \<open>release\<close>,
  \<open>rn_done\<close> says that \<open>requestCtx\<close> is done, \<open>rn_shared\<close> that the application has the envelope.
\<close>

record request_run =
  rn_mode :: DispatchMode
  rn_phase :: reader_phase
  rn_incoming :: Incoming
  rn_shared :: bool
  rn_frames :: "bytes list"
  rn_writeClosed :: bool
  rn_closes :: nat
  rn_slots :: nat
  rn_cleaned :: bool
  rn_done :: bool
  rn_completed :: bool
  rn_returned :: "charge list"

text \<open>What an answer meets: the context of the call, the connection, the stream, the limit and the outgoing budgets.\<close>

record answer_env =
  ae_ctx :: "ctx_error option"
  ae_current :: bool
  ae_write :: "bytes \<Rightarrow> error option"
  ae_closeWrite :: "error option"
  ae_limit :: int
  ae_direction :: direction

definition cleanup :: "request_run \<Rightarrow> request_run" where
  "cleanup u =
     (if rn_cleaned u then u
      else u\<lparr>rn_cleaned := True, rn_closes := rn_closes u + 1, rn_writeClosed := True, rn_slots := rn_slots u + 1\<rparr>)"

text \<open>The envelope's \<open>release\<close>: \<open>StreamCleanup\<close> is the closure of the handler mode, which cancels the context first.\<close>

definition run_charge :: "charge \<Rightarrow> request_run \<Rightarrow> request_run" where
  "run_charge c u = (case c of StreamCleanup _ \<Rightarrow> cleanup (u\<lparr>rn_done := True\<rparr>) | _ \<Rightarrow> u\<lparr>rn_returned := rn_returned u @ [c]\<rparr>)"

definition Release_run :: "request_run \<Rightarrow> request_run" where
  "Release_run u = (let (cs, i) = Release_in (rn_incoming u) in fold run_charge cs (u\<lparr>rn_incoming := i\<rparr>))"

text \<open>\<open>respond\<close> of the envelope around the closure \<open>respond\<close> of the function. A stream whose write side was closed takes no more.\<close>

definition stream_of :: "request_run \<Rightarrow> answer_env \<Rightarrow> bytes \<Rightarrow> error option" where
  "stream_of u env b = (if rn_writeClosed u then Some (OtherError ''write on closed stream'') else ae_write env b)"

definition answer_run :: "answer_env \<Rightarrow> Code \<Rightarrow> bytes \<Rightarrow> request_run \<Rightarrow> (error option \<times> request_run) option" where
  "answer_run env status payload u =
     (if in_responded (rn_incoming u) then Some (Some ErrSessionClosed, u)
      else
        map_option (\<lambda>(err, frame, _).
            (let u = (case frame of None \<Rightarrow> u | Some f \<Rightarrow> u\<lparr>rn_frames := rn_frames u @ [f], rn_writeClosed := True\<rparr>);
                 u = (if err = None then u\<lparr>rn_completed := True\<rparr> else u);
                 (e, i) = respond err (rn_incoming u) in
             (e, u\<lparr>rn_incoming := i\<rparr>)))
          (respond_request (ae_ctx env) (ae_current env) (stream_of u env) (ae_closeWrite env) (ae_limit env) (ae_direction env) status payload))"

definition Reply_run :: "answer_env \<Rightarrow> bytes \<Rightarrow> request_run \<Rightarrow> (error option \<times> request_run) option" where
  "Reply_run env payload u = answer_run env Normal payload u"

definition Fail_run :: "answer_env \<Rightarrow> Code \<Rightarrow> string \<Rightarrow> request_run \<Rightarrow> (error option \<times> request_run) option" where
  "Fail_run env c message u = (if c = Normal then Some (Some ErrInvalidArgument, u) else answer_run env c (string_bytes message) u)"

text \<open>The deferred calls of the polling mode: \<open>Release\<close>, \<open>cancel\<close>, and the clean-up of an envelope that was not handed off.\<close>

definition leave_reader :: "request_run \<Rightarrow> request_run" where
  "leave_reader u = cleanup ((Release_run u)\<lparr>rn_done := True, rn_phase := Returned\<rparr>)"

definition hold :: "charge \<Rightarrow> request_run \<Rightarrow> request_run" where
  "hold c u = u\<lparr>rn_incoming := (rn_incoming u)\<lparr>in_release := in_release (rn_incoming u) @ [c]\<rparr>\<rparr>"

definition background :: "answer_env \<Rightarrow> bool" where
  "background env \<longleftrightarrow> ae_ctx env = None"

definition handed_off :: "request_run \<Rightarrow> request_run" where
  "handed_off u = (hold (StreamCleanup 0) u)\<lparr>rn_phase := Returned\<rparr>"

section \<open>Steps\<close>

text \<open>
  Polling: the reservation is committed, and the reader waits, or the queue is closed. Handlers: the envelope is handed to the
  connection's queue; a refused commit returns its own charge, a refusing scheduler has the envelope taken out again and released. Then the
  application answers and releases as often as it likes; in the handler mode \<open>invoke\<close> is part of it.
\<close>

inductive request_step :: "int \<Rightarrow> request_run \<Rightarrow> request_run \<Rightarrow> bool" for n where
  polled: "rn_phase u = Deciding \<Longrightarrow> rn_mode u = Polling
    \<Longrightarrow> request_step n u ((hold (QueueCharge n) u)\<lparr>rn_phase := Waiting, rn_shared := True\<rparr>)"
| queue_closed: "rn_phase u = Deciding \<Longrightarrow> rn_mode u = Polling \<Longrightarrow> background env
    \<Longrightarrow> Fail_run env Backpressure ''request queue full'' u = Some (e, v)
    \<Longrightarrow> request_step n u (leave_reader (v\<lparr>rn_returned := rn_returned v @ [QueueCharge n]\<rparr>))"
| completed: "rn_phase u = Waiting \<Longrightarrow> rn_completed u \<Longrightarrow> request_step n u (leave_reader u)"
| answered_late: "rn_phase u = Waiting \<Longrightarrow> rn_done u \<Longrightarrow> in_responded (rn_incoming u) \<Longrightarrow> request_step n u (leave_reader u)"
| expired: "rn_phase u = Waiting \<Longrightarrow> rn_done u \<Longrightarrow> \<not> in_responded (rn_incoming u) \<Longrightarrow> background env
    \<Longrightarrow> Fail_run env DeadlineExceeded ''request deadline exceeded'' u = Some (e, v) \<Longrightarrow> request_step n u (leave_reader v)"
| handed: "rn_phase u = Deciding \<Longrightarrow> rn_mode u \<noteq> Polling \<Longrightarrow> request_step n u ((hold (AppCharge n) (handed_off u))\<lparr>rn_shared := True\<rparr>)"
| commit_refused: "rn_phase u = Deciding \<Longrightarrow> rn_mode u \<noteq> Polling \<Longrightarrow> background env
    \<Longrightarrow> Fail_run env Backpressure ''request queue full'' (handed_off u) = Some (e, v)
    \<Longrightarrow> request_step n u (Release_run (v\<lparr>rn_returned := rn_returned v @ [AppCharge n]\<rparr>))"
| schedule_refused: "rn_phase u = Deciding \<Longrightarrow> rn_mode u \<noteq> Polling \<Longrightarrow> background env
    \<Longrightarrow> Fail_run env Backpressure ''request queue full'' (Release_run (hold (AppCharge n) (handed_off u))) = Some (e, v)
    \<Longrightarrow> request_step n u (Release_run v)"
| replied: "rn_shared u \<Longrightarrow> Reply_run env payload u = Some (e, v) \<Longrightarrow> request_step n u v"
| failed: "rn_shared u \<Longrightarrow> Fail_run env c message u = Some (e, v) \<Longrightarrow> request_step n u v"
| released: "rn_shared u \<Longrightarrow> request_step n u (Release_run u)"
| deadline: "request_step n u (u\<lparr>rn_done := True\<rparr>)"

definition start_request :: "DispatchMode \<Rightarrow> Incoming \<Rightarrow> request_run" where
  "start_request mode i =
     \<lparr>rn_mode = mode, rn_phase = Deciding, rn_incoming = i\<lparr>in_Kind := RequestMessage, in_release := [], in_released := False, in_responded := False\<rparr>,
      rn_shared = False, rn_frames = [], rn_writeClosed = False, rn_closes = 0, rn_slots = 0, rn_cleaned = False, rn_done = False,
      rn_completed = False, rn_returned = []\<rparr>"

section \<open>Invariant\<close>

definition is_answer :: "bytes \<Rightarrow> bool" where
  "is_answer f \<longleftrightarrow> (\<exists>status payload limit. EncodeResponse \<lparr>rs_Status = ucast (status :: Code), rs_Payload = payload\<rparr> limit = Inr f)"

definition own_charge :: "int \<Rightarrow> request_run \<Rightarrow> charge" where
  "own_charge n u = (if rn_mode u = Polling then QueueCharge n else AppCharge n)"

definition resources_ok :: "request_run \<Rightarrow> bool" where
  "resources_ok u \<longleftrightarrow>
     rn_slots u = (if rn_cleaned u then 1 else 0) \<and> rn_closes u = rn_slots u \<and> (rn_cleaned u \<longrightarrow> rn_writeClosed u)"

definition answers_ok :: "request_run \<Rightarrow> bool" where
  "answers_ok u \<longleftrightarrow>
     in_Kind (rn_incoming u) = RequestMessage \<and> rn_completed u = in_responded (rn_incoming u)
     \<and> (case rn_frames u of [] \<Rightarrow> \<not> in_responded (rn_incoming u) | f # fs \<Rightarrow> fs = [] \<and> is_answer f \<and> rn_writeClosed u)"

definition phase_ok :: "int \<Rightarrow> request_run \<Rightarrow> bool" where
  "phase_ok n u \<longleftrightarrow>
     (let i = rn_incoming u in
      case rn_phase u of
        Deciding \<Rightarrow> \<not> rn_shared u \<and> in_release i = [] \<and> \<not> in_released i \<and> \<not> rn_cleaned u \<and> rn_returned u = []
          \<and> rn_frames u = [] \<and> \<not> rn_writeClosed u
      | Waiting \<Rightarrow> rn_mode u = Polling \<and> rn_shared u \<and> \<not> rn_cleaned u \<and> in_release i = [QueueCharge n]
          \<and> rn_returned u = (if in_released i then [QueueCharge n] else [])
      | Returned \<Rightarrow>
          rn_cleaned u = in_released i \<and> rn_returned u = (if in_released i then [own_charge n u] else [])
          \<and> (\<not> in_released i \<longrightarrow> rn_mode u \<noteq> Polling \<and> rn_shared u \<and> in_release i = [StreamCleanup 0, AppCharge n]))"

definition request_inv :: "int \<Rightarrow> request_run \<Rightarrow> bool" where
  "request_inv n u \<longleftrightarrow> resources_ok u \<and> answers_ok u \<and> phase_ok n u"

lemmas request_inv_defs = request_inv_def resources_ok_def answers_ok_def phase_ok_def Let_def own_charge_def

lemma start_request_inv: "request_inv n (start_request mode i)"
  by (simp add: request_inv_defs start_request_def)

lemma answer_run_cases:
  assumes "answer_run env status payload u = Some (e, v)"
  obtains "v = u"
  | f where "\<not> in_responded (rn_incoming u)" "\<not> rn_writeClosed u" "is_answer f" "v = u\<lparr>rn_frames := rn_frames u @ [f], rn_writeClosed := True\<rparr>"
  | f where "\<not> in_responded (rn_incoming u)" "\<not> rn_writeClosed u" "is_answer f"
    "v = u\<lparr>rn_frames := rn_frames u @ [f], rn_writeClosed := True, rn_completed := True, rn_incoming := (rn_incoming u)\<lparr>in_responded := True\<rparr>\<rparr>"
proof (cases "in_responded (rn_incoming u)")
  case True
  with assms that(1) show thesis
    by (simp add: answer_run_def)
next
  case False
  from assms False obtain err frame d where r: "respond_request (ae_ctx env) (ae_current env) (stream_of u env) (ae_closeWrite env) (ae_limit env)
      (ae_direction env) status payload = Some (err, frame, d)"
    by (auto simp: answer_run_def)
  show thesis
  proof (cases frame)
    case None
    then have "err \<noteq> None"
      using r by (auto simp: respond_request_def Let_def split: option.splits if_splits sum.splits prod.splits) (metis option.exhaust)
    with assms False r None that(1) show thesis
      by (auto simp: answer_run_def respond_def)
  next
    case (Some f)
    have closed: "\<not> rn_writeClosed u" "is_answer f"
      using r Some unfolding is_answer_def
      by (auto simp: respond_request_def stream_of_def Let_def split: option.splits if_splits sum.splits prod.splits)
    have v: "v = (if err = None then u\<lparr>rn_frames := rn_frames u @ [f], rn_writeClosed := True, rn_completed := True,
        rn_incoming := (rn_incoming u)\<lparr>in_responded := True\<rparr>\<rparr> else u\<lparr>rn_frames := rn_frames u @ [f], rn_writeClosed := True\<rparr>)"
      using assms False r Some by (cases err) (auto simp: answer_run_def respond_def)
    show thesis
    proof (cases "err = None")
      case True
      with v closed False that(3) show thesis by simp
    next
      case bad: False
      with v closed False that(2) show thesis by simp
    qed
  qed
qed

text \<open>An answer changes nothing but the frames and who has answered.\<close>

definition holds_same :: "request_run \<Rightarrow> request_run \<Rightarrow> bool" where
  "holds_same u v \<longleftrightarrow>
     rn_cleaned v = rn_cleaned u \<and> rn_phase v = rn_phase u \<and> rn_mode v = rn_mode u \<and> rn_shared v = rn_shared u \<and> rn_done v = rn_done u
     \<and> rn_returned v = rn_returned u \<and> in_release (rn_incoming v) = in_release (rn_incoming u)
     \<and> in_released (rn_incoming v) = in_released (rn_incoming u)"

lemma answer_keeps:
  assumes "answer_run env status payload u = Some (e, v)" "resources_ok u" "answers_ok u"
  shows "resources_ok v \<and> answers_ok v \<and> holds_same u v"
proof -
  have empty: "rn_frames u = []" if "\<not> rn_writeClosed u"
    using assms(3) that by (auto simp: answers_ok_def split: list.splits)
  show ?thesis
    using assms(1)
  proof (cases rule: answer_run_cases)
    case 1
    with assms(2,3) show ?thesis by (simp add: holds_same_def)
  next
    case (2 f)
    with assms(2,3) empty show ?thesis by (simp add: resources_ok_def answers_ok_def holds_same_def)
  next
    case (3 f)
    with assms(2,3) empty show ?thesis by (simp add: resources_ok_def answers_ok_def holds_same_def)
  qed
qed

lemma Fail_keeps:
  assumes "Fail_run env c message u = Some (e, v)" "resources_ok u" "answers_ok u"
  shows "resources_ok v \<and> answers_ok v \<and> holds_same u v"
  using assms answer_keeps [of env c "string_bytes message" u e v] by (auto simp: Fail_run_def holds_same_def split: if_splits)

lemma phase_ok_same: "holds_same u v \<Longrightarrow> rn_phase u \<noteq> Deciding \<Longrightarrow> phase_ok n u \<Longrightarrow> phase_ok n v"
  by (auto simp: phase_ok_def holds_same_def own_charge_def Let_def split: reader_phase.splits)

text \<open>What the releases do to the runs they are applied to.\<close>

lemma Release_run_released: "in_released (rn_incoming u) \<Longrightarrow> Release_run u = u"
  by (simp add: Release_run_def Release_in_def)

lemma Release_run_keeps:
  assumes "request_inv n u" "rn_phase u \<noteq> Deciding"
  shows "request_inv n (Release_run u)" "in_released (rn_incoming (Release_run u))" "rn_phase (Release_run u) = rn_phase u" "rn_mode (Release_run u) = rn_mode u"
    "rn_completed (Release_run u) = rn_completed u" "rn_frames (Release_run u) = rn_frames u" "rn_shared (Release_run u) = rn_shared u"
  using assms
  by (auto simp: Release_run_def Release_in_def run_charge_def cleanup_def request_inv_defs split: reader_phase.splits list.splits)

lemma leave_reader_inv:
  assumes "request_inv n u" "rn_phase u = Waiting"
  shows "request_inv n (leave_reader u)"
proof -
  have "request_inv n (Release_run u)" "in_released (rn_incoming (Release_run u))" "rn_phase (Release_run u) = Waiting"
    using Release_run_keeps [OF assms(1)] assms(2) by simp_all
  then show ?thesis
    by (auto simp: leave_reader_def cleanup_def request_inv_defs split: list.splits)
qed

lemma refused_inv:
  assumes "request_inv n u" "rn_phase u = Deciding" "rn_mode u = Polling" "Fail_run env c message u = Some (e, v)"
  shows "request_inv n (leave_reader (v\<lparr>rn_returned := rn_returned v @ [QueueCharge n]\<rparr>))"
proof -
  have "resources_ok v \<and> answers_ok v \<and> holds_same u v"
    using assms by (intro Fail_keeps [OF assms(4)]) (simp_all add: request_inv_def)
  then show ?thesis
    using assms(1-3) unfolding request_inv_defs holds_same_def leave_reader_def Release_run_def Release_in_def cleanup_def
    by (auto split: list.splits)
qed

lemma handed_off_simps [simp]:
  "resources_ok (handed_off u) = resources_ok u" "answers_ok (handed_off u) = answers_ok u" "resources_ok (hold c u) = resources_ok u"
  "answers_ok (hold c u) = answers_ok u"
  by (simp_all add: handed_off_def hold_def resources_ok_def answers_ok_def split: list.split)

lemma handed_inv:
  assumes "request_inv n u" "rn_phase u = Deciding" "rn_mode u \<noteq> Polling"
  shows "request_inv n ((hold (AppCharge n) (handed_off u))\<lparr>rn_shared := True\<rparr>)"
  using assms by (simp add: request_inv_defs handed_off_def hold_def split: list.splits)

lemma commit_refused_inv:
  assumes "request_inv n u" "rn_phase u = Deciding" "rn_mode u \<noteq> Polling" "Fail_run env c message (handed_off u) = Some (e, v)"
  shows "request_inv n (Release_run (v\<lparr>rn_returned := rn_returned v @ [AppCharge n]\<rparr>))"
proof -
  have "resources_ok v \<and> answers_ok v \<and> holds_same (handed_off u) v"
    using assms by (intro Fail_keeps [OF assms(4)]) (simp_all add: request_inv_def)
  then show ?thesis
    using assms(1-3) unfolding request_inv_defs holds_same_def Release_run_def Release_in_def cleanup_def run_charge_def handed_off_def hold_def
    by (auto split: list.splits)
qed

lemma schedule_refused_inv:
  assumes "request_inv n u" "rn_phase u = Deciding" "rn_mode u \<noteq> Polling"
    and "Fail_run env c message (Release_run (hold (AppCharge n) (handed_off u))) = Some (e, v)"
  shows "request_inv n (Release_run v)" "rn_frames (Release_run v) = []"
proof -
  let ?w = "Release_run (hold (AppCharge n) (handed_off u))"
  have w: "request_inv n ?w" "rn_phase ?w = Returned" "in_released (rn_incoming ?w)" "rn_writeClosed ?w" "rn_frames ?w = []"
    using assms(1-3) by (auto simp: request_inv_defs Release_run_def Release_in_def cleanup_def run_charge_def handed_off_def hold_def split: list.splits)
  have v: "resources_ok v \<and> answers_ok v \<and> holds_same ?w v"
    using w(1) by (intro Fail_keeps [OF assms(4)]) (simp_all add: request_inv_def)
  then have "request_inv n v" "in_released (rn_incoming v)"
    using w phase_ok_same [of ?w v n] by (auto simp: request_inv_def holds_same_def)
  then show "request_inv n (Release_run v)"
    by (simp add: Release_run_released)
  have "rn_frames v = []"
    using assms(4) w(4,5) by (auto simp: Fail_run_def elim!: answer_run_cases split: if_splits)
  with \<open>in_released (rn_incoming v)\<close> show "rn_frames (Release_run v) = []"
    by (simp add: Release_run_released)
qed

lemma request_step_inv:
  assumes "request_step n u v" "request_inv n u"
  shows "request_inv n v"
  using assms
proof (induction rule: request_step.induct)
  case (polled u)
  then show ?case by (auto simp: request_inv_defs hold_def)
next
  case (queue_closed u env e v)
  then show ?case by (simp add: refused_inv)
next
  case (completed u)
  then show ?case by (simp add: leave_reader_inv)
next
  case (answered_late u)
  then show ?case by (simp add: leave_reader_inv)
next
  case (expired u env e v)
  then have "resources_ok v \<and> answers_ok v \<and> holds_same u v"
    by (intro Fail_keeps [OF expired(5)]) (simp_all add: request_inv_def)
  then have "request_inv n v" "rn_phase v = Waiting"
    using expired phase_ok_same [of u v n] by (auto simp: request_inv_def holds_same_def)
  then show ?case by (rule leave_reader_inv)
next
  case (handed u)
  then show ?case by (simp add: handed_inv)
next
  case (commit_refused u env e v)
  then show ?case by (simp add: commit_refused_inv)
next
  case (schedule_refused u env e v)
  then show ?case by (simp add: schedule_refused_inv)
next
  case (replied u env payload e v)
  then have "rn_phase u \<noteq> Deciding"
    by (auto simp: request_inv_defs)
  then show ?case
    using replied answer_keeps [of env Normal payload u e v] phase_ok_same [of u v n] by (simp add: Reply_run_def request_inv_def)
next
  case (failed u env c message e v)
  then have "rn_phase u \<noteq> Deciding"
    by (auto simp: request_inv_defs)
  then show ?case
    using failed Fail_keeps [of env c message u e v] phase_ok_same [of u v n] by (simp add: request_inv_def)
next
  case (released u)
  then have "rn_phase u \<noteq> Deciding"
    by (auto simp: request_inv_defs)
  with released show ?case by (simp add: Release_run_keeps)
next
  case (deadline u)
  then show ?case by (auto simp: request_inv_defs split: reader_phase.splits list.splits)
qed

lemma requests_inv: "(request_step n)\<^sup>*\<^sup>* (start_request mode i) u \<Longrightarrow> request_inv n u"
  by (induction rule: rtranclp_induct) (auto simp: start_request_inv intro: request_step_inv)

section \<open>Properties\<close>

text \<open>The run is over when the reader has returned and the envelope was released.\<close>

definition finished :: "request_run \<Rightarrow> bool" where
  "finished u \<longleftrightarrow> rn_phase u = Returned \<and> in_released (rn_incoming u)"

lemma leave_reader_finished:
  assumes "request_inv n u" "rn_phase u = Waiting"
  shows "finished (leave_reader u)"
  using Release_run_keeps [OF assms(1)] assms(2) by (simp add: leave_reader_def cleanup_def finished_def)

lemma reader_wakes:
  assumes "request_inv n u" "rn_phase u = Waiting" "rn_completed u \<or> rn_done u" "background env"
    "Fail_run env DeadlineExceeded ''request deadline exceeded'' u = Some (e, v)"
  shows "\<exists>v. request_step n u v \<and> finished v"
proof (cases "in_responded (rn_incoming u)")
  case True
  have "rn_completed u"
    using True assms(1) by (simp add: request_inv_def answers_ok_def)
  then show ?thesis
    using request_step.completed [OF assms(2)] leave_reader_finished [OF assms(1,2)] by blast
next
  case False
  then have waits: "rn_done u"
    using assms(1,3) by (simp add: request_inv_def answers_ok_def)
  have "resources_ok v \<and> answers_ok v \<and> holds_same u v"
    using assms(1) by (intro Fail_keeps [OF assms(5)]) (simp_all add: request_inv_def)
  then have "request_inv n v" "rn_phase v = Waiting"
    using assms(1,2) phase_ok_same [of u v n] by (auto simp: request_inv_def holds_same_def)
  with request_step.expired [OF assms(2) waits False assms(4,5)] leave_reader_finished show ?thesis
    by blast
qed

text \<open>A deadline answer that is taken is the only frame.\<close>

lemma deadline_answer:
  assumes "answers_ok u" "Fail_run env DeadlineExceeded message u = Some (None, v)"
  shows "\<exists>f. rn_frames v = [f] \<and> EncodeResponse \<lparr>rs_Status = ucast DeadlineExceeded, rs_Payload = string_bytes message\<rparr> (ae_limit env) = Inr f"
proof -
  from assms(2) have run: "answer_run env DeadlineExceeded (string_bytes message) u = Some (None, v)"
    by (simp add: Fail_run_def)
  then have open': "\<not> in_responded (rn_incoming u)"
    by (auto simp: answer_run_def)
  with run obtain f d where r: "respond_request (ae_ctx env) (ae_current env) (stream_of u env) (ae_closeWrite env) (ae_limit env) (ae_direction env)
      DeadlineExceeded (string_bytes message) = Some (None, Some f, d)" "rn_frames v = rn_frames u @ [f]"
    by (auto simp: answer_run_def respond_def respond_request_def Let_def split: option.splits if_splits sum.splits prod.splits)
  then have "\<not> rn_writeClosed u" "EncodeResponse \<lparr>rs_Status = ucast DeadlineExceeded, rs_Payload = string_bytes message\<rparr> (ae_limit env) = Inr f"
    by (auto simp: respond_request_def stream_of_def Let_def split: option.splits if_splits sum.splits prod.splits)
  moreover from this(1) assms(1) have "rn_frames u = []"
    by (auto simp: answers_ok_def split: list.splits)
  ultimately show ?thesis
    using r(2) by simp
qed

text \<open>
  C13. The life of a request. However the reader, the application and the deadline interleave, the request slot is returned and the stream closed at most
  once, the charge of the envelope is given back at most once, and at most one response is written; all of that has happened, the response apart, when the
  run is over. In the polling mode the reader can leave as soon as the request is answered or its deadline has passed, whatever the application does, and
  what it answers at the deadline is \<open>DeadlineExceeded\<close>.
\<close>

theorem request_lifetime:
  assumes "(request_step n)\<^sup>*\<^sup>* (start_request mode i) u"
  shows "rn_slots u \<le> 1 \<and> rn_closes u = rn_slots u \<and> rn_returned u \<in> {[], [own_charge n u]}
    \<and> length (rn_frames u) \<le> 1 \<and> list_all is_answer (rn_frames u) \<and> (in_responded (rn_incoming u) \<longrightarrow> rn_frames u \<noteq> [])
    \<and> (finished u \<longrightarrow> rn_slots u = 1 \<and> rn_returned u = [own_charge n u])
    \<and> (rn_mode u = Polling \<and> rn_phase u = Returned \<longrightarrow> finished u)
    \<and> (\<forall>env e v. rn_phase u = Waiting \<and> (rn_completed u \<or> rn_done u) \<and> background env
         \<and> Fail_run env DeadlineExceeded ''request deadline exceeded'' u = Some (e, v) \<longrightarrow>
         (\<exists>w. request_step n u w \<and> finished w)
         \<and> (e = None \<longrightarrow> (\<exists>f. rn_frames v = [f]
              \<and> EncodeResponse \<lparr>rs_Status = ucast DeadlineExceeded, rs_Payload = string_bytes ''request deadline exceeded''\<rparr> (ae_limit env) = Inr f)))"
proof -
  note inv = requests_inv [OF assms]
  have "rn_slots u \<le> 1 \<and> rn_closes u = rn_slots u \<and> rn_returned u \<in> {[], [own_charge n u]}"
    using inv by (auto simp: request_inv_defs split: reader_phase.splits)
  moreover have "length (rn_frames u) \<le> 1 \<and> list_all is_answer (rn_frames u) \<and> (in_responded (rn_incoming u) \<longrightarrow> rn_frames u \<noteq> [])"
    using inv by (auto simp: request_inv_def answers_ok_def split: list.splits)
  moreover have "finished u \<longrightarrow> rn_slots u = 1 \<and> rn_returned u = [own_charge n u]" "rn_mode u = Polling \<and> rn_phase u = Returned \<longrightarrow> finished u"
    using inv by (auto simp: request_inv_defs finished_def)
  moreover have "answers_ok u"
    using inv by (simp add: request_inv_def)
  ultimately show ?thesis
    using reader_wakes [OF inv] deadline_answer [of u] by blast
qed

text \<open>A polled request that nobody answers: the deadline passes, the reader answers and leaves.\<close>

definition open_answer :: answer_env where
  "open_answer = \<lparr>ae_ctx = None, ae_current = True, ae_write = (\<lambda>_. None), ae_closeWrite = None, ae_limit = 1024,
     ae_direction = \<lparr>di_ordinary = None, di_reply = None, di_app = None\<rparr>\<rparr>"

definition unanswered_request :: request_run where
  "unanswered_request = ((hold (QueueCharge 40) (start_request Polling sample_request))\<lparr>rn_phase := Waiting, rn_shared := True\<rparr>)\<lparr>rn_done := True\<rparr>"

theorem request_lifetime_witness:
  "\<exists>u v f. (request_step 40)\<^sup>*\<^sup>* (start_request Polling sample_request) unanswered_request
    \<and> Fail_run open_answer DeadlineExceeded ''request deadline exceeded'' unanswered_request = Some (None, v) \<and> rn_frames v = [f]
    \<and> request_step 40 unanswered_request u \<and> finished u"
proof -
  let ?w = "(hold (QueueCharge 40) (start_request Polling sample_request))\<lparr>rn_phase := Waiting, rn_shared := True\<rparr>"
  have "request_step 40 (start_request Polling sample_request) ?w"
    by (rule request_step.polled) (simp_all add: start_request_def)
  moreover have "request_step 40 ?w unanswered_request"
    unfolding unanswered_request_def by (rule request_step.deadline)
  ultimately have run: "(request_step 40)\<^sup>*\<^sup>* (start_request Polling sample_request) unanswered_request"
    by (intro converse_rtranclp_into_rtranclp [OF _ r_into_rtranclp])
  have answer: "\<exists>v. Fail_run open_answer DeadlineExceeded ''request deadline exceeded'' unanswered_request = Some (None, v)"
  proof -
    obtain f where "EncodeResponse \<lparr>rs_Status = ucast DeadlineExceeded, rs_Payload = string_bytes ''request deadline exceeded''\<rparr> 1024 = Inr f"
      by (simp add: EncodeResponse_def AppendVarint_Inr_iff VarintLen_def utf8_valid.simps maxDiagnosticBytes_def)
    then show ?thesis
      by (simp add: Fail_run_def answer_run_def respond_request_def open_answer_def reserveReplyDirectionalBytes_def acquire_opt_def release_directional_def
          release_opt_def stream_of_def respond_def unanswered_request_def hold_def start_request_def del: string_bytes_simps)
  qed
  then obtain v where v: "Fail_run open_answer DeadlineExceeded ''request deadline exceeded'' unanswered_request = Some (None, v)"
    by blast
  have "rn_phase unanswered_request = Waiting" "rn_done unanswered_request" "background open_answer"
    by (simp_all add: unanswered_request_def open_answer_def background_def)
  with v request_lifetime [OF run] run show ?thesis
    by blast
qed

end
