(* ===== verification/Serving.thy ===== *)
theory Serving
  imports Server_Safety
begin

text \<open>
  \<open>Serve\<close> of \<open>endpoint.go\<close>: the accept loop, the goroutines of \<open>handleConnection\<close> that it counts in \<open>workers\<close>, and the deferred function
  that ends the server, over the critical sections of \<open>Server_Safety\<close>. The deferred function reads the table of sessions once, closes those sessions one
  by one, closes the socket and waits for the goroutines; meanwhile they go on.
\<close>

section \<open>Steps\<close>

datatype serve_phase = Accepting | Closing "pointer list" | Leaving | Stopped

text \<open>\<open>sg_found\<close> remembers the sessions that the deferred function found.\<close>

record ('a, 'h) serving =
  sg_run :: "('a, 'h) run"
  sg_workers :: nat
  sg_phase :: serve_phase
  sg_found :: "pointer list"

definition with_server :: "('a, 'h) serving \<Rightarrow> ('a, 'h) serverEndpoint \<Rightarrow> ('a, 'h) serving" where
  "with_server y s = y\<lparr>sg_run := (sg_run y)\<lparr>ru_server := s\<rparr>\<rparr>"

text \<open>
  A goroutine of a connection gives its handshake back and may then admit a session; it ends when its deferred \<open>finishPending\<close> has run. Every other
  critical section (\<open>acts\<close>: timers, the control streams, the application) may come at any time, even after \<open>Serve\<close> has returned.
\<close>

inductive serve_step :: "('a, 'h) serving \<Rightarrow> ('a, 'h) serving \<Rightarrow> bool" where
  refuses: "sg_phase y = Accepting \<Longrightarrow> accept_connection now address (ru_server (sg_run y)) = (Some reject, s) \<Longrightarrow> serve_step y (with_server y s)"
| accepts: "sg_phase y = Accepting \<Longrightarrow> accept_connection now address (ru_server (sg_run y)) = (None, s) \<Longrightarrow>
    serve_step y (y\<lparr>sg_run := (sg_run y)\<lparr>ru_server := s, ru_handshakes := Suc (ru_handshakes (sg_run y))\<rparr>, sg_workers := Suc (sg_workers y)\<rparr>)"
| shaken: "ru_handshakes (sg_run y) = Suc n \<Longrightarrow>
    serve_step y (y\<lparr>sg_run := (sg_run y)\<lparr>ru_server := finishPending (ru_server (sg_run y)), ru_handshakes := n\<rparr>\<rparr>)"
| admits: "ru_handshakes (sg_run y) < sg_workers y \<Longrightarrow>
    admit_session sha256 hello prin secret random_id p op gp (ru_server (sg_run y)) = Some (r, s) \<Longrightarrow>
    p \<notin> ru_used (sg_run y) \<Longrightarrow> gp \<notin> ru_used (sg_run y) \<Longrightarrow> p \<noteq> gp \<Longrightarrow>
    serve_step y (y\<lparr>sg_run := (sg_run y)\<lparr>ru_server := s, ru_used := {p, gp} \<union> ru_used (sg_run y)\<rparr>\<rparr>)"
| ends: "ru_handshakes (sg_run y) < sg_workers y \<Longrightarrow> serve_step y (y\<lparr>sg_workers := sg_workers y - 1\<rparr>)"
| acts: "run_step (sg_run y) v \<Longrightarrow> ru_handshakes v = ru_handshakes (sg_run y) \<Longrightarrow>
    dom (sv_heap (ru_server v)) = dom (sv_heap (ru_server (sg_run y))) \<Longrightarrow> serve_step y (y\<lparr>sg_run := v\<rparr>)"
| stops: "sg_phase y = Accepting \<Longrightarrow>
    serve_step y (y\<lparr>sg_phase := Closing (Sessions (ru_server (sg_run y))), sg_found := Sessions (ru_server (sg_run y))\<rparr>)"
| closes: "sg_phase y = Closing (p # ps) \<Longrightarrow>
    serve_step y ((with_server y (closeSession now p ServerUnavailable (ru_server (sg_run y))))\<lparr>sg_phase := Closing ps\<rparr>)"
| leaves: "sg_phase y = Closing [] \<Longrightarrow> serve_step y (y\<lparr>sg_phase := Leaving\<rparr>)"
| returns: "sg_phase y = Leaving \<Longrightarrow> sg_workers y = 0 \<Longrightarrow>
    serve_step y ((with_server y (stopTerminalTimer (stopGroupTimers (ru_server (sg_run y)))))\<lparr>sg_phase := Stopped\<rparr>)"

definition start_serving :: "('a, 'h) serverEndpoint \<Rightarrow> ('a, 'h) serving" where
  "start_serving s = \<lparr>sg_run = start s, sg_workers = 0, sg_phase = Accepting, sg_found = []\<rparr>"

section \<open>What ends stays ended\<close>

definition listed :: "('a, 'h) run \<Rightarrow> bool" where
  "listed u \<longleftrightarrow> snd ` set (sv_sessions (ru_server u)) \<subseteq> ru_used u"

text \<open>A change that makes no known session live again and lists no other session.\<close>

definition settles :: "pointer set \<Rightarrow> ('a, 'h) serverEndpoint \<Rightarrow> ('a, 'h) serverEndpoint \<Rightarrow> bool" where
  "settles known s s' \<longleftrightarrow> (\<forall>p g. p \<in> known \<and> alive s' p g \<longrightarrow> alive s p g) \<and> snd ` set (sv_sessions s') \<subseteq> snd ` set (sv_sessions s)"

lemma settles_refl [simp]: "settles known s s"
  by (simp add: settles_def)

lemma settles_trans: "settles known s t \<Longrightarrow> settles known t v \<Longrightarrow> settles known s v"
  unfolding settles_def by blast

lemma settles_same: "quiet s t \<Longrightarrow> sv_sessions t = sv_sessions s \<Longrightarrow> settles known s t"
  by (simp add: settles_def quiet_def)

lemma set_delete: "set (AList.delete k xs) \<subseteq> set xs"
  by (induction xs) auto

lemma set_update: "set (AList.update k v xs) \<subseteq> insert (k, v) (set xs)"
  by (induction xs) auto

lemma expireTerminals_sessions [simp]: "sv_sessions (expireTerminalsLocked now s) = sv_sessions s"
  by (simp add: expireTerminalsLocked_def scheduleTerminalExpiryLocked_def)

lemma recordTerminal_sessions [simp]: "sv_sessions (recordTerminalLocked now sid code s) = sv_sessions s"
  by (simp add: recordTerminalLocked_def scheduleTerminalExpiryLocked_def Let_def)

lemma on_session_sessions [simp]: "sv_sessions (on_session p f s) = sv_sessions s"
  using on_session_same [of s p f] by (simp add: same_tables_def)

lemma leave_table_sessions: "set (sv_sessions (leave_table now c code sid p s)) \<subseteq> set (sv_sessions s)"
  using set_delete [of sid "sv_sessions s"] by (simp add: leave_table_def signalChanged_def Let_def)

lemma removeSession_settles: "settles known s (removeSession now p s)"
proof (cases "sv_heap s p")
  case None
  then show ?thesis by (simp add: removeSession_def)
next
  case (Some r)
  then have "snd ` set (sv_sessions (removeSession now p s)) \<subseteq> snd ` set (sv_sessions s)"
    using leave_table_sessions by (fastforce simp: removeSession_def intro!: image_mono)
  then show ?thesis
    using removeSession_alive by (auto simp: settles_def)
qed

lemma closeSession_settles:
  "code \<noteq> SessionSuperseded \<Longrightarrow> settles known s (closeSession now p code s)"
  unfolding closeSession_def
  by (rule settles_trans [OF settles_same [OF on_session_quiet [OF tame_updates(3)]] removeSession_settles]) simp

lemma finishConnection_settles: "settles known s (finishConnection now p operations s)"
  using finishConnection_suspend_quiet [of s p _ operations _ _ now] removeSession_settles [of known s now p]
  by (auto simp: finishConnection_def split: option.splits prod.splits bool.splits intro: settles_same)

lemma resumeConnection_settles:
  assumes "resumeConnection now sha256 hello resume prin op s = (x, s')"
  shows "settles known s s'"
proof -
  have "sv_sessions v = sv_sessions t" if "resume_session now hello prin hash op p r t = (y, v)" for hash p r y v and t :: "('a, 'b) serverEndpoint"
    using that by (auto simp: resume_session_def Let_def split: if_splits)
  then have "sv_sessions s' = sv_sessions s"
    using resumeConnection_cases [OF assms] by auto
  with resumeConnection_quiet [OF assms] show ?thesis
    by (rule settles_same)
qed

lemma handleRefresh_settles: "handleRefresh now message p s = (m, s') \<Longrightarrow> settles known s s'"
  by (frule handleRefresh_quiet, erule settles_same)
    (auto simp: handleRefresh_def Let_def split: option.splits sum.splits if_splits)

lemma enter_group_settles: "settles known s (snd (enter_group g gp s))"
  by (simp add: settles_def alive_def)

lemma admit_settles:
  assumes "admit_session sha256 hello prin secret random_id p op gp s = Some (r, s')" "p \<notin> known" "p \<notin> dom (sv_heap s)"
  shows "(\<forall>q g. q \<in> known \<and> alive s' q g \<longrightarrow> alive s q g) \<and> snd ` set (sv_sessions s') \<subseteq> insert p (snd ` set (sv_sessions s))"
  using assms(1)
proof (cases rule: admit_session_cases)
  case (rejected reject)
  then show ?thesis
    using enter_group_settles [of known s "he_Group hello" gp] by (auto simp: settles_def)
next
  case (admitted t session sid)
  then have t: "t = snd (enter_group (he_Group hello) gp s)"
    by simp
  then have "p \<notin> dom (sv_heap t)" "sv_heap t = sv_heap s" "sv_sessions t = sv_sessions s"
    using assms(3) by simp_all
  with admitted(8) assms(2) show ?thesis
    using set_update [of sid p "sv_sessions t"] by (auto simp: alive_def install_session_fields split: if_splits)
qed

text \<open>A step of the run that keeps known sessions as they are: none comes back to life.\<close>

definition progress_of :: "('a, 'h) run \<Rightarrow> ('a, 'h) run \<Rightarrow> bool" where
  "progress_of u v \<longleftrightarrow> ru_used u \<subseteq> ru_used v \<and> listed v \<and> (\<forall>p g. p \<in> ru_used u \<and> alive (ru_server v) p g \<longrightarrow> alive (ru_server u) p g)"

lemma settles_progress:
  assumes "listed u" "settles (ru_used u) (ru_server u) (ru_server v)" "ru_used u \<subseteq> ru_used v"
  shows "progress_of u v"
  using assms unfolding progress_of_def listed_def settles_def by blast

lemma admit_progress:
  assumes "listed u" "run_inv u" "admit_session sha256 hello prin secret random_id p op gp (ru_server u) = Some (r, s)" "p \<notin> ru_used u"
  shows "progress_of u (u\<lparr>ru_server := s, ru_used := {p, gp} \<union> ru_used u\<rparr>)"
proof -
  have "p \<notin> dom (sv_heap (ru_server u))"
    using assms(2,4) by (auto simp: run_inv_def groups_inv_def pointers_inv_def)
  from admit_settles [OF assms(3,4) this] assms(1) show ?thesis
    unfolding progress_of_def listed_def by (simp add: subset_iff) blast
qed

lemma run_step_progress:
  assumes "run_step u v" "run_inv u" "listed u"
  shows "progress_of u v"
  using assms
proof (induction rule: run_step.induct)
  case (refused now address u reject s)
  then show ?case
    using accept_quiet [OF refused(1)] by (intro settles_progress) (auto simp: settles_def same_tables_def alive_def)
next
  case (accepted now address u s)
  then show ?case
    using accept_quiet [OF accepted(1)] by (intro settles_progress) (auto simp: settles_def same_tables_def alive_def)
next
  case (handshaken u n)
  then show ?case by (intro settles_progress) (auto simp: settles_def finishPending_def alive_def)
next
  case (admit sha256 hello prin secret random_id p op gp u r s)
  then show ?case using admit_progress [of u sha256 hello prin secret random_id p op gp r s] by blast
next
  case (arm_expiry u p now t)
  then show ?case by (intro settles_progress settles_same) (simp_all add: on_session_quiet tame_updates)
next
  case (resume now sha256 hello res prin op u r s)
  then show ?case by (intro settles_progress) (simp_all add: resumeConnection_settles)
next
  case (finished u now p operations)
  then show ?case by (intro settles_progress) (simp_all add: finishConnection_settles)
next
  case (refresh now message p u m s)
  then show ?case by (intro settles_progress) (simp_all add: handleRefresh_settles)
next
  case (closed code u p)
  then show ?case by (intro settles_progress settles_same) (simp_all add: on_session_quiet tame_updates)
next
  case (removed u p r now)
  then show ?case by (intro settles_progress) (simp_all add: removeSession_settles)
next
  case (terminals u now)
  then show ?case by (intro settles_progress settles_same) (simp_all add: expireTerminals_quiet)
next
  case (drain hasDeadline u r s)
  then show ?case by (intro settles_progress) (auto simp: drain_begin_def settles_def alive_def split: if_splits)
next
  case (close_begin g gp u state s)
  then show ?case
    using close_begin_cases [OF close_begin(1)] by (intro settles_progress) (auto simp: settles_def)
next
  case (close_next g gp p ps u now)
  then show ?case by (intro settles_progress) (simp_all add: closeSession_settles)
next
  case (close_failed g gp u)
  then show ?case by (intro settles_progress) simp_all
next
  case (close_committed g gp u now)
  then show ?case
    by (intro settles_progress) (auto simp: settles_def retainClosedGroup_def Let_def split: option.splits)
next
  case (expired u g gp)
  then show ?case by (intro settles_progress) (auto simp: settles_def group_expires_def split: option.splits if_splits)
qed

section \<open>The invariant of a serving server\<close>

definition to_close :: "serve_phase \<Rightarrow> pointer list" where
  "to_close phase = (case phase of Closing ps \<Rightarrow> ps | _ \<Rightarrow> [])"

definition serve_inv :: "('a, 'h) serving \<Rightarrow> bool" where
  "serve_inv y \<longleftrightarrow>
     run_inv (sg_run y) \<and> listed (sg_run y) \<and> ru_handshakes (sg_run y) \<le> sg_workers y \<and> (sg_phase y = Stopped \<longrightarrow> sg_workers y = 0)
     \<and> set (sg_found y) \<subseteq> ru_used (sg_run y)
     \<and> (\<forall>p \<in> set (sg_found y). p \<in> set (to_close (sg_phase y)) \<or> (\<forall>g. \<not> alive (ru_server (sg_run y)) p g))
     \<and> (sg_phase y = Accepting \<longrightarrow> sg_found y = [])"

lemma serve_inv_run:
  assumes "serve_inv y" "run_inv v" "progress_of (sg_run y) v" "ru_handshakes v \<le> n" "sg_phase y = Stopped \<longrightarrow> n = 0"
  shows "serve_inv (y\<lparr>sg_run := v, sg_workers := n\<rparr>)"
  using assms unfolding serve_inv_def progress_of_def by (simp add: subset_iff) blast

lemma serve_inv_server:
  assumes "serve_inv y" "run_step (sg_run y) v" "ru_handshakes v \<le> n" "sg_phase y = Stopped \<longrightarrow> n = 0"
  shows "serve_inv (y\<lparr>sg_run := v, sg_workers := n\<rparr>)"
  using assms serve_inv_run run_step_inv run_step_progress by (metis serve_inv_def)

lemma closes_inv:
  assumes "serve_inv y" "sg_phase y = Closing (p # ps)"
  shows "serve_inv ((with_server y (closeSession now p ServerUnavailable (ru_server (sg_run y))))\<lparr>sg_phase := Closing ps\<rparr>)"
proof -
  let ?u = "sg_run y" and ?s = "closeSession now p ServerUnavailable (ru_server (sg_run y))"
  have inv: "run_inv ?u" "listed ?u"
    using assms(1) by (simp_all add: serve_inv_def)
  have "run_inv (?u\<lparr>ru_server := ?s\<rparr>)"
    using inv(1) closeSession_inv [of ?u ServerUnavailable now p]
    by (intro run_invI [OF inv(1)]) (simp_all add: run_inv_def closeSession_tables closeSession_keeps)
  moreover have "progress_of ?u (?u\<lparr>ru_server := ?s\<rparr>)"
    using inv(2) by (intro settles_progress) (simp_all add: closeSession_settles)
  moreover have "\<not> alive ?s p g" for g
    using closeSession_alive [of ServerUnavailable now p "ru_server ?u" p g] by auto
  ultimately have now: "run_inv (?u\<lparr>ru_server := ?s\<rparr>)" "listed (?u\<lparr>ru_server := ?s\<rparr>)" "\<And>g. \<not> alive ?s p g"
      "\<And>q g. q \<in> ru_used ?u \<Longrightarrow> alive ?s q g \<Longrightarrow> alive (ru_server ?u) q g"
    by (simp_all add: progress_of_def)
  have "q \<in> set ps \<or> (\<forall>g. \<not> alive ?s q g)" if "q \<in> set (sg_found y)" for q
  proof -
    have "q \<in> ru_used ?u" "q \<in> set (p # ps) \<or> (\<forall>g. \<not> alive (ru_server ?u) q g)"
      using assms that by (auto simp: serve_inv_def to_close_def)
    with now(3,4) show ?thesis
      by (cases "q = p") auto
  qed
  with assms now(1,2) show ?thesis
    by (simp add: serve_inv_def with_server_def to_close_def)
qed

lemma timers_alive: "alive (stopTerminalTimer (stopGroupTimers s)) p g = alive s p g"
  by (simp add: alive_def stopTerminalTimer_def stopGroupTimers_def)

lemma timers_inv:
  assumes "run_inv u"
  shows "run_inv (u\<lparr>ru_server := stopTerminalTimer (stopGroupTimers (ru_server u))\<rparr>)"
proof -
  let ?s = "stopTerminalTimer (stopGroupTimers (ru_server u))"
  have lookup: "map_of (sv_groups ?s) g = map_option (\<lambda>st. st\<lparr>gs_timer := None\<rparr>) (map_of (sv_groups (ru_server u)) g)" for g
    by (simp add: stopTerminalTimer_def stopGroupTimers_def map_of_map [unfolded comp_def])
  have same: "sv_heap ?s = sv_heap (ru_server u)" "sv_sessions ?s = sv_sessions (ru_server u)" "sv_terminals ?s = sv_terminals (ru_server u)"
    "sv_limits ?s = sv_limits (ru_server u)" "sv_pending ?s = sv_pending (ru_server u)" "map fst (sv_groups ?s) = map fst (sv_groups (ru_server u))"
    by (simp_all add: stopTerminalTimer_def stopGroupTimers_def split_beta)
  have "tables_inv ?s"
    using assms same capacity_cong [OF same(4)] length_map [of fst "sv_groups ?s"] length_map [of fst "sv_groups (ru_server u)"]
    by (simp add: run_inv_def tables_inv_def del: length_map)
  moreover have "pointers_inv (u\<lparr>ru_server := ?s\<rparr>)"
    using assms by (auto simp: run_inv_def groups_inv_def pointers_inv_def lookup same)
  moreover have "listed_inv ?s"
    using assms by (fastforce simp: run_inv_def groups_inv_def listed_inv_def lookup timers_alive)
  moreover have "closer_inv ?s x" if "x \<in># ru_closers u" for x
  proof -
    have "closer_inv (ru_server u) x"
      using assms that unfolding run_inv_def groups_inv_def by blast
    then show ?thesis
      by (auto simp: closer_inv_def lookup timers_alive)
  qed
  ultimately show ?thesis
    using assms by (simp add: run_inv_def groups_inv_def pending_inv_def same del: split_paired_All)
qed

lemma serve_step_inv:
  assumes "serve_step y z" "serve_inv y"
  shows "serve_inv z"
  using assms
proof (induction rule: serve_step.induct)
  case (refuses y now address reject s)
  then have "run_step (sg_run y) ((sg_run y)\<lparr>ru_server := s\<rparr>)"
    by (auto intro: run_step.refused)
  from serve_inv_server [OF refuses(3) this, of "sg_workers y"] refuses show ?case
    by (simp add: with_server_def serve_inv_def)
next
  case (accepts y now address s)
  from serve_inv_server [OF accepts(3) run_step.accepted [OF accepts(2)], of "Suc (sg_workers y)"] accepts show ?case
    by (simp add: serve_inv_def)
next
  case (shaken y n)
  from serve_inv_server [OF shaken(2) run_step.handshaken [OF shaken(1)], of "sg_workers y"] shaken show ?case
    by (simp add: serve_inv_def)
next
  case (admits y sha256 hello prin secret random_id p op gp r s)
  from serve_inv_server [OF admits(6) run_step.admit [OF admits(2-5)], of "sg_workers y"] admits show ?case
    by (simp add: serve_inv_def)
next
  case (ends y)
  then show ?case by (auto simp: serve_inv_def)
next
  case (acts y v)
  from serve_inv_server [OF acts(4,1), of "sg_workers y"] acts show ?case
    by (simp add: serve_inv_def)
next
  case (stops y)
  then show ?case
    by (auto simp: serve_inv_def listed_def Sessions_def to_close_def)
next
  case (closes y p ps now)
  then show ?case by (simp add: closes_inv)
next
  case (leaves y)
  then show ?case by (simp add: serve_inv_def to_close_def)
next
  case (returns y)
  moreover have "listed ((sg_run y)\<lparr>ru_server := stopTerminalTimer (stopGroupTimers (ru_server (sg_run y)))\<rparr>)"
    using returns(3) by (simp add: serve_inv_def listed_def stopTerminalTimer_def stopGroupTimers_def)
  ultimately show ?case
    using timers_inv [of "sg_run y"] by (simp add: serve_inv_def with_server_def to_close_def timers_alive)
qed

lemma serving_inv:
  assumes "NewServer config random = Some (Inr s)" "serve_step\<^sup>*\<^sup>* (start_serving s) y"
  shows "serve_inv y"
  using assms(2)
proof (induction rule: rtranclp_induct)
  case base
  show ?case
    using start_inv [OF assms(1)] NewServer_fields(2) [OF assms(1)] by (simp add: serve_inv_def start_serving_def listed_def start_def to_close_def)
qed (auto intro: serve_step_inv)

section \<open>Properties\<close>

text \<open>
  C14. A server that serves: the handshakes in progress are counted exactly and stay within \<open>MaxPendingHandshakes\<close>, each is held by a running goroutine,
  and when the deferred function of \<open>Serve\<close> has closed the sessions it found, every one of them has ended and stays ended, whatever handshakes,
  resumptions, timers and calls of the application run meanwhile. When \<open>Serve\<close> has returned, no handshake is left.
\<close>

theorem serve_shutdown:
  assumes "NewServer config random = Some (Inr s)" "serve_step\<^sup>*\<^sup>* (start_serving s) y"
  shows "sv_pending (ru_server (sg_run y)) = int (ru_handshakes (sg_run y)) \<and> ru_handshakes (sg_run y) \<le> sg_workers y
    \<and> sv_pending (ru_server (sg_run y)) \<le> MaxPendingHandshakes (sv_limits (ru_server (sg_run y)))
    \<and> (sg_phase y \<in> {Leaving, Stopped} \<longrightarrow> (\<forall>p r. p \<in> set (sg_found y) \<and> sv_heap (ru_server (sg_run y)) p = Some r \<longrightarrow> sr_state r = Closed))
    \<and> (sg_phase y = Stopped \<longrightarrow> sv_pending (ru_server (sg_run y)) = 0 \<and> sg_workers y = 0)"
  using serving_inv [OF assms] by (auto simp: serve_inv_def run_inv_def pending_inv_def alive_def to_close_def)

text \<open>The server of the examples, and the session a goroutine admits.\<close>

lemma fresh_server:
  obtains s :: "(unit, unit) serverEndpoint" where "NewServer sample_config (Inr (replicate 16 1)) = Some (Inr s)" "sv_limits s = DefaultLimits"
    "sv_sessions s = []" "\<not> sv_draining s" "sc_Role (sv_config s) = GameRole" "sv_pending s = 0" "sv_limiter s = newHandshakeLimiter 20 40" "sv_heap s = Map.empty"
proof -
  have "normalizeLimits (sc_Limits sample_config) = Inr DefaultLimits"
    using DefaultLimits_normal by (simp add: sample_config_def)
  moreover have "\<not> invalid_config sample_config"
    by (simp add: invalid_config_def sample_config_def)
  moreover have "NewBudget (GlobalApplicationBytes DefaultLimits) \<noteq> None"
    by (simp add: NewBudget_def DefaultLimits_def)
  moreover have "HandshakesPerIPPerSecond DefaultLimits = 20" "HandshakeBurstPerIP DefaultLimits = 40"
    by (simp_all add: DefaultLimits_def)
  moreover have "sc_Mode sample_config = Handlers" "sc_Router sample_config \<noteq> None" "ow_Incarnation (sc_Owner sample_config) = replicate 16 0"
    "sc_Role sample_config = GameRole"
    by (simp_all add: sample_config_def)
  ultimately show thesis
    using that by (auto simp: NewServer_def Let_def)
qed

definition late_hello :: helloMessage where
  "late_hello = \<lparr>he_Op = ''hello'', he_Role = ''game'', he_App = \<lparr>ai_ID = ''app'', ai_Version = ''1''\<rparr>, he_AppID = [], he_AppVersion = [],
     he_Required = [], he_Limits = zeroLimitMessage, he_Credential = \<lparr>cm_Scheme = [], cm_Data = []\<rparr>, he_Group = [], he_Admission = [], he_Resume = None\<rparr>"

definition late_principal :: Principal where
  "late_principal = \<lparr>pr_Issuer = ''i'', pr_Subject = ''s'', pr_ExpiresAt = 100, pr_Attributes = None\<rparr>"

lemma late_admission:
  fixes s :: "(unit, unit) serverEndpoint"
  assumes "sv_limits s = DefaultLimits" "sv_sessions s = []" "\<not> sv_draining s" "sc_Role (sv_config s) = GameRole"
  obtains t r where "admit_session (\<lambda>b. b) late_hello late_principal (Inr (replicate 32 0)) (Inr [7]) 1 2 3 s = Some (None, t)"
    "sv_heap t 1 = Some r" "sr_state r = Active" "sr_operations r = Some 2" "sv_sessions t = [([7], 1)]"
proof -
  have "directionalBudgetLimits DefaultLimits = (196576, 65568)"
    by (simp add: directionalBudgetLimits_def DefaultLimits_def wrap64_def)
  then obtain r :: "unit sessionRecord" where r: "newSessionRecord [7] (sv_owner s) [] late_principal DefaultLimits False (Some 2) = Some r"
    "sr_state r = Active" "sr_operations r = Some 2"
    by (simp add: newSessionRecord_def NewBudget_def)
  have "MaxSessions DefaultLimits = 128"
    by (simp add: DefaultLimits_def)
  moreover have "he_Group late_hello = []"
    by (simp add: late_hello_def)
  moreover have "enter_group [] 3 s = (None, s)"
    by (simp add: enter_group_def)
  ultimately have "\<exists>t. admit_session (\<lambda>b. b) late_hello late_principal (Inr (replicate 32 0)) (Inr [7]) 1 2 3 s = Some (None, t)
      \<and> sv_heap t 1 = Some (r\<lparr>sr_resumeHash := replicate 32 0, sr_peerLimits := he_Limits late_hello\<rparr>) \<and> sv_sessions t = [([7], 1)]"
    using r assms by (simp add: admit_session_def join_group_def signalChanged_def Let_def)
  then obtain t where "admit_session (\<lambda>b. b) late_hello late_principal (Inr (replicate 32 0)) (Inr [7]) 1 2 3 s = Some (None, t)"
      "sv_heap t 1 = Some (r\<lparr>sr_resumeHash := replicate 32 0, sr_peerLimits := he_Limits late_hello\<rparr>)" "sv_sessions t = [([7], 1)]"
    by blast
  with r(2,3) that [of t "r\<lparr>sr_resumeHash := replicate 32 0, sr_peerLimits := he_Limits late_hello\<rparr>"] show thesis
    by simp
qed

text \<open>A connection whose handshake has been given back, before it is admitted.\<close>

lemma handshake_run:
  obtains s t :: "(unit, unit) serverEndpoint" where "NewServer sample_config (Inr (replicate 16 1)) = Some (Inr s)"
    "serve_step\<^sup>*\<^sup>* (start_serving s) \<lparr>sg_run = (start s)\<lparr>ru_server := t\<rparr>, sg_workers = 1, sg_phase = Accepting, sg_found = []\<rparr>"
    "sv_limits t = DefaultLimits" "sv_sessions t = []" "\<not> sv_draining t" "sc_Role (sv_config t) = GameRole"
proof -
  obtain s :: "(unit, unit) serverEndpoint" where s: "NewServer sample_config (Inr (replicate 16 1)) = Some (Inr s)" "sv_limits s = DefaultLimits"
      "sv_sessions s = []" "\<not> sv_draining s" "sc_Role (sv_config s) = GameRole" "sv_pending s = 0" "sv_limiter s = newHandshakeLimiter 20 40"
      "sv_heap s = Map.empty"
    by (rule fresh_server)
  obtain l where "allow (sv_limiter s) 0 NilAddr = (True, l)"
    by (simp add: s(7) allow_def newHandshakeLimiter_def spend_def evict_idle_def maxHandshakeSources_def Let_def)
  moreover have "MaxPendingHandshakes DefaultLimits = 64"
    by (simp add: DefaultLimits_def)
  ultimately have accept: "accept_connection 0 NilAddr s = (None, s\<lparr>sv_limiter := l, sv_pending := 1\<rparr>)"
    using s by (simp add: accept_connection_def)
  let ?a = "\<lparr>sg_run = (start s)\<lparr>ru_server := s\<lparr>sv_limiter := l, sv_pending := 1\<rparr>, ru_handshakes := 1\<rparr>, sg_workers = 1, sg_phase = Accepting, sg_found = []\<rparr>"
  let ?t = "s\<lparr>sv_limiter := l, sv_pending := 0\<rparr>"
  let ?b = "\<lparr>sg_run = (start s)\<lparr>ru_server := ?t\<rparr>, sg_workers = 1, sg_phase = Accepting, sg_found = []\<rparr>"
  have "serve_step (start_serving s) ?a"
    using serve_step.accepts [of "start_serving s" 0 NilAddr] accept by (simp add: start_serving_def start_def)
  moreover have "serve_step ?a ?b"
    using serve_step.shaken [of ?a 0] by (simp add: start_def finishPending_def)
  ultimately have "serve_step\<^sup>*\<^sup>* (start_serving s) ?b"
    by (rule converse_rtranclp_into_rtranclp [OF _ r_into_rtranclp])
  with s that [of s ?t] show thesis
    by simp
qed

lemma closeSession_dom: "dom (sv_heap (closeSession now p code s)) = dom (sv_heap s)"
proof -
  have on: "dom (sv_heap (on_session p f s)) = dom (sv_heap s)" for f and s :: "('a, 'b) serverEndpoint"
    by (auto simp: on_session_heap dom_def)
  have "dom (sv_heap (leave_table now c code sid p s)) = dom (sv_heap s)" for c code sid and s :: "('a, 'b) serverEndpoint"
    using leave_table_quiet [of s now c code sid p] by (simp add: quiet_def)
  then have "dom (sv_heap (removeSession now p s)) = dom (sv_heap s)" for s :: "('a, 'b) serverEndpoint"
    by (simp add: removeSession_def on split: option.split)
  then show ?thesis
    by (simp add: closeSession_def on)
qed

theorem serve_shutdown_witness:
  "\<exists>(s :: (unit, unit) serverEndpoint) y r. NewServer sample_config (Inr (replicate 16 1)) = Some (Inr s) \<and> serve_step\<^sup>*\<^sup>* (start_serving s) y
    \<and> sg_phase y = Leaving \<and> sg_found y = [1] \<and> sv_heap (ru_server (sg_run y)) 1 = Some r \<and> sr_state r = Closed"
proof -
  obtain s t0 :: "(unit, unit) serverEndpoint" where s: "NewServer sample_config (Inr (replicate 16 1)) = Some (Inr s)"
      "serve_step\<^sup>*\<^sup>* (start_serving s) \<lparr>sg_run = (start s)\<lparr>ru_server := t0\<rparr>, sg_workers = 1, sg_phase = Accepting, sg_found = []\<rparr>"
      "sv_limits t0 = DefaultLimits" "sv_sessions t0 = []" "\<not> sv_draining t0" "sc_Role (sv_config t0) = GameRole"
    by (rule handshake_run)
  let ?b = "\<lparr>sg_run = (start s)\<lparr>ru_server := t0\<rparr>, sg_workers = 1, sg_phase = Accepting, sg_found = []\<rparr>"
  obtain t r where t: "admit_session (\<lambda>b. b) late_hello late_principal (Inr (replicate 32 0)) (Inr [7]) 1 2 3 t0 = Some (None, t)"
      "sv_heap t 1 = Some r" "sr_state r = Active" "sr_operations r = Some 2" "sv_sessions t = [([7], 1)]"
    by (rule late_admission [OF s(3-6)])
  let ?c = "\<lparr>sg_run = (start s)\<lparr>ru_server := t, ru_used := {1, 3}\<rparr>, sg_workers = 1, sg_phase = Accepting, sg_found = []\<rparr>"
  let ?d = "?c\<lparr>sg_phase := Closing [1], sg_found := [1]\<rparr>"
  let ?e = "(with_server ?d (closeSession 0 1 ServerUnavailable t))\<lparr>sg_phase := Closing []\<rparr>"
  have "serve_step ?b ?c"
    using serve_step.admits [of ?b] t(1) by (simp add: start_def)
  moreover have "serve_step ?c ?d"
    using serve_step.stops [of ?c] t(5) by (simp add: Sessions_def)
  moreover have "serve_step ?d ?e"
    using serve_step.closes [of ?d 1 "[]" 0] by simp
  moreover have "serve_step ?e (?e\<lparr>sg_phase := Leaving\<rparr>)"
    by (rule serve_step.leaves) simp
  ultimately have run: "serve_step\<^sup>*\<^sup>* (start_serving s) (?e\<lparr>sg_phase := Leaving\<rparr>)"
    using s(2) by (meson rtranclp.rtrancl_into_rtrancl)
  obtain r' where r': "sv_heap (ru_server (sg_run (?e\<lparr>sg_phase := Leaving\<rparr>))) 1 = Some r'"
    using t(2) closeSession_dom [of 0 1 ServerUnavailable t] by (force simp: with_server_def)
  have "sg_found (?e\<lparr>sg_phase := Leaving\<rparr>) = [1]" "sg_phase (?e\<lparr>sg_phase := Leaving\<rparr>) = Leaving"
    by (simp_all add: with_server_def)
  with serve_shutdown [OF s(1) run] r' have "sr_state r' = Closed"
    by simp
  with s(1) run r' show ?thesis
    by (intro exI [of _ s] exI [of _ "?e\<lparr>sg_phase := Leaving\<rparr>"] exI [of _ r']) (simp add: with_server_def)
qed

text \<open>
  C37. A session can outlive \<open>Serve\<close>: a handshake that is admitted after the deferred function has read the table of sessions is not closed. Its goroutine
  finds the connection gone and suspends the session, and \<open>Serve\<close> returns while the session is still in the table.
\<close>

theorem late_session_outlives_serve:
  "\<exists>(s :: (unit, unit) serverEndpoint) y p r. NewServer sample_config (Inr (replicate 16 1)) = Some (Inr s) \<and> serve_step\<^sup>*\<^sup>* (start_serving s) y
    \<and> sg_phase y = Stopped \<and> p \<in> set (Sessions (ru_server (sg_run y))) \<and> sv_heap (ru_server (sg_run y)) p = Some r \<and> sr_state r = Suspended"
proof -
  obtain s t0 :: "(unit, unit) serverEndpoint" where s: "NewServer sample_config (Inr (replicate 16 1)) = Some (Inr s)"
      "serve_step\<^sup>*\<^sup>* (start_serving s) \<lparr>sg_run = (start s)\<lparr>ru_server := t0\<rparr>, sg_workers = 1, sg_phase = Accepting, sg_found = []\<rparr>"
      "sv_limits t0 = DefaultLimits" "sv_sessions t0 = []" "\<not> sv_draining t0" "sc_Role (sv_config t0) = GameRole"
    by (rule handshake_run)
  let ?b = "\<lparr>sg_run = (start s)\<lparr>ru_server := t0\<rparr>, sg_workers = 1, sg_phase = Accepting, sg_found = []\<rparr>"
  have 3: "serve_step ?b (?b\<lparr>sg_phase := Closing []\<rparr>)"
    using serve_step.stops [of ?b] s(4) by (simp add: Sessions_def)
  obtain t r where t: "admit_session (\<lambda>b. b) late_hello late_principal (Inr (replicate 32 0)) (Inr [7]) 1 2 3 t0 = Some (None, t)"
      "sv_heap t 1 = Some r" "sr_state r = Active" "sr_operations r = Some 2" "sv_sessions t = [([7], 1)]"
    by (rule late_admission [OF s(3-6)])
  let ?u = "(start s)\<lparr>ru_server := t, ru_used := {1, 3}\<rparr>"
  let ?c = "\<lparr>sg_run = ?u, sg_workers = 1, sg_phase = Closing [], sg_found = []\<rparr>"
  have 4: "serve_step (?b\<lparr>sg_phase := Closing []\<rparr>) ?c"
    using serve_step.admits [of "?b\<lparr>sg_phase := Closing []\<rparr>"] t(1) by (simp add: start_def)
  have 5: "serve_step ?c (?c\<lparr>sg_phase := Leaving\<rparr>)"
    by (rule serve_step.leaves) simp
  let ?r = "armGrace 0 (sv_limits t) (r\<lparr>sr_state := Suspended\<rparr>)"
  have gone: "finishConnection 0 1 \<lparr>co_ptr = 2, co_epoch = 1, co_stopped = False\<rparr> t = t\<lparr>sv_heap := (sv_heap t)(1 \<mapsto> ?r)\<rparr>"
    using t by (simp add: finishConnection_def suspendIfCurrent_def)
  let ?v = "?u\<lparr>ru_server := t\<lparr>sv_heap := (sv_heap t)(1 \<mapsto> ?r)\<rparr>\<rparr>"
  have 6: "serve_step (?c\<lparr>sg_phase := Leaving\<rparr>) (?c\<lparr>sg_phase := Leaving, sg_run := ?v\<rparr>)"
    using serve_step.acts [of "?c\<lparr>sg_phase := Leaving\<rparr>" ?v] run_step.finished [of ?u 0 1 "\<lparr>co_ptr = 2, co_epoch = 1, co_stopped = False\<rparr>"] gone t(2)
    by (simp add: insert_absorb domI)
  have 7: "serve_step (?c\<lparr>sg_phase := Leaving, sg_run := ?v\<rparr>) (?c\<lparr>sg_phase := Leaving, sg_run := ?v, sg_workers := 0\<rparr>)"
    using serve_step.ends [of "?c\<lparr>sg_phase := Leaving, sg_run := ?v\<rparr>"] by (simp add: start_def)
  let ?z = "(with_server (?c\<lparr>sg_phase := Leaving, sg_run := ?v, sg_workers := 0\<rparr>) (stopTerminalTimer (stopGroupTimers (ru_server ?v))))\<lparr>sg_phase := Stopped\<rparr>"
  have 8: "serve_step (?c\<lparr>sg_phase := Leaving, sg_run := ?v, sg_workers := 0\<rparr>) ?z"
    using serve_step.returns [of "?c\<lparr>sg_phase := Leaving, sg_run := ?v, sg_workers := 0\<rparr>"] by simp
  have "serve_step\<^sup>*\<^sup>* (start_serving s) ?z"
    using s(2) 3 4 5 6 7 8 by (meson rtranclp.rtrancl_into_rtrancl)
  moreover have "sg_phase ?z = Stopped" "1 \<in> set (Sessions (ru_server (sg_run ?z)))" "sv_heap (ru_server (sg_run ?z)) 1 = Some ?r" "sr_state ?r = Suspended"
    using t(5) by (simp_all add: with_server_def stopTerminalTimer_def stopGroupTimers_def Sessions_def armGrace_def Let_def split: prod.split)
  ultimately show ?thesis
    using s(1) by blast
qed

end
