(* ===== verification/Bench_Eval.thy ===== *)
theory Bench_Eval
  imports Encodings Complex_Main "HOL-Library.List_Lexorder" "HOL-Library.Product_Lexorder" "HOL-Library.Multiset"
begin

text \<open>
  \<open>cmd/sgspbencheval\<close>: the assessment of a benchmark campaign. The plan (\<open>expected-trials.tsv\<close>) and what reading and decoding a raw result gives are
  arguments; of the report the verdict and the lists behind it are modelled, not the layout. Counters of type \<open>uint64\<close> wrap, and a \<open>float64\<close> is an IEEE value:
  constants, sums and quotients are rounded to 53 bits.
\<close>

section \<open>Floating point\<close>

text \<open>A finite value is the rational number it stands for; the two zeros, which every operation below treats alike, are one.\<close>

datatype float64 = NaN | Infty bool | Flt rat

fun bit_length :: "nat \<Rightarrow> nat" where
  "bit_length n = (if n = 0 then 0 else Suc (bit_length (n div 2)))"

declare bit_length.simps [simp del]

definition pow2 :: "int \<Rightarrow> rat" where
  "pow2 k = (if k \<ge> 0 then 2 ^ nat k else 1 / 2 ^ nat (- k))"

text \<open>The \<open>e\<close> with \<open>2 ^ e \<le> x < 2 ^ (e + 1)\<close>, for a positive \<open>x\<close>.\<close>

definition binade :: "rat \<Rightarrow> int" where
  "binade x =
     (let (p, q) = quotient_of x; k = int (bit_length (nat p)) - int (bit_length (nat q)) in
      if pow2 k \<le> x then k else k - 1)"

definition round_even :: "rat \<Rightarrow> int" where
  "round_even x =
     (let n = \<lfloor>x\<rfloor>; d = x - of_int n in
      if d < 1 / 2 \<or> d = 1 / 2 \<and> even n then n else n + 1)"

definition round_positive :: "rat \<Rightarrow> rat" where
  "round_positive x = (let e = max (binade x - 52) (- 1074) in of_int (round_even (x / pow2 e)) * pow2 e)"

definition float_of :: "rat \<Rightarrow> float64" where
  "float_of x =
     (if x = 0 then Flt 0
      else if round_positive \<bar>x\<bar> \<ge> pow2 1024 then Infty (x > 0)
      else Flt (if x > 0 then round_positive x else - round_positive (- x)))"

definition feq :: "float64 \<Rightarrow> float64 \<Rightarrow> bool" where
  "feq x y \<longleftrightarrow> x \<noteq> NaN \<and> x = y"

fun flt :: "float64 \<Rightarrow> float64 \<Rightarrow> bool" where
  "flt (Flt x) (Flt y) = (x < y)"
| "flt (Infty b) (Flt _) = (\<not> b)"
| "flt (Flt _) (Infty b) = b"
| "flt (Infty a) (Infty b) = (\<not> a \<and> b)"
| "flt _ _ = False"

fun fadd :: "float64 \<Rightarrow> float64 \<Rightarrow> float64" where
  "fadd (Flt x) (Flt y) = float_of (x + y)"
| "fadd (Infty b) (Flt _) = Infty b"
| "fadd (Flt _) (Infty b) = Infty b"
| "fadd (Infty a) (Infty b) = (if a = b then Infty a else NaN)"
| "fadd _ _ = NaN"

text \<open>A quotient by a divisor that is finite and not zero, as every divisor here is.\<close>

fun fdiv :: "float64 \<Rightarrow> float64 \<Rightarrow> float64" where
  "fdiv (Flt x) (Flt y) = float_of (x / y)"
| "fdiv (Infty b) (Flt y) = Infty (b = (y > 0))"
| "fdiv _ _ = NaN"

section \<open>Data\<close>

definition localOverheadGate :: int where
  "localOverheadGate = 1000000"

record campaign =
  ca_ReferenceHost :: string

record expectedTrial =
  ex_Implementation :: string
  ex_Clients :: int
  ex_Hz :: int
  ex_RTT :: int
  ex_Loss :: float64
  ex_Jitter :: int
  ex_Reorder :: float64
  ex_Seed :: int
  ex_Profile :: string
  ex_Duration :: int
  ex_Path :: string

record trial_config =
  cf_Implementation :: string
  cf_Clients :: int
  cf_Hz :: int
  cf_RTT :: int
  cf_Jitter :: int
  cf_Loss :: float64
  cf_Reorder :: float64
  cf_Seed :: int
  cf_Duration :: int

record durationSummary =
  ds_Samples :: u64
  ds_P99UpperBound :: int
  ds_P99Overflow :: bool

record correlatedOverhead =
  ch_Duration :: durationSummary

record generatorMeasurement =
  ge_Unable :: bool

record validityMeasurement =
  va_InputSampleBufferOverflow :: bool
  va_UpdateSampleBufferOverflow :: bool

record operationCounts =
  oc_Offered :: u64
  oc_Delivered :: u64

record timingMeasurement =
  ti_InputSendPlusReceive :: correlatedOverhead
  ti_UpdateSendPlusReceive :: correlatedOverhead

record networkMeasurement =
  nm_LocalDropMetricsAvailable :: bool
  nm_LocalDatagramsDropped :: u64
  nm_CoalescedDatagramsDropped :: u64

record relayMeasurement =
  re_Overloaded :: bool

record runtimeMeasurement =
  ru_CPUSeconds :: float64
  ru_HeapAlloc :: u64
  ru_AllocatedBytesPerOperation :: float64

record measurement =
  me_Inputs :: operationCounts
  me_Updates :: operationCounts
  me_Generator :: generatorMeasurement
  me_Validity :: validityMeasurement
  me_Timing :: timingMeasurement
  me_Network :: networkMeasurement
  me_Relay :: relayMeasurement
  me_Runtime :: runtimeMeasurement

record trial =
  tr_Status :: string
  tr_Error :: string
  tr_Config :: trial_config
  tr_Measurement :: measurement

record evaluatedTrial =
  et_Expected :: expectedTrial
  et_Trial :: trial
  et_Problem :: string

record pointKey =
  pk_Profile :: string
  pk_Clients :: int
  pk_Hz :: int
  pk_RTT :: int
  pk_Loss :: float64
  pk_Jitter :: int
  pk_Reorder :: float64

record pointSummary =
  ps_Key :: pointKey
  ps_Implementation :: string
  ps_Planned :: int
  ps_Completed :: int
  ps_Valid :: int
  ps_InputP99 :: int
  ps_UpdateP99 :: int
  ps_InputOverflow :: bool
  ps_UpdateOverflow :: bool
  ps_UpdatesOffered :: u64
  ps_UpdatesDelivered :: u64
  ps_LocalDrops :: u64
  ps_CoalescedDrops :: u64
  ps_LocalMetricsMissing :: int
  ps_RelayOverloads :: int
  ps_CPUSeconds :: float64
  ps_HeapAlloc :: u64
  ps_AllocatedBytesPerOperation :: float64

record evaluation =
  ev_Campaign :: campaign
  ev_ReferenceHostValidated :: bool
  ev_Trials :: "evaluatedTrial list"
  ev_Points :: "pointSummary list"
  ev_Issues :: "string list"
  ev_HealthyCapacity :: int
  ev_Healthy32At128 :: bool
  ev_ImpairmentComplete :: bool
  ev_ComparisonComplete :: bool
  ev_HealthyGatePassed :: bool

section \<open>The host\<close>

definition strings_Contains :: "string \<Rightarrow> string \<Rightarrow> bool" where
  "strings_Contains s part = list_ex (\<lambda>i. take (length part) (drop i s) = part) [0..<Suc (length s)]"

text \<open>The environment manifests of the campaign; \<open>None\<close> is one that can not be read.\<close>

definition referenceHostValidated :: "string option list \<Rightarrow> bool" where
  "referenceHostValidated manifests =
     list_ex (\<lambda>data. case data of None \<Rightarrow> False | Some d \<Rightarrow> strings_Contains d ''reference_host_validation=passed'') manifests"

section \<open>A raw result against the plan\<close>

definition validTrial :: "trial \<Rightarrow> bool" where
  "validTrial t =
     (let m = tr_Measurement t in
      if ge_Unable (me_Generator m) \<or> va_InputSampleBufferOverflow (me_Validity m) \<or> va_UpdateSampleBufferOverflow (me_Validity m) then False
      else if oc_Offered (me_Inputs m) > 0 \<and> ds_Samples (ch_Duration (ti_InputSendPlusReceive (me_Timing m))) = 0 then False
      else if oc_Offered (me_Updates m) > 0 \<and> ds_Samples (ch_Duration (ti_UpdateSendPlusReceive (me_Timing m))) = 0 then False
      else True)"

definition config_matches :: "trial_config \<Rightarrow> expectedTrial \<Rightarrow> bool" where
  "config_matches c e \<longleftrightarrow>
     \<not> (cf_Implementation c \<noteq> ex_Implementation e \<or> cf_Clients c \<noteq> ex_Clients e \<or> cf_Hz c \<noteq> ex_Hz e \<or> cf_RTT c \<noteq> ex_RTT e
        \<or> \<not> feq (cf_Loss c) (ex_Loss e) \<or> cf_Jitter c \<noteq> ex_Jitter e \<or> \<not> feq (cf_Reorder c) (ex_Reorder e) \<or> cf_Seed c \<noteq> ex_Seed e
        \<or> cf_Duration c \<noteq> ex_Duration e)"

text \<open>\<open>raw\<close>: the file of a path cannot be read, does not decode, or gives a trial.\<close>

datatype raw_result = Unreadable | Undecodable | Decoded trial

definition zero_trial :: trial where
  "zero_trial =
     (let d = \<lparr>ch_Duration = \<lparr>ds_Samples = 0, ds_P99UpperBound = 0, ds_P99Overflow = False\<rparr>\<rparr> in
      \<lparr>tr_Status = [], tr_Error = [],
       tr_Config = \<lparr>cf_Implementation = [], cf_Clients = 0, cf_Hz = 0, cf_RTT = 0, cf_Jitter = 0, cf_Loss = Flt 0, cf_Reorder = Flt 0, cf_Seed = 0,
         cf_Duration = 0\<rparr>,
       tr_Measurement = \<lparr>me_Inputs = \<lparr>oc_Offered = 0, oc_Delivered = 0\<rparr>, me_Updates = \<lparr>oc_Offered = 0, oc_Delivered = 0\<rparr>, me_Generator = \<lparr>ge_Unable = False\<rparr>,
         me_Validity = \<lparr>va_InputSampleBufferOverflow = False, va_UpdateSampleBufferOverflow = False\<rparr>,
         me_Timing = \<lparr>ti_InputSendPlusReceive = d, ti_UpdateSendPlusReceive = d\<rparr>,
         me_Network = \<lparr>nm_LocalDropMetricsAvailable = False, nm_LocalDatagramsDropped = 0, nm_CoalescedDatagramsDropped = 0\<rparr>,
         me_Relay = \<lparr>re_Overloaded = False\<rparr>,
         me_Runtime = \<lparr>ru_CPUSeconds = Flt 0, ru_HeapAlloc = 0, ru_AllocatedBytesPerOperation = Flt 0\<rparr>\<rparr>\<rparr>)"

definition loadAndMatch :: "(string \<Rightarrow> raw_result) \<Rightarrow> expectedTrial \<Rightarrow> trial \<times> string" where
  "loadAndMatch raw e =
     (case raw (ex_Path e) of
        Unreadable \<Rightarrow> (zero_trial, ''missing or unreadable raw result'')
      | Undecodable \<Rightarrow> (zero_trial, ''raw result is not valid JSON'')
      | Decoded t \<Rightarrow>
          if \<not> config_matches (tr_Config t) e then (t, ''raw result configuration does not match expected trial plan'')
          else if tr_Status t \<noteq> ''completed'' then (t, ''raw result is not completed'')
          else if \<not> validTrial t then (t, ''completed raw result has an invalid measurement'')
          else (t, []))"

section \<open>Points\<close>

definition key_of_trial :: "expectedTrial \<Rightarrow> pointKey" where
  "key_of_trial e = \<lparr>pk_Profile = ex_Profile e, pk_Clients = ex_Clients e, pk_Hz = ex_Hz e, pk_RTT = ex_RTT e, pk_Loss = ex_Loss e,
     pk_Jitter = ex_Jitter e, pk_Reorder = ex_Reorder e\<rparr>"

text \<open>The text a point is filed under; \<open>g\<close> formats a \<open>float64\<close> the way \<open>%g\<close> does.\<close>

definition mapKey :: "(float64 \<Rightarrow> string) \<Rightarrow> expectedTrial \<Rightarrow> string" where
  "mapKey g e =
     (let k = key_of_trial e in
      pk_Profile k @ ''/'' @ ex_Implementation e @ ''/'' @ FormatInt (pk_Clients k) @ ''/'' @ FormatInt (pk_Hz k) @ ''/'' @ FormatInt (pk_RTT k) @ ''/''
        @ g (pk_Loss k) @ ''/'' @ FormatInt (pk_Jitter k) @ ''/'' @ g (pk_Reorder k))"

definition new_point :: "expectedTrial \<Rightarrow> pointSummary" where
  "new_point e = \<lparr>ps_Key = key_of_trial e, ps_Implementation = ex_Implementation e, ps_Planned = 0, ps_Completed = 0, ps_Valid = 0, ps_InputP99 = 0,
     ps_UpdateP99 = 0, ps_InputOverflow = False, ps_UpdateOverflow = False, ps_UpdatesOffered = 0, ps_UpdatesDelivered = 0, ps_LocalDrops = 0,
     ps_CoalescedDrops = 0, ps_LocalMetricsMissing = 0, ps_RelayOverloads = 0, ps_CPUSeconds = Flt 0, ps_HeapAlloc = 0,
     ps_AllocatedBytesPerOperation = Flt 0\<rparr>"

definition add_trial :: "evaluatedTrial \<Rightarrow> pointSummary \<Rightarrow> pointSummary" where
  "add_trial v p =
     (let p = p\<lparr>ps_Planned := ps_Planned p + 1\<rparr>;
          p = (if tr_Status (et_Trial v) = ''completed'' then p\<lparr>ps_Completed := ps_Completed p + 1\<rparr> else p) in
      if et_Problem v \<noteq> [] then p
      else
        (let m = tr_Measurement (et_Trial v);
             input = ch_Duration (ti_InputSendPlusReceive (me_Timing m));
             update = ch_Duration (ti_UpdateSendPlusReceive (me_Timing m)) in
         p\<lparr>ps_Valid := ps_Valid p + 1,
           ps_InputP99 := (if ds_P99UpperBound input > ps_InputP99 p then ds_P99UpperBound input else ps_InputP99 p),
           ps_UpdateP99 := (if ds_P99UpperBound update > ps_UpdateP99 p then ds_P99UpperBound update else ps_UpdateP99 p),
           ps_InputOverflow := ps_InputOverflow p \<or> ds_P99Overflow input,
           ps_UpdateOverflow := ps_UpdateOverflow p \<or> ds_P99Overflow update,
           ps_UpdatesOffered := ps_UpdatesOffered p + oc_Offered (me_Updates m),
           ps_UpdatesDelivered := ps_UpdatesDelivered p + oc_Delivered (me_Updates m),
           ps_LocalDrops := ps_LocalDrops p + nm_LocalDatagramsDropped (me_Network m),
           ps_CoalescedDrops := ps_CoalescedDrops p + nm_CoalescedDatagramsDropped (me_Network m),
           ps_LocalMetricsMissing :=
             ps_LocalMetricsMissing p + (if \<not> nm_LocalDropMetricsAvailable (me_Network m) \<and> ps_Implementation p = ''sgsp'' then 1 else 0),
           ps_RelayOverloads := ps_RelayOverloads p + (if re_Overloaded (me_Relay m) then 1 else 0),
           ps_CPUSeconds := fadd (ps_CPUSeconds p) (ru_CPUSeconds (me_Runtime m)),
           ps_HeapAlloc := ps_HeapAlloc p + ru_HeapAlloc (me_Runtime m),
           ps_AllocatedBytesPerOperation := fadd (ps_AllocatedBytesPerOperation p) (ru_AllocatedBytesPerOperation (me_Runtime m))\<rparr>))"

definition record_trial :: "(float64 \<Rightarrow> string) \<Rightarrow> evaluatedTrial \<Rightarrow> (string \<times> pointSummary) list \<Rightarrow> (string \<times> pointSummary) list" where
  "record_trial g v points =
     (let k = mapKey g (et_Expected v);
          point = (case map_of points k of None \<Rightarrow> new_point (et_Expected v) | Some point \<Rightarrow> point) in
      AList.update k (add_trial v point) points)"

text \<open>The comparison of \<open>sort.Slice\<close>. Points that differ in their reorder rate only compare as equal; the model keeps them as they come.\<close>

definition point_less :: "pointSummary \<Rightarrow> pointSummary \<Rightarrow> bool" where
  "point_less a b =
     (let l = ps_Key a; r = ps_Key b in
      if pk_Profile l \<noteq> pk_Profile r then string_bytes (pk_Profile l) < string_bytes (pk_Profile r)
      else if pk_Clients l \<noteq> pk_Clients r then pk_Clients l < pk_Clients r
      else if pk_Hz l \<noteq> pk_Hz r then pk_Hz l < pk_Hz r
      else if pk_RTT l \<noteq> pk_RTT r then pk_RTT l < pk_RTT r
      else if \<not> feq (pk_Loss l) (pk_Loss r) then flt (pk_Loss l) (pk_Loss r)
      else if pk_Jitter l \<noteq> pk_Jitter r then pk_Jitter l < pk_Jitter r
      else string_bytes (ps_Implementation a) < string_bytes (ps_Implementation b))"

fun insert_slice :: "('a \<Rightarrow> 'a \<Rightarrow> bool) \<Rightarrow> 'a \<Rightarrow> 'a list \<Rightarrow> 'a list" where
  "insert_slice lt x [] = [x]"
| "insert_slice lt x (y # ys) = (if lt y x then y # insert_slice lt x ys else x # y # ys)"

definition sort_Slice :: "('a \<Rightarrow> 'a \<Rightarrow> bool) \<Rightarrow> 'a list \<Rightarrow> 'a list" where
  "sort_Slice lt xs = foldr (insert_slice lt) xs []"

definition summarizePoints :: "(float64 \<Rightarrow> string) \<Rightarrow> evaluatedTrial list \<Rightarrow> pointSummary list" where
  "summarizePoints g trials = sort_Slice point_less (map snd (fold (record_trial g) trials []))"

section \<open>The gates\<close>

definition pointHasFiveValidTrials :: "evaluatedTrial list \<Rightarrow> string \<Rightarrow> string \<Rightarrow> int \<Rightarrow> int \<Rightarrow> int \<Rightarrow> float64 \<Rightarrow> int \<Rightarrow> float64 \<Rightarrow> bool" where
  "pointHasFiveValidTrials trials profile implementation clients hz rtt loss jitter reorder =
     (length (filter (\<lambda>v. let e = et_Expected v in
        ex_Profile e = profile \<and> ex_Implementation e = implementation \<and> ex_Clients e = clients \<and> ex_Hz e = hz \<and> ex_RTT e = rtt
        \<and> feq (ex_Loss e) loss \<and> ex_Jitter e = jitter \<and> feq (ex_Reorder e) reorder \<and> et_Problem v = []) trials) = 5)"

definition coalescedFraction :: "trial \<Rightarrow> float64" where
  "coalescedFraction t =
     (let offered = oc_Offered (me_Updates (tr_Measurement t)) in
      if offered = 0 then Flt 0
      else fdiv (float_of (of_nat (unat (nm_CoalescedDatagramsDropped (me_Network (tr_Measurement t)))))) (float_of (of_nat (unat offered))))"

definition within_gates :: "evaluatedTrial \<Rightarrow> bool" where
  "within_gates v =
     (let m = tr_Measurement (et_Trial v);
          input = ch_Duration (ti_InputSendPlusReceive (me_Timing m));
          update = ch_Duration (ti_UpdateSendPlusReceive (me_Timing m)) in
      \<not> (et_Problem v \<noteq> [] \<or> ds_Samples input = 0 \<or> ds_Samples update = 0 \<or> ds_P99Overflow input \<or> ds_P99Overflow update
         \<or> ds_P99UpperBound input \<ge> localOverheadGate \<or> ds_P99UpperBound update \<ge> localOverheadGate
         \<or> \<not> nm_LocalDropMetricsAvailable (me_Network m) \<or> nm_LocalDatagramsDropped (me_Network m) \<noteq> 0 \<or> re_Overloaded (me_Relay m)
         \<or> feq (coalescedFraction (et_Trial v)) (float_of (1 / 1000)) \<or> flt (float_of (1 / 1000)) (coalescedFraction (et_Trial v))))"

fun capacity_loop :: "int \<Rightarrow> evaluatedTrial list \<Rightarrow> nat \<Rightarrow> bool" where
  "capacity_loop clientCount [] seen = (seen = 10)"
| "capacity_loop clientCount (v # trials) seen =
     (let e = et_Expected v in
      if ex_Profile e \<noteq> ''healthy'' \<or> ex_Implementation e \<noteq> ''sgsp'' \<or> ex_Clients e \<noteq> clientCount \<or> ex_Hz e \<noteq> 60 \<and> ex_Hz e \<noteq> 128
      then capacity_loop clientCount trials seen
      else if \<not> within_gates v then False
      else capacity_loop clientCount trials (seen + 1))"

definition healthyCapacityPasses :: "evaluatedTrial list \<Rightarrow> int \<Rightarrow> bool" where
  "healthyCapacityPasses trials clientCount = capacity_loop clientCount trials 0"

definition highestHealthyCapacity :: "evaluatedTrial list \<Rightarrow> int" where
  "highestHealthyCapacity trials =
     (let clients = remdups (map (\<lambda>v. ex_Clients (et_Expected v))
            (filter (\<lambda>v. ex_Profile (et_Expected v) = ''healthy'' \<and> ex_Implementation (et_Expected v) = ''sgsp'') trials));
          candidates = sort (filter (healthyCapacityPasses trials) clients) in
      if candidates = [] then 0 else last candidates)"

definition hasRequiredImpairment :: "evaluatedTrial list \<Rightarrow> int \<Rightarrow> bool" where
  "hasRequiredImpairment trials capacity =
     (if capacity = 0 \<or> capacity mod 2 \<noteq> 0 then False
      else
        (let clients = capacity div 2; ms = 1000000 in
         list_all (\<lambda>hz.
             list_all (\<lambda>rtt. list_all (\<lambda>loss. list_all (\<lambda>implementation.
                 pointHasFiveValidTrials trials ''impairment'' implementation clients hz rtt loss 0 (Flt 0))
               [''sgsp'', ''quic'']) [Flt 0, float_of (1 / 100), float_of (5 / 100)]) [20 * ms, 50 * ms, 100 * ms]
             \<and> list_all (\<lambda>loss. list_all (\<lambda>implementation.
                 pointHasFiveValidTrials trials ''impairment-jitter'' implementation clients hz (50 * ms) loss (10 * ms) (float_of (2 / 100)))
               [''sgsp'', ''quic'']) [Flt 0, float_of (1 / 100), float_of (5 / 100)])
           [60, 128]))"

text \<open>A key of a map that holds a value that is no number equals no key: such an entry is never found again.\<close>

definition same_key :: "pointKey \<Rightarrow> pointKey \<Rightarrow> bool" where
  "same_key a b \<longleftrightarrow> pk_Profile a = pk_Profile b \<and> pk_Clients a = pk_Clients b \<and> pk_Hz a = pk_Hz b \<and> pk_RTT a = pk_RTT b
     \<and> feq (pk_Loss a) (pk_Loss b) \<and> pk_Jitter a = pk_Jitter b \<and> feq (pk_Reorder a) (pk_Reorder b)"

record comparedPoint =
  cp_sgsp :: nat
  cp_quic :: nat

fun bump :: "pointKey \<Rightarrow> (comparedPoint \<Rightarrow> comparedPoint) \<Rightarrow> (pointKey \<times> comparedPoint) list \<Rightarrow> (pointKey \<times> comparedPoint) list" where
  "bump k f [] = [(k, f \<lparr>cp_sgsp = 0, cp_quic = 0\<rparr>)]"
| "bump k f ((k', c) # points) = (if same_key k' k then (k', f c) # points else (k', c) # bump k f points)"

definition count_trial :: "evaluatedTrial \<Rightarrow> comparedPoint \<Rightarrow> comparedPoint" where
  "count_trial v c =
     (let c = (if ex_Implementation (et_Expected v) = ''sgsp'' \<and> et_Problem v = [] then c\<lparr>cp_sgsp := cp_sgsp c + 1\<rparr> else c) in
      if ex_Implementation (et_Expected v) = ''quic'' \<and> et_Problem v = [] then c\<lparr>cp_quic := cp_quic c + 1\<rparr> else c)"

definition compared_points :: "evaluatedTrial list \<Rightarrow> (pointKey \<times> comparedPoint) list" where
  "compared_points trials = fold (\<lambda>v. bump (key_of_trial (et_Expected v)) (count_trial v)) trials []"

definition hasCompleteComparison :: "evaluatedTrial list \<Rightarrow> bool" where
  "hasCompleteComparison trials =
     (list_all (\<lambda>(_, c). \<not> (cp_sgsp c \<noteq> 5 \<or> cp_quic c \<noteq> 5)) (compared_points trials) \<and> length (compared_points trials) > 0)"

section \<open>The assessment\<close>

text \<open>\<open>filepath.Base\<close> on a system with slashes.\<close>

definition filepath_Base :: "string \<Rightarrow> string" where
  "filepath_Base path =
     (if path = [] then ''.''
      else
        (let trimmed = rev (dropWhile ((=) CHR ''/'') (rev path)); base = rev (takeWhile ((\<noteq>) CHR ''/'') (rev trimmed)) in
         if base = [] then ''/'' else base))"

definition issue :: "bool \<Rightarrow> string \<Rightarrow> evaluation \<Rightarrow> evaluation" where
  "issue b message ev = (if b then ev\<lparr>ev_Issues := ev_Issues ev @ [message]\<rparr> else ev)"

definition assess :: "evaluation \<Rightarrow> evaluation" where
  "assess ev =
     (let trials = ev_Trials ev;
          ev = issue (ca_ReferenceHost (ev_Campaign ev) \<noteq> ''1'' \<or> \<not> ev_ReferenceHostValidated ev)
                 ''reference-host validation is absent; this campaign is diagnostic only'' ev;
          ev = fold (\<lambda>v. issue (et_Problem v \<noteq> []) (filepath_Base (ex_Path (et_Expected v)) @ '': '' @ et_Problem v)) trials ev;
          ev = ev\<lparr>ev_Healthy32At128 := pointHasFiveValidTrials trials ''healthy'' ''sgsp'' 32 128 20000000 (Flt 0) 0 (Flt 0)\<rparr>;
          ev = issue (\<not> ev_Healthy32At128 ev) ''the required 32-client, 128 Hz SGSP healthy point lacks five valid trials'' ev;
          ev = ev\<lparr>ev_HealthyCapacity := highestHealthyCapacity trials\<rparr>;
          ev = issue (ev_HealthyCapacity ev = 0)
                 ''no healthy SGSP client count has ten valid trials across 60 and 128 Hz that meet local gates'' ev;
          ev = ev\<lparr>ev_HealthyGatePassed := ev_HealthyCapacity ev > 0\<rparr>;
          ev = issue (\<not> ev_HealthyGatePassed ev) ''a healthy local-overhead/drop/relay gate failed or lacked measurements'' ev;
          ev = ev\<lparr>ev_ImpairmentComplete := hasRequiredImpairment trials (ev_HealthyCapacity ev)\<rparr>;
          ev = issue (\<not> ev_ImpairmentComplete ev) ''the complete half-capacity impairment matrix is absent or has invalid trials'' ev;
          ev = ev\<lparr>ev_ComparisonComplete := hasCompleteComparison trials\<rparr> in
      issue (\<not> ev_ComparisonComplete ev) ''one or more planned points lack an SGSP/bare-QUIC comparison'' ev)"

definition evaluated :: "(string \<Rightarrow> raw_result) \<Rightarrow> expectedTrial \<Rightarrow> evaluatedTrial" where
  "evaluated raw e = (let (t, problem) = loadAndMatch raw e in \<lparr>et_Expected = e, et_Trial = t, et_Problem = problem\<rparr>)"

definition evaluateCampaign :: "(float64 \<Rightarrow> string) \<Rightarrow> (string \<Rightarrow> raw_result) \<Rightarrow> campaign \<Rightarrow> bool \<Rightarrow> expectedTrial list \<Rightarrow> evaluation" where
  "evaluateCampaign g raw manifest validated expected =
     (let trials = map (evaluated raw) expected in
      assess \<lparr>ev_Campaign = manifest, ev_ReferenceHostValidated = validated, ev_Trials = trials, ev_Points = summarizePoints g trials, ev_Issues = [],
        ev_HealthyCapacity = 0, ev_Healthy32At128 = False, ev_ImpairmentComplete = False, ev_ComparisonComplete = False, ev_HealthyGatePassed = False\<rparr>)"

text \<open>The verdict of \<open>renderEvaluation\<close>.\<close>

definition verdict :: "evaluation \<Rightarrow> string" where
  "verdict ev =
     (if length (ev_Issues ev) > 0
      then
        (if ca_ReferenceHost (ev_Campaign ev) = ''1'' \<and> ev_ReferenceHostValidated ev \<and> ev_Healthy32At128 ev \<and> ev_HealthyCapacity ev = 0
         then ''FAILED'' else ''INCOMPLETE'')
      else ''PASS'')"

section \<open>Rows of the report\<close>

record comparisonRow =
  cr_Key :: pointKey
  cr_SGSP :: "pointSummary option"
  cr_QUIC :: "pointSummary option"

fun put_row :: "pointSummary \<Rightarrow> comparisonRow list \<Rightarrow> comparisonRow list" where
  "put_row p [] =
     [\<lparr>cr_Key = ps_Key p, cr_SGSP = (if ps_Implementation p = ''sgsp'' then Some p else None),
       cr_QUIC = (if ps_Implementation p = ''quic'' then Some p else None)\<rparr>]"
| "put_row p (row # rows) =
     (if same_key (cr_Key row) (ps_Key p)
      then (if ps_Implementation p = ''sgsp'' then row\<lparr>cr_Key := ps_Key p, cr_SGSP := Some p\<rparr>
            else if ps_Implementation p = ''quic'' then row\<lparr>cr_Key := ps_Key p, cr_QUIC := Some p\<rparr> else row\<lparr>cr_Key := ps_Key p\<rparr>) # rows
      else row # put_row p rows)"

definition row_less :: "comparisonRow \<Rightarrow> comparisonRow \<Rightarrow> bool" where
  "row_less a b =
     (let l = cr_Key a; r = cr_Key b in
      if pk_Profile l \<noteq> pk_Profile r then string_bytes (pk_Profile l) < string_bytes (pk_Profile r)
      else if pk_Clients l \<noteq> pk_Clients r then pk_Clients l < pk_Clients r
      else if pk_Hz l \<noteq> pk_Hz r then pk_Hz l < pk_Hz r
      else if pk_RTT l \<noteq> pk_RTT r then pk_RTT l < pk_RTT r
      else if \<not> feq (pk_Loss l) (pk_Loss r) then flt (pk_Loss l) (pk_Loss r)
      else pk_Jitter l < pk_Jitter r)"

definition comparisonRows :: "pointSummary list \<Rightarrow> comparisonRow list" where
  "comparisonRows points = sort_Slice row_less (fold put_row points [])"

definition pairMetric :: "pointSummary option \<Rightarrow> pointSummary option \<Rightarrow> (pointSummary \<Rightarrow> string) \<Rightarrow> string" where
  "pairMetric sgsp quic format =
     (case (sgsp, quic) of
        (Some a, Some b) \<Rightarrow> if ps_Valid a \<noteq> ps_Planned a \<or> ps_Valid b \<noteq> ps_Planned b then ''n/a'' else format a @ '' / '' @ format b
      | _ \<Rightarrow> ''n/a'')"

definition validTrialCount :: "evaluatedTrial list \<Rightarrow> nat" where
  "validTrialCount trials = length (filter (\<lambda>v. et_Problem v = []) trials)"

definition passText :: "bool \<Rightarrow> string" where
  "passText b = (if b then ''complete'' else ''incomplete'')"

definition average :: "float64 \<Rightarrow> int \<Rightarrow> float64" where
  "average amount seen = (if seen = 0 then Flt 0 else fdiv amount (float_of (of_int seen)))"

definition averageUint :: "u64 \<Rightarrow> int \<Rightarrow> float64" where
  "averageUint amount seen = (if seen = 0 then Flt 0 else fdiv (float_of (of_nat (unat amount))) (float_of (of_int seen)))"

section \<open>Issues\<close>

lemma issue_simps [simp]:
  "ev_Trials (issue b message ev) = ev_Trials ev" "ev_Campaign (issue b message ev) = ev_Campaign ev"
  "ev_ReferenceHostValidated (issue b message ev) = ev_ReferenceHostValidated ev" "ev_HealthyCapacity (issue b message ev) = ev_HealthyCapacity ev"
  "ev_Healthy32At128 (issue b message ev) = ev_Healthy32At128 ev" "ev_HealthyGatePassed (issue b message ev) = ev_HealthyGatePassed ev"
  "ev_ImpairmentComplete (issue b message ev) = ev_ImpairmentComplete ev" "ev_ComparisonComplete (issue b message ev) = ev_ComparisonComplete ev"
  "ev_Issues (issue b message ev) = [] \<longleftrightarrow> \<not> b \<and> ev_Issues ev = []"
  by (simp_all add: issue_def)

lemma issues_of_trials [simp]:
  "ev_Issues (fold (\<lambda>v. issue (et_Problem v \<noteq> []) (message v)) trials ev) = [] \<longleftrightarrow> (\<forall>v \<in> set trials. et_Problem v = []) \<and> ev_Issues ev = []"
  "ev_Campaign (fold (\<lambda>v. issue (et_Problem v \<noteq> []) (message v)) trials ev) = ev_Campaign ev"
  "ev_ReferenceHostValidated (fold (\<lambda>v. issue (et_Problem v \<noteq> []) (message v)) trials ev) = ev_ReferenceHostValidated ev"
  by (induction trials arbitrary: ev) auto

lemma assess_passes:
  "ev_Issues (assess ev) = [] \<longleftrightarrow>
     ev_Issues ev = [] \<and> ca_ReferenceHost (ev_Campaign ev) = ''1'' \<and> ev_ReferenceHostValidated ev \<and> (\<forall>v \<in> set (ev_Trials ev). et_Problem v = [])
     \<and> pointHasFiveValidTrials (ev_Trials ev) ''healthy'' ''sgsp'' 32 128 20000000 (Flt 0) 0 (Flt 0)
     \<and> highestHealthyCapacity (ev_Trials ev) > 0 \<and> hasRequiredImpairment (ev_Trials ev) (highestHealthyCapacity (ev_Trials ev))
     \<and> hasCompleteComparison (ev_Trials ev)"
  unfolding assess_def Let_def by auto

section \<open>Capacity\<close>

definition at_capacity :: "int \<Rightarrow> expectedTrial \<Rightarrow> bool" where
  "at_capacity c e \<longleftrightarrow> ex_Profile e = ''healthy'' \<and> ex_Implementation e = ''sgsp'' \<and> ex_Clients e = c \<and> (ex_Hz e = 60 \<or> ex_Hz e = 128)"

lemma capacity_loop_iff:
  "capacity_loop c trials n \<longleftrightarrow>
     n + length (filter (\<lambda>v. at_capacity c (et_Expected v)) trials) = 10 \<and> (\<forall>v \<in> set trials. at_capacity c (et_Expected v) \<longrightarrow> within_gates v)"
  by (induction trials arbitrary: n) (auto simp: at_capacity_def Let_def)

lemma capacity_passes_iff:
  "healthyCapacityPasses trials c \<longleftrightarrow>
     length (filter (\<lambda>v. at_capacity c (et_Expected v)) trials) = 10 \<and> (\<forall>v \<in> set trials. at_capacity c (et_Expected v) \<longrightarrow> within_gates v)"
  by (simp add: healthyCapacityPasses_def capacity_loop_iff)

lemma last_sorted_Max: "sorted xs \<Longrightarrow> xs \<noteq> [] \<Longrightarrow> last xs = Max (set (xs :: int list))"
proof (induction xs)
  case (Cons x xs)
  show ?case
  proof (cases "xs = []")
    case False
    with Cons have "last xs = Max (set xs)" "x \<le> last xs"
      by (auto dest: last_in_set)
    with False show ?thesis
      by simp
  qed simp
qed simp

lemma last_sort_Max: "xs \<noteq> [] \<Longrightarrow> last (sort xs) = Max (set (xs :: int list))"
  using last_sorted_Max [of "sort xs"] by (metis length_0_conv length_sort set_sort sorted_sort)

lemma highestHealthyCapacity_iff:
  "highestHealthyCapacity trials = c \<and> 0 < c \<longleftrightarrow> 0 < c \<and> healthyCapacityPasses trials c \<and> (\<forall>d > c. \<not> healthyCapacityPasses trials d)"
proof -
  define clients where "clients = remdups (map (\<lambda>v. ex_Clients (et_Expected v))
      (filter (\<lambda>v. ex_Profile (et_Expected v) = ''healthy'' \<and> ex_Implementation (et_Expected v) = ''sgsp'') trials))"
  define cs where "cs = filter (healthyCapacityPasses trials) clients"
  have "d \<in> set clients" if "healthyCapacityPasses trials d" for d
  proof -
    from that have "filter (\<lambda>v. at_capacity d (et_Expected v)) trials \<noteq> []"
      by (auto simp: capacity_passes_iff)
    then obtain v where "v \<in> set trials" "at_capacity d (et_Expected v)"
      by (auto simp: filter_empty_conv)
    then show ?thesis
      by (force simp: clients_def at_capacity_def)
  qed
  then have cs: "d \<in> set cs \<longleftrightarrow> healthyCapacityPasses trials d" for d
    by (auto simp: cs_def)
  have high: "highestHealthyCapacity trials = (if cs = [] then 0 else Max (set cs))"
    by (auto simp: highestHealthyCapacity_def Let_def clients_def [symmetric] cs_def [symmetric] last_sort_Max)
      (metis length_0_conv length_sort)
  show ?thesis
  proof (cases "cs = []")
    case True
    then show ?thesis
      using high cs by auto
  next
    case False
    then have "Max (set cs) = c \<longleftrightarrow> c \<in> set cs \<and> (\<forall>d \<in> set cs. d \<le> c)"
      by (intro Max_eq_iff) auto
    with False high cs show ?thesis
      by (auto simp: not_less [symmetric])
  qed
qed

section \<open>Comparison\<close>

abbreviation trial_key :: "evaluatedTrial \<Rightarrow> pointKey" where
  "trial_key v \<equiv> key_of_trial (et_Expected v)"

definition compared :: "string \<Rightarrow> evaluatedTrial list \<Rightarrow> pointKey \<Rightarrow> nat" where
  "compared implementation trials k =
     length (filter (\<lambda>v. same_key (trial_key v) k \<and> ex_Implementation (et_Expected v) = implementation \<and> et_Problem v = []) trials)"

lemma feq_facts: "feq x y \<Longrightarrow> feq y x" "feq x y \<Longrightarrow> feq y z \<Longrightarrow> feq x z"
  by (auto simp: feq_def)

lemma same_key_sym: "same_key a b \<Longrightarrow> same_key b a"
  using feq_facts(1) by (auto simp: same_key_def)

lemma same_key_trans: "same_key a b \<Longrightarrow> same_key b c \<Longrightarrow> same_key a c"
  using feq_facts(2) by (auto simp: same_key_def)

lemma same_key_refl: "same_key a b \<Longrightarrow> same_key a a \<and> same_key b b"
  using same_key_sym same_key_trans by blast

lemma bump_cases:
  obtains (found) ys k' c zs where "points = ys @ (k', c) # zs" "same_key k' k" "\<forall>x \<in> set ys. \<not> same_key (fst x) k" "bump k f points = ys @ (k', f c) # zs"
  | (new) "\<forall>x \<in> set points. \<not> same_key (fst x) k" "bump k f points = points @ [(k, f \<lparr>cp_sgsp = 0, cp_quic = 0\<rparr>)]"
proof (induction points arbitrary: thesis)
  case Nil
  then show ?case by simp
next
  case (Cons x points)
  obtain k' c where x: "x = (k', c)"
    by (cases x)
  show ?case
  proof (cases "same_key k' k")
    case True
    then show ?thesis
      using Cons.prems(1) [of "[]" k' c points] x by simp
  next
    case False
    show ?thesis
    proof (rule Cons.IH)
      fix ys k'' c' zs
      assume "points = ys @ (k'', c') # zs" "same_key k'' k" "\<forall>x \<in> set ys. \<not> same_key (fst x) k" "bump k f points = ys @ (k'', f c') # zs"
      then show ?thesis
        using Cons.prems(1) [of "x # ys" k'' c' zs] False x by simp
    next
      assume "\<forall>x \<in> set points. \<not> same_key (fst x) k" "bump k f points = points @ [(k, f \<lparr>cp_sgsp = 0, cp_quic = 0\<rparr>)]"
      then show ?thesis
        using Cons.prems(2) False x by simp
    qed
  qed
qed

text \<open>An entry is right for the trials so far.\<close>

definition entry_ok :: "evaluatedTrial list \<Rightarrow> pointKey \<times> comparedPoint \<Rightarrow> bool" where
  "entry_ok trials x \<longleftrightarrow>
     (\<exists>v \<in> set trials. trial_key v = fst x)
     \<and> (if same_key (fst x) (fst x) then cp_sgsp (snd x) = compared ''sgsp'' trials (fst x) \<and> cp_quic (snd x) = compared ''quic'' trials (fst x)
        else cp_sgsp (snd x) \<le> 1 \<and> cp_quic (snd x) \<le> 1)"

definition comparison_inv :: "evaluatedTrial list \<Rightarrow> (pointKey \<times> comparedPoint) list \<Rightarrow> bool" where
  "comparison_inv trials points \<longleftrightarrow>
     sorted_wrt (\<lambda>a b. \<not> same_key (fst a) (fst b)) points \<and> (\<forall>x \<in> set points. entry_ok trials x)
     \<and> (\<forall>v \<in> set trials. \<exists>x \<in> set points. same_key (fst x) (trial_key v) \<or> fst x = trial_key v)"

lemma compared_snoc:
  "compared i (trials @ [v]) k =
    compared i trials k + (if same_key (trial_key v) k \<and> ex_Implementation (et_Expected v) = i \<and> et_Problem v = [] then 1 else 0)"
  by (simp add: compared_def)

lemma entry_ok_other:
  assumes "entry_ok trials x" "\<not> same_key (trial_key v) (fst x)"
  shows "entry_ok (trials @ [v]) x"
  using assms by (auto simp: entry_ok_def compared_snoc)

lemma count_trial_simps:
  "cp_sgsp (count_trial v c) = cp_sgsp c + (if ex_Implementation (et_Expected v) = ''sgsp'' \<and> et_Problem v = [] then 1 else 0)"
  "cp_quic (count_trial v c) = cp_quic c + (if ex_Implementation (et_Expected v) = ''quic'' \<and> et_Problem v = [] then 1 else 0)"
  by (simp_all add: count_trial_def Let_def)

lemma bump_inv:
  assumes "comparison_inv trials points"
  shows "comparison_inv (trials @ [v]) (bump (trial_key v) (count_trial v) points)"
proof (cases rule: bump_cases [of points "trial_key v" "count_trial v"])
  case (found ys k' c zs)
  have old: "entry_ok trials x" if "x \<in> set points" for x
    using assms that by (simp add: comparison_inv_def)
  have "\<not> same_key (trial_key v) (fst x)" if "x \<in> set ys \<union> set zs" for x
  proof
    assume same: "same_key (trial_key v) (fst x)"
    show False
    proof (cases "x \<in> set ys")
      case True
      with found(3) same same_key_sym show False by blast
    next
      case False
      with that found(1) assms have "\<not> same_key k' (fst x)"
        by (auto simp: comparison_inv_def sorted_wrt_append)
      with same_key_trans [OF found(2) same] show False by blast
    qed
  qed
  then have others: "entry_ok (trials @ [v]) x" if "x \<in> set ys \<union> set zs" for x
    using that old found(1) by (intro entry_ok_other) auto
  have "entry_ok (trials @ [v]) (k', count_trial v c)"
    using old [of "(k', c)"] found(1,2) same_key_refl [OF found(2)] same_key_sym [OF found(2)]
    by (simp add: entry_ok_def compared_snoc count_trial_simps)
  with others have "\<forall>x \<in> set (ys @ (k', count_trial v c) # zs). entry_ok (trials @ [v]) x"
    by auto
  moreover have "\<exists>x \<in> set (ys @ (k', count_trial v c) # zs). same_key (fst x) (trial_key u) \<or> fst x = trial_key u" if "u \<in> set (trials @ [v])" for u
  proof (cases "u = v")
    case True
    with found(2) show ?thesis by auto
  next
    case False
    with that assms found(1) show ?thesis
      by (fastforce simp: comparison_inv_def)
  qed
  ultimately show ?thesis
    using assms found(1,4) by (simp add: comparison_inv_def sorted_wrt_append)
next
  case new
  let ?x = "(trial_key v, count_trial v \<lparr>cp_sgsp = 0, cp_quic = 0\<rparr>)"
  have "entry_ok (trials @ [v]) x" if "x \<in> set points" for x
    using assms that new(1) same_key_sym [of "trial_key v" "fst x"] by (intro entry_ok_other) (auto simp: comparison_inv_def)
  moreover have "compared i trials (trial_key v) = 0" for i
  proof -
    have "\<not> same_key (trial_key u) (trial_key v)" if "u \<in> set trials" for u
    proof
      assume same: "same_key (trial_key u) (trial_key v)"
      from that assms obtain x where x: "x \<in> set points" "same_key (fst x) (trial_key u) \<or> fst x = trial_key u"
        by (auto simp: comparison_inv_def)
      with same same_key_trans have "same_key (fst x) (trial_key v)"
        by metis
      with x(1) new(1) show False by blast
    qed
    then show ?thesis
      by (auto simp: compared_def filter_empty_conv)
  qed
  then have "entry_ok (trials @ [v]) ?x"
    by (auto simp: entry_ok_def compared_snoc count_trial_simps)
  ultimately show ?thesis
    using assms new by (auto simp: comparison_inv_def sorted_wrt_append)
qed

lemma compared_points_inv: "comparison_inv trials (compared_points trials)"
proof (induction trials rule: rev_induct)
  case Nil
  then show ?case by (simp add: comparison_inv_def compared_points_def)
next
  case (snoc v trials)
  then show ?case
    using bump_inv [of trials "compared_points trials" v] by (simp add: compared_points_def)
qed

lemma compared_same: "same_key k k' \<Longrightarrow> compared i trials k = compared i trials k'"
  unfolding compared_def by (rule arg_cong [where f = length], rule filter_cong) (auto intro: same_key_trans same_key_sym)

lemma comparison_iff:
  "hasCompleteComparison trials \<longleftrightarrow>
     trials \<noteq> [] \<and> (\<forall>v \<in> set trials. compared ''sgsp'' trials (trial_key v) = 5 \<and> compared ''quic'' trials (trial_key v) = 5)"
proof
  note inv = compared_points_inv [of trials]
  assume complete: "hasCompleteComparison trials"
  have "compared ''sgsp'' trials (trial_key v) = 5 \<and> compared ''quic'' trials (trial_key v) = 5" if v: "v \<in> set trials" for v
  proof -
    obtain x where x: "x \<in> set (compared_points trials)" "same_key (fst x) (trial_key v) \<or> fst x = trial_key v"
      using inv v by (auto simp: comparison_inv_def)
    then have "cp_sgsp (snd x) = 5 \<and> cp_quic (snd x) = 5" "entry_ok trials x"
      using complete inv by (auto simp: hasCompleteComparison_def comparison_inv_def list_all_iff)
    then have "compared ''sgsp'' trials (fst x) = 5 \<and> compared ''quic'' trials (fst x) = 5"
      by (auto simp: entry_ok_def split: if_splits)
    moreover have "compared i trials (fst x) = compared i trials (trial_key v)" for i
      using x(2) compared_same [of "fst x" "trial_key v"] by auto
    ultimately show ?thesis
      by simp
  qed
  moreover have "trials \<noteq> []"
    using complete by (auto simp: hasCompleteComparison_def compared_points_def)
  ultimately show "trials \<noteq> [] \<and> (\<forall>v \<in> set trials. compared ''sgsp'' trials (trial_key v) = 5 \<and> compared ''quic'' trials (trial_key v) = 5)"
    by blast
next
  note inv = compared_points_inv [of trials]
  assume all: "trials \<noteq> [] \<and> (\<forall>v \<in> set trials. compared ''sgsp'' trials (trial_key v) = 5 \<and> compared ''quic'' trials (trial_key v) = 5)"
  have "cp_sgsp (snd x) = 5 \<and> cp_quic (snd x) = 5" if "x \<in> set (compared_points trials)" for x
  proof -
    have ok: "entry_ok trials x"
      using inv that by (simp add: comparison_inv_def)
    then obtain v where v: "v \<in> set trials" "trial_key v = fst x"
      by (auto simp: entry_ok_def)
    with all have five: "compared ''sgsp'' trials (fst x) = 5 \<and> compared ''quic'' trials (fst x) = 5"
      by (metis (no_types))
    then have "filter (\<lambda>v. same_key (trial_key v) (fst x) \<and> ex_Implementation (et_Expected v) = ''sgsp'' \<and> et_Problem v = []) trials \<noteq> []"
      by (auto simp: compared_def)
    then have "same_key (fst x) (fst x)"
      using same_key_refl by (auto simp: filter_empty_conv)
    with ok five show ?thesis
      by (simp add: entry_ok_def)
  qed
  moreover have "compared_points trials \<noteq> []"
    using inv all by (cases trials) (auto simp: comparison_inv_def)
  ultimately show "hasCompleteComparison trials"
    by (auto simp: hasCompleteComparison_def list_all_iff split_beta)
qed

section \<open>Summaries\<close>

lemma mset_insert_slice [simp]: "mset (insert_slice lt x xs) = add_mset x (mset xs)"
  by (induction xs) auto

lemma mset_sort_Slice [simp]: "mset (sort_Slice lt xs) = mset xs"
  unfolding sort_Slice_def by (induction xs) auto

definition point_of :: "(float64 \<Rightarrow> string) \<Rightarrow> evaluatedTrial list \<Rightarrow> string \<Rightarrow> pointSummary" where
  "point_of g trials k =
     (let members = filter (\<lambda>v. mapKey g (et_Expected v) = k) trials in fold add_trial members (new_point (et_Expected (hd members))))"

lemma point_of_snoc:
  "point_of g (trials @ [v]) k =
     (if mapKey g (et_Expected v) = k
      then add_trial v (if k \<in> set (map (mapKey g \<circ> et_Expected) trials) then point_of g trials k else new_point (et_Expected v))
      else point_of g trials k)"
proof (cases "filter (\<lambda>v. mapKey g (et_Expected v) = k) trials = []")
  case True
  then show ?thesis
    by (auto simp: point_of_def filter_empty_conv)
next
  case False
  then have "k \<in> set (map (mapKey g \<circ> et_Expected) trials)"
    by (auto simp: filter_empty_conv)
  with False show ?thesis
    by (simp add: point_of_def Let_def)
qed

lemma record_trials:
  "distinct (map fst (fold (record_trial g) trials []))
   \<and> map_of (fold (record_trial g) trials []) k =
      (if k \<in> set (map (mapKey g \<circ> et_Expected) trials) then Some (point_of g trials k) else None)"
proof (induction trials arbitrary: k rule: rev_induct)
  case Nil
  then show ?case by simp
next
  case (snoc v trials)
  then show ?case
    by (auto simp: record_trial_def Let_def update_conv' distinct_update point_of_snoc)
qed

lemma mset_points:
  "mset (summarizePoints g trials) = mset (map (point_of g trials) (remdups (map (mapKey g \<circ> et_Expected) trials)))"
proof -
  define al where "al = fold (record_trial g) trials []"
  have al: "distinct (map fst al)" "map_of al k = (if k \<in> set (map (mapKey g \<circ> et_Expected) trials) then Some (point_of g trials k) else None)" for k
    using record_trials [of g trials] by (simp_all add: al_def)
  have keys: "set (map fst al) = set (remdups (map (mapKey g \<circ> et_Expected) trials))"
    using al(2) by (simp add: dom_map_of_conv_image_fst [symmetric] dom_def split: if_splits)
  have "snd x = point_of g trials (fst x)" if "x \<in> set al" for x
    using al that map_of_is_SomeI [of al "fst x" "snd x"] by (simp split: if_splits)
  then have "map snd al = map (point_of g trials) (map fst al)"
    by simp
  moreover have "mset (map fst al) = mset (remdups (map (mapKey g \<circ> et_Expected) trials))"
    using al(1) keys by (metis distinct_remdups set_eq_iff_mset_eq_distinct)
  ultimately show ?thesis
    by (simp add: summarizePoints_def al_def [symmetric] del: map_map)
qed

lemma count_groups:
  assumes "finite A" "f ` set xs \<subseteq> A"
  shows "(\<Sum>k \<in> A. int (length (filter (\<lambda>x. f x = k) xs))) = int (length xs)"
  using assms(2)
proof (induction xs)
  case (Cons x xs)
  have "(\<Sum>k \<in> A. int (length (filter (\<lambda>y. f y = k) (x # xs)))) = (\<Sum>k \<in> A. (if f x = k then 1 else 0) + int (length (filter (\<lambda>y. f y = k) xs)))"
    by (intro sum.cong) auto
  also have "\<dots> = 1 + int (length xs)"
    using Cons assms(1) by (simp add: sum.distrib)
  finally show ?case by simp
qed simp

lemma planned_fold [simp]: "ps_Planned (fold add_trial vs p) = ps_Planned p + int (length vs)"
  by (induction vs arbitrary: p) (simp_all add: add_trial_def Let_def)

lemma valid_fold [simp]: "ps_Valid (fold add_trial vs p) = ps_Valid p + int (length (filter (\<lambda>v. et_Problem v = []) vs))"
  by (induction vs arbitrary: p) (simp_all add: add_trial_def Let_def)

lemma sum_points:
  assumes "\<And>k. (n :: pointSummary \<Rightarrow> int) (point_of g trials k) = int (length (filter (\<lambda>v. mapKey g (et_Expected v) = k) (filter P trials)))"
  shows "(\<Sum>p \<leftarrow> summarizePoints g trials. n p) = int (length (filter P trials))"
proof -
  let ?ks = "remdups (map (mapKey g \<circ> et_Expected) trials)"
  have "(\<Sum>p \<leftarrow> summarizePoints g trials. n p) = sum_mset (image_mset (\<lambda>p. n p) (mset (summarizePoints g trials)))"
    by (simp add: sum_mset_sum_list [symmetric])
  also have "\<dots> = (\<Sum>k \<leftarrow> ?ks. n (point_of g trials k))"
    unfolding mset_points by (simp add: sum_mset_sum_list [symmetric] image_mset.compositionality o_def)
  also have "\<dots> = (\<Sum>k \<in> set ?ks. int (length (filter (\<lambda>v. (mapKey g \<circ> et_Expected) v = k) (filter P trials))))"
    by (simp only: assms sum_list_distinct_conv_sum_set [OF distinct_remdups] o_apply)
  also have "\<dots> = int (length (filter P trials))"
    by (rule count_groups) auto
  finally show ?thesis .
qed

text \<open>A formatter of the rates that occur: \<open>%g\<close> tells different values apart and writes no slash.\<close>

definition rates :: "evaluatedTrial list \<Rightarrow> float64 set" where
  "rates trials = (\<Union>v \<in> set trials. {ex_Loss (et_Expected v), ex_Reorder (et_Expected v)})"

definition formats :: "(float64 \<Rightarrow> string) \<Rightarrow> float64 set \<Rightarrow> bool" where
  "formats g A \<longleftrightarrow> inj_on g A \<and> (\<forall>x \<in> A. CHR ''/'' \<notin> set (g x))"

definition plain_names :: "evaluatedTrial list \<Rightarrow> bool" where
  "plain_names trials \<longleftrightarrow> (\<forall>v \<in> set trials. CHR ''/'' \<notin> set (ex_Profile (et_Expected v)) \<and> CHR ''/'' \<notin> set (ex_Implementation (et_Expected v)))"

definition point_identity :: "expectedTrial \<Rightarrow> string \<times> pointKey" where
  "point_identity e = (ex_Implementation e, key_of_trial e)"

lemma slash_inject: "CHR ''/'' \<notin> set a \<Longrightarrow> CHR ''/'' \<notin> set b \<Longrightarrow> a @ CHR ''/'' # x = b @ CHR ''/'' # y \<longleftrightarrow> a = b \<and> x = y"
proof (induction a arbitrary: b)
  case Nil
  then show ?case by (cases b) auto
next
  case (Cons c a)
  then show ?case by (cases b) auto
qed

lemma mapKey_identity:
  assumes "formats g (rates trials)" "plain_names trials" "v \<in> set trials" "w \<in> set trials"
  shows "mapKey g (et_Expected v) = mapKey g (et_Expected w) \<longleftrightarrow> point_identity (et_Expected v) = point_identity (et_Expected w)"
proof -
  let ?e = "et_Expected v" and ?d = "et_Expected w"
  have mem: "ex_Loss ?e \<in> rates trials" "ex_Reorder ?e \<in> rates trials" "ex_Loss ?d \<in> rates trials" "ex_Reorder ?d \<in> rates trials"
    using assms(3,4) by (auto simp: rates_def)
  then have floats: "g (ex_Loss ?e) = g (ex_Loss ?d) \<longleftrightarrow> ex_Loss ?e = ex_Loss ?d" "g (ex_Reorder ?e) = g (ex_Reorder ?d) \<longleftrightarrow> ex_Reorder ?e = ex_Reorder ?d"
    using assms(1) by (auto simp: formats_def inj_on_eq_iff)
  have plain: "CHR ''/'' \<notin> set (g (ex_Loss ?e))" "CHR ''/'' \<notin> set (g (ex_Loss ?d))" "CHR ''/'' \<notin> set (ex_Profile ?e)" "CHR ''/'' \<notin> set (ex_Profile ?d)"
      "CHR ''/'' \<notin> set (ex_Implementation ?e)" "CHR ''/'' \<notin> set (ex_Implementation ?d)"
    using assms mem by (auto simp: formats_def plain_names_def)
  have ints: "FormatInt i = FormatInt j \<longleftrightarrow> i = j" for i j
    using FormatInt_inject by blast
  show ?thesis
    by (auto simp: mapKey_def point_identity_def key_of_trial_def Let_def slash_inject plain FormatInt_chars ints floats)
qed

text \<open>What the trials of a point add up to, column by column.\<close>

definition input_of :: "evaluatedTrial \<Rightarrow> durationSummary" where
  "input_of v = ch_Duration (ti_InputSendPlusReceive (me_Timing (tr_Measurement (et_Trial v))))"

definition update_of :: "evaluatedTrial \<Rightarrow> durationSummary" where
  "update_of v = ch_Duration (ti_UpdateSendPlusReceive (me_Timing (tr_Measurement (et_Trial v))))"

definition totals :: "evaluatedTrial list \<Rightarrow> pointSummary \<Rightarrow> bool" where
  "totals members p \<longleftrightarrow>
     (let valid = filter (\<lambda>v. et_Problem v = []) members; m = (\<lambda>v. tr_Measurement (et_Trial v)) in
      ps_Planned p = int (length members)
      \<and> ps_Completed p = int (length (filter (\<lambda>v. tr_Status (et_Trial v) = ''completed'') members))
      \<and> ps_Valid p = int (length valid)
      \<and> ps_InputP99 p = fold max (map (\<lambda>v. ds_P99UpperBound (input_of v)) valid) 0
      \<and> ps_UpdateP99 p = fold max (map (\<lambda>v. ds_P99UpperBound (update_of v)) valid) 0
      \<and> (ps_InputOverflow p \<longleftrightarrow> (\<exists>v \<in> set valid. ds_P99Overflow (input_of v)))
      \<and> (ps_UpdateOverflow p \<longleftrightarrow> (\<exists>v \<in> set valid. ds_P99Overflow (update_of v)))
      \<and> ps_UpdatesOffered p = (\<Sum>v \<leftarrow> valid. oc_Offered (me_Updates (m v)))
      \<and> ps_UpdatesDelivered p = (\<Sum>v \<leftarrow> valid. oc_Delivered (me_Updates (m v)))
      \<and> ps_LocalDrops p = (\<Sum>v \<leftarrow> valid. nm_LocalDatagramsDropped (me_Network (m v)))
      \<and> ps_CoalescedDrops p = (\<Sum>v \<leftarrow> valid. nm_CoalescedDatagramsDropped (me_Network (m v)))
      \<and> ps_LocalMetricsMissing p =
           (if ps_Implementation p = ''sgsp'' then int (length (filter (\<lambda>v. \<not> nm_LocalDropMetricsAvailable (me_Network (m v))) valid)) else 0)
      \<and> ps_RelayOverloads p = int (length (filter (\<lambda>v. re_Overloaded (me_Relay (m v))) valid))
      \<and> ps_CPUSeconds p = fold (\<lambda>v x. fadd x (ru_CPUSeconds (me_Runtime (m v)))) valid (Flt 0)
      \<and> ps_HeapAlloc p = (\<Sum>v \<leftarrow> valid. ru_HeapAlloc (me_Runtime (m v)))
      \<and> ps_AllocatedBytesPerOperation p = fold (\<lambda>v x. fadd x (ru_AllocatedBytesPerOperation (me_Runtime (m v)))) valid (Flt 0))"

lemma totals_new: "totals [] (new_point e)"
  by (simp add: totals_def new_point_def)

lemma add_trial_identity [simp]: "ps_Key (add_trial v p) = ps_Key p" "ps_Implementation (add_trial v p) = ps_Implementation p"
  by (simp_all add: add_trial_def Let_def)

lemma add_valid:
  assumes "et_Problem v = []"
  shows "ps_Planned (add_trial v p) = ps_Planned p + 1"
    "ps_Completed (add_trial v p) = ps_Completed p + (if tr_Status (et_Trial v) = ''completed'' then 1 else 0)"
    "ps_Valid (add_trial v p) = ps_Valid p + 1"
    "ps_InputP99 (add_trial v p) = max (ds_P99UpperBound (input_of v)) (ps_InputP99 p)"
    "ps_UpdateP99 (add_trial v p) = max (ds_P99UpperBound (update_of v)) (ps_UpdateP99 p)"
    "ps_InputOverflow (add_trial v p) \<longleftrightarrow> ds_P99Overflow (input_of v) \<or> ps_InputOverflow p"
    "ps_UpdateOverflow (add_trial v p) \<longleftrightarrow> ds_P99Overflow (update_of v) \<or> ps_UpdateOverflow p"
    "ps_UpdatesOffered (add_trial v p) = ps_UpdatesOffered p + oc_Offered (me_Updates (tr_Measurement (et_Trial v)))"
    "ps_UpdatesDelivered (add_trial v p) = ps_UpdatesDelivered p + oc_Delivered (me_Updates (tr_Measurement (et_Trial v)))"
    "ps_LocalDrops (add_trial v p) = ps_LocalDrops p + nm_LocalDatagramsDropped (me_Network (tr_Measurement (et_Trial v)))"
    "ps_CoalescedDrops (add_trial v p) = ps_CoalescedDrops p + nm_CoalescedDatagramsDropped (me_Network (tr_Measurement (et_Trial v)))"
    "ps_LocalMetricsMissing (add_trial v p) = ps_LocalMetricsMissing p
       + (if \<not> nm_LocalDropMetricsAvailable (me_Network (tr_Measurement (et_Trial v))) \<and> ps_Implementation p = ''sgsp'' then 1 else 0)"
    "ps_RelayOverloads (add_trial v p) = ps_RelayOverloads p + (if re_Overloaded (me_Relay (tr_Measurement (et_Trial v))) then 1 else 0)"
    "ps_CPUSeconds (add_trial v p) = fadd (ps_CPUSeconds p) (ru_CPUSeconds (me_Runtime (tr_Measurement (et_Trial v))))"
    "ps_HeapAlloc (add_trial v p) = ps_HeapAlloc p + ru_HeapAlloc (me_Runtime (tr_Measurement (et_Trial v)))"
    "ps_AllocatedBytesPerOperation (add_trial v p) = fadd (ps_AllocatedBytesPerOperation p) (ru_AllocatedBytesPerOperation (me_Runtime (tr_Measurement (et_Trial v))))"
  using assms by (simp_all add: add_trial_def Let_def input_of_def update_of_def max_def disj_commute)

lemma totals_add:
  assumes "totals vs p"
  shows "totals (vs @ [v]) (add_trial v p)"
proof (cases "et_Problem v = []")
  case True
  define valid where "valid = filter (\<lambda>v. et_Problem v = []) vs"
  have split: "filter (\<lambda>v. et_Problem v = []) (vs @ [v]) = valid @ [v]"
    using True by (simp add: valid_def)
  note t = assms [unfolded totals_def Let_def valid_def [symmetric]]
  show ?thesis
    unfolding totals_def Let_def split add_valid [OF True] add_trial_identity by (intro conjI) (use t in simp_all)
next
  case False
  with assms show ?thesis
    by (simp add: totals_def add_trial_def Let_def)
qed

lemma totals_fold: "totals vs (fold add_trial vs (new_point e))"
  by (induction vs rule: rev_induct) (simp_all add: totals_new totals_add)

lemma fold_identity: "ps_Key (fold add_trial vs p) = ps_Key p" "ps_Implementation (fold add_trial vs p) = ps_Implementation p"
  by (induction vs arbitrary: p) simp_all

text \<open>The place of a point in the table; a rate that is a number has a place among the others.\<close>

fun rate_rank :: "float64 \<Rightarrow> int \<times> rat" where
  "rate_rank (Flt x) = (0, x)"
| "rate_rank (Infty b) = (if b then 1 else - 1, 0)"
| "rate_rank NaN = (0, 0)"

definition point_rank :: "pointSummary \<Rightarrow> bytes \<times> int \<times> int \<times> int \<times> (int \<times> rat) \<times> int \<times> bytes" where
  "point_rank p =
     (let k = ps_Key p in
      (string_bytes (pk_Profile k), pk_Clients k, pk_Hz k, pk_RTT k, rate_rank (pk_Loss k), pk_Jitter k, string_bytes (ps_Implementation p)))"

lemma rate_rank_less:
  assumes "x \<noteq> NaN" "y \<noteq> NaN"
  shows "flt x y \<longleftrightarrow> rate_rank x < rate_rank y" "feq x y \<longleftrightarrow> rate_rank x = rate_rank y"
  using assms by (cases x; cases y; auto simp: feq_def less_prod_def)+

lemma lex_step: "(x :: 'x :: linorder, r :: 'r :: linorder) < (y, s) \<longleftrightarrow> (if x \<noteq> y then x < y else r < s)"
  by (auto simp: less_prod_simp)

lemma point_less_rank:
  assumes "pk_Loss (ps_Key a) \<noteq> NaN" "pk_Loss (ps_Key b) \<noteq> NaN"
  shows "point_less a b \<longleftrightarrow> point_rank a < point_rank b"
  unfolding point_less_def point_rank_def Let_def lex_step rate_rank_less [OF assms] string_bytes_inject by (rule refl)

lemma insert_slice_sorted:
  assumes "\<And>a b. a \<in> insert x (set xs) \<Longrightarrow> b \<in> insert x (set xs) \<Longrightarrow> lt a b \<longleftrightarrow> (f a :: 'r :: linorder) < f b" "sorted (map f xs)"
  shows "sorted (map f (insert_slice lt x xs))"
  using assms
proof (induction xs)
  case (Cons y ys)
  have sorted: "sorted (map f (insert_slice lt x ys))"
    using Cons.prems by (intro Cons.IH) auto
  have lt: "lt y x \<longleftrightarrow> f y < f x"
    using Cons.prems(1) by simp
  have "set (insert_slice lt x ys) = insert x (set ys)"
    using mset_insert_slice [of lt x ys] by (metis set_mset_add_mset_insert set_mset_mset)
  then show ?case
    using Cons.prems(2) sorted lt by (auto simp: not_less intro: order_trans)
qed simp

lemma sort_Slice_sorted:
  assumes "\<And>a b. a \<in> set xs \<Longrightarrow> b \<in> set xs \<Longrightarrow> lt a b \<longleftrightarrow> (f a :: 'r :: linorder) < f b"
  shows "sorted (map f (sort_Slice lt xs))"
  using assms
proof (induction xs)
  case (Cons x xs)
  have "set (sort_Slice lt xs) = set xs"
    by (metis mset_sort_Slice set_mset_mset)
  then have "sorted (map f (insert_slice lt x (sort_Slice lt xs)))"
    using Cons.prems by (intro insert_slice_sorted Cons.IH) auto
  then show ?case
    by (simp add: sort_Slice_def)
qed (simp add: sort_Slice_def)

lemma point_of_identity:
  assumes "formats g (rates trials)" "plain_names trials" "v \<in> set trials"
  defines "p \<equiv> point_of g trials (mapKey g (et_Expected v))"
  shows "(ps_Implementation p, ps_Key p) = point_identity (et_Expected v)"
    and "totals (filter (\<lambda>w. point_identity (et_Expected w) = point_identity (et_Expected v)) trials) p"
proof -
  let ?members = "filter (\<lambda>w. point_identity (et_Expected w) = point_identity (et_Expected v)) trials"
  have members: "filter (\<lambda>w. mapKey g (et_Expected w) = mapKey g (et_Expected v)) trials = ?members"
    using mapKey_identity [OF assms(1,2) _ assms(3)] by (intro filter_cong) auto
  then have p: "p = fold add_trial ?members (new_point (et_Expected (hd ?members)))"
    by (simp add: p_def point_of_def Let_def)
  have "v \<in> set ?members"
    using assms(3) by simp
  then have "hd ?members \<in> set ?members"
    by (metis hd_in_set list.set_cases list.distinct(1))
  then have "point_identity (et_Expected (hd ?members)) = point_identity (et_Expected v)"
    by simp
  moreover have "(ps_Implementation p, ps_Key p) = point_identity (et_Expected (hd ?members))"
    unfolding p fold_identity by (simp add: new_point_def point_identity_def)
  ultimately show "(ps_Implementation p, ps_Key p) = point_identity (et_Expected v)"
    by simp
  show "totals ?members p"
    unfolding p by (rule totals_fold)
qed

text \<open>
  C34. The table of a campaign's points, when the names of profiles and implementations hold no slash and \<open>%g\<close> tells the rates apart: there is exactly
  one summary for every implementation and combination of profile, clients, rate, round-trip time, loss, jitter and reordering that was planned, and its
  columns are the totals of precisely the trials of that point: planned, completed and valid trials are counted, the percentiles are the maxima over the valid
  trials, overflows hold if one trial overflowed, and counters, drops, overloads and costs are added up over the valid trials. The rows are ordered by
  profile, clients, rate, round-trip time, loss, jitter and implementation unless a loss is not a number, and the planned and valid columns add up to the number of
  planned trials and of trials without a problem.
\<close>

theorem bench_points:
  assumes "formats g (rates trials)" "plain_names trials"
  shows "distinct (map (\<lambda>p. (ps_Implementation p, ps_Key p)) (summarizePoints g trials))
    \<and> (\<lambda>p. (ps_Implementation p, ps_Key p)) ` set (summarizePoints g trials) = (\<lambda>v. (ex_Implementation (et_Expected v), key_of_trial (et_Expected v))) ` set trials
    \<and> (\<forall>p \<in> set (summarizePoints g trials).
         totals (filter (\<lambda>v. ex_Implementation (et_Expected v) = ps_Implementation p \<and> key_of_trial (et_Expected v) = ps_Key p) trials) p)
    \<and> (NaN \<notin> rates trials \<longrightarrow> sorted (map point_rank (summarizePoints g trials)))
    \<and> (\<Sum>p \<leftarrow> summarizePoints g trials. ps_Planned p) = int (length trials)
    \<and> (\<Sum>p \<leftarrow> summarizePoints g trials. ps_Valid p) = int (validTrialCount trials)"
proof -
  let ?ident = "\<lambda>p. (ps_Implementation p, ps_Key p)" and ?points = "summarizePoints g trials" and ?key = "mapKey g \<circ> et_Expected"
  have set: "set ?points = (\<lambda>v. point_of g trials (?key v)) ` set trials"
    using arg_cong [OF mset_points [of g trials], of set_mset] by (simp add: image_image)
  note point = point_of_identity [OF assms]
  have inj: "inj_on (?ident \<circ> point_of g trials) (set (map ?key trials))"
  proof (rule inj_onI)
    fix j k
    assume mem: "j \<in> set (map ?key trials)" "k \<in> set (map ?key trials)" and eq: "(?ident \<circ> point_of g trials) j = (?ident \<circ> point_of g trials) k"
    from mem obtain v w where v: "v \<in> set trials" "j = mapKey g (et_Expected v)" and w: "w \<in> set trials" "k = mapKey g (et_Expected w)"
      by auto
    have "point_identity (et_Expected v) = point_identity (et_Expected w)"
      using eq point(1) [OF v(1)] point(1) [OF w(1)] unfolding v(2) w(2) o_apply by simp
    then show "j = k"
      using mapKey_identity [OF assms v(1) w(1)] v(2) w(2) by simp
  qed
  have "mset (map ?ident ?points) = mset (map (?ident \<circ> point_of g trials) (remdups (map ?key trials)))"
    by (simp only: mset_map mset_points multiset.map_comp o_assoc)
  moreover have "distinct (map (?ident \<circ> point_of g trials) (remdups (map ?key trials)))"
    using inj by (simp add: distinct_map)
  ultimately have distinct: "distinct (map ?ident ?points)"
    using mset_eq_imp_distinct_iff by blast
  have image: "?ident ` set ?points = (\<lambda>v. (ex_Implementation (et_Expected v), key_of_trial (et_Expected v))) ` set trials"
    unfolding set image_image using point(1) by (intro image_cong) (simp_all add: point_identity_def)
  have totals: "totals (filter (\<lambda>v. ex_Implementation (et_Expected v) = ps_Implementation p \<and> key_of_trial (et_Expected v) = ps_Key p) trials) p"
    if mem: "p \<in> set ?points" for p
  proof -
    obtain v where v: "v \<in> set trials" "p = point_of g trials (mapKey g (et_Expected v))"
      using mem unfolding set by auto
    have "filter (\<lambda>w. point_identity (et_Expected w) = point_identity (et_Expected v)) trials =
        filter (\<lambda>w. ex_Implementation (et_Expected w) = ps_Implementation p \<and> key_of_trial (et_Expected w) = ps_Key p) trials"
      using point(1) [OF v(1)] unfolding v(2) by (intro filter_cong) (auto simp: point_identity_def)
    then show ?thesis
      using point(2) [OF v(1)] unfolding v(2) [symmetric] by (simp only:)
  qed
  have "pk_Loss (ps_Key p) \<in> rates trials" if "p \<in> set ?points" for p
  proof -
    have "?ident p \<in> (\<lambda>v. (ex_Implementation (et_Expected v), key_of_trial (et_Expected v))) ` set trials"
      using image that by blast
    then show ?thesis
      by (auto simp: key_of_trial_def rates_def)
  qed
  moreover have "set ?points = set (map snd (fold (record_trial g) trials []))"
    unfolding summarizePoints_def by (metis mset_sort_Slice set_mset_mset)
  ultimately have loss: "pk_Loss (ps_Key p) \<in> rates trials" if "p \<in> set (map snd (fold (record_trial g) trials []))" for p
    using that by blast
  have sorted: "sorted (map point_rank ?points)" if "NaN \<notin> rates trials"
    unfolding summarizePoints_def
  proof (rule sort_Slice_sorted)
    fix a b
    assume "a \<in> set (map snd (fold (record_trial g) trials []))" "b \<in> set (map snd (fold (record_trial g) trials []))"
    then have "pk_Loss (ps_Key a) \<noteq> NaN" "pk_Loss (ps_Key b) \<noteq> NaN"
      using loss that by metis+
    then show "point_less a b \<longleftrightarrow> point_rank a < point_rank b"
      by (rule point_less_rank)
  qed
  have "(\<Sum>p \<leftarrow> ?points. ps_Planned p) = int (length trials)"
    using sum_points [of ps_Planned g trials "\<lambda>_. True"] by (simp add: point_of_def Let_def new_point_def)
  moreover have "(\<Sum>p \<leftarrow> ?points. ps_Valid p) = int (validTrialCount trials)"
    using sum_points [of ps_Valid g trials "\<lambda>v. et_Problem v = []"]
    by (simp add: point_of_def Let_def new_point_def validTrialCount_def conj_commute)
  ultimately show ?thesis
    using distinct image totals sorted by blast
qed

section \<open>The verdict\<close>

text \<open>What a passing campaign is, over its plan and its raw results.\<close>

definition conclusive :: "(string \<Rightarrow> raw_result) \<Rightarrow> expectedTrial \<Rightarrow> bool" where
  "conclusive raw e \<longleftrightarrow> (\<exists>t. raw (ex_Path e) = Decoded t \<and> config_matches (tr_Config t) e \<and> tr_Status t = ''completed'' \<and> validTrial t)"

definition planned_at :: "expectedTrial list \<Rightarrow> string \<Rightarrow> string \<Rightarrow> int \<Rightarrow> int \<Rightarrow> int \<Rightarrow> float64 \<Rightarrow> int \<Rightarrow> float64 \<Rightarrow> nat" where
  "planned_at plan profile implementation clients hz rtt loss jitter reorder =
     length (filter (\<lambda>e. ex_Profile e = profile \<and> ex_Implementation e = implementation
       \<and> same_key (key_of_trial e) \<lparr>pk_Profile = profile, pk_Clients = clients, pk_Hz = hz, pk_RTT = rtt, pk_Loss = loss, pk_Jitter = jitter, pk_Reorder = reorder\<rparr>) plan)"

definition sustained :: "(string \<Rightarrow> raw_result) \<Rightarrow> expectedTrial list \<Rightarrow> int \<Rightarrow> bool" where
  "sustained raw plan c \<longleftrightarrow>
     length (filter (at_capacity c) plan) = 10 \<and> (\<forall>e \<in> set plan. at_capacity c e \<longrightarrow> within_gates (evaluated raw e))"

definition impairment_matrix :: "expectedTrial list \<Rightarrow> int \<Rightarrow> bool" where
  "impairment_matrix plan clients \<longleftrightarrow>
     (\<forall>hz \<in> {60, 128}. \<forall>loss \<in> {Flt 0, float_of (1 / 100), float_of (5 / 100)}. \<forall>implementation \<in> {''sgsp'', ''quic''}.
        (\<forall>rtt \<in> {20000000, 50000000, 100000000}. planned_at plan ''impairment'' implementation clients hz rtt loss 0 (Flt 0) = 5)
        \<and> planned_at plan ''impairment-jitter'' implementation clients hz 50000000 loss 10000000 (float_of (2 / 100)) = 5)"

lemma evaluated_simps [simp]:
  "et_Expected (evaluated raw e) = e"
  "et_Problem (evaluated raw e) = [] \<longleftrightarrow> conclusive raw e"
  by (auto simp: evaluated_def conclusive_def loadAndMatch_def split: raw_result.split)

lemma five_planned:
  assumes "\<forall>e \<in> set plan. conclusive raw e"
  shows "pointHasFiveValidTrials (map (evaluated raw) plan) profile implementation clients hz rtt loss jitter reorder \<longleftrightarrow>
    planned_at plan profile implementation clients hz rtt loss jitter reorder = 5"
proof -
  have "filter (\<lambda>e. ex_Profile e = profile \<and> ex_Implementation e = implementation \<and> ex_Clients e = clients \<and> ex_Hz e = hz \<and> ex_RTT e = rtt
        \<and> feq (ex_Loss e) loss \<and> ex_Jitter e = jitter \<and> feq (ex_Reorder e) reorder \<and> conclusive raw e) plan =
      filter (\<lambda>e. ex_Profile e = profile \<and> ex_Implementation e = implementation \<and> same_key (key_of_trial e)
        \<lparr>pk_Profile = profile, pk_Clients = clients, pk_Hz = hz, pk_RTT = rtt, pk_Loss = loss, pk_Jitter = jitter, pk_Reorder = reorder\<rparr>) plan"
    using assms by (intro filter_cong) (auto simp: same_key_def key_of_trial_def)
  then show ?thesis
    by (simp add: pointHasFiveValidTrials_def planned_at_def Let_def filter_map o_def)
qed

lemma capacity_sustained: "healthyCapacityPasses (map (evaluated raw) plan) c \<longleftrightarrow> sustained raw plan c"
  by (simp add: capacity_passes_iff sustained_def filter_map o_def)

lemma impairment_planned:
  assumes "\<forall>e \<in> set plan. conclusive raw e" "0 < c"
  shows "hasRequiredImpairment (map (evaluated raw) plan) c \<longleftrightarrow> even c \<and> impairment_matrix plan (c div 2)"
  using assms(2) unfolding hasRequiredImpairment_def impairment_matrix_def five_planned [OF assms(1)] Let_def
  by (simp add: even_iff_mod_2_eq_zero) blast

definition planned_like :: "expectedTrial list \<Rightarrow> string \<Rightarrow> expectedTrial \<Rightarrow> nat" where
  "planned_like plan implementation e =
     length (filter (\<lambda>u. same_key (key_of_trial u) (key_of_trial e) \<and> ex_Implementation u = implementation) plan)"

lemma compared_planned:
  assumes "\<forall>e \<in> set plan. conclusive raw e"
  shows "compared i (map (evaluated raw) plan) (key_of_trial e) = planned_like plan i e"
proof -
  have "filter (\<lambda>u. same_key (key_of_trial u) (key_of_trial e) \<and> ex_Implementation u = i \<and> conclusive raw u) plan =
      filter (\<lambda>u. same_key (key_of_trial u) (key_of_trial e) \<and> ex_Implementation u = i) plan"
    using assms by (intro filter_cong) auto
  then show ?thesis
    by (simp add: compared_def planned_like_def filter_map o_def)
qed

lemma comparison_planned:
  assumes "\<forall>e \<in> set plan. conclusive raw e"
  shows "hasCompleteComparison (map (evaluated raw) plan) \<longleftrightarrow>
    plan \<noteq> [] \<and> (\<forall>e \<in> set plan. planned_like plan ''sgsp'' e = 5 \<and> planned_like plan ''quic'' e = 5)"
  by (simp add: comparison_iff compared_planned [OF assms])

lemma verdict_pass: "verdict ev = ''PASS'' \<longleftrightarrow> ev_Issues ev = []"
  by (simp add: verdict_def)

text \<open>
  C33. The verdict of a benchmark campaign is PASS exactly when: the reference host was asked for and validated; the raw result of every planned trial decodes,
  has the planned configuration, completed and is valid; five SGSP trials are planned for 32 clients at 128 Hz; there is a highest client count whose trials at
  60 and 128 Hz, ten of them, all stay within the gates for overhead, drops, coalescing and the relay, and that count is even; at half of it the plan holds five
  trials of either implementation for every point of the impairment matrix; and every planned point has five SGSP and five QUIC trials.
\<close>

theorem bench_verdict:
  "verdict (evaluateCampaign g raw manifest validated plan) = ''PASS'' \<longleftrightarrow>
     ca_ReferenceHost manifest = ''1'' \<and> validated
     \<and> (\<forall>e \<in> set plan. conclusive raw e)
     \<and> planned_at plan ''healthy'' ''sgsp'' 32 128 20000000 (Flt 0) 0 (Flt 0) = 5
     \<and> (\<exists>c. 0 < c \<and> even c \<and> sustained raw plan c \<and> (\<forall>d > c. \<not> sustained raw plan d) \<and> impairment_matrix plan (c div 2))
     \<and> plan \<noteq> [] \<and> (\<forall>e \<in> set plan. planned_like plan ''sgsp'' e = 5 \<and> planned_like plan ''quic'' e = 5)"
proof (cases "\<forall>e \<in> set plan. conclusive raw e")
  case True
  let ?trials = "map (evaluated raw) plan"
  have capacity: "highestHealthyCapacity ?trials > 0 \<and> hasRequiredImpairment ?trials (highestHealthyCapacity ?trials) \<longleftrightarrow>
      (\<exists>c. 0 < c \<and> even c \<and> sustained raw plan c \<and> (\<forall>d > c. \<not> sustained raw plan d) \<and> impairment_matrix plan (c div 2))"
    using impairment_planned [OF True] highestHealthyCapacity_iff [of ?trials] unfolding capacity_sustained by metis
  show ?thesis
    unfolding verdict_pass evaluateCampaign_def Let_def assess_passes
    by (simp add: True five_planned [OF True] comparison_planned [OF True] capacity [symmetric])
next
  case False
  then show ?thesis
    unfolding verdict_pass evaluateCampaign_def Let_def assess_passes by auto
qed

definition sample_planned :: expectedTrial where
  "sample_planned = \<lparr>ex_Implementation = ''sgsp'', ex_Clients = 32, ex_Hz = 128, ex_RTT = 20000000, ex_Loss = Flt 0, ex_Jitter = 0, ex_Reorder = Flt 0,
     ex_Seed = 1, ex_Profile = ''healthy'', ex_Duration = 1000000000, ex_Path = ''raw/1.json''\<rparr>"

definition sample_result :: trial where
  "sample_result = zero_trial\<lparr>tr_Status := ''completed'',
     tr_Config := \<lparr>cf_Implementation = ''sgsp'', cf_Clients = 32, cf_Hz = 128, cf_RTT = 20000000, cf_Jitter = 0, cf_Loss = Flt 0, cf_Reorder = Flt 0,
       cf_Seed = 1, cf_Duration = 1000000000\<rparr>\<rparr>"

lemma bench_verdict_witness:
  "verdict (evaluateCampaign (\<lambda>_. ''0'') (\<lambda>_. Decoded sample_result) \<lparr>ca_ReferenceHost = ''1''\<rparr> True [sample_planned]) \<noteq> ''PASS''
   \<and> conclusive (\<lambda>_. Decoded sample_result) sample_planned
   \<and> planned_at [sample_planned] ''healthy'' ''sgsp'' 32 128 20000000 (Flt 0) 0 (Flt 0) = 1"
proof (intro conjI)
  have one: "planned_at [sample_planned] ''healthy'' ''sgsp'' 32 128 20000000 (Flt 0) 0 (Flt 0) = 1"
    by (simp add: planned_at_def sample_planned_def same_key_def key_of_trial_def feq_def)
  then show "verdict (evaluateCampaign (\<lambda>_. ''0'') (\<lambda>_. Decoded sample_result) \<lparr>ca_ReferenceHost = ''1''\<rparr> True [sample_planned]) \<noteq> ''PASS''"
    unfolding bench_verdict by simp
  show "conclusive (\<lambda>_. Decoded sample_result) sample_planned"
    by (simp add: conclusive_def sample_result_def sample_planned_def config_matches_def feq_def validTrial_def zero_trial_def Let_def)
  show "planned_at [sample_planned] ''healthy'' ''sgsp'' 32 128 20000000 (Flt 0) 0 (Flt 0) = 1"
    by (rule one)
qed

text \<open>Two trials of one point and one of another; the formatter tells the two rates apart.\<close>

theorem bench_points_witness:
  "\<exists>p \<in> set (summarizePoints (\<lambda>x. if x = Flt 0 then ''0'' else ''0.5'')
       (map (evaluated (\<lambda>_. Decoded sample_result)) [sample_planned, sample_planned\<lparr>ex_Loss := Flt (1 / 2)\<rparr>, sample_planned])).
     pk_Loss (ps_Key p) = Flt 0 \<and> ps_Planned p = 2 \<and> ps_Valid p = 2"
proof -
  let ?g = "\<lambda>x. if x = Flt 0 then ''0'' else ''0.5''" and ?other = "sample_planned\<lparr>ex_Loss := Flt (1 / 2)\<rparr>"
  let ?trials = "map (evaluated (\<lambda>_. Decoded sample_result)) [sample_planned, ?other, sample_planned]"
  have "formats ?g (rates ?trials)" "plain_names ?trials"
    by (simp_all add: formats_def rates_def plain_names_def inj_on_def sample_planned_def)
  note points = bench_points [OF this]
  have "(''sgsp'', key_of_trial sample_planned) \<in> (\<lambda>v. (ex_Implementation (et_Expected v), key_of_trial (et_Expected v))) ` set ?trials"
    by (simp add: sample_planned_def)
  then have "(''sgsp'', key_of_trial sample_planned) \<in> (\<lambda>p. (ps_Implementation p, ps_Key p)) ` set (summarizePoints ?g ?trials)"
    unfolding points [THEN conjunct2, THEN conjunct1] .
  then obtain p where p: "p \<in> set (summarizePoints ?g ?trials)" "ps_Implementation p = ''sgsp''" "ps_Key p = key_of_trial sample_planned"
    by (elim imageE) (metis prod.inject)
  have valid: "conclusive (\<lambda>_. Decoded sample_result) sample_planned"
    by (simp add: conclusive_def sample_result_def sample_planned_def config_matches_def feq_def validTrial_def zero_trial_def Let_def)
  have "filter (\<lambda>v. ex_Implementation (et_Expected v) = ''sgsp'' \<and> key_of_trial (et_Expected v) = key_of_trial sample_planned) ?trials
      = map (evaluated (\<lambda>_. Decoded sample_result)) [sample_planned, sample_planned]"
    by (simp add: key_of_trial_def sample_planned_def)
  then have "totals (map (evaluated (\<lambda>_. Decoded sample_result)) [sample_planned, sample_planned]) p"
    using points [THEN conjunct2, THEN conjunct2, THEN conjunct1, rule_format, OF p(1)] unfolding p(2,3) by (simp only:)
  then have "ps_Planned p = 2" "ps_Valid p = 2"
    using valid by (simp_all add: totals_def)
  moreover have "pk_Loss (ps_Key p) = Flt 0"
    by (simp add: p(3) key_of_trial_def sample_planned_def)
  ultimately show ?thesis
    using p(1) by blast
qed

end
